(* ===== verification/Prelude.thy ===== *)
theory Prelude
  imports Main "HOL-Library.Word"
begin

text \<open>
  Shared vocabulary of the development: Go's \<open>byte\<close>, \<open>[]byte\<close> and integer types, the
  conversions between byte slices and strings (a HOL \<open>char\<close> is exactly one byte, so a
  Go string is a HOL \<open>string\<close>), big-endian integers, \<open>io.ReadFull\<close>, and the generic lemmas
  on lists, sums and words that the component theories use.
\<close>

unbundle bit_operations_syntax

named_theorems go_simps \<open>rewrite rules that evaluate a modelled Go operation\<close>
named_theorems wf_intros \<open>well-formedness of the values the operations build\<close>
named_theorems inv_intros \<open>an operation or a step keeps a component's invariant\<close>

section \<open>Types\<close>

type_synonym byte = "8 word"
type_synonym bytes = "byte list"
type_synonym uint32 = "32 word"
type_synonym uint64 = "64 word"

text \<open>A Go call that returns \<open>(value, error)\<close>: \<open>Inl\<close> is a non-nil error.\<close>

type_synonym ('e, 'a) result = "'e + 'a"

section \<open>Bytes and strings\<close>

definition byte_of_char :: "char \<Rightarrow> byte" where
  "byte_of_char c = word_of_nat (of_char c)"

definition char_of_byte :: "byte \<Rightarrow> char" where
  "char_of_byte b = char_of (unat b)"

text \<open>Go's conversions \<open>[]byte(s)\<close> and \<open>string(b)\<close>.\<close>

definition bytes_of_string :: "string \<Rightarrow> bytes" where
  "bytes_of_string s = map byte_of_char s"

definition string_of_bytes :: "bytes \<Rightarrow> string" where
  "string_of_bytes bs = map char_of_byte bs"

lemma of_char_less_256 [simp]: "(of_char c :: nat) < 256"
  using nat_of_char_less_256 by simp

lemma unat_byte_of_char [simp]: "unat (byte_of_char c) = of_char c"
  by (simp add: byte_of_char_def unat_of_nat take_bit_nat_eq_self)

lemma char_of_byte_of_char [simp]: "char_of_byte (byte_of_char c) = c"
  by (simp add: char_of_byte_def)

lemma byte_of_char_of_byte [simp]: "byte_of_char (char_of_byte b) = b"
proof -
  have "unat b < 256"
    using unsigned_less [of b, where 'a = nat] by simp
  then show ?thesis
    by (simp add: byte_of_char_def char_of_byte_def of_char_of)
qed

lemma string_of_bytes_of_string [simp]: "string_of_bytes (bytes_of_string s) = s"
  by (simp add: string_of_bytes_def bytes_of_string_def comp_def)

lemma bytes_of_string_of_bytes [simp]: "bytes_of_string (string_of_bytes bs) = bs"
  by (simp add: string_of_bytes_def bytes_of_string_def comp_def)

lemma length_bytes_of_string [simp]: "length (bytes_of_string s) = length s"
  by (simp add: bytes_of_string_def)

lemma length_string_of_bytes [simp]: "length (string_of_bytes bs) = length bs"
  by (simp add: string_of_bytes_def)

lemma bytes_of_string_append [simp]:
  "bytes_of_string (s @ t) = bytes_of_string s @ bytes_of_string t"
  by (simp add: bytes_of_string_def)

lemma string_of_bytes_append [simp]:
  "string_of_bytes (s @ t) = string_of_bytes s @ string_of_bytes t"
  by (simp add: string_of_bytes_def)

text \<open>The code point of an ASCII character, as Go's \<open>rune\<close> comparisons read it.\<close>

abbreviation code :: "char \<Rightarrow> nat" where
  "code c \<equiv> of_char c"

section \<open>Words\<close>

text \<open>Go's \<open>byte(x)\<close> on a wider unsigned integer keeps the low eight bits.\<close>

definition to_byte :: "'a::len word \<Rightarrow> byte" where
  "to_byte w = ucast w"

lemma bit_to_byte: "bit (to_byte w) n \<longleftrightarrow> n < 8 \<and> bit w n"
  by (simp add: to_byte_def bit_simps)

text \<open>
  \<open>binary.BigEndian.PutUint32\<close> and \<open>Uint32\<close> with their 16 and 64 bit siblings: the
  bytes of a word from the most significant one.
\<close>

definition be16 :: "16 word \<Rightarrow> bytes" where
  "be16 n = [to_byte (drop_bit 8 n), to_byte n]"

definition be32 :: "32 word \<Rightarrow> bytes" where
  "be32 n = [to_byte (drop_bit 24 n), to_byte (drop_bit 16 n), to_byte (drop_bit 8 n), to_byte n]"

definition be64 :: "64 word \<Rightarrow> bytes" where
  "be64 n =
     [to_byte (drop_bit 56 n), to_byte (drop_bit 48 n), to_byte (drop_bit 40 n),
      to_byte (drop_bit 32 n), to_byte (drop_bit 24 n), to_byte (drop_bit 16 n),
      to_byte (drop_bit 8 n), to_byte n]"

definition be_word :: "bytes \<Rightarrow> 'a::len word" where
  "be_word bs = foldl (\<lambda>w b. push_bit 8 w OR ucast b) 0 bs"

lemma length_be16 [simp]: "length (be16 n) = 2"
  by (simp add: be16_def)

lemma length_be32 [simp]: "length (be32 n) = 4"
  by (simp add: be32_def)

lemma length_be64 [simp]: "length (be64 n) = 8"
  by (simp add: be64_def)

text \<open>
  The same bytes from their number: \<open>be_bytes k n\<close> are the low \<open>k\<close> bytes of \<open>n\<close>, and reading
  them back gives those bits.
\<close>

fun be_bytes :: "nat \<Rightarrow> 'a::len word \<Rightarrow> bytes" where
  "be_bytes 0 n = []"
| "be_bytes (Suc k) n = to_byte (drop_bit (8 * k) n) # be_bytes k n"

lemma length_be_bytes [simp]: "length (be_bytes k n) = k"
  by (induction k) auto

lemma be_word_snoc: "(be_word (bs @ [b]) :: 'a::len word) = push_bit 8 (be_word bs) OR ucast b"
  by (simp add: be_word_def)

lemma be_fold_acc:
  "foldl (\<lambda>w b. push_bit 8 w OR ucast b) w bs = push_bit (8 * length bs) w OR (be_word bs :: 'a::len word)"
proof (induction bs rule: rev_induct)
  case Nil
  then show ?case by (simp add: be_word_def)
next
  case (snoc b bs)
  then show ?case
    by (simp add: be_word_snoc push_bit_or or.assoc)
qed

lemma be_word_Cons:
  "(be_word (b # bs) :: 'a::len word) = push_bit (8 * length bs) (ucast b) OR be_word bs"
proof -
  have "(be_word (b # bs) :: 'a word) = foldl (\<lambda>w b. push_bit 8 w OR ucast b) (ucast b) bs"
    by (simp add: be_word_def)
  then show ?thesis
    by (simp only: be_fold_acc)
qed

lemma be_word_be_bytes: "be_word (be_bytes k n) = take_bit (8 * k) (n :: 'a::len word)"
proof (induction k)
  case 0
  then show ?case by (simp add: be_word_def)
next
  case (Suc k)
  show ?case
    by (rule bit_word_eqI)
      (auto simp: be_word_Cons Suc.IH bit_simps bit_to_byte)
qed

lemma be16_be_bytes: "be16 n = be_bytes 2 n"
  by (simp add: be16_def numeral_eq_Suc)

lemma be32_be_bytes: "be32 n = be_bytes 4 n"
  by (simp add: be32_def numeral_eq_Suc)

lemma be64_be_bytes: "be64 n = be_bytes 8 n"
  by (simp add: be64_def numeral_eq_Suc)

lemma be_word_be16 [simp]: "be_word (be16 n) = n"
  by (simp add: be16_be_bytes be_word_be_bytes take_bit_word_eq_self)

lemma be_word_be32 [simp]: "be_word (be32 n) = n"
  by (simp add: be32_be_bytes be_word_be_bytes take_bit_word_eq_self)

lemma be_word_be64 [simp]: "be_word (be64 n) = n"
  by (simp add: be64_be_bytes be_word_be_bytes take_bit_word_eq_self)

lemma unat_byte_less [simp]: "unat (b::byte) < 256"
  using unsigned_less [of b, where 'a = nat] by simp

text \<open>Nibbles: a byte is its high and low four bits.\<close>

lemma unat_drop_bit_4_byte [simp]: "unat (drop_bit 4 (b::byte)) < 16"
  by (simp add: drop_bit_eq_div unat_div_distrib less_mult_imp_div_less)

lemma and_15_take_bit: "b AND 15 = take_bit 4 (b::'a::len word)"
proof -
  have "(15 :: 'a word) = mask 4"
    by (simp add: mask_eq_exp_minus_1)
  then show ?thesis
    by (simp add: take_bit_eq_mask)
qed

lemma unat_and_15_byte [simp]: "unat ((b::byte) AND 15) < 16"
  by (simp add: and_15_take_bit take_bit_eq_mod unat_mod_distrib)

lemma nibbles_or: "push_bit 4 (drop_bit 4 b) OR (b AND 15) = (b::byte)"
  by (rule bit_word_eqI) (auto simp: and_15_take_bit bit_simps)

section \<open>Readers\<close>

text \<open>
  \<open>io.ReadFull(r, buf)\<close> on a zeroed buffer of \<open>n\<close> bytes, where the reader delivers the
  bytes \<open>rs\<close> and then fails: the buffer, whether it was filled, and what is left to read.
  On a short read the bytes that arrived stay in the buffer.
\<close>

definition read_full :: "nat \<Rightarrow> bytes \<Rightarrow> bytes \<times> bool \<times> bytes" where
  "read_full n rs =
     (take n rs @ replicate (n - length rs) 0, n \<le> length rs, drop n rs)"

lemma read_full_length [simp]: "length (fst (read_full n rs)) = n"
  by (simp add: read_full_def)

section \<open>Lists, options and sums\<close>

text \<open>Go's \<open>copy(dst[k:], src)\<close>: as many bytes as fit are overwritten.\<close>

definition go_copy :: "nat \<Rightarrow> 'a list \<Rightarrow> 'a list \<Rightarrow> 'a list" where
  "go_copy k src dst = take k dst @ take (length dst - k) src @ drop (k + length src) dst"

lemma length_go_copy [simp]: "k \<le> length dst \<Longrightarrow> length (go_copy k src dst) = length dst"
  by (auto simp: go_copy_def)

lemma Inl_or_Inr: "(\<exists>e. x = Inl e) \<or> (\<exists>a. x = Inr a)"
  by (cases x) auto

lemma length_eq_16_conv:
  "length xs = 16 \<longleftrightarrow> (\<exists>a0 a1 a2 a3 a4 a5 a6 a7 a8 a9 a10 a11 a12 a13 a14 a15.
     xs = [a0, a1, a2, a3, a4, a5, a6, a7, a8, a9, a10, a11, a12, a13, a14, a15])"
  by (auto simp: numeral_eq_Suc length_Suc_conv)

lemma less_16_cases: "d < 16 \<Longrightarrow> d \<in> {0, 1, 2, 3, 4, 5, 6, 7, 8, 9, 10, 11, 12, 13, 14, 15 :: nat}"
  by (auto simp: numeral_eq_Suc less_Suc_eq)

end
