(* ===== verification/Go_Strings.thy ===== *)
theory Go_Strings
  imports Prelude
begin

text \<open>
  The parts of Go's \<open>strings\<close> and \<open>strconv\<close> packages that the program uses, on byte
  strings: prefixes, first occurrence and first replacement, splitting and joining,
  trimming, repetition, ASCII case mapping, and decimal numbers.
\<close>

section \<open>Prefixes, search and replacement\<close>

definition HasPrefix :: "string \<Rightarrow> string \<Rightarrow> bool" where
  "HasPrefix s p \<longleftrightarrow> take (length p) s = p"

lemma HasPrefix_iff: "HasPrefix s p \<longleftrightarrow> (\<exists>t. s = p @ t)"
  by (auto simp: HasPrefix_def) (metis append_take_drop_id)

lemma HasPrefix_append [simp]: "HasPrefix (p @ t) p"
  by (simp add: HasPrefix_def)

text \<open>\<open>strings.Index\<close>: the byte offset of the first occurrence; \<open>None\<close> stands for \<open>-1\<close>.\<close>

fun Index :: "string \<Rightarrow> string \<Rightarrow> nat option" where
  "Index [] sub = (if sub = [] then Some 0 else None)"
| "Index (c # s) sub =
     (if HasPrefix (c # s) sub then Some 0 else map_option Suc (Index s sub))"

definition Contains :: "string \<Rightarrow> string \<Rightarrow> bool" where
  "Contains s sub \<longleftrightarrow> Index s sub \<noteq> None"

text \<open>\<open>strings.Replace(s, old, new, 1)\<close> for a non-empty \<open>old\<close>.\<close>

definition Replace1 :: "string \<Rightarrow> string \<Rightarrow> string \<Rightarrow> string" where
  "Replace1 s old new =
     (case Index s old of
        None \<Rightarrow> s
      | Some i \<Rightarrow> take i s @ new @ drop (i + length old) s)"

lemma Index_prefix: "HasPrefix s sub \<Longrightarrow> Index s sub = Some 0"
  by (cases s) (auto simp: HasPrefix_def)

lemma Replace1_prefix: "Replace1 (old @ t) old new = new @ t"
  by (simp add: Replace1_def Index_prefix)

lemma Index_Some:
  "Index s sub = Some i \<Longrightarrow> s = take i s @ sub @ drop (i + length sub) s"
proof (induction s arbitrary: i)
  case Nil
  then show ?case by (auto split: if_splits)
next
  case (Cons c s)
  show ?case
  proof (cases "HasPrefix (c # s) sub")
    case True
    with Cons.prems show ?thesis
      by (metis Index_prefix HasPrefix_def add_0 append_Nil append_take_drop_id option.inject take0)
  next
    case False
    with Cons show ?thesis by auto
  qed
qed

lemma Index_None: "Index s sub = None \<Longrightarrow> s \<noteq> u @ sub @ v"
proof (induction s arbitrary: u)
  case Nil
  then show ?case by (auto split: if_splits)
next
  case (Cons c s)
  then show ?case
    by (cases u) (auto simp: HasPrefix_iff split: if_splits)
qed

lemma Contains_iff: "Contains s sub \<longleftrightarrow> (\<exists>u v. s = u @ sub @ v)"
  unfolding Contains_def using Index_None Index_Some by blast

section \<open>Splitting and joining\<close>

text \<open>\<open>strings.Split(s, sep)\<close> for a separator of one byte.\<close>

fun Split :: "char \<Rightarrow> string \<Rightarrow> string list" where
  "Split sep [] = [[]]"
| "Split sep (c # s) =
     (if c = sep then [] # Split sep s
      else (case Split sep s of [] \<Rightarrow> [[c]] | p # ps \<Rightarrow> (c # p) # ps))"

text \<open>\<open>strings.SplitN(s, sep, 2)\<close>: cut at the first separator only.\<close>

fun SplitN2 :: "char \<Rightarrow> string \<Rightarrow> string list" where
  "SplitN2 sep [] = [[]]"
| "SplitN2 sep (c # s) =
     (if c = sep then [[], s]
      else (case SplitN2 sep s of [] \<Rightarrow> [[c]] | p # ps \<Rightarrow> (c # p) # ps))"

fun Join :: "string list \<Rightarrow> string \<Rightarrow> string" where
  "Join [] sep = []"
| "Join [p] sep = p"
| "Join (p # q # ps) sep = p @ sep @ Join (q # ps) sep"

lemma Split_nonempty [simp]: "Split sep s \<noteq> []"
  by (induction s) (auto split: list.splits)

lemma Join_Cons: "ps \<noteq> [] \<Longrightarrow> Join (p # ps) sep = p @ sep @ Join ps sep"
  by (cases ps) auto

lemma Join_Split: "Join (Split sep s) [sep] = s"
proof (induction s)
  case Nil
  then show ?case by simp
next
  case (Cons c s)
  then show ?case
    by (cases "Split sep s"; cases "tl (Split sep s)") (auto simp: Join_Cons)
qed

lemma Split_no_sep: "p \<in> set (Split sep s) \<Longrightarrow> sep \<notin> set p"
  by (induction s arbitrary: p) (auto split: list.splits if_splits)

lemma Split_without: "sep \<notin> set p \<Longrightarrow> Split sep p = [p]"
  by (induction p) auto

lemma Split_append: "sep \<notin> set p \<Longrightarrow> Split sep (p @ sep # s) = p # Split sep s"
  by (induction p) auto

lemma Split_Join:
  "ps \<noteq> [] \<Longrightarrow> (\<forall>p \<in> set ps. sep \<notin> set p) \<Longrightarrow> Split sep (Join ps [sep]) = ps"
proof (induction ps)
  case Nil
  then show ?case by simp
next
  case (Cons p ps)
  then show ?case
    by (cases ps) (auto simp: Split_without Split_append)
qed

lemma SplitN2_append: "sep \<notin> set p \<Longrightarrow> SplitN2 sep (p @ sep # s) = [p, s]"
  by (induction p) auto

lemma SplitN2_without: "sep \<notin> set p \<Longrightarrow> SplitN2 sep p = [p]"
  by (induction p) auto

section \<open>Trimming, repetition, case\<close>

definition TrimLeft :: "string \<Rightarrow> string \<Rightarrow> string" where
  "TrimLeft s cutset = dropWhile (\<lambda>c. c \<in> set cutset) s"

definition TrimRight :: "string \<Rightarrow> string \<Rightarrow> string" where
  "TrimRight s cutset = rev (dropWhile (\<lambda>c. c \<in> set cutset) (rev s))"

definition Trim :: "string \<Rightarrow> string \<Rightarrow> string" where
  "Trim s cutset = TrimRight (TrimLeft s cutset) cutset"

lemma TrimLeft_id: "s = [] \<or> hd s \<notin> set cutset \<Longrightarrow> TrimLeft s cutset = s"
  by (cases s) (auto simp: TrimLeft_def)

lemma TrimRight_id: "s = [] \<or> last s \<notin> set cutset \<Longrightarrow> TrimRight s cutset = s"
  by (cases s rule: rev_cases) (auto simp: TrimRight_def)

lemma TrimRight_replicate:
  "c \<in> set cutset \<Longrightarrow> s = [] \<or> last s \<notin> set cutset \<Longrightarrow>
   TrimRight (s @ replicate n c) cutset = s"
  by (cases s rule: rev_cases) (auto simp: TrimRight_def dropWhile_append)

lemma Trim_quoted:
  assumes "c \<in> set cutset" and "s \<noteq> []" and "hd s \<notin> set cutset" and "last s \<notin> set cutset"
  shows "Trim (c # s @ [c]) cutset = s"
proof -
  have "TrimLeft (c # s @ [c]) cutset = s @ [c]"
    using assms by (cases s) (auto simp: TrimLeft_def)
  moreover have "TrimRight (s @ replicate 1 c) cutset = s"
    using assms by (intro TrimRight_replicate) auto
  ultimately show ?thesis by (simp add: Trim_def)
qed

definition Repeat :: "string \<Rightarrow> nat \<Rightarrow> string" where
  "Repeat s n = concat (replicate n s)"

lemma Repeat_char: "Repeat [c] n = replicate n c"
  by (induction n) (auto simp: Repeat_def)

text \<open>
  \<open>strings.TrimSpace\<close>: the UTF-8 encoding of one Unicode white-space character at the start
  of the text is removed at a time; \<open>space_at\<close> is its length, 0 when there is none.
\<close>

definition space_at :: "nat list \<Rightarrow> nat" where
  "space_at cs =
     (case cs of
        [] \<Rightarrow> 0
      | c # cs1 \<Rightarrow>
          if c = 32 \<or> (9 \<le> c \<and> c \<le> 13) then 1
          else case cs1 of
            [] \<Rightarrow> 0
          | d # cs2 \<Rightarrow>
              if c = 0xC2 \<and> (d = 0x85 \<or> d = 0xA0) then 2
              else case cs2 of
                [] \<Rightarrow> 0
              | e # _ \<Rightarrow>
                  if (c = 0xE1 \<and> d = 0x9A \<and> e = 0x80)
                     \<or> (c = 0xE2 \<and> d = 0x80 \<and> (0x80 \<le> e \<and> e \<le> 0x8A \<or> e = 0xA8 \<or> e = 0xA9 \<or> e = 0xAF))
                     \<or> (c = 0xE2 \<and> d = 0x81 \<and> e = 0x9F)
                     \<or> (c = 0xE3 \<and> d = 0x80 \<and> e = 0x80)
                  then 3 else 0)"

definition space_left :: "string \<Rightarrow> nat" where
  "space_left s = space_at (map of_char (take 3 s))"

text \<open>The length of the white-space character that ends the text.\<close>

definition space_right :: "string \<Rightarrow> nat" where
  "space_right s =
     (let n = length s
      in if n \<ge> 1 \<and> space_at (map of_char (drop (n - 1) s)) = 1 then 1
         else if n \<ge> 2 \<and> space_at (map of_char (drop (n - 2) s)) = 2 then 2
         else if n \<ge> 3 \<and> space_at (map of_char (drop (n - 3) s)) = 3 then 3
         else 0)"

function TrimSpaceLeft :: "string \<Rightarrow> string" where
  "TrimSpaceLeft s =
     (if s = [] \<or> space_left s = 0 then s else TrimSpaceLeft (drop (space_left s) s))"
  by pat_completeness auto
termination by (relation "measure length") auto

function TrimSpaceRight :: "string \<Rightarrow> string" where
  "TrimSpaceRight s =
     (if s = [] \<or> space_right s = 0 then s else TrimSpaceRight (take (length s - space_right s) s))"
  by pat_completeness auto
termination by (relation "measure length") auto

declare TrimSpaceLeft.simps [simp del] TrimSpaceRight.simps [simp del]

definition TrimSpace :: "string \<Rightarrow> string" where
  "TrimSpace s = TrimSpaceRight (TrimSpaceLeft s)"

lemma TrimSpace_id:
  assumes "space_left s = 0" and "space_right s = 0"
  shows "TrimSpace s = s"
  using assms
  by (simp add: TrimSpace_def TrimSpaceLeft.simps [of s] TrimSpaceRight.simps [of s])

text \<open>
  ASCII case mapping. The program only compares the mapped text with \<open>BEARER\<close> and \<open>bearer\<close>,
  which no non-ASCII character maps into.
\<close>

definition upper_char :: "char \<Rightarrow> char" where
  "upper_char c = (if 97 \<le> code c \<and> code c \<le> 122 then char_of (code c - 32) else c)"

definition lower_char :: "char \<Rightarrow> char" where
  "lower_char c = (if 65 \<le> code c \<and> code c \<le> 90 then char_of (code c + 32) else c)"

definition ToUpper :: "string \<Rightarrow> string" where
  "ToUpper s = map upper_char s"

definition ToLower :: "string \<Rightarrow> string" where
  "ToLower s = map lower_char s"

section \<open>Decimal numbers\<close>

definition is_digit :: "char \<Rightarrow> bool" where
  "is_digit c \<longleftrightarrow> 48 \<le> code c \<and> code c \<le> 57"

definition digit_char :: "nat \<Rightarrow> char" where
  "digit_char d = char_of (48 + d)"

fun itoa :: "nat \<Rightarrow> string" where
  "itoa n = (if n < 10 then [digit_char n] else itoa (n div 10) @ [digit_char (n mod 10)])"

declare itoa.simps [simp del]

definition digits_value :: "string \<Rightarrow> nat" where
  "digits_value s = foldl (\<lambda>v c. 10 * v + (code c - 48)) 0 s"

definition parse_digits :: "string \<Rightarrow> nat option" where
  "parse_digits s = (if s \<noteq> [] \<and> list_all is_digit s then Some (digits_value s) else None)"

text \<open>\<open>strconv.FormatInt(i, 10)\<close>.\<close>

definition format_int :: "int \<Rightarrow> string" where
  "format_int i = (if i < 0 then CHR ''-'' # itoa (nat (- i)) else itoa (nat i))"

text \<open>
  \<open>strconv.ParseUint(s, 10, bits)\<close> and \<open>strconv.ParseInt(s, 10, 64)\<close>, which \<open>strconv.Atoi\<close> is on
  a 64 bit machine: \<open>None\<close> is a syntax or range error. Only the signed one takes a sign.
\<close>

definition ParseUint10 :: "nat \<Rightarrow> string \<Rightarrow> nat option" where
  "ParseUint10 bits s =
     (case parse_digits s of None \<Rightarrow> None | Some n \<Rightarrow> if n < 2 ^ bits then Some n else None)"

definition Atoi :: "string \<Rightarrow> int option" where
  "Atoi s =
     (case s of
        [] \<Rightarrow> None
      | c # t \<Rightarrow>
          if c = CHR ''-'' then
            (case parse_digits t of None \<Rightarrow> None | Some n \<Rightarrow> if n \<le> 2 ^ 63 then Some (- int n) else None)
          else
            (case parse_digits (if c = CHR ''+'' then t else s) of
               None \<Rightarrow> None | Some n \<Rightarrow> if n < 2 ^ 63 then Some (int n) else None))"

lemma code_digit_char [simp]: "d < 10 \<Longrightarrow> code (digit_char d) = 48 + d"
  by (simp add: digit_char_def of_char_of)

lemma is_digit_digit_char [simp]: "d < 10 \<Longrightarrow> is_digit (digit_char d)"
  by (simp add: is_digit_def)

lemma itoa_nonempty [simp]: "itoa n \<noteq> []"
  by (subst itoa.simps) simp

lemma itoa_digits: "list_all is_digit (itoa n)"
proof (induction n rule: itoa.induct)
  case (1 n)
  then show ?case
    by (cases "n < 10") (simp_all add: itoa.simps [of n])
qed

lemma digits_value_snoc: "digits_value (s @ [c]) = 10 * digits_value s + (code c - 48)"
  by (simp add: digits_value_def)

lemma digits_value_itoa [simp]: "digits_value (itoa n) = n"
proof (induction n rule: itoa.induct)
  case (1 n)
  show ?case
  proof (cases "n < 10")
    case True
    then show ?thesis by (simp add: itoa.simps [of n] digits_value_def)
  next
    case False
    with 1 have "digits_value (itoa n) = 10 * (n div 10) + n mod 10"
      by (simp add: itoa.simps [of n] digits_value_snoc)
    then show ?thesis by simp
  qed
qed

lemma parse_digits_itoa [simp]: "parse_digits (itoa n) = Some n"
  by (simp add: parse_digits_def itoa_digits)

lemma digit_not_sign: "is_digit c \<Longrightarrow> c \<noteq> CHR ''-'' \<and> c \<noteq> CHR ''+''"
  by (auto simp: is_digit_def)

lemma Atoi_itoa: "n < 2 ^ 63 \<Longrightarrow> Atoi (itoa n) = Some (int n)"
proof -
  assume n: "n < 2 ^ 63"
  obtain c t where s: "itoa n = c # t"
    by (cases "itoa n") auto
  with itoa_digits [of n] have "c \<noteq> CHR ''-'' \<and> c \<noteq> CHR ''+''"
    by (intro digit_not_sign) simp
  with n s parse_digits_itoa [of n] show ?thesis
    by (simp add: Atoi_def)
qed

lemma Atoi_format_int:
  assumes "- (2 ^ 63) \<le> i" and "i < 2 ^ 63"
  shows "Atoi (format_int i) = Some i"
proof (cases "i < 0")
  case True
  with assms have "nat (- i) \<le> 2 ^ 63" by simp
  with True show ?thesis by (simp add: format_int_def Atoi_def)
next
  case False
  with assms have "nat i < 2 ^ 63" by simp
  with False Atoi_itoa [of "nat i"] show ?thesis by (simp add: format_int_def)
qed

end
