(* ===== verification/Go_Json.thy ===== *)
theory Go_Json
  imports Go_Strings
begin

text \<open>
  Go's \<open>encoding/json\<close>, as far as the program uses it. A text is first read into a syntax tree
  (\<open>jtree\<close>: numbers and strings as the literal bytes, which \<open>UnmarshalJSON\<close> methods receive),
  and the tree is then interpreted. \<open>json\<close> is what an \<open>interface{}\<close> holds; a Go map is its
  list of entries in the order of the keys, the order in which \<open>Marshal\<close> writes them.

  The text of a \<open>float64\<close> is the business of \<open>strconv\<close>, whose choice of digits depends on the
  Go release: a \<open>strconv\<close> record carries the two conversions, and the theorems that need it
  assume what its documentation promises (\<open>strconv_ok\<close>).
\<close>

section \<open>Values\<close>

type_synonym float64 = "64 word"

record strconv =
  FormatFloat :: "float64 \<Rightarrow> string option"
  ParseFloat :: "string \<Rightarrow> float64 option"
  float_int64 :: "float64 \<Rightarrow> int"

datatype json =
    JNull
  | JBool bool
  | JInt int
  | JNum float64
  | JStr string
  | JArr "json list"
  | JObj "(string \<times> json) list"

datatype jtree =
    TNull
  | TBool bool
  | TNum string
  | TStr string
  | TArr "jtree list"
  | TObj "(string \<times> jtree) list"

datatype json_error = SyntaxError | UnmarshalTypeError | UnsupportedValue | JsonEOF

section \<open>UTF-8\<close>

text \<open>
  The size of the UTF-8 encoded character at the start of the text, 0 if there is none there.
\<close>

definition is_cont :: "nat \<Rightarrow> bool" where
  "is_cont c \<longleftrightarrow> 0x80 \<le> c \<and> c \<le> 0xBF"

fun utf8_seq :: "nat list \<Rightarrow> nat" where
  "utf8_seq [] = 0"
| "utf8_seq (a # as) =
     (if a < 0x80 then 1
      else if 0xC2 \<le> a \<and> a \<le> 0xDF then
        (case as of b # _ \<Rightarrow> if is_cont b then 2 else 0 | _ \<Rightarrow> 0)
      else if 0xE0 \<le> a \<and> a \<le> 0xEF then
        (case as of b # c # _ \<Rightarrow>
           if (if a = 0xE0 then 0xA0 \<le> b \<and> b \<le> 0xBF else if a = 0xED then 0x80 \<le> b \<and> b \<le> 0x9F else is_cont b)
              \<and> is_cont c then 3 else 0
         | _ \<Rightarrow> 0)
      else if 0xF0 \<le> a \<and> a \<le> 0xF4 then
        (case as of b # c # d # _ \<Rightarrow>
           if (if a = 0xF0 then 0x90 \<le> b \<and> b \<le> 0xBF else if a = 0xF4 then 0x80 \<le> b \<and> b \<le> 0x8F else is_cont b)
              \<and> is_cont c \<and> is_cont d then 4 else 0
         | _ \<Rightarrow> 0)
      else 0)"

definition utf8_size :: "string \<Rightarrow> nat" where
  "utf8_size s = utf8_seq (map of_char (take 4 s))"

function valid_utf8 :: "string \<Rightarrow> bool" where
  "valid_utf8 s =
     (if s = [] then True else if utf8_size s = 0 then False else valid_utf8 (drop (utf8_size s) s))"
  by pat_completeness auto
termination by (relation "measure length") auto

declare valid_utf8.simps [simp del]

text \<open>\<open>utf8.EncodeRune\<close>; a surrogate or an out-of-range value is encoded as U+FFFD.\<close>

definition encode_rune :: "nat \<Rightarrow> string" where
  "encode_rune r =
     map char_of
       (if r < 0x80 then [r]
        else if r < 0x800 then [0xC0 + r div 64, 0x80 + r mod 64]
        else if r > 0x10FFFF \<or> (0xD800 \<le> r \<and> r \<le> 0xDFFF) then [0xEF, 0xBF, 0xBD]
        else if r < 0x10000 then [0xE0 + r div 4096, 0x80 + r div 64 mod 64, 0x80 + r mod 64]
        else [0xF0 + r div 262144, 0x80 + r div 4096 mod 64, 0x80 + r div 64 mod 64, 0x80 + r mod 64])"

section \<open>String literals\<close>

definition hex_digit :: "nat \<Rightarrow> char" where
  "hex_digit n = ''0123456789abcdef'' ! n"

text \<open>\<open>encodeState.string\<close>: the body of a string literal, with HTML characters escaped.\<close>

definition escape_ascii :: "char \<Rightarrow> string" where
  "escape_ascii c =
     (if c = CHR 0x5C \<or> c = CHR 0x22 then [CHR 0x5C, c]
      else if code c = 10 then [CHR 0x5C, CHR ''n'']
      else if code c = 13 then [CHR 0x5C, CHR ''r'']
      else if code c = 9 then [CHR 0x5C, CHR ''t'']
      else if code c < 0x20 \<or> c = CHR ''<'' \<or> c = CHR ''>'' \<or> c = CHR ''&'' then
        [CHR 0x5C, CHR ''u'', CHR ''0'', CHR ''0'', hex_digit (code c div 16), hex_digit (code c mod 16)]
      else [c])"

function escape :: "string \<Rightarrow> string" where
  "escape s =
     (case s of
        [] \<Rightarrow> []
      | c # cs \<Rightarrow>
          if code c < 0x80 then escape_ascii c @ escape cs
          else if utf8_size s = 0 then [CHR 0x5C] @ ''ufffd'' @ escape cs
          else if take 3 s = map char_of [0xE2, 0x80, 0xA8 :: nat] then [CHR 0x5C] @ ''u2028'' @ escape (drop 3 s)
          else if take 3 s = map char_of [0xE2, 0x80, 0xA9 :: nat] then [CHR 0x5C] @ ''u2029'' @ escape (drop 3 s)
          else take (utf8_size s) s @ escape (drop (utf8_size s) s))"
  by pat_completeness auto
termination by (relation "measure length") auto

declare escape.simps [simp del]

text \<open>The scanner's view of a string literal: from after the opening quote to the closing one.\<close>

definition hexval :: "char \<Rightarrow> nat option" where
  "hexval c =
     (if is_digit c then Some (code c - 48)
      else if 97 \<le> code c \<and> code c \<le> 102 then Some (code c - 87)
      else if 65 \<le> code c \<and> code c \<le> 70 then Some (code c - 55)
      else None)"

definition hex4 :: "string \<Rightarrow> nat option" where
  "hex4 s =
     (case s of
        a # b # c # d # _ \<Rightarrow>
          (case (hexval a, hexval b, hexval c, hexval d) of
             (Some a, Some b, Some c, Some d) \<Rightarrow> Some (((a * 16 + b) * 16 + c) * 16 + d)
           | _ \<Rightarrow> None)
      | _ \<Rightarrow> None)"

function lex_string :: "string \<Rightarrow> (string \<times> string) option" where
  "lex_string s =
     (case s of
        [] \<Rightarrow> None
      | c # cs \<Rightarrow>
          if c = CHR 0x22 then Some ([], cs)
          else if code c < 0x20 then None
          else if c = CHR 0x5C then
            (case cs of
               [] \<Rightarrow> None
             | e # es \<Rightarrow>
                 if e \<in> set [CHR ''b'', CHR ''f'', CHR ''n'', CHR ''r'', CHR ''t'', CHR 0x5C, CHR ''/'', CHR 0x22] then
                   map_option (\<lambda>(r, rest). (c # e # r, rest)) (lex_string es)
                 else if e = CHR ''u'' \<and> hex4 es \<noteq> None then
                   map_option (\<lambda>(r, rest). (c # e # take 4 es @ r, rest)) (lex_string (drop 4 es))
                 else None)
          else map_option (\<lambda>(r, rest). (c # r, rest)) (lex_string cs))"
  by pat_completeness auto
termination by (relation "measure length") auto

declare lex_string.simps [simp del]

text \<open>\<open>unquote\<close>: the Go string a literal's body denotes.\<close>

definition unescape_char :: "char \<Rightarrow> char" where
  "unescape_char e =
     (if e = CHR ''b'' then CHR 0x08 else if e = CHR ''f'' then CHR 0x0C
      else if e = CHR ''n'' then CHR 0x0A else if e = CHR ''r'' then CHR 0x0D
      else if e = CHR ''t'' then CHR 0x09 else e)"

definition is_surrogate :: "nat \<Rightarrow> bool" where
  "is_surrogate r \<longleftrightarrow> 0xD800 \<le> r \<and> r \<le> 0xDFFF"

text \<open>\<open>utf16.DecodeRune\<close> of a pair, \<open>None\<close> when it is not a valid surrogate pair.\<close>

definition utf16_pair :: "nat \<Rightarrow> nat \<Rightarrow> nat option" where
  "utf16_pair r1 r2 =
     (if 0xD800 \<le> r1 \<and> r1 < 0xDC00 \<and> 0xDC00 \<le> r2 \<and> r2 < 0xE000
      then Some ((r1 - 0xD800) * 1024 + (r2 - 0xDC00) + 0x10000) else None)"

definition next_u4 :: "string \<Rightarrow> nat option" where
  "next_u4 s = (case s of a # b # cs \<Rightarrow> if a = CHR 0x5C \<and> b = CHR ''u'' then hex4 cs else None | _ \<Rightarrow> None)"

function unquote :: "string \<Rightarrow> string" where
  "unquote s =
     (case s of
        [] \<Rightarrow> []
      | c # cs \<Rightarrow>
          if c = CHR 0x5C then
            (case cs of
               [] \<Rightarrow> []
             | e # es \<Rightarrow>
                 if e = CHR ''u'' then
                   (case hex4 es of
                      None \<Rightarrow> []
                    | Some r \<Rightarrow>
                        if is_surrogate r then
                          (case next_u4 (drop 4 es) of
                             None \<Rightarrow> encode_rune 0xFFFD @ unquote (drop 4 es)
                           | Some r2 \<Rightarrow>
                               (case utf16_pair r r2 of
                                  None \<Rightarrow> encode_rune 0xFFFD @ unquote (drop 4 es)
                                | Some p \<Rightarrow> encode_rune p @ unquote (drop 10 es)))
                        else encode_rune r @ unquote (drop 4 es))
                 else unescape_char e # unquote es)
          else if code c < 0x80 then c # unquote cs
          else if utf8_size s = 0 then encode_rune 0xFFFD @ unquote cs
          else take (utf8_size s) s @ unquote (drop (utf8_size s) s))"
  by pat_completeness auto
termination by (relation "measure length") auto

declare unquote.simps [simp del]

section \<open>Number literals\<close>

definition digit_run :: "string \<Rightarrow> string \<times> string" where
  "digit_run s = (takeWhile is_digit s, dropWhile is_digit s)"

definition lex_sign :: "string \<Rightarrow> string \<times> string" where
  "lex_sign s = (case s of c # r \<Rightarrow> if c = CHR ''-'' then ([c], r) else ([], s) | [] \<Rightarrow> ([], []))"

definition lex_int :: "string \<Rightarrow> (string \<times> string) option" where
  "lex_int s =
     (case s of
        [] \<Rightarrow> None
      | c # r \<Rightarrow> if c = CHR ''0'' then Some ([c], r) else if is_digit c then Some (digit_run s) else None)"

definition lex_frac :: "string \<Rightarrow> (string \<times> string) option" where
  "lex_frac s =
     (case s of
        [] \<Rightarrow> Some ([], [])
      | c # r \<Rightarrow>
          if c = CHR ''.'' then
            (let (ds, rest) = digit_run r in if ds = [] then None else Some (c # ds, rest))
          else Some ([], s))"

definition lex_exp :: "string \<Rightarrow> (string \<times> string) option" where
  "lex_exp s =
     (case s of
        [] \<Rightarrow> Some ([], [])
      | c # r \<Rightarrow>
          if c = CHR ''e'' \<or> c = CHR ''E'' then
            (let (sg, r1) = (case r of d # r' \<Rightarrow> if d = CHR ''+'' \<or> d = CHR ''-'' then ([d], r') else ([], r) | [] \<Rightarrow> ([], []));
                 (ds, rest) = digit_run r1
             in if ds = [] then None else Some (c # sg @ ds, rest))
          else Some ([], s))"

definition lex_number :: "string \<Rightarrow> (string \<times> string) option" where
  "lex_number s =
     (let (sg, s1) = lex_sign s
      in case lex_int s1 of
           None \<Rightarrow> None
         | Some (i, s2) \<Rightarrow>
             (case lex_frac s2 of
                None \<Rightarrow> None
              | Some (f, s3) \<Rightarrow>
                  (case lex_exp s3 of
                     None \<Rightarrow> None
                   | Some (e, s4) \<Rightarrow> Some (sg @ i @ f @ e, s4))))"

definition number_literal :: "string \<Rightarrow> bool" where
  "number_literal s \<longleftrightarrow> lex_number s = Some (s, [])"

section \<open>Reading a text into a tree\<close>

definition is_ws :: "char \<Rightarrow> bool" where
  "is_ws c \<longleftrightarrow> c = CHR '' '' \<or> code c = 9 \<or> code c = 10 \<or> code c = 13"

definition skip_ws :: "string \<Rightarrow> string" where
  "skip_ws s = dropWhile is_ws s"

definition strip_lit :: "string \<Rightarrow> string \<Rightarrow> string option" where
  "strip_lit lit s = (if HasPrefix s lit then Some (drop (length lit) s) else None)"

text \<open>
  One value, the rest of an array after an element, the rest of an object. Every call that
  spends fuel has consumed a byte, so the length of the text is fuel enough.
\<close>

fun parse_value :: "nat \<Rightarrow> string \<Rightarrow> (jtree \<times> string) option"
  and parse_elems :: "nat \<Rightarrow> string \<Rightarrow> (jtree list \<times> string) option"
  and parse_members :: "nat \<Rightarrow> string \<Rightarrow> ((string \<times> jtree) list \<times> string) option"
where
  "parse_value 0 s = None"
| "parse_value (Suc n) s =
     (case skip_ws s of
        [] \<Rightarrow> None
      | c # cs \<Rightarrow>
          if c = CHR 0x22 then map_option (\<lambda>(r, rest). (TStr r, rest)) (lex_string cs)
          else if c = CHR ''{'' then
            (case strip_lit ''}'' (skip_ws cs) of
               Some rest \<Rightarrow> Some (TObj [], rest)
             | None \<Rightarrow> map_option (\<lambda>(ms, rest). (TObj ms, rest)) (parse_members n cs))
          else if c = CHR ''['' then
            (case strip_lit '']'' (skip_ws cs) of
               Some rest \<Rightarrow> Some (TArr [], rest)
             | None \<Rightarrow> map_option (\<lambda>(es, rest). (TArr es, rest)) (parse_elems n cs))
          else if c = CHR ''t'' then map_option (\<lambda>rest. (TBool True, rest)) (strip_lit ''true'' (c # cs))
          else if c = CHR ''f'' then map_option (\<lambda>rest. (TBool False, rest)) (strip_lit ''false'' (c # cs))
          else if c = CHR ''n'' then map_option (\<lambda>rest. (TNull, rest)) (strip_lit ''null'' (c # cs))
          else map_option (\<lambda>(l, rest). (TNum l, rest)) (lex_number (c # cs)))"
| "parse_elems 0 s = None"
| "parse_elems (Suc n) s =
     (case parse_value n s of
        None \<Rightarrow> None
      | Some (v, s1) \<Rightarrow>
          (case skip_ws s1 of
             [] \<Rightarrow> None
           | c # cs \<Rightarrow>
               if c = CHR '']'' then Some ([v], cs)
               else if c = CHR '','' then map_option (\<lambda>(vs, rest). (v # vs, rest)) (parse_elems n cs)
               else None))"
| "parse_members 0 s = None"
| "parse_members (Suc n) s =
     (case strip_lit [CHR 0x22] (skip_ws s) of
        None \<Rightarrow> None
      | Some s1 \<Rightarrow>
          (case lex_string s1 of
             None \<Rightarrow> None
           | Some (k, s2) \<Rightarrow>
               (case strip_lit '':'' (skip_ws s2) of
                  None \<Rightarrow> None
                | Some s3 \<Rightarrow>
                    (case parse_value n s3 of
                       None \<Rightarrow> None
                     | Some (v, s4) \<Rightarrow>
                         (case skip_ws s4 of
                            [] \<Rightarrow> None
                          | c # cs \<Rightarrow>
                              if c = CHR ''}'' then Some ([(k, v)], cs)
                              else if c = CHR '','' then
                                map_option (\<lambda>(ms, rest). ((k, v) # ms, rest)) (parse_members n cs)
                              else None)))))"

text \<open>
  \<open>json.Unmarshal\<close> wants exactly one value; \<open>Decoder.Decode\<close> reads the next value of a stream,
  \<open>io.EOF\<close> when only white space is left.
\<close>

definition parse_text :: "string \<Rightarrow> jtree option" where
  "parse_text s =
     (case parse_value (Suc (length s)) s of
        Some (t, rest) \<Rightarrow> if skip_ws rest = [] then Some t else None
      | None \<Rightarrow> None)"

definition decode_next :: "string \<Rightarrow> (json_error, jtree \<times> string) result" where
  "decode_next s =
     (if skip_ws s = [] then Inl JsonEOF
      else case parse_value (Suc (length s)) s of
             None \<Rightarrow> Inl SyntaxError
           | Some r \<Rightarrow> Inr r)"

section \<open>Writing a tree\<close>

fun print_tree :: "jtree \<Rightarrow> string" where
  "print_tree TNull = ''null''"
| "print_tree (TBool b) = (if b then ''true'' else ''false'')"
| "print_tree (TNum l) = l"
| "print_tree (TStr r) = [CHR 0x22] @ r @ [CHR 0x22]"
| "print_tree (TArr ts) = ''['' @ Join (map print_tree ts) '','' @ '']''"
| "print_tree (TObj ms) =
     ''{'' @ Join (map (\<lambda>(k, t). [CHR 0x22] @ k @ [CHR 0x22] @ '':'' @ print_tree t) ms) '','' @ ''}''"

section \<open>Interpretation\<close>

text \<open>Go compares strings byte by byte; maps are kept in that order of their keys.\<close>

fun str_less :: "string \<Rightarrow> string \<Rightarrow> bool" where
  "str_less [] t = (t \<noteq> [])"
| "str_less (a # s) [] = False"
| "str_less (a # s) (b # t) = (code a < code b \<or> (a = b \<and> str_less s t))"

fun map_put :: "string \<Rightarrow> 'v \<Rightarrow> (string \<times> 'v) list \<Rightarrow> (string \<times> 'v) list" where
  "map_put k v [] = [(k, v)]"
| "map_put k v ((k', v') # m) =
     (if k = k' then (k, v) # m
      else if str_less k k' then (k, v) # (k', v') # m
      else (k', v') # map_put k v m)"

fun json_of :: "strconv \<Rightarrow> jtree \<Rightarrow> json option" where
  "json_of sc TNull = Some JNull"
| "json_of sc (TBool b) = Some (JBool b)"
| "json_of sc (TNum l) = map_option JNum (ParseFloat sc l)"
| "json_of sc (TStr r) = Some (JStr (unquote r))"
| "json_of sc (TArr ts) = map_option JArr (those (map (json_of sc) ts))"
| "json_of sc (TObj ms) =
     map_option (\<lambda>vs. JObj (foldl (\<lambda>m (k, v). map_put k v m) [] (zip (map (\<lambda>(k, t). unquote k) ms) vs)))
       (those (map (\<lambda>(k, t). json_of sc t) ms))"

text \<open>\<open>json.Marshal\<close> of a value held in an \<open>interface{}\<close>: NaN and the infinities have no text.\<close>

fun tree_of :: "strconv \<Rightarrow> json \<Rightarrow> jtree option" where
  "tree_of sc JNull = Some TNull"
| "tree_of sc (JBool b) = Some (TBool b)"
| "tree_of sc (JInt i) = Some (TNum (format_int i))"
| "tree_of sc (JNum x) = map_option TNum (FormatFloat sc x)"
| "tree_of sc (JStr s) = Some (TStr (escape s))"
| "tree_of sc (JArr vs) = map_option TArr (those (map (tree_of sc) vs))"
| "tree_of sc (JObj m) =
     map_option (\<lambda>ts. TObj (zip (map (\<lambda>(k, v). escape k) m) ts))
       (those (map (\<lambda>(k, v). tree_of sc v) m))"

definition Marshal :: "strconv \<Rightarrow> json \<Rightarrow> (json_error, string) result" where
  "Marshal sc v = (case tree_of sc v of None \<Rightarrow> Inl UnsupportedValue | Some t \<Rightarrow> Inr (print_tree t))"

definition Unmarshal :: "strconv \<Rightarrow> string \<Rightarrow> (json_error, json) result" where
  "Unmarshal sc s =
     (case parse_text s of
        None \<Rightarrow> Inl SyntaxError
      | Some t \<Rightarrow> (case json_of sc t of None \<Rightarrow> Inl UnmarshalTypeError | Some v \<Rightarrow> Inr v))"

text \<open>
  What the program relies on of \<open>strconv\<close>: a formatted float is a number literal that parses
  to the same float, and integers up to 2 ^ 53 survive the trip through \<open>float64\<close>.
\<close>

definition strconv_ok :: "strconv \<Rightarrow> bool" where
  "strconv_ok sc \<longleftrightarrow>
     (\<forall>x l. FormatFloat sc x = Some l \<longrightarrow> number_literal l \<and> ParseFloat sc l = Some x) \<and>
     (\<forall>i. - (2 ^ 53) \<le> i \<and> i \<le> 2 ^ 53 \<longrightarrow>
        (\<exists>x. ParseFloat sc (format_int i) = Some x \<and> float_int64 sc x = i))"

section \<open>String literals round trip\<close>

lemma code_char_of [simp]: "n < 256 \<Longrightarrow> code (char_of n) = n"
  by (simp add: of_char_of)

lemma char_eqI: "code c = code d \<Longrightarrow> c = d"
  by simp

definition plain :: "char \<Rightarrow> bool" where
  "plain c \<longleftrightarrow> 0x20 \<le> code c \<and> c \<noteq> CHR 0x22 \<and> c \<noteq> CHR 0x5C"

abbreviation lex_cont :: "string \<Rightarrow> string \<Rightarrow> (string \<times> string) option" where
  "lex_cont p x \<equiv> map_option (\<lambda>(r, rest). (p @ r, rest)) (lex_string x)"

lemma lex_string_plain: "plain c \<Longrightarrow> lex_string (c # x) = lex_cont [c] x"
  by (subst lex_string.simps) (auto simp: plain_def)

lemma lex_string_plains: "list_all plain p \<Longrightarrow> lex_string (p @ x) = lex_cont p x"
proof (induction p)
  case Nil
  then show ?case by (cases "lex_string x") auto
next
  case (Cons c p)
  then show ?case by (cases "lex_string x") (auto simp: lex_string_plain)
qed

lemma lex_string_esc:
  "e \<in> set [CHR ''b'', CHR ''f'', CHR ''n'', CHR ''r'', CHR ''t'', CHR 0x5C, CHR ''/'', CHR 0x22] \<Longrightarrow>
   lex_string (CHR 0x5C # e # x) = lex_cont [CHR 0x5C, e] x"
  by (subst lex_string.simps) auto

lemma lex_string_u:
  assumes "hex4 [a, b, c, d] \<noteq> None"
  shows "lex_string (CHR 0x5C # CHR ''u'' # a # b # c # d # x) = lex_cont [CHR 0x5C, CHR ''u'', a, b, c, d] x"
proof -
  from assms have "hex4 (a # b # c # d # x) \<noteq> None"
    by (simp add: hex4_def)
  then show ?thesis
    by (subst lex_string.simps) auto
qed

lemma hexval_hex_digit: "n < 16 \<Longrightarrow> hexval (hex_digit n) = Some n"
  by (drule less_16_cases, elim insertE) (simp_all add: hexval_def hex_digit_def is_digit_def)

lemma hexval_0 [simp]: "hexval CHR ''0'' = Some 0"
  by (simp add: hexval_def is_digit_def)

lemma code_div_mod_16: "code c div 16 < 16" "code c mod 16 < 16"
  by (simp_all add: less_mult_imp_div_less)

lemma hex4_control [simp]:
  "hex4 [CHR ''0'', CHR ''0'', hex_digit (code c div 16), hex_digit (code c mod 16)] = Some (code c)"
  by (simp add: hex4_def hexval_hex_digit code_div_mod_16)

lemma lex_string_escape_ascii: "lex_string (escape_ascii c @ x) = lex_cont (escape_ascii c) x"
  by (simp add: escape_ascii_def lex_string_esc lex_string_u lex_string_plain plain_def)

lemma take4_cases:
  obtains "s = []" | a where "s = [a]" | a b where "s = [a, b]" | a b c where "s = [a, b, c]"
  | a b c d t where "s = a # b # c # d # t"
  by (metis list.exhaust)

lemma utf8_size_le: "utf8_size s \<le> length s"
  by (cases s rule: take4_cases) (auto simp: utf8_size_def)

lemma utf8_size_ascii: "code c < 0x80 \<Longrightarrow> utf8_size (c # cs) = 1"
  by (simp add: utf8_size_def)

lemma utf8_size_prefix:
  assumes "utf8_size s > 0"
  shows "utf8_size (take (utf8_size s) s @ y) = utf8_size s"
  using assms
  by (cases s rule: take4_cases) (auto simp: utf8_size_def split: if_splits)

lemma utf8_size_high:
  assumes "utf8_size (c # cs) > 0" and "0x80 \<le> code c"
  shows "list_all (\<lambda>x. 0x80 \<le> code x) (take (utf8_size (c # cs)) (c # cs))"
  using assms
  by (cases "c # cs" rule: take4_cases) (auto simp: utf8_size_def is_cont_def split: if_splits)

lemma high_plain: "list_all (\<lambda>x. 0x80 \<le> code x) p \<Longrightarrow> list_all plain p"
  by (auto simp: list_all_iff plain_def)

lemma escape_Nil [simp]: "escape [] = []"
  by (simp add: escape.simps)

lemma escape_ascii_Cons: "code c < 0x80 \<Longrightarrow> escape (c # cs) = escape_ascii c @ escape cs"
  by (simp add: escape.simps [of "c # cs"])

text \<open>The cases of \<open>escape\<close>, with what is written and what is left.\<close>

lemma escape_cases:
  assumes "s \<noteq> []"
  obtains (ascii) c cs where "s = c # cs" "code c < 0x80" "escape s = escape_ascii c @ escape cs"
  | (invalid) c cs where "s = c # cs" "utf8_size s = 0" "escape s = [CHR 0x5C] @ ''ufffd'' @ escape cs"
  | (ls) "take 3 s = encode_rune 0x2028" "utf8_size s = 3" "escape s = [CHR 0x5C] @ ''u2028'' @ escape (drop 3 s)"
  | (ps) "take 3 s = encode_rune 0x2029" "utf8_size s = 3" "escape s = [CHR 0x5C] @ ''u2029'' @ escape (drop 3 s)"
  | (multi) c cs where "s = c # cs" "0x80 \<le> code c" "utf8_size s > 0"
      "escape s = take (utf8_size s) s @ escape (drop (utf8_size s) s)"
proof -
  from assms obtain c cs where s: "s = c # cs" by (cases s) auto
  have els: "encode_rune 0x2028 = map char_of [0xE2, 0x80, 0xA8 :: nat]"
    and eps: "encode_rune 0x2029 = map char_of [0xE2, 0x80, 0xA9 :: nat]"
    by (simp_all add: encode_rune_def)
  have three: "utf8_size s = 3" if "take 3 s = map char_of [0xE2, 0x80, z]" "0x80 \<le> z" "z \<le> 0xBF" for z :: nat
    using that by (cases s rule: take4_cases) (auto simp: utf8_size_def is_cont_def)
  have esc: "escape s =
      (if code c < 0x80 then escape_ascii c @ escape cs
       else if utf8_size s = 0 then [CHR 0x5C] @ ''ufffd'' @ escape cs
       else if take 3 s = encode_rune 0x2028 then [CHR 0x5C] @ ''u2028'' @ escape (drop 3 s)
       else if take 3 s = encode_rune 0x2029 then [CHR 0x5C] @ ''u2029'' @ escape (drop 3 s)
       else take (utf8_size s) s @ escape (drop (utf8_size s) s))"
    unfolding els eps by (subst escape.simps) (simp add: s)
  consider "code c < 0x80" | "0x80 \<le> code c" "utf8_size s = 0"
    | "0x80 \<le> code c" "utf8_size s > 0" "take 3 s = encode_rune 0x2028"
    | "0x80 \<le> code c" "utf8_size s > 0" "take 3 s = encode_rune 0x2029"
    | "0x80 \<le> code c" "utf8_size s > 0" "take 3 s \<noteq> encode_rune 0x2028" "take 3 s \<noteq> encode_rune 0x2029"
    by linarith
  then show thesis
  proof cases
    case 1
    with s esc show thesis by (intro ascii) auto
  next
    case 2
    with s esc show thesis by (intro invalid) auto
  next
    case 3
    with three [of "0xA8"] have "utf8_size s = 3" by (simp add: els)
    with 3 esc show thesis by (intro ls) simp_all
  next
    case 4
    with three [of "0xA9"] have "utf8_size s = 3" by (simp add: eps)
    moreover have "encode_rune 0x2029 \<noteq> encode_rune 0x2028"
      by (simp add: els eps)
    ultimately show thesis using 4 esc by (intro ps) simp_all
  next
    case 5
    with s esc show thesis by (intro multi) simp_all
  qed
qed

lemma lex_cont_append [simp]:
  "map_option (\<lambda>(r, rest). (p @ r, rest)) (lex_cont q x) = lex_cont (p @ q) x"
  by (cases "lex_string x") auto

lemma hex4_specials: "hex4 ''fffd'' = Some 0xFFFD" "hex4 ''2028'' = Some 0x2028" "hex4 ''2029'' = Some 0x2029"
  by (simp_all add: hex4_def hexval_def is_digit_def)

lemma lex_string_escape: "lex_string (escape s @ x) = lex_cont (escape s) x"
proof (induction s rule: measure_induct_rule [where f = length])
  case (less s)
  show ?case
  proof (cases "s = []")
    case True
    then show ?thesis by (cases "lex_string x") auto
  next
    case False
    then show ?thesis
    proof (cases s rule: escape_cases)
      case (ascii c cs)
      with less [of cs] show ?thesis by (simp add: lex_string_escape_ascii)
    next
      case (invalid c cs)
      with less [of cs] show ?thesis
        by (cases "lex_string x") (simp_all add: lex_string_u hex4_specials split: prod.splits)
    next
      case ls
      with less [of "drop 3 s"] False show ?thesis
        by (cases "lex_string x") (simp_all add: lex_string_u hex4_specials split: prod.splits)
    next
      case ps
      with less [of "drop 3 s"] False show ?thesis
        by (cases "lex_string x") (simp_all add: lex_string_u hex4_specials split: prod.splits)
    next
      case (multi c cs)
      have "list_all plain (take (utf8_size s) s)"
        using multi utf8_size_high high_plain by blast
      with less [of "drop (utf8_size s) s"] multi show ?thesis
        by (simp add: lex_string_plains)
    qed
  qed
qed

lemma unquote_Nil [simp]: "unquote [] = []"
  by (simp add: unquote.simps)

lemma encode_rune_ascii: "code c < 0x80 \<Longrightarrow> encode_rune (code c) = [c]"
  by (simp add: encode_rune_def)

lemma unquote_u:
  assumes "hex4 [a, b, c, d] = Some r" and "\<not> is_surrogate r"
  shows "unquote (CHR 0x5C # CHR ''u'' # a # b # c # d # x) = encode_rune r @ unquote x"
proof -
  from assms(1) have "hex4 (a # b # c # d # x) = Some r"
    by (simp add: hex4_def)
  with assms(2) show ?thesis
    by (subst unquote.simps) simp
qed

lemma unquote_esc: "e \<noteq> CHR ''u'' \<Longrightarrow> unquote (CHR 0x5C # e # x) = unescape_char e # unquote x"
  by (subst unquote.simps) simp

lemma unquote_ascii: "code c < 0x80 \<Longrightarrow> c \<noteq> CHR 0x5C \<Longrightarrow> unquote (c # x) = c # unquote x"
  by (subst unquote.simps) simp

lemma unquote_multi:
  assumes "0x80 \<le> code c" and "utf8_size (c # cs) > 0"
  shows "unquote (c # cs) = take (utf8_size (c # cs)) (c # cs) @ unquote (drop (utf8_size (c # cs)) (c # cs))"
proof -
  from assms(1) have "c \<noteq> CHR 0x5C" by auto
  with assms show ?thesis by (subst unquote.simps) simp
qed

lemma unquote_escape_ascii:
  assumes "code c < 0x80"
  shows "unquote (escape_ascii c @ x) = c # unquote x"
proof -
  have u: "unquote (CHR 0x5C # CHR ''u'' # CHR ''0'' # CHR ''0'' # hex_digit (code c div 16) #
      hex_digit (code c mod 16) # x) = c # unquote x"
    using assms by (simp add: unquote_u is_surrogate_def encode_rune_ascii)
  consider "c = CHR 0x5C" | "c = CHR 0x22" | "c = CHR 0x0A" | "c = CHR 0x0D" | "c = CHR 0x09"
    | "c \<noteq> CHR 0x5C" "c \<noteq> CHR 0x22" "code c \<noteq> 10" "code c \<noteq> 13" "code c \<noteq> 9"
    using char_eqI [of c "CHR 0x0A"] char_eqI [of c "CHR 0x0D"] char_eqI [of c "CHR 0x09"] by fastforce
  then show ?thesis
  proof cases
    case 6
    with u assms show ?thesis by (simp add: escape_ascii_def unquote_ascii)
  qed (simp_all add: escape_ascii_def unquote_esc unescape_char_def)
qed

lemma valid_utf8_Nil [simp]: "valid_utf8 []"
  by (simp add: valid_utf8.simps)

lemma valid_utf8_step: "s \<noteq> [] \<Longrightarrow> valid_utf8 s \<longleftrightarrow> utf8_size s > 0 \<and> valid_utf8 (drop (utf8_size s) s)"
  by (subst valid_utf8.simps) auto

lemma unquote_escape: "valid_utf8 s \<Longrightarrow> unquote (escape s) = s"
proof (induction s rule: measure_induct_rule [where f = length])
  case (less s)
  show ?case
  proof (cases "s = []")
    case True
    then show ?thesis by simp
  next
    case False
    with less.prems have v: "utf8_size s > 0" "valid_utf8 (drop (utf8_size s) s)"
      by (simp_all add: valid_utf8_step)
    from False show ?thesis
    proof (cases s rule: escape_cases)
      case (ascii c cs)
      with v less.IH [of cs] show ?thesis
        by (simp add: utf8_size_ascii unquote_escape_ascii)
    next
      case (invalid c cs)
      with v show ?thesis by simp
    next
      case ls
      have "unquote (escape s) = take 3 s @ drop 3 s"
        using ls v less.IH [of "drop 3 s"] False
        by (simp add: unquote_u hex4_specials is_surrogate_def)
      then show ?thesis by simp
    next
      case ps
      have "unquote (escape s) = take 3 s @ drop 3 s"
        using ps v less.IH [of "drop 3 s"] False
        by (simp add: unquote_u hex4_specials is_surrogate_def)
      then show ?thesis by simp
    next
      case (multi c cs)
      let ?n = "utf8_size s"
      have IH: "unquote (escape (drop ?n s)) = drop ?n s"
        using less.IH [of "drop ?n s"] v False by simp
      have n: "utf8_size (take ?n s @ escape (drop ?n s)) = ?n"
        using utf8_size_prefix [OF v(1)] .
      obtain rest where hd: "take ?n s @ escape (drop ?n s) = c # rest"
        using multi(1) v(1) by (cases ?n) auto
      have "unquote (take ?n s @ escape (drop ?n s)) = take ?n s @ unquote (escape (drop ?n s))"
        using unquote_multi [of c rest] multi(2) v(1) utf8_size_le [of s]
        unfolding hd [symmetric] n by simp
      with IH multi(4) show ?thesis by simp
    qed
  qed
qed

end
