(* ===== verification/Go_Json_Roundtrip.thy ===== *)
theory Go_Json_Roundtrip
  imports Go_Json
begin

text \<open>
  Reading back what \<open>encoding/json\<close> writes: number literals, syntax trees, and the values of an
  \<open>interface{}\<close>; and the shape of a written text (no control byte, so no line break), on which
  the line-oriented mutation log rests.
\<close>

section \<open>Number literals\<close>

definition number_char :: "char \<Rightarrow> bool" where
  "number_char c \<longleftrightarrow> is_digit c \<or> c \<in> set ''.eE+-''"

text \<open>What may follow a value without being read as part of it.\<close>

definition ends_value :: "string \<Rightarrow> bool" where
  "ends_value rest \<longleftrightarrow> (case rest of [] \<Rightarrow> True | c # _ \<Rightarrow> \<not> number_char c)"

lemma ends_value_simps [simp]: "ends_value []" "ends_value (c # r) \<longleftrightarrow> \<not> number_char c"
  by (simp_all add: ends_value_def)

lemma number_char_delims [simp]:
  "\<not> number_char CHR '',''" "\<not> number_char CHR '']''" "\<not> number_char CHR ''}''" "\<not> number_char CHR 0x0A"
  by (simp_all add: number_char_def is_digit_def)

lemma number_char_members: "c \<in> set ''.eE+-'' \<Longrightarrow> number_char c" "is_digit c \<Longrightarrow> number_char c"
  by (simp_all add: number_char_def)

lemma digit_run_append:
  "ends_value rest \<Longrightarrow> digit_run (s @ rest) = (fst (digit_run s), snd (digit_run s) @ rest)"
proof (induction s)
  case Nil
  then show ?case by (cases rest) (auto simp: digit_run_def number_char_def)
next
  case (Cons c s)
  then show ?case by (auto simp: digit_run_def)
qed

lemma lex_int_append:
  "lex_int s = Some (i, s2) \<Longrightarrow> ends_value rest \<Longrightarrow> lex_int (s @ rest) = Some (i, s2 @ rest)"
  using digit_run_append [of rest s]
  by (cases s) (auto simp: lex_int_def split: if_splits)

lemma lex_frac_append:
  "lex_frac s = Some (f, s3) \<Longrightarrow> ends_value rest \<Longrightarrow> lex_frac (s @ rest) = Some (f, s3 @ rest)"
proof (cases s)
  case Nil
  assume "lex_frac s = Some (f, s3)" and "ends_value rest"
  with Nil show ?thesis
    by (cases rest) (auto simp: lex_frac_def number_char_def)
next
  case (Cons c r)
  assume "lex_frac s = Some (f, s3)" and "ends_value rest"
  with Cons show ?thesis
    by (auto simp: lex_frac_def digit_run_append split: if_splits prod.splits)
qed

lemma lex_exp_append:
  "lex_exp s = Some (e, s4) \<Longrightarrow> ends_value rest \<Longrightarrow> lex_exp (s @ rest) = Some (e, s4 @ rest)"
proof (cases s)
  case Nil
  assume "lex_exp s = Some (e, s4)" and "ends_value rest"
  with Nil show ?thesis
    by (cases rest) (auto simp: lex_exp_def number_char_def)
next
  case (Cons c r)
  assume l: "lex_exp s = Some (e, s4)" and rest: "ends_value rest"
  show ?thesis
  proof (cases r)
    case Nil
    with l Cons rest show ?thesis
      by (auto simp: lex_exp_def digit_run_def split: if_splits)
  next
    case (Cons d r')
    with l \<open>s = c # r\<close> rest digit_run_append [OF rest, of r'] digit_run_append [OF rest, of "d # r'"]
    show ?thesis
      by (auto simp: lex_exp_def split: if_splits prod.splits)
  qed
qed

lemma lex_number_append:
  assumes "lex_number s = Some (l, r)" and "ends_value rest"
  shows "lex_number (s @ rest) = Some (l, r @ rest)"
proof -
  obtain sg s1 where sg: "lex_sign s = (sg, s1)" by fastforce
  from assms(1) sg obtain i s2 f s3 e where
    parts: "lex_int s1 = Some (i, s2)" "lex_frac s2 = Some (f, s3)" "lex_exp s3 = Some (e, r)"
    and l: "l = sg @ i @ f @ e"
    by (auto simp: lex_number_def split: option.splits)
  have "s \<noteq> []"
    using parts(1) sg by (auto simp: lex_int_def lex_sign_def)
  with sg have "lex_sign (s @ rest) = (sg, s1 @ rest)"
    by (auto simp: lex_sign_def split: list.splits if_splits)
  with parts l assms(2) show ?thesis
    by (simp add: lex_number_def lex_int_append lex_frac_append lex_exp_append)
qed

lemma number_literal_append:
  "number_literal l \<Longrightarrow> ends_value rest \<Longrightarrow> lex_number (l @ rest) = Some (l, rest)"
  using lex_number_append [of l l "[]" rest] by (simp add: number_literal_def)

lemma itoa_hd: "n > 0 \<Longrightarrow> hd (itoa n) \<noteq> CHR ''0''"
proof (induction n rule: itoa.induct)
  case (1 n)
  show ?case
  proof (cases "n < 10")
    case True
    have "code (digit_char n) \<noteq> 48" using True "1.prems" by simp
    moreover have "code CHR ''0'' = 48" by simp
    ultimately show ?thesis using True by (subst itoa.simps) (auto simp del: code_digit_char)
  next
    case False
    with 1 show ?thesis by (subst itoa.simps) simp
  qed
qed

lemma lex_int_itoa: "lex_int (itoa n) = Some (itoa n, [])"
proof (cases "n = 0")
  case True
  have "digit_char 0 = CHR ''0''" by (rule char_eqI) simp
  then have "itoa 0 = [CHR ''0'']" by (simp add: itoa.simps)
  with True show ?thesis by (simp add: lex_int_def)
next
  case False
  obtain c cs where s: "itoa n = c # cs" by (cases "itoa n") auto
  with False itoa_hd [of n] itoa_digits [of n] show ?thesis
    by (auto simp: lex_int_def digit_run_def list_all_iff takeWhile_eq_all_conv)
qed

lemma number_literal_format_int: "number_literal (format_int i)"
proof -
  have sgn: "lex_sign (itoa n) = ([], itoa n)" for n
  proof -
    obtain c cs where s: "itoa n = c # cs" by (cases "itoa n") auto
    with itoa_digits [of n] have "c \<noteq> CHR ''-''" by (intro notI) (auto simp: is_digit_def)
    with s show ?thesis by (simp add: lex_sign_def)
  qed
  show ?thesis
    by (simp add: number_literal_def format_int_def lex_number_def sgn lex_int_itoa)
      (simp add: lex_sign_def lex_int_itoa lex_frac_def lex_exp_def)
qed

section \<open>Syntax trees\<close>

definition raw_ok :: "string \<Rightarrow> bool" where
  "raw_ok r \<longleftrightarrow> (\<forall>x. lex_string (r @ x) = lex_cont r x)"

lemma raw_ok_escape [simp]: "raw_ok (escape s)"
  by (simp add: raw_ok_def lex_string_escape)

lemma raw_ok_lex: "raw_ok r \<Longrightarrow> lex_string (r @ CHR 0x22 # rest) = Some (r, rest)"
  by (simp add: raw_ok_def lex_string.simps [of "CHR 0x22 # rest"])

fun wf_tree :: "jtree \<Rightarrow> bool" where
  "wf_tree (TNum l) = number_literal l"
| "wf_tree (TStr r) = raw_ok r"
| "wf_tree (TArr ts) = list_all wf_tree ts"
| "wf_tree (TObj ms) = list_all (\<lambda>(k, t). raw_ok k \<and> wf_tree t) ms"
| "wf_tree _ = True"

definition print_member :: "string \<times> jtree \<Rightarrow> string" where
  "print_member m = [CHR 0x22] @ fst m @ [CHR 0x22] @ '':'' @ print_tree (snd m)"

lemma print_TObj: "print_tree (TObj ms) = ''{'' @ Join (map print_member ms) '','' @ ''}''"
proof -
  have "print_member = (\<lambda>(k, t). [CHR 0x22] @ k @ [CHR 0x22] @ '':'' @ print_tree t)"
    by (rule ext) (simp add: print_member_def case_prod_beta)
  then show ?thesis by simp
qed

lemma print_member_pair: "print_member (k, t) = [CHR 0x22] @ k @ [CHR 0x22] @ '':'' @ print_tree t"
  by (simp add: print_member_def)

declare print_tree.simps(6) [simp del]

lemma number_literal_hd:
  assumes "number_literal l"
  obtains c cs where "l = c # cs" and "is_digit c \<or> c = CHR ''-''"
proof -
  from assms have "lex_number l \<noteq> None" by (simp add: number_literal_def)
  then have "\<exists>c cs. l = c # cs \<and> (is_digit c \<or> c = CHR ''-'')"
    by (cases l) (auto simp: lex_number_def lex_sign_def lex_int_def is_digit_def split: if_splits option.splits)
  with that show thesis by blast
qed

lemma print_tree_hd:
  assumes "wf_tree t"
  obtains c cs where "print_tree t = c # cs" and "\<not> is_ws c" and "c \<noteq> CHR '']''"
proof (cases t)
  case (TNum l)
  with assms obtain c cs where "l = c # cs" "is_digit c \<or> c = CHR ''-''"
    by (auto elim: number_literal_hd)
  moreover from this(2) have "\<not> is_ws c" "c \<noteq> CHR '']''"
    by (auto simp: is_ws_def is_digit_def)
  ultimately show thesis using TNum that by simp
next
  case (TBool b)
  with that show thesis by (cases b) (auto simp: is_ws_def)
qed (use that in \<open>auto simp: print_TObj is_ws_def\<close>)

lemma skip_ws_print: "wf_tree t \<Longrightarrow> skip_ws (print_tree t @ r) = print_tree t @ r"
  by (elim print_tree_hd) (simp add: skip_ws_def)

lemma print_tree_length: "wf_tree t \<Longrightarrow> 0 < length (print_tree t)"
  by (elim print_tree_hd) simp

text \<open>Parsing the elements of an array and the members of an object, given the values.\<close>

definition parses :: "jtree \<Rightarrow> bool" where
  "parses t \<longleftrightarrow> (\<forall>n rest. length (print_tree t) < n \<longrightarrow> ends_value rest \<longrightarrow>
     parse_value n (print_tree t @ rest) = Some (t, rest))"

lemma parses_step:
  "parses t \<Longrightarrow> length (print_tree t) < n \<Longrightarrow> ends_value rest \<Longrightarrow>
   parse_value n (print_tree t @ rest) = Some (t, rest)"
  by (simp add: parses_def)

lemma skip_ws_delim [simp]: "\<not> is_ws c \<Longrightarrow> skip_ws (c # r) = c # r"
  by (simp add: skip_ws_def)

lemma not_ws [simp]:
  "\<not> is_ws CHR '',''" "\<not> is_ws CHR '']''" "\<not> is_ws CHR ''}''" "\<not> is_ws CHR '':''" "\<not> is_ws CHR 0x22"
  "\<not> is_ws CHR ''{''" "\<not> is_ws CHR ''[''"
  by (simp_all add: is_ws_def)

lemma parse_elems_print:
  assumes "ts \<noteq> []" and "\<forall>t \<in> set ts. parses t \<and> wf_tree t"
    and "length (Join (map print_tree ts) '','') + 1 < n"
  shows "parse_elems n (Join (map print_tree ts) '','' @ '']'' @ rest) = Some (ts, rest)"
  using assms
proof (induction ts arbitrary: n)
  case Nil
  then show ?case by simp
next
  case (Cons t ts)
  from Cons.prems(3) obtain m where n: "n = Suc m" by (cases n) auto
  show ?case
  proof (cases "ts = []")
    case True
    with Cons.prems n show ?thesis by (simp add: parses_step)
  next
    case False
    with Cons.prems(3) n print_tree_length [of t] Cons.prems(2)
    have len: "length (print_tree t) < m" "length (Join (map print_tree ts) '','') + 1 < m"
      by (auto simp: Join_Cons)
    with False Cons.IH [of m] Cons.prems(2) n show ?thesis
      by (simp add: Join_Cons parses_step)
  qed
qed

lemma parse_members_print:
  assumes "ms \<noteq> []" and "\<forall>m \<in> set ms. raw_ok (fst m) \<and> parses (snd m) \<and> wf_tree (snd m)"
    and "length (Join (map print_member ms) '','') + 1 < n"
  shows "parse_members n (Join (map print_member ms) '','' @ ''}'' @ rest) = Some (ms, rest)"
  using assms
proof (induction ms arbitrary: n)
  case Nil
  then show ?case by simp
next
  case (Cons m ms)
  obtain k t where m: "m = (k, t)" by fastforce
  from Cons.prems(3) obtain n' where n: "n = Suc n'" by (cases n) auto
  show ?case
  proof (cases "ms = []")
    case True
    with Cons.prems n m show ?thesis
      by (simp add: parses_step print_member_pair raw_ok_lex strip_lit_def HasPrefix_def)
  next
    case False
    with Cons.prems(3) n m
    have len: "length (print_tree t) < n'" "length (Join (map print_member ms) '','') + 1 < n'"
      by (auto simp: Join_Cons print_member_pair)
    with False Cons.IH [of n'] Cons.prems(2) n m show ?thesis
      by (simp add: Join_Cons parses_step print_member_pair raw_ok_lex strip_lit_def HasPrefix_def)
  qed
qed

lemma strip_lit_prefix [simp]: "strip_lit l (l @ r) = Some r"
  by (simp add: strip_lit_def)

lemma strip_lit_Cons: "strip_lit [c] (d # r) = (if c = d then Some r else None)"
  by (auto simp: strip_lit_def HasPrefix_def)

lemma parses_atoms: "parses TNull" "parses (TBool b)"
  unfolding parses_def
  by (auto simp: gr0_conv_Suc less_eq_Suc_le skip_ws_def is_ws_def strip_lit_def HasPrefix_def
      dest!: Suc_le_D split: bool.splits)

lemma parses_TNum:
  assumes "number_literal l"
  shows "parses (TNum l)"
  unfolding parses_def
proof (intro allI impI)
  fix n rest
  assume n: "length (print_tree (TNum l)) < n" and rest: "ends_value rest"
  from n obtain m where m: "n = Suc m" by (cases n) auto
  from assms obtain c cs where l: "l = c # cs" and c: "is_digit c \<or> c = CHR ''-''"
    by (rule number_literal_hd)
  from c have "\<not> is_ws c" "c \<noteq> CHR 0x22" "c \<noteq> CHR ''{''" "c \<noteq> CHR ''[''" "c \<noteq> CHR ''t''"
    "c \<noteq> CHR ''f''" "c \<noteq> CHR ''n''"
    by (auto simp: is_ws_def is_digit_def)
  with m l number_literal_append [OF assms rest] show "parse_value n (print_tree (TNum l) @ rest) = Some (TNum l, rest)"
    by simp
qed

lemma parses_TStr: "raw_ok r \<Longrightarrow> parses (TStr r)"
  unfolding parses_def by (auto simp: raw_ok_lex dest!: Suc_le_D simp: less_eq_Suc_le)

lemma parses_TArr:
  assumes "\<forall>t \<in> set ts. parses t \<and> wf_tree t"
  shows "parses (TArr ts)"
  unfolding parses_def
proof (intro allI impI)
  fix n rest
  assume n: "length (print_tree (TArr ts)) < n"
  then obtain m where m: "n = Suc m" by (cases n) auto
  show "parse_value n (print_tree (TArr ts) @ rest) = Some (TArr ts, rest)"
  proof (cases ts)
    case Nil
    with m show ?thesis by (simp add: strip_lit_Cons)
  next
    case (Cons t us)
    with assms obtain c cs where "print_tree t = c # cs" "\<not> is_ws c" "c \<noteq> CHR '']''"
      by (auto elim: print_tree_hd)
    then have "strip_lit '']'' (skip_ws (Join (map print_tree ts) '','' @ x)) = None" for x
      using Cons by (cases us) (auto simp: strip_lit_Cons)
    with parse_elems_print [OF _ assms, of m rest] Cons m n show ?thesis
      by simp
  qed
qed

lemma parses_TObj:
  assumes "\<forall>m \<in> set ms. raw_ok (fst m) \<and> parses (snd m) \<and> wf_tree (snd m)"
  shows "parses (TObj ms)"
  unfolding parses_def
proof (intro allI impI)
  fix n rest
  assume n: "length (print_tree (TObj ms)) < n"
  then obtain m where m: "n = Suc m" by (cases n) auto
  show "parse_value n (print_tree (TObj ms) @ rest) = Some (TObj ms, rest)"
  proof (cases ms)
    case Nil
    with m show ?thesis by (simp add: strip_lit_Cons print_TObj)
  next
    case (Cons k us)
    then have "strip_lit ''}'' (skip_ws (Join (map print_member ms) '','' @ x)) = None" for x
      by (cases us) (auto simp: strip_lit_Cons print_member_def)
    with parse_members_print [OF _ assms, of m rest] Cons m n show ?thesis
      by (simp add: print_TObj)
  qed
qed

lemma wf_tree_parses: "wf_tree t \<Longrightarrow> parses t"
proof (induction t)
  case (TArr ts)
  then show ?case by (auto simp: list_all_iff intro!: parses_TArr)
next
  case (TObj ms)
  then show ?case by (fastforce simp: list_all_iff intro!: parses_TObj)
qed (auto intro: parses_atoms parses_TNum parses_TStr)

theorem parse_print: "wf_tree t \<Longrightarrow> parse_text (print_tree t) = Some t"
  using parses_step [OF wf_tree_parses, of t "Suc (length (print_tree t))" "[]"]
  by (simp add: parse_text_def skip_ws_def del: parse_value.simps)

text \<open>The next value of a stream, when a line break ends it.\<close>

lemma decode_next_print:
  assumes "wf_tree t"
  shows "decode_next (print_tree t @ CHR 0x0A # rest) = Inr (t, CHR 0x0A # rest)"
proof -
  have "skip_ws (print_tree t @ CHR 0x0A # rest) \<noteq> []"
    using assms print_tree_length [OF assms] by (simp add: skip_ws_print)
  then show ?thesis
    using assms parses_step [OF wf_tree_parses [OF assms], of "Suc (length (print_tree t @ CHR 0x0A # rest))"
        "CHR 0x0A # rest"]
    by (simp add: decode_next_def del: parse_value.simps)
qed

lemma decode_next_print_end: "wf_tree t \<Longrightarrow> decode_next (print_tree t) = Inr (t, [])"
  using parses_step [OF wf_tree_parses, of t "Suc (length (print_tree t))" "[]"] print_tree_length [of t]
    skip_ws_print [of t "[]"]
  by (auto simp: decode_next_def simp del: parse_value.simps)

section \<open>Fuel\<close>

lemma skip_ws_length: "length (skip_ws s) \<le> length s"
  by (simp add: skip_ws_def length_dropWhile_le)

lemma skip_ws_Cons_length: "skip_ws s = c # cs \<Longrightarrow> length cs < length s"
  using skip_ws_length [of s] by simp

lemma strip_lit_length: "strip_lit l s = Some r \<Longrightarrow> length s = length l + length r"
  by (auto simp: strip_lit_def HasPrefix_iff split: if_splits)

lemma lex_string_length: "lex_string s = Some (r, rest) \<Longrightarrow> length rest < length s"
proof (induction s arbitrary: r rule: lex_string.induct)
  case (1 s)
  then show ?case
    by (subst (asm) (4) lex_string.simps)
      (fastforce split: list.splits if_splits)
qed

lemma digit_run_split: "digit_run s = (ds, r) \<Longrightarrow> s = ds @ r"
  by (auto simp: digit_run_def)

lemma lex_sign_split: "lex_sign s = (sg, r) \<Longrightarrow> s = sg @ r"
  by (auto simp: lex_sign_def split: list.splits if_splits)

lemma lex_int_split: "lex_int s = Some (i, r) \<Longrightarrow> s = i @ r \<and> i \<noteq> []"
  by (auto simp: lex_int_def digit_run_def split: list.splits if_splits)

lemma lex_frac_split: "lex_frac s = Some (f, r) \<Longrightarrow> s = f @ r"
  by (auto simp: lex_frac_def digit_run_def split: list.splits if_splits)

lemma lex_exp_split: "lex_exp s = Some (e, r) \<Longrightarrow> s = e @ r"
  by (auto simp: lex_exp_def digit_run_def split: list.splits if_splits)

lemma lex_number_length: "lex_number s = Some (r, rest) \<Longrightarrow> length rest < length s"
  by (auto simp: lex_number_def split: option.splits prod.splits
      dest!: lex_sign_split lex_int_split lex_frac_split lex_exp_split)


lemma parse_consumes:
  "parse_value n s = Some (v, rest) \<Longrightarrow> length rest < length s"
  "parse_elems n s = Some (vs, rest) \<Longrightarrow> length rest < length s"
  "parse_members n s = Some (ms, rest) \<Longrightarrow> length rest < length s"
proof (induction n s and n s and n s arbitrary: v rest and vs rest and ms rest rule: parse_value_parse_elems_parse_members.induct)
  case (2 n s)
  from "2.prems" obtain c cs where ws: "skip_ws s = c # cs" by (cases "skip_ws s") auto
  note len = skip_ws_Cons_length [OF ws]
  have wsl: "length (skip_ws cs) \<le> length cs" by (rule skip_ws_length)
  from "2.prems" "2.IH" [OF ws] ws len wsl show ?case
    by (auto split: if_splits option.splits dest!: lex_string_length lex_number_length strip_lit_length)
next
  case (4 n s)
  from "4.prems" obtain e s1 where e: "parse_value n s = Some (e, s1)" by (auto split: option.splits)
  with "4.prems" obtain c cs where ws: "skip_ws s1 = c # cs" by (cases "skip_ws s1") auto
  note len = skip_ws_Cons_length [OF ws] "4.IH"(1) [OF e]
  from "4.prems" e ws len "4.IH"(2) [OF e refl ws] show ?case
    by (fastforce split: if_splits)
next
  case (6 n s)
  from "6.prems" obtain s1 k s2 s3 v s4 where
    parts: "strip_lit [CHR 0x22] (skip_ws s) = Some s1" "lex_string s1 = Some (k, s2)"
      "strip_lit '':'' (skip_ws s2) = Some s3" "parse_value n s3 = Some (v, s4)"
    by (auto split: option.splits)
  with "6.prems" obtain c cs where ws: "skip_ws s4 = c # cs" by (cases "skip_ws s4") auto
  have "length s1 < length s" "length s3 < length s2"
    using parts(1,3) skip_ws_length [of s] skip_ws_length [of s2] by (auto dest!: strip_lit_length)
  note len = this lex_string_length [OF parts(2)] skip_ws_Cons_length [OF ws] "6.IH"(1) [OF parts(1,2) refl parts(3,4)]
  from "6.prems" parts ws len "6.IH"(2) [OF parts(1,2) refl parts(3,4) refl ws] show ?case
    by (fastforce split: if_splits)
qed simp_all

text \<open>
  As much fuel as the value has bytes is enough to read it, so more fuel than the text has
  bytes never changes the result.
\<close>

definition enough :: "(nat \<Rightarrow> string \<Rightarrow> ('a \<times> string) option) \<Rightarrow> string \<Rightarrow> 'a \<Rightarrow> string \<Rightarrow> bool" where
  "enough p s v rest \<longleftrightarrow> (\<forall>k \<ge> length s - length rest. p k s = Some (v, rest))"

lemma enoughI:
  assumes "length rest < length s" and "\<And>k. length s - length rest \<le> Suc k \<Longrightarrow> p (Suc k) s = Some (v, rest)"
  shows "enough p s v rest"
  unfolding enough_def
proof (intro allI impI)
  fix k
  assume "length s - length rest \<le> k"
  with assms show "p k s = Some (v, rest)" by (cases k) auto
qed

lemma enoughD: "enough p s v rest \<Longrightarrow> length s - length rest \<le> k \<Longrightarrow> p k s = Some (v, rest)"
  by (simp add: enough_def)

lemma parse_fuel:
  "parse_value n s = Some (v, rest) \<Longrightarrow> enough parse_value s v rest"
  "parse_elems n s = Some (vs, rest) \<Longrightarrow> enough parse_elems s vs rest"
  "parse_members n s = Some (ms, rest) \<Longrightarrow> enough parse_members s ms rest"
proof (induction n s and n s and n s arbitrary: v rest and vs rest and ms rest rule: parse_value_parse_elems_parse_members.induct)
  case (2 n s)
  from "2.prems" obtain c cs where ws: "skip_ws s = c # cs" by (cases "skip_ws s") auto
  note len = skip_ws_Cons_length [OF ws]
  show ?case
  proof (rule enoughI [OF parse_consumes(1) [OF "2.prems"]])
    fix k
    assume k: "length s - length rest \<le> Suc k"
    with len have "length cs - length rest \<le> k" by simp
    with "2.prems" "2.IH" [OF ws] ws show "parse_value (Suc k) s = Some (v, rest)"
      by (fastforce split: if_splits option.splits dest: enoughD)
  qed
next
  case (4 n s)
  from "4.prems" obtain e s1 where e: "parse_value n s = Some (e, s1)" by (auto split: option.splits)
  with "4.prems" obtain c cs where ws: "skip_ws s1 = c # cs" by (cases "skip_ws s1") auto
  note len = skip_ws_Cons_length [OF ws] parse_consumes(1) [OF e] parse_consumes(2) [OF "4.prems"]
  show ?case
  proof (rule enoughI [OF parse_consumes(2) [OF "4.prems"]])
    fix k
    assume k: "length s - length rest \<le> Suc k"
    from "4.prems" e ws have "rest = cs \<or> length rest < length cs"
      by (auto split: if_splits dest: parse_consumes)
    with k len have "length s - length s1 \<le> k" "length cs - length rest \<le> k" by auto
    with "4.prems" e "4.IH"(1) [OF e] "4.IH"(2) [OF e refl ws] ws
    show "parse_elems (Suc k) s = Some (vs, rest)"
      by (fastforce split: if_splits option.splits dest: enoughD)
  qed
next
  case (6 n s)
  from "6.prems" obtain s1 key s2 s3 v s4 where
    parts: "strip_lit [CHR 0x22] (skip_ws s) = Some s1" "lex_string s1 = Some (key, s2)"
      "strip_lit '':'' (skip_ws s2) = Some s3" "parse_value n s3 = Some (v, s4)"
    by (auto split: option.splits)
  with "6.prems" obtain c cs where ws: "skip_ws s4 = c # cs" by (cases "skip_ws s4") auto
  have "length s1 < length s" "length s3 < length s2"
    using parts(1,3) skip_ws_length [of s] skip_ws_length [of s2] by (auto dest!: strip_lit_length)
  note len = this lex_string_length [OF parts(2)] skip_ws_Cons_length [OF ws] parse_consumes(1) [OF parts(4)]
  show ?case
  proof (rule enoughI [OF parse_consumes(3) [OF "6.prems"]])
    fix k
    assume k: "length s - length rest \<le> Suc k"
    from "6.prems" parts ws have "rest = cs \<or> length rest < length cs"
      by (auto split: if_splits dest: parse_consumes)
    with k len have "length s3 - length s4 \<le> k" "length cs - length rest \<le> k" by auto
    with "6.prems" parts "6.IH"(1) [OF parts(1,2) refl parts(3,4)] "6.IH"(2) [OF parts(1,2) refl parts(3,4) refl ws] ws
    show "parse_members (Suc k) s = Some (ms, rest)"
      by (fastforce split: if_splits option.splits dest: enoughD)
  qed
qed simp_all

lemma parse_value_fuel: "parse_value n s = Some r \<Longrightarrow> parse_value (Suc (length s)) s = Some r"
  using parse_fuel(1) [of n s "fst r" "snd r"] by (simp add: enough_def del: parse_value.simps)

lemma decode_next_consumes: "decode_next s = Inr (t, rest) \<Longrightarrow> length rest < length s"
  using parse_consumes(1) by (auto simp: decode_next_def simp del: parse_value.simps split: if_splits option.splits)

section \<open>Maps\<close>

lemma str_less_irrefl [simp]: "\<not> str_less s s"
  by (induction s) auto

lemma str_less_Nil [simp]: "\<not> str_less s []"
  by (cases s) auto

lemma str_less_asym: "str_less s t \<Longrightarrow> \<not> str_less t s"
  by (induction s t rule: str_less.induct) auto

lemma str_less_trans: "str_less s t \<Longrightarrow> str_less t u \<Longrightarrow> str_less s u"
proof (induction s t arbitrary: u rule: str_less.induct)
  case (1 t)
  then show ?case by (cases u; cases t) auto
next
  case (2 a s)
  then show ?case by simp
next
  case (3 a s b t)
  then show ?case by (cases u) auto
qed

lemma str_less_linear: "s = t \<or> str_less s t \<or> str_less t s"
proof (induction s t rule: str_less.induct)
  case (3 a s b t)
  then show ?case using char_eqI [of a b] by fastforce
qed auto

definition sorted_map :: "(string \<times> 'v) list \<Rightarrow> bool" where
  "sorted_map m \<longleftrightarrow> sorted_wrt str_less (map fst m)"

lemma sorted_map_distinct: "sorted_map m \<Longrightarrow> distinct (map fst m)"
  unfolding sorted_map_def by (induction m) auto

lemma set_map_put: "fst ` set (map_put k v m) = insert k (fst ` set m)"
  by (induction k v m rule: map_put.induct) auto

lemma sorted_map_put [wf_intros]: "sorted_map m \<Longrightarrow> sorted_map (map_put k v m)"
proof (induction k v m rule: map_put.induct)
  case (1 k v)
  then show ?case by (simp add: sorted_map_def)
next
  case (2 k v k' v' m)
  show ?case
  proof (cases "k = k' \<or> str_less k k'")
    case True
    with "2.prems" show ?thesis
      by (auto simp: sorted_map_def intro: str_less_trans)
  next
    case False
    then have less: "str_less k' k" using str_less_linear [of k k'] by blast
    from False "2.prems" have IH: "sorted_map (map_put k v m)"
      by (intro "2.IH") (auto simp: sorted_map_def)
    have "fst ` set (map_put k v m) = insert k (fst ` set m)" by (rule set_map_put)
    with IH False "2.prems" less show ?thesis
      by (auto simp: sorted_map_def)
  qed
qed

lemma map_of_map_put: "map_of (map_put k v m) = (map_of m)(k \<mapsto> v)"
  by (induction k v m rule: map_put.induct) (auto simp: fun_eq_iff)

lemma map_put_snoc: "\<forall>k' \<in> fst ` set m. str_less k' k \<Longrightarrow> map_put k v m = m @ [(k, v)]"
  by (induction k v m rule: map_put.induct) (auto dest: str_less_asym)

lemma foldl_map_put_sorted:
  "sorted_map (m @ kvs) \<Longrightarrow> foldl (\<lambda>m (k, v). map_put k v m) m kvs = m @ kvs"
proof (induction kvs arbitrary: m)
  case Nil
  then show ?case by simp
next
  case (Cons kv kvs)
  obtain k v where kv: "kv = (k, v)" by fastforce
  with Cons.prems have "map_put k v m = m @ [(k, v)]"
    by (intro map_put_snoc) (auto simp: sorted_map_def sorted_wrt_append)
  with Cons.IH [of "m @ [(k, v)]"] Cons.prems kv show ?case by simp
qed

section \<open>Values\<close>

text \<open>
  Values that survive the trip: valid UTF-8, maps in key order, integers that a \<open>float64\<close>
  holds exactly. An \<open>int64\<close> comes back as the \<open>float64\<close> of its decimal text.
\<close>

fun wf_json :: "json \<Rightarrow> bool" where
  "wf_json (JInt i) = (- (2 ^ 53) \<le> i \<and> i \<le> 2 ^ 53)"
| "wf_json (JStr s) = valid_utf8 s"
| "wf_json (JArr vs) = list_all wf_json vs"
| "wf_json (JObj m) = (sorted_map m \<and> list_all (\<lambda>(k, v). valid_utf8 k \<and> wf_json v) m)"
| "wf_json _ = True"

fun decoded :: "strconv \<Rightarrow> json \<Rightarrow> json" where
  "decoded sc (JInt i) = JNum (the (ParseFloat sc (format_int i)))"
| "decoded sc (JArr vs) = JArr (map (decoded sc) vs)"
| "decoded sc (JObj m) = JObj (map (\<lambda>(k, v). (k, decoded sc v)) m)"
| "decoded sc v = v"

lemma those_SomeD: "those xs = Some ys \<Longrightarrow> xs = map Some ys"
  by (induction xs arbitrary: ys) (auto split: option.splits)

lemma those_map_Some [simp]: "those (map Some ys) = Some ys"
  by (induction ys) auto

lemma those_map_cong: "(\<And>x. x \<in> set xs \<Longrightarrow> f x = Some (g x)) \<Longrightarrow> those (map f xs) = Some (map g xs)"
  by (induction xs) auto

lemma those_mapD:
  "those (map f xs) = Some ys \<Longrightarrow> length ys = length xs \<and> (\<forall>i < length xs. f (xs ! i) = Some (ys ! i))"
  by (drule those_SomeD) (metis length_map nth_map)

definition reads_back :: "strconv \<Rightarrow> json \<Rightarrow> bool" where
  "reads_back sc v \<longleftrightarrow> (\<forall>t. tree_of sc v = Some t \<longrightarrow> wf_tree t \<and> json_of sc t = Some (decoded sc v))"

lemma reads_back_JArr:
  assumes "\<forall>v \<in> set vs. reads_back sc v"
  shows "reads_back sc (JArr vs)"
  unfolding reads_back_def
proof (intro allI impI)
  fix t
  assume "tree_of sc (JArr vs) = Some t"
  then obtain ts where t: "t = TArr ts" and ts: "those (map (tree_of sc) vs) = Some ts" by auto
  from those_mapD [OF ts] have len: "length ts = length vs"
    and nth: "\<And>i. i < length vs \<Longrightarrow> tree_of sc (vs ! i) = Some (ts ! i)" by auto
  from assms nth have each: "\<And>i. i < length vs \<Longrightarrow> wf_tree (ts ! i) \<and> json_of sc (ts ! i) = Some (decoded sc (vs ! i))"
    unfolding reads_back_def using nth_mem by blast
  have "map (json_of sc) ts = map Some (map (decoded sc) vs)"
    using len each by (intro nth_equalityI) auto
  then have "those (map (json_of sc) ts) = Some (map (decoded sc) vs)"
    by (simp only: those_map_Some)
  moreover have "list_all wf_tree ts"
    using len each by (simp add: list_all_length)
  ultimately show "wf_tree t \<and> json_of sc t = Some (decoded sc (JArr vs))"
    by (simp add: t)
qed

lemma reads_back_JObj:
  assumes "\<forall>(k, v) \<in> set m. valid_utf8 k \<and> reads_back sc v" and "sorted_map m"
  shows "reads_back sc (JObj m)"
  unfolding reads_back_def
proof (intro allI impI)
  fix t
  assume "tree_of sc (JObj m) = Some t"
  then obtain ts where t: "t = TObj (zip (map (\<lambda>(k, v). escape k) m) ts)"
    and ts: "those (map (\<lambda>(k, v). tree_of sc v) m) = Some ts" by auto
  from those_mapD [OF ts] have len: "length ts = length m"
    and nth: "\<And>i. i < length m \<Longrightarrow> tree_of sc (snd (m ! i)) = Some (ts ! i)" by (auto simp: case_prod_beta)
  from assms(1) nth have each: "\<And>i. i < length m \<Longrightarrow>
      wf_tree (ts ! i) \<and> json_of sc (ts ! i) = Some (decoded sc (snd (m ! i))) \<and> valid_utf8 (fst (m ! i))"
    by (fastforce simp: reads_back_def dest: nth_mem)
  let ?ms = "zip (map (\<lambda>(k, v). escape k) m) ts"
  have "map (\<lambda>(k, t). json_of sc t) ?ms = map Some (map (decoded sc \<circ> snd) m)"
    using len each by (intro nth_equalityI) auto
  then have vs: "those (map (\<lambda>(k, t). json_of sc t) ?ms) = Some (map (decoded sc \<circ> snd) m)"
    by (simp only: those_map_Some)
  have ks: "map (\<lambda>(k, t). unquote k) ?ms = map fst m"
    using len each by (intro nth_equalityI) (auto simp: case_prod_beta unquote_escape)
  have "zip (map fst m) (map (decoded sc \<circ> snd) m) = map (\<lambda>(k, v). (k, decoded sc v)) m"
    by (induction m) auto
  moreover have "sorted_map (map (\<lambda>(k, v). (k, decoded sc v)) m)"
    using assms(2) by (simp add: sorted_map_def comp_def case_prod_beta)
  ultimately have "json_of sc t = Some (decoded sc (JObj m))"
    using foldl_map_put_sorted [of "[]"] by (simp add: t vs ks del: zip_map_fst_snd)
  moreover have "wf_tree t"
    using len each by (simp add: t list_all_length case_prod_beta)
  ultimately show "wf_tree t \<and> json_of sc t = Some (decoded sc (JObj m))" by simp
qed

lemma wf_json_reads_back:
  assumes "strconv_ok sc"
  shows "wf_json v \<Longrightarrow> reads_back sc v"
proof (induction v)
  case (JInt i)
  then obtain x where "ParseFloat sc (format_int i) = Some x"
    using assms by (auto simp: strconv_ok_def)
  then show ?case by (simp add: reads_back_def number_literal_format_int)
next
  case (JNum x)
  then show ?case using assms by (auto simp: reads_back_def strconv_ok_def)
next
  case (JStr s)
  then show ?case by (simp add: reads_back_def unquote_escape)
next
  case (JArr vs)
  then show ?case by (auto simp: list_all_iff intro!: reads_back_JArr)
next
  case (JObj m)
  then show ?case by (fastforce simp: list_all_iff intro!: reads_back_JObj)
qed (simp_all add: reads_back_def)

lemma Unmarshal_Marshal:
  assumes "strconv_ok sc" and "wf_json v" and "Marshal sc v = Inr s"
  shows "Unmarshal sc s = Inr (decoded sc v)"
  using assms(3) wf_json_reads_back [OF assms(1,2)]
  by (auto simp: Marshal_def Unmarshal_def reads_back_def parse_print split: option.splits)

section \<open>Written texts hold no control byte\<close>

definition clean :: "string \<Rightarrow> bool" where
  "clean s \<longleftrightarrow> (\<forall>c \<in> set s. 0x20 \<le> code c)"

lemma clean_simps [simp]:
  "clean []" "clean (c # s) \<longleftrightarrow> 0x20 \<le> code c \<and> clean s" "clean (s @ t) \<longleftrightarrow> clean s \<and> clean t"
  by (auto simp: clean_def)

lemma clean_no_newline: "clean s \<Longrightarrow> CHR 0x0A \<notin> set s" "clean s \<Longrightarrow> CHR 0x0D \<notin> set s"
  by (auto simp: clean_def)

lemma clean_digits: "list_all is_digit s \<Longrightarrow> clean s"
  by (auto simp: clean_def list_all_iff is_digit_def)

lemma digit_run_clean: "digit_run s = (ds, r) \<Longrightarrow> clean ds"
  by (auto simp: digit_run_def clean_def is_digit_def dest!: set_takeWhileD)

lemma lex_number_clean: "lex_number s = Some (l, r) \<Longrightarrow> clean l"
  by (auto simp: lex_number_def lex_sign_def lex_int_def lex_frac_def lex_exp_def is_digit_def Let_def
      split: list.splits if_splits option.splits prod.splits dest!: digit_run_clean)

lemma number_literal_clean: "number_literal l \<Longrightarrow> clean l"
  by (auto simp: number_literal_def dest: lex_number_clean)

lemma hex_digit_clean: "n < 16 \<Longrightarrow> 0x20 \<le> code (hex_digit n)"
  by (drule less_16_cases, elim insertE) (simp_all add: hex_digit_def)

lemma escape_ascii_clean: "clean (escape_ascii c)"
  using hex_digit_clean [OF code_div_mod_16(1) [of c]] hex_digit_clean [OF code_div_mod_16(2) [of c]]
  by (auto simp: escape_ascii_def)

lemma escape_clean: "clean (escape s)"
proof (induction s rule: measure_induct_rule [where f = length])
  case (less s)
  show ?case
  proof (cases "s = []")
    case True
    then show ?thesis by simp
  next
    case False
    then show ?thesis
    proof (cases s rule: escape_cases)
      case (multi c cs)
      then have "list_all (\<lambda>x. 0x80 \<le> code x) (take (utf8_size s) s)"
        using utf8_size_high by blast
      then have "clean (take (utf8_size s) s)"
        by (force simp: clean_def list_all_iff)
      with multi less [of "drop (utf8_size s) s"] show ?thesis by simp
    qed (use False less in \<open>simp_all add: escape_ascii_clean\<close>)
  qed
qed

fun clean_tree :: "jtree \<Rightarrow> bool" where
  "clean_tree (TNum l) = clean l"
| "clean_tree (TStr r) = clean r"
| "clean_tree (TArr ts) = list_all clean_tree ts"
| "clean_tree (TObj ms) = list_all (\<lambda>(k, t). clean k \<and> clean_tree t) ms"
| "clean_tree _ = True"

lemma clean_Join: "(\<forall>p \<in> set ps. clean p) \<Longrightarrow> clean sep \<Longrightarrow> clean (Join ps sep)"
  by (induction ps sep rule: Join.induct) auto

lemma print_clean: "clean_tree t \<Longrightarrow> clean (print_tree t)"
proof (induction t)
  case (TArr ts)
  then show ?case by (auto simp: list_all_iff intro!: clean_Join)
next
  case (TObj ms)
  then show ?case by (fastforce simp: list_all_iff print_TObj print_member_def intro!: clean_Join)
qed auto

lemma tree_of_clean:
  assumes "strconv_ok sc"
  shows "tree_of sc v = Some t \<Longrightarrow> clean_tree t"
proof (induction v arbitrary: t)
  case (JInt i)
  then show ?case by (auto simp: number_literal_format_int number_literal_clean)
next
  case (JNum x)
  then show ?case using assms by (auto simp: strconv_ok_def number_literal_clean)
next
  case (JStr s)
  then show ?case by (auto simp: escape_clean)
next
  case (JArr vs)
  then obtain ts where t: "t = TArr ts" and ts: "those (map (tree_of sc) vs) = Some ts" by auto
  have "clean_tree (ts ! i)" if "i < length vs" for i
    using those_mapD [OF ts] JArr.IH [OF nth_mem [OF that]] that by auto
  with those_mapD [OF ts] show ?case
    by (simp add: t list_all_length)
next
  case (JObj m)
  then obtain ts where t: "t = TObj (zip (map (\<lambda>(k, v). escape k) m) ts)"
    and ts: "those (map (\<lambda>(k, v). tree_of sc v) m) = Some ts" by auto
  have "clean_tree (ts ! i)" if "i < length m" for i
    using those_mapD [OF ts] JObj.IH [of "m ! i" "snd (m ! i)" "ts ! i"] that nth_mem [OF that]
    by (cases "m ! i") (auto simp: case_prod_beta)
  with those_mapD [OF ts] show ?case
    by (simp add: t list_all_length case_prod_beta escape_clean)
qed auto

lemma Marshal_clean: "strconv_ok sc \<Longrightarrow> Marshal sc v = Inr s \<Longrightarrow> clean s"
  by (auto simp: Marshal_def dest: tree_of_clean print_clean split: option.splits)

section \<open>Values that decoding builds\<close>

text \<open>Decoded values hold no \<open>int64\<close>, and encoding and decoding them again changes nothing.\<close>

fun no_int :: "json \<Rightarrow> bool" where
  "no_int (JInt i) = False"
| "no_int (JArr vs) = list_all no_int vs"
| "no_int (JObj m) = list_all (\<lambda>(k, v). no_int v) m"
| "no_int _ = True"

lemma decoded_no_int: "no_int v \<Longrightarrow> decoded sc v = v"
proof (induction v)
  case (JArr vs)
  then show ?case by (auto simp: list_all_iff intro: map_idI)
next
  case (JObj m)
  then show ?case by (auto simp: list_all_iff case_prod_beta' intro!: map_idI)
qed auto

end
