(* ===== verification/Uuid.thy ===== *)
theory Uuid
  imports Go_Strings
begin

text \<open>
  \<open>src/arla/schema/uuid.go\<close>: the \<open>[16]byte\<close> identifiers of mutations and users. A UUID is
  its list of sixteen bytes (\<open>wf_uuid\<close>); the package variables \<open>hardwareAddr\<close> and
  \<open>clockSeq\<close>, which \<open>init\<close> sets and \<open>UUIDFromTime\<close> advances, are an explicit state. The
  operating system's interface list, its random source and the clock are inputs.
\<close>

section \<open>Data\<close>

type_synonym UUID = bytes

definition wf_uuid :: "UUID \<Rightarrow> bool" where
  "wf_uuid u \<longleftrightarrow> length u = 16"

definition zero_uuid :: UUID where
  "zero_uuid = replicate 16 0"

datatype uuid_error =
    InvalidUUID string
  | UUIDLength
  | RandError
  | InvalidJSONUUID string

definition VariantNCSCompat :: int where "VariantNCSCompat = 0"
definition VariantIETF :: int where "VariantIETF = 2"
definition VariantMicrosoft :: int where "VariantMicrosoft = 6"
definition VariantFuture :: int where "VariantFuture = 7"

record net_interface =
  if_loopback :: bool
  if_hwaddr :: bytes

record uuid_env =
  hardwareAddr :: bytes
  clockSeq :: uint32

text \<open>An instant: seconds since the Unix epoch and the nanoseconds within that second.\<close>

record go_time =
  t_unix :: int
  t_nsec :: int

definition wf_time :: "go_time \<Rightarrow> bool" where
  "wf_time t \<longleftrightarrow> 0 \<le> t_nsec t \<and> t_nsec t < 1000000000"

section \<open>Operations\<close>

text \<open>
  \<open>init\<close>: the address of the first interface that is not a loopback and has one; otherwise
  six random bytes with the multicast bit set, a failing random source being a panic
  (\<open>None\<close>). The error of the second random read is ignored by the code.
\<close>

definition uuid_init :: "net_interface list option \<Rightarrow> bytes \<Rightarrow> (uuid_env \<times> bytes) option" where
  "uuid_init interfaces rand =
     (let found = (case interfaces of
                     None \<Rightarrow> None
                   | Some is \<Rightarrow> map_option if_hwaddr (find (\<lambda>i. \<not> if_loopback i \<and> length (if_hwaddr i) > 0) is));
          hw = (case found of
                  Some a \<Rightarrow> Some (a, rand)
                | None \<Rightarrow>
                    (let (b, ok, rand') = read_full 6 rand
                     in if ok then Some (b[0 := b ! 0 OR 0x01], rand') else None))
      in case hw of
           None \<Rightarrow> None
         | Some (a, rand1) \<Rightarrow>
             (let (cs, _, rand2) = read_full 2 rand1
              in Some (\<lparr>hardwareAddr = a, clockSeq = push_bit 8 (ucast (cs ! 1)) OR ucast (cs ! 0)\<rparr>, rand2)))"

text \<open>
  The loop of \<open>ParseUUID\<close>: \<open>j\<close> counts the digits read so far. Go ranges over code points; a
  byte of a multi-byte character is outside every accepted range, as its code point is, so
  reading bytes ends at the same error.
\<close>

definition put_nibble :: "UUID \<Rightarrow> nat \<Rightarrow> nat \<Rightarrow> UUID" where
  "put_nibble u j d = u[j div 2 := u ! (j div 2) OR push_bit (4 - (j mod 2) * 4) (word_of_nat d)]"

fun ParseUUID_loop :: "string \<Rightarrow> nat \<Rightarrow> UUID \<Rightarrow> (UUID \<times> nat) option" where
  "ParseUUID_loop [] j u = Some (u, j)"
| "ParseUUID_loop (r # rs) j u =
     (if r = CHR ''-'' \<and> j mod 2 = 0 then ParseUUID_loop rs j u
      else if code CHR ''0'' \<le> code r \<and> code r \<le> code CHR ''9'' \<and> j < 32 then
        ParseUUID_loop rs (j + 1) (put_nibble u j (code r - code CHR ''0''))
      else if code CHR ''a'' \<le> code r \<and> code r \<le> code CHR ''f'' \<and> j < 32 then
        ParseUUID_loop rs (j + 1) (put_nibble u j (code r - code CHR ''a'' + 10))
      else if code CHR ''A'' \<le> code r \<and> code r \<le> code CHR ''F'' \<and> j < 32 then
        ParseUUID_loop rs (j + 1) (put_nibble u j (code r - code CHR ''A'' + 10))
      else None)"

definition ParseUUID :: "string \<Rightarrow> (uuid_error, UUID) result" where
  "ParseUUID input =
     (case ParseUUID_loop input 0 zero_uuid of
        None \<Rightarrow> Inl (InvalidUUID input)
      | Some (u, j) \<Rightarrow> if j \<noteq> 32 then Inl (InvalidUUID input) else Inr u)"

text \<open>\<open>MustParseUUID\<close> panics (\<open>None\<close>) where \<open>ParseUUID\<close> returns an error.\<close>

definition MustParseUUID :: "string \<Rightarrow> UUID option" where
  "MustParseUUID input = (case ParseUUID input of Inl _ \<Rightarrow> None | Inr u \<Rightarrow> Some u)"

definition UUIDFromBytes :: "bytes \<Rightarrow> (uuid_error, UUID) result" where
  "UUIDFromBytes input =
     (if length input \<noteq> 16 then Inl UUIDLength else Inr (go_copy 0 input zero_uuid))"

text \<open>\<open>RandomUUID\<close> reads from the random source, which is passed on.\<close>

definition RandomUUID :: "bytes \<Rightarrow> (uuid_error, UUID) result \<times> bytes" where
  "RandomUUID rand =
     (let (u, ok, rand') = read_full 16 rand
      in if \<not> ok then (Inl RandError, rand')
         else
           (let u = u[6 := u ! 6 AND 0x0F];
                u = u[6 := u ! 6 OR 0x40];
                u = u[8 := u ! 8 AND 0x3F];
                u = u[8 := u ! 8 OR 0x80]
            in (Inr u, rand')))"

definition MustRandomUUID :: "bytes \<Rightarrow> UUID option \<times> bytes" where
  "MustRandomUUID rand =
     (case RandomUUID rand of (Inl _, r) \<Rightarrow> (None, r) | (Inr u, r) \<Rightarrow> (Some u, r))"

text \<open>The start of the Gregorian calendar, 15 October 1582, in Unix seconds.\<close>

definition timeBase :: int where
  "timeBase = -12219292800"

text \<open>The number of 100 ns ticks since \<open>timeBase\<close>, in \<open>uint64\<close> arithmetic.\<close>

definition uuid_ticks :: "go_time \<Rightarrow> uint64" where
  "uuid_ticks t = word_of_int (t_unix t - timeBase) * 10000000 + word_of_int (t_nsec t div 100)"

definition UUIDFromTime :: "uuid_env \<Rightarrow> go_time \<Rightarrow> UUID \<times> uuid_env" where
  "UUIDFromTime env aTime =
     (let t = uuid_ticks aTime;
          u = [to_byte (drop_bit 24 t), to_byte (drop_bit 16 t), to_byte (drop_bit 8 t), to_byte t,
               to_byte (drop_bit 40 t), to_byte (drop_bit 32 t),
               to_byte (drop_bit 56 t) AND 0x0F, to_byte (drop_bit 48 t)];
          clock = clockSeq env + 1;
          u = u @ [to_byte (drop_bit 8 clock), to_byte clock] @ replicate 6 0;
          u = go_copy 10 (hardwareAddr env) u;
          u = u[6 := u ! 6 OR 0x10];
          u = u[8 := u ! 8 AND 0x3F];
          u = u[8 := u ! 8 OR 0x80]
      in (u, env\<lparr>clockSeq := clock\<rparr>))"

text \<open>\<open>TimeUUID\<close> takes the current time, here its argument.\<close>

definition TimeUUID :: "uuid_env \<Rightarrow> go_time \<Rightarrow> UUID \<times> uuid_env" where
  "TimeUUID env now = UUIDFromTime env now"

definition uuid_offsets :: "nat list" where
  "uuid_offsets = [0, 2, 4, 6, 9, 11, 14, 16, 19, 21, 24, 26, 28, 30, 32, 34]"

definition hexString :: string where
  "hexString = ''0123456789abcdef''"

definition UUID_String :: "UUID \<Rightarrow> string" where
  "UUID_String u =
     (let r = replicate 36 (CHR 0x00);
          r = fold (\<lambda>(i, b) r.
                r[uuid_offsets ! i := hexString ! unat (drop_bit 4 b),
                  uuid_offsets ! i + 1 := hexString ! unat (b AND 0xF)])
                (enumerate 0 u) r
      in r[8 := CHR ''-'', 13 := CHR ''-'', 18 := CHR ''-'', 23 := CHR ''-''])"

definition UUID_Valid :: "UUID \<Rightarrow> bool" where
  "UUID_Valid u \<longleftrightarrow> u \<noteq> zero_uuid"

definition UUID_Bytes :: "UUID \<Rightarrow> bytes" where
  "UUID_Bytes u = u"

definition UUID_Variant :: "UUID \<Rightarrow> int" where
  "UUID_Variant u =
     (let x = u ! 8
      in if x AND 0x80 = 0 then VariantNCSCompat
         else if x AND 0x40 = 0 then VariantIETF
         else if x AND 0x20 = 0 then VariantMicrosoft
         else VariantFuture)"

definition UUID_Version :: "UUID \<Rightarrow> int" where
  "UUID_Version u = uint (drop_bit 4 (u ! 6 AND 0xF0))"

definition UUID_Node :: "UUID \<Rightarrow> bytes option" where
  "UUID_Node u = (if UUID_Version u \<noteq> 1 then None else Some (drop 10 u))"

definition UUID_Timestamp :: "UUID \<Rightarrow> int" where
  "UUID_Timestamp u =
     (if UUID_Version u \<noteq> 1 then 0
      else
        sint (((push_bit 24 (ucast (u ! 0)) OR push_bit 16 (ucast (u ! 1)) OR
                push_bit 8 (ucast (u ! 2)) OR ucast (u ! 3)) +
               (push_bit 40 (ucast (u ! 4)) OR push_bit 32 (ucast (u ! 5))) +
               (push_bit 56 (ucast (u ! 6 AND 0x0F)) OR push_bit 48 (ucast (u ! 7)))) :: uint64))"

text \<open>The zero \<open>time.Time\<close>, 1 January of year 1, in Unix seconds.\<close>

definition zero_time :: go_time where
  "zero_time = \<lparr>t_unix = -62135596800, t_nsec = 0\<rparr>"

text \<open>\<open>time.Unix(sec, nsec)\<close> carries whole seconds out of \<open>nsec\<close>.\<close>

definition time_Unix :: "int \<Rightarrow> int \<Rightarrow> go_time" where
  "time_Unix sec nsec = \<lparr>t_unix = sec + nsec div 1000000000, t_nsec = nsec mod 1000000000\<rparr>"

definition UUID_Time :: "UUID \<Rightarrow> go_time" where
  "UUID_Time u =
     (if UUID_Version u \<noteq> 1 then zero_time
      else (let t = UUID_Timestamp u;
                sec = t div 10000000;
                nsec = t mod 10000000
            in time_Unix (sec + timeBase) nsec))"

definition UUID_MarshalJSON :: "UUID \<Rightarrow> string" where
  "UUID_MarshalJSON u = [CHR 0x22] @ UUID_String u @ [CHR 0x22]"

text \<open>\<open>UnmarshalJSON\<close> writes through its receiver only when the text parses.\<close>

definition UUID_UnmarshalJSON :: "UUID \<Rightarrow> string \<Rightarrow> uuid_error option \<times> UUID" where
  "UUID_UnmarshalJSON u data =
     (let str = Trim data [CHR 0x22]
      in if length str > 36 then (Some (InvalidJSONUUID str), u)
         else case ParseUUID str of
                Inl e \<Rightarrow> (Some e, u)
              | Inr parsed \<Rightarrow> (None, go_copy 0 parsed u))"

section \<open>Well-formedness\<close>

lemma wf_zero_uuid [wf_intros, simp]: "wf_uuid zero_uuid"
  by (simp add: wf_uuid_def zero_uuid_def)

lemma length_put_nibble [simp]: "length (put_nibble u j d) = length u"
  by (simp add: put_nibble_def)

text \<open>The three digit branches of the loop, seen as one partial function on characters.\<close>

definition hex_value :: "char \<Rightarrow> nat option" where
  "hex_value r =
     (if 48 \<le> code r \<and> code r \<le> 57 then Some (code r - 48)
      else if 97 \<le> code r \<and> code r \<le> 102 then Some (code r - 87)
      else if 65 \<le> code r \<and> code r \<le> 70 then Some (code r - 55)
      else None)"

lemma ParseUUID_loop_Cons:
  "ParseUUID_loop (r # rs) j u =
     (if r = CHR ''-'' \<and> even j then ParseUUID_loop rs j u
      else case hex_value r of
             None \<Rightarrow> None
           | Some d \<Rightarrow> if j < 32 then ParseUUID_loop rs (Suc j) (put_nibble u j d) else None)"
  by (auto simp: hex_value_def)

declare ParseUUID_loop.simps(2) [simp del]

lemma ParseUUID_loop_length:
  "ParseUUID_loop s j u = Some (u', j') \<Longrightarrow> length u' = length u \<and> j \<le> j' \<and> (j \<le> 32 \<longrightarrow> j' \<le> 32)"
proof (induction s arbitrary: j u)
  case Nil
  then show ?case by simp
next
  case (Cons r rs)
  from Cons.prems show ?case
    by (auto simp: ParseUUID_loop_Cons split: if_splits option.splits dest!: Cons.IH)
qed

lemma ParseUUID_wf [wf_intros]: "ParseUUID s = Inr u \<Longrightarrow> wf_uuid u"
  by (auto simp: ParseUUID_def wf_uuid_def zero_uuid_def split: option.splits prod.splits if_splits
      dest: ParseUUID_loop_length)

lemma UUIDFromBytes_wf [wf_intros]: "UUIDFromBytes b = Inr u \<Longrightarrow> wf_uuid u \<and> UUID_Bytes u = b"
  by (auto simp: UUIDFromBytes_def UUID_Bytes_def wf_uuid_def zero_uuid_def go_copy_def split: if_splits)

lemma RandomUUID_wf [wf_intros]: "RandomUUID rand = (Inr u, r) \<Longrightarrow> wf_uuid u"
  by (auto simp: RandomUUID_def wf_uuid_def read_full_def Let_def split: if_splits)

lemma UUIDFromTime_wf [wf_intros]: "wf_uuid (fst (UUIDFromTime env t))"
  by (simp add: UUIDFromTime_def wf_uuid_def Let_def)

section \<open>Text form\<close>

definition hexpair :: "byte \<Rightarrow> string" where
  "hexpair b = [hexString ! unat (drop_bit 4 b), hexString ! unat (b AND 15)]"

definition hexpairs :: "bytes \<Rightarrow> string" where
  "hexpairs bs = concat (map hexpair bs)"

lemma hexpairs_simps [simp]:
  "hexpairs [] = []" "hexpairs (b # bs) = hexpair b @ hexpairs bs"
  by (simp_all add: hexpairs_def)

lemma hex_value_hexString:
  assumes "d < 16"
  shows "hex_value (hexString ! d) = Some d"
  using less_16_cases [OF assms] by (elim insertE) (simp_all add: hexString_def hex_value_def)

lemma hexString_not_special:
  assumes "d < 16"
  shows "hexString ! d \<noteq> CHR ''-'' \<and> hexString ! d \<noteq> CHR 0x22"
  using less_16_cases [OF assms] by (elim insertE) (simp_all add: hexString_def)

lemma parse_hex_digit:
  assumes "d < 16" and "j < 32"
  shows "ParseUUID_loop (hexString ! d # rs) j u = ParseUUID_loop rs (Suc j) (put_nibble u j d)"
  using assms by (simp add: ParseUUID_loop_Cons hex_value_hexString hexString_not_special)

lemma parse_hexpair:
  assumes "k < 16" and "length u = 16"
  shows "ParseUUID_loop (hexpair b @ rs) (2 * k) u =
    ParseUUID_loop rs (2 * k + 2) (u[k := u ! k OR b])"
proof -
  have "put_nibble (put_nibble u (2 * k) (unat (drop_bit 4 b))) (2 * k + 1) (unat (b AND 15))
    = u[k := u ! k OR (push_bit 4 (drop_bit 4 b) OR (b AND 15))]"
    using assms by (simp add: put_nibble_def or.assoc)
  then show ?thesis
    using assms by (simp add: hexpair_def parse_hex_digit nibbles_or)
qed

lemma parse_hexpairs:
  assumes "length ds + length bs \<le> 16"
  shows "ParseUUID_loop (hexpairs bs @ rs) (2 * length ds) (ds @ replicate (16 - length ds) 0) =
    ParseUUID_loop rs (2 * length (ds @ bs)) ((ds @ bs) @ replicate (16 - length (ds @ bs)) 0)"
  using assms
proof (induction bs arbitrary: ds)
  case Nil
  then show ?case by simp
next
  case (Cons b bs)
  then have k: "length ds < 16" by simp
  have upd: "(ds @ replicate (16 - length ds) 0)[length ds := b] = (ds @ [b]) @ replicate (16 - length (ds @ [b])) 0"
    using k by (simp add: list_update_append flip: Suc_diff_Suc)
  have "ParseUUID_loop (hexpair b @ hexpairs bs @ rs) (2 * length ds) (ds @ replicate (16 - length ds) 0)
    = ParseUUID_loop (hexpairs bs @ rs) (2 * length (ds @ [b])) ((ds @ [b]) @ replicate (16 - length (ds @ [b])) 0)"
    using k by (simp add: parse_hexpair nth_append upd [simplified])
  with Cons.IH [of "ds @ [b]"] Cons.prems show ?case by simp
qed

lemma parse_hyphen: "ParseUUID_loop (CHR ''-'' # rs) (2 * k) u = ParseUUID_loop rs (2 * k) u"
  by (simp add: ParseUUID_loop_Cons)

text \<open>The index arithmetic of \<open>String\<close> writes the five groups of the canonical form.\<close>

lemma UUID_String_groups:
  assumes "wf_uuid u"
  shows "UUID_String u =
    hexpairs (take 4 u) @ ''-'' @ hexpairs (take 2 (drop 4 u)) @ ''-'' @ hexpairs (take 2 (drop 6 u)) @
    ''-'' @ hexpairs (take 2 (drop 8 u)) @ ''-'' @ hexpairs (drop 10 u)"
proof -
  from assms obtain a0 a1 a2 a3 a4 a5 a6 a7 a8 a9 a10 a11 a12 a13 a14 a15
    where u: "u = [a0, a1, a2, a3, a4, a5, a6, a7, a8, a9, a10, a11, a12, a13, a14, a15]"
    unfolding wf_uuid_def length_eq_16_conv by blast
  show ?thesis
    by (simp add: u UUID_String_def uuid_offsets_def hexpair_def Let_def numeral_eq_Suc)
qed

lemma ParseUUID_loop_String:
  assumes "wf_uuid u"
  shows "ParseUUID_loop (UUID_String u) 0 zero_uuid = Some (u, 32)"
proof -
  note groups = parse_hexpairs [of "[]" "take 4 u"] parse_hexpairs [of "take 4 u" "take 2 (drop 4 u)"]
    parse_hexpairs [of "take 6 u" "take 2 (drop 6 u)"] parse_hexpairs [of "take 8 u" "take 2 (drop 8 u)"]
    parse_hexpairs [of "take 10 u" "drop 10 u" "[]"]
  have app: "take n u @ take 2 (drop n u) = take (n + 2) u" for n
    by (simp only: take_add)
  have hy: "ParseUUID_loop (CHR ''-'' # rs) j v = ParseUUID_loop rs j v" if "even j" for rs j v
    using that by (simp add: ParseUUID_loop_Cons)
  from assms show ?thesis
    using groups
    by (simp add: UUID_String_groups wf_uuid_def zero_uuid_def app hy)
qed

text \<open>Characters of the canonical form: never a quote, so JSON can carry it verbatim.\<close>

lemma hexpair_no_quote [simp]: "CHR 0x22 \<notin> set (hexpair b)"
  using hexString_not_special [of "unat (drop_bit 4 b)"] hexString_not_special [of "unat (b AND 15)"]
  by (simp add: hexpair_def) metis

lemma UUID_String_no_quote: "wf_uuid u \<Longrightarrow> CHR 0x22 \<notin> set (UUID_String u)"
  by (simp add: UUID_String_groups hexpairs_def)

lemma length_hexpairs [simp]: "length (hexpairs bs) = 2 * length bs"
  by (induction bs) (auto simp: hexpair_def)

lemma UUID_String_length: "wf_uuid u \<Longrightarrow> length (UUID_String u) = 36"
  by (simp add: UUID_String_groups wf_uuid_def)

section \<open>What the parser accepts\<close>

text \<open>
  The digits of the text are what is left without its hyphens; a hyphen may stand wherever
  an even number of digits precedes it.
\<close>

definition uuid_digits :: "string \<Rightarrow> string" where
  "uuid_digits s = filter (\<lambda>c. c \<noteq> CHR ''-'') s"

definition hyphens_even :: "nat \<Rightarrow> string \<Rightarrow> bool" where
  "hyphens_even j s \<longleftrightarrow> (\<forall>p q. s = p @ CHR ''-'' # q \<longrightarrow> even (j + length (uuid_digits p)))"

definition hex_text :: "string \<Rightarrow> bool" where
  "hex_text s \<longleftrightarrow> (\<forall>c \<in> set (uuid_digits s). hex_value c \<noteq> None)"

fun put_nibbles :: "UUID \<Rightarrow> nat \<Rightarrow> nat list \<Rightarrow> UUID" where
  "put_nibbles u j [] = u"
| "put_nibbles u j (d # ds) = put_nibbles (put_nibble u j d) (Suc j) ds"

lemma hyphens_even_Nil [simp]: "hyphens_even j []"
  by (simp add: hyphens_even_def)

lemma all_splits_Cons:
  "(\<forall>p q. c # s = p @ x # q \<longrightarrow> P p) \<longleftrightarrow> (c = x \<longrightarrow> P []) \<and> (\<forall>p q. s = p @ x # q \<longrightarrow> P (c # p))"
  by (auto simp: Cons_eq_append_conv)

lemma uuid_digits_simps [simp]:
  "uuid_digits [] = []"
  "uuid_digits (c # s) = (if c = CHR ''-'' then uuid_digits s else c # uuid_digits s)"
  by (simp_all add: uuid_digits_def)

lemma hex_text_simps [simp]:
  "hex_text []"
  "hex_text (c # s) \<longleftrightarrow> (c = CHR ''-'' \<or> hex_value c \<noteq> None) \<and> hex_text s"
  by (simp_all add: hex_text_def)

lemma hyphens_even_Cons:
  "hyphens_even j (c # s) \<longleftrightarrow>
     (if c = CHR ''-'' then even j \<and> hyphens_even j s else hyphens_even (Suc j) s)"
  unfolding hyphens_even_def all_splits_Cons by auto

lemma hex_value_hyphen [simp]: "hex_value CHR ''-'' = None"
  by (simp add: hex_value_def)

lemma ParseUUID_loop_spec:
  assumes "j \<le> 32"
  shows "ParseUUID_loop s j u =
    (if hex_text s \<and> hyphens_even j s \<and> j + length (uuid_digits s) \<le> 32
     then Some (put_nibbles u j (map (\<lambda>c. the (hex_value c)) (uuid_digits s)), j + length (uuid_digits s))
     else None)"
  using assms
proof (induction s arbitrary: j u)
  case Nil
  then show ?case by simp
next
  case (Cons c s)
  show ?case
  proof (cases "c = CHR ''-''")
    case True
    with Cons show ?thesis
      by (simp add: ParseUUID_loop_Cons hyphens_even_Cons)
  next
    case False
    with Cons show ?thesis
      by (cases "hex_value c")
        (auto simp: ParseUUID_loop_Cons hyphens_even_Cons)
  qed
qed

text \<open>Reading the digits in pairs, high nibble first.\<close>

fun pair_up :: "nat list \<Rightarrow> bytes" where
  "pair_up (h # l # ds) = (push_bit 4 (word_of_nat h) OR word_of_nat l) # pair_up ds"
| "pair_up _ = []"

lemma put_nibbles_pair_up:
  assumes "even (length ds)" and "2 * length bs + length ds \<le> 32"
  shows "put_nibbles (bs @ replicate (16 - length bs) 0) (2 * length bs) ds =
    bs @ pair_up ds @ replicate (16 - length bs - length ds div 2) 0"
  using assms
proof (induction ds arbitrary: bs rule: pair_up.induct)
  case (1 h l ds)
  let ?b = "push_bit 4 (word_of_nat h) OR word_of_nat l :: byte"
  from 1 have k: "length bs < 16" by simp
  have "put_nibble (put_nibble (bs @ replicate (16 - length bs) 0) (2 * length bs) h) (Suc (2 * length bs)) l
      = (bs @ [?b]) @ replicate (16 - length (bs @ [?b])) 0"
    using k by (simp add: put_nibble_def list_update_append nth_append flip: Suc_diff_Suc)
  with "1.IH" [of "bs @ [?b]"] "1.prems" show ?case
    by simp
qed simp_all

section \<open>Bit layout of generated identifiers\<close>

lemma mask_low4: "(0x0F :: byte) = mask 4"
  by (simp add: mask_eq_exp_minus_1)

lemma mask_low6: "(0x3F :: byte) = mask 6"
  by (simp add: mask_eq_exp_minus_1)

lemma UUIDFromTime_bytes:
  "fst (UUIDFromTime env a) ! 6 = (to_byte (drop_bit 56 (uuid_ticks a)) AND 0x0F) OR 0x10"
  "fst (UUIDFromTime env a) ! 7 = to_byte (drop_bit 48 (uuid_ticks a))"
  "fst (UUIDFromTime env a) ! 8 = (to_byte (drop_bit 8 (clockSeq env + 1)) AND 0x3F) OR 0x80"
  "fst (UUIDFromTime env a) ! 9 = to_byte (clockSeq env + 1)"
  by (simp_all add: UUIDFromTime_def Let_def go_copy_def)

lemma UUIDFromTime_low_bytes:
  "fst (UUIDFromTime env a) ! 0 = to_byte (drop_bit 24 (uuid_ticks a))"
  "fst (UUIDFromTime env a) ! 1 = to_byte (drop_bit 16 (uuid_ticks a))"
  "fst (UUIDFromTime env a) ! 2 = to_byte (drop_bit 8 (uuid_ticks a))"
  "fst (UUIDFromTime env a) ! 3 = to_byte (uuid_ticks a)"
  "fst (UUIDFromTime env a) ! 4 = to_byte (drop_bit 40 (uuid_ticks a))"
  "fst (UUIDFromTime env a) ! 5 = to_byte (drop_bit 32 (uuid_ticks a))"
  by (simp_all add: UUIDFromTime_def Let_def go_copy_def)

lemma version_bits: "drop_bit 4 (((x AND 0x0F) OR 0x10) AND 0xF0) = (1 :: byte)"
  by (rule bit_word_eqI) (auto simp: bit_simps numeral_eq_Suc less_Suc_eq)

lemma version_bits4: "drop_bit 4 (((x AND 0x0F) OR 0x40) AND 0xF0) = (4 :: byte)"
  by (rule bit_word_eqI) (auto simp: bit_simps numeral_eq_Suc less_Suc_eq)

lemma variant_bits:
  "((x AND 0x3F) OR 0x80) AND 0x80 \<noteq> (0 :: byte)"
  "((x AND 0x3F) OR 0x80) AND 0x40 = (0 :: byte)"
  by (simp_all add: and.assoc bit.conj_disj_distrib2)

lemma UUID_Version_RandomUUID:
  assumes "RandomUUID rand = (Inr u, r)"
  shows "UUID_Version u = 4 \<and> UUID_Variant u = VariantIETF"
proof -
  from assms have u: "u ! 6 = (rand ! 6 AND 0x0F) OR 0x40" "u ! 8 = (rand ! 8 AND 0x3F) OR 0x80"
    by (auto simp: RandomUUID_def Let_def read_full_def split: if_splits)
  show ?thesis
    unfolding UUID_Version_def UUID_Variant_def u Let_def version_bits4 using variant_bits by simp
qed

lemma UUID_Version_UUIDFromTime: "UUID_Version (fst (UUIDFromTime env t)) = 1"
  unfolding UUID_Version_def UUIDFromTime_bytes version_bits by simp

lemma UUID_Variant_UUIDFromTime: "UUID_Variant (fst (UUIDFromTime env t)) = VariantIETF"
  unfolding UUID_Variant_def UUIDFromTime_bytes Let_def using variant_bits by simp

text \<open>
  The three pieces of the time stamp occupy different bits, so the code's two additions
  are the disjunction of the pieces: the low sixty bits of the tick count.
\<close>

lemma ucast_to_byte: "ucast (to_byte (x :: uint64)) = take_bit 8 x"
  by (rule bit_word_eqI) (auto simp: bit_simps bit_to_byte)

lemma bit_slice:
  "bit (push_bit n (take_bit m (drop_bit n t))) i \<longleftrightarrow> n \<le> i \<and> i < n + m \<and> bit (t :: uint64) i"
  by (auto simp: bit_simps dest: bit_imp_le_length)

lemma slices_or:
  "push_bit (n + m) (take_bit k (drop_bit (n + m) t)) OR push_bit n (take_bit m (drop_bit n t))
     = push_bit n (take_bit (m + k) (drop_bit n (t :: uint64)))"
  by (rule bit_word_eqI) (auto simp: bit_or_iff bit_slice)

lemma and_or_low4: "((x AND 0x0F) OR 0x10) AND 0x0F = take_bit 4 (x :: byte)"
proof -
  have "((x AND 0x0F) OR 0x10) AND 0x0F = x AND 0x0F"
    by (simp add: bit.conj_disj_distrib2 and.assoc)
  then show ?thesis
    by (simp add: and_15_take_bit)
qed

lemma ticks_pieces:
  fixes t :: uint64
  shows "push_bit 24 (ucast (to_byte (drop_bit 24 t))) OR push_bit 16 (ucast (to_byte (drop_bit 16 t))) OR
          push_bit 8 (ucast (to_byte (drop_bit 8 t))) OR ucast (to_byte t) = take_bit 32 t" (is ?A)
    and "push_bit 40 (ucast (to_byte (drop_bit 40 t))) OR push_bit 32 (ucast (to_byte (drop_bit 32 t)))
       = push_bit 32 (take_bit 16 (drop_bit 32 t))" (is ?B)
    and "push_bit 56 (ucast (((to_byte (drop_bit 56 t) AND 0x0F) OR 0x10) AND 0x0F)) OR
         push_bit 48 (ucast (to_byte (drop_bit 48 t))) = push_bit 48 (take_bit 12 (drop_bit 48 t))" (is ?C)
proof -
  show ?B
    using slices_or [of 32 8 8 t] by (simp add: ucast_to_byte)
  have "(ucast (take_bit 4 (to_byte x)) :: uint64) = take_bit 4 x" for x :: uint64
    by (rule bit_word_eqI) (auto simp: bit_simps bit_to_byte)
  then show ?C
    using slices_or [of 48 8 4 t] by (simp only: and_or_low4 ucast_to_byte) simp
  have "push_bit 24 (take_bit 8 (drop_bit 24 t)) OR push_bit 16 (take_bit 8 (drop_bit 16 t))
      = push_bit 16 (take_bit 16 (drop_bit 16 t))"
    using slices_or [of 16 8 8 t] by simp
  moreover have "push_bit 16 (take_bit 16 (drop_bit 16 t)) OR push_bit 8 (take_bit 8 (drop_bit 8 t))
      = push_bit 8 (take_bit 24 (drop_bit 8 t))"
    using slices_or [of 8 8 16 t] by simp
  moreover have "push_bit 8 (take_bit 24 (drop_bit 8 t)) OR take_bit 8 t = take_bit 32 t"
    using slices_or [of 0 8 24 t] by simp
  ultimately show ?A
    by (simp only: ucast_to_byte flip: or.assoc)
qed

lemma disjoint_slices_add:
  fixes t :: uint64
  shows "take_bit n t + push_bit n (take_bit m (drop_bit n t)) = take_bit (n + m) t"
proof -
  have "take_bit n t AND push_bit n (take_bit m (drop_bit n t)) = 0"
    by (rule bit_word_eqI) (auto simp: bit_simps)
  then have "take_bit n t + push_bit n (take_bit m (drop_bit n t))
      = push_bit n (take_bit m (drop_bit n t)) OR take_bit n t"
    by (simp add: disjunctive_add_eq_or ac_simps)
  also have "\<dots> = take_bit (n + m) t"
    using slices_or [of 0 n m t] by simp
  finally show ?thesis .
qed

lemma sint_take_bit_60: "sint (take_bit 60 (t :: uint64)) = uint t mod 2 ^ 60"
proof -
  have "uint (take_bit 60 t) = uint t mod 2 ^ 60"
    by (simp add: take_bit_eq_mod uint_mod_distrib)
  moreover have "uint t mod 2 ^ 60 < 2 ^ 63"
    by (rule less_trans [of _ "2 ^ 60"]) simp_all
  ultimately show ?thesis
    by (simp add: sint_uint signed_take_bit_int_eq_self)
qed

lemma UUID_Timestamp_ticks: "UUID_Timestamp (fst (UUIDFromTime env t)) = uint (uuid_ticks t) mod 2 ^ 60"
proof -
  have "take_bit 32 w + push_bit 32 (take_bit 16 (drop_bit 32 w)) +
      push_bit 48 (take_bit 12 (drop_bit 48 w)) = take_bit 60 w" for w :: uint64
    using disjoint_slices_add [of 32 w 16] disjoint_slices_add [of 48 w 12] by simp
  then show ?thesis
    unfolding UUID_Timestamp_def UUID_Version_UUIDFromTime UUIDFromTime_bytes UUIDFromTime_low_bytes
      ticks_pieces
    by (simp add: sint_take_bit_60)
qed

text \<open>In the range of the sixty-bit counter the tick count has not wrapped.\<close>

definition uuid_time_range :: "go_time \<Rightarrow> bool" where
  "uuid_time_range t \<longleftrightarrow> wf_time t \<and> timeBase \<le> t_unix t \<and> t_unix t - timeBase < 115292150460"

lemma uint_uuid_ticks:
  assumes "uuid_time_range t"
  shows "uint (uuid_ticks t) = (t_unix t - timeBase) * 10000000 + t_nsec t div 100"
    and "(t_unix t - timeBase) * 10000000 + t_nsec t div 100 < 2 ^ 60"
proof -
  let ?n = "(t_unix t - timeBase) * 10000000 + t_nsec t div 100"
  from assms have nn: "0 \<le> ?n" and lt: "?n < 2 ^ 60"
    by (auto simp: uuid_time_range_def wf_time_def)
  have "uuid_ticks t = word_of_int ?n"
    by (simp add: uuid_ticks_def)
  then have "uint (uuid_ticks t) = ?n mod 2 ^ 64"
    by (simp only: uint_word_of_int) simp
  with nn lt show "uint (uuid_ticks t) = ?n" by simp
  from lt show "?n < 2 ^ 60" .
qed

lemma uuid_Timestamp_exact:
  assumes "uuid_time_range t"
  shows "UUID_Timestamp (fst (UUIDFromTime env t)) = (t_unix t - timeBase) * 10000000 + t_nsec t div 100"
  using uint_uuid_ticks [OF assms] assms
  by (auto simp: UUID_Timestamp_ticks uuid_time_range_def wf_time_def)

text \<open>The clock sequence occupies the low fourteen bits of bytes 8 and 9.\<close>

definition uuid_clock :: "UUID \<Rightarrow> uint32" where
  "uuid_clock u = push_bit 8 (ucast (u ! 8 AND 0x3F)) OR ucast (u ! 9)"

lemma uuid_clock_UUIDFromTime:
  "uuid_clock (fst (UUIDFromTime env t)) = take_bit 14 (clockSeq env + 1)"
proof -
  have low: "((x AND 0x3F) OR 0x80) AND 0x3F = take_bit 6 (x :: byte)" for x
  proof -
    have "((x AND 0x3F) OR 0x80) AND 0x3F = x AND 0x3F"
      by (simp add: bit.conj_disj_distrib2 and.assoc)
    then show ?thesis
      by (simp add: mask_low6 take_bit_eq_mask)
  qed
  have "push_bit 8 (ucast (take_bit 6 (to_byte (drop_bit 8 c)))) OR ucast (to_byte c) = take_bit 14 c"
    for c :: uint32
    by (rule bit_word_eqI) (auto simp: bit_simps bit_to_byte)
  then show ?thesis
    unfolding uuid_clock_def UUIDFromTime_bytes low .
qed

text \<open>Identifiers generated one after the other, at the given times.\<close>

fun gen_uuids :: "uuid_env \<Rightarrow> go_time list \<Rightarrow> UUID list" where
  "gen_uuids env [] = []"
| "gen_uuids env (t # ts) = (let (u, env') = UUIDFromTime env t in u # gen_uuids env' ts)"

lemma length_gen_uuids [simp]: "length (gen_uuids env ts) = length ts"
  by (induction ts arbitrary: env) (auto simp: Let_def split: prod.splits)

lemma clockSeq_UUIDFromTime [simp]: "clockSeq (snd (UUIDFromTime env t)) = clockSeq env + 1"
  by (simp add: UUIDFromTime_def Let_def)

lemma uuid_clock_gen_uuids:
  "i < length ts \<Longrightarrow> uuid_clock (gen_uuids env ts ! i) = take_bit 14 (clockSeq env + 1 + word_of_nat i)"
proof (induction ts arbitrary: env i)
  case Nil
  then show ?case by simp
next
  case (Cons t ts)
  then show ?case
    by (cases i) (auto simp: uuid_clock_UUIDFromTime case_prod_beta algebra_simps)
qed

lemma take_bit_14_inj:
  assumes "take_bit 14 (c + word_of_nat i) = take_bit 14 (c + word_of_nat j :: uint32)"
    and "i < 2 ^ 14" and "j < 2 ^ 14"
  shows "i = j"
proof -
  have "uint (c + word_of_nat i) mod 2 ^ 14 = uint (c + word_of_nat j) mod 2 ^ 14"
    using arg_cong [OF assms(1), of uint] by (simp add: take_bit_eq_mod uint_mod_distrib)
  moreover have "uint (c + word_of_nat k) mod 2 ^ 14 = (uint c + int k) mod 2 ^ 14" for k
    by (simp add: uint_word_ariths unsigned_of_nat take_bit_eq_mod zmod_int mod_mod_cancel mod_simps)
  ultimately have "(uint c + int i) mod 2 ^ 14 = (uint c + int j) mod 2 ^ 14" by simp
  then have "int i mod 2 ^ 14 = int j mod 2 ^ 14"
    by (metis add_diff_cancel_left' mod_diff_left_eq)
  with assms(2,3) show ?thesis by simp
qed

section \<open>Properties\<close>

text \<open>
  Parsing the canonical text of a UUID gives the UUID back, so identifiers survive the
  JSON log and the request bodies.
\<close>

theorem ParseUUID_String:
  assumes "wf_uuid u"
  shows "ParseUUID (UUID_String u) = Inr u"
  using ParseUUID_loop_String [OF assms] by (simp add: ParseUUID_def)

theorem ParseUUID_String_witness:
  "ParseUUID (UUID_String [0,1,2,3,4,5,6,0x17,0x88,9,10,11,12,13,0xFE,0xFF]) =
     Inr [0,1,2,3,4,5,6,0x17,0x88,9,10,11,12,13,0xFE,0xFF]"
  by (rule ParseUUID_String) (simp add: wf_uuid_def)

text \<open>
  The parser accepts exactly the texts with thirty-two hexadecimal digits whose hyphens
  each follow an even number of digits, and the bytes it returns are the digits in pairs.
\<close>

theorem ParseUUID_accepts:
  "ParseUUID s = Inr u \<longleftrightarrow>
     hex_text s \<and> hyphens_even 0 s \<and> length (uuid_digits s) = 32 \<and>
     u = pair_up (map (\<lambda>c. the (hex_value c)) (uuid_digits s))"
proof -
  have "put_nibbles zero_uuid 0 ds = pair_up ds" if "length ds = 32" for ds
    using put_nibbles_pair_up [of ds "[]"] that by (simp add: zero_uuid_def)
  then show ?thesis
    by (auto simp: ParseUUID_def ParseUUID_loop_spec)
qed

lemma UUID_UnmarshalJSON_String:
  assumes "wf_uuid u" and "wf_uuid u0"
  shows "UUID_UnmarshalJSON u0 ([CHR 0x22] @ UUID_String u @ [CHR 0x22]) = (None, u)"
proof -
  let ?s = "UUID_String u"
  have "?s \<noteq> []"
    using UUID_String_length [OF assms(1)] by auto
  then have "Trim (CHR 0x22 # ?s @ [CHR 0x22]) [CHR 0x22] = ?s"
    using UUID_String_no_quote [OF assms(1)] hd_in_set last_in_set by (intro Trim_quoted) fastforce+
  then show ?thesis
    using assms ParseUUID_loop_String [OF assms(1)]
    by (simp add: UUID_UnmarshalJSON_def UUID_String_length ParseUUID_def go_copy_def wf_uuid_def)
qed

text \<open>
  The JSON form of a UUID decodes to the same UUID whatever the receiver held, and a text
  that does not decode leaves the receiver as it was.
\<close>

theorem UUID_JSON_roundtrip:
  assumes "wf_uuid u" and "wf_uuid u0"
  shows "UUID_UnmarshalJSON u0 (UUID_MarshalJSON u) = (None, u) \<and>
    (fst (UUID_UnmarshalJSON u0 data) \<noteq> None \<longrightarrow> snd (UUID_UnmarshalJSON u0 data) = u0)"
proof (rule conjI)
  show "UUID_UnmarshalJSON u0 (UUID_MarshalJSON u) = (None, u)"
    using UUID_UnmarshalJSON_String [OF assms] by (simp add: UUID_MarshalJSON_def)
  show "fst (UUID_UnmarshalJSON u0 data) \<noteq> None \<longrightarrow> snd (UUID_UnmarshalJSON u0 data) = u0"
    by (auto simp: UUID_UnmarshalJSON_def Let_def split: if_splits sum.splits)
qed

theorem UUID_JSON_roundtrip_witness:
  "UUID_UnmarshalJSON zero_uuid (UUID_MarshalJSON [15,14,13,12,11,10,9,8,7,6,5,4,3,2,1,0]) =
     (None, [15,14,13,12,11,10,9,8,7,6,5,4,3,2,1,0])"
  by (rule UUID_JSON_roundtrip [THEN conjunct1]) (simp_all add: wf_uuid_def zero_uuid_def)

text \<open>
  A generated identifier carries its version and the IETF variant: version 1 from a time,
  version 4 from the random source.
\<close>

theorem generated_uuid_layout:
  "UUID_Version (fst (UUIDFromTime env t)) = 1 \<and>
   UUID_Variant (fst (UUIDFromTime env t)) = VariantIETF \<and>
   (RandomUUID rand = (Inr u, rand') \<longrightarrow> UUID_Version u = 4 \<and> UUID_Variant u = VariantIETF)"
  using UUID_Version_UUIDFromTime UUID_Variant_UUIDFromTime UUID_Version_RandomUUID by blast

theorem generated_uuid_layout_witness:
  "UUID_Version (the (fst (MustRandomUUID (replicate 16 0xFF)))) = 4"
proof -
  let ?u = "[0xFF,0xFF,0xFF,0xFF,0xFF,0xFF,0x4F,0xFF,0xBF,0xFF,0xFF,0xFF,0xFF,0xFF,0xFF,0xFF] :: UUID"
  have r: "RandomUUID (replicate 16 0xFF) = (Inr ?u, [])"
    by (simp add: RandomUUID_def read_full_def numeral_eq_Suc)
  from generated_uuid_layout r show ?thesis
    by (simp add: MustRandomUUID_def)
qed

text \<open>
  The time stamp read from a version 1 identifier is the number of 100 ns ticks since
  October 1582 of the time it was made from, for every time the sixty bits can count; and
  \<open>Time\<close> returns the right second but hands the tick count to \<open>time.Unix\<close> as nanoseconds, so
  the fraction of the second comes back a hundred times too small.
\<close>

theorem UUID_time_of_UUIDFromTime:
  assumes "uuid_time_range t"
  shows "UUID_Timestamp (fst (UUIDFromTime env t)) = (t_unix t - timeBase) * 10000000 + t_nsec t div 100 \<and>
    UUID_Time (fst (UUIDFromTime env t)) = \<lparr>t_unix = t_unix t, t_nsec = t_nsec t div 100\<rparr>"
proof (rule conjI)
  show ts: "UUID_Timestamp (fst (UUIDFromTime env t)) = (t_unix t - timeBase) * 10000000 + t_nsec t div 100"
    by (rule uuid_Timestamp_exact [OF assms])
  from assms have r: "0 \<le> t_nsec t div 100" "t_nsec t div 100 < 10000000"
    by (auto simp: uuid_time_range_def wf_time_def)
  have "(a * 10000000 + r) div 10000000 = a" "(a * 10000000 + r) mod 10000000 = r"
    if "0 \<le> r" "r < 10000000" for a r :: int
    using that by auto
  note quot = this [OF r, of "t_unix t - timeBase"]
  show "UUID_Time (fst (UUIDFromTime env t)) = \<lparr>t_unix = t_unix t, t_nsec = t_nsec t div 100\<rparr>"
    unfolding UUID_Time_def UUID_Version_UUIDFromTime ts Let_def quot time_Unix_def using r by simp
qed

theorem UUID_time_of_UUIDFromTime_witness:
  "t_nsec (UUID_Time (fst (UUIDFromTime \<lparr>hardwareAddr = [1,2,3,4,5,6], clockSeq = 7\<rparr>
     \<lparr>t_unix = 1456789012, t_nsec = 500000000\<rparr>))) = 5000000"
proof -
  have "uuid_time_range \<lparr>t_unix = 1456789012, t_nsec = 500000000\<rparr>"
    by (simp add: uuid_time_range_def wf_time_def timeBase_def)
  from UUID_time_of_UUIDFromTime [OF this] show ?thesis by simp
qed

text \<open>
  Identifiers made one after the other are pairwise different for up to 2 ^ 14 of them,
  even when all the times are equal.
\<close>

theorem gen_uuids_distinct:
  assumes "length ts \<le> 2 ^ 14"
  shows "distinct (gen_uuids env ts)"
proof (rule distinct_conv_nth [THEN iffD2], intro allI impI notI)
  fix i j
  assume i: "i < length (gen_uuids env ts)" and j: "j < length (gen_uuids env ts)"
    and "i \<noteq> j" and eq: "gen_uuids env ts ! i = gen_uuids env ts ! j"
  from eq i j have "take_bit 14 (clockSeq env + 1 + word_of_nat i) = take_bit 14 (clockSeq env + 1 + word_of_nat j)"
    by (metis length_gen_uuids uuid_clock_gen_uuids)
  then have "i = j"
    using i j assms by (intro take_bit_14_inj) auto
  with \<open>i \<noteq> j\<close> show False by simp
qed

theorem gen_uuids_distinct_witness:
  "distinct (gen_uuids \<lparr>hardwareAddr = [], clockSeq = 0xFFFFFFFF\<rparr> (replicate 3 zero_time))"
  by (rule gen_uuids_distinct) simp

end
