(* ===== verification/Schema.thy ===== *)
theory Schema
  imports Go_Json_Roundtrip Uuid
begin

text \<open>
  \<open>arla/schema/schema.go\<close>: the records that travel between the HTTP handlers, the query store
  and the mutation log, with the JSON forms that Go's \<open>encoding/json\<close> derives from their field
  tags. \<open>Args\<close> and \<open>Token\<close> hold whatever an \<open>interface{}\<close> holds; a nil map or slice is the
  empty one, which \<open>omitempty\<close> leaves out as well.
\<close>

section \<open>Records\<close>

type_synonym Token = "(string \<times> json) list"

record Mutation =
  m_ID :: UUID
  m_Version :: int
  m_Token :: Token
  m_Name :: string
  m_Args :: "json list"
  m_Status :: string

record Query =
  q_Token :: Token
  q_Query :: string
  q_Args :: "json list"

record Info =
  i_Version :: int
  i_Mutations :: "string list option"

definition zero_mutation :: Mutation where
  "zero_mutation = \<lparr>m_ID = zero_uuid, m_Version = 0, m_Token = [], m_Name = [], m_Args = [], m_Status = []\<rparr>"

definition zero_query :: Query where
  "zero_query = \<lparr>q_Token = [], q_Query = [], q_Args = []\<rparr>"

definition zero_info :: Info where
  "zero_info = \<lparr>i_Version = 0, i_Mutations = None\<rparr>"

section \<open>Decoding into Go values\<close>

text \<open>
  A field that does not fit is skipped and the first such error is reported at the end
  (\<open>DSaved\<close>); an error of an \<open>UnmarshalJSON\<close> method ends the decoding at once (\<open>DAbort\<close>).
  Either way the fields decoded so far stay set.
\<close>

datatype dstatus = DOk | DSaved | DAbort

fun dstatus_join :: "dstatus \<Rightarrow> dstatus \<Rightarrow> dstatus" where
  "dstatus_join DOk st = st"
| "dstatus_join DSaved st = (if st = DAbort then DAbort else DSaved)"
| "dstatus_join DAbort st = DAbort"

text \<open>
  The value put into an \<open>interface{}\<close>. A number outside the range of \<open>float64\<close> becomes nil and
  is reported: \<open>nums_ok\<close> says that there is none.
\<close>

fun json_val :: "strconv \<Rightarrow> jtree \<Rightarrow> json" where
  "json_val sc TNull = JNull"
| "json_val sc (TBool b) = JBool b"
| "json_val sc (TNum l) = (case ParseFloat sc l of Some x \<Rightarrow> JNum x | None \<Rightarrow> JNull)"
| "json_val sc (TStr r) = JStr (unquote r)"
| "json_val sc (TArr ts) = JArr (map (json_val sc) ts)"
| "json_val sc (TObj ms) =
     JObj (foldl (\<lambda>m (k, v). map_put k v m) [] (map (\<lambda>(k, t). (unquote k, json_val sc t)) ms))"

fun nums_ok :: "strconv \<Rightarrow> jtree \<Rightarrow> bool" where
  "nums_ok sc (TNum l) = (ParseFloat sc l \<noteq> None)"
| "nums_ok sc (TArr ts) = list_all (nums_ok sc) ts"
| "nums_ok sc (TObj ms) = list_all (\<lambda>(k, t). nums_ok sc t) ms"
| "nums_ok sc _ = True"

definition saved :: "bool \<Rightarrow> dstatus" where
  "saved ok = (if ok then DOk else DSaved)"

text \<open>Fields of the Go types \<open>string\<close>, \<open>int\<close>, \<open>map[string]interface{}\<close>, \<open>[]interface{}\<close>.\<close>

fun decode_string :: "jtree \<Rightarrow> string \<Rightarrow> string \<times> dstatus" where
  "decode_string (TStr r) s = (unquote r, DOk)"
| "decode_string TNull s = (s, DOk)"
| "decode_string _ s = (s, DSaved)"

fun decode_int :: "jtree \<Rightarrow> int \<Rightarrow> int \<times> dstatus" where
  "decode_int (TNum l) i = (case Atoi l of Some j \<Rightarrow> (j, DOk) | None \<Rightarrow> (i, DSaved))"
| "decode_int TNull i = (i, DOk)"
| "decode_int _ i = (i, DSaved)"

fun decode_map :: "strconv \<Rightarrow> jtree \<Rightarrow> Token \<Rightarrow> Token \<times> dstatus" where
  "decode_map sc (TObj ms) m =
     (foldl (\<lambda>m (k, t). map_put (unquote k) (json_val sc t) m) m ms, saved (nums_ok sc (TObj ms)))"
| "decode_map sc TNull m = ([], DOk)"
| "decode_map sc _ m = (m, DSaved)"

fun decode_slice :: "strconv \<Rightarrow> jtree \<Rightarrow> json list \<Rightarrow> json list \<times> dstatus" where
  "decode_slice sc (TArr ts) vs = (map (json_val sc) ts, saved (nums_ok sc (TArr ts)))"
| "decode_slice sc TNull vs = ([], DOk)"
| "decode_slice sc _ vs = (vs, DSaved)"

text \<open>A \<open>UUID\<close> field hands the bytes of the value to \<open>UnmarshalJSON\<close>, \<open>null\<close> included.\<close>

definition decode_uuid :: "jtree \<Rightarrow> UUID \<Rightarrow> UUID \<times> dstatus" where
  "decode_uuid t u =
     (case UUID_UnmarshalJSON u (print_tree t) of
        (None, u') \<Rightarrow> (u', DOk)
      | (Some e, u') \<Rightarrow> (u', DAbort))"

text \<open>\<open>[]string\<close>: an element that is no string stays empty.\<close>

definition decode_strings :: "jtree \<Rightarrow> string list option \<Rightarrow> string list option \<times> dstatus" where
  "decode_strings t vs =
     (case t of
        TArr ts \<Rightarrow> (Some (map (\<lambda>t. fst (decode_string t [])) ts),
                    saved (list_all (\<lambda>t. snd (decode_string t []) = DOk) ts))
      | TNull \<Rightarrow> (None, DOk)
      | _ \<Rightarrow> (vs, DSaved))"

section \<open>Struct fields\<close>

text \<open>
  A key selects the field whose name it spells, exactly or up to case; the folding also takes
  the long s (U+017F) and the Kelvin sign (U+212A) for the letters s and k.
\<close>

function fold_key :: "string \<Rightarrow> string" where
  "fold_key [] = []"
| "fold_key (c # s) =
     (if HasPrefix (c # s) [CHR 0xC5, CHR 0xBF] then CHR ''s'' # fold_key (drop 1 s)
      else if HasPrefix (c # s) [CHR 0xE2, CHR 0x84, CHR 0xAA] then CHR ''k'' # fold_key (drop 2 s)
      else lower_char c # fold_key s)"
  by pat_completeness auto

termination
  by (relation "measure length") auto

type_synonym 'r field = "string \<times> (jtree \<Rightarrow> 'r \<Rightarrow> 'r \<times> dstatus)"

definition find_field :: "'r field list \<Rightarrow> string \<Rightarrow> (jtree \<Rightarrow> 'r \<Rightarrow> 'r \<times> dstatus) option" where
  "find_field fs k =
     (case map_of fs k of
        Some d \<Rightarrow> Some d
      | None \<Rightarrow> map_of fs (fold_key k))"

fun decode_members :: "'r field list \<Rightarrow> (string \<times> jtree) list \<Rightarrow> 'r \<Rightarrow> 'r \<times> dstatus" where
  "decode_members fs [] r = (r, DOk)"
| "decode_members fs ((k, t) # ms) r =
     (case find_field fs (unquote k) of
        None \<Rightarrow> decode_members fs ms r
      | Some d \<Rightarrow>
          (case d t r of
             (r', st) \<Rightarrow>
               if st = DAbort then (r', DAbort)
               else case decode_members fs ms r' of (r'', st') \<Rightarrow> (r'', dstatus_join st st')))"

definition decode_struct :: "'r field list \<Rightarrow> jtree \<Rightarrow> 'r \<Rightarrow> 'r \<times> dstatus" where
  "decode_struct fs t r =
     (case t of
        TObj ms \<Rightarrow> decode_members fs ms r
      | TNull \<Rightarrow> (r, DOk)
      | _ \<Rightarrow> (r, DSaved))"

section \<open>The JSON form of the records\<close>

definition mutation_fields :: "strconv \<Rightarrow> Mutation field list" where
  "mutation_fields sc =
     [(''id'', \<lambda>t m. case decode_uuid t (m_ID m) of (v, st) \<Rightarrow> (m\<lparr>m_ID := v\<rparr>, st)),
      (''version'', \<lambda>t m. case decode_int t (m_Version m) of (v, st) \<Rightarrow> (m\<lparr>m_Version := v\<rparr>, st)),
      (''token'', \<lambda>t m. case decode_map sc t (m_Token m) of (v, st) \<Rightarrow> (m\<lparr>m_Token := v\<rparr>, st)),
      (''name'', \<lambda>t m. case decode_string t (m_Name m) of (v, st) \<Rightarrow> (m\<lparr>m_Name := v\<rparr>, st)),
      (''args'', \<lambda>t m. case decode_slice sc t (m_Args m) of (v, st) \<Rightarrow> (m\<lparr>m_Args := v\<rparr>, st)),
      (''status'', \<lambda>t m. case decode_string t (m_Status m) of (v, st) \<Rightarrow> (m\<lparr>m_Status := v\<rparr>, st))]"

definition decode_mutation :: "strconv \<Rightarrow> jtree \<Rightarrow> Mutation \<Rightarrow> Mutation \<times> dstatus" where
  "decode_mutation sc = decode_struct (mutation_fields sc)"

definition query_fields :: "strconv \<Rightarrow> Query field list" where
  "query_fields sc =
     [(''token'', \<lambda>t q. case decode_map sc t (q_Token q) of (v, st) \<Rightarrow> (q\<lparr>q_Token := v\<rparr>, st)),
      (''query'', \<lambda>t q. case decode_string t (q_Query q) of (v, st) \<Rightarrow> (q\<lparr>q_Query := v\<rparr>, st)),
      (''args'', \<lambda>t q. case decode_slice sc t (q_Args q) of (v, st) \<Rightarrow> (q\<lparr>q_Args := v\<rparr>, st))]"

definition decode_query :: "strconv \<Rightarrow> jtree \<Rightarrow> Query \<Rightarrow> Query \<times> dstatus" where
  "decode_query sc = decode_struct (query_fields sc)"

definition info_fields :: "Info field list" where
  "info_fields =
     [(''version'', \<lambda>t i. case decode_int t (i_Version i) of (v, st) \<Rightarrow> (i\<lparr>i_Version := v\<rparr>, st)),
      (''mutations'', \<lambda>t i. case decode_strings t (i_Mutations i) of (v, st) \<Rightarrow> (i\<lparr>i_Mutations := v\<rparr>, st))]"

definition decode_info :: "jtree \<Rightarrow> Info \<Rightarrow> Info \<times> dstatus" where
  "decode_info = decode_struct info_fields"

text \<open>
  Encoding: the fields in their order, those marked \<open>omitempty\<close> only when they are not empty.
  An array is empty for this purpose when its length is 0, so the \<open>id\<close> is always written.
\<close>

definition opt_field :: "bool \<Rightarrow> string \<Rightarrow> jtree \<Rightarrow> (string \<times> jtree) list" where
  "opt_field present k t = (if present then [(k, t)] else [])"

definition mutation_members :: "Mutation \<Rightarrow> jtree \<Rightarrow> jtree \<Rightarrow> (string \<times> jtree) list" where
  "mutation_members m tok args =
     [(''id'', TStr (UUID_String (m_ID m)))] @
     opt_field (m_Version m \<noteq> 0) ''version'' (TNum (format_int (m_Version m))) @
     opt_field (m_Token m \<noteq> []) ''token'' tok @
     opt_field (m_Name m \<noteq> []) ''name'' (TStr (escape (m_Name m))) @
     opt_field (m_Args m \<noteq> []) ''args'' args @
     opt_field (m_Status m \<noteq> []) ''status'' (TStr (escape (m_Status m)))"

definition mutation_tree :: "strconv \<Rightarrow> Mutation \<Rightarrow> jtree option" where
  "mutation_tree sc m =
     (case (tree_of sc (JObj (m_Token m)), tree_of sc (JArr (m_Args m))) of
        (Some tok, Some args) \<Rightarrow>
          Some (TObj (mutation_members m tok args))
      | _ \<Rightarrow> None)"

definition query_tree :: "strconv \<Rightarrow> Query \<Rightarrow> jtree option" where
  "query_tree sc q =
     (case (tree_of sc (JObj (q_Token q)), tree_of sc (JArr (q_Args q))) of
        (Some tok, Some args) \<Rightarrow>
          Some (TObj
            (opt_field (q_Token q \<noteq> []) ''token'' tok @
             opt_field (q_Query q \<noteq> []) ''query'' (TStr (escape (q_Query q))) @
             opt_field (q_Args q \<noteq> []) ''args'' args))
      | _ \<Rightarrow> None)"

definition info_tree :: "Info \<Rightarrow> jtree" where
  "info_tree i =
     TObj [(''version'', TNum (format_int (i_Version i))),
           (''mutations'', case i_Mutations i of
              None \<Rightarrow> TNull
            | Some ns \<Rightarrow> TArr (map (\<lambda>n. TStr (escape n)) ns))]"

text \<open>\<open>json.Marshal\<close> of a record, and \<open>Encoder.Encode\<close>, which ends the value with a line break.\<close>

definition marshal_tree :: "jtree option \<Rightarrow> (json_error, string) result" where
  "marshal_tree t = (case t of None \<Rightarrow> Inl UnsupportedValue | Some t \<Rightarrow> Inr (print_tree t))"

definition encode_line :: "jtree option \<Rightarrow> (json_error, string) result" where
  "encode_line t = (case t of None \<Rightarrow> Inl UnsupportedValue | Some t \<Rightarrow> Inr (print_tree t @ [CHR 0x0A]))"

text \<open>\<open>json.Unmarshal\<close> and \<open>Decoder.Decode\<close> into a record: \<open>None\<close> is the nil error.\<close>

definition unmarshal_with :: "(jtree \<Rightarrow> 'r \<Rightarrow> 'r \<times> dstatus) \<Rightarrow> string \<Rightarrow> 'r \<Rightarrow> 'r \<times> json_error option" where
  "unmarshal_with d s r =
     (case parse_text s of
        None \<Rightarrow> (r, Some SyntaxError)
      | Some t \<Rightarrow> (case d t r of (r', st) \<Rightarrow> (r', if st = DOk then None else Some UnmarshalTypeError)))"

definition decode_with :: "(jtree \<Rightarrow> 'r \<Rightarrow> 'r \<times> dstatus) \<Rightarrow> string \<Rightarrow> 'r \<Rightarrow> 'r \<times> json_error option \<times> string" where
  "decode_with d s r =
     (case decode_next s of
        Inl e \<Rightarrow> (r, Some e, s)
      | Inr (t, rest) \<Rightarrow>
          (case d t r of (r', st) \<Rightarrow> (r', if st = DOk then None else Some UnmarshalTypeError, rest)))"

section \<open>Decoding what was encoded\<close>

lemma dstatus_join_DOk: "dstatus_join st st' = DOk \<Longrightarrow> st = DOk \<and> st' = DOk"
  by (cases st; cases st') auto

lemma json_of_json_val: "json_of sc t = (if nums_ok sc t then Some (json_val sc t) else None)"
proof (induction t)
  case (TArr ts)
  then show ?case
    by (induction ts) (auto split: if_splits)
next
  case (TObj ms)
  have "those (map (\<lambda>(k, t). json_of sc t) ms) =
      (if nums_ok sc (TObj ms) then Some (map (\<lambda>(k, t). json_val sc t) ms) else None)"
    using TObj.IH by (induction ms) (fastforce split: if_splits option.splits)+
  moreover have "zip (map (\<lambda>(k, t). unquote k) ms) (map (\<lambda>(k, t). json_val sc t) ms) =
      map (\<lambda>(k, t). (unquote k, json_val sc t)) ms"
    by (induction ms) auto
  ultimately show ?case by simp
qed (auto split: option.splits)

lemma json_of_SomeD: "json_of sc t = Some v \<Longrightarrow> nums_ok sc t \<and> json_val sc t = v"
  by (simp add: json_of_json_val split: if_splits)

lemma decode_int_format_int [simp]:
  "- (2 ^ 63) \<le> i \<Longrightarrow> i < 2 ^ 63 \<Longrightarrow> decode_int (TNum (format_int i)) j = (i, DOk)"
  by (simp add: Atoi_format_int)

lemma decode_uuid_String [simp]:
  "wf_uuid u \<Longrightarrow> wf_uuid v \<Longrightarrow> decode_uuid (TStr (UUID_String u)) v = (u, DOk)"
  using UUID_UnmarshalJSON_String by (simp add: decode_uuid_def)

lemma decode_string_escape [simp]: "valid_utf8 s \<Longrightarrow> decode_string (TStr (escape s)) s0 = (s, DOk)"
  by (simp add: unquote_escape)

lemma decode_slice_tree:
  assumes "strconv_ok sc" and "wf_json (JArr vs)" and "tree_of sc (JArr vs) = Some t"
  shows "decode_slice sc t vs0 = (map (decoded sc) vs, DOk)"
proof -
  have "nums_ok sc t \<and> json_val sc t = JArr (map (decoded sc) vs)"
    using wf_json_reads_back [OF assms(1,2)] assms(3) by (intro json_of_SomeD) (simp add: reads_back_def)
  moreover from assms(3) obtain ts where "t = TArr ts" by auto
  ultimately show ?thesis
    by (simp add: saved_def)
qed

lemma decode_map_tree:
  assumes "strconv_ok sc" and "wf_json (JObj m)" and "tree_of sc (JObj m) = Some t"
  shows "decode_map sc t [] = (map (\<lambda>(k, v). (k, decoded sc v)) m, DOk)"
proof -
  have "nums_ok sc t \<and> json_val sc t = JObj (map (\<lambda>(k, v). (k, decoded sc v)) m)"
    using wf_json_reads_back [OF assms(1,2)] assms(3) by (intro json_of_SomeD) (simp add: reads_back_def)
  moreover from assms(3) obtain ms where "t = TObj ms" by auto
  moreover have "foldl (\<lambda>m (k, t). map_put (unquote k) (json_val sc t) m) m0 ms =
      foldl (\<lambda>m (k, v). map_put k v m) m0 (map (\<lambda>(k, t). (unquote k, json_val sc t)) ms)" for m0 ms
    by (induction ms arbitrary: m0) auto
  ultimately show ?thesis
    by (simp add: saved_def)
qed

lemma decode_members_append:
  "decode_members fs ms r = (r', DOk) \<Longrightarrow> decode_members fs (ms @ ms') r = decode_members fs ms' r'"
proof (induction ms arbitrary: r)
  case (Cons p ms)
  obtain k t where p: "p = (k, t)" by (cases p)
  from Cons show ?case
    by (cases "find_field fs (unquote k)")
      (auto simp: p split: prod.splits if_splits dest!: dstatus_join_DOk)
qed simp

lemma decode_members_opt:
  assumes "find_field fs (unquote k) = Some d"
    and "p \<Longrightarrow> d t r = (r', DOk)" and "\<not> p \<Longrightarrow> r' = r"
  shows "decode_members fs (opt_field p k t) r = (r', DOk)"
  using assms by (auto simp: opt_field_def split: prod.splits)

text \<open>The keys of the records hold no escape.\<close>

lemma unquote_lower: "list_all (\<lambda>c. 97 \<le> code c \<and> code c \<le> 122) k \<Longrightarrow> unquote k = k"
  by (induction k) (auto intro!: unquote_ascii [THEN trans])

definition wf_mutation :: "Mutation \<Rightarrow> bool" where
  "wf_mutation m \<longleftrightarrow>
     wf_uuid (m_ID m) \<and> - (2 ^ 63) \<le> m_Version m \<and> m_Version m < 2 ^ 63 \<and>
     wf_json (JObj (m_Token m)) \<and> valid_utf8 (m_Name m) \<and> wf_json (JArr (m_Args m)) \<and>
     valid_utf8 (m_Status m)"

definition decoded_mutation :: "strconv \<Rightarrow> Mutation \<Rightarrow> Mutation" where
  "decoded_mutation sc m =
     m\<lparr>m_Token := map (\<lambda>(k, v). (k, decoded sc v)) (m_Token m), m_Args := map (decoded sc) (m_Args m)\<rparr>"

lemma mutation_tree_SomeE:
  assumes "mutation_tree sc m = Some t"
  obtains tok args where "tree_of sc (JObj (m_Token m)) = Some tok"
    and "tree_of sc (JArr (m_Args m)) = Some args" and "t = TObj (mutation_members m tok args)"
  using assms unfolding mutation_tree_def by (auto split: option.splits simp del: tree_of.simps)

lemma decode_mutation_tree:
  assumes sc: "strconv_ok sc" and wf: "wf_mutation m" and t: "mutation_tree sc m = Some t"
  shows "decode_mutation sc t zero_mutation = (decoded_mutation sc m, DOk)"
proof -
  obtain tok args
    where tok: "tree_of sc (JObj (m_Token m)) = Some tok" and args: "tree_of sc (JArr (m_Args m)) = Some args"
      and t': "t = TObj (mutation_members m tok args)"
    using mutation_tree_SomeE [OF t] .
  note fields = find_field_def mutation_fields_def unquote_lower zero_mutation_def
  let ?fs = "mutation_fields sc"
  let ?m1 = "zero_mutation\<lparr>m_ID := m_ID m\<rparr>"
  let ?m2 = "?m1\<lparr>m_Version := m_Version m\<rparr>"
  let ?m3 = "?m2\<lparr>m_Token := map (\<lambda>(k, v). (k, decoded sc v)) (m_Token m)\<rparr>"
  let ?m4 = "?m3\<lparr>m_Name := m_Name m\<rparr>"
  let ?m5 = "?m4\<lparr>m_Args := map (decoded sc) (m_Args m)\<rparr>"
  let ?m6 = "?m5\<lparr>m_Status := m_Status m\<rparr>"
  note wf' = wf [unfolded wf_mutation_def]
  have f1: "decode_members ?fs [(''id'', TStr (UUID_String (m_ID m)))] zero_mutation = (?m1, DOk)"
    using wf' by (simp add: fields wf_zero_uuid)
  have f2: "decode_members ?fs (opt_field (m_Version m \<noteq> 0) ''version'' (TNum (format_int (m_Version m)))) ?m1
      = (?m2, DOk)"
    by (rule decode_members_opt [of _ _ "\<lambda>t m. case decode_int t (m_Version m) of (v, st) \<Rightarrow> (m\<lparr>m_Version := v\<rparr>, st)"])
      (use wf' in \<open>simp_all add: fields Atoi_format_int\<close>)
  have f3: "decode_members ?fs (opt_field (m_Token m \<noteq> []) ''token'' tok) ?m2 = (?m3, DOk)"
    by (rule decode_members_opt [of _ _ "\<lambda>t m. case decode_map sc t (m_Token m) of (v, st) \<Rightarrow> (m\<lparr>m_Token := v\<rparr>, st)"])
      (use wf' decode_map_tree [OF sc _ tok] in \<open>simp_all add: fields\<close>)
  have f4: "decode_members ?fs (opt_field (m_Name m \<noteq> []) ''name'' (TStr (escape (m_Name m)))) ?m3 = (?m4, DOk)"
    by (rule decode_members_opt [of _ _ "\<lambda>t m. case decode_string t (m_Name m) of (v, st) \<Rightarrow> (m\<lparr>m_Name := v\<rparr>, st)"])
      (use wf' in \<open>simp_all add: fields unquote_escape\<close>)
  have f5: "decode_members ?fs (opt_field (m_Args m \<noteq> []) ''args'' args) ?m4 = (?m5, DOk)"
    by (rule decode_members_opt [of _ _ "\<lambda>t m. case decode_slice sc t (m_Args m) of (v, st) \<Rightarrow> (m\<lparr>m_Args := v\<rparr>, st)"])
      (use wf' decode_slice_tree [OF sc _ args] in \<open>simp_all add: fields\<close>)
  have f6: "decode_members ?fs (opt_field (m_Status m \<noteq> []) ''status'' (TStr (escape (m_Status m)))) ?m5 = (?m6, DOk)"
    by (rule decode_members_opt [of _ _ "\<lambda>t m. case decode_string t (m_Status m) of (v, st) \<Rightarrow> (m\<lparr>m_Status := v\<rparr>, st)"])
      (use wf' in \<open>simp_all add: fields unquote_escape\<close>)
  have "?m6 = decoded_mutation sc m"
    by (simp add: decoded_mutation_def zero_mutation_def)
  then show ?thesis
    by (simp only: t' mutation_members_def decode_mutation_def decode_struct_def jtree.case f6
        decode_members_append [OF f1] decode_members_append [OF f2] decode_members_append [OF f3]
        decode_members_append [OF f4] decode_members_append [OF f5])
qed

section \<open>The text of a record\<close>

lemma wf_tree_opt_field [simp]:
  "list_all (\<lambda>(k, t). raw_ok k \<and> wf_tree t) (opt_field p k t) \<longleftrightarrow> (p \<longrightarrow> raw_ok k \<and> wf_tree t)"
  by (simp add: opt_field_def)

lemma clean_tree_opt_field [simp]:
  "list_all (\<lambda>(k, t). clean k \<and> clean_tree t) (opt_field p k t) \<longleftrightarrow> (p \<longrightarrow> clean k \<and> clean_tree t)"
  by (simp add: opt_field_def)

text \<open>A text of letters, digits and hyphens is its own escaped form.\<close>

definition key_char :: "char \<Rightarrow> bool" where
  "key_char c \<longleftrightarrow> c = CHR ''-'' \<or> 48 \<le> code c \<and> code c \<le> 57 \<or> 97 \<le> code c \<and> code c \<le> 122"

lemma escape_plain: "list_all key_char s \<Longrightarrow> escape s = s"
proof (induction s)
  case (Cons c s)
  then have "escape_ascii c = [c]"
    by (auto simp: escape_ascii_def key_char_def)
  moreover have "code c < 0x80" using Cons.prems by (auto simp: key_char_def)
  ultimately show ?case using Cons by (simp add: escape_ascii_Cons)
qed simp

lemma raw_ok_plain: "list_all key_char s \<Longrightarrow> raw_ok s \<and> clean s"
  by (metis escape_plain raw_ok_escape escape_clean)

lemma hexString_key_char: "d < 16 \<Longrightarrow> key_char (hexString ! d)"
  by (drule less_16_cases) (elim insertE; simp add: hexString_def key_char_def)

lemma hexpairs_key_char: "list_all key_char (hexpairs bs)"
  by (induction bs) (simp_all add: hexpair_def hexString_key_char)

lemma UUID_String_key_char: "wf_uuid u \<Longrightarrow> list_all key_char (UUID_String u)"
  by (simp add: UUID_String_groups hexpairs_key_char key_char_def)

lemma mutation_keys_ok:
  "raw_ok ''id''" "raw_ok ''version''" "raw_ok ''token''" "raw_ok ''name''" "raw_ok ''args''" "raw_ok ''status''"
  "clean ''id''" "clean ''version''" "clean ''token''" "clean ''name''" "clean ''args''" "clean ''status''"
  by (rule raw_ok_plain [THEN conjunct1] raw_ok_plain [THEN conjunct2], simp add: key_char_def)+

lemma mutation_tree_wf:
  assumes sc: "strconv_ok sc" and wf: "wf_mutation m" and t: "mutation_tree sc m = Some t"
  shows "wf_tree t \<and> clean_tree t"
proof -
  from wf have "reads_back sc (JObj (m_Token m))" "reads_back sc (JArr (m_Args m))"
    unfolding wf_mutation_def by (blast intro: wf_json_reads_back [OF sc])+
  moreover obtain tok args
    where tok: "tree_of sc (JObj (m_Token m)) = Some tok" and args: "tree_of sc (JArr (m_Args m)) = Some args"
      and t': "t = TObj (mutation_members m tok args)"
    using mutation_tree_SomeE [OF t] .
  ultimately have "wf_tree tok" "wf_tree args"
    unfolding reads_back_def by blast+
  moreover have "clean_tree tok" "clean_tree args"
    using tree_of_clean [OF sc] tok args by blast+
  moreover have "raw_ok (UUID_String (m_ID m)) \<and> clean (UUID_String (m_ID m))"
    using wf by (intro raw_ok_plain UUID_String_key_char) (simp add: wf_mutation_def)
  ultimately show ?thesis
    by (simp add: t' mutation_members_def mutation_keys_ok number_literal_format_int
        number_literal_clean escape_clean)
qed

lemma decode_encode_mutation:
  assumes "strconv_ok sc" and "wf_mutation m" and "encode_line (mutation_tree sc m) = Inr s"
  shows "decode_with (decode_mutation sc) (s @ rest) zero_mutation =
    (decoded_mutation sc m, None, CHR 0x0A # rest)"
  using assms(3) mutation_tree_wf [OF assms(1,2)] decode_mutation_tree [OF assms(1,2)] decode_next_print
  by (auto simp: encode_line_def decode_with_def split: option.splits)

lemma encode_mutation_line:
  assumes "strconv_ok sc" and "wf_mutation m" and "encode_line (mutation_tree sc m) = Inr s"
  shows "\<exists>l. s = l @ [CHR 0x0A] \<and> l \<noteq> [] \<and> clean l"
  using assms(3) mutation_tree_wf [OF assms(1,2)] print_clean print_tree_length
  by (fastforce simp: encode_line_def split: option.splits)

lemma decoded_mutation_id:
  "list_all (\<lambda>(k, v). no_int v) (m_Token m) \<Longrightarrow> list_all no_int (m_Args m) \<Longrightarrow> decoded_mutation sc m = m"
  using decoded_no_int [of "JObj (m_Token m)" sc] decoded_no_int [of "JArr (m_Args m)" sc]
  by (simp add: decoded_mutation_def)

text \<open>
  A strconv for concrete runs: floats are read as signed integers. It keeps what the
  documentation of the package promises, for integral values.
\<close>

definition int_strconv :: strconv where
  "int_strconv = \<lparr>FormatFloat = \<lambda>x. Some (format_int (sint x)),
     ParseFloat = \<lambda>s. map_option word_of_int (Atoi s), float_int64 = sint\<rparr>"

lemma int_strconv_ok [simp]: "strconv_ok int_strconv"
proof -
  have "Atoi (format_int (sint x)) = Some (sint x)" for x :: float64
    using sint_range_size [of x] by (intro Atoi_format_int) (auto simp: word_size)
  moreover have "sint (word_of_int i :: float64) = i" if "- (2 ^ 53) \<le> i" "i \<le> 2 ^ 53" for i
    using that by (simp add: sint_sbintrunc' signed_take_bit_int_eq_self)
  moreover have "Atoi (format_int i) = Some i" if "- (2 ^ 53) \<le> i" "i \<le> 2 ^ 53" for i
    using that by (intro Atoi_format_int) auto
  ultimately show ?thesis
    by (auto simp: strconv_ok_def int_strconv_def number_literal_format_int)
qed

section \<open>Properties\<close>

definition sample_mutation :: Mutation where
  "sample_mutation = \<lparr>m_ID = [1, 2, 3, 4, 5, 6, 17, 8, 137, 10, 11, 12, 13, 14, 15, 16], m_Version = 3,
     m_Token = [(''id'', JStr ''u1'')], m_Name = ''rename'', m_Args = [JStr ''Bob'', JNum 7], m_Status = []\<rparr>"

lemma sample_mutation_wf: "wf_mutation sample_mutation"
proof -
  have "valid_utf8 ''id''" "valid_utf8 ''u1''" "valid_utf8 ''rename''" "valid_utf8 ''Bob''" "valid_utf8 []"
    by code_simp+
  then show ?thesis
    by (simp add: sample_mutation_def wf_mutation_def wf_uuid_def sorted_map_def)
qed

lemma sample_line: "\<exists>line. encode_line (mutation_tree int_strconv sample_mutation) = Inr line"
  by (simp add: encode_line_def mutation_tree_def sample_mutation_def int_strconv_def)

text \<open>
  C12: a mutation that was encoded is one line without control bytes, and decoding that line
  from the head of a stream gives the mutation back and leaves the rest of the stream.
\<close>

theorem mutation_JSON_roundtrip:
  assumes "strconv_ok sc" and "wf_mutation m"
    and "list_all (\<lambda>(k, v). no_int v) (m_Token m)" and "list_all no_int (m_Args m)"
    and "encode_line (mutation_tree sc m) = Inr s"
  shows "decode_with (decode_mutation sc) (s @ rest) zero_mutation = (m, None, CHR 0x0A # rest) \<and>
    (\<exists>l. s = l @ [CHR 0x0A] \<and> l \<noteq> [] \<and> clean l)"
proof
  show "decode_with (decode_mutation sc) (s @ rest) zero_mutation = (m, None, CHR 0x0A # rest)"
    using decode_encode_mutation [OF assms(1,2,5)] decoded_mutation_id [OF assms(3,4)] by simp
  show "\<exists>l. s = l @ [CHR 0x0A] \<and> l \<noteq> [] \<and> clean l"
    using encode_mutation_line [OF assms(1,2,5)] .
qed

theorem mutation_JSON_roundtrip_witness:
  "\<exists>s. encode_line (mutation_tree int_strconv sample_mutation) = Inr s \<and>
     decode_with (decode_mutation int_strconv) (s @ ''x'') zero_mutation =
       (sample_mutation, None, CHR 0x0A # ''x'')"
proof -
  obtain s where s: "encode_line (mutation_tree int_strconv sample_mutation) = Inr s"
    using sample_line ..
  have "list_all (\<lambda>(k, v). no_int v) (m_Token sample_mutation)" "list_all no_int (m_Args sample_mutation)"
    by (simp_all add: sample_mutation_def)
  from mutation_JSON_roundtrip [OF int_strconv_ok sample_mutation_wf this s] s show ?thesis by blast
qed

end
