(* ===== verification/Mutation_Log.thy ===== *)
theory Mutation_Log
  imports Schema
begin

text \<open>
  \<open>arla/mutationstore/store.go\<close>: the append-only log of mutations. Clients hand their
  mutation to a single writer goroutine through a channel and wait for its answer; the writer
  appends one JSON line per mutation and syncs the file before it answers. This theory holds the
  operations as functions of the log and the file; the interleavings of concurrent calls are
  the subject of \<open>Log_Protocol\<close>.
\<close>

section \<open>The log and its operations\<close>

datatype log_error = ClosedLog | NilWal | WalEncoding | WalSync

record Log =
  l_filename :: string
  l_closed :: bool
  l_count :: int

text \<open>
  What the operating system does with one write and one sync: how many bytes reached the file
  before the write failed (\<open>None\<close>: all of them), and whether the sync succeeded.
\<close>

record disk =
  d_torn :: "nat option"
  d_synced :: bool

definition good_disk :: disk where
  "good_disk = \<lparr>d_torn = None, d_synced = True\<rparr>"

text \<open>
  One turn of the writer's loop on a received request: the file afterwards, the answer sent to
  the client (\<open>None\<close> is nil), and whether the goroutine goes on. \<open>Encoder.Encode\<close> marshals first,
  so a value without a JSON form leaves the file alone.
\<close>

definition writer_turn ::
  "strconv \<Rightarrow> disk \<Rightarrow> string \<Rightarrow> Mutation option \<Rightarrow> string \<times> log_error option \<times> bool" where
  "writer_turn sc d f r =
     (case r of
        None \<Rightarrow> (f, Some NilWal, False)
      | Some m \<Rightarrow>
          (case encode_line (mutation_tree sc m) of
             Inl e \<Rightarrow> (f, Some WalEncoding, False)
           | Inr line \<Rightarrow>
               (case d_torn d of
                  Some n \<Rightarrow> (f @ take n line, Some WalEncoding, False)
                | None \<Rightarrow>
                    if d_synced d then (f @ line, None, True)
                    else (f @ line, Some WalSync, False))))"

text \<open>
  A call of \<open>Write\<close> while nobody else uses the log: the channel is empty, so the request goes
  straight to the writer if it still runs (\<open>run\<close>); otherwise the call never returns, the
  \<open>None\<close> of the first component. The counter is incremented before the answer is known.
\<close>

definition Log_Write ::
  "strconv \<Rightarrow> disk \<Rightarrow> Mutation option \<Rightarrow> Log \<Rightarrow> bool \<Rightarrow> string \<Rightarrow>
     log_error option option \<times> Log \<times> bool \<times> string" where
  "Log_Write sc d m l run f =
     (if l_closed l then (Some (Some ClosedLog), l, run, f)
      else
        let l' = l\<lparr>l_count := l_count l + 1\<rparr> in
        if run then
          (case writer_turn sc d f m of (f', e, go) \<Rightarrow> (Some e, l', go \<and> \<not> l_closed l', f'))
        else (None, l', run, f))"

definition Log_Close :: "Log \<Rightarrow> Log" where
  "Log_Close l = (if l_closed l then l else l\<lparr>l_closed := True\<rparr>)"

definition Log_Len :: "Log \<Rightarrow> int" where
  "Log_Len l = l_count l"

text \<open>
  \<open>Open\<close>: the file is created when it is missing; \<open>can_open\<close> says whether the system lets the
  file be opened. The goroutine is started only when that worked.
\<close>

definition Log_Open ::
  "bool \<Rightarrow> string \<Rightarrow> (string \<rightharpoonup> string) \<Rightarrow> (Log \<times> bool \<times> bool) \<times> (string \<rightharpoonup> string)" where
  "Log_Open can_open filename fs =
     (let l = \<lparr>l_filename = filename, l_closed = False, l_count = 0\<rparr> in
      if can_open then
        ((l, True, True), if fs filename = None then fs(filename \<mapsto> []) else fs)
      else ((l, False, False), fs))"

text \<open>
  \<open>Replay\<close>: the mutations sent on the channel, in order, and whether the channel was closed at
  the end of the file (\<open>False\<close>: the goroutine panicked on a value it could not decode). Each
  value is decoded into a fresh mutation. A turn consumes at least one byte, so as many turns
  as the file has bytes, and one for the end of the file, are enough.
\<close>

fun Replay_loop :: "strconv \<Rightarrow> nat \<Rightarrow> string \<Rightarrow> Mutation list \<times> bool" where
  "Replay_loop sc 0 s = ([], False)"
| "Replay_loop sc (Suc n) s =
     (case decode_with (decode_mutation sc) s zero_mutation of
        (m, None, rest) \<Rightarrow> (case Replay_loop sc n rest of (ms, ok) \<Rightarrow> (m # ms, ok))
      | (m, Some e, rest) \<Rightarrow> ([], e = JsonEOF))"

definition Log_Replay :: "strconv \<Rightarrow> string \<Rightarrow> Mutation list \<times> bool" where
  "Log_Replay sc f = Replay_loop sc (Suc (length f)) f"

section \<open>Streaming the log as SQL\<close>

text \<open>
  \<open>bufio.Scanner\<close> with its default limits: the lines of the file without their end (\<open>\n\<close> or
  \<open>\r\n\<close>); it stops with \<open>ErrTooLong\<close> at a line that does not fit its 64 KiB buffer.
\<close>

definition drop_cr :: "string \<Rightarrow> string" where
  "drop_cr s = (if s \<noteq> [] \<and> last s = CHR 0x0D then butlast s else s)"

fun scan_lines :: "string list \<Rightarrow> string list \<times> bool" where
  "scan_lines [] = ([], True)"
| "scan_lines [s] = (if s = [] then ([], True) else if length s < 65536 then ([drop_cr s], True) else ([], False))"
| "scan_lines (s # t # ss) =
     (if length s < 65536 then (case scan_lines (t # ss) of (ls, ok) \<Rightarrow> (drop_cr s # ls, ok))
      else ([], False))"

definition Scan :: "string \<Rightarrow> string list \<times> bool" where
  "Scan f = scan_lines (Split (CHR 0x0A) f)"

datatype writeto_error = WriteFailed | ErrTooLong | OpenFailed

definition replay_prefix :: string where
  "replay_prefix = ''select arla_replay('' @ [CHR 0x27]"

definition replay_suffix :: string where
  "replay_suffix = [CHR 0x27] @ ''::json);'' @ [CHR 0x0A]"

text \<open>
  The destination is any \<open>io.Writer\<close>: a function from its state and the bytes to the number of
  bytes taken, whether that failed, and the next state. A failure ends the loop at once.
\<close>

type_synonym 'w io_writer = "'w \<Rightarrow> string \<Rightarrow> (nat \<times> bool) \<times> 'w"

fun write_all :: "'w io_writer \<Rightarrow> string list \<Rightarrow> 'w \<Rightarrow> int \<Rightarrow> bool \<times> 'w \<times> int" where
  "write_all wr [] w n = (True, w, n)"
| "write_all wr (b # bs) w n =
     (case wr w b of
        ((k, failed), w') \<Rightarrow> if failed then (False, w', n) else write_all wr bs w' (n + int k))"

fun WriteTo_loop ::
  "'w io_writer \<Rightarrow> string list \<Rightarrow> 'w \<Rightarrow> int \<Rightarrow> Log \<Rightarrow> bool \<times> 'w \<times> int \<times> Log" where
  "WriteTo_loop wr [] w n l = (True, w, n, l)"
| "WriteTo_loop wr (b # bs) w n l =
     (if b = [] then WriteTo_loop wr bs w n l
      else case write_all wr [replay_prefix, b, replay_suffix] w n of
             (False, w', n') \<Rightarrow> (False, w', n', l)
           | (True, w', n') \<Rightarrow> WriteTo_loop wr bs w' n' (l\<lparr>l_count := l_count l + 1\<rparr>))"

definition Log_WriteTo ::
  "'w io_writer \<Rightarrow> string option \<Rightarrow> 'w \<Rightarrow> Log \<Rightarrow> (int \<times> writeto_error option) \<times> 'w \<times> Log" where
  "Log_WriteTo wr f w l =
     (case f of
        None \<Rightarrow> ((0, Some OpenFailed), w, l)
      | Some s \<Rightarrow>
          (case Scan s of
             (ls, ok) \<Rightarrow>
               (case WriteTo_loop wr ls w 0 l of
                  (False, w', n, l') \<Rightarrow> ((n, Some WriteFailed), w', l')
                | (True, w', n, l') \<Rightarrow> ((n, if ok then None else Some ErrTooLong), w', l'))))"

section \<open>Reading the log back\<close>

lemma decode_with_consumes: "decode_with d s r = (r', None, rest) \<Longrightarrow> length rest < length s"
  by (auto simp: decode_with_def split: sum.splits prod.splits if_splits dest: decode_next_consumes)

text \<open>More turns than the file has bytes make no difference.\<close>

lemma Replay_loop_fuel: "length s < n \<Longrightarrow> length s < k \<Longrightarrow> Replay_loop sc n s = Replay_loop sc k s"
proof (induction n arbitrary: s k)
  case (Suc n)
  obtain k' where k: "k = Suc k'" using Suc.prems(2) by (cases k) auto
  obtain m e rest where d: "decode_with (decode_mutation sc) s zero_mutation = (m, e, rest)"
    by (metis prod_cases3)
  show ?case
  proof (cases e)
    case None
    have "length rest < length s"
      by (rule decode_with_consumes [OF d [unfolded None]])
    then have "Replay_loop sc n rest = Replay_loop sc k' rest"
      using Suc.prems k by (intro Suc.IH) auto
    then show ?thesis by (simp add: k d None)
  next
    case (Some x)
    then show ?thesis by (simp add: k d)
  qed
qed simp

lemma Log_Replay_unfold:
  "Log_Replay sc s =
     (case decode_with (decode_mutation sc) s zero_mutation of
        (m, None, rest) \<Rightarrow> (case Log_Replay sc rest of (ms, ok) \<Rightarrow> (m # ms, ok))
      | (m, Some e, rest) \<Rightarrow> ([], e = JsonEOF))"
proof -
  have "Replay_loop sc (length s) rest = Replay_loop sc (Suc (length rest)) rest"
    if "decode_with (decode_mutation sc) s zero_mutation = (m, None, rest)" for m rest
    using decode_with_consumes [OF that] by (intro Replay_loop_fuel) auto
  then show ?thesis
    by (auto simp: Log_Replay_def split: option.splits prod.splits)
qed

text \<open>White space before a value makes no difference either.\<close>

lemma decode_next_newline: "decode_next (CHR 0x0A # s) = decode_next s"
proof -
  have ws: "skip_ws (CHR 0x0A # s) = skip_ws s"
    by (simp add: skip_ws_def is_ws_def)
  then have step: "parse_value (Suc n) (CHR 0x0A # s) = parse_value (Suc n) s" for n
    by simp
  have "parse_value (Suc (Suc (length s))) s = parse_value (Suc (length s)) s"
  proof (cases "parse_value (Suc (Suc (length s))) s")
    case None
    then show ?thesis
      using parse_fuel(1) [of "Suc (length s)" s] unfolding enough_def
      by (cases "parse_value (Suc (length s)) s") (force simp del: parse_value.simps)+
  next
    case (Some r)
    then show ?thesis
      using parse_value_fuel by (metis)
  qed
  with ws step show ?thesis
    by (simp add: decode_next_def del: parse_value.simps)
qed

lemma Log_Replay_newline: "Log_Replay sc (CHR 0x0A # s) = Log_Replay sc s"
  unfolding Log_Replay_unfold [of sc "CHR 0x0A # s"] Log_Replay_unfold [of sc s]
  by (simp add: decode_with_def decode_next_newline split: sum.splits prod.splits)

lemma Log_Replay_Nil [simp]: "Log_Replay sc [] = ([], True)"
  by (subst Log_Replay_unfold) (simp add: decode_with_def decode_next_def skip_ws_def)

text \<open>
  The text of a list of mutations; replaying a file that starts with it sends those mutations
  first.
\<close>

fun log_text :: "strconv \<Rightarrow> Mutation list \<Rightarrow> string option" where
  "log_text sc [] = Some []"
| "log_text sc (m # ms) =
     (case (encode_line (mutation_tree sc m), log_text sc ms) of
        (Inr line, Some t) \<Rightarrow> Some (line @ t)
      | _ \<Rightarrow> None)"

lemma log_text_append:
  "log_text sc (ms @ ns) =
     (case (log_text sc ms, log_text sc ns) of (Some s, Some t) \<Rightarrow> Some (s @ t) | _ \<Rightarrow> None)"
  by (induction ms) (auto split: sum.splits option.splits)

lemma Log_Replay_log_text:
  assumes "strconv_ok sc"
  shows "log_text sc ms = Some t \<Longrightarrow> list_all wf_mutation ms \<Longrightarrow>
    Log_Replay sc (t @ rest) =
      (case Log_Replay sc rest of (ns, ok) \<Rightarrow> (map (decoded_mutation sc) ms @ ns, ok))"
proof (induction ms arbitrary: t)
  case Nil
  then show ?case by simp
next
  case (Cons m ms)
  from Cons.prems obtain line t' where line: "encode_line (mutation_tree sc m) = Inr line"
    and t': "log_text sc ms = Some t'" and t: "t = line @ t'"
    by (auto split: sum.splits option.splits)
  have "decode_with (decode_mutation sc) (line @ (t' @ rest)) zero_mutation =
      (decoded_mutation sc m, None, CHR 0x0A # (t' @ rest))"
    using Cons.prems line by (intro decode_encode_mutation [OF assms]) auto
  then show ?case
    using Cons.IH [OF t'] Cons.prems(2)
    by (subst Log_Replay_unfold) (simp add: t Log_Replay_newline split: prod.splits)
qed

section \<open>The contract of the log\<close>

text \<open>
  What a durable log promises: \<open>holds ms s\<close> says that the store \<open>s\<close> holds the entries \<open>ms\<close>. An
  acknowledged append adds its entry, a failed one loses nothing, and recovery yields what the
  store holds before anything else.
\<close>

locale durable_log =
  fixes append :: "'x \<Rightarrow> 's \<Rightarrow> bool \<times> 's"
    and entry :: "'x \<Rightarrow> 'm"
    and valid :: "'m \<Rightarrow> bool"
    and holds :: "'m list \<Rightarrow> 's \<Rightarrow> bool"
    and recover :: "'s \<Rightarrow> 'm list"
  assumes append_acked: "holds ms s \<Longrightarrow> valid (entry x) \<Longrightarrow> append x s = (True, s') \<Longrightarrow> holds (ms @ [entry x]) s'"
    and append_failed: "holds ms s \<Longrightarrow> append x s = (False, s') \<Longrightarrow> holds ms s'"
    and recover_holds: "holds ms s \<Longrightarrow> take (length ms) (recover s) = ms"
begin

fun run :: "'x list \<Rightarrow> 's \<Rightarrow> 'm list \<times> 's" where
  "run [] s = ([], s)"
| "run (x # xs) s =
     (case append x s of (ok, s') \<Rightarrow> (case run xs s' of (acked, s'') \<Rightarrow> ((if ok then [entry x] else []) @ acked, s'')))"

lemma run_holds:
  "holds ms s \<Longrightarrow> list_all (\<lambda>x. valid (entry x)) xs \<Longrightarrow> run xs s = (acked, s') \<Longrightarrow> holds (ms @ acked) s'"
proof (induction xs arbitrary: ms s acked)
  case (Cons x xs)
  obtain ok s1 where a: "append x s = (ok, s1)" by (cases "append x s")
  obtain acked1 where r: "run xs s1 = (acked1, s')"
    and eq: "acked = (if ok then [entry x] else []) @ acked1"
    using Cons.prems a by (auto split: prod.splits)
  have "holds (ms @ (if ok then [entry x] else [])) s1"
    using a append_acked append_failed Cons.prems(1,2) by (cases ok) auto
  from Cons.IH [OF this _ r] Cons.prems(2) show ?case by (simp add: eq)
qed simp

lemma run_recover:
  assumes "holds ms s" and "list_all (\<lambda>x. valid (entry x)) xs" and "run xs s = (acked, s')"
  shows "take (length (ms @ acked)) (recover s') = ms @ acked"
  using recover_holds [OF run_holds [OF assms]] .

end

text \<open>
  The log on its file: an entry is a mutation together with what the disk will do. The store is
  intact while the writer runs; when it has stopped, the complete lines are followed by whatever
  the failed write left.
\<close>

type_synonym log_store = "Log \<times> bool \<times> string"

definition log_append :: "strconv \<Rightarrow> Mutation \<times> disk \<Rightarrow> log_store \<Rightarrow> bool \<times> log_store" where
  "log_append sc x s =
     (case (x, s) of
        ((m, d), (l, run, f)) \<Rightarrow>
          (case Log_Write sc d (Some m) l run f of (r, s') \<Rightarrow> (r = Some None, s')))"

definition stored_mutation :: "Mutation \<Rightarrow> bool" where
  "stored_mutation m \<longleftrightarrow> wf_mutation m \<and> list_all (\<lambda>(k, v). no_int v) (m_Token m) \<and> list_all no_int (m_Args m)"

definition log_holds :: "strconv \<Rightarrow> Mutation list \<Rightarrow> log_store \<Rightarrow> bool" where
  "log_holds sc ms s =
     (case s of
        (l, run, f) \<Rightarrow> strconv_ok sc \<and> list_all stored_mutation ms \<and>
          (\<exists>t torn. log_text sc ms = Some t \<and> f = t @ torn \<and> (run \<longrightarrow> torn = [])))"

definition log_recover :: "strconv \<Rightarrow> log_store \<Rightarrow> Mutation list" where
  "log_recover sc s = (case s of (l, run, f) \<Rightarrow> fst (Log_Replay sc f))"

lemma stored_mutation_decoded: "stored_mutation m \<Longrightarrow> wf_mutation m \<and> decoded_mutation sc m = m"
  by (simp add: stored_mutation_def decoded_mutation_id)

lemma map_decoded_stored: "list_all stored_mutation ms \<Longrightarrow> map (decoded_mutation sc) ms = ms"
  by (induction ms) (auto simp: stored_mutation_decoded)

lemma log_append_acked:
  assumes "log_holds sc ms s" and "stored_mutation (fst x)" and "log_append sc x s = (True, s')"
  shows "log_holds sc (ms @ [fst x]) s'"
proof -
  obtain m d l f where x: "x = (m, d)" and s: "s = (l, True, f)"
    using assms(3) by (cases x; cases s) (auto simp: log_append_def Log_Write_def Let_def split: if_splits)
  from assms(1) obtain t where t: "log_text sc ms = Some t" "f = t"
    by (auto simp: log_holds_def s)
  from assms(3) obtain line where "encode_line (mutation_tree sc m) = Inr line" "snd (snd s') = f @ line"
    by (auto simp: log_append_def x s Log_Write_def writer_turn_def Let_def
        split: if_splits sum.splits option.splits)
  with t assms(1,2) show ?thesis
    by (auto simp: log_holds_def x s log_text_append split: prod.splits)
qed

lemma log_append_failed:
  assumes "log_holds sc ms s" and "log_append sc x s = (False, s')"
  shows "log_holds sc ms s'"
  using assms
  by (auto simp: log_holds_def log_append_def Log_Write_def writer_turn_def Let_def
      split: prod.splits if_splits sum.splits option.splits)

lemma log_recover_holds:
  assumes "log_holds sc ms s"
  shows "take (length ms) (log_recover sc s) = ms"
proof -
  obtain l run f where s: "s = (l, run, f)" by (cases s)
  from assms obtain t torn where t: "log_text sc ms = Some t" "f = t @ torn"
    and wf: "list_all stored_mutation ms" and sc: "strconv_ok sc"
    by (auto simp: log_holds_def s)
  have "list_all wf_mutation ms"
    using wf by (auto simp: list_all_iff stored_mutation_def)
  from Log_Replay_log_text [OF sc t(1) this, of torn] show ?thesis
    by (simp add: log_recover_def s t(2) map_decoded_stored [OF wf] split: prod.splits)
qed

interpretation store: durable_log "log_append sc" fst stored_mutation "log_holds sc" "log_recover sc" for sc
  by unfold_locales (fact log_append_acked log_append_failed log_recover_holds)+

section \<open>Streaming what was logged\<close>

definition buf_write :: "string io_writer" where
  "buf_write w b = ((length b, False), w @ b)"

definition replay_statement :: "string \<Rightarrow> string" where
  "replay_statement line = replay_prefix @ line @ replay_suffix"

lemma scan_lines_append:
  "list_all (\<lambda>l. length l < 65536) ls \<Longrightarrow> ts \<noteq> [] \<Longrightarrow>
     scan_lines (ls @ ts) = (case scan_lines ts of (rs, ok) \<Rightarrow> (map drop_cr ls @ rs, ok))"
proof (induction ls)
  case (Cons l ls)
  then obtain t ts' where "ls @ ts = t # ts'" by (cases "ls @ ts") auto
  with Cons show ?case by (auto split: prod.splits)
qed simp

lemma Split_lines:
  "list_all clean ls \<Longrightarrow> Split (CHR 0x0A) (concat (map (\<lambda>l. l @ [CHR 0x0A]) ls) @ rest) = ls @ Split (CHR 0x0A) rest"
  by (induction ls) (auto simp: Split_append clean_no_newline)

lemma drop_cr_clean: "clean l \<Longrightarrow> drop_cr l = l"
  using last_in_set clean_no_newline(2) by (fastforce simp: drop_cr_def)

lemma Scan_lines:
  assumes "list_all (\<lambda>l. clean l \<and> length l < 65536) ls"
  shows "Scan (concat (map (\<lambda>l. l @ [CHR 0x0A]) ls) @ rest) =
    (case Scan rest of (rs, ok) \<Rightarrow> (ls @ rs, ok))"
proof -
  have c: "list_all clean ls" and "list_all (\<lambda>l. length l < 65536) ls"
    using assms by (auto simp: list_all_iff)
  moreover have "map drop_cr ls = ls"
    using c by (induction ls) (auto simp: drop_cr_clean)
  ultimately show ?thesis
    by (simp add: Scan_def Split_lines scan_lines_append split: prod.splits)
qed

lemma Scan_Nil [simp]: "Scan [] = ([], True)"
  by (simp add: Scan_def)

lemma Scan_too_long:
  "clean l \<Longrightarrow> 65536 \<le> length l \<Longrightarrow> Scan (l @ CHR 0x0A # rest) = ([], False)"
  by (cases "Split (CHR 0x0A) rest") (auto simp: Scan_def Split_append clean_no_newline)

lemma WriteTo_loop_buf:
  assumes "list_all (\<lambda>l. l \<noteq> []) ls"
  shows "WriteTo_loop buf_write ls w n l =
    (True, w @ concat (map replay_statement ls), n + int (length (concat (map replay_statement ls))),
     l\<lparr>l_count := l_count l + int (length ls)\<rparr>)"
  using assms
  by (induction ls arbitrary: w n l) (auto simp: buf_write_def replay_statement_def)

text \<open>The lines of a logged text.\<close>

lemma log_text_lines:
  assumes "strconv_ok sc"
  shows "log_text sc ms = Some t \<Longrightarrow> list_all wf_mutation ms \<Longrightarrow>
    \<exists>ls. length ls = length ms \<and> t = concat (map (\<lambda>l. l @ [CHR 0x0A]) ls) \<and>
      list_all (\<lambda>l. l \<noteq> [] \<and> clean l) ls \<and>
      (\<forall>i < length ms. encode_line (mutation_tree sc (ms ! i)) = Inr (ls ! i @ [CHR 0x0A]))"
proof (induction ms arbitrary: t)
  case Nil
  then show ?case by simp
next
  case (Cons m ms)
  from Cons.prems obtain line t' where line: "encode_line (mutation_tree sc m) = Inr line"
    and t': "log_text sc ms = Some t'" and t: "t = line @ t'"
    by (auto split: sum.splits option.splits)
  obtain l where l: "line = l @ [CHR 0x0A]" "l \<noteq> []" "clean l"
    using encode_mutation_line [OF assms _ line] Cons.prems(2) by auto
  from Cons.IH [OF t'] Cons.prems(2) obtain ls where ls: "length ls = length ms"
    "t' = concat (map (\<lambda>l. l @ [CHR 0x0A]) ls)" "list_all (\<lambda>l. l \<noteq> [] \<and> clean l) ls"
    "\<forall>i < length ms. encode_line (mutation_tree sc (ms ! i)) = Inr (ls ! i @ [CHR 0x0A])"
    by auto
  with l line t show ?case
    by (intro exI [of _ "l # ls"]) (auto simp: nth_Cons split: nat.splits)
qed

text \<open>The text of a mutation, as \<open>arla_replay\<close> should receive it.\<close>

definition mutation_text :: "strconv \<Rightarrow> Mutation \<Rightarrow> string" where
  "mutation_text sc m = (case mutation_tree sc m of Some t \<Rightarrow> print_tree t | None \<Rightarrow> [])"

lemma encode_line_mutation_text:
  "encode_line (mutation_tree sc m) = Inr (l @ [CHR 0x0A]) \<Longrightarrow> mutation_text sc m = l"
  by (auto simp: encode_line_def mutation_text_def split: option.splits)

text \<open>
  A string literal of SQL, after its opening quote: it ends at the first quote that is not
  doubled. What it denotes, and the text after it.
\<close>

fun sql_literal :: "string \<Rightarrow> (string \<times> string) option" where
  "sql_literal [] = None"
| "sql_literal (c # s) =
     (if c = CHR 0x27 then
        (case s of
           [] \<Rightarrow> Some ([], [])
         | d # r \<Rightarrow> if d = CHR 0x27 then map_option (\<lambda>(v, x). (c # v, x)) (sql_literal r) else Some ([], s))
      else map_option (\<lambda>(v, x). (c # v, x)) (sql_literal s))"

lemma sql_literal_plain:
  "CHR 0x27 \<notin> set s \<Longrightarrow> r = [] \<or> hd r \<noteq> CHR 0x27 \<Longrightarrow> sql_literal (s @ CHR 0x27 # r) = Some (s, r)"
  by (induction s) (auto split: list.splits)

lemma sql_literal_shorter:
  "sql_literal s = Some (v, r) \<Longrightarrow> length v + length r < length s \<and> (length v + length r + 1 = length s \<longrightarrow> CHR 0x27 \<notin> set v)"
proof (induction s arbitrary: v r rule: sql_literal.induct)
  case (2 c s)
  then show ?case by (fastforce split: if_splits list.splits)
qed simp

lemma sql_literal_suffix:
  "sql_literal (s @ replay_suffix) = Some (s, ''::json);'' @ [CHR 0x0A]) \<longleftrightarrow> CHR 0x27 \<notin> set s"
  using sql_literal_plain [of s "''::json);'' @ [CHR 0x0A]"]
    sql_literal_shorter [of "s @ replay_suffix" s "''::json);'' @ [CHR 0x0A]"]
  by (auto simp: replay_suffix_def)

text \<open>JSON strings keep apostrophes as they are.\<close>

lemma apostrophe_ls:
  "CHR 0x27 \<notin> set (encode_rune 0x2028)" "CHR 0x27 \<notin> set (encode_rune 0x2029)"
  by (auto simp: encode_rune_def dest!: arg_cong [where f = "of_char :: char \<Rightarrow> nat"])

lemma set_Join: "p \<in> set ps \<Longrightarrow> set p \<subseteq> set (Join ps sep)"
  by (induction ps sep rule: Join.induct) auto

lemma escape_apostrophe: "CHR 0x27 \<in> set s \<Longrightarrow> CHR 0x27 \<in> set (escape s)"
proof (induction "length s" arbitrary: s rule: less_induct)
  case less
  then have "s \<noteq> []" by auto
  then show ?case
  proof (cases s rule: escape_cases)
    case (ascii c cs)
    with less show ?thesis by (auto simp: escape_ascii_def)
  next
    case (invalid c cs)
    then have "c \<noteq> CHR 0x27"
      using utf8_size_ascii [of c cs] by auto
    with invalid less show ?thesis by auto
  next
    case ls
    have "s = take 3 s @ drop 3 s" by simp
    then have "CHR 0x27 \<in> set (drop 3 s)"
      using less.prems ls(1) by (metis Un_iff apostrophe_ls(1) set_append)
    with ls less.hyps [of "drop 3 s"] \<open>s \<noteq> []\<close> show ?thesis by simp
  next
    case ps
    have "s = take 3 s @ drop 3 s" by simp
    then have "CHR 0x27 \<in> set (drop 3 s)"
      using less.prems ps(1) by (metis Un_iff apostrophe_ls(2) set_append)
    with ps less.hyps [of "drop 3 s"] \<open>s \<noteq> []\<close> show ?thesis by simp
  next
    case (multi c cs)
    have "CHR 0x27 \<in> set (take (utf8_size s) s) \<or> CHR 0x27 \<in> set (drop (utf8_size s) s)"
      using less.prems by (metis Un_iff append_take_drop_id set_append)
    with multi less.hyps [of "drop (utf8_size s) s"] show ?thesis by auto
  qed
qed

lemma name_apostrophe:
  assumes "mutation_tree sc m = Some t" and "CHR 0x27 \<in> set (m_Name m)"
  shows "CHR 0x27 \<in> set (print_tree t)"
proof -
  have "m_Name m \<noteq> []" using assms(2) by auto
  moreover obtain tok args where "t = TObj (mutation_members m tok args)"
    using mutation_tree_SomeE [OF assms(1)] .
  ultimately have "t = TObj ((take 1 (mutation_members m tok args) @
      opt_field (m_Version m \<noteq> 0) ''version'' (TNum (format_int (m_Version m))) @
      opt_field (m_Token m \<noteq> []) ''token'' tok) @
      (''name'', TStr (escape (m_Name m))) # opt_field (m_Args m \<noteq> []) ''args'' args @
      opt_field (m_Status m \<noteq> []) ''status'' (TStr (escape (m_Status m))))"
    by (simp add: mutation_members_def opt_field_def)
  then obtain ms ns where t: "t = TObj (ms @ (''name'', TStr (escape (m_Name m))) # ns)" by blast
  have "CHR 0x27 \<in> set (print_member (''name'', TStr (escape (m_Name m))))"
    using escape_apostrophe [OF assms(2)] by (simp add: print_member_def)
  then have "CHR 0x27 \<in> set (Join (map print_member (ms @ (''name'', TStr (escape (m_Name m))) # ns)) '','')"
    by (rule set_Join [THEN subsetD, rotated]) simp
  then show ?thesis by (simp add: t print_TObj)
qed

section \<open>Properties\<close>

text \<open>A sequence of calls of \<open>Write\<close>, one after the other: the mutations acknowledged and the store.\<close>

fun Log_Writes :: "strconv \<Rightarrow> (Mutation \<times> disk) list \<Rightarrow> log_store \<Rightarrow> Mutation list \<times> log_store" where
  "Log_Writes sc [] s = ([], s)"
| "Log_Writes sc (x # xs) s =
     (case log_append sc x s of
        (ok, s') \<Rightarrow> (case Log_Writes sc xs s' of (acked, s'') \<Rightarrow> ((if ok then [fst x] else []) @ acked, s'')))"

lemma Log_Writes_run: "Log_Writes sc xs s = store.run sc xs s"
  by (induction xs arbitrary: s) (auto split: prod.splits)



text \<open>
  C8: replaying an intact log sends every logged mutation, in order, and then closes the channel.
\<close>

theorem Replay_logged:
  assumes "strconv_ok sc" and "list_all stored_mutation ms" and "log_text sc ms = Some t"
  shows "Log_Replay sc t = (ms, True)"
proof -
  have "list_all wf_mutation ms"
    using assms(2) by (auto simp: list_all_iff stored_mutation_def)
  from Log_Replay_log_text [OF assms(1,3) this, of "[]"] show ?thesis
    by (simp add: map_decoded_stored [OF assms(2)])
qed

theorem Replay_logged_witness:
  "Log_Replay int_strconv (the (log_text int_strconv [sample_mutation, sample_mutation])) =
     ([sample_mutation, sample_mutation], True)"
proof (rule Replay_logged [OF int_strconv_ok])
  show "list_all stored_mutation [sample_mutation, sample_mutation]"
    by (simp add: stored_mutation_def sample_mutation_wf) (simp add: sample_mutation_def)
  show "log_text int_strconv [sample_mutation, sample_mutation] =
      Some (the (log_text int_strconv [sample_mutation, sample_mutation]))"
    using sample_line by auto
qed

text \<open>
  C10: streaming an intact log whose lines fit the scanner's buffer writes one \<open>arla_replay\<close>
  statement per mutation, in order and complete, reports the bytes written, and adds the
  number of mutations to the counter. A line of 64 KiB or more ends the stream with an error after the
  statements of the mutations before it.
\<close>

theorem WriteTo_logged:
  assumes "strconv_ok sc" and "list_all wf_mutation (ms @ rest)" and "log_text sc (ms @ rest) = Some t"
    and "\<forall>m \<in> set ms. length (mutation_text sc m) < 65536"
    and "rest \<noteq> [] \<longrightarrow> 65536 \<le> length (mutation_text sc (hd rest))"
  shows "Log_WriteTo buf_write (Some t) [] l =
    (let out = concat (map (\<lambda>m. replay_statement (mutation_text sc m)) ms) in
     ((int (length out), if rest = [] then None else Some ErrTooLong), out,
      l\<lparr>l_count := l_count l + int (length ms)\<rparr>))"
proof -
  have wf: "list_all wf_mutation ms" "list_all wf_mutation rest" using assms(2) by auto
  from assms(3) obtain tm tr where tm: "log_text sc ms = Some tm" and tr: "log_text sc rest = Some tr"
    and t: "t = tm @ tr"
    by (auto simp: log_text_append split: option.splits)
  obtain ls where len: "length ls = length ms" and tm': "tm = concat (map (\<lambda>l. l @ [CHR 0x0A]) ls)"
    and ls: "list_all (\<lambda>l. l \<noteq> [] \<and> clean l) ls"
    and enc: "\<forall>i < length ms. encode_line (mutation_tree sc (ms ! i)) = Inr (ls ! i @ [CHR 0x0A])"
    using log_text_lines [OF assms(1) tm wf(1)] by auto
  have lines: "map (mutation_text sc) ms = ls"
    by (rule nth_equalityI) (simp_all add: len enc encode_line_mutation_text)
  have "Scan tr = ([], rest = [])"
  proof (cases rest)
    case (Cons r rs)
    obtain l ls' where "tr = (l @ [CHR 0x0A]) @ concat (map (\<lambda>l. l @ [CHR 0x0A]) ls')" "clean l" "mutation_text sc r = l"
      using log_text_lines [OF assms(1) tr wf(2)] encode_line_mutation_text
      by (auto simp: Cons length_Suc_conv) (metis nth_Cons_0 zero_less_Suc)
    with assms(5) Cons show ?thesis by (simp add: Scan_too_long)
  qed (use tr in simp)
  moreover have "list_all (\<lambda>l. clean l \<and> length l < 65536) ls"
    using ls assms(4) by (auto simp: list_all_iff simp flip: lines)
  ultimately have "Scan t = (ls, rest = [])"
    using Scan_lines [of ls tr] by (simp add: t tm')
  moreover have "list_all (\<lambda>l. l \<noteq> []) ls" using ls by (auto simp: list_all_iff)
  ultimately show ?thesis
    by (simp add: Log_WriteTo_def WriteTo_loop_buf len Let_def comp_def flip: lines)
qed

definition small_mutation :: Mutation where
  "small_mutation = zero_mutation\<lparr>m_Name := ''a''\<rparr>"

lemma small_mutation_line:
  "mutation_tree sc small_mutation = Some (TObj [(''id'', TStr (UUID_String zero_uuid)), (''name'', TStr ''a'')])"
proof -
  have "escape ''a'' = ''a''" by (rule escape_plain) (simp add: key_char_def)
  then show ?thesis
    by (simp add: mutation_tree_def small_mutation_def zero_mutation_def mutation_members_def opt_field_def)
qed

lemma small_mutation_wf: "wf_mutation small_mutation"
proof -
  have "valid_utf8 ''a''" by code_simp
  then show ?thesis
    by (simp add: small_mutation_def zero_mutation_def wf_mutation_def wf_zero_uuid sorted_map_def)
qed

theorem WriteTo_logged_witness:
  "\<exists>t. log_text int_strconv [small_mutation] = Some t \<and>
    Log_WriteTo buf_write (Some t) [] \<lparr>l_filename = [], l_closed = False, l_count = 2\<rparr> =
      (let out = replay_statement (mutation_text int_strconv small_mutation) in
       ((int (length out), None), out, \<lparr>l_filename = [], l_closed = False, l_count = 3\<rparr>))"
proof -
  obtain line where "encode_line (mutation_tree int_strconv small_mutation) = Inr line"
    by (simp add: small_mutation_line encode_line_def)
  then have t: "log_text int_strconv ([small_mutation] @ []) = Some line" by simp
  have "length (mutation_text int_strconv small_mutation) < 65536"
    by (simp add: mutation_text_def small_mutation_line print_TObj print_member_def UUID_String_length wf_zero_uuid)
  with WriteTo_logged [OF int_strconv_ok _ t, where l = "\<lparr>l_filename = [], l_closed = False, l_count = 2\<rparr>"] t
  show ?thesis
    by (simp add: small_mutation_wf)
qed

text \<open>
  The statement written for a mutation denotes, as SQL, exactly its JSON text if and only if
  that text has no apostrophe; a mutation whose name has one is not streamed correctly.
\<close>

theorem replay_statement_denotes:
  assumes "mutation_tree sc m = Some t"
  shows "(sql_literal (drop (length replay_prefix) (replay_statement (mutation_text sc m))) =
       Some (mutation_text sc m, ''::json);'' @ [CHR 0x0A]) \<longleftrightarrow> CHR 0x27 \<notin> set (mutation_text sc m)) \<and>
    (CHR 0x27 \<in> set (m_Name m) \<longrightarrow> CHR 0x27 \<in> set (mutation_text sc m))"
  using name_apostrophe [OF assms] sql_literal_suffix
  by (simp add: replay_statement_def mutation_text_def assms)

theorem replay_statement_denotes_witness:
  "CHR 0x27 \<in> set (mutation_text int_strconv (zero_mutation\<lparr>m_Name := [CHR 0x27]\<rparr>))"
proof -
  have "\<exists>t. mutation_tree int_strconv (zero_mutation\<lparr>m_Name := [CHR 0x27]\<rparr>) = Some t"
    by (simp add: mutation_tree_def zero_mutation_def)
  then show ?thesis
    using replay_statement_denotes by fastforce
qed

end
