(* ===== verification/Log_Protocol.thy ===== *)
theory Log_Protocol
  imports Mutation_Log "HOL-Library.Sublist"
begin

text \<open>
  The concurrent side of \<open>arla/mutationstore/store.go\<close>: a step relation over the clients that call
  \<open>Write\<close>, the callers of \<open>Close\<close>, the writer goroutine and the channel between them, its
  invariants, and what they give: an acknowledged mutation is on disk, once, in the order of
  the channel, and survives a crash.
\<close>

section \<open>The concurrent protocol\<close>

text \<open>
  Every call is a process. A client goes through the statements of \<open>Write\<close>; the increment of
  the shared counter is a read and a later write. A closer goes through those of \<open>Close\<close>. The
  writer is the one goroutine that \<open>Open\<close> started. The channel holds up to 1000 requests and
  still delivers them after it was closed; the answer is handed over when both sides are there.
  A panic ends the call that caused it: the HTTP server recovers it.
\<close>

type_synonym request = "nat \<times> Mutation option"

datatype proc =
    PIdle
  | PCheck "Mutation option"
  | PSend "Mutation option"
  | PCount "Mutation option"
  | PInc "Mutation option" int
  | PWait "Mutation option"
  | PDone "Mutation option" "log_error option"
  | PPanic
  | KCheck
  | KSet
  | KClose
  | KDone

datatype writer_pc =
    WRecv
  | WWork nat "Mutation option"
  | WSync nat
  | WReply nat "log_error option" bool
  | WCheck
  | WStopped

text \<open>
  \<open>s_synced\<close> is the length of the part of the file that the last successful sync covered;
  \<open>s_sent\<close> and \<open>s_written\<close> record the requests in the order in which they entered the channel
  and the complete lines in the order in which they reached the file.
\<close>

record lstate =
  s_file :: string
  s_synced :: nat
  s_chan :: "request list"
  s_chan_closed :: bool
  s_closed :: bool
  s_count :: int
  s_writer :: writer_pc
  s_procs :: "nat \<Rightarrow> proc"
  s_sent :: "request list"
  s_written :: "(nat \<times> string) list"

definition set_proc :: "nat \<Rightarrow> proc \<Rightarrow> lstate \<Rightarrow> lstate" where
  "set_proc p st s = s\<lparr>s_procs := (s_procs s)(p := st)\<rparr>"

definition proc_start :: "proc \<Rightarrow> bool" where
  "proc_start st \<longleftrightarrow> st = PIdle \<or> st = KCheck \<or> (\<exists>m. st = PCheck m)"

definition log_init :: "string \<Rightarrow> (nat \<Rightarrow> proc) \<Rightarrow> lstate" where
  "log_init f procs = \<lparr>s_file = f, s_synced = length f, s_chan = [], s_chan_closed = False,
     s_closed = False, s_count = 0, s_writer = WRecv, s_procs = procs, s_sent = [], s_written = []\<rparr>"

text \<open>The statements of \<open>Write\<close>.\<close>

inductive client_step :: "lstate \<Rightarrow> lstate \<Rightarrow> bool" where
  check_closed: "s_procs s p = PCheck m \<Longrightarrow> s_closed s \<Longrightarrow>
     client_step s (set_proc p (PDone m (Some ClosedLog)) s)"
| check_open: "s_procs s p = PCheck m \<Longrightarrow> \<not> s_closed s \<Longrightarrow> client_step s (set_proc p (PSend m) s)"
| send: "s_procs s p = PSend m \<Longrightarrow> \<not> s_chan_closed s \<Longrightarrow> length (s_chan s) < 1000 \<Longrightarrow>
     client_step s (set_proc p (PCount m)
       (s\<lparr>s_chan := s_chan s @ [(p, m)], s_sent := s_sent s @ [(p, m)]\<rparr>))"
| send_panic: "s_procs s p = PSend m \<Longrightarrow> s_chan_closed s \<Longrightarrow> client_step s (set_proc p PPanic s)"
| count_read: "s_procs s p = PCount m \<Longrightarrow> client_step s (set_proc p (PInc m (s_count s)) s)"
| count_write: "s_procs s p = PInc m n \<Longrightarrow>
     client_step s (set_proc p (PWait m) (s\<lparr>s_count := n + 1\<rparr>))"

text \<open>The statements of \<open>Close\<close>.\<close>

inductive close_step :: "lstate \<Rightarrow> lstate \<Rightarrow> bool" where
  close_again: "s_procs s p = KCheck \<Longrightarrow> s_closed s \<Longrightarrow> close_step s (set_proc p KDone s)"
| close_first: "s_procs s p = KCheck \<Longrightarrow> \<not> s_closed s \<Longrightarrow> close_step s (set_proc p KSet s)"
| close_set: "s_procs s p = KSet \<Longrightarrow> close_step s (set_proc p KClose (s\<lparr>s_closed := True\<rparr>))"
| close_chan: "s_procs s p = KClose \<Longrightarrow> \<not> s_chan_closed s \<Longrightarrow>
     close_step s (set_proc p KDone (s\<lparr>s_chan_closed := True\<rparr>))"
| close_panic: "s_procs s p = KClose \<Longrightarrow> s_chan_closed s \<Longrightarrow> close_step s (set_proc p PPanic s)"

text \<open>The loop of \<open>writer\<close>; the write and the sync may fail.\<close>

inductive writer_step :: "strconv \<Rightarrow> lstate \<Rightarrow> lstate \<Rightarrow> bool" for sc where
  recv: "s_writer s = WRecv \<Longrightarrow> s_chan s = (p, m) # c \<Longrightarrow>
     writer_step sc s (s\<lparr>s_chan := c, s_writer := WWork p m\<rparr>)"
| recv_closed: "s_writer s = WRecv \<Longrightarrow> s_chan s = [] \<Longrightarrow> s_chan_closed s \<Longrightarrow>
     writer_step sc s (s\<lparr>s_writer := WStopped\<rparr>)"
| work_nil: "s_writer s = WWork p None \<Longrightarrow>
     writer_step sc s (s\<lparr>s_writer := WReply p (Some NilWal) False\<rparr>)"
| work_unsupported: "s_writer s = WWork p (Some m) \<Longrightarrow> encode_line (mutation_tree sc m) = Inl e \<Longrightarrow>
     writer_step sc s (s\<lparr>s_writer := WReply p (Some WalEncoding) False\<rparr>)"
| work_torn: "s_writer s = WWork p (Some m) \<Longrightarrow> encode_line (mutation_tree sc m) = Inr line \<Longrightarrow>
     writer_step sc s (s\<lparr>s_file := s_file s @ take n line, s_writer := WReply p (Some WalEncoding) False\<rparr>)"
| work_written: "s_writer s = WWork p (Some m) \<Longrightarrow> encode_line (mutation_tree sc m) = Inr line \<Longrightarrow>
     writer_step sc s (s\<lparr>s_file := s_file s @ line, s_written := s_written s @ [(p, line)], s_writer := WSync p\<rparr>)"
| sync_ok: "s_writer s = WSync p \<Longrightarrow>
     writer_step sc s (s\<lparr>s_synced := length (s_file s), s_writer := WReply p None True\<rparr>)"
| sync_failed: "s_writer s = WSync p \<Longrightarrow>
     writer_step sc s (s\<lparr>s_writer := WReply p (Some WalSync) False\<rparr>)"
| reply: "s_writer s = WReply p e go \<Longrightarrow> s_procs s p = PWait m \<Longrightarrow>
     writer_step sc s (set_proc p (PDone m e) (s\<lparr>s_writer := if go then WCheck else WStopped\<rparr>))"
| go_on: "s_writer s = WCheck \<Longrightarrow> \<not> s_closed s \<Longrightarrow> writer_step sc s (s\<lparr>s_writer := WRecv\<rparr>)"
| go_home: "s_writer s = WCheck \<Longrightarrow> s_closed s \<Longrightarrow> writer_step sc s (s\<lparr>s_writer := WStopped\<rparr>)"

definition log_step :: "strconv \<Rightarrow> lstate \<Rightarrow> lstate \<Rightarrow> bool" where
  "log_step sc s s' \<longleftrightarrow> client_step s s' \<or> close_step s s' \<or> writer_step sc s s'"

inductive log_reach :: "strconv \<Rightarrow> lstate \<Rightarrow> lstate \<Rightarrow> bool" for sc s0 where
  start: "log_reach sc s0 s0"
| step: "log_reach sc s0 s \<Longrightarrow> log_step sc s s' \<Longrightarrow> log_reach sc s0 s'"

inductive_cases client_stepE: "client_step s s'"
inductive_cases close_stepE: "close_step s s'"
inductive_cases writer_stepE: "writer_step sc s s'"

lemma log_stepE [consumes 1, case_names client close writer]:
  assumes "log_step sc s s'"
  obtains "client_step s s'" | "close_step s s'" | "writer_step sc s s'"
  using assms by (auto simp: log_step_def)

section \<open>Requests and processes\<close>

fun proc_request :: "proc \<Rightarrow> Mutation option option" where
  "proc_request (PCount m) = Some m"
| "proc_request (PInc m n) = Some m"
| "proc_request (PWait m) = Some m"
| "proc_request (PDone m e) = (if e = Some ClosedLog then None else Some m)"
| "proc_request _ = None"

text \<open>A request is in the channel's history exactly when its client is past the send.\<close>

definition inv_procs :: "lstate \<Rightarrow> bool" where
  "inv_procs s \<longleftrightarrow> distinct (map fst (s_sent s)) \<and>
     (\<forall>p m. proc_request (s_procs s p) = Some m \<longleftrightarrow> (p, m) \<in> set (s_sent s))"

text \<open>The writer never answers \<open>ClosedLog\<close>, and goes on only after a success.\<close>

definition inv_reply :: "lstate \<Rightarrow> bool" where
  "inv_reply s \<longleftrightarrow> (\<forall>p e go. s_writer s = WReply p e go \<longrightarrow> e \<noteq> Some ClosedLog \<and> (go \<longleftrightarrow> e = None))"

text \<open>What the writer has taken out of the channel, and how much of it is on the file.\<close>

fun taken_ok :: "writer_pc \<Rightarrow> nat list \<Rightarrow> nat list \<Rightarrow> bool" where
  "taken_ok (WWork p m) taken written \<longleftrightarrow> taken = written @ [p]"
| "taken_ok (WSync p) taken written \<longleftrightarrow> taken = written \<and> written \<noteq> [] \<and> last written = p"
| "taken_ok (WReply p e go) taken written \<longleftrightarrow> taken \<noteq> [] \<and> last taken = p \<and>
     (if e = None then taken = written else prefix written taken)"
| "taken_ok WStopped taken written \<longleftrightarrow> prefix written taken"
| "taken_ok _ taken written \<longleftrightarrow> taken = written"

definition inv_queue :: "lstate \<Rightarrow> bool" where
  "inv_queue s \<longleftrightarrow> (\<exists>taken. s_sent s = taken @ s_chan s \<and>
     taken_ok (s_writer s) (map fst taken) (map fst (s_written s)) \<and>
     (\<forall>p m. s_writer s = WWork p m \<longrightarrow> taken \<noteq> [] \<and> last taken = (p, m)))"

definition inv_lines :: "strconv \<Rightarrow> lstate \<Rightarrow> bool" where
  "inv_lines sc s \<longleftrightarrow> (\<forall>(p, line) \<in> set (s_written s).
     \<exists>m. (p, Some m) \<in> set (s_sent s) \<and> encode_line (mutation_tree sc m) = Inr line)"

definition inv_file :: "string \<Rightarrow> lstate \<Rightarrow> bool" where
  "inv_file f0 s \<longleftrightarrow> (\<exists>torn. s_file s = f0 @ concat (map snd (s_written s)) @ torn \<and>
     (torn \<noteq> [] \<longrightarrow> s_writer s = WStopped \<or> (\<exists>p e. s_writer s = WReply p (Some e) False)))"

text \<open>The bytes of the file up to and including the line of a request.\<close>

definition covered :: "string \<Rightarrow> nat \<Rightarrow> lstate \<Rightarrow> bool" where
  "covered f0 p s \<longleftrightarrow> (\<exists>before line after. s_written s = before @ (p, line) # after \<and>
     length (f0 @ concat (map snd before) @ line) \<le> s_synced s)"

definition inv_synced :: "string \<Rightarrow> lstate \<Rightarrow> bool" where
  "inv_synced f0 s \<longleftrightarrow> s_synced s \<le> length (s_file s) \<and>
     (\<forall>p go. s_writer s = WReply p None go \<longrightarrow> covered f0 p s) \<and>
     (\<forall>p m. s_procs s p = PDone m None \<longrightarrow> covered f0 p s)"

definition log_inv :: "strconv \<Rightarrow> string \<Rightarrow> lstate \<Rightarrow> bool" where
  "log_inv sc f0 s \<longleftrightarrow> inv_procs s \<and> inv_reply s \<and> inv_queue s \<and> inv_lines sc s \<and> inv_file f0 s \<and> inv_synced f0 s"

lemma set_proc_simps [simp]:
  "s_file (set_proc p st s) = s_file s" "s_synced (set_proc p st s) = s_synced s"
  "s_chan (set_proc p st s) = s_chan s" "s_chan_closed (set_proc p st s) = s_chan_closed s"
  "s_closed (set_proc p st s) = s_closed s" "s_count (set_proc p st s) = s_count s"
  "s_writer (set_proc p st s) = s_writer s" "s_procs (set_proc p st s) = (s_procs s)(p := st)"
  "s_sent (set_proc p st s) = s_sent s" "s_written (set_proc p st s) = s_written s"
  by (simp_all add: set_proc_def)

lemma log_init_inv:
  assumes "\<forall>p. proc_start (procs p)"
  shows "log_inv sc f (log_init f procs)"
proof -
  have "proc_request (procs p) = None \<and> (\<forall>m. procs p \<noteq> PDone m None)" for p
    using assms [rule_format, of p] by (auto simp: proc_start_def)
  then show ?thesis
    by (simp add: log_inv_def log_init_def inv_procs_def inv_reply_def inv_queue_def inv_lines_def
        inv_file_def inv_synced_def)
qed

text \<open>Each kind of step keeps each part of the invariant.\<close>

lemma inv_procs_same:
  "inv_procs s \<Longrightarrow> s_procs s' = (s_procs s)(p := st) \<Longrightarrow> s_sent s' = s_sent s \<Longrightarrow>
     proc_request st = proc_request (s_procs s p) \<Longrightarrow> inv_procs s'"
  unfolding inv_procs_def by (metis fun_upd_apply)

lemma inv_procs_send:
  assumes "inv_procs s" and "proc_request (s_procs s p) = None"
    and "s_procs s' = (s_procs s)(p := st)" and "proc_request st = Some m" and "s_sent s' = s_sent s @ [(p, m)]"
  shows "inv_procs s'"
proof -
  have "p \<notin> fst ` set (s_sent s)"
    using assms(1,2) by (force simp: inv_procs_def)
  with assms show ?thesis
    by (auto simp: inv_procs_def image_iff)
qed

lemma inv_procs_step [inv_intros]:
  assumes "log_step sc s s'" and "inv_procs s" and "inv_reply s"
  shows "inv_procs s'"
  using assms(1)
proof (cases rule: log_stepE)
  case client
  then show ?thesis
  proof (cases rule: client_step.cases)
    case (send p m)
    with assms(2) show ?thesis
      by (intro inv_procs_send [of s p s' "PCount m" m]) simp_all
  qed (use assms(2) in \<open>auto elim!: inv_procs_same\<close>)
next
  case close
  then show ?thesis
    using assms(2) by (cases rule: close_step.cases) (auto elim!: inv_procs_same)
next
  case writer
  then show ?thesis
  proof (cases rule: writer_step.cases)
    case (reply p e go m)
    with assms(2,3) show ?thesis
      by (auto simp: inv_reply_def elim!: inv_procs_same)
  qed (use assms(2) in \<open>simp_all add: inv_procs_def\<close>)
qed

lemma inv_reply_step [inv_intros]: "log_step sc s s' \<Longrightarrow> inv_reply s \<Longrightarrow> inv_reply s'"
  by (erule log_stepE; erule client_step.cases close_step.cases writer_step.cases)
    (auto simp: inv_reply_def split: if_splits)

lemma inv_queue_step [inv_intros]: 
  assumes "log_step sc s s'" and "inv_queue s" and "inv_reply s"
  shows "inv_queue s'"
  using assms(1)
proof (cases rule: log_stepE)
  case client
  then show ?thesis
    using assms(2) by (cases rule: client_step.cases) (auto simp: inv_queue_def)
next
  case close
  then show ?thesis
    using assms(2) by (cases rule: close_step.cases) (auto simp: inv_queue_def)
next
  case writer
  then show ?thesis
    using assms(2,3)
  proof (cases rule: writer_step.cases)
    case (recv p m c)
    with assms(2) obtain taken where "s_sent s = taken @ (p, m) # c" "map fst taken = map fst (s_written s)"
      by (auto simp: inv_queue_def)
    with recv show ?thesis
      by (auto simp: inv_queue_def intro!: exI [of _ "taken @ [(p, m)]"])
  qed (auto simp: inv_queue_def inv_reply_def last_map split: if_splits)
qed

lemma inv_lines_step [inv_intros]:
  assumes "log_step sc s s'" and "inv_lines sc s" and "inv_queue s"
  shows "inv_lines sc s'"
  using assms(1)
proof (cases rule: log_stepE)
  case client
  then show ?thesis
    using assms(2) by (cases rule: client_step.cases) (auto simp: inv_lines_def)
next
  case close
  then show ?thesis
    using assms(2) by (cases rule: close_step.cases) (auto simp: inv_lines_def)
next
  case writer
  then show ?thesis
  proof (cases rule: writer_step.cases)
    case (work_written p m line)
    with assms(3) obtain taken where "s_sent s = taken @ s_chan s" "taken \<noteq> []" "last taken = (p, Some m)"
      by (auto simp: inv_queue_def)
    then have "(p, Some m) \<in> set (s_sent s)"
      by (metis Un_iff last_in_set set_append)
    with work_written assms(2) show ?thesis
      by (auto simp: inv_lines_def)
  qed (use assms(2) in \<open>auto simp: inv_lines_def\<close>)
qed

lemma inv_file_step [inv_intros]:
  assumes "log_step sc s s'" and "inv_file f0 s" and "inv_reply s"
  shows "inv_file f0 s'"
  using assms(1)
proof (cases rule: log_stepE)
  case client
  then show ?thesis
    using assms(2) by (cases rule: client_step.cases) (auto simp: inv_file_def)
next
  case close
  then show ?thesis
    using assms(2) by (cases rule: close_step.cases) (auto simp: inv_file_def)
next
  case writer
  then show ?thesis
    using assms(2,3) by (cases rule: writer_step.cases) (auto simp: inv_file_def inv_reply_def)
qed

lemma covered_mono:
  "covered f0 p s \<Longrightarrow> s_written s' = s_written s @ ws \<Longrightarrow> s_synced s \<le> s_synced s' \<Longrightarrow> covered f0 p s'"
  by (fastforce simp: covered_def)

lemma covered_last:
  assumes "inv_file f0 s" and "s_writer s = WSync p" and "inv_queue s"
    and "s_written s' = s_written s" and "s_synced s' = length (s_file s)"
  shows "covered f0 p s'"
proof -
  from assms(2,3) have "s_written s \<noteq> []" and "fst (last (s_written s)) = p"
    by (auto simp: inv_queue_def last_map)
  then obtain before line where w: "s_written s = before @ [(p, line)]"
    by (metis append_butlast_last_id prod.collapse)
  with assms(1,4,5) show ?thesis
    by (auto simp: covered_def inv_file_def intro!: exI [of _ before])
qed

lemma inv_synced_step [inv_intros]:
  assumes "log_step sc s s'" and "inv_synced f0 s" and "inv_file f0 s" and "inv_queue s" and "inv_reply s"
  shows "inv_synced f0 s'"
proof -
  have mono: "\<exists>ws. s_written s' = s_written s @ ws" "s_synced s \<le> s_synced s'" "s_synced s' \<le> length (s_file s')"
    using assms(1,2)
    by (auto simp: inv_synced_def elim!: log_stepE client_step.cases close_step.cases writer_step.cases)
  then have keep: "covered f0 p s'" if "covered f0 p s" for p
    using that covered_mono by blast
  have "covered f0 p s'" if "s_writer s' = WReply p None go" for p go
    using assms(1,2) that keep covered_last [OF assms(3) _ assms(4), of p s']
    by (auto simp: inv_synced_def elim!: log_stepE client_step.cases close_step.cases writer_step.cases
        split: if_splits)
  moreover have "covered f0 p s'" if "s_procs s' p = PDone m None" for p m
    using assms(1,2) that keep
    by (auto simp: inv_synced_def elim!: log_stepE client_step.cases close_step.cases writer_step.cases
        split: if_splits)
  ultimately show ?thesis
    using mono by (simp add: inv_synced_def)
qed

lemma log_inv_step [inv_intros]: "log_step sc s s' \<Longrightarrow> log_inv sc f0 s \<Longrightarrow> log_inv sc f0 s'"
  unfolding log_inv_def by (blast intro: inv_intros)

lemma log_inv_reach:
  "log_reach sc s0 s \<Longrightarrow> log_inv sc f0 s0 \<Longrightarrow> log_inv sc f0 s"
  by (induction rule: log_reach.induct) (auto intro: log_inv_step)

lemma written_prefix_sent: "log_inv sc f0 s \<Longrightarrow> prefix (map fst (s_written s)) (map fst (s_sent s))"
  by (cases "s_writer s") (auto simp: log_inv_def inv_queue_def prefix_def split: if_splits)

section \<open>Answers\<close>

definition waiting :: "proc \<Rightarrow> bool" where
  "waiting st \<longleftrightarrow> (\<exists>m n. st \<in> {PCount m, PInc m n, PWait m})"

fun working_on :: "writer_pc \<Rightarrow> nat option" where
  "working_on (WWork p m) = Some p"
| "working_on (WSync p) = Some p"
| "working_on (WReply p e go) = Some p"
| "working_on _ = None"

text \<open>
  While the writer runs, a client that waits has its request in the channel or in the writer's
  hands, and the writer works only for clients that wait.
\<close>

definition inv_waiting :: "lstate \<Rightarrow> bool" where
  "inv_waiting s \<longleftrightarrow>
     (\<forall>p \<in> fst ` set (s_chan s). waiting (s_procs s p)) \<and> distinct (map fst (s_chan s)) \<and>
     (\<forall>p. working_on (s_writer s) = Some p \<longrightarrow> waiting (s_procs s p) \<and> p \<notin> fst ` set (s_chan s)) \<and>
     (s_writer s \<noteq> WStopped \<longrightarrow> (\<forall>p. waiting (s_procs s p) \<longrightarrow>
        p \<in> fst ` set (s_chan s) \<or> working_on (s_writer s) = Some p))"

lemma waiting_simps [simp]:
  "waiting (PCount m)" "waiting (PInc m n)" "waiting (PWait m)" "\<not> waiting (PCheck m)" "\<not> waiting (PSend m)"
  "\<not> waiting (PDone m e)" "\<not> waiting PPanic" "\<not> waiting PIdle" "\<not> waiting KCheck" "\<not> waiting KSet"
  "\<not> waiting KClose" "\<not> waiting KDone"
  by (auto simp: waiting_def)

lemma inv_waiting_init: "\<forall>p. proc_start (procs p) \<Longrightarrow> inv_waiting (log_init f procs)"
  by (auto simp: inv_waiting_def log_init_def proc_start_def) (metis waiting_simps(4,8,9))

lemma inv_waiting_step [inv_intros]:
  assumes "log_step sc s s'" and "inv_waiting s"
  shows "inv_waiting s'"
  using assms(1)
proof (cases rule: log_stepE)
  case client
  then show ?thesis
  proof (cases rule: client_step.cases)
    case (send p m)
    then have "\<not> waiting (s_procs s p)" by simp
    with send assms(2) show ?thesis
      by (auto simp: inv_waiting_def)
  qed (use assms(2) in \<open>auto simp: inv_waiting_def\<close>)
next
  case close
  then show ?thesis
    using assms(2) by (cases rule: close_step.cases) (auto simp: inv_waiting_def)
next
  case writer
  then show ?thesis
    using assms(2) by (cases rule: writer_step.cases) (auto simp: inv_waiting_def)
qed

lemma inv_waiting_reach: "log_reach sc s0 s \<Longrightarrow> inv_waiting s0 \<Longrightarrow> inv_waiting s"
  by (induction rule: log_reach.induct) (auto intro: inv_waiting_step)

lemma writer_can_move:
  assumes "inv_waiting s" and "waiting (s_procs s p)" and "s_writer s \<noteq> WStopped"
  shows "\<exists>s'. log_step sc s s'"
proof (cases "s_writer s")
  case WRecv
  with assms obtain q m c where "s_chan s = (q, m) # c"
    by (cases "s_chan s") (auto simp: inv_waiting_def)
  with WRecv show ?thesis by (auto simp: log_step_def intro: writer_step.recv)
next
  case (WWork q m)
  show ?thesis
  proof (cases m)
    case None
    with WWork show ?thesis by (auto simp: log_step_def intro: writer_step.work_nil)
  next
    case (Some m')
    with WWork show ?thesis
      by (cases "encode_line (mutation_tree sc m')")
        (auto simp: log_step_def intro: writer_step.work_unsupported writer_step.work_written)
  qed
next
  case (WSync q)
  then show ?thesis by (auto simp: log_step_def intro: writer_step.sync_ok)
next
  case (WReply q e go)
  with assms(1) have "waiting (s_procs s q)" by (simp add: inv_waiting_def)
  then show ?thesis
    using WReply unfolding waiting_def log_step_def
    by (auto intro: client_step.count_read client_step.count_write writer_step.reply)
next
  case WCheck
  then show ?thesis
    by (cases "s_closed s") (auto simp: log_step_def intro: writer_step.go_on writer_step.go_home)
next
  case WStopped
  with assms(3) show ?thesis by simp
qed

text \<open>Once the writer has stopped, or is about to, nobody is answered any more.\<close>

definition dead :: "lstate \<Rightarrow> bool" where
  "dead s \<longleftrightarrow> s_writer s = WStopped \<or> s_writer s = WCheck \<and> s_closed s"

lemma dead_step:
  "log_step sc s s' \<Longrightarrow> dead s \<Longrightarrow> dead s' \<and> s_file s' = s_file s \<and> (waiting (s_procs s p) \<longrightarrow> waiting (s_procs s' p))"
  by (auto simp: dead_def elim!: log_stepE client_step.cases close_step.cases writer_step.cases)

lemma dead_reach:
  "log_reach sc s s' \<Longrightarrow> dead s \<Longrightarrow> dead s' \<and> s_file s' = s_file s \<and> (waiting (s_procs s p) \<longrightarrow> waiting (s_procs s' p))"
proof (induction rule: log_reach.induct)
  case (step s1 s2)
  then show ?case using dead_step [of sc s1 s2 p] by auto
qed simp

section \<open>A run\<close>

text \<open>One client writes one mutation on a working disk.\<close>

definition lone_client :: "Mutation \<Rightarrow> nat \<Rightarrow> proc" where
  "lone_client m p = (if p = 0 then PCheck (Some m) else PIdle)"

definition lone_final :: "string \<Rightarrow> Mutation \<Rightarrow> string \<Rightarrow> lstate" where
  "lone_final f m line = \<lparr>s_file = f @ line, s_synced = length (f @ line), s_chan = [],
     s_chan_closed = False, s_closed = False, s_count = 1, s_writer = WCheck,
     s_procs = (lone_client m)(0 := PDone (Some m) None), s_sent = [(0, Some m)], s_written = [(0, line)]\<rparr>"

definition lone_waiting :: "string \<Rightarrow> Mutation \<Rightarrow> lstate" where
  "lone_waiting f m = \<lparr>s_file = f, s_synced = length f, s_chan = [(0, Some m)], s_chan_closed = False,
     s_closed = False, s_count = 1, s_writer = WRecv, s_procs = (lone_client m)(0 := PWait (Some m)),
     s_sent = [(0, Some m)], s_written = []\<rparr>"

lemma log_reach_trans: "log_reach sc s1 s2 \<Longrightarrow> log_reach sc s0 s1 \<Longrightarrow> log_reach sc s0 s2"
  by (induction rule: log_reach.induct) (auto intro: log_reach.step)

lemma log_reach_client: "client_step s s' \<Longrightarrow> log_reach sc s s'"
  by (rule log_reach.step [OF log_reach.start]) (simp add: log_step_def)

lemma log_reach_writer: "writer_step sc s s' \<Longrightarrow> log_reach sc s s'"
  by (rule log_reach.step [OF log_reach.start]) (simp add: log_step_def)

lemma lone_sent: "log_reach sc (log_init f (lone_client m)) (lone_waiting f m)"
proof -
  let ?s0 = "log_init f (lone_client m)"
  let ?s1 = "set_proc 0 (PSend (Some m)) ?s0"
  let ?s2 = "set_proc 0 (PCount (Some m)) (?s1\<lparr>s_chan := s_chan ?s1 @ [(0, Some m)], s_sent := s_sent ?s1 @ [(0, Some m)]\<rparr>)"
  let ?s3 = "set_proc 0 (PInc (Some m) (s_count ?s2)) ?s2"
  let ?s4 = "set_proc 0 (PWait (Some m)) (?s3\<lparr>s_count := s_count ?s2 + 1\<rparr>)"
  have "log_reach sc ?s0 ?s1"
    by (intro log_reach_client client_step.check_open) (simp_all add: log_init_def lone_client_def)
  moreover have "log_reach sc ?s1 ?s2"
    by (intro log_reach_client client_step.send) (simp_all add: log_init_def lone_client_def)
  moreover have "log_reach sc ?s2 ?s3"
    by (intro log_reach_client client_step.count_read) simp
  moreover have "log_reach sc ?s3 ?s4"
    by (intro log_reach_client client_step.count_write) simp
  ultimately have "log_reach sc ?s0 ?s4"
    by (meson log_reach_trans)
  moreover have "?s4 = lone_waiting f m"
    by (simp add: log_init_def set_proc_def lone_waiting_def)
  ultimately show ?thesis by simp
qed

lemma lone_run:
  assumes "encode_line (mutation_tree sc m) = Inr line"
  shows "log_reach sc (log_init f (lone_client m)) (lone_final f m line)"
proof -
  let ?s = "lone_waiting f m"
  let ?s1 = "?s\<lparr>s_chan := [], s_writer := WWork 0 (Some m)\<rparr>"
  let ?s2 = "?s1\<lparr>s_file := s_file ?s1 @ line, s_written := s_written ?s1 @ [(0, line)], s_writer := WSync 0\<rparr>"
  let ?s3 = "?s2\<lparr>s_synced := length (s_file ?s2), s_writer := WReply 0 None True\<rparr>"
  let ?s4 = "set_proc 0 (PDone (Some m) None) (?s3\<lparr>s_writer := if True then WCheck else WStopped\<rparr>)"
  have "log_reach sc ?s ?s1"
    by (intro log_reach_writer writer_step.recv) (simp_all add: lone_waiting_def)
  moreover have "log_reach sc ?s1 ?s2"
    by (rule log_reach_writer, rule writer_step.work_written [where m = m]) (simp_all add: assms)
  moreover have "log_reach sc ?s2 ?s3"
    by (intro log_reach_writer writer_step.sync_ok) simp
  moreover have "log_reach sc ?s3 ?s4"
    by (rule log_reach_writer) (rule writer_step.reply, simp_all add: lone_waiting_def)
  ultimately have "log_reach sc ?s ?s4"
    by (meson log_reach_trans)
  moreover have "?s4 = lone_final f m line"
    by (simp add: lone_waiting_def lone_final_def set_proc_def)
  ultimately show ?thesis
    using lone_sent log_reach_trans by metis
qed

lemma lone_client_start: "\<forall>p. proc_start (lone_client m p)"
  by (simp add: lone_client_def proc_start_def)

section \<open>Properties\<close>

text \<open>
  C3: when \<open>Write\<close> has returned nil, the line of the mutation is in the file exactly once, and
  whatever a crash leaves of the file, as long as it keeps what was synced, still starts with
  everything up to and including that line.
\<close>

theorem acked_is_durable:
  assumes "\<forall>p. proc_start (procs p)" and "log_reach sc (log_init f0 procs) s"
    and "s_procs s p = PDone r None"
  shows "\<exists>m line before after. r = Some m \<and> encode_line (mutation_tree sc m) = Inr line \<and>
    s_written s = before @ (p, line) # after \<and> p \<notin> fst ` set (before @ after) \<and>
    (\<forall>crash. prefix crash (s_file s) \<and> s_synced s \<le> length crash \<longrightarrow>
       prefix (f0 @ concat (map snd before) @ line) crash)"
proof -
  have inv: "log_inv sc f0 s"
    using log_inv_reach [OF assms(2) log_init_inv [OF assms(1)]] .
  with assms(3) obtain before line after where w: "s_written s = before @ (p, line) # after"
    and len: "length (f0 @ concat (map snd before) @ line) \<le> s_synced s"
    by (auto simp: log_inv_def inv_synced_def covered_def)
  have sent: "(p, r) \<in> set (s_sent s)" "distinct (map fst (s_sent s))"
    using inv assms(3) unfolding log_inv_def inv_procs_def by (metis option.distinct(1) proc_request.simps(4))+
  from inv w obtain m where "(p, Some m) \<in> set (s_sent s)" and line: "encode_line (mutation_tree sc m) = Inr line"
    by (auto simp: log_inv_def inv_lines_def)
  with sent have r: "r = Some m"
    by (metis eq_key_imp_eq_value)
  have "distinct (map fst (s_written s))"
    using written_prefix_sent [OF inv] sent(2) by (metis distinct_append prefix_def)
  with w have once: "p \<notin> fst ` set (before @ after)" by auto
  have "prefix (f0 @ concat (map snd before) @ line) crash"
    if "prefix crash (s_file s)" "s_synced s \<le> length crash" for crash
  proof -
    have "prefix (f0 @ concat (map snd before) @ line) (s_file s)"
      using inv w by (auto simp: log_inv_def inv_file_def)
    then show ?thesis
      by (rule prefix_length_prefix) (use that len in auto)
  qed
  with r line w once show ?thesis by blast
qed

theorem acked_is_durable_witness:
  "\<exists>m line before after. Some sample_mutation = Some m \<and> encode_line (mutation_tree int_strconv m) = Inr line \<and>
    s_written (lone_final ''old'' sample_mutation line) = before @ (0, line) # after"
proof -
  obtain line where line: "encode_line (mutation_tree int_strconv sample_mutation) = Inr line"
    using sample_line ..
  have "s_procs (lone_final ''old'' sample_mutation line) 0 = PDone (Some sample_mutation) None"
    by (simp add: lone_final_def)
  from acked_is_durable [OF lone_client_start lone_run [OF line] this] line show ?thesis
    by fastforce
qed



text \<open>
  C13: as long as the writer runs, a client that waits for its answer is never in a deadlock:
  some step of the protocol is possible.
\<close>

theorem log_no_deadlock:
  assumes "\<forall>p. proc_start (procs p)" and "log_reach sc (log_init f0 procs) s"
    and "waiting (s_procs s p)" and "s_writer s \<noteq> WStopped"
  shows "\<exists>s'. log_step sc s s'"
  using writer_can_move [OF inv_waiting_reach [OF assms(2) inv_waiting_init [OF assms(1)]] assms(3,4)] .

theorem log_no_deadlock_witness:
  "waiting (s_procs (lone_waiting [] sample_mutation) 0) \<and>
   (\<exists>s'. log_step int_strconv (lone_waiting [] sample_mutation) s')"
proof -
  have "log_reach int_strconv (log_init [] (lone_client sample_mutation)) (lone_waiting [] sample_mutation)"
    by (rule lone_sent)
  moreover have "waiting (s_procs (lone_waiting [] sample_mutation) 0)"
    "s_writer (lone_waiting [] sample_mutation) \<noteq> WStopped"
    by (simp_all add: lone_waiting_def)
  ultimately show ?thesis
    using log_no_deadlock [OF lone_client_start] by blast
qed



end
