(* ===== verification/Go_Base64.thy ===== *)
theory Go_Base64
  imports Go_Strings
begin

text \<open>
  Go's \<open>encoding/base64\<close> over an alphabet of 64 characters: padded encoding, and the decoder,
  which drops line breaks and accepts padding only at the end. JSON web tokens use the URL
  alphabet, bcrypt its own.
\<close>

section \<open>Encoding and decoding\<close>

abbreviation pad :: char where
  "pad \<equiv> CHR ''=''"

fun b64_encode :: "string \<Rightarrow> bytes \<Rightarrow> string" where
  "b64_encode alph [] = []"
| "b64_encode alph [a] = [alph ! (unat a div 4), alph ! (unat a mod 4 * 16), pad, pad]"
| "b64_encode alph [a, b] =
     [alph ! (unat a div 4), alph ! (unat a mod 4 * 16 + unat b div 16), alph ! (unat b mod 16 * 4), pad]"
| "b64_encode alph (a # b # c # bs) =
     alph ! (unat a div 4) # alph ! (unat a mod 4 * 16 + unat b div 16) #
     alph ! (unat b mod 16 * 4 + unat c div 64) # alph ! (unat c mod 64) # b64_encode alph bs"

fun b64_index :: "string \<Rightarrow> char \<Rightarrow> nat option" where
  "b64_index [] c = None"
| "b64_index (a # as) c = (if a = c then Some 0 else map_option Suc (b64_index as c))"

fun b64_decode_quanta :: "string \<Rightarrow> string \<Rightarrow> bytes option" where
  "b64_decode_quanta alph [] = Some []"
| "b64_decode_quanta alph (c0 # c1 # c2 # c3 # cs) =
     (case (b64_index alph c0, b64_index alph c1) of
        (Some v0, Some v1) \<Rightarrow>
          if c2 = pad then
            (if c3 = pad \<and> cs = [] then Some [word_of_nat (v0 * 4 + v1 div 16)] else None)
          else
            (case b64_index alph c2 of
               None \<Rightarrow> None
             | Some v2 \<Rightarrow>
                 if c3 = pad then
                   (if cs = [] then
                      Some [word_of_nat (v0 * 4 + v1 div 16), word_of_nat (v1 mod 16 * 16 + v2 div 4)]
                    else None)
                 else
                   (case b64_index alph c3 of
                      None \<Rightarrow> None
                    | Some v3 \<Rightarrow>
                        map_option (\<lambda>bs. word_of_nat (v0 * 4 + v1 div 16) # word_of_nat (v1 mod 16 * 16 + v2 div 4) #
                            word_of_nat (v2 mod 4 * 64 + v3) # bs)
                          (b64_decode_quanta alph cs)))
      | _ \<Rightarrow> None)"
| "b64_decode_quanta alph _ = None"

definition b64_decode :: "string \<Rightarrow> string \<Rightarrow> bytes option" where
  "b64_decode alph s = b64_decode_quanta alph (filter (\<lambda>c. code c \<noteq> 10 \<and> code c \<noteq> 13) s)"

definition url_alphabet :: string where
  "url_alphabet = ''ABCDEFGHIJKLMNOPQRSTUVWXYZabcdefghijklmnopqrstuvwxyz0123456789-_''"

section \<open>Alphabets\<close>

lemma triple_induct [case_names Nil one two more]:
  assumes "P []" and "\<And>a. P [a]" and "\<And>a b. P [a, b]" and "\<And>a b c bs. P bs \<Longrightarrow> P (a # b # c # bs)"
  shows "P (bs :: bytes)"
  using assms by (rule b64_encode.induct [of "\<lambda>_. P" "[]"])

lemma sextets:
  "unat (a::byte) div 4 < 64" "unat a mod 4 * 16 < 64" "unat a mod 16 * 4 < 64" "unat a mod 64 < 64"
  "unat a mod 4 * 16 + unat (b::byte) div 16 < 64" "unat a mod 16 * 4 + unat b div 64 < 64"
proof -
  show "unat a div 4 < 64" "unat a mod 4 * 16 < 64" "unat a mod 16 * 4 < 64" "unat a mod 64 < 64"
    using unat_byte_less [of a] by (simp_all add: div_less_iff_less_mult; linarith?)+
  have "unat b div 16 < 16" "unat b div 64 < 4"
    using unat_byte_less [of b] by (simp_all add: div_less_iff_less_mult)
  then show "unat a mod 4 * 16 + unat b div 16 < 64" "unat a mod 16 * 4 + unat b div 64 < 64"
    using mod_less_divisor [of 4 "unat a"] mod_less_divisor [of 16 "unat a"] by linarith+
qed

text \<open>Putting the sextets together again.\<close>

lemma join_bytes:
  "word_of_nat (unat a div 4 * 4 + (unat a mod 4 * 16 + y) div 16) = (a::byte)" if "y < 16" for y
  using that by (simp add: div_add1_eq)

lemma join_bytes2:
  "word_of_nat ((x * 16 + unat b div 16) mod 16 * 16 + (unat b mod 16 * 4 + z) div 4) = (b::byte)" if "z < 4" for z
proof -
  have "unat b div 16 < 16" using unat_byte_less [of b] by (simp add: div_less_iff_less_mult)
  then have "(x * 16 + unat b div 16) mod 16 = unat b div 16" by simp
  then show ?thesis using that by (simp add: div_add1_eq)
qed

lemma join_bytes3:
  "word_of_nat ((y * 4 + unat c div 64) mod 4 * 64 + unat c mod 64) = (c::byte)"
proof -
  have "unat c div 64 < 4" using unat_byte_less [of c] by (simp add: div_less_iff_less_mult)
  then have "(y * 4 + unat c div 64) mod 4 = unat c div 64" by simp
  then show ?thesis by simp
qed

text \<open>
  What an alphabet has to provide: 64 different characters, none of them the padding or a line
  break. The round trip of the encoding holds for every such alphabet.
\<close>

locale base64_alphabet =
  fixes alph :: string
  assumes length_alph: "length alph = 64"
    and distinct_alph: "distinct alph"
    and alph_chars: "list_all (\<lambda>c. c \<noteq> pad \<and> code c \<noteq> 10 \<and> code c \<noteq> 13) alph"
begin

lemma alph_nth: "i < 64 \<Longrightarrow> alph ! i \<noteq> pad \<and> code (alph ! i) \<noteq> 10 \<and> code (alph ! i) \<noteq> 13"
  using alph_chars length_alph by (simp add: list_all_length)

lemma alph_not_pad: "i < 64 \<Longrightarrow> pad \<noteq> alph ! i" "i < 64 \<Longrightarrow> alph ! i \<noteq> pad"
  using alph_nth [of i] by auto

lemma index_nth: "distinct as \<Longrightarrow> i < length as \<Longrightarrow> b64_index as (as ! i) = Some i"
  by (induction as arbitrary: i) (auto simp: nth_Cons split: nat.splits)

lemma index_alph [simp]: "i < 64 \<Longrightarrow> b64_index alph (alph ! i) = Some i"
  using index_nth distinct_alph length_alph by simp

lemma index_pad: "b64_index alph pad = None"
proof -
  have "b64_index as c = None" if "c \<notin> set as" for as c
    using that by (induction as) auto
  then show ?thesis
    using alph_chars by (auto simp: list_all_iff)
qed

lemma encode_chars: "c \<in> set (b64_encode alph bs) \<Longrightarrow> c = pad \<or> (\<exists>i < 64. c = alph ! i)"
  by (induction bs rule: triple_induct) (auto intro: sextets)

lemma quanta_encode: "b64_decode_quanta alph (b64_encode alph bs) = Some bs"
proof (induction bs rule: triple_induct)
  case (one a)
  show ?case
    using join_bytes [of 0 a] by (simp add: sextets)
next
  case (two a b)
  have "unat b div 16 < 16" using unat_byte_less [of b] by (simp add: div_less_iff_less_mult)
  then show ?case
    using join_bytes [of "unat b div 16" a] join_bytes2 [of 0 "unat a mod 4" b]
    by (simp add: sextets alph_nth)
next
  case (more a b c bs)
  have "unat b div 16 < 16" "unat c div 64 < 4"
    using unat_byte_less [of b] unat_byte_less [of c] by (simp_all add: div_less_iff_less_mult)
  with more show ?case
    using join_bytes [of "unat b div 16" a] join_bytes2 [of "unat c div 64" "unat a mod 4" b]
      join_bytes3 [of "unat b mod 16" c]
    by (simp add: sextets alph_nth)
qed simp

lemma decode_encode: "b64_decode alph (b64_encode alph bs) = Some bs"
proof -
  have "filter (\<lambda>c. code c \<noteq> 10 \<and> code c \<noteq> 13) (b64_encode alph bs) = b64_encode alph bs"
    by (rule filter_True) (auto dest!: encode_chars simp: alph_nth)
  then show ?thesis by (simp add: b64_decode_def quanta_encode)
qed

lemma length_encode: "length (b64_encode alph bs) = 4 * ((length bs + 2) div 3)"
proof (induction bs rule: triple_induct)
  case (more a b c bs)
  have "(length (a # b # c # bs) + 2) div 3 = Suc ((length bs + 2) div 3)" by simp
  with more show ?case by simp
qed simp_all

text \<open>The encoding without its padding, and the padding put back by length.\<close>

lemma strip_pad:
  "\<exists>body k. b64_encode alph bs = body @ replicate k pad \<and> pad \<notin> set body \<and> k = (3 - length bs mod 3) mod 3 \<and>
     length body = (4 * length bs + 2) div 3"
proof (induction bs rule: triple_induct)
  case (one a)
  show ?case
    by (intro exI [of _ "take 2 (b64_encode alph [a])"] exI [of _ 2])
      (auto simp: numeral_2_eq_2 alph_not_pad sextets)
next
  case (two a b)
  show ?case
    by (intro exI [of _ "take 3 (b64_encode alph [a, b])"] exI [of _ 1])
      (simp add: alph_not_pad sextets)
next
  case (more a b c bs)
  then obtain body k where b: "b64_encode alph bs = body @ replicate k pad" "pad \<notin> set body"
    "k = (3 - length bs mod 3) mod 3" "length body = (4 * length bs + 2) div 3" by auto
  let ?q = "take 4 (b64_encode alph (a # b # c # bs))"
  have "b64_encode alph (a # b # c # bs) = (?q @ body) @ replicate k pad" by (simp add: b(1))
  moreover have "pad \<notin> set (?q @ body)" using b(2) by (simp add: alph_not_pad sextets)
  moreover have "k = (3 - length (a # b # c # bs) mod 3) mod 3" by (simp add: b(3))
  moreover have "length (?q @ body) = (4 * length (a # b # c # bs) + 2) div 3" by (simp add: b(4))
  ultimately show ?case by blast
qed simp

end

interpretation url: base64_alphabet url_alphabet
  by unfold_locales (simp_all add: url_alphabet_def)

end
