(* ===== verification/Go_Http.thy ===== *)
theory Go_Http
  imports Go_Strings
begin

text \<open>
  The part of \<open>net/http\<close> the handlers see. A request carries its method, path, headers, body,
  and what \<open>ParseMultipartForm\<close> makes of it: the form, and the body that is left to read
  afterwards. A response writer records the header map, the status line once it was sent, and
  the body; headers set after the status line no longer reach the client. When the client is
  gone (\<open>w_Broken\<close>), writes to the body fail.
\<close>

record Request =
  r_Method :: string
  r_Path :: string
  r_Header :: "(string \<times> string) list"
  r_Body :: "string option"
  r_Form :: "(string \<times> string) list"
  r_FormBody :: "string option"

text \<open>\<open>Header.Get\<close> and \<open>Form.Get\<close>: the first value, the empty string if there is none.\<close>

definition Get :: "(string \<times> string) list \<Rightarrow> string \<Rightarrow> string" where
  "Get kvs k = (case map_of kvs k of Some v \<Rightarrow> v | None \<Rightarrow> [])"

definition ParseMultipartForm :: "Request \<Rightarrow> Request" where
  "ParseMultipartForm r = r\<lparr>r_Body := r_FormBody r\<rparr>"

record Response =
  w_Header :: "(string \<times> string) list"
  w_Sent :: "(nat \<times> (string \<times> string) list) option"
  w_Body :: string
  w_Broken :: bool

definition new_response :: Response where
  "new_response = \<lparr>w_Header = [], w_Sent = None, w_Body = [], w_Broken = False\<rparr>"

definition Header_Set :: "string \<Rightarrow> string \<Rightarrow> Response \<Rightarrow> Response" where
  "Header_Set k v w = w\<lparr>w_Header := (k, v) # filter (\<lambda>p. fst p \<noteq> k) (w_Header w)\<rparr>"

definition WriteHeader :: "nat \<Rightarrow> Response \<Rightarrow> Response" where
  "WriteHeader c w = (case w_Sent w of None \<Rightarrow> w\<lparr>w_Sent := Some (c, w_Header w)\<rparr> | Some _ \<Rightarrow> w)"

text \<open>\<open>ResponseWriter.Write\<close>: the number of bytes taken, whether it failed, and the writer.\<close>

definition Write_body :: "Response \<Rightarrow> string \<Rightarrow> (nat \<times> bool) \<times> Response" where
  "Write_body w b =
     (let w' = WriteHeader 200 w in
      if w_Broken w' then ((0, True), w') else ((length b, False), w'\<lparr>w_Body := w_Body w' @ b\<rparr>))"

definition status :: "Response \<Rightarrow> nat" where
  "status w = (case w_Sent w of None \<Rightarrow> 200 | Some (c, h) \<Rightarrow> c)"

definition sent_header :: "Response \<Rightarrow> string \<Rightarrow> string" where
  "sent_header w k = Get (case w_Sent w of None \<Rightarrow> w_Header w | Some (c, h) \<Rightarrow> h) k"

lemma status_simps [simp]:
  "w_Sent w = None \<Longrightarrow> status (WriteHeader c w) = c"
  "w_Sent w = Some p \<Longrightarrow> WriteHeader c w = w"
  by (simp_all add: status_def WriteHeader_def)

lemma w_Sent_Write_body: "w_Sent w = Some p \<Longrightarrow> w_Sent (snd (Write_body w b)) = Some p"
  by (simp add: Write_body_def Let_def)

lemma Header_Set_Sent [simp]: "w_Sent (Header_Set k v w) = w_Sent w" "w_Body (Header_Set k v w) = w_Body w"
  "w_Broken (Header_Set k v w) = w_Broken w"
  by (simp_all add: Header_Set_def)

lemma Get_Header_Set: "Get (w_Header (Header_Set k v w)) k' = (if k' = k then v else Get (w_Header w) k')"
proof -
  have "map_of (filter (\<lambda>p. fst p \<noteq> k) m) k' = map_of m k'" if "k' \<noteq> k" for m :: "(string \<times> string) list"
    using that by (induction m) auto
  then show ?thesis by (simp add: Get_def Header_Set_def)
qed

end
