(* ===== verification/Jwt_Methods.thy ===== *)
theory Jwt_Methods
  imports Go_Base64 Schema
begin

text \<open>
  The signing methods of \<open>github.com/dgrijalva/jwt-go\<close>: the encoding of segments (\<open>token.go\<close>), errors, HMAC
  (\<open>hmac.go\<close>), the method \<open>none\<close> (\<open>none.go\<close>), RSA in both paddings (\<open>rsa.go\<close>, \<open>rsa_pss.go\<close>) and ECDSA (\<open>ecdsa.go\<close>), the
  reading of keys (\<open>rsa_utils.go\<close>, \<open>ecdsa_utils.go\<close>) and the table of methods (\<open>signing_method.go\<close>). Every method
  interprets the locale \<open>signing\<close>. The primitives of Go's cryptographic library are the parameter \<open>crypto\<close>.
\<close>

section \<open>Segments\<close>

definition EncodeSegment :: "bytes \<Rightarrow> string" where
  "EncodeSegment seg = TrimRight (b64_encode url_alphabet seg) ''=''"

definition DecodeSegment :: "string \<Rightarrow> bytes option" where
  "DecodeSegment seg =
     (let l = length seg mod 4 in
      b64_decode url_alphabet (if l > 0 then seg @ Repeat ''='' (4 - l) else seg))"

section \<open>Errors\<close>

datatype jwt_error =
    ErrInvalidKey
  | ErrHashUnavailable
  | ErrNoTokenInRequest
  | ErrSignatureInvalid
  | CorruptInput
  | JsonError json_error
  | NoneDisallowed
  | NoneNonEmptySignature
  | LibError string
  | ErrKeyMustBePEMEncoded
  | ErrNotRSAPrivateKey
  | ErrNotRSAPublicKey
  | ErrNotECPublicKey
  | ErrECDSAVerification
  | SliceBoundsPanic
  | KeyfuncError string
  | Segments
  | BearerInToken
  | AlgUnavailable
  | AlgUnspecified
  | AlgInvalid
  | NoKeyfunc
  | TokenExpired int
  | TokenNotYet
  | NilMethodPanic

definition ValidationErrorMalformed :: uint32 where "ValidationErrorMalformed = push_bit 0 1"
definition ValidationErrorUnverifiable :: uint32 where "ValidationErrorUnverifiable = push_bit 1 1"
definition ValidationErrorSignatureInvalid :: uint32 where "ValidationErrorSignatureInvalid = push_bit 2 1"
definition ValidationErrorExpired :: uint32 where "ValidationErrorExpired = push_bit 3 1"
definition ValidationErrorNotValidYet :: uint32 where "ValidationErrorNotValidYet = push_bit 4 1"

record ValidationError =
  ve_Inner :: "jwt_error option"
  ve_Errors :: uint32

definition NewValidationError :: "jwt_error \<Rightarrow> uint32 \<Rightarrow> ValidationError" where
  "NewValidationError e fl = \<lparr>ve_Inner = Some e, ve_Errors = fl\<rparr>"

definition ve_valid :: "ValidationError \<Rightarrow> bool" where
  "ve_valid e \<longleftrightarrow> \<not> ve_Errors e > 0"

section \<open>Signing methods\<close>

datatype hash = SHA256 | SHA384 | SHA512

text \<open>A key is any Go value. The keys of the library are pointers, which the library functions look through.\<close>

datatype key =
    KeyBytes bytes
  | UnsafeAllowNoneSignatureType
  | RSAPublicKey nat
  | RSAPrivateKey nat
  | ECPublicKey nat
  | ECPrivateKey nat
  | OtherKey

datatype SigningMethod =
    SigningMethodHMAC string hash
  | SigningMethodNone
  | SigningMethodRSA string hash
  | SigningMethodRSAPSS string hash
  | SigningMethodECDSA string hash nat nat

text \<open>
  What the methods use of Go's \<open>crypto\<close>, \<open>encoding/pem\<close> and \<open>crypto/x509\<close>: sums, reading keys, and the public key
  primitives under one outcome of the random source. The options of PSS are the same in all methods.
\<close>

record crypto =
  hmac_sum :: "hash \<Rightarrow> bytes \<Rightarrow> bytes \<Rightarrow> bytes"
  hash_available :: "hash \<Rightarrow> bool"
  hash_sum :: "hash \<Rightarrow> bytes \<Rightarrow> bytes"
  pem_Decode :: "bytes \<Rightarrow> bytes option"
  ParsePKCS1PrivateKey :: "bytes \<Rightarrow> (string, nat) result"
  ParsePKCS8PrivateKey :: "bytes \<Rightarrow> (string, key) result"
  ParsePKIXPublicKey :: "bytes \<Rightarrow> (string, key) result"
  ParseCertificate :: "bytes \<Rightarrow> (string, key) result"
  ParseECPrivateKey :: "bytes \<Rightarrow> (string, nat) result"
  SignPKCS1v15 :: "nat \<Rightarrow> hash \<Rightarrow> bytes \<Rightarrow> (string, bytes) result"
  VerifyPKCS1v15 :: "nat \<Rightarrow> hash \<Rightarrow> bytes \<Rightarrow> bytes \<Rightarrow> string option"
  SignPSS :: "nat \<Rightarrow> hash \<Rightarrow> bytes \<Rightarrow> (string, bytes) result"
  VerifyPSS :: "nat \<Rightarrow> hash \<Rightarrow> bytes \<Rightarrow> bytes \<Rightarrow> string option"
  ecdsa_sign :: "nat \<Rightarrow> bytes \<Rightarrow> (string, nat \<times> nat) result"
  ecdsa_verify :: "nat \<Rightarrow> bytes \<Rightarrow> nat \<Rightarrow> nat \<Rightarrow> bool"
  BitSize :: "nat \<Rightarrow> nat"

definition SigningMethodHS256 :: SigningMethod where
  "SigningMethodHS256 = SigningMethodHMAC ''HS256'' SHA256"

definition SigningMethodHS384 :: SigningMethod where
  "SigningMethodHS384 = SigningMethodHMAC ''HS384'' SHA384"

definition SigningMethodHS512 :: SigningMethod where
  "SigningMethodHS512 = SigningMethodHMAC ''HS512'' SHA512"

definition rsa_methods :: "SigningMethod list" where
  "rsa_methods = [SigningMethodRSA ''RS256'' SHA256, SigningMethodRSA ''RS384'' SHA384, SigningMethodRSA ''RS512'' SHA512]"

definition pss_methods :: "SigningMethod list" where
  "pss_methods = [SigningMethodRSAPSS ''PS256'' SHA256, SigningMethodRSAPSS ''PS384'' SHA384, SigningMethodRSAPSS ''PS512'' SHA512]"

definition ecdsa_methods :: "SigningMethod list" where
  "ecdsa_methods = [SigningMethodECDSA ''ES256'' SHA256 32 256, SigningMethodECDSA ''ES384'' SHA384 48 384,
     SigningMethodECDSA ''ES512'' SHA512 66 521]"

fun Alg :: "SigningMethod \<Rightarrow> string" where
  "Alg (SigningMethodHMAC n h) = n"
| "Alg SigningMethodNone = ''none''"
| "Alg (SigningMethodRSA n h) = n"
| "Alg (SigningMethodRSAPSS n h) = n"
| "Alg (SigningMethodECDSA n h ks cb) = n"

text \<open>The table of methods, as the \<open>init\<close> functions of the package fill it.\<close>

definition RegisterSigningMethod ::
  "string \<Rightarrow> SigningMethod \<Rightarrow> (string \<rightharpoonup> SigningMethod) \<Rightarrow> (string \<rightharpoonup> SigningMethod)" where
  "RegisterSigningMethod alg f ms = ms(alg \<mapsto> f)"

definition registered :: "SigningMethod list" where
  "registered = ecdsa_methods @ [SigningMethodHS256, SigningMethodHS384, SigningMethodHS512, SigningMethodNone] @
     rsa_methods @ pss_methods"

definition signingMethods :: "string \<rightharpoonup> SigningMethod" where
  "signingMethods = fold (\<lambda>m. RegisterSigningMethod (Alg m) m) registered Map.empty"

definition GetSigningMethod :: "string \<Rightarrow> SigningMethod option" where
  "GetSigningMethod alg = signingMethods alg"

definition HMAC_Verify :: "crypto \<Rightarrow> hash \<Rightarrow> string \<Rightarrow> string \<Rightarrow> key \<Rightarrow> jwt_error option" where
  "HMAC_Verify cr h signingString signature k =
     (case k of
        KeyBytes keyBytes \<Rightarrow>
          (case DecodeSegment signature of
             None \<Rightarrow> Some CorruptInput
           | Some sig \<Rightarrow>
               if \<not> hash_available cr h then Some ErrHashUnavailable
               else if sig \<noteq> hmac_sum cr h keyBytes (bytes_of_string signingString) then Some ErrSignatureInvalid
               else None)
      | _ \<Rightarrow> Some ErrInvalidKey)"

definition HMAC_Sign :: "crypto \<Rightarrow> hash \<Rightarrow> string \<Rightarrow> key \<Rightarrow> (jwt_error, string) result" where
  "HMAC_Sign cr h signingString k =
     (case k of
        KeyBytes keyBytes \<Rightarrow>
          if \<not> hash_available cr h then Inl ErrHashUnavailable
          else Inr (EncodeSegment (hmac_sum cr h keyBytes (bytes_of_string signingString)))
      | _ \<Rightarrow> Inl ErrInvalidKey)"

definition None_Verify :: "string \<Rightarrow> string \<Rightarrow> key \<Rightarrow> jwt_error option" where
  "None_Verify signingString signature k =
     (if k \<noteq> UnsafeAllowNoneSignatureType then Some NoneDisallowed
      else if signature \<noteq> [] then Some NoneNonEmptySignature
      else None)"

definition None_Sign :: "string \<Rightarrow> key \<Rightarrow> (jwt_error, string) result" where
  "None_Sign signingString k = (if k = UnsafeAllowNoneSignatureType then Inr [] else Inl NoneDisallowed)"

section \<open>Keys from PEM texts\<close>

definition ParseRSAPrivateKeyFromPEM :: "crypto \<Rightarrow> bytes \<Rightarrow> (jwt_error, nat) result" where
  "ParseRSAPrivateKeyFromPEM cr key =
     (case pem_Decode cr key of
        None \<Rightarrow> Inl ErrKeyMustBePEMEncoded
      | Some block \<Rightarrow>
          (case (case ParsePKCS1PrivateKey cr block of
                   Inl e \<Rightarrow> ParsePKCS8PrivateKey cr block
                 | Inr p \<Rightarrow> Inr (RSAPrivateKey p)) of
             Inl e \<Rightarrow> Inl (LibError e)
           | Inr (RSAPrivateKey p) \<Rightarrow> Inr p
           | Inr _ \<Rightarrow> Inl ErrNotRSAPrivateKey))"

definition parse_public :: "crypto \<Rightarrow> bytes \<Rightarrow> (string, key) result" where
  "parse_public cr block =
     (case ParsePKIXPublicKey cr block of Inl e \<Rightarrow> ParseCertificate cr block | Inr k \<Rightarrow> Inr k)"

definition ParseRSAPublicKeyFromPEM :: "crypto \<Rightarrow> bytes \<Rightarrow> (jwt_error, nat) result" where
  "ParseRSAPublicKeyFromPEM cr key =
     (case pem_Decode cr key of
        None \<Rightarrow> Inl ErrKeyMustBePEMEncoded
      | Some block \<Rightarrow>
          (case parse_public cr block of
             Inl e \<Rightarrow> Inl (LibError e)
           | Inr (RSAPublicKey p) \<Rightarrow> Inr p
           | Inr _ \<Rightarrow> Inl ErrNotRSAPublicKey))"

definition ParseECPrivateKeyFromPEM :: "crypto \<Rightarrow> bytes \<Rightarrow> (jwt_error, nat) result" where
  "ParseECPrivateKeyFromPEM cr key =
     (case pem_Decode cr key of
        None \<Rightarrow> Inl ErrKeyMustBePEMEncoded
      | Some block \<Rightarrow> (case ParseECPrivateKey cr block of Inl e \<Rightarrow> Inl (LibError e) | Inr p \<Rightarrow> Inr p))"

definition ParseECPublicKeyFromPEM :: "crypto \<Rightarrow> bytes \<Rightarrow> (jwt_error, nat) result" where
  "ParseECPublicKeyFromPEM cr key =
     (case pem_Decode cr key of
        None \<Rightarrow> Inl ErrKeyMustBePEMEncoded
      | Some block \<Rightarrow>
          (case parse_public cr block of
             Inl e \<Rightarrow> Inl (LibError e)
           | Inr (ECPublicKey p) \<Rightarrow> Inr p
           | Inr _ \<Rightarrow> Inl ErrNotECPublicKey))"

section \<open>RSA\<close>

definition rsa_public :: "crypto \<Rightarrow> key \<Rightarrow> (jwt_error, nat) result" where
  "rsa_public cr k =
     (case k of KeyBytes b \<Rightarrow> ParseRSAPublicKeyFromPEM cr b | RSAPublicKey p \<Rightarrow> Inr p | _ \<Rightarrow> Inl ErrInvalidKey)"

definition rsa_private :: "crypto \<Rightarrow> key \<Rightarrow> (jwt_error, nat) result" where
  "rsa_private cr k =
     (case k of KeyBytes b \<Rightarrow> ParseRSAPrivateKeyFromPEM cr b | RSAPrivateKey p \<Rightarrow> Inr p | _ \<Rightarrow> Inl ErrInvalidKey)"

definition RSA_Verify :: "crypto \<Rightarrow> hash \<Rightarrow> string \<Rightarrow> string \<Rightarrow> key \<Rightarrow> jwt_error option" where
  "RSA_Verify cr h signingString signature k =
     (case DecodeSegment signature of
        None \<Rightarrow> Some CorruptInput
      | Some sig \<Rightarrow>
          (case rsa_public cr k of
             Inl e \<Rightarrow> Some e
           | Inr p \<Rightarrow>
               if \<not> hash_available cr h then Some ErrHashUnavailable
               else map_option LibError (VerifyPKCS1v15 cr p h (hash_sum cr h (bytes_of_string signingString)) sig)))"

definition RSA_Sign :: "crypto \<Rightarrow> hash \<Rightarrow> string \<Rightarrow> key \<Rightarrow> (jwt_error, string) result" where
  "RSA_Sign cr h signingString k =
     (case rsa_private cr k of
        Inl e \<Rightarrow> Inl e
      | Inr p \<Rightarrow>
          if \<not> hash_available cr h then Inl ErrHashUnavailable
          else
            (case SignPKCS1v15 cr p h (hash_sum cr h (bytes_of_string signingString)) of
               Inl e \<Rightarrow> Inl (LibError e)
             | Inr sig \<Rightarrow> Inr (EncodeSegment sig)))"

definition RSAPSS_Verify :: "crypto \<Rightarrow> hash \<Rightarrow> string \<Rightarrow> string \<Rightarrow> key \<Rightarrow> jwt_error option" where
  "RSAPSS_Verify cr h signingString signature k =
     (case DecodeSegment signature of
        None \<Rightarrow> Some CorruptInput
      | Some sig \<Rightarrow>
          (case k of
             RSAPublicKey p \<Rightarrow>
               if \<not> hash_available cr h then Some ErrHashUnavailable
               else map_option LibError (VerifyPSS cr p h (hash_sum cr h (bytes_of_string signingString)) sig)
           | _ \<Rightarrow> Some ErrInvalidKey))"

definition RSAPSS_Sign :: "crypto \<Rightarrow> hash \<Rightarrow> string \<Rightarrow> key \<Rightarrow> (jwt_error, string) result" where
  "RSAPSS_Sign cr h signingString k =
     (case k of
        RSAPrivateKey p \<Rightarrow>
          if \<not> hash_available cr h then Inl ErrHashUnavailable
          else
            (case SignPSS cr p h (hash_sum cr h (bytes_of_string signingString)) of
               Inl e \<Rightarrow> Inl (LibError e)
             | Inr sig \<Rightarrow> Inr (EncodeSegment sig))
      | _ \<Rightarrow> Inl ErrInvalidKey)"

section \<open>ECDSA\<close>

text \<open>\<open>Bytes\<close> and \<open>SetBytes\<close> of \<open>math/big\<close>: big-endian, without leading zeros.\<close>

fun big_Bytes :: "nat \<Rightarrow> bytes" where
  "big_Bytes n = (if n = 0 then [] else big_Bytes (n div 256) @ [word_of_nat (n mod 256)])"

declare big_Bytes.simps [simp del]

definition SetBytes :: "bytes \<Rightarrow> nat" where
  "SetBytes bs = foldl (\<lambda>n b. n * 256 + unat b) 0 bs"

text \<open>A copy into the end of a zeroed slice; the slice expression panics when the number is too long.\<close>

definition pad_left :: "nat \<Rightarrow> bytes \<Rightarrow> bytes option" where
  "pad_left n bs = (if length bs \<le> n then Some (replicate (n - length bs) 0 @ bs) else None)"

definition ECDSA_Verify :: "crypto \<Rightarrow> hash \<Rightarrow> nat \<Rightarrow> string \<Rightarrow> string \<Rightarrow> key \<Rightarrow> jwt_error option" where
  "ECDSA_Verify cr h keySize signingString signature k =
     (case DecodeSegment signature of
        None \<Rightarrow> Some CorruptInput
      | Some sig \<Rightarrow>
          (case k of
             ECPublicKey p \<Rightarrow>
               if length sig \<noteq> 2 * keySize then Some ErrECDSAVerification
               else
                 let r = SetBytes (take keySize sig); s = SetBytes (drop keySize sig) in
                 if \<not> hash_available cr h then Some ErrHashUnavailable
                 else if ecdsa_verify cr p (hash_sum cr h (bytes_of_string signingString)) r s then None
                 else Some ErrECDSAVerification
           | _ \<Rightarrow> Some ErrInvalidKey))"

definition ECDSA_Sign :: "crypto \<Rightarrow> hash \<Rightarrow> nat \<Rightarrow> string \<Rightarrow> key \<Rightarrow> (jwt_error, string) result" where
  "ECDSA_Sign cr h mCurveBits signingString k =
     (case k of
        ECPrivateKey p \<Rightarrow>
          if \<not> hash_available cr h then Inl ErrHashUnavailable
          else
            (case ecdsa_sign cr p (hash_sum cr h (bytes_of_string signingString)) of
               Inl e \<Rightarrow> Inl (LibError e)
             | Inr (r, s) \<Rightarrow>
                 let curveBits = BitSize cr p in
                 if mCurveBits \<noteq> curveBits then Inl ErrInvalidKey
                 else
                   let keyBytes = curveBits div 8 + (if curveBits mod 8 > 0 then 1 else 0) in
                   case pad_left keyBytes (big_Bytes r) of
                     None \<Rightarrow> Inl SliceBoundsPanic
                   | Some rBytesPadded \<Rightarrow>
                       (case pad_left keyBytes (big_Bytes s) of
                          None \<Rightarrow> Inl SliceBoundsPanic
                        | Some sBytesPadded \<Rightarrow> Inr (EncodeSegment (rBytesPadded @ sBytesPadded))))
      | _ \<Rightarrow> Inl ErrInvalidKey)"

section \<open>All methods\<close>

fun Verify :: "crypto \<Rightarrow> SigningMethod \<Rightarrow> string \<Rightarrow> string \<Rightarrow> key \<Rightarrow> jwt_error option" where
  "Verify cr (SigningMethodHMAC n h) = HMAC_Verify cr h"
| "Verify cr SigningMethodNone = None_Verify"
| "Verify cr (SigningMethodRSA n h) = RSA_Verify cr h"
| "Verify cr (SigningMethodRSAPSS n h) = RSAPSS_Verify cr h"
| "Verify cr (SigningMethodECDSA n h ks cb) = ECDSA_Verify cr h ks"

fun Sign :: "crypto \<Rightarrow> SigningMethod \<Rightarrow> string \<Rightarrow> key \<Rightarrow> (jwt_error, string) result" where
  "Sign cr (SigningMethodHMAC n h) = HMAC_Sign cr h"
| "Sign cr SigningMethodNone = None_Sign"
| "Sign cr (SigningMethodRSA n h) = RSA_Sign cr h"
| "Sign cr (SigningMethodRSAPSS n h) = RSAPSS_Sign cr h"
| "Sign cr (SigningMethodECDSA n h ks cb) = ECDSA_Sign cr h cb"

section \<open>Segments round trip\<close>

lemma EncodeSegment_body:
  "\<exists>k. b64_encode url_alphabet bs = EncodeSegment bs @ replicate k pad \<and> k = (3 - length bs mod 3) mod 3 \<and>
     length (EncodeSegment bs) = (4 * length bs + 2) div 3 \<and> pad \<notin> set (EncodeSegment bs)"
proof -
  obtain body k where b: "b64_encode url_alphabet bs = body @ replicate k pad" "pad \<notin> set body"
    "k = (3 - length bs mod 3) mod 3" "length body = (4 * length bs + 2) div 3"
    using url.strip_pad by blast
  have "EncodeSegment bs = body"
    unfolding EncodeSegment_def b(1)
    using b(2) last_in_set by (intro TrimRight_replicate) fastforce+
  with b show ?thesis by auto
qed

lemma DecodeSegment_EncodeSegment [simp]: "DecodeSegment (EncodeSegment bs) = Some bs"
proof -
  obtain k where k: "b64_encode url_alphabet bs = EncodeSegment bs @ replicate k pad" "k = (3 - length bs mod 3) mod 3"
    and len: "length (EncodeSegment bs) = (4 * length bs + 2) div 3"
    using EncodeSegment_body by blast
  let ?l = "length (EncodeSegment bs) mod 4"
  have "(if ?l > 0 then replicate (4 - ?l) pad else []) = replicate k pad"
  proof -
    have "4 * ((length bs + 2) div 3) = length (EncodeSegment bs) + k"
      using url.length_encode [of bs] k(1) by (metis length_append length_replicate)
    then have "(length (EncodeSegment bs) + k) mod 4 = 0" by (metis mod_mult_self1_is_0)
    moreover have "k < 3" by (simp add: k(2))
    ultimately have "k = (if ?l > 0 then 4 - ?l else 0)"
      by (simp add: mod_add_eq) presburger
    then show ?thesis by auto
  qed
  then have "(if ?l > 0 then EncodeSegment bs @ Repeat ''='' (4 - ?l) else EncodeSegment bs) = b64_encode url_alphabet bs"
    by (auto simp: k(1) Repeat_char split: if_splits)
  then show ?thesis
    by (simp add: DecodeSegment_def Let_def url.decode_encode)
qed

lemma EncodeSegment_no_dot: "CHR ''.'' \<notin> set (EncodeSegment bs)"
proof
  assume "CHR ''.'' \<in> set (EncodeSegment bs)"
  then have "CHR ''.'' \<in> set (b64_encode url_alphabet bs)"
    using EncodeSegment_body [of bs] by auto
  then have "CHR ''.'' \<in> set url_alphabet"
    using url.encode_chars url.length_alph by fastforce
  then show False by (simp add: url_alphabet_def)
qed

section \<open>Big integers\<close>

lemma SetBytes_snoc [simp]: "SetBytes (bs @ [b]) = SetBytes bs * 256 + unat b"
  by (simp add: SetBytes_def)

lemma SetBytes_Nil [simp]: "SetBytes [] = 0"
  by (simp add: SetBytes_def)

lemma SetBytes_zeros: "SetBytes (replicate n 0 @ bs) = SetBytes bs"
proof -
  have "SetBytes (replicate n 0) = 0"
    by (induction n) (simp_all add: SetBytes_def)
  then show ?thesis by (simp add: SetBytes_def)
qed

lemma SetBytes_big_Bytes: "SetBytes (big_Bytes n) = n"
proof (induction n rule: big_Bytes.induct)
  case (1 n)
  then show ?case
    by (subst big_Bytes.simps) (simp add: unat_of_nat)
qed

lemma length_big_Bytes: "n < 256 ^ k \<Longrightarrow> length (big_Bytes n) \<le> k"
proof (induction n arbitrary: k rule: big_Bytes.induct)
  case (1 n)
  show ?case
  proof (cases "n = 0")
    case False
    with "1.prems" obtain k' where k: "k = Suc k'" by (cases k) auto
    with "1.prems" have "n div 256 < 256 ^ k'" by (simp add: less_mult_imp_div_less mult.commute)
    with "1.IH" [OF False, of k'] False k show ?thesis by (subst big_Bytes.simps) simp
  qed (simp add: big_Bytes.simps)
qed

lemma pad_left_big:
  "n < 256 ^ k \<Longrightarrow> \<exists>bs. pad_left k (big_Bytes n) = Some bs \<and> length bs = k \<and> SetBytes bs = n"
  by (simp add: pad_left_def length_big_Bytes SetBytes_zeros SetBytes_big_Bytes)

section \<open>Signing methods keep their contract\<close>

text \<open>
  When a key that signs and a key that verifies belong together. For the public key methods this says of
  the primitives that they accept what the private half signed; the two numbers of an ECDSA signature are
  below the order of the curve and so have at most as many bits.
\<close>

definition rsa_pair :: "crypto \<Rightarrow> nat \<Rightarrow> nat \<Rightarrow> bool" where
  "rsa_pair cr p q \<longleftrightarrow> (\<forall>h d sig. SignPKCS1v15 cr p h d = Inr sig \<longrightarrow> VerifyPKCS1v15 cr q h d sig = None)"

definition pss_pair :: "crypto \<Rightarrow> nat \<Rightarrow> nat \<Rightarrow> bool" where
  "pss_pair cr p q \<longleftrightarrow> (\<forall>h d sig. SignPSS cr p h d = Inr sig \<longrightarrow> VerifyPSS cr q h d sig = None)"

definition ec_pair :: "crypto \<Rightarrow> nat \<Rightarrow> nat \<Rightarrow> bool" where
  "ec_pair cr p q \<longleftrightarrow> (\<forall>d r s. ecdsa_sign cr p d = Inr (r, s) \<longrightarrow>
     ecdsa_verify cr q d r s \<and> r < 2 ^ BitSize cr p \<and> s < 2 ^ BitSize cr p)"

definition rsa_keys :: "crypto \<Rightarrow> key \<Rightarrow> key \<Rightarrow> bool" where
  "rsa_keys cr ks kv \<longleftrightarrow> (\<exists>p q. rsa_private cr ks = Inr p \<and> rsa_public cr kv = Inr q \<and> rsa_pair cr p q)"

definition pss_keys :: "crypto \<Rightarrow> key \<Rightarrow> key \<Rightarrow> bool" where
  "pss_keys cr ks kv \<longleftrightarrow> (\<exists>p q. ks = RSAPrivateKey p \<and> kv = RSAPublicKey q \<and> pss_pair cr p q)"

definition ec_keys :: "crypto \<Rightarrow> key \<Rightarrow> key \<Rightarrow> bool" where
  "ec_keys cr ks kv \<longleftrightarrow> (\<exists>p q. ks = ECPrivateKey p \<and> kv = ECPublicKey q \<and> ec_pair cr p q)"

fun key_pair :: "crypto \<Rightarrow> SigningMethod \<Rightarrow> key \<Rightarrow> key \<Rightarrow> bool" where
  "key_pair cr (SigningMethodRSA n h) = rsa_keys cr"
| "key_pair cr (SigningMethodRSAPSS n h) = pss_keys cr"
| "key_pair cr (SigningMethodECDSA n h ks cb) = ec_keys cr"
| "key_pair cr m = (=)"

text \<open>What a signing method promises: it accepts its own signatures, which have no dot.\<close>

locale signing =
  fixes sign :: "string \<Rightarrow> key \<Rightarrow> (jwt_error, string) result"
    and verify :: "string \<Rightarrow> string \<Rightarrow> key \<Rightarrow> jwt_error option"
    and matching :: "key \<Rightarrow> key \<Rightarrow> bool"
  assumes verify_sign: "matching ks kv \<Longrightarrow> sign s ks = Inr sig \<Longrightarrow> verify s sig kv = None"
    and sign_no_dot: "sign s ks = Inr sig \<Longrightarrow> CHR ''.'' \<notin> set sig"
begin

lemma signed_parts:
  assumes "matching ks kv"
    and "CHR ''.'' \<notin> set h" and "CHR ''.'' \<notin> set c" and "sign (Join [h, c] ''.'') ks = Inr sig"
  shows "Split (CHR ''.'') (Join [Join [h, c] ''.'', sig] ''.'') = [h, c, sig]"
    and "verify (Join (take 2 [h, c, sig]) ''.'') sig kv = None"
  using assms verify_sign sign_no_dot by (simp_all add: Split_append Split_without)

end

interpretation hmac: signing "HMAC_Sign cr h" "HMAC_Verify cr h" "(=)" for cr h
  by unfold_locales (auto simp: HMAC_Sign_def HMAC_Verify_def EncodeSegment_no_dot split: key.splits if_splits)

interpretation none: signing None_Sign None_Verify "(=)"
  by unfold_locales (auto simp: None_Sign_def None_Verify_def split: if_splits)

interpretation rsa: signing "RSA_Sign cr h" "RSA_Verify cr h" "rsa_keys cr" for cr h
  by unfold_locales (auto simp: RSA_Sign_def RSA_Verify_def rsa_keys_def rsa_pair_def EncodeSegment_no_dot split: sum.splits if_splits)

interpretation pss: signing "RSAPSS_Sign cr h" "RSAPSS_Verify cr h" "pss_keys cr" for cr h
  by unfold_locales
    (auto simp: RSAPSS_Sign_def RSAPSS_Verify_def pss_keys_def pss_pair_def EncodeSegment_no_dot split: key.splits sum.splits if_splits)

text \<open>
  The signature of a method for curves of \<open>cb\<close> bits has twice the number of bytes these bits need, which
  has to be the key size that the verification expects.
\<close>

lemma ECDSA_Sign_signature:
  assumes "ECDSA_Sign cr h cb s (ECPrivateKey p) = Inr sig" and "ec_pair cr p q"
  obtains r t bs ts where "ecdsa_sign cr p (hash_sum cr h (bytes_of_string s)) = Inr (r, t)"
    and "length bs = (cb + 7) div 8" and "length ts = (cb + 7) div 8" and "SetBytes bs = r" and "SetBytes ts = t"
    and "sig = EncodeSegment (bs @ ts)" and "hash_available cr h"
proof -
  from assms(1) obtain r t where rt: "ecdsa_sign cr p (hash_sum cr h (bytes_of_string s)) = Inr (r, t)" and cb: "BitSize cr p = cb"
    and av: "hash_available cr h"
    by (auto simp: ECDSA_Sign_def Let_def split: if_splits sum.splits)
  have n: "cb div 8 + (if cb mod 8 > 0 then 1 else 0) = (cb + 7) div 8" by presburger
  have "(2::nat) ^ cb \<le> 256 ^ ((cb + 7) div 8)"
  proof -
    have "(256::nat) ^ ((cb + 7) div 8) = 2 ^ (8 * ((cb + 7) div 8))" by (simp add: power_mult)
    moreover have "cb \<le> 8 * ((cb + 7) div 8)" by presburger
    ultimately show ?thesis by (simp add: power_increasing)
  qed
  moreover from assms(2) rt cb have "r < 2 ^ cb" "t < 2 ^ cb"
    unfolding ec_pair_def by blast+
  ultimately have "r < 256 ^ ((cb + 7) div 8)" "t < 256 ^ ((cb + 7) div 8)" by linarith+
  with pad_left_big obtain bs ts where
    "pad_left ((cb + 7) div 8) (big_Bytes r) = Some bs" "length bs = (cb + 7) div 8" "SetBytes bs = r"
    "pad_left ((cb + 7) div 8) (big_Bytes t) = Some ts" "length ts = (cb + 7) div 8" "SetBytes ts = t"
    by metis
  with that rt cb av assms(1) show thesis
    by (simp add: ECDSA_Sign_def Let_def n)
qed

lemma ECDSA_signing: "ks = (cb + 7) div 8 \<Longrightarrow> signing (ECDSA_Sign cr h cb) (ECDSA_Verify cr h ks) (ec_keys cr)"
proof
  fix k v s sig
  assume ks: "ks = (cb + 7) div 8" and "ec_keys cr k v" and sign: "ECDSA_Sign cr h cb s k = Inr sig"
  then obtain p q where k: "k = ECPrivateKey p" "v = ECPublicKey q" "ec_pair cr p q" by (auto simp: ec_keys_def)
  obtain r t bs ts where rt: "ecdsa_sign cr p (hash_sum cr h (bytes_of_string s)) = Inr (r, t)"
    and "length bs = ks" "length ts = ks" "SetBytes bs = r" "SetBytes ts = t"
    "sig = EncodeSegment (bs @ ts)" "hash_available cr h"
    unfolding ks using ECDSA_Sign_signature [OF sign [unfolded k(1)] k(3)] .
  moreover from rt k(3) have "ecdsa_verify cr q (hash_sum cr h (bytes_of_string s)) r t"
    unfolding ec_pair_def by blast
  ultimately show "ECDSA_Verify cr h ks s sig v = None"
    by (simp add: ECDSA_Verify_def k(2) Let_def)
next
  show "ECDSA_Sign cr h cb s k = Inr sig \<Longrightarrow> CHR ''.'' \<notin> set sig" for s k sig
    by (auto simp: ECDSA_Sign_def Let_def EncodeSegment_no_dot split: key.splits if_splits sum.splits option.splits prod.splits)
qed

interpretation es256: signing "ECDSA_Sign cr h 256" "ECDSA_Verify cr h 32" "ec_keys cr" for cr h
  by (rule ECDSA_signing) simp

interpretation es384: signing "ECDSA_Sign cr h 384" "ECDSA_Verify cr h 48" "ec_keys cr" for cr h
  by (rule ECDSA_signing) simp

interpretation es512: signing "ECDSA_Sign cr h 521" "ECDSA_Verify cr h 66" "ec_keys cr" for cr h
  by (rule ECDSA_signing) simp

lemmas method_list = registered_def ecdsa_methods_def rsa_methods_def pss_methods_def
  SigningMethodHS256_def SigningMethodHS384_def SigningMethodHS512_def

lemma registered_signing: "m \<in> set registered \<Longrightarrow> signing (Sign cr m) (Verify cr m) (key_pair cr m)"
  by (auto simp: method_list hmac.signing_axioms none.signing_axioms rsa.signing_axioms pss.signing_axioms
      es256.signing_axioms es384.signing_axioms es512.signing_axioms)

lemma GetSigningMethod_registered: "m \<in> set registered \<Longrightarrow> GetSigningMethod (Alg m) = Some m"
  by (auto simp: GetSigningMethod_def signingMethods_def RegisterSigningMethod_def method_list)

lemma HS256_registered [simp]: "SigningMethodHS256 \<in> set registered"
  by (simp add: registered_def)

end
