(* ===== verification/Jwt.thy ===== *)
theory Jwt
  imports Jwt_Methods Go_Http
begin

text \<open>
  The JSON web tokens of \<open>github.com/dgrijalva/jwt-go\<close>: building and signing them (\<open>token.go\<close>), and the parser
  (\<open>parser.go\<close>) as \<open>jwt.Parse\<close> builds it, without \<open>UseJSONNumber\<close>.
\<close>

section \<open>Tokens\<close>

record JToken =
  t_Raw :: string
  t_Method :: "SigningMethod option"
  t_Header :: Token
  t_Claims :: Token
  t_Signature :: string
  t_Valid :: bool

definition jwt_New :: "SigningMethod \<Rightarrow> JToken" where
  "jwt_New m = \<lparr>t_Raw = [], t_Method = Some m,
     t_Header = [(''alg'', JStr (Alg m)), (''typ'', JStr ''JWT'')],
     t_Claims = [], t_Signature = [], t_Valid = False\<rparr>"

definition SigningString :: "strconv \<Rightarrow> JToken \<Rightarrow> (jwt_error, string) result" where
  "SigningString sc t =
     (case Marshal sc (JObj (t_Header t)) of
        Inl e \<Rightarrow> Inl (JsonError e)
      | Inr h \<Rightarrow>
          (case Marshal sc (JObj (t_Claims t)) of
             Inl e \<Rightarrow> Inl (JsonError e)
           | Inr c \<Rightarrow> Inr (Join [EncodeSegment (bytes_of_string h), EncodeSegment (bytes_of_string c)] ''.'')))"

definition SignedString :: "strconv \<Rightarrow> crypto \<Rightarrow> JToken \<Rightarrow> key \<Rightarrow> (jwt_error, string) result" where
  "SignedString sc cr t k =
     (case SigningString sc t of
        Inl e \<Rightarrow> Inl e
      | Inr sstr \<Rightarrow>
          (case t_Method t of
             None \<Rightarrow> Inl NilMethodPanic
           | Some m \<Rightarrow>
               (case Sign cr m sstr k of
                  Inl e \<Rightarrow> Inl e
                | Inr sig \<Rightarrow> Inr (Join [sstr, sig] ''.''))))"

section \<open>The parser\<close>

type_synonym Keyfunc = "JToken \<Rightarrow> (string, key) result"

text \<open>
  The checks on the time claims: a claim counts only when it is a number. \<open>or_error\<close> is the
  assignment to \<open>Inner\<close> with the flag or-ed into \<open>Errors\<close>.
\<close>

definition or_error :: "jwt_error \<Rightarrow> uint32 \<Rightarrow> ValidationError \<Rightarrow> ValidationError" where
  "or_error e fl ve = \<lparr>ve_Inner = Some e, ve_Errors = ve_Errors ve OR fl\<rparr>"

definition time_claim :: "strconv \<Rightarrow> Token \<Rightarrow> string \<Rightarrow> int option" where
  "time_claim sc claims k = (case map_of claims k of Some (JNum x) \<Rightarrow> Some (float_int64 sc x) | _ \<Rightarrow> None)"

definition check_times :: "strconv \<Rightarrow> int \<Rightarrow> Token \<Rightarrow> ValidationError" where
  "check_times sc now claims =
     (let ve = \<lparr>ve_Inner = None, ve_Errors = 0\<rparr>;
          ve = (case time_claim sc claims ''exp'' of
                  Some ex \<Rightarrow> if now > ex then or_error (TokenExpired (now - ex)) ValidationErrorExpired ve else ve
                | None \<Rightarrow> ve)
      in (case time_claim sc claims ''nbf'' of
            Some nbf \<Rightarrow> if now < nbf then or_error TokenNotYet ValidationErrorNotValidYet ve else ve
          | None \<Rightarrow> ve))"

definition check_signature ::
  "strconv \<Rightarrow> crypto \<Rightarrow> int \<Rightarrow> string list \<Rightarrow> SigningMethod \<Rightarrow> key \<Rightarrow> JToken \<Rightarrow> JToken \<times> ValidationError option" where
  "check_signature sc cr now parts m k token =
     (let ve = check_times sc now (t_Claims token);
          token = token\<lparr>t_Signature := parts ! 2\<rparr>;
          ve = (case Verify cr m (Join (take 2 parts) ''.'') (t_Signature token) k of
                  Some e \<Rightarrow> or_error e ValidationErrorSignatureInvalid ve
                | None \<Rightarrow> ve)
      in if ve_valid ve then (token\<lparr>t_Valid := True\<rparr>, None) else (token, Some ve))"

text \<open>From the decoded header on: the method, the caller's key, the checks.\<close>

definition Parser_verify ::
  "strconv \<Rightarrow> crypto \<Rightarrow> int \<Rightarrow> string list option \<Rightarrow> Keyfunc option \<Rightarrow> string list \<Rightarrow> JToken \<Rightarrow>
     JToken \<times> ValidationError option" where
  "Parser_verify sc cr now validMethods keyFunc parts token =
     (case map_of (t_Header token) ''alg'' of
        Some (JStr alg) \<Rightarrow>
          (let token = token\<lparr>t_Method := GetSigningMethod alg\<rparr> in
           case t_Method token of
             None \<Rightarrow> (token, Some (NewValidationError AlgUnavailable ValidationErrorUnverifiable))
           | Some m \<Rightarrow>
               if (case validMethods of None \<Rightarrow> False | Some vs \<Rightarrow> Alg m \<notin> set vs) then
                 (token, Some (NewValidationError AlgInvalid ValidationErrorSignatureInvalid))
               else
                 (case keyFunc of
                    None \<Rightarrow> (token, Some (NewValidationError NoKeyfunc ValidationErrorUnverifiable))
                  | Some kf \<Rightarrow>
                      (case kf token of
                         Inl e \<Rightarrow> (token, Some (NewValidationError (KeyfuncError e) ValidationErrorUnverifiable))
                       | Inr k \<Rightarrow> check_signature sc cr now parts m k token)))
      | _ \<Rightarrow> (token, Some (NewValidationError AlgUnspecified ValidationErrorUnverifiable)))"

definition Parser_Parse ::
  "strconv \<Rightarrow> crypto \<Rightarrow> int \<Rightarrow> string list option \<Rightarrow> Keyfunc option \<Rightarrow> string \<Rightarrow>
     JToken option \<times> ValidationError option" where
  "Parser_Parse sc cr now validMethods keyFunc tokenString =
     (let parts = Split (CHR ''.'') tokenString in
      if length parts \<noteq> 3 then (None, Some (NewValidationError Segments ValidationErrorMalformed))
      else
        let token = \<lparr>t_Raw = tokenString, t_Method = None, t_Header = [], t_Claims = [],
                     t_Signature = [], t_Valid = False\<rparr> in
        case DecodeSegment (parts ! 0) of
          None \<Rightarrow>
            (Some token,
             Some (NewValidationError
               (if HasPrefix (ToLower tokenString) ''bearer '' then BearerInToken else CorruptInput)
               ValidationErrorMalformed))
        | Some headerBytes \<Rightarrow>
            (case unmarshal_with (decode_map sc) (string_of_bytes headerBytes) [] of
               (h, e) \<Rightarrow>
                 let token = token\<lparr>t_Header := h\<rparr> in
                 case e of
                   Some je \<Rightarrow> (Some token, Some (NewValidationError (JsonError je) ValidationErrorMalformed))
                 | None \<Rightarrow>
                     (case DecodeSegment (parts ! 1) of
                        None \<Rightarrow> (Some token, Some (NewValidationError CorruptInput ValidationErrorMalformed))
                      | Some claimBytes \<Rightarrow>
                          (case decode_with (decode_map sc) (string_of_bytes claimBytes) [] of
                             (c, e, rest) \<Rightarrow>
                               let token = token\<lparr>t_Claims := c\<rparr> in
                               case e of
                                 Some je \<Rightarrow> (Some token, Some (NewValidationError (JsonError je) ValidationErrorMalformed))
                               | None \<Rightarrow>
                                   (case Parser_verify sc cr now validMethods keyFunc parts token of
                                      (token, ve) \<Rightarrow> (Some token, ve))))))"

definition jwt_Parse ::
  "strconv \<Rightarrow> crypto \<Rightarrow> int \<Rightarrow> Keyfunc option \<Rightarrow> string \<Rightarrow> JToken option \<times> ValidationError option" where
  "jwt_Parse sc cr now keyFunc tokenString = Parser_Parse sc cr now None keyFunc tokenString"

text \<open>
  \<open>ParseFromRequest\<close>: the bearer token of the \<open>Authorization\<close> header, else the form value
  \<open>access_token\<close>. Looking at the form may consume the body, so the request is returned too.
\<close>

definition ParseFromRequest ::
  "strconv \<Rightarrow> crypto \<Rightarrow> int \<Rightarrow> Keyfunc option \<Rightarrow> Request \<Rightarrow>
     (JToken option \<times> (jwt_error + ValidationError) option) \<times> Request" where
  "ParseFromRequest sc cr now keyFunc req =
     (let ah = Get (r_Header req) ''Authorization'' in
      if length ah > 6 \<and> ToUpper (take 7 ah) = ''BEARER '' then
        (case jwt_Parse sc cr now keyFunc (drop 7 ah) of (t, e) \<Rightarrow> ((t, map_option Inr e), req))
      else
        let req = ParseMultipartForm req;
            tokStr = Get (r_Form req) ''access_token'' in
        if tokStr \<noteq> [] then
          (case jwt_Parse sc cr now keyFunc tokStr of (t, e) \<Rightarrow> ((t, map_option Inr e), req))
        else ((None, Some (Inl ErrNoTokenInRequest)), req))"

section \<open>Reading a token back\<close>

definition decoded_claims :: "strconv \<Rightarrow> Token \<Rightarrow> Token" where
  "decoded_claims sc claims = map (\<lambda>(k, v). (k, decoded sc v)) claims"

lemma unmarshal_map:
  assumes "strconv_ok sc" and "wf_json (JObj m)" and "Marshal sc (JObj m) = Inr s"
  shows "unmarshal_with (decode_map sc) s [] = (decoded_claims sc m, None)"
    and "decode_with (decode_map sc) s [] = (decoded_claims sc m, None, [])"
proof -
  from assms(3) obtain t where t: "tree_of sc (JObj m) = Some t" and s: "s = print_tree t"
    by (auto simp: Marshal_def split: option.splits simp del: tree_of.simps)
  have wf: "wf_tree t"
    using wf_json_reads_back [OF assms(1,2)] t unfolding reads_back_def by blast
  show "unmarshal_with (decode_map sc) s [] = (decoded_claims sc m, None)"
    using decode_map_tree [OF assms(1,2) t] parse_print [OF wf] by (simp add: unmarshal_with_def s decoded_claims_def)
  show "decode_with (decode_map sc) s [] = (decoded_claims sc m, None, [])"
    using decode_map_tree [OF assms(1,2) t] decode_next_print_end [OF wf] by (simp add: decode_with_def s decoded_claims_def)
qed

lemma jwt_header_wf: "m \<in> set registered \<Longrightarrow> wf_json (JObj (t_Header (jwt_New m)))"
proof -
  assume m: "m \<in> set registered"
  have "list_all (\<lambda>m. valid_utf8 (Alg m)) registered" by code_simp
  with m have "valid_utf8 (Alg m)" by (simp add: list_all_iff)
  moreover have "valid_utf8 ''alg''" "valid_utf8 ''typ''" "valid_utf8 ''JWT''" by code_simp+
  ultimately show ?thesis by (simp add: jwt_New_def sorted_map_def)
qed

lemma check_times_valid:
  "ve_valid (check_times sc now claims) \<longleftrightarrow>
     (\<forall>e. time_claim sc claims ''exp'' = Some e \<longrightarrow> now \<le> e) \<and>
     (\<forall>n. time_claim sc claims ''nbf'' = Some n \<longrightarrow> n \<le> now)"
proof -
  have nz: "a OR push_bit 3 1 \<noteq> 0" "a OR push_bit 4 1 \<noteq> 0" for a :: uint32
  proof -
    have "bit (a OR push_bit 3 1) 3" "bit (a OR push_bit 4 1) 4" by (simp_all add: bit_simps)
    then show "a OR push_bit 3 1 \<noteq> 0" "a OR push_bit 4 1 \<noteq> 0" by (metis bit_0_eq bot_apply bot_bool_def)+
  qed
  have "ve_valid (or_error e ValidationErrorExpired ve) = False" "ve_valid (or_error e ValidationErrorNotValidYet ve) = False" for e ve
    by (simp_all only: ve_valid_def or_error_def ValidationErrorExpired_def ValidationErrorNotValidYet_def
        ValidationError.select_convs word_neq_0_conv [symmetric] nz not_True_eq_False not_False_eq_True)
  moreover have "ve_valid \<lparr>ve_Inner = None, ve_Errors = 0\<rparr>" by (simp add: ve_valid_def)
  ultimately show ?thesis
    by (simp add: check_times_def Let_def not_less split: option.splits)
qed

definition signed_token :: "strconv \<Rightarrow> SigningMethod \<Rightarrow> Token \<Rightarrow> string \<Rightarrow> JToken" where
  "signed_token sc m claims s = \<lparr>t_Raw = s, t_Method = Some m,
     t_Header = t_Header (jwt_New m), t_Claims = decoded_claims sc claims,
     t_Signature = [], t_Valid = False\<rparr>"

lemma SignedString_parts:
  assumes "SignedString sc cr ((jwt_New m)\<lparr>t_Claims := claims\<rparr>) ks = Inr s"
  obtains h c sig where
    "Marshal sc (JObj (t_Header (jwt_New m))) = Inr h" and "Marshal sc (JObj claims) = Inr c"
    and "Sign cr m (Join [EncodeSegment (bytes_of_string h), EncodeSegment (bytes_of_string c)] ''.'') ks = Inr sig"
    and "s = Join [Join [EncodeSegment (bytes_of_string h), EncodeSegment (bytes_of_string c)] ''.'', sig] ''.''"
  using assms
  by (auto simp: SignedString_def SigningString_def jwt_New_def split: sum.splits simp del: Join.simps)

lemma Parse_signed:
  assumes sc: "strconv_ok sc" and wf: "wf_json (JObj claims)" and m: "m \<in> set registered" and keys: "key_pair cr m ks kv"
    and s: "SignedString sc cr ((jwt_New m)\<lparr>t_Claims := claims\<rparr>) ks = Inr s"
    and kf: "kf (signed_token sc m claims s) = Inr kv"
  shows "\<exists>sig. jwt_Parse sc cr now (Some kf) s =
    (let ve = check_times sc now (decoded_claims sc claims);
         t = (signed_token sc m claims s)\<lparr>t_Signature := sig\<rparr>
     in if ve_valid ve then (Some (t\<lparr>t_Valid := True\<rparr>), None) else (Some t, Some ve))"
proof -
  obtain h c sig where h: "Marshal sc (JObj (t_Header (jwt_New m))) = Inr h"
    and c: "Marshal sc (JObj claims) = Inr c"
    and sig: "Sign cr m (Join [EncodeSegment (bytes_of_string h), EncodeSegment (bytes_of_string c)] ''.'') ks = Inr sig"
    and s': "s = Join [Join [EncodeSegment (bytes_of_string h), EncodeSegment (bytes_of_string c)] ''.'', sig] ''.''"
    using SignedString_parts [OF s] .
  note parts = signing.signed_parts [OF registered_signing [OF m] keys EncodeSegment_no_dot EncodeSegment_no_dot sig]
  have split: "Split (CHR ''.'') s =
      [EncodeSegment (bytes_of_string h), EncodeSegment (bytes_of_string c), sig]"
    using parts(1) unfolding s' .
  have hdr: "decoded_claims sc (t_Header (jwt_New m)) = t_Header (jwt_New m)"
    by (simp add: jwt_New_def decoded_claims_def)
  have alg: "map_of (t_Header (jwt_New m)) ''alg'' = Some (JStr (Alg m))"
    by (simp add: jwt_New_def)
  have tok: "\<lparr>t_Raw = s, t_Method = Some m, t_Header = t_Header (jwt_New m),
      t_Claims = decoded_claims sc claims, t_Signature = [], t_Valid = False\<rparr> = signed_token sc m claims s"
    by (simp add: signed_token_def)
  show ?thesis
    using parts(2)
    by (intro exI [of _ sig])
      (simp add: jwt_Parse_def Parser_Parse_def Let_def split hdr alg tok kf GetSigningMethod_registered [OF m]
        unmarshal_map(1) [OF sc jwt_header_wf [OF m] h] unmarshal_map(2) [OF sc wf c]
        Parser_verify_def check_signature_def,
       simp add: signed_token_def)
qed

lemmas Parse_signed_HS256 = Parse_signed [where m = SigningMethodHS256 and ks = "KeyBytes k" and kv = "KeyBytes k" for k,
    OF _ _ HS256_registered, unfolded SigningMethodHS256_def key_pair.simps, folded SigningMethodHS256_def, OF _ _ refl]

text \<open>What a token without error went through.\<close>

lemma check_signature_accepts:
  assumes "check_signature sc cr now parts m k token = (t, None)"
  shows "Verify cr m (Join (take 2 parts) ''.'') (parts ! 2) k = None \<and>
    ve_valid (check_times sc now (t_Claims token)) \<and>
    t = token\<lparr>t_Signature := parts ! 2, t_Valid := True\<rparr>"
proof -
  have "ve_valid (or_error e ValidationErrorSignatureInvalid ve) = False" for e ve
  proof -
    have "bit (ve_Errors ve OR push_bit 2 1) 2" by (simp add: bit_simps)
    then have "ve_Errors ve OR push_bit 2 1 \<noteq> 0" by (metis bit_0_eq bot_apply bot_bool_def)
    then show ?thesis
      by (simp only: ve_valid_def or_error_def ValidationErrorSignatureInvalid_def
          ValidationError.select_convs word_neq_0_conv [symmetric] not_True_eq_False not_False_eq_True)
  qed
  with assms show ?thesis
    by (auto simp: check_signature_def Let_def split: option.splits if_splits)
qed

lemma Parse_accepts:
  assumes "jwt_Parse sc cr now (Some kf) s = (r, None)"
  obtains h c sig m k token where "Split (CHR ''.'') s = [h, c, sig]" and "t_Method token = Some m"
    and "kf token = Inr k" and "Verify cr m (h @ ''.'' @ c) sig k = None"
    and "ve_valid (check_times sc now (t_Claims token))"
    and "r = Some (token\<lparr>t_Signature := sig, t_Valid := True\<rparr>)"
proof -
  from assms have len: "length (Split (CHR ''.'') s) = 3"
    by (auto simp: jwt_Parse_def Parser_Parse_def Let_def split: if_splits)
  then obtain h c sig where parts: "Split (CHR ''.'') s = [h, c, sig]"
    by (auto simp: numeral_3_eq_3 length_Suc_conv)
  from assms obtain token0 t where v: "Parser_verify sc cr now None (Some kf) [h, c, sig] token0 = (t, None)"
    and r: "r = Some t"
    by (auto simp: jwt_Parse_def Parser_Parse_def Let_def parts split: option.splits prod.splits)
  from v obtain alg m k where "kf (token0\<lparr>t_Method := Some m\<rparr>) = Inr k"
    "check_signature sc cr now [h, c, sig] m k (token0\<lparr>t_Method := Some m\<rparr>) = (t, None)"
    by (auto simp: Parser_verify_def Let_def split: option.splits json.splits sum.splits)
  with check_signature_accepts [OF this(2)] parts r show thesis
    by (intro that [of h c sig "token0\<lparr>t_Method := Some m\<rparr>" m k]) auto
qed

section \<open>Properties\<close>

text \<open>
  C15: a token signed with any registered method (HMAC, none, RSA with either padding, ECDSA) parses back under
  the matching key to the claims that were put into it, valid unless its \<open>exp\<close> has passed or its \<open>nbf\<close> is still to
  come; in that case exactly those errors are reported.
\<close>

theorem signed_token_roundtrip:
  assumes "strconv_ok sc" and "wf_json (JObj claims)" and "m \<in> set registered" and "key_pair cr m ks kv"
    and "SignedString sc cr ((jwt_New m)\<lparr>t_Claims := claims\<rparr>) ks = Inr s"
    and "\<forall>t. t_Method t = Some m \<longrightarrow> kf t = Inr kv"
  shows "\<exists>t. t_Claims t = decoded_claims sc claims \<and> t_Method t = Some m \<and>
    t_Valid t = ve_valid (check_times sc now (decoded_claims sc claims)) \<and>
    jwt_Parse sc cr now (Some kf) s =
      (Some t, if t_Valid t then None else Some (check_times sc now (decoded_claims sc claims)))"
proof -
  have "kf (signed_token sc m claims s) = Inr kv"
    using assms(6) by (simp add: signed_token_def)
  from Parse_signed [OF assms(1-5), where kf = kf and now = now, OF this] obtain sig where
    p: "jwt_Parse sc cr now (Some kf) s =
    (let ve = check_times sc now (decoded_claims sc claims);
         t = (signed_token sc m claims s)\<lparr>t_Signature := sig\<rparr>
     in if ve_valid ve then (Some (t\<lparr>t_Valid := True\<rparr>), None) else (Some t, Some ve))" ..
  let ?t = "(signed_token sc m claims s)\<lparr>t_Signature := sig, t_Valid := ve_valid (check_times sc now (decoded_claims sc claims))\<rparr>"
  show ?thesis
    by (intro exI [of _ ?t]) (auto simp: p Let_def signed_token_def)
qed

text \<open>A concrete library: keys are numbers, a signature is the sum and the number of the key.\<close>

definition demo_crypto :: crypto where
  "demo_crypto = \<lparr>hmac_sum = \<lambda>h k s. k @ s, hash_available = \<lambda>h. True, hash_sum = \<lambda>h s. s,
     pem_Decode = \<lambda>b. None, ParsePKCS1PrivateKey = \<lambda>b. Inl [], ParsePKCS8PrivateKey = \<lambda>b. Inl [],
     ParsePKIXPublicKey = \<lambda>b. Inl [], ParseCertificate = \<lambda>b. Inl [], ParseECPrivateKey = \<lambda>b. Inl [],
     SignPKCS1v15 = \<lambda>p h d. Inr (word_of_nat p # d),
     VerifyPKCS1v15 = \<lambda>p h d sig. if sig = word_of_nat p # d then None else Some [],
     SignPSS = \<lambda>p h d. Inr (word_of_nat p # d),
     VerifyPSS = \<lambda>p h d sig. if sig = word_of_nat p # d then None else Some [],
     ecdsa_sign = \<lambda>p d. Inr (p, length d), ecdsa_verify = \<lambda>p d r s. r = p \<and> s = length d,
     BitSize = \<lambda>p. 521\<rparr>"

lemma demo_signed: "\<exists>s. SignedString int_strconv demo_crypto ((jwt_New SigningMethodHS256)\<lparr>t_Claims := [(''exp'', JInt 50)]\<rparr>) (KeyBytes [1]) = Inr s"
  by (simp add: SignedString_def SigningString_def jwt_New_def SigningMethodHS256_def HMAC_Sign_def demo_crypto_def Marshal_def)

lemma demo_claims_wf: "wf_json (JObj [(''exp'', JInt 50)])"
proof -
  have "valid_utf8 ''exp''" by code_simp
  then show ?thesis by (simp add: sorted_map_def)
qed

theorem signed_token_roundtrip_witness:
  "\<exists>s t. SignedString int_strconv demo_crypto ((jwt_New (SigningMethodRSA ''RS256'' SHA256))\<lparr>t_Claims := [(''exp'', JInt 50)]\<rparr>)
       (RSAPrivateKey 7) = Inr s \<and>
     fst (jwt_Parse int_strconv demo_crypto 40 (Some (\<lambda>t. Inr (RSAPublicKey 7))) s) = Some t"
proof -
  let ?m = "SigningMethodRSA ''RS256'' SHA256"
  obtain s where s: "SignedString int_strconv demo_crypto ((jwt_New ?m)\<lparr>t_Claims := [(''exp'', JInt 50)]\<rparr>) (RSAPrivateKey 7) = Inr s"
    by (simp add: SignedString_def SigningString_def jwt_New_def RSA_Sign_def rsa_private_def demo_crypto_def Marshal_def)
  have m: "?m \<in> set registered" by (simp add: method_list)
  have "key_pair demo_crypto ?m (RSAPrivateKey 7) (RSAPublicKey 7)"
    by (simp add: rsa_keys_def rsa_private_def rsa_public_def rsa_pair_def demo_crypto_def)
  from signed_token_roundtrip [OF int_strconv_ok demo_claims_wf m this s, of "\<lambda>t. Inr (RSAPublicKey 7)" 40] s
  show ?thesis by fastforce
qed

text \<open>
  C16: a token is accepted only if its third segment is the HMAC of the first two under the
  secret, when the key function hands the secret to HMAC methods only; and neither its \<open>exp\<close> has
  passed nor is its \<open>nbf\<close> still to come. The claims are those of the second segment.
\<close>

theorem accepted_token_is_signed:
  assumes "jwt_Parse sc cr now (Some kf) s = (r, None)"
    and "\<forall>t k. kf t = Inr k \<longrightarrow> (\<exists>n hash. t_Method t = Some (SigningMethodHMAC n hash)) \<and> k = KeyBytes secret"
  shows "\<exists>t h c sig n hash. r = Some t \<and> t_Valid t \<and> Split (CHR ''.'') s = [h, c, sig] \<and>
    t_Method t = Some (SigningMethodHMAC n hash) \<and>
    DecodeSegment sig = Some (hmac_sum cr hash secret (bytes_of_string (h @ ''.'' @ c))) \<and>
    (\<forall>e. time_claim sc (t_Claims t) ''exp'' = Some e \<longrightarrow> now \<le> e) \<and>
    (\<forall>n. time_claim sc (t_Claims t) ''nbf'' = Some n \<longrightarrow> n \<le> now)"
proof -
  obtain h c sig m k token where p: "Split (CHR ''.'') s = [h, c, sig]" "t_Method token = Some m"
    "kf token = Inr k" "Verify cr m (h @ ''.'' @ c) sig k = None"
    "ve_valid (check_times sc now (t_Claims token))" "r = Some (token\<lparr>t_Signature := sig, t_Valid := True\<rparr>)"
    using Parse_accepts [OF assms(1)] .
  with assms(2) obtain n hash where m: "m = SigningMethodHMAC n hash" and k: "k = KeyBytes secret"
    by (metis option.inject)
  from p(4) have "DecodeSegment sig = Some (hmac_sum cr hash secret (bytes_of_string (h @ ''.'' @ c)))"
    by (auto simp: m k HMAC_Verify_def split: option.splits if_splits)
  with p m show ?thesis
    by (intro exI [of _ "token\<lparr>t_Signature := sig, t_Valid := True\<rparr>"] exI [of _ h] exI [of _ c] exI [of _ sig]
        exI [of _ n] exI [of _ hash]) (simp add: check_times_valid)
qed

theorem accepted_token_is_signed_witness:
  "\<exists>s r t. jwt_Parse int_strconv demo_crypto 40
      (Some (\<lambda>t. case t_Method t of Some (SigningMethodHMAC n h) \<Rightarrow> Inr (KeyBytes [1]) | _ \<Rightarrow> Inl ''no'')) s = (r, None) \<and>
    r = Some t \<and> t_Valid t"
proof -
  let ?kf = "\<lambda>t. case t_Method t of Some (SigningMethodHMAC n h) \<Rightarrow> Inr (KeyBytes [1]) | _ \<Rightarrow> Inl ''no''"
  obtain s where s: "SignedString int_strconv demo_crypto ((jwt_New SigningMethodHS256)\<lparr>t_Claims := [(''exp'', JInt 50)]\<rparr>) (KeyBytes [1]) = Inr s"
    using demo_signed ..
  have "?kf (signed_token int_strconv SigningMethodHS256 [(''exp'', JInt 50)] s) = Inr (KeyBytes [1])"
    by (simp add: signed_token_def SigningMethodHS256_def)
  from Parse_signed_HS256 [OF int_strconv_ok demo_claims_wf s, where kf = ?kf and now = 40, OF this]
  obtain r where r: "jwt_Parse int_strconv demo_crypto 40 (Some ?kf) s = (r, None)"
    by (auto simp: check_times_valid decoded_claims_def time_claim_def int_strconv_def Atoi_format_int)
  have "\<forall>t k. ?kf t = Inr k \<longrightarrow> (\<exists>n hash. t_Method t = Some (SigningMethodHMAC n hash)) \<and> k = KeyBytes [1]"
    by (auto split: option.splits SigningMethod.splits)
  from accepted_token_is_signed [OF r this] r show ?thesis by blast
qed

end
