(* ===== verification/Server_Errors.thy ===== *)
theory Server_Errors
  imports Mutation_Log Jwt
begin

text \<open>
  \<open>arla/errors.go\<close>: the errors the handlers return, with their HTTP status and the message the
  client sees. \<open>userError\<close> passes on the message of a PostgreSQL error and reads the extended
  information that the JavaScript side packs into it.
\<close>

section \<open>Go errors\<close>

text \<open>The dynamic type of an error matters only for \<open>pgx.PgError\<close>, of which the message is used.\<close>

datatype go_error =
    PgError string
  | ErrorString string
  | JsonErr json_error
  | LogErr log_error
  | JwtErr "jwt_error + ValidationError"
  | TempOffline

record Error =
  e_err :: go_error
  e_code :: nat
  e_Message :: string
  e_Line :: int
  e_Column :: int
  e_Offset :: int
  e_Context :: string
  e_Property :: string
  e_Type :: string
  e_Kind :: string
  e_Mutation :: "Mutation option"

definition new_error :: "go_error \<Rightarrow> nat \<Rightarrow> string \<Rightarrow> Error" where
  "new_error err c msg = \<lparr>e_err = err, e_code = c, e_Message = msg, e_Line = 0, e_Column = 0, e_Offset = 0,
     e_Context = [], e_Property = [], e_Type = [], e_Kind = [], e_Mutation = None\<rparr>"

section \<open>JSON form\<close>

text \<open>The field \<open>Mutation\<close> is a pointer: \<open>null\<close> clears it, an object is decoded into it.\<close>

definition decode_mutation_ptr :: "strconv \<Rightarrow> jtree \<Rightarrow> Mutation option \<Rightarrow> Mutation option \<times> dstatus" where
  "decode_mutation_ptr sc t p =
     (if t = TNull then (None, DOk)
      else case decode_mutation sc t (case p of Some m \<Rightarrow> m | None \<Rightarrow> zero_mutation) of (m, st) \<Rightarrow> (Some m, st))"

definition error_fields :: "strconv \<Rightarrow> Error field list" where
  "error_fields sc =
     [(''error'', \<lambda>t e. case decode_string t (e_Message e) of (v, st) \<Rightarrow> (e\<lparr>e_Message := v\<rparr>, st)),
      (''line'', \<lambda>t e. case decode_int t (e_Line e) of (v, st) \<Rightarrow> (e\<lparr>e_Line := v\<rparr>, st)),
      (''column'', \<lambda>t e. case decode_int t (e_Column e) of (v, st) \<Rightarrow> (e\<lparr>e_Column := v\<rparr>, st)),
      (''offset'', \<lambda>t e. case decode_int t (e_Offset e) of (v, st) \<Rightarrow> (e\<lparr>e_Offset := v\<rparr>, st)),
      (''context'', \<lambda>t e. case decode_string t (e_Context e) of (v, st) \<Rightarrow> (e\<lparr>e_Context := v\<rparr>, st)),
      (''property'', \<lambda>t e. case decode_string t (e_Property e) of (v, st) \<Rightarrow> (e\<lparr>e_Property := v\<rparr>, st)),
      (''type'', \<lambda>t e. case decode_string t (e_Type e) of (v, st) \<Rightarrow> (e\<lparr>e_Type := v\<rparr>, st)),
      (''kind'', \<lambda>t e. case decode_string t (e_Kind e) of (v, st) \<Rightarrow> (e\<lparr>e_Kind := v\<rparr>, st)),
      (''mutation'', \<lambda>t e. case decode_mutation_ptr sc t (e_Mutation e) of (v, st) \<Rightarrow> (e\<lparr>e_Mutation := v\<rparr>, st))]"

text \<open>
  \<open>json.Unmarshal(b, &e)\<close> with a pointer to the \<open>*Error\<close>: the text \<open>null\<close> sets the pointer
  itself to nil. The error of the call is dropped.
\<close>

definition unmarshal_error :: "strconv \<Rightarrow> string \<Rightarrow> Error \<Rightarrow> Error option" where
  "unmarshal_error sc b e =
     (case parse_text b of
        None \<Rightarrow> Some e
      | Some TNull \<Rightarrow> None
      | Some t \<Rightarrow> Some (fst (decode_struct (error_fields sc) t e)))"

definition error_tree :: "strconv \<Rightarrow> Error \<Rightarrow> jtree option" where
  "error_tree sc e =
     (let str = \<lambda>k s. opt_field (s \<noteq> []) k (TStr (escape s));
          num = \<lambda>k i. opt_field (i \<noteq> 0) k (TNum (format_int i));
          fields = [(''error'', TStr (escape (e_Message e)))] @
            num ''line'' (e_Line e) @ num ''column'' (e_Column e) @ num ''offset'' (e_Offset e) @
            str ''context'' (e_Context e) @ str ''property'' (e_Property e) @ str ''type'' (e_Type e) @
            str ''kind'' (e_Kind e)
      in case e_Mutation e of
           None \<Rightarrow> Some (TObj fields)
         | Some m \<Rightarrow> map_option (\<lambda>t. TObj (fields @ [(''mutation'', t)])) (mutation_tree sc m))"

section \<open>Constructors\<close>

definition strip_error :: "string \<Rightarrow> string" where
  "strip_error msg = (if HasPrefix msg ''Error: '' then Replace1 msg ''Error: '' [] else msg)"

definition userError :: "strconv \<Rightarrow> go_error \<Rightarrow> Error option" where
  "userError sc err =
     (let e = new_error err 400 ''there was a problem processing your request'' in
      case err of
        PgError msg \<Rightarrow>
          (let msg = strip_error msg;
               e = e\<lparr>e_Message := msg\<rparr> in
           if HasPrefix msg ''UserError:'' then Some (e\<lparr>e_Message := Replace1 msg ''UserError: '' []\<rparr>)
           else if HasPrefix msg ''QueryError:'' then unmarshal_error sc (Replace1 msg ''QueryError: '' []) e
           else if HasPrefix msg ''MutationError:'' then unmarshal_error sc (Replace1 msg ''MutationError: '' []) e
           else Some e)
      | _ \<Rightarrow> Some e)"

definition internalError :: "go_error \<Rightarrow> Error" where
  "internalError err = new_error err 500 ''a server error prevented your request from being processed correctly''"

definition authError :: "go_error \<Rightarrow> Error" where
  "authError err = new_error err 401 ''you are not authorized to perform this request''"

definition tempError :: Error where
  "tempError = new_error TempOffline 503 ''Service is temporarily unavailable''"

section \<open>Properties\<close>

text \<open>Decoding never touches the two unexported fields.\<close>

lemma decode_members_keep:
  assumes "\<forall>(n, d) \<in> set fs. \<forall>t r. f (fst (d t r)) = f r"
  shows "f (fst (decode_members fs ms r)) = f r"
proof (induction ms arbitrary: r)
  case (Cons p ms)
  obtain k t where p: "p = (k, t)" by (cases p)
  show ?case
  proof (cases "find_field fs (unquote k)")
    case (Some d)
    then have "\<exists>n. (n, d) \<in> set fs"
      by (auto simp: find_field_def split: option.splits dest!: map_of_SomeD)
    with assms have "f (fst (d t r)) = f r" by fastforce
    with Cons.IH [of "fst (d t r)"] Some p show ?thesis by (auto simp: case_prod_beta)
  qed (use Cons p in simp)
qed simp

lemma error_fields_keep:
  "e_code (fst (decode_members (error_fields sc) ms e)) = e_code e"
  "e_err (fst (decode_members (error_fields sc) ms e)) = e_err e"
  by (rule decode_members_keep, simp add: error_fields_def split: prod.splits)+

lemma unmarshal_error_keep:
  "unmarshal_error sc b e = Some e' \<Longrightarrow> e_code e' = e_code e \<and> e_err e' = e_err e"
  using error_fields_keep
  by (auto simp: unmarshal_error_def decode_struct_def split: option.splits jtree.splits if_splits)

lemma unmarshal_error_None: "unmarshal_error sc b e = None \<longleftrightarrow> parse_text b = Some TNull"
  by (auto simp: unmarshal_error_def split: option.splits jtree.splits)

text \<open>
  C19: a user error always answers with status 400 and keeps the cause for the server's log,
  whatever extended information the database sent; it becomes a nil error, which the handlers
  report as success, exactly when that information is the JSON text \<open>null\<close>.
\<close>

theorem userError_status:
  "(\<forall>e. userError sc err = Some e \<longrightarrow> e_code e = 400 \<and> e_err e = err) \<and>
   (userError sc err = None \<longleftrightarrow>
     (\<exists>msg p. err = PgError msg \<and> p \<in> {''QueryError:'', ''MutationError:''} \<and>
        HasPrefix (strip_error msg) p \<and> parse_text (Replace1 (strip_error msg) (p @ '' '') []) = Some TNull))"
proof
  show "\<forall>e. userError sc err = Some e \<longrightarrow> e_code e = 400 \<and> e_err e = err"
    by (cases err) (auto simp: userError_def new_error_def Let_def dest!: unmarshal_error_keep split: if_splits)
  have "\<not> HasPrefix msg p" if "HasPrefix msg q" "p \<in> {''QueryError:'', ''MutationError:''}"
    "q \<in> {''UserError:'', ''QueryError:'', ''MutationError:''}" "p \<noteq> q" for msg p q
    using that by (auto simp: HasPrefix_iff)
  then show "userError sc err = None \<longleftrightarrow>
     (\<exists>msg p. err = PgError msg \<and> p \<in> {''QueryError:'', ''MutationError:''} \<and>
        HasPrefix (strip_error msg) p \<and> parse_text (Replace1 (strip_error msg) (p @ '' '') []) = Some TNull)"
    by (cases err) (auto simp: userError_def Let_def unmarshal_error_None split: if_splits)
qed

theorem userError_status_witness:
  "userError int_strconv (ErrorString ''boom'') = Some (new_error (ErrorString ''boom'') 400
     ''there was a problem processing your request'') \<and>
   e_code (new_error (ErrorString ''boom'') 400 ''there was a problem processing your request'') = 400"
proof -
  have "userError int_strconv (ErrorString ''boom'') = Some (new_error (ErrorString ''boom'') 400
     ''there was a problem processing your request'')"
    by (simp add: userError_def)
  with userError_status [of int_strconv "ErrorString ''boom''"] show ?thesis by blast
qed

text \<open>
  The text of an internal error, of an authentication error and of an error that does not
  come from PostgreSQL never reaches the client: the response is the same for every cause.
\<close>

theorem causes_are_masked:
  "error_tree sc (internalError err) = error_tree sc (internalError err') \<and>
   error_tree sc (authError err) = error_tree sc (authError err') \<and>
   ((\<forall>msg. err \<noteq> PgError msg) \<and> (\<forall>msg. err' \<noteq> PgError msg) \<longrightarrow>
     map_option (error_tree sc) (userError sc err) = map_option (error_tree sc) (userError sc err') \<and>
     userError sc err \<noteq> None)"
proof -
  have "error_tree sc (new_error err c msg) = error_tree sc (new_error err' c msg)" for c msg
    by (simp add: error_tree_def new_error_def)
  then show ?thesis
    by (auto simp: internalError_def authError_def userError_def Let_def split: go_error.splits)
qed

theorem causes_are_masked_witness:
  "map_option (error_tree int_strconv) (userError int_strconv (ErrorString ''disk full'')) =
   map_option (error_tree int_strconv) (userError int_strconv TempOffline)"
  using causes_are_masked [of int_strconv "ErrorString ''disk full''" TempOffline] by simp

end
