(* ===== verification/Pgx_Wire.thy ===== *)
theory Pgx_Wire
  imports Schema
begin

text \<open>
  The wire format of \<open>github.com/jackc/pgx\<close>: \<open>messages.go\<close> (building messages), \<open>msg_reader.go\<close>
  (reading them with a count of the bytes that are left in the current message) and
  \<open>value_reader.go\<close> (the same for one value of a row), with the encoder of \<open>arla/schema/uuid.go\<close>
  that writes into such a message. Signed integers of Go are words of their width; \<open>sint\<close> reads
  them. Trace logging is left out.
\<close>

section \<open>Building messages\<close>

record WriteBuf =
  wb_buf :: bytes
  wb_sizeIdx :: nat

definition newWriteBuf :: "byte \<Rightarrow> WriteBuf" where
  "newWriteBuf t = \<lparr>wb_buf = [t, 0, 0, 0, 0], wb_sizeIdx = 1\<rparr>"

definition closeMsg :: "WriteBuf \<Rightarrow> WriteBuf" where
  "closeMsg wb = wb\<lparr>wb_buf :=
     go_copy (wb_sizeIdx wb) (be32 (word_of_nat (length (wb_buf wb) - wb_sizeIdx wb))) (wb_buf wb)\<rparr>"

definition startMsg :: "byte \<Rightarrow> WriteBuf \<Rightarrow> WriteBuf" where
  "startMsg t wb =
     (let wb = closeMsg wb;
          wb = wb\<lparr>wb_buf := wb_buf wb @ [t, 0, 0, 0, 0]\<rparr>
      in wb\<lparr>wb_sizeIdx := length (wb_buf wb) - 4\<rparr>)"

definition append_buf :: "bytes \<Rightarrow> WriteBuf \<Rightarrow> WriteBuf" where
  "append_buf b wb = wb\<lparr>wb_buf := wb_buf wb @ b\<rparr>"

definition WriteByte :: "byte \<Rightarrow> WriteBuf \<Rightarrow> WriteBuf" where
  "WriteByte b = append_buf [b]"

definition WriteCString :: "string \<Rightarrow> WriteBuf \<Rightarrow> WriteBuf" where
  "WriteCString s wb = append_buf [0] (append_buf (bytes_of_string s) wb)"

definition WriteInt16 :: "16 word \<Rightarrow> WriteBuf \<Rightarrow> WriteBuf" where
  "WriteInt16 n = append_buf (be16 n)"

definition WriteInt32 :: "32 word \<Rightarrow> WriteBuf \<Rightarrow> WriteBuf" where
  "WriteInt32 n = append_buf (be32 n)"

definition WriteInt64 :: "64 word \<Rightarrow> WriteBuf \<Rightarrow> WriteBuf" where
  "WriteInt64 n = append_buf (be64 n)"

definition WriteBytes :: "bytes \<Rightarrow> WriteBuf \<Rightarrow> WriteBuf" where
  "WriteBytes b = append_buf b"

text \<open>
  The startup message has no type byte; its options are written in the order in which the
  iteration over the map meets them, given here as a list.
\<close>

definition protocolVersionNumber :: "32 word" where
  "protocolVersionNumber = 196608"

definition startup_Bytes :: "(string \<times> string) list \<Rightarrow> bytes" where
  "startup_Bytes options =
     (let buf = replicate 8 0;
          buf = go_copy 4 (be32 protocolVersionNumber) buf;
          buf = foldl (\<lambda>buf (k, v). buf @ bytes_of_string k @ [0] @ bytes_of_string v @ [0]) buf options;
          buf = buf @ [0]
      in go_copy 0 (be32 (word_of_nat (length buf))) buf)"

text \<open>\<open>UUID.Encode\<close> and \<open>UUID.FormatCode\<close> of the schema package: the zero UUID is NULL.\<close>

definition UUID_Encode :: "UUID \<Rightarrow> WriteBuf \<Rightarrow> WriteBuf" where
  "UUID_Encode u wb =
     (if \<not> UUID_Valid u then WriteInt32 (- 1) wb
      else let b = UUID_Bytes u in WriteBytes b (WriteInt32 (word_of_nat (length b)) wb))"

definition TextFormatCode :: "16 word" where "TextFormatCode = 0"
definition BinaryFormatCode :: "16 word" where "BinaryFormatCode = 1"

definition UUID_FormatCode :: "16 word" where
  "UUID_FormatCode = BinaryFormatCode"

section \<open>Reading messages\<close>

text \<open>\<open>ProtocolErr\<close> is an error a decoder reports through \<open>Fatal\<close>; its text keeps the fixed part of the message.\<close>

datatype mr_error = PastEndOfMessage | PastEndOfValue | NegativeCount | ReadFailed | ProtocolErr string

text \<open>
  The reader's stream is the bytes that will still arrive; the scratch buffer keeps what a short
  read left in it.
\<close>

record msgReader =
  mr_input :: bytes
  mr_buf :: bytes
  mr_remaining :: "32 word"
  mr_err :: "mr_error option"

definition fatal :: "mr_error \<Rightarrow> msgReader \<Rightarrow> msgReader" where
  "fatal e r = r\<lparr>mr_err := Some e\<rparr>"

text \<open>\<open>io.ReadFull\<close> into the first \<open>n\<close> bytes of the scratch buffer.\<close>

definition fill :: "nat \<Rightarrow> msgReader \<Rightarrow> bool \<times> msgReader" where
  "fill n r =
     (let got = take n (mr_input r) in
      (length got = n, r\<lparr>mr_buf := go_copy 0 got (mr_buf r), mr_input := drop n (mr_input r)\<rparr>))"

definition rxMsg :: "msgReader \<Rightarrow> (byte \<times> mr_error option) \<times> msgReader" where
  "rxMsg r =
     (case mr_err r of
        Some e \<Rightarrow> ((0, Some e), r)
      | None \<Rightarrow>
          if sint (mr_remaining r) > 0 \<and> length (mr_input r) < nat (sint (mr_remaining r)) then
            ((0, Some ReadFailed), r\<lparr>mr_input := []\<rparr>)
          else
            let r = r\<lparr>mr_input := drop (nat (sint (mr_remaining r))) (mr_input r)\<rparr> in
            case fill 5 r of
              (ok, r) \<Rightarrow>
                ((mr_buf r ! 0, if ok then None else Some ReadFailed),
                 r\<lparr>mr_remaining := be_word (take 4 (drop 1 (mr_buf r))) - 4\<rparr>))"

text \<open>The guard that every typed read starts with.\<close>

definition take_remaining :: "32 word \<Rightarrow> msgReader \<Rightarrow> bool \<times> msgReader" where
  "take_remaining n r =
     (let r = r\<lparr>mr_remaining := mr_remaining r - n\<rparr> in
      if sint (mr_remaining r) < 0 then (False, fatal PastEndOfMessage r) else (True, r))"

definition read_word :: "nat \<Rightarrow> msgReader \<Rightarrow> 'a::len word \<times> msgReader" where
  "read_word n r =
     (if mr_err r \<noteq> None then (0, r)
      else case take_remaining (word_of_nat n) r of
             (False, r) \<Rightarrow> (0, r)
           | (True, r) \<Rightarrow>
               (case fill n r of
                  (False, r) \<Rightarrow> (0, fatal ReadFailed r)
                | (True, r) \<Rightarrow> (be_word (take n (mr_buf r)), r)))"

definition readByte :: "msgReader \<Rightarrow> byte \<times> msgReader" where
  "readByte r =
     (if mr_err r \<noteq> None then (0, r)
      else case take_remaining 1 r of
             (False, r) \<Rightarrow> (0, r)
           | (True, r) \<Rightarrow>
               (case mr_input r of
                  [] \<Rightarrow> (0, fatal ReadFailed r)
                | b # bs \<Rightarrow> (b, r\<lparr>mr_input := bs\<rparr>)))"

definition readInt16 :: "msgReader \<Rightarrow> 16 word \<times> msgReader" where
  "readInt16 r = read_word 2 r"

definition readInt32 :: "msgReader \<Rightarrow> 32 word \<times> msgReader" where
  "readInt32 r = read_word 4 r"

definition readInt64 :: "msgReader \<Rightarrow> 64 word \<times> msgReader" where
  "readInt64 r = read_word 8 r"

definition readOid :: "msgReader \<Rightarrow> 32 word \<times> msgReader" where
  "readOid r = readInt32 r"

text \<open>
  \<open>readCString\<close> takes the bytes up to a zero byte from the stream first and checks the count
  afterwards.
\<close>

definition readCString :: "msgReader \<Rightarrow> string \<times> msgReader" where
  "readCString r =
     (if mr_err r \<noteq> None then ([], r)
      else
        let s = takeWhile (\<lambda>b. b \<noteq> 0) (mr_input r) in
        if length s = length (mr_input r) then ([], fatal ReadFailed (r\<lparr>mr_input := []\<rparr>))
        else
          let r = r\<lparr>mr_input := drop (length s + 1) (mr_input r)\<rparr> in
          case take_remaining (word_of_nat (length s + 1)) r of
            (False, r) \<Rightarrow> ([], r)
          | (True, r) \<Rightarrow> (string_of_bytes s, r))"

text \<open>
  \<open>readString\<close> and \<open>readBytes\<close>: a negative count panics when the slice is made (\<open>None\<close>).
\<close>

definition readBytes :: "32 word \<Rightarrow> msgReader \<Rightarrow> (bytes \<times> msgReader) option" where
  "readBytes count r =
     (if mr_err r \<noteq> None then Some ([], r)
      else case take_remaining count r of
             (False, r) \<Rightarrow> Some ([], r)
           | (True, r) \<Rightarrow>
               if sint count < 0 then None
               else if length (mr_input r) < nat (sint count) then Some ([], fatal ReadFailed (r\<lparr>mr_input := []\<rparr>))
               else Some (take (nat (sint count)) (mr_input r),
                      r\<lparr>mr_input := drop (nat (sint count)) (mr_input r)\<rparr>))"

definition readString :: "32 word \<Rightarrow> msgReader \<Rightarrow> (string \<times> msgReader) option" where
  "readString count r =
     (if mr_err r \<noteq> None then Some ([], r)
      else case take_remaining count r of
             (False, r) \<Rightarrow> Some ([], r)
           | (True, r) \<Rightarrow>
               if sint count < 0 then None
               else if sint count \<le> 128 then
                 (case fill (nat (sint count)) r of
                    (False, r) \<Rightarrow> Some ([], fatal ReadFailed r)
                  | (True, r) \<Rightarrow> Some (string_of_bytes (take (nat (sint count)) (mr_buf r)), r))
               else if length (mr_input r) < nat (sint count) then Some ([], fatal ReadFailed (r\<lparr>mr_input := []\<rparr>))
               else Some (string_of_bytes (take (nat (sint count)) (mr_input r)),
                      r\<lparr>mr_input := drop (nat (sint count)) (mr_input r)\<rparr>))"

section \<open>Reading values\<close>

record FieldDescription =
  fd_Name :: string
  fd_Table :: "32 word"
  fd_AttributeNumber :: "16 word"
  fd_DataType :: "32 word"
  fd_DataTypeSize :: "16 word"
  fd_DataTypeName :: string
  fd_Modifier :: "32 word"
  fd_FormatCode :: "16 word"

record ValueReader =
  vr_mr :: msgReader
  vr_fd :: FieldDescription
  vr_remaining :: "32 word"
  vr_err :: "mr_error option"

definition vr_Len :: "ValueReader \<Rightarrow> 32 word" where
  "vr_Len r = vr_remaining r"

definition vr_Fatal :: "mr_error \<Rightarrow> ValueReader \<Rightarrow> ValueReader" where
  "vr_Fatal e r = r\<lparr>vr_err := Some e\<rparr>"

definition vr_take :: "32 word \<Rightarrow> ValueReader \<Rightarrow> bool \<times> ValueReader" where
  "vr_take n r =
     (let r = r\<lparr>vr_remaining := vr_remaining r - n\<rparr> in
      if sint (vr_remaining r) < 0 then (False, vr_Fatal PastEndOfValue r) else (True, r))"

definition vr_read :: "32 word \<Rightarrow> 'a \<Rightarrow> (msgReader \<Rightarrow> 'a \<times> msgReader) \<Rightarrow> ValueReader \<Rightarrow> 'a \<times> ValueReader" where
  "vr_read n zero rd r =
     (if vr_err r \<noteq> None then (zero, r)
      else case vr_take n r of
             (False, r) \<Rightarrow> (zero, r)
           | (True, r) \<Rightarrow> (case rd (vr_mr r) of (v, mr) \<Rightarrow> (v, r\<lparr>vr_mr := mr\<rparr>)))"

definition vr_ReadByte :: "ValueReader \<Rightarrow> byte \<times> ValueReader" where
  "vr_ReadByte r = vr_read 1 0 readByte r"

definition vr_ReadInt16 :: "ValueReader \<Rightarrow> 16 word \<times> ValueReader" where
  "vr_ReadInt16 r = vr_read 2 0 readInt16 r"

definition vr_ReadInt32 :: "ValueReader \<Rightarrow> 32 word \<times> ValueReader" where
  "vr_ReadInt32 r = vr_read 4 0 readInt32 r"

definition vr_ReadInt64 :: "ValueReader \<Rightarrow> 64 word \<times> ValueReader" where
  "vr_ReadInt64 r = vr_read 8 0 readInt64 r"

definition vr_ReadOid :: "ValueReader \<Rightarrow> 32 word \<times> ValueReader" where
  "vr_ReadOid r = vr_ReadInt32 r"

definition vr_ReadString :: "32 word \<Rightarrow> ValueReader \<Rightarrow> (string \<times> ValueReader) option" where
  "vr_ReadString count r =
     (if vr_err r \<noteq> None then Some ([], r)
      else case vr_take count r of
             (False, r) \<Rightarrow> Some ([], r)
           | (True, r) \<Rightarrow> map_option (\<lambda>(v, mr). (v, r\<lparr>vr_mr := mr\<rparr>)) (readString count (vr_mr r)))"

definition vr_ReadBytes :: "32 word \<Rightarrow> ValueReader \<Rightarrow> (bytes \<times> ValueReader) option" where
  "vr_ReadBytes count r =
     (if vr_err r \<noteq> None then Some ([], r)
      else if sint count < 0 then Some ([], vr_Fatal NegativeCount r)
      else case vr_take count r of
             (False, r) \<Rightarrow> Some ([], r)
           | (True, r) \<Rightarrow> map_option (\<lambda>(v, mr). (v, r\<lparr>vr_mr := mr\<rparr>)) (readBytes count (vr_mr r)))"

section \<open>Messages on the wire\<close>

text \<open>
  The abstract view of a buffer under construction: the finished messages, and the type and the
  body of the current one, whose length is still open.
\<close>

definition frame :: "byte \<times> bytes \<Rightarrow> bytes" where
  "frame m = (case m of (t, body) \<Rightarrow> t # be32 (word_of_nat (length body + 4)) @ body)"

definition wb_rep :: "WriteBuf \<Rightarrow> (byte \<times> bytes) list \<Rightarrow> byte \<Rightarrow> bytes \<Rightarrow> bool" where
  "wb_rep wb fin t body \<longleftrightarrow> (\<exists>z. length z = 4 \<and> wb_buf wb = concat (map frame fin) @ [t] @ z @ body \<and>
     wb_sizeIdx wb = length (concat (map frame fin)) + 1)"

lemma wb_rep_new: "wb_rep (newWriteBuf t) [] t []"
  by (auto simp: wb_rep_def newWriteBuf_def intro!: exI [of _ "[0, 0, 0, 0]"])

lemma wb_rep_append: "wb_rep wb fin t body \<Longrightarrow> wb_rep (append_buf b wb) fin t (body @ b)"
  by (auto simp: wb_rep_def append_buf_def)

lemma closeMsg_buf:
  assumes "wb_rep wb fin t body"
  shows "wb_buf (closeMsg wb) = concat (map frame (fin @ [(t, body)]))"
    and "wb_sizeIdx (closeMsg wb) = wb_sizeIdx wb"
proof -
  obtain z where z: "length z = 4" "wb_buf wb = concat (map frame fin) @ [t] @ z @ body"
    "wb_sizeIdx wb = length (concat (map frame fin)) + 1"
    using assms by (auto simp: wb_rep_def)
  let ?p = "concat (map frame fin) @ [t]"
  let ?n = "be32 (word_of_nat (length body + 4))"
  have "go_copy (length ?p) ?n (?p @ z @ body) = ?p @ ?n @ body"
    using z(1) by (simp add: go_copy_def)
  moreover have "wb_sizeIdx wb = length ?p" "wb_buf wb = ?p @ z @ body" "length (wb_buf wb) - wb_sizeIdx wb = length body + 4"
    using z by auto
  ultimately have "wb_buf (closeMsg wb) = ?p @ ?n @ body"
    by (simp only: closeMsg_def) simp
  then show "wb_buf (closeMsg wb) = concat (map frame (fin @ [(t, body)]))"
    by (simp add: frame_def)
qed (simp add: closeMsg_def)

lemma wb_rep_start:
  assumes "wb_rep wb fin t body"
  shows "wb_rep (startMsg t' wb) (fin @ [(t, body)]) t' []"
proof -
  have "wb_buf (startMsg t' wb) = concat (map frame (fin @ [(t, body)])) @ [t'] @ [0, 0, 0, 0] @ []"
    using closeMsg_buf(1) [OF assms] by (simp add: startMsg_def Let_def)
  moreover have "wb_sizeIdx (startMsg t' wb) = length (wb_buf (startMsg t' wb)) - 4"
    by (simp add: startMsg_def Let_def)
  ultimately show ?thesis
    unfolding wb_rep_def by (intro exI [of _ "[0, 0, 0, 0]"] conjI) simp_all
qed

text \<open>A reader inside a message: the rest of the message and what comes after it.\<close>

definition mr_at :: "msgReader \<Rightarrow> bytes \<Rightarrow> bytes \<Rightarrow> bool" where
  "mr_at r body rest \<longleftrightarrow> mr_err r = None \<and> length (mr_buf r) = 128 \<and> mr_input r = body @ rest \<and>
     sint (mr_remaining r) = int (length body)"

lemma sint_word_of_nat: "n < 2 ^ 31 \<Longrightarrow> sint (word_of_nat n :: 32 word) = int n"
proof -
  assume "n < 2 ^ 31"
  then have "sint (word_of_int (int n) :: 32 word) = int n"
    by (subst sint_sbintrunc') (simp add: signed_take_bit_int_eq_self)
  then show ?thesis by simp
qed

lemma sint_minus_nat:
  "0 \<le> sint (a :: 32 word) \<Longrightarrow> n < 2 ^ 31 \<Longrightarrow> sint (a - word_of_nat n) = sint a - int n"
proof -
  assume a: "0 \<le> sint a" "n < 2 ^ 31"
  have "sint a < 2 ^ 31" using sint_range_size [of a] by (simp add: word_size)
  with a have "sint (a - word_of_nat n) = sint (word_of_int (sint a - int n) :: 32 word)"
    by simp
  also have "\<dots> = sint a - int n"
    using a \<open>sint a < 2 ^ 31\<close> by (subst sint_sbintrunc') (simp add: signed_take_bit_int_eq_self)
  finally show ?thesis .
qed

lemma take_remaining_at:
  assumes "mr_at r body rest" and "n \<le> length body"
  shows "\<exists>r'. take_remaining (word_of_nat n) r = (True, r') \<and> mr_err r' = None \<and> mr_buf r' = mr_buf r \<and>
    mr_input r' = mr_input r \<and> sint (mr_remaining r') = int (length body - n)"
proof -
  have "int (length body) < 2 ^ 31"
    using assms(1) sint_range_size [of "mr_remaining r"] by (simp add: mr_at_def word_size)
  then have "sint (mr_remaining r - word_of_nat n) = int (length body) - int n"
    using assms by (subst sint_minus_nat) (auto simp: mr_at_def)
  then show ?thesis
    using assms by (auto simp: take_remaining_def Let_def mr_at_def)
qed

lemma fill_at:
  assumes "mr_input r = b @ rest" and "length b = n" and "n \<le> length (mr_buf r)"
  shows "\<exists>r'. fill n r = (True, r') \<and> take n (mr_buf r') = b \<and> length (mr_buf r') = length (mr_buf r) \<and>
    mr_input r' = rest \<and> mr_err r' = mr_err r \<and> mr_remaining r' = mr_remaining r"
  using assms by (auto simp: fill_def Let_def go_copy_def)

lemma read_word_at:
  assumes at: "mr_at r (be_bytes n w @ body) rest" and n: "n \<le> 8" "8 * n = LENGTH('a)"
  shows "\<exists>r'. (read_word n r :: 'a::len word \<times> msgReader) = (w, r') \<and> mr_at r' body rest"
proof -
  obtain r1 where r1: "take_remaining (word_of_nat n) r = (True, r1)" "mr_err r1 = None" "mr_buf r1 = mr_buf r"
    "mr_input r1 = mr_input r" "sint (mr_remaining r1) = int (length body)"
    using take_remaining_at [OF at, of n] by auto
  obtain r2 where r2: "fill n r1 = (True, r2)" "take n (mr_buf r2) = be_bytes n w" "length (mr_buf r2) = length (mr_buf r1)"
    "mr_input r2 = body @ rest" "mr_err r2 = mr_err r1" "mr_remaining r2 = mr_remaining r1"
    using fill_at [of r1 "be_bytes n w" "body @ rest" n] at r1 n by (auto simp: mr_at_def)
  have "be_word (be_bytes n w) = w"
    using n by (simp add: be_word_be_bytes take_bit_word_eq_self)
  with r1 r2 at show ?thesis
    by (auto simp: read_word_def mr_at_def)
qed

lemma readByte_at: "mr_at r (b # body) rest \<Longrightarrow> \<exists>r'. readByte r = (b, r') \<and> mr_at r' body rest"
  using take_remaining_at [of r "b # body" rest 1] by (auto simp: readByte_def mr_at_def)

lemma readCString_at:
  assumes at: "mr_at r (bytes_of_string s @ [0] @ body) rest" and nul: "CHR 0x00 \<notin> set s"
  shows "\<exists>r'. readCString r = (s, r') \<and> mr_at r' body rest"
proof -
  have zero: "char_of_byte 0 = CHR 0x00" by (simp add: char_of_byte_def char_of_def)
  have nz: "\<forall>b \<in> set (bytes_of_string s). b \<noteq> 0"
  proof
    fix b assume "b \<in> set (bytes_of_string s)"
    then obtain c where "c \<in> set s" "b = byte_of_char c" by (auto simp: bytes_of_string_def)
    with nul show "b \<noteq> 0"
      using zero by (metis char_of_byte_of_char)
  qed
  have tw: "takeWhile (\<lambda>b. b \<noteq> 0) (mr_input r) = bytes_of_string s"
    using at nz by (simp add: mr_at_def takeWhile_append)
  have at1: "mr_at (r\<lparr>mr_input := (bytes_of_string s @ [0] @ body) @ rest\<rparr>) (bytes_of_string s @ [0] @ body) rest"
    using at by (simp add: mr_at_def)
  obtain r1 where r1: "take_remaining (word_of_nat (length s + 1)) (r\<lparr>mr_input := body @ rest\<rparr>) = (True, r1)"
    "mr_err r1 = None" "mr_buf r1 = mr_buf r" "mr_input r1 = body @ rest" "sint (mr_remaining r1) = int (length body)"
    using take_remaining_at [OF at, of "length s + 1"] by (auto simp: take_remaining_def Let_def fatal_def split: if_splits)
  with at tw show ?thesis
    by (auto simp: readCString_def mr_at_def Let_def)
qed

lemma readBytes_at:
  assumes at: "mr_at r (b @ body) rest" and n: "n = word_of_nat (length b)"
  shows "\<exists>r'. readBytes n r = Some (b, r') \<and> mr_at r' body rest"
proof -
  have "int (length b) < 2 ^ 31"
    using at sint_range_size [of "mr_remaining r"] by (simp add: mr_at_def word_size)
  then have "sint n = int (length b)"
    by (simp add: n sint_word_of_nat)
  with take_remaining_at [OF at, of "length b"] at show ?thesis
    by (auto simp: readBytes_def mr_at_def n)
qed

lemma rxMsg_frame:
  assumes "mr_err r = None" "length (mr_buf r) = 128" "sint (mr_remaining r) \<le> 0"
    and "mr_input r = frame (t, body) @ rest" and "length body + 4 < 2 ^ 31"
  shows "\<exists>r'. rxMsg r = ((t, None), r') \<and> mr_at r' body rest"
proof -
  let ?hd = "t # be32 (word_of_nat (length body + 4))"
  obtain r1 where r1: "fill 5 r = (True, r1)" "take 5 (mr_buf r1) = ?hd" "length (mr_buf r1) = 128"
    "mr_input r1 = body @ rest" "mr_err r1 = None"
    using fill_at [of r ?hd "body @ rest" 5] assms by (auto simp: frame_def)
  obtain x where "mr_buf r1 = ?hd @ x"
    using r1(2) by (metis append_take_drop_id)
  then have hd: "mr_buf r1 ! 0 = t" "take 4 (drop 1 (mr_buf r1)) = be32 (word_of_nat (length body + 4))"
    by simp_all
  have "sint (word_of_nat (length body + 4) - 4 :: 32 word) = int (length body)"
    using sint_word_of_nat [of "length body"] assms(5) by simp
  moreover have "nat (sint (mr_remaining r)) = 0" "\<not> 0 < sint (mr_remaining r)" using assms(3) by simp_all
  then have "rxMsg r = ((mr_buf r1 ! 0, None), r1\<lparr>mr_remaining := be_word (take 4 (drop 1 (mr_buf r1))) - 4\<rparr>)"
    using assms(1) r1(1) by (simp add: rxMsg_def)
  ultimately show ?thesis
    using r1 hd by (simp add: mr_at_def)
qed

section \<open>Sequences of values and messages\<close>

datatype wire_value =
    WVByte byte
  | WVInt16 "16 word"
  | WVInt32 "32 word"
  | WVInt64 "64 word"
  | WVCString string
  | WVBytes bytes

fun write_value :: "wire_value \<Rightarrow> WriteBuf \<Rightarrow> WriteBuf" where
  "write_value (WVByte b) = WriteByte b"
| "write_value (WVInt16 n) = WriteInt16 n"
| "write_value (WVInt32 n) = WriteInt32 n"
| "write_value (WVInt64 n) = WriteInt64 n"
| "write_value (WVCString s) = WriteCString s"
| "write_value (WVBytes b) = WriteBytes b"

text \<open>Reading a value of the same kind; for bytes, as many as the given value has.\<close>

fun read_value :: "wire_value \<Rightarrow> msgReader \<Rightarrow> (wire_value \<times> msgReader) option" where
  "read_value (WVByte _) r = (case readByte r of (b, r) \<Rightarrow> Some (WVByte b, r))"
| "read_value (WVInt16 _) r = (case readInt16 r of (n, r) \<Rightarrow> Some (WVInt16 n, r))"
| "read_value (WVInt32 _) r = (case readInt32 r of (n, r) \<Rightarrow> Some (WVInt32 n, r))"
| "read_value (WVInt64 _) r = (case readInt64 r of (n, r) \<Rightarrow> Some (WVInt64 n, r))"
| "read_value (WVCString _) r = (case readCString r of (s, r) \<Rightarrow> Some (WVCString s, r))"
| "read_value (WVBytes b) r =
     (case readBytes (word_of_nat (length b)) r of Some (b, r) \<Rightarrow> Some (WVBytes b, r) | None \<Rightarrow> None)"

fun read_values :: "wire_value list \<Rightarrow> msgReader \<Rightarrow> (wire_value list \<times> msgReader) option" where
  "read_values [] r = Some ([], r)"
| "read_values (v # vs) r =
     (case read_value v r of
        None \<Rightarrow> None
      | Some (w, r) \<Rightarrow> map_option (\<lambda>(ws, r). (w # ws, r)) (read_values vs r))"

fun value_bytes :: "wire_value \<Rightarrow> bytes" where
  "value_bytes (WVByte b) = [b]"
| "value_bytes (WVInt16 n) = be16 n"
| "value_bytes (WVInt32 n) = be32 n"
| "value_bytes (WVInt64 n) = be64 n"
| "value_bytes (WVCString s) = bytes_of_string s @ [0]"
| "value_bytes (WVBytes b) = b"

fun value_ok :: "wire_value \<Rightarrow> bool" where
  "value_ok (WVCString s) = (CHR 0x00 \<notin> set s)"
| "value_ok _ = True"

fun build :: "WriteBuf \<Rightarrow> (byte \<times> wire_value list) list \<Rightarrow> WriteBuf" where
  "build wb [] = closeMsg wb"
| "build wb ((t, vs) # ms) = build (fold write_value vs (startMsg t wb)) ms"

fun build_msgs :: "(byte \<times> wire_value list) list \<Rightarrow> bytes" where
  "build_msgs [] = []"
| "build_msgs ((t, vs) # ms) = wb_buf (build (fold write_value vs (newWriteBuf t)) ms)"

fun read_msgs :: "(byte \<times> wire_value list) list \<Rightarrow> msgReader \<Rightarrow> ((byte \<times> wire_value list) list \<times> msgReader) option" where
  "read_msgs [] r = Some ([], r)"
| "read_msgs ((t, vs) # ms) r =
     (case rxMsg r of
        ((t', None), r) \<Rightarrow>
          (case read_values vs r of
             None \<Rightarrow> None
           | Some (ws, r) \<Rightarrow> map_option (\<lambda>(ms', r). ((t', ws) # ms', r)) (read_msgs ms r))
      | ((t', Some e), r) \<Rightarrow> None)"

lemma wb_rep_write: "wb_rep wb fin t body \<Longrightarrow> wb_rep (write_value v wb) fin t (body @ value_bytes v)"
  using wb_rep_append
  by (cases v) (simp_all add: WriteByte_def WriteInt16_def WriteInt32_def WriteInt64_def WriteBytes_def
      WriteCString_def wb_rep_append flip: append_assoc)

lemma wb_rep_writes:
  "wb_rep wb fin t body \<Longrightarrow> wb_rep (fold write_value vs wb) fin t (body @ concat (map value_bytes vs))"
  by (induction vs arbitrary: wb body) (auto dest: wb_rep_write simp flip: append_assoc)

definition msg_frame :: "byte \<times> wire_value list \<Rightarrow> byte \<times> bytes" where
  "msg_frame m = (fst m, concat (map value_bytes (snd m)))"

lemma build_frames:
  "wb_rep wb fin t body \<Longrightarrow> wb_buf (build wb ms) = concat (map frame (fin @ [(t, body)] @ map msg_frame ms))"
proof (induction ms arbitrary: wb fin t body)
  case Nil
  then show ?case by (simp add: closeMsg_buf)
next
  case (Cons m ms)
  obtain t' vs where m: "m = (t', vs)" by (cases m)
  have "wb_rep (fold write_value vs (startMsg t' wb)) (fin @ [(t, body)]) t' ([] @ concat (map value_bytes vs))"
    by (intro wb_rep_writes wb_rep_start Cons.prems)
  from Cons.IH [OF this] show ?case by (simp add: m msg_frame_def)
qed

lemma build_msgs_frames: "build_msgs ms = concat (map (\<lambda>m. frame (msg_frame m)) ms)"
proof (cases ms)
  case (Cons m ms')
  obtain t vs where m: "m = (t, vs)" by (cases m)
  have "wb_rep (fold write_value vs (newWriteBuf t)) [] t ([] @ concat (map value_bytes vs))"
    by (intro wb_rep_writes wb_rep_new)
  from build_frames [OF this, of ms'] show ?thesis
    by (simp add: Cons m msg_frame_def comp_def)
qed simp

lemma read_value_at:
  assumes "mr_at r (value_bytes v @ body) rest" and "value_ok v"
  shows "\<exists>r'. read_value v r = Some (v, r') \<and> mr_at r' body rest"
proof (cases v)
  case (WVByte b)
  with readByte_at [of r b body rest] assms show ?thesis by auto
next
  case (WVInt16 n)
  with read_word_at [of r 2 n body rest] assms show ?thesis by (auto simp: readInt16_def be16_be_bytes)
next
  case (WVInt32 n)
  with read_word_at [of r 4 n body rest] assms show ?thesis by (auto simp: readInt32_def be32_be_bytes)
next
  case (WVInt64 n)
  with read_word_at [of r 8 n body rest] assms show ?thesis by (auto simp: readInt64_def be64_be_bytes)
next
  case (WVCString s)
  with readCString_at [of r s body rest] assms show ?thesis by auto
next
  case (WVBytes b)
  with readBytes_at [of r b body rest] assms show ?thesis by auto
qed

lemma read_values_at:
  "mr_at r (concat (map value_bytes vs)) rest \<Longrightarrow> list_all value_ok vs \<Longrightarrow>
     \<exists>r'. read_values vs r = Some (vs, r') \<and> mr_at r' [] rest"
proof (induction vs arbitrary: r)
  case (Cons v vs)
  obtain r1 where "read_value v r = Some (v, r1)" "mr_at r1 (concat (map value_bytes vs)) rest"
    using read_value_at [of r v "concat (map value_bytes vs)" rest] Cons.prems by auto
  with Cons.IH [of r1] Cons.prems show ?case by auto
qed simp

lemma read_msgs_frames:
  "mr_at r [] (concat (map (\<lambda>m. frame (msg_frame m)) ms) @ rest) \<Longrightarrow>
   list_all (\<lambda>(t, vs). list_all value_ok vs \<and> length (concat (map value_bytes vs)) + 4 < 2 ^ 31) ms \<Longrightarrow>
     \<exists>r'. read_msgs ms r = Some (ms, r') \<and> mr_at r' [] rest"
proof (induction ms arbitrary: r)
  case (Cons m ms)
  obtain t vs where m: "m = (t, vs)" by (cases m)
  let ?body = "concat (map value_bytes vs)" and ?rest = "concat (map (\<lambda>m. frame (msg_frame m)) ms) @ rest"
  have mf: "msg_frame (t, vs) = (t, ?body)" by (simp add: msg_frame_def)
  obtain r1 where r1: "rxMsg r = ((t, None), r1)" "mr_at r1 ?body ?rest"
    using rxMsg_frame [of r t ?body ?rest] Cons.prems by (auto simp: mr_at_def m mf)
  obtain r2 where r2: "read_values vs r1 = Some (vs, r2)" "mr_at r2 [] ?rest"
    using read_values_at [OF r1(2)] Cons.prems(2) by (auto simp: m)
  with r1 Cons.IH [OF r2(2)] Cons.prems(2) show ?case by (auto simp: m)
qed simp

text \<open>Whatever the stream holds, a read that raises no error stays inside the message.\<close>

definition within :: "msgReader \<Rightarrow> msgReader \<Rightarrow> bool" where
  "within r r' \<longleftrightarrow> mr_err r' = None \<longrightarrow> length (mr_buf r') = length (mr_buf r) \<and>
     (\<exists>k \<le> length (mr_input r). mr_input r' = drop k (mr_input r) \<and>
        sint (mr_remaining r') = sint (mr_remaining r) - int k \<and> 0 \<le> sint (mr_remaining r'))"

lemma take_remaining_True:
  assumes "take_remaining (word_of_nat n) r = (True, r')" and "0 \<le> sint (mr_remaining r)" and "n < 2 ^ 31"
  shows "r' = r\<lparr>mr_remaining := mr_remaining r'\<rparr>" and "sint (mr_remaining r') = sint (mr_remaining r) - int n"
    and "0 \<le> sint (mr_remaining r')"
  using assms sint_minus_nat [OF assms(2,3)] by (auto simp: take_remaining_def Let_def split: if_splits)

lemma take_remaining_False: "take_remaining n r = (False, r') \<Longrightarrow> mr_err r' \<noteq> None"
  by (auto simp: take_remaining_def Let_def fatal_def split: if_splits)

lemma take_remaining_cases:
  assumes "0 \<le> sint (mr_remaining r)" and "n < 2 ^ 31"
  obtains r' where "take_remaining (word_of_nat n) r = (True, r')" and "r' = r\<lparr>mr_remaining := mr_remaining r'\<rparr>"
      and "sint (mr_remaining r') = sint (mr_remaining r) - int n" and "0 \<le> sint (mr_remaining r')"
  | r' where "take_remaining (word_of_nat n) r = (False, r')" and "mr_err r' \<noteq> None"
proof (cases "take_remaining (word_of_nat n) r")
  case (Pair ok r')
  show thesis
  proof (cases ok)
    case True
    with Pair have t: "take_remaining (word_of_nat n) r = (True, r')" by simp
    show thesis by (rule that(1) [OF t take_remaining_True [OF t assms]])
  next
    case False
    with Pair have t: "take_remaining (word_of_nat n) r = (False, r')" by simp
    show thesis by (rule that(2) [OF t take_remaining_False [OF t]])
  qed
qed

lemma withinI:
  "mr_err r' = None \<Longrightarrow> length (mr_buf r') = length (mr_buf r) \<Longrightarrow> k \<le> length (mr_input r) \<Longrightarrow>
   mr_input r' = drop k (mr_input r) \<Longrightarrow> sint (mr_remaining r') = sint (mr_remaining r) - int k \<Longrightarrow>
   0 \<le> sint (mr_remaining r') \<Longrightarrow> within r r'"
  unfolding within_def by blast

lemma within_err: "mr_err r' \<noteq> None \<Longrightarrow> within r r'"
  unfolding within_def by blast

lemma fill_False: "fill n r = (False, r') \<Longrightarrow> mr_err r' = mr_err r"
  by (auto simp: fill_def Let_def)

lemma fill_True:
  "fill n r = (True, r') \<Longrightarrow> n \<le> length (mr_input r) \<and> mr_input r' = drop n (mr_input r) \<and>
     length (mr_buf r') = length (mr_buf r) \<and> mr_err r' = mr_err r \<and> mr_remaining r' = mr_remaining r"
  by (auto simp: fill_def Let_def)

lemma read_word_within:
  assumes "mr_err r = None" and "0 \<le> sint (mr_remaining r)" and "n \<le> 8"
  shows "within r (snd (read_word n r :: 'a::len word \<times> msgReader))"
proof -
  have "n < 2 ^ 31" using assms(3) by simp
  with assms(2) show ?thesis
  proof (cases rule: take_remaining_cases)
    case (1 r1)
    obtain ok r2 where f: "fill n r1 = (ok, r2)" by fastforce
    show ?thesis
    proof (cases ok)
      case True
      then have f': "fill n r1 = (True, r2)" using f by simp
      have "mr_input r1 = mr_input r" "mr_buf r1 = mr_buf r" "mr_err r1 = mr_err r" by (subst 1(2), simp)+
      with fill_True [OF f'] 1 f' assms(1) show ?thesis
        by (intro withinI [of _ _ n]) (simp_all add: read_word_def)
    next
      case False
      with f 1(1) assms(1) show ?thesis by (simp add: read_word_def within_def fatal_def)
    qed
  next
    case (2 r1)
    with assms(1) show ?thesis by (simp add: read_word_def within_err)
  qed
qed

lemma readByte_within:
  assumes "mr_err r = None" and "0 \<le> sint (mr_remaining r)"
  shows "within r (snd (readByte r))"
proof -
  have "(1::nat) < 2 ^ 31" by simp
  with assms(2) show ?thesis
  proof (cases rule: take_remaining_cases)
    case (1 r1)
    have eq: "mr_input r1 = mr_input r" "mr_buf r1 = mr_buf r" "mr_err r1 = mr_err r" by (subst 1(2), simp)+
    show ?thesis
    proof (cases "mr_input r")
      case Nil
      with 1(1) eq assms(1) show ?thesis by (simp add: readByte_def within_def fatal_def)
    next
      case (Cons b bs)
      with 1 eq assms(1) show ?thesis
        by (intro withinI [of _ _ 1]) (simp_all add: readByte_def)
    qed
  next
    case (2 r1)
    with assms(1) show ?thesis by (simp add: readByte_def within_err)
  qed
qed

lemma readCString_within:
  assumes "mr_err r = None" and "0 \<le> sint (mr_remaining r)" and "length (mr_input r) < 2 ^ 31"
  shows "within r (snd (readCString r))"
proof -
  let ?s = "takeWhile (\<lambda>b. b \<noteq> 0) (mr_input r)"
  let ?r = "r\<lparr>mr_input := drop (length ?s + 1) (mr_input r)\<rparr>"
  show ?thesis
  proof (cases "length ?s = length (mr_input r)")
    case True
    with assms(1) show ?thesis by (simp add: readCString_def within_def fatal_def)
  next
    case False
    then have len: "length ?s + 1 \<le> length (mr_input r)"
      using length_takeWhile_le [of "\<lambda>b. b \<noteq> 0" "mr_input r"] by linarith
    with assms(3) have n: "length ?s + 1 < 2 ^ 31" by linarith
    have "0 \<le> sint (mr_remaining ?r)" using assms(2) by simp
    from this n show ?thesis
    proof (cases rule: take_remaining_cases)
      case (1 r1)
      have eq: "mr_input r1 = mr_input ?r" "mr_buf r1 = mr_buf r" "mr_err r1 = mr_err r" by (subst 1(2), simp)+
      with 1 False len assms(1) show ?thesis
        by (intro withinI [of _ _ "length ?s + 1"]) (simp_all add: readCString_def)
    next
      case (2 r1)
      with False assms(1) show ?thesis by (simp add: readCString_def within_err)
    qed
  qed
qed

lemma readBytes_within:
  assumes "readBytes (word_of_nat n) r = Some (b, r')" and "mr_err r = None" and "0 \<le> sint (mr_remaining r)" and "n < 2 ^ 31"
  shows "within r r'"
  using assms(3,4)
proof (cases rule: take_remaining_cases)
  case (1 r1)
  have eq: "mr_input r1 = mr_input r" "mr_buf r1 = mr_buf r" "mr_err r1 = mr_err r" by (subst 1(2), simp)+
  show ?thesis
  proof (cases "length (mr_input r) < n")
    case True
    with 1(1) eq assms show ?thesis by (simp add: readBytes_def sint_word_of_nat within_def fatal_def) auto
  next
    case False
    with 1 eq assms show ?thesis
      by (intro withinI [of _ _ n]) (auto simp: readBytes_def sint_word_of_nat)
  qed
next
  case (2 r1)
  with assms(1,2) show ?thesis by (auto simp: readBytes_def within_err)
qed

fun value_size_ok :: "wire_value \<Rightarrow> bool" where
  "value_size_ok (WVBytes b) = (length b < 2 ^ 31)"
| "value_size_ok _ = True"

lemma read_value_within:
  assumes "read_value v r = Some (w, r')" and "mr_err r = None" and "0 \<le> sint (mr_remaining r)"
    and "length (mr_input r) < 2 ^ 31" and "value_size_ok v"
  shows "within r r'"
proof (cases v)
  case (WVBytes b)
  with assms readBytes_within [OF _ assms(2,3)] show ?thesis by (auto split: option.splits)
qed (use assms readByte_within [OF assms(2,3)] readCString_within [OF assms(2-4)]
      read_word_within [OF assms(2,3), of 2, where 'a = 16] read_word_within [OF assms(2,3), of 4, where 'a = 32]
      read_word_within [OF assms(2,3), of 8, where 'a = 64]
    in \<open>auto simp: readInt16_def readInt32_def readInt64_def split: prod.splits\<close>)

lemma read_value_sticky: "read_value v r = Some (w, r') \<Longrightarrow> mr_err r \<noteq> None \<Longrightarrow> r' = r"
  by (cases v) (auto simp: readByte_def readInt16_def readInt32_def readInt64_def read_word_def readCString_def
      readBytes_def)

lemma read_values_sticky: "read_values vs r = Some (ws, r') \<Longrightarrow> mr_err r \<noteq> None \<Longrightarrow> r' = r"
  by (induction vs arbitrary: r ws) (fastforce dest: read_value_sticky split: option.splits)+

lemma within_trans:
  assumes "within r r1" and "mr_err r1 = None" and "within r1 r2"
  shows "within r r2"
proof (cases "mr_err r2 = None")
  case True
  from assms obtain k where k: "k \<le> length (mr_input r)" "mr_input r1 = drop k (mr_input r)"
    "sint (mr_remaining r1) = sint (mr_remaining r) - int k" "length (mr_buf r1) = length (mr_buf r)"
    by (auto simp: within_def)
  from assms(3) True obtain l where l: "l \<le> length (mr_input r1)" "mr_input r2 = drop l (mr_input r1)"
    "sint (mr_remaining r2) = sint (mr_remaining r1) - int l" "0 \<le> sint (mr_remaining r2)" "length (mr_buf r2) = length (mr_buf r1)"
    by (auto simp: within_def)
  show ?thesis
    using True k l by (intro withinI [of _ _ "l + k"]) simp_all
qed (simp add: within_err)

lemma read_values_within:
  assumes "read_values vs r = Some (ws, r')" and "mr_err r = None" and "0 \<le> sint (mr_remaining r)"
    and "length (mr_input r) < 2 ^ 31" and "list_all value_size_ok vs" and "mr_err r' = None"
  shows "within r r'"
  using assms
proof (induction vs arbitrary: r ws)
  case Nil
  then show ?case by (intro withinI [of _ _ 0]) auto
next
  case (Cons v vs)
  from Cons.prems obtain w r1 ws' where v: "read_value v r = Some (w, r1)" and vs: "read_values vs r1 = Some (ws', r')"
    by (auto split: option.splits prod.splits)
  have w1: "within r r1" using read_value_within [OF v] Cons.prems by simp
  have e1: "mr_err r1 = None"
    using read_values_sticky [OF vs] Cons.prems(6) by metis
  with w1 Cons.prems have "0 \<le> sint (mr_remaining r1)" "length (mr_input r1) < 2 ^ 31"
    by (auto simp: within_def)
  with Cons.IH [OF vs e1] Cons.prems have "within r1 r'" by simp
  with within_trans [OF w1 e1] show ?case .
qed

section \<open>Properties\<close>

text \<open>
  C20: messages built with the write buffer, in any number, are read back by the message reader
  with the types and the values that were written, and the reader stops exactly behind them.
\<close>

theorem wire_roundtrip:
  assumes "list_all (\<lambda>(t, vs). list_all value_ok vs \<and> length (concat (map value_bytes vs)) + 4 < 2 ^ 31) ms"
    and "mr_err r = None" and "length (mr_buf r) = 128" and "mr_remaining r = 0" and "mr_input r = build_msgs ms @ rest"
  shows "\<exists>r'. read_msgs ms r = Some (ms, r') \<and> mr_input r' = rest \<and> mr_remaining r' = 0 \<and> mr_err r' = None"
proof -
  have "mr_at r [] (concat (map (\<lambda>m. frame (msg_frame m)) ms) @ rest)"
    using assms by (simp add: mr_at_def build_msgs_frames)
  from read_msgs_frames [OF this assms(1)] obtain r' where "read_msgs ms r = Some (ms, r')" "mr_at r' [] rest" by blast
  moreover have "w = 0" if "sint w = 0" for w :: "32 word" using that by (metis signed_0 signed_word_eqI)
  ultimately show ?thesis by (auto simp: mr_at_def)
qed

definition fresh_reader :: "bytes \<Rightarrow> msgReader" where
  "fresh_reader input = \<lparr>mr_input = input, mr_buf = replicate 128 0, mr_remaining = 0, mr_err = None\<rparr>"

theorem wire_roundtrip_witness:
  "\<exists>r'. read_msgs [(80, [WVCString ''s'', WVInt16 2, WVBytes [7, 8]]), (83, [])]
      (fresh_reader (build_msgs [(80, [WVCString ''s'', WVInt16 2, WVBytes [7, 8]]), (83, [])] @ [9])) =
    Some ([(80, [WVCString ''s'', WVInt16 2, WVBytes [7, 8]]), (83, [])], r') \<and> mr_input r' = [9]"
proof -
  let ?ms = "[(80, [WVCString ''s'', WVInt16 2, WVBytes [7, 8]]), (83, [])] :: (byte \<times> wire_value list) list"
  have "\<exists>r'. read_msgs ?ms (fresh_reader (build_msgs ?ms @ [9])) = Some (?ms, r') \<and> mr_input r' = [9] \<and>
      mr_remaining r' = 0 \<and> mr_err r' = None"
    by (rule wire_roundtrip) (simp_all add: fresh_reader_def)
  then show ?thesis by blast
qed



text \<open>
  A UUID is written as its length and its sixteen bytes, and reads back as such; the zero
  UUID is written as NULL, the length minus one.
\<close>

theorem UUID_Encode_value:
  assumes "wf_uuid u"
  shows "wb_buf (UUID_Encode u wb) = wb_buf wb @
    concat (map value_bytes (if u = zero_uuid then [WVInt32 (- 1)] else [WVInt32 16, WVBytes u])) \<and>
    (mr_at r (concat (map value_bytes [WVInt32 16, WVBytes u])) rest \<longrightarrow>
      (\<exists>r'. read_values [WVInt32 16, WVBytes u] r = Some ([WVInt32 16, WVBytes u], r') \<and> mr_at r' [] rest))"
  using assms read_values_at [of r "[WVInt32 16, WVBytes u]" rest]
  by (auto simp: UUID_Encode_def UUID_Valid_def UUID_Bytes_def WriteInt32_def WriteBytes_def append_buf_def wf_uuid_def
      simp del: read_values.simps)

theorem UUID_Encode_value_witness:
  "wb_buf (UUID_Encode [1, 0, 0, 0, 0, 0, 0, 0, 0, 0, 0, 0, 0, 0, 0, 2] (newWriteBuf 80)) =
     [80, 0, 0, 0, 0, 0, 0, 0, 16, 1, 0, 0, 0, 0, 0, 0, 0, 0, 0, 0, 0, 0, 0, 0, 2]"
proof -
  let ?u = "[1, 0, 0, 0, 0, 0, 0, 0, 0, 0, 0, 0, 0, 0, 0, 2] :: UUID"
  have "wf_uuid ?u" by (simp add: wf_uuid_def)
  moreover have "?u \<noteq> zero_uuid" by (simp add: zero_uuid_def numeral_eq_Suc)
  ultimately show ?thesis
    using UUID_Encode_value [of ?u "newWriteBuf 80", THEN conjunct1]
    by (simp add: newWriteBuf_def be32_def to_byte_def)
qed

end
