(* ===== verification/Pgx_Values.thy ===== *)
theory Pgx_Values
  imports Pgx_Wire
begin

text \<open>
  \<open>pgx/values.go\<close>: how Go values become parameters of a statement (\<open>Encode\<close>) and columns of a
  row become Go values (\<open>Decode\<close> and the \<open>Scan\<close> methods of the nullable types), for booleans, the
  integer types, \<open>Oid\<close>, strings, byte slices, slices of those, JSON and NULL. Floating point
  numbers, times, network addresses and \<open>hstore\<close> are left out. Integers of Go are words of their
  width; a conversion \<open>int16(v)\<close> keeps the low bits.
\<close>

section \<open>Type identifiers\<close>

type_synonym Oid = "32 word"

definition BoolOid :: Oid where "BoolOid = 16"
definition ByteaOid :: Oid where "ByteaOid = 17"
definition Int8Oid :: Oid where "Int8Oid = 20"
definition Int2Oid :: Oid where "Int2Oid = 21"
definition Int4Oid :: Oid where "Int4Oid = 23"
definition TextOid :: Oid where "TextOid = 25"
definition OidOid :: Oid where "OidOid = 26"
definition JsonOid :: Oid where "JsonOid = 114"
definition BoolArrayOid :: Oid where "BoolArrayOid = 1000"
definition ByteaArrayOid :: Oid where "ByteaArrayOid = 1001"
definition Int2ArrayOid :: Oid where "Int2ArrayOid = 1005"
definition Int4ArrayOid :: Oid where "Int4ArrayOid = 1007"
definition TextArrayOid :: Oid where "TextArrayOid = 1009"
definition VarcharArrayOid :: Oid where "VarcharArrayOid = 1015"
definition Int8ArrayOid :: Oid where "Int8ArrayOid = 1016"
definition VarcharOid :: Oid where "VarcharOid = 1043"
definition JsonbOid :: Oid where "JsonbOid = 3802"

lemmas oid_defs = BoolOid_def ByteaOid_def Int8Oid_def Int2Oid_def Int4Oid_def TextOid_def OidOid_def
  JsonOid_def BoolArrayOid_def ByteaArrayOid_def Int2ArrayOid_def Int4ArrayOid_def TextArrayOid_def
  VarcharArrayOid_def Int8ArrayOid_def VarcharOid_def JsonbOid_def

section \<open>Encoding\<close>

datatype enc_error = LessThanMin | GreaterThanMax | CannotEncode | SerializationError | JsonFailed

type_synonym encoder = "Oid \<Rightarrow> WriteBuf \<Rightarrow> enc_error option \<times> WriteBuf"

text \<open>The three sizes an integer is written in: the size of the value and the value.\<close>

definition put_int2 :: "16 word \<Rightarrow> WriteBuf \<Rightarrow> enc_error option \<times> WriteBuf" where
  "put_int2 v w = (None, WriteInt16 v (WriteInt32 2 w))"

definition put_int4 :: "32 word \<Rightarrow> WriteBuf \<Rightarrow> enc_error option \<times> WriteBuf" where
  "put_int4 v w = (None, WriteInt32 v (WriteInt32 4 w))"

definition put_int8 :: "64 word \<Rightarrow> WriteBuf \<Rightarrow> enc_error option \<times> WriteBuf" where
  "put_int8 v w = (None, WriteInt64 v (WriteInt32 8 w))"

definition encodeBool :: "bool \<Rightarrow> encoder" where
  "encodeBool v oid w =
     (if oid \<noteq> BoolOid then (Some CannotEncode, w)
      else (None, WriteByte (if v then 1 else 0) (WriteInt32 1 w)))"

definition encodeInt :: "64 word \<Rightarrow> encoder" where
  "encodeInt v oid w =
     (if oid = Int2Oid then
        if sint v < - (2 ^ 15) then (Some LessThanMin, w)
        else if sint v > 2 ^ 15 - 1 then (Some GreaterThanMax, w)
        else put_int2 (ucast v) w
      else if oid = Int4Oid then
        if sint v < - (2 ^ 31) then (Some LessThanMin, w)
        else if sint v > 2 ^ 31 - 1 then (Some GreaterThanMax, w)
        else put_int4 (ucast v) w
      else if oid = Int8Oid then put_int8 v w
      else (Some CannotEncode, w))"

definition encodeUInt :: "64 word \<Rightarrow> encoder" where
  "encodeUInt v oid w =
     (if oid = Int2Oid then if uint v > 2 ^ 15 - 1 then (Some GreaterThanMax, w) else put_int2 (ucast v) w
      else if oid = Int4Oid then if uint v > 2 ^ 31 - 1 then (Some GreaterThanMax, w) else put_int4 (ucast v) w
      else if oid = Int8Oid then if uint v > 2 ^ 63 - 1 then (Some GreaterThanMax, w) else put_int8 v w
      else (Some CannotEncode, w))"

definition encodeInt8 :: "8 word \<Rightarrow> encoder" where
  "encodeInt8 v oid w =
     (if oid = Int2Oid then put_int2 (scast v) w
      else if oid = Int4Oid then put_int4 (scast v) w
      else if oid = Int8Oid then put_int8 (scast v) w
      else (Some CannotEncode, w))"

definition encodeUInt8 :: "8 word \<Rightarrow> encoder" where
  "encodeUInt8 v oid w =
     (if oid = Int2Oid then put_int2 (ucast v) w
      else if oid = Int4Oid then put_int4 (ucast v) w
      else if oid = Int8Oid then put_int8 (ucast v) w
      else (Some CannotEncode, w))"

definition encodeInt16 :: "16 word \<Rightarrow> encoder" where
  "encodeInt16 v oid w =
     (if oid = Int2Oid then put_int2 v w
      else if oid = Int4Oid then put_int4 (scast v) w
      else if oid = Int8Oid then put_int8 (scast v) w
      else (Some CannotEncode, w))"

definition encodeUInt16 :: "16 word \<Rightarrow> encoder" where
  "encodeUInt16 v oid w =
     (if oid = Int2Oid then if uint v \<le> 2 ^ 15 - 1 then put_int2 v w else (Some GreaterThanMax, w)
      else if oid = Int4Oid then put_int4 (ucast v) w
      else if oid = Int8Oid then put_int8 (ucast v) w
      else (Some CannotEncode, w))"

text \<open>The encoders of \<open>int32\<close> and \<open>int64\<close> check only the upper bound of a smaller column.\<close>

definition encodeInt32 :: "32 word \<Rightarrow> encoder" where
  "encodeInt32 v oid w =
     (if oid = Int2Oid then if sint v \<le> 2 ^ 15 - 1 then put_int2 (ucast v) w else (Some GreaterThanMax, w)
      else if oid = Int4Oid then put_int4 v w
      else if oid = Int8Oid then put_int8 (scast v) w
      else (Some CannotEncode, w))"

definition encodeUInt32 :: "32 word \<Rightarrow> encoder" where
  "encodeUInt32 v oid w =
     (if oid = Int2Oid then if uint v \<le> 2 ^ 15 - 1 then put_int2 (ucast v) w else (Some GreaterThanMax, w)
      else if oid = Int4Oid then if uint v \<le> 2 ^ 31 - 1 then put_int4 v w else (Some GreaterThanMax, w)
      else if oid = Int8Oid then put_int8 (ucast v) w
      else (Some CannotEncode, w))"

definition encodeInt64 :: "64 word \<Rightarrow> encoder" where
  "encodeInt64 v oid w =
     (if oid = Int2Oid then if sint v \<le> 2 ^ 15 - 1 then put_int2 (ucast v) w else (Some GreaterThanMax, w)
      else if oid = Int4Oid then if sint v \<le> 2 ^ 31 - 1 then put_int4 (ucast v) w else (Some GreaterThanMax, w)
      else if oid = Int8Oid then put_int8 v w
      else (Some CannotEncode, w))"

definition encodeUInt64 :: "64 word \<Rightarrow> encoder" where
  "encodeUInt64 v oid w =
     (if oid = Int2Oid then if uint v \<le> 2 ^ 15 - 1 then put_int2 (ucast v) w else (Some GreaterThanMax, w)
      else if oid = Int4Oid then if uint v \<le> 2 ^ 31 - 1 then put_int4 (ucast v) w else (Some GreaterThanMax, w)
      else if oid = Int8Oid then if uint v \<le> 2 ^ 63 - 1 then put_int8 v w else (Some GreaterThanMax, w)
      else (Some CannotEncode, w))"

definition encodeOid :: "Oid \<Rightarrow> encoder" where
  "encodeOid v oid w = (if oid \<noteq> OidOid then (Some CannotEncode, w) else put_int4 v w)"

definition encodeByteSlice :: "bytes \<Rightarrow> encoder" where
  "encodeByteSlice v oid w = (None, WriteBytes v (WriteInt32 (word_of_nat (length v)) w))"

definition encodeString :: "string \<Rightarrow> encoder" where
  "encodeString v oid w = (None, WriteBytes (bytes_of_string v) (WriteInt32 (word_of_nat (length v)) w))"

definition encodeArrayHeader :: "Oid \<Rightarrow> nat \<Rightarrow> nat \<Rightarrow> WriteBuf \<Rightarrow> WriteBuf" where
  "encodeArrayHeader oid len sizePerItem w =
     WriteInt32 1 (WriteInt32 (word_of_nat len) (WriteInt32 oid (WriteInt32 0 (WriteInt32 1
       (WriteInt32 (word_of_nat (20 + len * sizePerItem)) w)))))"

definition encodeBoolSlice :: "bool list \<Rightarrow> encoder" where
  "encodeBoolSlice vs oid w =
     (if oid \<noteq> BoolArrayOid then (Some CannotEncode, w)
      else (None, fold (\<lambda>v w. WriteByte (if v then 1 else 0) (WriteInt32 1 w)) vs (encodeArrayHeader BoolOid (length vs) 5 w)))"

definition encodeByteSliceSlice :: "bytes list \<Rightarrow> encoder" where
  "encodeByteSliceSlice vs oid w =
     (if oid \<noteq> ByteaArrayOid then (Some CannotEncode, w)
      else
        let size = foldl (\<lambda>size el. size + (4 + length el)) 20 vs;
            w = WriteInt32 1 (WriteInt32 (word_of_nat (length vs)) (WriteInt32 ByteaOid (WriteInt32 0 (WriteInt32 1
                  (WriteInt32 (word_of_nat size) w)))))
        in (None, fold (\<lambda>v w. snd (encodeByteSlice v ByteaOid w)) vs w))"

definition encodeInt16Slice :: "16 word list \<Rightarrow> encoder" where
  "encodeInt16Slice vs oid w =
     (if oid \<noteq> Int2ArrayOid then (Some CannotEncode, w)
      else (None, fold (\<lambda>v w. snd (put_int2 v w)) vs (encodeArrayHeader Int2Oid (length vs) 6 w)))"

definition encodeInt32Slice :: "32 word list \<Rightarrow> encoder" where
  "encodeInt32Slice vs oid w =
     (if oid \<noteq> Int4ArrayOid then (Some CannotEncode, w)
      else (None, fold (\<lambda>v w. snd (put_int4 v w)) vs (encodeArrayHeader Int4Oid (length vs) 8 w)))"

definition encodeInt64Slice :: "64 word list \<Rightarrow> encoder" where
  "encodeInt64Slice vs oid w =
     (if oid \<noteq> Int8ArrayOid then (Some CannotEncode, w)
      else (None, fold (\<lambda>v w. snd (put_int8 v w)) vs (encodeArrayHeader Int8Oid (length vs) 12 w)))"

text \<open>
  The slices of unsigned integers: the first element that is too large ends the loop with an
  error; what was written before it stays in the buffer.
\<close>

fun put_unsigned :: "int \<Rightarrow> ('a::len word \<Rightarrow> WriteBuf \<Rightarrow> enc_error option \<times> WriteBuf) \<Rightarrow> 'a word list \<Rightarrow> WriteBuf \<Rightarrow>
    enc_error option \<times> WriteBuf" where
  "put_unsigned hi put [] w = (None, w)"
| "put_unsigned hi put (v # vs) w =
     (if uint v \<le> hi then put_unsigned hi put vs (snd (put v w)) else (Some GreaterThanMax, w))"

definition encodeUInt16Slice :: "16 word list \<Rightarrow> encoder" where
  "encodeUInt16Slice vs oid w =
     (if oid \<noteq> Int2ArrayOid then (Some CannotEncode, w)
      else put_unsigned (2 ^ 15 - 1) put_int2 vs (encodeArrayHeader Int2Oid (length vs) 6 w))"

definition encodeUInt32Slice :: "32 word list \<Rightarrow> encoder" where
  "encodeUInt32Slice vs oid w =
     (if oid \<noteq> Int4ArrayOid then (Some CannotEncode, w)
      else put_unsigned (2 ^ 31 - 1) put_int4 vs (encodeArrayHeader Int4Oid (length vs) 8 w))"

definition encodeUInt64Slice :: "64 word list \<Rightarrow> encoder" where
  "encodeUInt64Slice vs oid w =
     (if oid \<noteq> Int8ArrayOid then (Some CannotEncode, w)
      else put_unsigned (2 ^ 63 - 1) put_int8 vs (encodeArrayHeader Int8Oid (length vs) 12 w))"

definition encodeStringSlice :: "string list \<Rightarrow> encoder" where
  "encodeStringSlice vs oid w =
     (case (if oid = VarcharArrayOid then Some VarcharOid else if oid = TextArrayOid then Some TextOid else None) of
        None \<Rightarrow> (Some CannotEncode, w)
      | Some elOid \<Rightarrow>
          (let totalStringSize = foldl (\<lambda>size v. size + length v) 0 vs;
               size = 20 + length vs * 4 + totalStringSize;
               w = WriteInt32 1 (WriteInt32 (word_of_nat (length vs)) (WriteInt32 elOid (WriteInt32 0 (WriteInt32 1
                     (WriteInt32 (word_of_nat size) w)))))
           in (None, fold (\<lambda>v w. WriteBytes (bytes_of_string v) (WriteInt32 (word_of_nat (length v)) w)) vs w)))"


section \<open>Go values\<close>

text \<open>
  The dynamic types of the argument that are modelled; \<open>VPtr\<close> is a pointer, \<open>VOther\<close> any type
  \<open>Encode\<close> has no case for.
\<close>

datatype go_val =
    VNil | VOther
  | VPtr "go_val option"
  | VUUID UUID
  | VNullString string bool | VNullInt16 "16 word" bool | VNullInt32 "32 word" bool | VNullInt64 "64 word" bool
  | VNullBool bool bool
  | VString string | VBytes bytes | VByteSlices "bytes list" | VStrings "string list"
  | VBool bool | VBools "bool list"
  | VInt "64 word" | VUInt "64 word" | VInt8 "8 word" | VUInt8 "8 word"
  | VInt16 "16 word" | VInt16s "16 word list" | VUInt16 "16 word" | VUInt16s "16 word list"
  | VInt32 "32 word" | VInt32s "32 word list" | VUInt32 "32 word" | VUInt32s "32 word list"
  | VInt64 "64 word" | VInt64s "64 word list" | VUInt64 "64 word" | VUInt64s "64 word list"
  | VOid Oid

text \<open>What \<open>encoding/json\<close> makes of the values that reach \<open>encodeJSON\<close>.\<close>

fun json_of :: "go_val \<Rightarrow> json option" where
  "json_of (VStrings vs) = Some (JArr (map JStr vs))"
| "json_of (VBool b) = Some (JBool b)"
| "json_of (VBools vs) = Some (JArr (map JBool vs))"
| "json_of (VInt v) = Some (JInt (sint v))"
| "json_of (VUInt v) = Some (JInt (uint v))"
| "json_of (VInt8 v) = Some (JInt (sint v))"
| "json_of (VUInt8 v) = Some (JInt (uint v))"
| "json_of (VInt16 v) = Some (JInt (sint v))"
| "json_of (VInt16s vs) = Some (JArr (map (\<lambda>v. JInt (sint v)) vs))"
| "json_of (VUInt16 v) = Some (JInt (uint v))"
| "json_of (VUInt16s vs) = Some (JArr (map (\<lambda>v. JInt (uint v)) vs))"
| "json_of (VInt32 v) = Some (JInt (sint v))"
| "json_of (VInt32s vs) = Some (JArr (map (\<lambda>v. JInt (sint v)) vs))"
| "json_of (VUInt32 v) = Some (JInt (uint v))"
| "json_of (VUInt32s vs) = Some (JArr (map (\<lambda>v. JInt (uint v)) vs))"
| "json_of (VInt64 v) = Some (JInt (sint v))"
| "json_of (VInt64s vs) = Some (JArr (map (\<lambda>v. JInt (sint v)) vs))"
| "json_of (VUInt64 v) = Some (JInt (uint v))"
| "json_of (VUInt64s vs) = Some (JArr (map (\<lambda>v. JInt (uint v)) vs))"
| "json_of (VOid v) = Some (JInt (sint v))"
| "json_of _ = None"

definition encodeJSON :: "strconv \<Rightarrow> go_val \<Rightarrow> encoder" where
  "encodeJSON sc v oid w =
     (if oid \<noteq> JsonOid \<and> oid \<noteq> JsonbOid then (Some CannotEncode, w)
      else case json_of v of
             None \<Rightarrow> (Some JsonFailed, w)
           | Some j \<Rightarrow>
               (case Marshal sc j of
                  Inl e \<Rightarrow> (Some JsonFailed, w)
                | Inr s \<Rightarrow> (None, WriteBytes (bytes_of_string s) (WriteInt32 (word_of_nat (length s)) w))))"

text \<open>The nullable types check the oid and write NULL as the length minus one.\<close>

definition encode_null :: "bool \<Rightarrow> encoder \<Rightarrow> encoder" where
  "encode_null valid enc oid w = (if \<not> valid then (None, WriteInt32 (- 1) w) else enc oid w)"

definition NullString_Encode :: "string \<Rightarrow> bool \<Rightarrow> encoder" where
  "NullString_Encode s valid = encode_null valid (encodeString s)"

definition NullInt16_Encode :: "16 word \<Rightarrow> bool \<Rightarrow> encoder" where
  "NullInt16_Encode v valid oid w =
     (if oid \<noteq> Int2Oid then (Some SerializationError, w) else encode_null valid (encodeInt16 v) oid w)"

definition NullInt32_Encode :: "32 word \<Rightarrow> bool \<Rightarrow> encoder" where
  "NullInt32_Encode v valid oid w =
     (if oid \<noteq> Int4Oid then (Some SerializationError, w) else encode_null valid (encodeInt32 v) oid w)"

definition NullInt64_Encode :: "64 word \<Rightarrow> bool \<Rightarrow> encoder" where
  "NullInt64_Encode v valid oid w =
     (if oid \<noteq> Int8Oid then (Some SerializationError, w) else encode_null valid (encodeInt64 v) oid w)"

definition NullBool_Encode :: "bool \<Rightarrow> bool \<Rightarrow> encoder" where
  "NullBool_Encode v valid oid w =
     (if oid \<noteq> BoolOid then (Some SerializationError, w) else encode_null valid (encodeBool v) oid w)"

text \<open>\<open>Encode\<close>: first the types that encode themselves, strings and bytes, then pointers, JSON columns, and the rest.\<close>

definition encode_kind :: "go_val \<Rightarrow> encoder" where
  "encode_kind v =
     (case v of
        VStrings vs \<Rightarrow> encodeStringSlice vs
      | VBool b \<Rightarrow> encodeBool b
      | VBools vs \<Rightarrow> encodeBoolSlice vs
      | VInt n \<Rightarrow> encodeInt n
      | VUInt n \<Rightarrow> encodeUInt n
      | VInt8 n \<Rightarrow> encodeInt8 n
      | VUInt8 n \<Rightarrow> encodeUInt8 n
      | VInt16 n \<Rightarrow> encodeInt16 n
      | VInt16s vs \<Rightarrow> encodeInt16Slice vs
      | VUInt16 n \<Rightarrow> encodeUInt16 n
      | VUInt16s vs \<Rightarrow> encodeUInt16Slice vs
      | VInt32 n \<Rightarrow> encodeInt32 n
      | VInt32s vs \<Rightarrow> encodeInt32Slice vs
      | VUInt32 n \<Rightarrow> encodeUInt32 n
      | VUInt32s vs \<Rightarrow> encodeUInt32Slice vs
      | VInt64 n \<Rightarrow> encodeInt64 n
      | VInt64s vs \<Rightarrow> encodeInt64Slice vs
      | VUInt64 n \<Rightarrow> encodeUInt64 n
      | VUInt64s vs \<Rightarrow> encodeUInt64Slice vs
      | VOid n \<Rightarrow> encodeOid n
      | _ \<Rightarrow> (\<lambda>oid w. (Some SerializationError, w)))"

fun Encode :: "strconv \<Rightarrow> go_val \<Rightarrow> encoder" where
  "Encode sc VNil oid w = (None, WriteInt32 (- 1) w)"
| "Encode sc (VUUID u) oid w = (None, UUID_Encode u w)"
| "Encode sc (VNullString s b) oid w = NullString_Encode s b oid w"
| "Encode sc (VNullInt16 v b) oid w = NullInt16_Encode v b oid w"
| "Encode sc (VNullInt32 v b) oid w = NullInt32_Encode v b oid w"
| "Encode sc (VNullInt64 v b) oid w = NullInt64_Encode v b oid w"
| "Encode sc (VNullBool v b) oid w = NullBool_Encode v b oid w"
| "Encode sc (VString s) oid w = encodeString s oid w"
| "Encode sc (VBytes v) oid w = encodeByteSlice v oid w"
| "Encode sc (VByteSlices vs) oid w = encodeByteSliceSlice vs oid w"
| "Encode sc (VPtr None) oid w = (None, WriteInt32 (- 1) w)"
| "Encode sc (VPtr (Some v)) oid w = Encode sc v oid w"
| "Encode sc v oid w = (if oid = JsonOid \<or> oid = JsonbOid then encodeJSON sc v oid w else encode_kind v oid w)"

section \<open>Decoding\<close>

text \<open>
  The checks that the decoders of a fixed size start with: not NULL, the type of the column, the
  binary format, the size. The first one that fails is reported to the reader.
\<close>

definition check_value :: "Oid \<Rightarrow> 32 word \<Rightarrow> ValueReader \<Rightarrow> string option" where
  "check_value oid n vr =
     (if vr_Len vr = - 1 then Some ''Cannot decode null''
      else if fd_DataType (vr_fd vr) \<noteq> oid then Some ''Cannot decode oid''
      else if fd_FormatCode (vr_fd vr) \<noteq> BinaryFormatCode then Some ''Unknown field description format code''
      else if vr_Len vr \<noteq> n then Some ''Received an invalid size''
      else None)"

definition decode_checked :: "Oid \<Rightarrow> 32 word \<Rightarrow> 'a \<Rightarrow> (ValueReader \<Rightarrow> 'a \<times> ValueReader) \<Rightarrow> ValueReader \<Rightarrow> 'a \<times> ValueReader" where
  "decode_checked oid n zero rd vr =
     (case check_value oid n vr of Some e \<Rightarrow> (zero, vr_Fatal (ProtocolErr e) vr) | None \<Rightarrow> rd vr)"

definition decodeBool :: "ValueReader \<Rightarrow> bool \<times> ValueReader" where
  "decodeBool vr = decode_checked BoolOid 1 False (\<lambda>vr. case vr_ReadByte vr of (b, vr) \<Rightarrow> (b \<noteq> 0, vr)) vr"

definition decodeInt8 :: "ValueReader \<Rightarrow> 64 word \<times> ValueReader" where
  "decodeInt8 vr = decode_checked Int8Oid 8 0 vr_ReadInt64 vr"

definition decodeInt2 :: "ValueReader \<Rightarrow> 16 word \<times> ValueReader" where
  "decodeInt2 vr = decode_checked Int2Oid 2 0 vr_ReadInt16 vr"

definition decodeInt4 :: "ValueReader \<Rightarrow> 32 word \<times> ValueReader" where
  "decodeInt4 vr = decode_checked Int4Oid 4 0 vr_ReadInt32 vr"

definition decodeInt :: "ValueReader \<Rightarrow> 64 word \<times> ValueReader" where
  "decodeInt vr =
     (if fd_DataType (vr_fd vr) = Int2Oid then (case decodeInt2 vr of (n, vr) \<Rightarrow> (scast n, vr))
      else if fd_DataType (vr_fd vr) = Int4Oid then (case decodeInt4 vr of (n, vr) \<Rightarrow> (scast n, vr))
      else if fd_DataType (vr_fd vr) = Int8Oid then decodeInt8 vr
      else (0, vr_Fatal (ProtocolErr ''Cannot decode oid into any integer type'') vr))"

text \<open>
  \<open>strconv.ParseInt(s, 10, 32)\<close> with the value it returns beside an error: 0 for a text that is
  not a number, the nearest bound for a number out of range.
\<close>

fun ParseUint32_loop :: "nat \<Rightarrow> string \<Rightarrow> nat option" where
  "ParseUint32_loop n [] = Some n"
| "ParseUint32_loop n (c # cs) =
     (if \<not> is_digit c then None
      else let n1 = 10 * n + (code c - 48) in if n1 > 2 ^ 32 - 1 then Some (2 ^ 32 - 1) else ParseUint32_loop n1 cs)"

definition ParseInt32 :: "string \<Rightarrow> 32 word \<times> bool" where
  "ParseInt32 s =
     (let neg = (s \<noteq> [] \<and> hd s = CHR ''-'');
          digits = (if s \<noteq> [] \<and> (hd s = CHR ''-'' \<or> hd s = CHR ''+'') then tl s else s) in
      if digits = [] then (0, False)
      else case ParseUint32_loop 0 digits of
             None \<Rightarrow> (0, False)
           | Some un \<Rightarrow>
               if \<not> neg \<and> un \<ge> 2 ^ 31 then (word_of_int (2 ^ 31 - 1), False)
               else if neg \<and> un > 2 ^ 31 then (word_of_int (- (2 ^ 31)), False)
               else (if neg then - word_of_nat un else word_of_nat un, True))"

definition decodeOid :: "ValueReader \<Rightarrow> (Oid \<times> ValueReader) option" where
  "decodeOid vr =
     (if vr_Len vr = - 1 then Some (0, vr_Fatal (ProtocolErr ''Cannot decode null into Oid'') vr)
      else if fd_DataType (vr_fd vr) \<noteq> OidOid then Some (0, vr_Fatal (ProtocolErr ''Cannot decode oid into pgx.Oid'') vr)
      else if fd_FormatCode (vr_fd vr) = TextFormatCode then
        (case vr_ReadString (vr_Len vr) vr of
           None \<Rightarrow> None
         | Some (s, vr) \<Rightarrow>
             (case ParseInt32 s of
                (n, ok) \<Rightarrow> Some (n, if ok then vr else vr_Fatal (ProtocolErr ''Received invalid Oid'') vr)))
      else if fd_FormatCode (vr_fd vr) = BinaryFormatCode then
        if vr_Len vr \<noteq> 4 then Some (0, vr_Fatal (ProtocolErr ''Received an invalid size for an Oid'') vr)
        else Some (vr_ReadInt32 vr)
      else Some (0, vr_Fatal (ProtocolErr ''Unknown field description format code'') vr))"

definition decodeText :: "ValueReader \<Rightarrow> (string \<times> ValueReader) option" where
  "decodeText vr =
     (if vr_Len vr = - 1 then Some ([], vr_Fatal (ProtocolErr ''Cannot decode null into string'') vr)
      else vr_ReadString (vr_Len vr) vr)"

definition decodeBytea :: "ValueReader \<Rightarrow> (bytes \<times> ValueReader) option" where
  "decodeBytea vr =
     (if vr_Len vr = - 1 then Some ([], vr)
      else if fd_DataType (vr_fd vr) \<noteq> ByteaOid then Some ([], vr_Fatal (ProtocolErr ''Cannot decode oid into []byte'') vr)
      else if fd_FormatCode (vr_fd vr) \<noteq> BinaryFormatCode then
        Some ([], vr_Fatal (ProtocolErr ''Unknown field description format code'') vr)
      else vr_ReadBytes (vr_Len vr) vr)"

text \<open>
  \<open>decodeJSON\<close> into a value of type \<open>'r\<close>: NULL leaves it as it is, and so does a text that is not JSON.
\<close>

definition decodeJSON ::
  "(jtree \<Rightarrow> 'r \<Rightarrow> 'r \<times> dstatus) \<Rightarrow> ValueReader \<Rightarrow> 'r \<Rightarrow> (('r \<times> json_error option) \<times> ValueReader) option" where
  "decodeJSON d vr r =
     (if vr_Len vr = - 1 then Some ((r, None), vr)
      else
        let vr = (if fd_DataType (vr_fd vr) \<noteq> JsonOid \<and> fd_DataType (vr_fd vr) \<noteq> JsonbOid
                  then vr_Fatal (ProtocolErr ''Cannot decode oid into json'') vr else vr) in
        case vr_ReadBytes (vr_Len vr) vr of
          None \<Rightarrow> None
        | Some (b, vr) \<Rightarrow>
            (case unmarshal_with d (string_of_bytes b) r of
               (r, None) \<Rightarrow> Some ((r, None), vr)
             | (r, Some e) \<Rightarrow> Some ((r, Some e), vr_Fatal (ProtocolErr ''json'') vr)))"


subsection \<open>Arrays\<close>

definition decode1dArrayHeader :: "ValueReader \<Rightarrow> (string, 32 word) result \<times> ValueReader" where
  "decode1dArrayHeader vr =
     (case vr_ReadInt32 vr of
        (numDims, vr) \<Rightarrow>
          if sint numDims > 1 then (Inl ''Expected array to have 0 or 1 dimension'', vr)
          else
            (case vr_ReadInt32 vr of
               (_, vr) \<Rightarrow>
                 (case vr_ReadInt32 vr of
                    (_, vr) \<Rightarrow>
                      if numDims = 0 then (Inr 0, vr)
                      else
                        (case vr_ReadInt32 vr of
                           (len, vr) \<Rightarrow>
                             (case vr_ReadInt32 vr of
                                (idxFirstElem, vr) \<Rightarrow>
                                  if idxFirstElem \<noteq> 1 then (Inl ''Expected the first element at index 1'', vr)
                                  else (Inr len, vr))))))"

text \<open>
  The reader of one element is given its size; \<open>Inl\<close> is the message with which the whole array
  is given up. A panic inside it is \<open>None\<close>.
\<close>

type_synonym 'a element_reader = "32 word \<Rightarrow> ValueReader \<Rightarrow> ((string, 'a) result \<times> ValueReader) option"

fun decode_elements :: "'a element_reader \<Rightarrow> nat \<Rightarrow> ValueReader \<Rightarrow> ((string, 'a list) result \<times> ValueReader) option" where
  "decode_elements el 0 vr = Some (Inr [], vr)"
| "decode_elements el (Suc n) vr =
     (case vr_ReadInt32 vr of
        (elSize, vr) \<Rightarrow>
          (case el elSize vr of
             None \<Rightarrow> None
           | Some (Inl e, vr) \<Rightarrow> Some (Inl e, vr)
           | Some (Inr x, vr) \<Rightarrow>
               (case decode_elements el n vr of
                  None \<Rightarrow> None
                | Some (Inl e, vr) \<Rightarrow> Some (Inl e, vr)
                | Some (Inr xs, vr) \<Rightarrow> Some (Inr (x # xs), vr))))"

text \<open>The common body of the array decoders; making a slice of negative length panics.\<close>

definition decode_array :: "Oid set \<Rightarrow> 'a element_reader \<Rightarrow> ValueReader \<Rightarrow> ('a list \<times> ValueReader) option" where
  "decode_array oids el vr =
     (if vr_Len vr = - 1 then Some ([], vr)
      else if fd_DataType (vr_fd vr) \<notin> oids then Some ([], vr_Fatal (ProtocolErr ''Cannot decode oid'') vr)
      else if fd_FormatCode (vr_fd vr) \<noteq> BinaryFormatCode then
        Some ([], vr_Fatal (ProtocolErr ''Unknown field description format code'') vr)
      else
        (case decode1dArrayHeader vr of
           (Inl e, vr) \<Rightarrow> Some ([], vr_Fatal (ProtocolErr e) vr)
         | (Inr numElems, vr) \<Rightarrow>
             if sint numElems < 0 then None
             else
               (case decode_elements el (nat (sint numElems)) vr of
                  None \<Rightarrow> None
                | Some (Inl e, vr) \<Rightarrow> Some ([], vr_Fatal (ProtocolErr e) vr)
                | Some (Inr xs, vr) \<Rightarrow> Some (xs, vr))))"

definition sized_element :: "32 word \<Rightarrow> (ValueReader \<Rightarrow> 'a \<times> ValueReader) \<Rightarrow> 'a element_reader" where
  "sized_element n rd elSize vr =
     (if elSize = n then (case rd vr of (x, vr) \<Rightarrow> Some (Inr x, vr))
      else if elSize = - 1 then Some (Inl ''Cannot decode null element'', vr)
      else Some (Inl ''Received an invalid size for an element'', vr))"

definition unsigned_element :: "32 word \<Rightarrow> (ValueReader \<Rightarrow> 'a::len word \<times> ValueReader) \<Rightarrow> 'a word element_reader" where
  "unsigned_element n rd elSize vr =
     (if elSize = n then
        (case rd vr of (tmp, vr) \<Rightarrow> Some (if sint tmp < 0 then Inl ''less than zero'' else Inr tmp, vr))
      else if elSize = - 1 then Some (Inl ''Cannot decode null element'', vr)
      else Some (Inl ''Received an invalid size for an element'', vr))"

definition decodeBoolArray :: "ValueReader \<Rightarrow> (bool list \<times> ValueReader) option" where
  "decodeBoolArray =
     decode_array {BoolArrayOid} (sized_element 1 (\<lambda>vr. case vr_ReadByte vr of (b, vr) \<Rightarrow> (b = 1, vr)))"

definition decodeByteaArray :: "ValueReader \<Rightarrow> (bytes list \<times> ValueReader) option" where
  "decodeByteaArray =
     decode_array {ByteaArrayOid}
       (\<lambda>elSize vr. if elSize = - 1 then Some (Inl ''Cannot decode null element'', vr)
          else map_option (map_prod Inr id) (vr_ReadBytes elSize vr))"

definition decodeInt2Array :: "ValueReader \<Rightarrow> (16 word list \<times> ValueReader) option" where
  "decodeInt2Array = decode_array {Int2ArrayOid} (sized_element 2 vr_ReadInt16)"

definition decodeInt2ArrayToUInt :: "ValueReader \<Rightarrow> (16 word list \<times> ValueReader) option" where
  "decodeInt2ArrayToUInt = decode_array {Int2ArrayOid} (unsigned_element 2 vr_ReadInt16)"

definition decodeInt4Array :: "ValueReader \<Rightarrow> (32 word list \<times> ValueReader) option" where
  "decodeInt4Array = decode_array {Int4ArrayOid} (sized_element 4 vr_ReadInt32)"

definition decodeInt4ArrayToUInt :: "ValueReader \<Rightarrow> (32 word list \<times> ValueReader) option" where
  "decodeInt4ArrayToUInt = decode_array {Int4ArrayOid} (unsigned_element 4 vr_ReadInt32)"

definition decodeInt8Array :: "ValueReader \<Rightarrow> (64 word list \<times> ValueReader) option" where
  "decodeInt8Array = decode_array {Int8ArrayOid} (sized_element 8 vr_ReadInt64)"

definition decodeInt8ArrayToUInt :: "ValueReader \<Rightarrow> (64 word list \<times> ValueReader) option" where
  "decodeInt8ArrayToUInt = decode_array {Int8ArrayOid} (unsigned_element 8 vr_ReadInt64)"

definition decodeTextArray :: "ValueReader \<Rightarrow> (string list \<times> ValueReader) option" where
  "decodeTextArray =
     decode_array {TextArrayOid, VarcharArrayOid}
       (\<lambda>elSize vr. if elSize = - 1 then Some (Inl ''Cannot decode null element'', vr)
          else map_option (map_prod Inr id) (vr_ReadString elSize vr))"

subsection \<open>Destinations\<close>

text \<open>
  \<open>Decode\<close> by the type of the destination. The result is the error that is returned and the value
  that is stored (\<open>None\<close>: none was decoded); the reader carries the other errors.
\<close>

datatype go_type =
    GBool | GInt | GInt8 | GInt16 | GInt32 | GInt64 | GUInt | GUInt8 | GUInt16 | GUInt32 | GUInt64
  | GOid | GString | GBools | GInt16s | GUInt16s | GInt32s | GUInt32s | GInt64s | GUInt64s | GStrings
  | GByteSlices | GPtr go_type | GOther

datatype dec_error = BelowMin | AboveMax | CannotDecode

type_synonym decoded_value = "((dec_error option \<times> go_val option) \<times> ValueReader) option"

definition stored :: "('a \<Rightarrow> go_val) \<Rightarrow> ('a \<times> ValueReader) option \<Rightarrow> decoded_value" where
  "stored mk r = map_option (\<lambda>(x, vr). ((None, Some (mk x)), vr)) r"

definition decode_ranged :: "int \<Rightarrow> int \<Rightarrow> (64 word \<Rightarrow> go_val) \<Rightarrow> ValueReader \<Rightarrow> decoded_value" where
  "decode_ranged lo hi mk vr =
     (case decodeInt vr of
        (n, vr) \<Rightarrow>
          if sint n < lo then Some ((Some BelowMin, None), vr)
          else if sint n > hi then Some ((Some AboveMax, None), vr)
          else Some ((None, Some (mk n)), vr))"

fun Decode :: "go_type \<Rightarrow> ValueReader \<Rightarrow> decoded_value" where
  "Decode GBool vr = stored VBool (Some (decodeBool vr))"
| "Decode GInt vr = decode_ranged (- (2 ^ 63)) (2 ^ 63 - 1) VInt vr"
| "Decode GInt8 vr = decode_ranged (- (2 ^ 7)) (2 ^ 7 - 1) (\<lambda>n. VInt8 (ucast n)) vr"
| "Decode GInt16 vr = decode_ranged (- (2 ^ 15)) (2 ^ 15 - 1) (\<lambda>n. VInt16 (ucast n)) vr"
| "Decode GInt32 vr = decode_ranged (- (2 ^ 31)) (2 ^ 31 - 1) (\<lambda>n. VInt32 (ucast n)) vr"
| "Decode GInt64 vr = decode_ranged (- (2 ^ 63)) (2 ^ 63 - 1) VInt64 vr"
| "Decode GUInt vr = decode_ranged 0 (2 ^ 64 - 1) VUInt vr"
| "Decode GUInt8 vr = decode_ranged 0 (2 ^ 8 - 1) (\<lambda>n. VUInt8 (ucast n)) vr"
| "Decode GUInt16 vr = decode_ranged 0 (2 ^ 16 - 1) (\<lambda>n. VUInt16 (ucast n)) vr"
| "Decode GUInt32 vr = decode_ranged 0 (2 ^ 32 - 1) (\<lambda>n. VUInt32 (ucast n)) vr"
| "Decode GUInt64 vr = decode_ranged 0 (2 ^ 64 - 1) VUInt64 vr"
| "Decode GOid vr = stored VOid (decodeOid vr)"
| "Decode GString vr = stored VString (decodeText vr)"
| "Decode GBools vr = stored VBools (decodeBoolArray vr)"
| "Decode GInt16s vr = stored VInt16s (decodeInt2Array vr)"
| "Decode GUInt16s vr = stored VUInt16s (decodeInt2ArrayToUInt vr)"
| "Decode GInt32s vr = stored VInt32s (decodeInt4Array vr)"
| "Decode GUInt32s vr = stored VUInt32s (decodeInt4ArrayToUInt vr)"
| "Decode GInt64s vr = stored VInt64s (decodeInt8Array vr)"
| "Decode GUInt64s vr = stored VUInt64s (decodeInt8ArrayToUInt vr)"
| "Decode GStrings vr = stored VStrings (decodeTextArray vr)"
| "Decode GByteSlices vr = stored VByteSlices (decodeByteaArray vr)"
| "Decode (GPtr t) vr =
     (if vr_Len vr = - 1 then Some ((None, Some (VPtr None)), vr)
      else map_option (\<lambda>((e, v), vr). ((e, map_option (\<lambda>v. VPtr (Some v)) v), vr)) (Decode t vr))"
| "Decode GOther vr = Some ((Some CannotDecode, None), vr)"

text \<open>
  The \<open>Scan\<close> methods of the nullable types: \<open>Inl\<close> for a column of another type; the receiver's
  value and \<open>Valid\<close> otherwise, with the reader's error.
\<close>

definition scan_null :: "Oid \<Rightarrow> 'a \<Rightarrow> (ValueReader \<Rightarrow> 'a \<times> ValueReader) \<Rightarrow> ValueReader \<Rightarrow>
    (enc_error, ('a \<times> bool) \<times> mr_error option) result \<times> ValueReader" where
  "scan_null oid zero dec vr =
     (if fd_DataType (vr_fd vr) \<noteq> oid then (Inl SerializationError, vr)
      else if vr_Len vr = - 1 then (Inr ((zero, False), None), vr)
      else case dec vr of (v, vr) \<Rightarrow> (Inr ((v, True), vr_err vr), vr))"

definition NullInt16_Scan :: "ValueReader \<Rightarrow> (enc_error, (16 word \<times> bool) \<times> mr_error option) result \<times> ValueReader" where
  "NullInt16_Scan = scan_null Int2Oid 0 decodeInt2"

definition NullInt32_Scan :: "ValueReader \<Rightarrow> (enc_error, (32 word \<times> bool) \<times> mr_error option) result \<times> ValueReader" where
  "NullInt32_Scan = scan_null Int4Oid 0 decodeInt4"

definition NullInt64_Scan :: "ValueReader \<Rightarrow> (enc_error, (64 word \<times> bool) \<times> mr_error option) result \<times> ValueReader" where
  "NullInt64_Scan = scan_null Int8Oid 0 decodeInt8"

definition NullBool_Scan :: "ValueReader \<Rightarrow> (enc_error, (bool \<times> bool) \<times> mr_error option) result \<times> ValueReader" where
  "NullBool_Scan = scan_null BoolOid False decodeBool"

definition NullString_Scan :: "ValueReader \<Rightarrow> (((string \<times> bool) \<times> mr_error option) \<times> ValueReader) option" where
  "NullString_Scan vr =
     (if vr_Len vr = - 1 then Some ((([], False), None), vr)
      else map_option (\<lambda>(s, vr). (((s, True), vr_err vr), vr)) (decodeText vr))"


section \<open>Reading inside a value\<close>

text \<open>
  A reader that stands in a value: the bytes of the value that are left, the rest of the message
  and what follows it.
\<close>

definition vr_at :: "ValueReader \<Rightarrow> bytes \<Rightarrow> bytes \<Rightarrow> bytes \<Rightarrow> bool" where
  "vr_at vr b tail rest \<longleftrightarrow> vr_err vr = None \<and> mr_at (vr_mr vr) (b @ tail) rest \<and> sint (vr_remaining vr) = int (length b)"

lemma vr_at_size: "vr_at vr b tail rest \<Longrightarrow> length b < 2 ^ 31"
  using sint_range_size [of "vr_remaining vr"] by (simp add: vr_at_def word_size)

lemma vr_at_Len: "vr_at vr b tail rest \<Longrightarrow> vr_Len vr = word_of_nat (length b)"
proof -
  assume "vr_at vr b tail rest"
  then have "word_of_int (sint (vr_remaining vr)) = (word_of_int (int (length b)) :: 32 word)"
    by (simp add: vr_at_def)
  then show ?thesis by (simp add: vr_Len_def)
qed

lemma word_of_nat_not_minus1: "n < 2 ^ 31 \<Longrightarrow> (word_of_nat n :: 32 word) \<noteq> - 1"
  using sint_word_of_nat [of n] by fastforce

lemma vr_take_at:
  assumes "vr_at vr (b @ c) tail rest" and "n = word_of_nat (length b)"
  shows "vr_take n vr = (True, vr\<lparr>vr_remaining := vr_remaining vr - n\<rparr>) \<and>
    sint (vr_remaining vr - n) = int (length c)"
proof -
  have "sint (vr_remaining vr - n) = int (length c)"
    using assms sint_minus_nat [of "vr_remaining vr" "length b"] vr_at_size [OF assms(1)]
    by (simp add: vr_at_def)
  then show ?thesis by (simp add: vr_take_def)
qed

lemma vr_read_at:
  assumes at: "vr_at vr (b @ c) tail rest" and n: "n = word_of_nat (length b)"
    and rd: "\<And>r. mr_at r (b @ c @ tail) rest \<Longrightarrow> \<exists>r'. rd r = (v, r') \<and> mr_at r' (c @ tail) rest"
  shows "\<exists>vr'. vr_read n zero rd vr = (v, vr') \<and> vr_at vr' c tail rest \<and> vr_fd vr' = vr_fd vr"
proof -
  have "mr_at (vr_mr vr) (b @ c @ tail) rest" using at by (simp add: vr_at_def)
  from rd [OF this] obtain r' where "rd (vr_mr vr) = (v, r')" "mr_at r' (c @ tail) rest" by blast
  with vr_take_at [OF at n] at show ?thesis
    by (simp add: vr_read_def vr_at_def)
qed

lemma vr_ReadByte_at:
  "vr_at vr (x # c) tail rest \<Longrightarrow> \<exists>vr'. vr_ReadByte vr = (x, vr') \<and> vr_at vr' c tail rest \<and> vr_fd vr' = vr_fd vr"
  unfolding vr_ReadByte_def by (rule vr_read_at [where b = "[x]"]) (auto intro: readByte_at)

lemma vr_ReadInt16_at:
  "vr_at vr (be16 x @ c) tail rest \<Longrightarrow> \<exists>vr'. vr_ReadInt16 vr = (x, vr') \<and> vr_at vr' c tail rest \<and> vr_fd vr' = vr_fd vr"
  unfolding vr_ReadInt16_def
  by (rule vr_read_at [where b = "be16 x"]) (auto intro: read_word_at simp: readInt16_def be16_be_bytes)

lemma vr_ReadInt32_at:
  "vr_at vr (be32 x @ c) tail rest \<Longrightarrow> \<exists>vr'. vr_ReadInt32 vr = (x, vr') \<and> vr_at vr' c tail rest \<and> vr_fd vr' = vr_fd vr"
  unfolding vr_ReadInt32_def
  by (rule vr_read_at [where b = "be32 x"]) (auto intro: read_word_at simp: readInt32_def be32_be_bytes)

lemma vr_ReadInt64_at:
  "vr_at vr (be64 x @ c) tail rest \<Longrightarrow> \<exists>vr'. vr_ReadInt64 vr = (x, vr') \<and> vr_at vr' c tail rest \<and> vr_fd vr' = vr_fd vr"
  unfolding vr_ReadInt64_def
  by (rule vr_read_at [where b = "be64 x"]) (auto intro: read_word_at simp: readInt64_def be64_be_bytes)

lemma readString_at:
  assumes at: "mr_at r (b @ body) rest" and n: "n = word_of_nat (length b)"
  shows "\<exists>r'. readString n r = Some (string_of_bytes b, r') \<and> mr_at r' body rest"
proof -
  have "int (length b) < 2 ^ 31"
    using at sint_range_size [of "mr_remaining r"] by (simp add: mr_at_def word_size)
  then have sn: "sint n = int (length b)"
    by (simp add: n sint_word_of_nat)
  obtain r1 where r1: "take_remaining n r = (True, r1)" "mr_err r1 = None" "mr_buf r1 = mr_buf r"
    "mr_input r1 = mr_input r" "sint (mr_remaining r1) = int (length body)"
    using take_remaining_at [OF at, of "length b"] n by auto
  show ?thesis
  proof (cases "length b \<le> 128")
    case True
    obtain r2 where "fill (length b) r1 = (True, r2)" "take (length b) (mr_buf r2) = b" "length (mr_buf r2) = length (mr_buf r1)"
      "mr_input r2 = body @ rest" "mr_err r2 = mr_err r1" "mr_remaining r2 = mr_remaining r1"
      using fill_at [of r1 b "body @ rest" "length b"] True at r1 by (auto simp: mr_at_def)
    with r1 True sn at show ?thesis by (auto simp: readString_def mr_at_def)
  next
    case False
    with r1 sn at show ?thesis by (auto simp: readString_def mr_at_def)
  qed
qed

lemma vr_ReadBytes_at:
  assumes at: "vr_at vr (b @ c) tail rest" and n: "n = word_of_nat (length b)"
  shows "\<exists>vr'. vr_ReadBytes n vr = Some (b, vr') \<and> vr_at vr' c tail rest \<and> vr_fd vr' = vr_fd vr"
proof -
  have "\<not> sint n < 0" using n vr_at_size [OF at] by (simp add: sint_word_of_nat)
  moreover obtain r' where "readBytes n (vr_mr vr) = Some (b, r')" "mr_at r' (c @ tail) rest"
    using readBytes_at [OF _ n, of "vr_mr vr" "c @ tail" rest] at by (auto simp: vr_at_def)
  ultimately show ?thesis
    using vr_take_at [OF at n] at by (simp add: vr_ReadBytes_def vr_at_def)
qed

lemma vr_ReadString_at:
  assumes at: "vr_at vr (b @ c) tail rest" and n: "n = word_of_nat (length b)"
  shows "\<exists>vr'. vr_ReadString n vr = Some (string_of_bytes b, vr') \<and> vr_at vr' c tail rest \<and> vr_fd vr' = vr_fd vr"
proof -
  obtain r' where "readString n (vr_mr vr) = Some (string_of_bytes b, r')" "mr_at r' (c @ tail) rest"
    using readString_at [OF _ n, of "vr_mr vr" "c @ tail" rest] at by (auto simp: vr_at_def)
  then show ?thesis
    using vr_take_at [OF at n] at by (simp add: vr_ReadString_def vr_at_def)
qed

section \<open>Arrays read back\<close>

definition array_header :: "Oid \<Rightarrow> nat \<Rightarrow> bytes" where
  "array_header oid n = be32 1 @ be32 0 @ be32 oid @ be32 (word_of_nat n) @ be32 1"

definition element :: "('a \<Rightarrow> bytes) \<Rightarrow> 'a \<Rightarrow> bytes" where
  "element enc x = be32 (word_of_nat (length (enc x))) @ enc x"

lemma length_array_header [simp]: "length (array_header oid n) = 20"
  by (simp add: array_header_def)

lemma decode1dArrayHeader_at:
  assumes at: "vr_at vr (array_header oid n @ c) tail rest"
  shows "\<exists>vr'. decode1dArrayHeader vr = (Inr (word_of_nat n), vr') \<and> vr_at vr' c tail rest \<and> vr_fd vr' = vr_fd vr"
proof -
  have at0: "vr_at vr (be32 1 @ be32 0 @ be32 oid @ be32 (word_of_nat n) @ be32 1 @ c) tail rest"
    using at by (simp add: array_header_def)
  obtain v1 where v1: "vr_ReadInt32 vr = (1, v1)" "vr_fd v1 = vr_fd vr"
    and at1: "vr_at v1 (be32 0 @ be32 oid @ be32 (word_of_nat n) @ be32 1 @ c) tail rest"
    using vr_ReadInt32_at [OF at0] by blast
  obtain v2 where v2: "vr_ReadInt32 v1 = (0, v2)" "vr_fd v2 = vr_fd vr"
    and at2: "vr_at v2 (be32 oid @ be32 (word_of_nat n) @ be32 1 @ c) tail rest"
    using vr_ReadInt32_at [OF at1] v1 by auto
  obtain v3 where v3: "vr_ReadInt32 v2 = (oid, v3)" "vr_fd v3 = vr_fd vr"
    and at3: "vr_at v3 (be32 (word_of_nat n) @ be32 1 @ c) tail rest"
    using vr_ReadInt32_at [OF at2] v2 by auto
  obtain v4 where v4: "vr_ReadInt32 v3 = (word_of_nat n, v4)" "vr_fd v4 = vr_fd vr"
    and at4: "vr_at v4 (be32 1 @ c) tail rest"
    using vr_ReadInt32_at [OF at3] v3 by auto
  obtain v5 where v5: "vr_ReadInt32 v4 = (1, v5)" "vr_fd v5 = vr_fd vr" and at5: "vr_at v5 c tail rest"
    using vr_ReadInt32_at [OF at4] v4 by auto
  show ?thesis
    using v1 v2 v3 v4 v5 at5 by (simp add: decode1dArrayHeader_def)
qed

text \<open>What the array decoders need of the codec of their elements.\<close>

locale element_codec =
  fixes el :: "'a element_reader" and enc :: "'a \<Rightarrow> bytes" and ok :: "'a \<Rightarrow> bool"
  assumes el_at: "ok x \<Longrightarrow> vr_at vr (enc x @ c) tail rest \<Longrightarrow>
    \<exists>vr'. el (word_of_nat (length (enc x))) vr = Some (Inr x, vr') \<and> vr_at vr' c tail rest \<and> vr_fd vr' = vr_fd vr"
begin

lemma decode_elements_at:
  "list_all ok xs \<Longrightarrow> vr_at vr (concat (map (element enc) xs) @ c) tail rest \<Longrightarrow>
   \<exists>vr'. decode_elements el (length xs) vr = Some (Inr xs, vr') \<and> vr_at vr' c tail rest"
proof (induction xs arbitrary: vr)
  case (Cons x xs)
  have at: "vr_at vr (be32 (word_of_nat (length (enc x))) @ enc x @ concat (map (element enc) xs) @ c) tail rest"
    using Cons.prems(2) by (simp add: element_def [of enc x])
  obtain v1 where v1: "vr_ReadInt32 vr = (word_of_nat (length (enc x)), v1)"
    and at1: "vr_at v1 (enc x @ concat (map (element enc) xs) @ c) tail rest"
    using vr_ReadInt32_at [OF at] by blast
  obtain v2 where v2: "el (word_of_nat (length (enc x))) v1 = Some (Inr x, v2)"
    and at2: "vr_at v2 (concat (map (element enc) xs) @ c) tail rest"
    using el_at [OF _ at1] Cons.prems by auto
  obtain v3 where "decode_elements el (length xs) v2 = Some (Inr xs, v3)" "vr_at v3 c tail rest"
    using Cons.IH [OF _ at2] Cons.prems by auto
  with v1 v2 show ?case by simp
qed simp

lemma decode_array_at:
  assumes ok: "list_all ok xs" and at: "vr_at vr (array_header oid (length xs) @ concat (map (element enc) xs)) tail rest"
    and fd: "fd_DataType (vr_fd vr) \<in> oids" "fd_FormatCode (vr_fd vr) = BinaryFormatCode"
  shows "\<exists>vr'. decode_array oids el vr = Some (xs, vr') \<and> vr_at vr' [] tail rest"
proof -
  have size: "length (array_header oid (length xs) @ concat (map (element enc) xs)) < 2 ^ 31"
    by (rule vr_at_size [OF at])
  have "length xs \<le> length (concat (map (element enc) xs))"
    by (induction xs) (auto simp: element_def [of enc])
  with size have len: "sint (word_of_nat (length xs) :: 32 word) = int (length xs)"
    by (simp add: sint_word_of_nat)
  obtain v1 where v1: "decode1dArrayHeader vr = (Inr (word_of_nat (length xs)), v1)"
    and at1: "vr_at v1 (concat (map (element enc) xs) @ []) tail rest"
    using decode1dArrayHeader_at [OF at] by auto
  obtain v2 where "decode_elements el (length xs) v1 = Some (Inr xs, v2)" "vr_at v2 [] tail rest"
    using decode_elements_at [OF ok at1] by blast
  moreover have "vr_Len vr \<noteq> - 1"
    using vr_at_Len [OF at] word_of_nat_not_minus1 [OF size] by simp
  ultimately show ?thesis
    using fd v1 len by (simp add: decode_array_def)
qed

end


lemma sized_element_at:
  assumes "\<exists>vr'. rd vr = (x, vr') \<and> vr_at vr' c tail rest \<and> vr_fd vr' = vr_fd vr" and "n = word_of_nat (length (enc x))"
  shows "\<exists>vr'. sized_element n rd (word_of_nat (length (enc x))) vr = Some (Inr x, vr') \<and> vr_at vr' c tail rest \<and>
    vr_fd vr' = vr_fd vr"
  using assms by (auto simp: sized_element_def)

lemma unsigned_element_at:
  assumes "\<exists>vr'. rd vr = (x, vr') \<and> vr_at vr' c tail rest \<and> vr_fd vr' = vr_fd vr" and "n = word_of_nat (length (enc x))"
    and "0 \<le> sint x"
  shows "\<exists>vr'. unsigned_element n rd (word_of_nat (length (enc x))) vr = Some (Inr x, vr') \<and> vr_at vr' c tail rest \<and>
    vr_fd vr' = vr_fd vr"
  using assms by (auto simp: unsigned_element_def)

lemma sint_nonneg_small:
  assumes "uint (v :: 'a::len word) \<le> 2 ^ (LENGTH('a) - 1) - 1"
  shows "sint v = uint v"
proof -
  have "- (2 ^ (LENGTH('a) - 1)) \<le> uint v" by (rule order_trans [of _ 0]) simp_all
  with assms have "signed_take_bit (LENGTH('a) - 1) (uint v) = uint v"
    by (intro signed_take_bit_int_eq_self) simp_all
  then show ?thesis by (simp add: sint_uint)
qed

interpretation bools: element_codec
    "sized_element 1 (\<lambda>vr. case vr_ReadByte vr of (b, vr) \<Rightarrow> (b = 1, vr))" "\<lambda>b. [if b then 1 else 0]" "\<lambda>_. True"
proof
  fix b vr c tail rest assume "vr_at vr ([if b then 1 else 0] @ c) tail rest"
  then obtain vr' where "vr_ReadByte vr = (if b then 1 else 0, vr')" "vr_at vr' c tail rest" "vr_fd vr' = vr_fd vr"
    using vr_ReadByte_at [of vr "if b then 1 else 0" c] by auto
  then show "\<exists>vr'. sized_element 1 (\<lambda>vr. case vr_ReadByte vr of (b, vr) \<Rightarrow> (b = 1, vr))
      (word_of_nat (length [if b then 1 else 0 :: byte])) vr = Some (Inr b, vr') \<and> vr_at vr' c tail rest \<and> vr_fd vr' = vr_fd vr"
    by (auto simp: sized_element_def)
qed

interpretation int2s: element_codec "sized_element 2 vr_ReadInt16" be16 "\<lambda>_. True"
  by unfold_locales (rule sized_element_at [where enc = be16, OF vr_ReadInt16_at], simp_all)

interpretation int4s: element_codec "sized_element 4 vr_ReadInt32" be32 "\<lambda>_. True"
  by unfold_locales (rule sized_element_at [where enc = be32, OF vr_ReadInt32_at], simp_all)

interpretation int8s: element_codec "sized_element 8 vr_ReadInt64" be64 "\<lambda>_. True"
  by unfold_locales (rule sized_element_at [where enc = be64, OF vr_ReadInt64_at], simp_all)

interpretation uint2s: element_codec "unsigned_element 2 vr_ReadInt16" be16 "\<lambda>v. uint v \<le> 2 ^ 15 - 1"
  by unfold_locales (rule unsigned_element_at [where enc = be16, OF vr_ReadInt16_at], simp_all add: sint_nonneg_small)

interpretation uint4s: element_codec "unsigned_element 4 vr_ReadInt32" be32 "\<lambda>v. uint v \<le> 2 ^ 31 - 1"
  by unfold_locales (rule unsigned_element_at [where enc = be32, OF vr_ReadInt32_at], simp_all add: sint_nonneg_small)

interpretation uint8s: element_codec "unsigned_element 8 vr_ReadInt64" be64 "\<lambda>v. uint v \<le> 2 ^ 63 - 1"
  by unfold_locales (rule unsigned_element_at [where enc = be64, OF vr_ReadInt64_at], simp_all add: sint_nonneg_small)

interpretation texts: element_codec
    "\<lambda>elSize vr. if elSize = - 1 then Some (Inl ''Cannot decode null element'', vr)
       else map_option (map_prod Inr id) (vr_ReadString elSize vr)" bytes_of_string "\<lambda>_. True"
proof
  fix s vr c tail rest assume at: "vr_at vr (bytes_of_string s @ c) tail rest"
  show "\<exists>vr'. (if word_of_nat (length (bytes_of_string s)) = (- 1 :: 32 word) then Some (Inl ''Cannot decode null element'', vr)
      else map_option (map_prod Inr id) (vr_ReadString (word_of_nat (length (bytes_of_string s))) vr)) = Some (Inr s, vr') \<and>
      vr_at vr' c tail rest \<and> vr_fd vr' = vr_fd vr"
    using vr_ReadString_at [OF at refl] word_of_nat_not_minus1 [of "length s"] vr_at_size [OF at] by auto
qed

interpretation byteas: element_codec
    "\<lambda>elSize vr. if elSize = - 1 then Some (Inl ''Cannot decode null element'', vr)
       else map_option (map_prod Inr id) (vr_ReadBytes elSize vr)" "\<lambda>b. b" "\<lambda>_. True"
proof
  fix b vr c tail rest assume at: "vr_at vr (b @ c) tail rest"
  show "\<exists>vr'. (if word_of_nat (length b) = (- 1 :: 32 word) then Some (Inl ''Cannot decode null element'', vr)
      else map_option (map_prod Inr id) (vr_ReadBytes (word_of_nat (length b)) vr)) = Some (Inr b, vr') \<and>
      vr_at vr' c tail rest \<and> vr_fd vr' = vr_fd vr"
    using vr_ReadBytes_at [OF at refl] word_of_nat_not_minus1 [of "length b"] vr_at_size [OF at] by auto
qed

section \<open>What the encoders write\<close>

text \<open>The length and the bytes of one value.\<close>

definition appended :: "WriteBuf \<Rightarrow> bytes \<Rightarrow> WriteBuf \<Rightarrow> bool" where
  "appended w body w' \<longleftrightarrow> wb_buf w' = wb_buf w @ be32 (word_of_nat (length body)) @ body"

lemmas write_defs = WriteByte_def WriteInt16_def WriteInt32_def WriteInt64_def WriteBytes_def append_buf_def

lemma fold_append:
  assumes "\<And>x w. wb_buf (f x w) = wb_buf w @ g x"
  shows "wb_buf (fold f xs w) = wb_buf w @ concat (map g xs)"
  by (induction xs arbitrary: w) (simp_all add: assms)

lemma put_unsigned_append:
  assumes "\<And>x w. wb_buf (snd (put x w)) = wb_buf w @ g x" and "put_unsigned hi put xs w = (None, w')"
  shows "wb_buf w' = wb_buf w @ concat (map g xs) \<and> list_all (\<lambda>v. uint v \<le> hi) xs"
  using assms(2) by (induction xs arbitrary: w) (auto simp: assms(1) split: if_splits)

lemma encodeArrayHeader_append:
  "wb_buf (encodeArrayHeader oid n k w) = wb_buf w @ be32 (word_of_nat (20 + n * k)) @ array_header oid n"
  by (simp add: encodeArrayHeader_def array_header_def write_defs)

lemma length_elements: "(\<And>x. length (enc x) = k) \<Longrightarrow> length (concat (map (element enc) xs)) = length xs * (4 + k)"
  by (induction xs) (simp_all add: element_def [of enc])

lemma put_ints_append:
  "wb_buf (snd (put_int2 a w)) = wb_buf w @ element be16 a"
  "wb_buf (snd (put_int4 b w)) = wb_buf w @ element be32 b"
  "wb_buf (snd (put_int8 c w)) = wb_buf w @ element be64 c"
  by (simp_all add: put_int2_def put_int4_def put_int8_def write_defs element_def)


subsection \<open>Integers\<close>

fun int_value :: "go_val \<Rightarrow> int option" where
  "int_value (VInt n) = Some (sint n)"
| "int_value (VUInt n) = Some (uint n)"
| "int_value (VInt8 n) = Some (sint n)"
| "int_value (VUInt8 n) = Some (uint n)"
| "int_value (VInt16 n) = Some (sint n)"
| "int_value (VUInt16 n) = Some (uint n)"
| "int_value (VInt32 n) = Some (sint n)"
| "int_value (VUInt32 n) = Some (uint n)"
| "int_value (VInt64 n) = Some (sint n)"
| "int_value (VUInt64 n) = Some (uint n)"
| "int_value _ = None"

definition column_range :: "Oid \<Rightarrow> int \<Rightarrow> bool" where
  "column_range oid i \<longleftrightarrow>
     (oid = Int2Oid \<and> - (2 ^ 15) \<le> i \<and> i < 2 ^ 15) \<or> (oid = Int4Oid \<and> - (2 ^ 31) \<le> i \<and> i < 2 ^ 31) \<or>
     (oid = Int8Oid \<and> - (2 ^ 63) \<le> i \<and> i < 2 ^ 63)"

definition int_body :: "Oid \<Rightarrow> int \<Rightarrow> bytes" where
  "int_body oid i =
     (if oid = Int2Oid then be16 (word_of_int i) else if oid = Int4Oid then be32 (word_of_int i) else be64 (word_of_int i))"

text \<open>The only integers that are written without a check against the lower bound of the column.\<close>

definition above_min :: "Oid \<Rightarrow> go_val \<Rightarrow> bool" where
  "above_min oid v =
     (case v of
        VInt32 n \<Rightarrow> oid = Int2Oid \<longrightarrow> - (2 ^ 15) \<le> sint n
      | VInt64 n \<Rightarrow> (oid = Int2Oid \<longrightarrow> - (2 ^ 15) \<le> sint n) \<and> (oid = Int4Oid \<longrightarrow> - (2 ^ 31) \<le> sint n)
      | _ \<Rightarrow> True)"

lemma ucast_sint: "LENGTH('b) \<le> LENGTH('a) \<Longrightarrow> (ucast (v :: 'a::len word) :: 'b::len word) = word_of_int (sint v)"
proof (rule bit_word_eqI)
  fix n assume "LENGTH('b) \<le> LENGTH('a)" "n < LENGTH('b)"
  then have "n < LENGTH('a) - 1 \<or> n = LENGTH('a) - 1" by linarith
  then show "bit (ucast v :: 'b word) n = bit (word_of_int (sint v) :: 'b word) n"
    using \<open>n < LENGTH('b)\<close> by (auto simp: bit_simps min_def)
qed

lemma scast_sint: "(scast (v :: 'a::len word) :: 'b::len word) = word_of_int (sint v)"
  by simp

lemma ucast_uint: "(ucast (v :: 'a::len word) :: 'b::len word) = word_of_int (uint v)"
  by simp


lemma sint_bounds: "- (2 ^ (LENGTH('a) - 1)) \<le> sint (v :: 'a::len word)" "sint v < 2 ^ (LENGTH('a) - 1)"
  using sint_greater_eq [of v] sint_less [of v] by simp_all

lemmas int_bounds = sint_bounds [where 'a = 8, simplified] sint_bounds [where 'a = 16, simplified]
  sint_bounds [where 'a = 32, simplified] sint_bounds [where 'a = 64, simplified]
  unsigned_less [where 'b = 8 and 'a = int, simplified] unsigned_less [where 'b = 16 and 'a = int, simplified]
  unsigned_less [where 'b = 32 and 'a = int, simplified] unsigned_less [where 'b = 64 and 'a = int, simplified]

lemmas int_encoder_defs = encodeInt_def encodeUInt_def encodeInt8_def encodeUInt8_def encodeInt16_def encodeUInt16_def
  encodeInt32_def encodeUInt32_def encodeInt64_def encodeUInt64_def

lemma put_appended:
  "put_int2 x w = (None, w') \<Longrightarrow> x = word_of_int i \<Longrightarrow> appended w (int_body Int2Oid i) w'"
  "put_int4 y w = (None, w') \<Longrightarrow> y = word_of_int i \<Longrightarrow> appended w (int_body Int4Oid i) w'"
  "put_int8 z w = (None, w') \<Longrightarrow> z = word_of_int i \<Longrightarrow> appended w (int_body Int8Oid i) w'"
  by (auto simp: appended_def int_body_def put_int2_def put_int4_def put_int8_def write_defs oid_defs)

definition kind_range :: "go_val \<Rightarrow> int \<times> int" where
  "kind_range v =
     (case v of
        VInt8 _ \<Rightarrow> (- (2 ^ 7), 2 ^ 7) | VInt16 _ \<Rightarrow> (- (2 ^ 15), 2 ^ 15) | VInt32 _ \<Rightarrow> (- (2 ^ 31), 2 ^ 31)
      | VInt64 _ \<Rightarrow> (- (2 ^ 63), 2 ^ 63) | VInt _ \<Rightarrow> (- (2 ^ 63), 2 ^ 63)
      | VUInt8 _ \<Rightarrow> (0, 2 ^ 8) | VUInt16 _ \<Rightarrow> (0, 2 ^ 16) | VUInt32 _ \<Rightarrow> (0, 2 ^ 32)
      | VUInt64 _ \<Rightarrow> (0, 2 ^ 64) | VUInt _ \<Rightarrow> (0, 2 ^ 64) | _ \<Rightarrow> (0, 0))"

lemma int_value_range: "int_value v = Some i \<Longrightarrow> fst (kind_range v) \<le> i \<and> i < snd (kind_range v)"
  by (cases v) (auto simp: kind_range_def int_bounds)

lemma encode_int_body:
  assumes "int_value v = Some i" and "encode_kind v oid w = (None, w')" and "above_min oid v"
  shows "column_range oid i \<and> appended w (int_body oid i) w'"
proof -
  have oid: "oid = Int2Oid \<or> oid = Int4Oid \<or> oid = Int8Oid"
    using assms(1,2) by (cases v) (auto simp: encode_kind_def int_encoder_defs split: if_splits)
  have "column_range oid i"
    using assms oid int_value_range [OF assms(1)]
    by (cases v) (auto simp: encode_kind_def int_encoder_defs above_min_def column_range_def oid_defs kind_range_def
        split: if_splits)
  moreover have "appended w (int_body oid i) w'"
    using assms(1,2) oid
    by (cases v) (auto simp: encode_kind_def int_encoder_defs oid_defs ucast_sint
        intro!: put_appended [unfolded oid_defs] split: if_splits)
  ultimately show ?thesis by blast
qed


fun type_of :: "go_val \<Rightarrow> go_type option" where
  "type_of (VBool _) = Some GBool"
| "type_of (VInt _) = Some GInt"
| "type_of (VInt8 _) = Some GInt8"
| "type_of (VInt16 _) = Some GInt16"
| "type_of (VInt32 _) = Some GInt32"
| "type_of (VInt64 _) = Some GInt64"
| "type_of (VUInt _) = Some GUInt"
| "type_of (VUInt8 _) = Some GUInt8"
| "type_of (VUInt16 _) = Some GUInt16"
| "type_of (VUInt32 _) = Some GUInt32"
| "type_of (VUInt64 _) = Some GUInt64"
| "type_of (VOid _) = Some GOid"
| "type_of (VString _) = Some GString"
| "type_of (VBools _) = Some GBools"
| "type_of (VInt16s _) = Some GInt16s"
| "type_of (VUInt16s _) = Some GUInt16s"
| "type_of (VInt32s _) = Some GInt32s"
| "type_of (VUInt32s _) = Some GUInt32s"
| "type_of (VInt64s _) = Some GInt64s"
| "type_of (VUInt64s _) = Some GUInt64s"
| "type_of (VStrings _) = Some GStrings"
| "type_of (VByteSlices _) = Some GByteSlices"
| "type_of _ = None"

lemma sint_word_of_int_range:
  "- (2 ^ (LENGTH('a) - 1)) \<le> i \<Longrightarrow> i < 2 ^ (LENGTH('a) - 1) \<Longrightarrow> sint (word_of_int i :: 'a::len word) = i"
  by (subst sint_sbintrunc') (simp add: signed_take_bit_int_eq_self)

lemma ucast_word_of_int:
  "LENGTH('b) \<le> LENGTH('a) \<Longrightarrow> (ucast (word_of_int i :: 'a::len word) :: 'b::len word) = word_of_int i"
  by (rule bit_word_eqI) (simp add: bit_simps)

lemma check_value_at:
  assumes "vr_at vr body tail rest" and "fd_DataType (vr_fd vr) = oid" "fd_FormatCode (vr_fd vr) = BinaryFormatCode"
    and "n = word_of_nat (length body)"
  shows "decode_checked oid n zero rd vr = rd vr"
  using assms vr_at_Len [OF assms(1)] word_of_nat_not_minus1 [OF vr_at_size [OF assms(1)]]
  by (simp add: decode_checked_def check_value_def)

lemma decodeInt_at:
  assumes range: "column_range oid i" and at: "vr_at vr (int_body oid i) tail rest"
    and fd: "fd_DataType (vr_fd vr) = oid" "fd_FormatCode (vr_fd vr) = BinaryFormatCode"
  shows "\<exists>vr'. decodeInt vr = (word_of_int i, vr') \<and> vr_at vr' [] tail rest"
proof -
  note ck = check_value_at [OF at fd]
  have oids: "Int2Oid \<noteq> Int4Oid" "Int2Oid \<noteq> Int8Oid" "Int4Oid \<noteq> Int8Oid" by (simp_all add: oid_defs)
  consider (int2) "oid = Int2Oid" "sint (word_of_int i :: 16 word) = i"
    | (int4) "oid = Int4Oid" "sint (word_of_int i :: 32 word) = i" | (int8) "oid = Int8Oid"
    using range sint_word_of_int_range [where 'a = 16, of i] sint_word_of_int_range [where 'a = 32, of i]
    by (auto simp: column_range_def)
  then show ?thesis
  proof cases
    case int2
    then have body: "int_body oid i = be16 (word_of_int i)" by (simp add: int_body_def)
    obtain vr' where "vr_ReadInt16 vr = (word_of_int i, vr')" "vr_at vr' [] tail rest"
      using vr_ReadInt16_at [of vr "word_of_int i" "[]" tail rest] at by (auto simp: body)
    moreover have "decode_checked oid 2 0 vr_ReadInt16 vr = vr_ReadInt16 vr" by (rule ck) (simp add: body)
    moreover have "scast (word_of_int i :: 16 word) = (word_of_int i :: 64 word)" unfolding scast_sint int2(2) ..
    ultimately show ?thesis using fd int2(1) by (simp add: decodeInt_def decodeInt2_def)
  next
    case int4
    then have body: "int_body oid i = be32 (word_of_int i)" using oids by (auto simp: int_body_def)
    obtain vr' where "vr_ReadInt32 vr = (word_of_int i, vr')" "vr_at vr' [] tail rest"
      using vr_ReadInt32_at [of vr "word_of_int i" "[]" tail rest] at by (auto simp: body)
    moreover have "decode_checked oid 4 0 vr_ReadInt32 vr = vr_ReadInt32 vr" by (rule ck) (simp add: body)
    moreover have "scast (word_of_int i :: 32 word) = (word_of_int i :: 64 word)" unfolding scast_sint int4(2) ..
    ultimately show ?thesis using fd int4(1) oids by (auto simp: decodeInt_def decodeInt4_def)
  next
    case int8
    then have body: "int_body oid i = be64 (word_of_int i)" using oids by (auto simp: int_body_def)
    obtain vr' where "vr_ReadInt64 vr = (word_of_int i, vr')" "vr_at vr' [] tail rest"
      using vr_ReadInt64_at [of vr "word_of_int i" "[]" tail rest] at by (auto simp: body)
    moreover have "decode_checked oid 8 0 vr_ReadInt64 vr = vr_ReadInt64 vr" by (rule ck) (simp add: body)
    ultimately show ?thesis using fd int8 oids by (auto simp: decodeInt_def decodeInt8_def)
  qed
qed

definition decodes_back :: "Oid \<Rightarrow> go_type \<Rightarrow> go_val \<Rightarrow> bytes \<Rightarrow> bool" where
  "decodes_back oid t v body \<longleftrightarrow>
     (\<forall>vr tail rest. vr_at vr body tail rest \<and> fd_DataType (vr_fd vr) = oid \<and> fd_FormatCode (vr_fd vr) = BinaryFormatCode \<longrightarrow>
        (\<exists>vr'. Decode t vr = Some ((None, Some v), vr') \<and> vr_at vr' [] tail rest))"

lemma decodes_back_int:
  assumes "int_value v = Some i" and "type_of v = Some t" and "column_range oid i"
  shows "decodes_back oid t v (int_body oid i)"
  unfolding decodes_back_def
proof (intro allI impI, elim conjE)
  fix vr tail rest
  assume at: "vr_at vr (int_body oid i) tail rest" and fd: "fd_DataType (vr_fd vr) = oid" "fd_FormatCode (vr_fd vr) = BinaryFormatCode"
  obtain vr' where vr': "decodeInt vr = (word_of_int i, vr')" "vr_at vr' [] tail rest"
    using decodeInt_at [OF assms(3) at fd] by blast
  have i: "sint (word_of_int i :: 64 word) = i"
    using assms(3) by (intro sint_word_of_int_range) (auto simp: column_range_def)
  have "decode_ranged lo hi mk vr = Some ((None, Some (mk (word_of_int i))), vr')" if "lo \<le> i" "i \<le> hi" for lo hi mk
    using vr'(1) i that by (simp add: decode_ranged_def del: of_int_eq_iff)
  with assms(1,2) int_value_range [OF assms(1)] vr'(2)
  show "\<exists>vr'. Decode t vr = Some ((None, Some v), vr') \<and> vr_at vr' [] tail rest"
    by (cases v) (auto simp: kind_range_def ucast_word_of_int)
qed


subsection \<open>Slices\<close>

definition array_body :: "Oid \<Rightarrow> ('a \<Rightarrow> bytes) \<Rightarrow> 'a list \<Rightarrow> bytes" where
  "array_body oid enc xs = array_header oid (length xs) @ concat (map (element enc) xs)"

lemma array_appended:
  assumes "wb_buf w' = wb_buf (encodeArrayHeader oid (length xs) k w) @ concat (map (element enc) xs)"
    and "\<And>x. length (enc x) + 4 = k"
  shows "appended w (array_body oid enc xs) w'"
proof -
  have "length (concat (map (element enc) xs)) = length xs * k"
    using length_elements [of enc "k - 4" xs] assms(2) by (metis add.commute add_diff_cancel_right')
  then show ?thesis
    using assms(1) by (simp add: appended_def array_body_def encodeArrayHeader_append)
qed

lemma sized_array_appended:
  assumes "wb_buf w' = wb_buf w @ be32 (word_of_nat sz) @ array_header oid (length xs) @ concat (map (element enc) xs)"
    and "sz = 20 + length (concat (map (element enc) xs))"
  shows "appended w (array_body oid enc xs) w'"
  using assms by (simp add: appended_def array_body_def)

lemma foldl_sizes: "foldl (\<lambda>n x. n + f x) k xs = k + (\<Sum>x\<leftarrow>xs. f x :: nat)"
  by (induction xs arbitrary: k) (simp_all add: add.assoc)

lemma length_elements_sum: "length (concat (map (element enc) xs)) = (\<Sum>x\<leftarrow>xs. 4 + length (enc x))"
  by (induction xs) (simp_all add: element_def [of enc])

lemma slices_appended:
  "encodeBoolSlice bs oid w = (None, w') \<Longrightarrow> appended w (array_body BoolOid (\<lambda>b. [if b then 1 else 0]) bs) w'"
  "encodeInt16Slice as oid w = (None, w') \<Longrightarrow> appended w (array_body Int2Oid be16 as) w'"
  "encodeInt32Slice cs oid w = (None, w') \<Longrightarrow> appended w (array_body Int4Oid be32 cs) w'"
  "encodeInt64Slice ds oid w = (None, w') \<Longrightarrow> appended w (array_body Int8Oid be64 ds) w'"
  unfolding encodeBoolSlice_def encodeInt16Slice_def encodeInt32Slice_def encodeInt64Slice_def
  by (rule array_appended [rotated], simp, auto split: if_splits intro!: fold_append simp: write_defs element_def
      put_int2_def put_int4_def put_int8_def)+

lemma unsigned_slices_appended:
  "encodeUInt16Slice as oid w = (None, w') \<Longrightarrow>
     appended w (array_body Int2Oid be16 as) w' \<and> list_all (\<lambda>v. uint v \<le> 2 ^ 15 - 1) as"
  "encodeUInt32Slice cs oid w = (None, w') \<Longrightarrow>
     appended w (array_body Int4Oid be32 cs) w' \<and> list_all (\<lambda>v. uint v \<le> 2 ^ 31 - 1) cs"
  "encodeUInt64Slice ds oid w = (None, w') \<Longrightarrow>
     appended w (array_body Int8Oid be64 ds) w' \<and> list_all (\<lambda>v. uint v \<le> 2 ^ 63 - 1) ds"
  unfolding encodeUInt16Slice_def encodeUInt32Slice_def encodeUInt64Slice_def
  by (auto split: if_splits dest!: put_unsigned_append [rotated] simp: put_ints_append
      elim!: array_appended)

lemma encodeByteSliceSlice_appended:
  assumes "encodeByteSliceSlice bs oid w = (None, w')"
  shows "appended w (array_body ByteaOid (\<lambda>b. b) bs) w'"
proof (rule sized_array_appended)
  let ?size = "foldl (\<lambda>size el. size + (4 + length el)) 20 bs"
  show "wb_buf w' = wb_buf w @ be32 (word_of_nat ?size) @ array_header ByteaOid (length bs) @ concat (map (element (\<lambda>b. b)) bs)"
    using assms fold_append [of "\<lambda>v w. snd (encodeByteSlice v ByteaOid w)" "element (\<lambda>b. b)" bs]
    by (auto simp: encodeByteSliceSlice_def encodeByteSlice_def write_defs element_def array_header_def Let_def split: if_splits)
qed (simp add: foldl_sizes length_elements_sum)

lemma encodeStringSlice_appended:
  assumes "encodeStringSlice ss oid w = (None, w')"
  shows "appended w (array_body (if oid = VarcharArrayOid then VarcharOid else TextOid) bytes_of_string ss) w' \<and>
    oid \<in> {TextArrayOid, VarcharArrayOid}"
proof
  let ?size = "20 + length ss * 4 + foldl (\<lambda>size v. size + length v) 0 ss"
  let ?el = "if oid = VarcharArrayOid then VarcharOid else TextOid"
  show oid: "oid \<in> {TextArrayOid, VarcharArrayOid}"
    using assms by (auto simp: encodeStringSlice_def split: if_splits)
  have "wb_buf w' = wb_buf w @ be32 (word_of_nat ?size) @ array_header ?el (length ss) @ concat (map (element bytes_of_string) ss)"
    using assms oid fold_append [of "\<lambda>v w. WriteBytes (bytes_of_string v) (WriteInt32 (word_of_nat (length v)) w)" "element bytes_of_string" ss]
    by (auto simp: encodeStringSlice_def write_defs element_def array_header_def Let_def split: if_splits)
  then show "appended w (array_body ?el bytes_of_string ss) w'"
    by (rule sized_array_appended)
      (simp add: foldl_sizes length_elements_sum sum_list_addf sum_list_triv)
qed


lemma array_reads_back:
  assumes dec: "\<And>vr tail rest. vr_at vr (array_body el enc xs) tail rest \<Longrightarrow> fd_DataType (vr_fd vr) \<in> oids \<Longrightarrow>
      fd_FormatCode (vr_fd vr) = BinaryFormatCode \<Longrightarrow> \<exists>vr'. dec vr = Some (xs, vr') \<and> vr_at vr' [] tail rest"
    and "oid \<in> oids" and "\<And>vr. Decode t vr = stored mk (dec vr)"
  shows "decodes_back oid t (mk xs) (array_body el enc xs)"
  unfolding decodes_back_def
proof (intro allI impI, elim conjE)
  fix vr tail rest
  assume "vr_at vr (array_body el enc xs) tail rest" "fd_DataType (vr_fd vr) = oid" "fd_FormatCode (vr_fd vr) = BinaryFormatCode"
  with assms(2) obtain vr' where "dec vr = Some (xs, vr')" "vr_at vr' [] tail rest" using dec by blast
  then show "\<exists>vr'. Decode t vr = Some ((None, Some (mk xs)), vr') \<and> vr_at vr' [] tail rest"
    by (simp add: assms(3) stored_def)
qed

lemma bools_read_back: "decodes_back BoolArrayOid GBools (VBools xs) (array_body el (\<lambda>b. [if b then 1 else 0]) xs)"
  by (rule array_reads_back [where dec = decodeBoolArray and oids = "{BoolArrayOid}"],
      unfold decodeBoolArray_def array_body_def, rule bools.decode_array_at) (simp_all add: list_all_iff decodeBoolArray_def)

lemma int16s_read_back: "decodes_back Int2ArrayOid GInt16s (VInt16s xs) (array_body el be16 xs)"
  by (rule array_reads_back [where dec = decodeInt2Array and oids = "{Int2ArrayOid}"],
      unfold decodeInt2Array_def array_body_def, rule int2s.decode_array_at) (simp_all add: list_all_iff decodeInt2Array_def)

lemma int32s_read_back: "decodes_back Int4ArrayOid GInt32s (VInt32s xs) (array_body el be32 xs)"
  by (rule array_reads_back [where dec = decodeInt4Array and oids = "{Int4ArrayOid}"],
      unfold decodeInt4Array_def array_body_def, rule int4s.decode_array_at) (simp_all add: list_all_iff decodeInt4Array_def)

lemma int64s_read_back: "decodes_back Int8ArrayOid GInt64s (VInt64s xs) (array_body el be64 xs)"
  by (rule array_reads_back [where dec = decodeInt8Array and oids = "{Int8ArrayOid}"],
      unfold decodeInt8Array_def array_body_def, rule int8s.decode_array_at) (simp_all add: list_all_iff decodeInt8Array_def)

lemma uint16s_read_back: "list_all (\<lambda>v. uint v \<le> 2 ^ 15 - 1) xs \<Longrightarrow> decodes_back Int2ArrayOid GUInt16s (VUInt16s xs) (array_body el be16 xs)"
  by (rule array_reads_back [where dec = decodeInt2ArrayToUInt and oids = "{Int2ArrayOid}"],
      unfold decodeInt2ArrayToUInt_def array_body_def, rule uint2s.decode_array_at) (simp_all add: list_all_iff decodeInt2ArrayToUInt_def)

lemma uint32s_read_back: "list_all (\<lambda>v. uint v \<le> 2 ^ 31 - 1) xs \<Longrightarrow> decodes_back Int4ArrayOid GUInt32s (VUInt32s xs) (array_body el be32 xs)"
  by (rule array_reads_back [where dec = decodeInt4ArrayToUInt and oids = "{Int4ArrayOid}"],
      unfold decodeInt4ArrayToUInt_def array_body_def, rule uint4s.decode_array_at) (simp_all add: list_all_iff decodeInt4ArrayToUInt_def)

lemma uint64s_read_back: "list_all (\<lambda>v. uint v \<le> 2 ^ 63 - 1) xs \<Longrightarrow> decodes_back Int8ArrayOid GUInt64s (VUInt64s xs) (array_body el be64 xs)"
  by (rule array_reads_back [where dec = decodeInt8ArrayToUInt and oids = "{Int8ArrayOid}"],
      unfold decodeInt8ArrayToUInt_def array_body_def, rule uint8s.decode_array_at) (simp_all add: list_all_iff decodeInt8ArrayToUInt_def)

lemma byteas_read_back: "decodes_back ByteaArrayOid GByteSlices (VByteSlices xs) (array_body el (\<lambda>b. b) xs)"
  by (rule array_reads_back [where dec = decodeByteaArray and oids = "{ByteaArrayOid}"],
      unfold decodeByteaArray_def array_body_def, rule byteas.decode_array_at) (simp_all add: list_all_iff decodeByteaArray_def)

lemma texts_read_back: "oid \<in> {TextArrayOid, VarcharArrayOid} \<Longrightarrow> decodes_back oid GStrings (VStrings xs) (array_body el bytes_of_string xs)"
  by (rule array_reads_back [where dec = decodeTextArray and oids = "{TextArrayOid, VarcharArrayOid}"],
      unfold decodeTextArray_def array_body_def, rule texts.decode_array_at) (simp_all add: list_all_iff decodeTextArray_def)

lemmas slices_read_back = bools_read_back int16s_read_back int32s_read_back int64s_read_back uint16s_read_back
  uint32s_read_back uint64s_read_back byteas_read_back texts_read_back

lemma slice_oids:
  "encodeBoolSlice bs oid w = (None, w') \<Longrightarrow> oid = BoolArrayOid"
  "encodeInt16Slice as oid w = (None, w') \<Longrightarrow> oid = Int2ArrayOid"
  "encodeInt32Slice cs oid w = (None, w') \<Longrightarrow> oid = Int4ArrayOid"
  "encodeInt64Slice ds oid w = (None, w') \<Longrightarrow> oid = Int8ArrayOid"
  "encodeUInt16Slice as oid w = (None, w') \<Longrightarrow> oid = Int2ArrayOid"
  "encodeUInt32Slice cs oid w = (None, w') \<Longrightarrow> oid = Int4ArrayOid"
  "encodeUInt64Slice ds oid w = (None, w') \<Longrightarrow> oid = Int8ArrayOid"
  "encodeByteSliceSlice es oid w = (None, w') \<Longrightarrow> oid = ByteaArrayOid"
  by (simp_all add: encodeBoolSlice_def encodeInt16Slice_def encodeInt32Slice_def encodeInt64Slice_def encodeUInt16Slice_def
      encodeUInt32Slice_def encodeUInt64Slice_def encodeByteSliceSlice_def split: if_splits)

lemma encodeBoolSlice_roundtrip:
  "encodeBoolSlice xs oid w = (None, w') \<Longrightarrow> \<exists>body. appended w body w' \<and> decodes_back oid GBools (VBools xs) body"
  by (metis slice_oids(1) slices_appended(1) bools_read_back)

lemma encodeInt16Slice_roundtrip:
  "encodeInt16Slice xs oid w = (None, w') \<Longrightarrow> \<exists>body. appended w body w' \<and> decodes_back oid GInt16s (VInt16s xs) body"
  by (metis slice_oids(2) slices_appended(2) int16s_read_back)

lemma encodeInt32Slice_roundtrip:
  "encodeInt32Slice xs oid w = (None, w') \<Longrightarrow> \<exists>body. appended w body w' \<and> decodes_back oid GInt32s (VInt32s xs) body"
  by (metis slice_oids(3) slices_appended(3) int32s_read_back)

lemma encodeInt64Slice_roundtrip:
  "encodeInt64Slice xs oid w = (None, w') \<Longrightarrow> \<exists>body. appended w body w' \<and> decodes_back oid GInt64s (VInt64s xs) body"
  by (metis slice_oids(4) slices_appended(4) int64s_read_back)

lemma encodeUInt16Slice_roundtrip:
  "encodeUInt16Slice xs oid w = (None, w') \<Longrightarrow> \<exists>body. appended w body w' \<and> decodes_back oid GUInt16s (VUInt16s xs) body"
  by (metis slice_oids(5) unsigned_slices_appended(1) uint16s_read_back)

lemma encodeUInt32Slice_roundtrip:
  "encodeUInt32Slice xs oid w = (None, w') \<Longrightarrow> \<exists>body. appended w body w' \<and> decodes_back oid GUInt32s (VUInt32s xs) body"
  by (metis slice_oids(6) unsigned_slices_appended(2) uint32s_read_back)

lemma encodeUInt64Slice_roundtrip:
  "encodeUInt64Slice xs oid w = (None, w') \<Longrightarrow> \<exists>body. appended w body w' \<and> decodes_back oid GUInt64s (VUInt64s xs) body"
  by (metis slice_oids(7) unsigned_slices_appended(3) uint64s_read_back)

lemma encodeByteSliceSlice_roundtrip:
  "encodeByteSliceSlice xs oid w = (None, w') \<Longrightarrow> \<exists>body. appended w body w' \<and> decodes_back oid GByteSlices (VByteSlices xs) body"
  by (metis slice_oids(8) encodeByteSliceSlice_appended byteas_read_back)

lemma encodeStringSlice_roundtrip:
  "encodeStringSlice xs oid w = (None, w') \<Longrightarrow> \<exists>body. appended w body w' \<and> decodes_back oid GStrings (VStrings xs) body"
  by (metis encodeStringSlice_appended texts_read_back)

lemmas slices_roundtrip = encodeBoolSlice_roundtrip encodeInt16Slice_roundtrip encodeInt32Slice_roundtrip encodeInt64Slice_roundtrip
  encodeUInt16Slice_roundtrip encodeUInt32Slice_roundtrip encodeUInt64Slice_roundtrip
  encodeByteSliceSlice_roundtrip encodeStringSlice_roundtrip

lemma bool_reads_back: "decodes_back BoolOid GBool (VBool b) [if b then 1 else 0]"
  unfolding decodes_back_def
proof (intro allI impI, elim conjE)
  fix vr tail rest
  assume at: "vr_at vr [if b then 1 else 0] tail rest" and fd: "fd_DataType (vr_fd vr) = BoolOid" "fd_FormatCode (vr_fd vr) = BinaryFormatCode"
  obtain vr' where "vr_ReadByte vr = (if b then 1 else 0, vr')" "vr_at vr' [] tail rest"
    using vr_ReadByte_at [OF at] by blast
  moreover have "decode_checked BoolOid 1 False rd vr = rd vr" for rd
    by (rule check_value_at [OF at fd]) simp
  ultimately show "\<exists>vr'. Decode GBool vr = Some ((None, Some (VBool b)), vr') \<and> vr_at vr' [] tail rest"
    by (auto simp: decodeBool_def stored_def)
qed

lemma oid_reads_back: "decodes_back OidOid GOid (VOid n) (be32 n)"
  unfolding decodes_back_def
proof (intro allI impI, elim conjE)
  fix vr tail rest
  assume at: "vr_at vr (be32 n) tail rest" and fd: "fd_DataType (vr_fd vr) = OidOid" "fd_FormatCode (vr_fd vr) = BinaryFormatCode"
  obtain vr' where "vr_ReadInt32 vr = (n, vr')" "vr_at vr' [] tail rest"
    using vr_ReadInt32_at [of vr n "[]" tail rest] at by auto
  then show "\<exists>vr'. Decode GOid vr = Some ((None, Some (VOid n)), vr') \<and> vr_at vr' [] tail rest"
    using fd vr_at_Len [OF at] by (simp add: decodeOid_def stored_def BinaryFormatCode_def TextFormatCode_def)
qed

lemma string_reads_back: "decodes_back oid GString (VString s) (bytes_of_string s)"
  unfolding decodes_back_def
proof (intro allI impI, elim conjE)
  fix vr tail rest
  assume at: "vr_at vr (bytes_of_string s) tail rest"
  obtain vr' where "vr_ReadString (word_of_nat (length s)) vr = Some (s, vr')" "vr_at vr' [] tail rest"
    using vr_ReadString_at [of vr "bytes_of_string s" "[]" tail rest] at by auto
  then show "\<exists>vr'. Decode GString vr = Some ((None, Some (VString s)), vr') \<and> vr_at vr' [] tail rest"
    using vr_at_Len [OF at] word_of_nat_not_minus1 [OF vr_at_size [OF at]] by (simp add: decodeText_def stored_def)
qed

section \<open>Properties\<close>



text \<open>A reader on a message that holds one value.\<close>

definition value_reader :: "Oid \<Rightarrow> bytes \<Rightarrow> ValueReader" where
  "value_reader oid body =
     \<lparr>vr_mr = \<lparr>mr_input = body, mr_buf = replicate 128 0, mr_remaining = word_of_nat (length body), mr_err = None\<rparr>,
      vr_fd = \<lparr>fd_Name = [], fd_Table = 0, fd_AttributeNumber = 0, fd_DataType = oid, fd_DataTypeSize = 0,
        fd_DataTypeName = [], fd_Modifier = 0, fd_FormatCode = BinaryFormatCode\<rparr>,
      vr_remaining = word_of_nat (length body), vr_err = None\<rparr>"

lemma value_reader_at: "length body < 2 ^ 31 \<Longrightarrow> vr_at (value_reader oid body) body [] []"
  by (simp add: value_reader_def vr_at_def mr_at_def sint_word_of_nat)

lemma value_reader_fd [simp]:
  "fd_DataType (vr_fd (value_reader oid body)) = oid" "fd_FormatCode (vr_fd (value_reader oid body)) = BinaryFormatCode"
  by (simp_all add: value_reader_def)

lemma decodes_back_reader:
  "decodes_back oid t v body \<Longrightarrow> length body < 2 ^ 31 \<Longrightarrow> \<exists>vr'. Decode t (value_reader oid body) = Some ((None, Some v), vr')"
  using value_reader_at [of body oid] by (fastforce simp: decodes_back_def)


text \<open>
  An \<open>int32\<close> below the range of a \<open>smallint\<close> column is accepted, and the column holds another
  number; the encoder of \<open>int\<close> refuses the same number.
\<close>

theorem int32_below_column_truncated:
  assumes "sint n < - (2 ^ 15)"
  shows "Encode sc (VInt (scast n)) Int2Oid w = (Some LessThanMin, w) \<and>
    (\<exists>w' body m. Encode sc (VInt32 n) Int2Oid w = (None, w') \<and> appended w body w' \<and> m \<noteq> n \<and>
       decodes_back Int2Oid GInt32 (VInt32 m) body)"
proof
  have "sint (scast n :: 64 word) = sint n"
    using int_bounds(5,6) [of n] by (subst scast_sint, intro sint_word_of_int_range) simp_all
  with assms show "Encode sc (VInt (scast n)) Int2Oid w = (Some LessThanMin, w)"
    by (simp add: encode_kind_def encodeInt_def oid_defs)
  define i where "i = sint (ucast n :: 16 word)"
  have i: "- (2 ^ 15) \<le> i" "i < 2 ^ 15"
    using int_bounds(3,4) [of "ucast n :: 16 word"] by (simp_all add: i_def)
  let ?m = "word_of_int i :: 32 word"
  have m: "sint ?m = i" using i by (intro sint_word_of_int_range) simp_all
  have "Encode sc (VInt32 n) Int2Oid w = put_int2 (ucast n) w"
    using assms by (simp add: encode_kind_def encodeInt32_def oid_defs)
  moreover have "appended w (int_body Int2Oid i) (snd (put_int2 (ucast n) w))"
    by (rule put_appended(1)) (simp_all add: put_int2_def i_def)
  moreover have "?m \<noteq> n" using m i assms by auto
  moreover have "decodes_back Int2Oid GInt32 (VInt32 ?m) (int_body Int2Oid i)"
    by (rule decodes_back_int) (use m i in \<open>simp_all add: column_range_def\<close>)
  ultimately show "\<exists>w' body m. Encode sc (VInt32 n) Int2Oid w = (None, w') \<and> appended w body w' \<and> m \<noteq> n \<and>
       decodes_back Int2Oid GInt32 (VInt32 m) body"
    by (intro exI [of _ "snd (put_int2 (ucast n) w)"] exI) (auto simp: put_int2_def)
qed

theorem int32_below_column_truncated_witness:
  "Encode int_strconv (VInt (- 40000)) Int2Oid (newWriteBuf 66) = (Some LessThanMin, newWriteBuf 66)"
  using int32_below_column_truncated [of "- 40000" int_strconv "newWriteBuf 66", THEN conjunct1] by simp

text \<open>A reader on a column of the given type that holds the given bytes.\<close>

definition on_value :: "ValueReader \<Rightarrow> Oid \<Rightarrow> bytes \<Rightarrow> bool" where
  "on_value vr oid body \<longleftrightarrow> (\<exists>tail rest. vr_at vr body tail rest) \<and> fd_DataType (vr_fd vr) = oid \<and>
     fd_FormatCode (vr_fd vr) = BinaryFormatCode"

lemma scan_null_value:
  assumes on: "on_value vr oid body" and "dec vr = decode_checked oid (word_of_nat (length body)) zero rd vr"
    and rd: "\<And>tail rest. vr_at vr body tail rest \<Longrightarrow> \<exists>vr'. rd vr = (x, vr') \<and> vr_at vr' [] tail rest"
  shows "fst (scan_null oid zero dec vr) = Inr ((x, True), None)"
proof -
  obtain tail rest where at: "vr_at vr body tail rest" and fd: "fd_DataType (vr_fd vr) = oid" "fd_FormatCode (vr_fd vr) = BinaryFormatCode"
    using on by (auto simp: on_value_def)
  obtain vr' where "rd vr = (x, vr')" "vr_err vr' = None" using rd [OF at] by (auto simp: vr_at_def)
  moreover have "vr_Len vr \<noteq> - 1" using vr_at_Len [OF at] word_of_nat_not_minus1 [OF vr_at_size [OF at]] by simp
  ultimately show ?thesis
    using assms(2) check_value_at [OF at fd refl, of zero rd] fd by (simp add: scan_null_def)
qed

text \<open>
  The nullable types write NULL as the length -1 and scan it as a zero value that is not valid;
  a valid value is written like the plain value and scanned back from a column that holds it.
\<close>

theorem nullable_roundtrip:
  "(\<forall>w. NullInt16_Encode a valid Int2Oid w = (if valid then Encode sc (VInt16 a) Int2Oid w else (None, WriteInt32 (- 1) w)) \<and>
        NullInt32_Encode b valid Int4Oid w = (if valid then Encode sc (VInt32 b) Int4Oid w else (None, WriteInt32 (- 1) w)) \<and>
        NullInt64_Encode c valid Int8Oid w = (if valid then Encode sc (VInt64 c) Int8Oid w else (None, WriteInt32 (- 1) w)) \<and>
        NullBool_Encode d valid BoolOid w = (if valid then Encode sc (VBool d) BoolOid w else (None, WriteInt32 (- 1) w)) \<and>
        NullString_Encode s valid oid w = (if valid then Encode sc (VString s) oid w else (None, WriteInt32 (- 1) w))) \<and>
   (vr_Len vr = - 1 \<longrightarrow>
      (fd_DataType (vr_fd vr) = Int2Oid \<longrightarrow> NullInt16_Scan vr = (Inr ((0, False), None), vr)) \<and>
      (fd_DataType (vr_fd vr) = Int4Oid \<longrightarrow> NullInt32_Scan vr = (Inr ((0, False), None), vr)) \<and>
      (fd_DataType (vr_fd vr) = Int8Oid \<longrightarrow> NullInt64_Scan vr = (Inr ((0, False), None), vr)) \<and>
      (fd_DataType (vr_fd vr) = BoolOid \<longrightarrow> NullBool_Scan vr = (Inr ((False, False), None), vr)) \<and>
      NullString_Scan vr = Some ((([], False), None), vr)) \<and>
   (on_value vr Int2Oid (be16 a) \<longrightarrow> fst (NullInt16_Scan vr) = Inr ((a, True), None)) \<and>
   (on_value vr Int4Oid (be32 b) \<longrightarrow> fst (NullInt32_Scan vr) = Inr ((b, True), None)) \<and>
   (on_value vr Int8Oid (be64 c) \<longrightarrow> fst (NullInt64_Scan vr) = Inr ((c, True), None)) \<and>
   (on_value vr BoolOid [if d then 1 else 0] \<longrightarrow> fst (NullBool_Scan vr) = Inr ((d, True), None)) \<and>
   (on_value vr oid (bytes_of_string s) \<longrightarrow> (\<exists>vr'. NullString_Scan vr = Some (((s, True), None), vr')))"
  (is "?enc \<and> ?null \<and> ?int2 \<and> ?int4 \<and> ?int8 \<and> ?bool \<and> ?string")
proof (intro conjI)
  show ?enc
    by (simp add: NullInt16_Encode_def NullInt32_Encode_def NullInt64_Encode_def NullBool_Encode_def NullString_Encode_def
        encode_null_def encode_kind_def oid_defs)
  show ?null
    by (simp add: NullInt16_Scan_def NullInt32_Scan_def NullInt64_Scan_def NullBool_Scan_def NullString_Scan_def scan_null_def)
  show ?int2
    unfolding NullInt16_Scan_def using vr_ReadInt16_at [of vr a "[]"]
    by (auto intro!: scan_null_value [where rd = vr_ReadInt16] simp: decodeInt2_def)
  show ?int4
    unfolding NullInt32_Scan_def using vr_ReadInt32_at [of vr b "[]"]
    by (auto intro!: scan_null_value [where rd = vr_ReadInt32] simp: decodeInt4_def)
  show ?int8
    unfolding NullInt64_Scan_def using vr_ReadInt64_at [of vr c "[]"]
    by (auto intro!: scan_null_value [where rd = vr_ReadInt64] simp: decodeInt8_def)
  show ?bool
    unfolding NullBool_Scan_def using vr_ReadByte_at [of vr "if d then 1 else 0" "[]"]
    by (auto intro!: scan_null_value [where rd = "\<lambda>vr. case vr_ReadByte vr of (b, vr) \<Rightarrow> (b \<noteq> 0, vr)"] simp: decodeBool_def
        split: if_splits) force+
  show ?string
  proof
    assume "on_value vr oid (bytes_of_string s)"
    then obtain tail rest where at: "vr_at vr (bytes_of_string s) tail rest" by (auto simp: on_value_def)
    obtain vr' where "vr_ReadString (word_of_nat (length s)) vr = Some (s, vr')" "vr_err vr' = None"
      using vr_ReadString_at [of vr "bytes_of_string s" "[]" tail rest] at by (auto simp: vr_at_def)
    then show "\<exists>vr'. NullString_Scan vr = Some (((s, True), None), vr')"
      using vr_at_Len [OF at] word_of_nat_not_minus1 [OF vr_at_size [OF at]] by (simp add: NullString_Scan_def decodeText_def)
  qed
qed

theorem nullable_roundtrip_witness:
  "fst (NullInt32_Scan (value_reader Int4Oid (be32 7))) = Inr ((7, True), None)"
  using nullable_roundtrip [of 0 True int_strconv 7 0 False "[]" 0 "value_reader Int4Oid (be32 7)"]
    value_reader_at [of "be32 7" Int4Oid]
  by (auto simp: on_value_def)

end
