(* ===== verification/Pgx_Hstore.thy ===== *)
theory Pgx_Hstore
  imports Pgx_Values Go_Json
begin

text \<open>
  Columns of type hstore (\<open>pgx/hstore.go\<close> and the types \<open>Hstore\<close> and \<open>NullHstore\<close> of \<open>values.go\<close>): the parser
  of their text form, a state machine over the characters of the text, and the encoder. A character is the string of
  its UTF-8 bytes, so that appending it to a buffer is \<open>WriteRune\<close>; a byte that is none reads as U+FFFD. A Go
  map is a list of its entries in the order the loop over it takes them; the key of an entry with value \<open>None\<close> has NULL.
\<close>

section \<open>The parser\<close>

datatype hs_state = HsPre | HsKey | HsSep | HsVal | HsNul | HsNext

datatype hs_error =
    NotQuoted | EmptyKey | EosInKey | EosAfterEq | EosAfterArrow | BadAfterArrow | BadAfterEq | BadAfterKey
  | EosInNull | BadNull | EosAfterComma | BadAfterComma | BadAfterValue | Improper | NullValue string

definition Consume :: "string \<Rightarrow> (string \<times> string) option" where
  "Consume s =
     (if s = [] then None
      else if utf8_size s = 0 then Some (encode_rune 0xFFFD, tl s)
      else Some (take (utf8_size s) s, drop (utf8_size s) s))"

definition Peek :: "string \<Rightarrow> string option" where
  "Peek s = map_option fst (Consume s)"

text \<open>Inside quotes, after the character \<open>r\<close>: the rest of the buffer and of the text, or \<open>None\<close> at the closing quote.\<close>

definition hs_quoted :: "string \<Rightarrow> string \<Rightarrow> string \<Rightarrow> (hs_error, (string \<times> string) option) result" where
  "hs_quoted r buf s =
     (if r = [CHR 0x22] then Inr None
      else if r = [CHR 0x5C] then
        (case Consume s of
           None \<Rightarrow> Inl EosInKey
         | Some (n, s) \<Rightarrow> Inr (Some (if n = [CHR 0x22] \<or> n = [CHR 0x5C] then buf @ n else buf @ r @ n, s)))
      else Inr (Some (buf @ r, s)))"

record hs_parser =
  hs_buf :: string
  hs_keys :: "string list"
  hs_values :: "string option list"
  hs_state :: hs_state

text \<open>One turn of the loop, with the character \<open>r\<close> and the text after it.\<close>

definition hs_turn :: "string \<Rightarrow> string \<Rightarrow> hs_parser \<Rightarrow> (hs_error, hs_parser \<times> string) result" where
  "hs_turn r s p =
     (case hs_state p of
        HsPre \<Rightarrow> if r = [CHR 0x22] then Inr (p\<lparr>hs_state := HsKey\<rparr>, s) else Inl NotQuoted
      | HsKey \<Rightarrow>
          (case hs_quoted r (hs_buf p) s of
             Inl e \<Rightarrow> Inl e
           | Inr None \<Rightarrow>
               if hs_buf p = [] then Inl EmptyKey
               else Inr (p\<lparr>hs_keys := hs_keys p @ [hs_buf p], hs_buf := [], hs_state := HsSep\<rparr>, s)
           | Inr (Some (buf, s)) \<Rightarrow> Inr (p\<lparr>hs_buf := buf\<rparr>, s))
      | HsSep \<Rightarrow>
          if r = ''='' then
            (case Consume s of
               None \<Rightarrow> Inl EosAfterEq
             | Some (r, s) \<Rightarrow>
                 if r = ''>'' then
                   (case Consume s of
                      None \<Rightarrow> Inl EosAfterArrow
                    | Some (r, s) \<Rightarrow>
                        if r = [CHR 0x22] then Inr (p\<lparr>hs_state := HsVal\<rparr>, s)
                        else if r = ''N'' then Inr (p\<lparr>hs_state := HsNul\<rparr>, s)
                        else Inl BadAfterArrow)
                 else Inl BadAfterEq)
          else Inl BadAfterKey
      | HsVal \<Rightarrow>
          (case hs_quoted r (hs_buf p) s of
             Inl e \<Rightarrow> Inl e
           | Inr None \<Rightarrow> Inr (p\<lparr>hs_values := hs_values p @ [Some (hs_buf p)], hs_buf := [], hs_state := HsNext\<rparr>, s)
           | Inr (Some (buf, s)) \<Rightarrow> Inr (p\<lparr>hs_buf := buf\<rparr>, s))
      | HsNul \<Rightarrow>
          (case Consume s of
             None \<Rightarrow> Inl EosInNull
           | Some (r1, s) \<Rightarrow>
               (case Consume s of
                  None \<Rightarrow> Inl EosInNull
                | Some (r2, s) \<Rightarrow>
                    if r = ''U'' \<and> r1 = ''L'' \<and> r2 = ''L''
                    then Inr (p\<lparr>hs_values := hs_values p @ [None], hs_state := HsNext\<rparr>, s) else Inl BadNull))
      | HsNext \<Rightarrow>
          if r = '','' then
            (case Consume s of
               None \<Rightarrow> Inl EosAfterComma
             | Some (r, s) \<Rightarrow>
                 if space_left r \<noteq> 0 then
                   Inr (p\<lparr>hs_state := HsKey\<rparr>, case Consume s of None \<Rightarrow> s | Some (_, s) \<Rightarrow> s)
                 else Inl BadAfterComma)
          else Inl BadAfterValue)"

lemma Consume_shrinks: "Consume s = Some (r, s') \<Longrightarrow> length s' < length s"
  by (cases s) (auto simp: Consume_def split: if_splits)

lemma hs_quoted_shrinks: "hs_quoted r buf s = Inr (Some (buf', s')) \<Longrightarrow> length s' \<le> length s"
  by (auto simp: hs_quoted_def split: if_splits option.splits dest: Consume_shrinks)

lemma hs_turn_shrinks: "hs_turn r s p = Inr (p', s') \<Longrightarrow> length s' \<le> length s"
  by (cases "hs_state p")
    (auto simp: hs_turn_def split: if_splits option.splits sum.splits dest!: Consume_shrinks hs_quoted_shrinks)

function hs_loop :: "string \<Rightarrow> hs_parser \<Rightarrow> (hs_error, string list \<times> string option list) result" where
  "hs_loop s p =
     (case Consume s of
        None \<Rightarrow> if hs_state p \<noteq> HsNext then Inl Improper else Inr (hs_keys p, hs_values p)
      | Some (r, s) \<Rightarrow> (case hs_turn r s p of Inl e \<Rightarrow> Inl e | Inr (p, s) \<Rightarrow> hs_loop s p))"
  by pat_completeness auto
termination
  by (relation "measure (\<lambda>(s, p). length s)") (auto dest!: Consume_shrinks hs_turn_shrinks)

declare hs_loop.simps [simp del]

definition ParseHstore :: "string \<Rightarrow> (hs_error, string list \<times> string option list) result" where
  "ParseHstore s =
     (if s = [] then Inr ([], []) else hs_loop s \<lparr>hs_buf = [], hs_keys = [], hs_values = [], hs_state = HsPre\<rparr>)"

text \<open>The map of the entries; a later entry replaces an earlier one with the same key.\<close>

definition parseHstoreToNullHstore :: "string \<Rightarrow> (hs_error, string \<rightharpoonup> string option) result" where
  "parseHstoreToNullHstore s =
     (case ParseHstore s of
        Inl e \<Rightarrow> Inl e
      | Inr (keys, values) \<Rightarrow> Inr (fold (\<lambda>(k, v) m. m(k \<mapsto> v)) (zip keys values) Map.empty))"

fun hstore_map :: "(string \<times> string option) list \<Rightarrow> (string \<rightharpoonup> string) \<Rightarrow> (hs_error, string \<rightharpoonup> string) result" where
  "hstore_map [] m = Inr m"
| "hstore_map ((k, None) # kvs) m = Inl (NullValue k)"
| "hstore_map ((k, Some v) # kvs) m = hstore_map kvs (m(k \<mapsto> v))"

definition parseHstoreToMap :: "string \<Rightarrow> (hs_error, string \<rightharpoonup> string) result" where
  "parseHstoreToMap s =
     (case ParseHstore s of Inl e \<Rightarrow> Inl e | Inr (keys, values) \<Rightarrow> hstore_map (zip keys values) Map.empty)"

section \<open>The encoder\<close>

text \<open>\<open>strings.Replace(s, c, t, -1)\<close> for a \<open>c\<close> of one byte.\<close>

definition replace_all :: "char \<Rightarrow> string \<Rightarrow> string \<Rightarrow> string" where
  "replace_all c t s = concat (map (\<lambda>x. if x = c then t else [x]) s)"

definition hs_escape :: "string \<Rightarrow> string" where
  "hs_escape s = replace_all CHR 0x22 [CHR 0x5C, CHR 0x22] (replace_all CHR 0x5C [CHR 0x5C, CHR 0x5C] s)"

definition hs_entry :: "string \<times> string option \<Rightarrow> string" where
  "hs_entry = (\<lambda>(k, v).
     case v of
       Some v \<Rightarrow> [CHR 0x22] @ hs_escape k @ [CHR 0x22] @ ''=>'' @ [CHR 0x22] @ hs_escape v @ [CHR 0x22]
     | None \<Rightarrow> [CHR 0x22] @ hs_escape k @ [CHR 0x22] @ ''=>NULL'')"

fun hs_text :: "(string \<times> string option) list \<Rightarrow> string" where
  "hs_text [] = []"
| "hs_text [e] = hs_entry e"
| "hs_text (e # f # es) = hs_entry e @ '', '' @ hs_text (f # es)"

definition NullHstore_Encode :: "(string \<times> string option) list \<Rightarrow> bool \<Rightarrow> encoder" where
  "NullHstore_Encode h valid oid w =
     (if \<not> valid then (None, WriteInt32 (- 1) w)
      else (None, WriteBytes (bytes_of_string (hs_text h)) (WriteInt32 (word_of_nat (length (hs_text h))) w)))"

definition Hstore_Encode :: "(string \<times> string) list \<Rightarrow> encoder" where
  "Hstore_Encode h oid w =
     (let buf = hs_text (map (\<lambda>(k, v). (k, Some v)) h)
      in (None, WriteBytes (bytes_of_string buf) (WriteInt32 (word_of_nat (length buf)) w)))"

section \<open>Scanning\<close>

definition hs_fatal :: "ValueReader \<Rightarrow> ValueReader" where
  "hs_fatal vr = vr_Fatal (ProtocolErr ''hstore'') vr"

definition Hstore_Scan :: "ValueReader \<Rightarrow> (string \<rightharpoonup> string) \<Rightarrow> ((string \<rightharpoonup> string) \<times> ValueReader) option" where
  "Hstore_Scan vr h =
     (if fd_DataTypeName (vr_fd vr) \<noteq> ''hstore'' then Some (h, hs_fatal vr)
      else if vr_Len vr = - 1 then Some (h, hs_fatal vr)
      else if fd_FormatCode (vr_fd vr) = TextFormatCode then
        map_option (\<lambda>(s, vr). case parseHstoreToMap s of Inl e \<Rightarrow> (h, hs_fatal vr) | Inr m \<Rightarrow> (m, vr)) (vr_ReadString (vr_Len vr) vr)
      else Some (h, hs_fatal vr))"

definition NullHstore_Scan ::
  "ValueReader \<Rightarrow> (string \<rightharpoonup> string option) \<times> bool \<Rightarrow> (((string \<rightharpoonup> string option) \<times> bool) \<times> ValueReader) option" where
  "NullHstore_Scan vr h =
     (if fd_DataTypeName (vr_fd vr) \<noteq> ''hstore'' then Some (h, hs_fatal vr)
      else if vr_Len vr = - 1 then Some ((fst h, False), vr)
      else if fd_FormatCode (vr_fd vr) = TextFormatCode then
        map_option (\<lambda>(s, vr). case parseHstoreToNullHstore s of Inl e \<Rightarrow> (h, hs_fatal vr) | Inr m \<Rightarrow> ((m, True), vr)) (vr_ReadString (vr_Len vr) vr)
      else Some (h, hs_fatal vr))"

section \<open>Reading the encoder's text\<close>

lemma hs_escape_simps [simp]:
  "hs_escape [] = []"
  "hs_escape (c # s) = (if c = CHR 0x22 then [CHR 0x5C, CHR 0x22] else if c = CHR 0x5C then [CHR 0x5C, CHR 0x5C] else [c]) @ hs_escape s"
  by (simp_all add: hs_escape_def replace_all_def)

lemma hs_escape_append [simp]: "hs_escape (s @ t) = hs_escape s @ hs_escape t"
  by (induction s) auto

lemma hs_escape_id: "CHR 0x22 \<notin> set s \<Longrightarrow> CHR 0x5C \<notin> set s \<Longrightarrow> hs_escape s = s"
  by (induction s) auto

lemma Consume_ascii [simp]: "code c < 0x80 \<Longrightarrow> Consume (c # s) = Some ([c], s)"
  by (simp add: Consume_def utf8_size_ascii)

lemma Consume_Nil [simp]: "Consume [] = None"
  by (simp add: Consume_def)

lemma Consume_char:
  assumes "utf8_size s > 0"
  shows "Consume (take (utf8_size s) s @ t) = Some (take (utf8_size s) s, t)"
proof -
  have "length (take (utf8_size s) s) = utf8_size s" using utf8_size_le by simp
  then show ?thesis using utf8_size_prefix [OF assms, of t] assms by (auto simp: Consume_def)
qed

text \<open>A character that needs no escape, at the start of a text.\<close>

lemma plain_char:
  assumes "utf8_size (c # cs) > 0" and "c \<noteq> CHR 0x22" "c \<noteq> CHR 0x5C"
  shows "CHR 0x22 \<notin> set (take (utf8_size (c # cs)) (c # cs)) \<and> CHR 0x5C \<notin> set (take (utf8_size (c # cs)) (c # cs))"
proof (cases "0x80 \<le> code c")
  case True
  from utf8_size_high [OF assms(1) True] show ?thesis by (auto simp: list_all_iff)
next
  case False
  then show ?thesis using assms(2,3) by (simp add: utf8_size_ascii)
qed

lemma hs_loop_char:
  assumes "hs_state p = HsKey \<or> hs_state p = HsVal" and "Consume s = Some (r, s1)" and "hs_quoted r (hs_buf p) s1 = Inr (Some (buf, s'))"
  shows "hs_loop s p = hs_loop s' (p\<lparr>hs_buf := buf\<rparr>)"
  using assms by (subst hs_loop.simps) (auto simp: hs_turn_def)

lemma hs_loop_quoted:
  "valid_utf8 k \<Longrightarrow> hs_state p = HsKey \<or> hs_state p = HsVal \<Longrightarrow> hs_loop (hs_escape k @ rest) p = hs_loop rest (p\<lparr>hs_buf := hs_buf p @ k\<rparr>)"
proof (induction k arbitrary: p rule: measure_induct_rule [where f = length])
  case (less k)
  show ?case
  proof (cases k)
    case Nil
    then show ?thesis by simp
  next
    case (Cons c cs)
    let ?n = "utf8_size k"
    have n: "?n > 0" "valid_utf8 (drop ?n k)" using less.prems(1) valid_utf8_step [of k] Cons by simp_all
    have short: "length (drop ?n k) < length k" using n Cons by simp
    have next_chars: "hs_loop (hs_escape (drop ?n k) @ rest) (p\<lparr>hs_buf := hs_buf p @ take ?n k\<rparr>) = hs_loop rest (p\<lparr>hs_buf := hs_buf p @ k\<rparr>)"
      using less.IH [OF short n(2), of "p\<lparr>hs_buf := hs_buf p @ take ?n k\<rparr>"] less.prems(2) by simp
    show ?thesis
    proof (cases "c = CHR 0x22 \<or> c = CHR 0x5C")
      case True
      then have k: "?n = 1" using Cons utf8_size_ascii [of c cs] by auto
      have "hs_loop (hs_escape k @ rest) p = hs_loop (hs_escape cs @ rest) (p\<lparr>hs_buf := hs_buf p @ [c]\<rparr>)"
        by (rule hs_loop_char [OF less.prems(2), where r = "[CHR 0x5C]" and ?s1.0 = "c # hs_escape cs @ rest"])
          (use True Cons in \<open>auto simp: hs_quoted_def\<close>)
      with next_chars Cons k show ?thesis by simp
    next
      case False
      have p: "CHR 0x22 \<notin> set (take ?n k)" "CHR 0x5C \<notin> set (take ?n k)" using plain_char [of c cs] n(1) False Cons by auto
      have "hs_escape k = take ?n k @ hs_escape (drop ?n k)"
        using hs_escape_append [of "take ?n k" "drop ?n k"] hs_escape_id [OF p] by simp
      moreover have "hs_loop (take ?n k @ hs_escape (drop ?n k) @ rest) p = hs_loop (hs_escape (drop ?n k) @ rest) (p\<lparr>hs_buf := hs_buf p @ take ?n k\<rparr>)"
        by (rule hs_loop_char [OF less.prems(2) Consume_char [OF n(1)]]) (use p in \<open>auto simp: hs_quoted_def\<close>)
      ultimately show ?thesis using next_chars by simp
    qed
  qed
qed

text \<open>The text around the keys and values.\<close>

lemma hs_loop_marks:
  "hs_state p = HsKey \<Longrightarrow> hs_buf p \<noteq> [] \<Longrightarrow>
     hs_loop (CHR 0x22 # s) p = hs_loop s (p\<lparr>hs_keys := hs_keys p @ [hs_buf p], hs_buf := [], hs_state := HsSep\<rparr>)"
  "hs_state p = HsSep \<Longrightarrow> hs_loop (''=>'' @ CHR 0x22 # s) p = hs_loop s (p\<lparr>hs_state := HsVal\<rparr>)"
  "hs_state p = HsSep \<Longrightarrow> hs_loop (''=>NULL'' @ s) p = hs_loop s (p\<lparr>hs_values := hs_values p @ [None], hs_state := HsNext\<rparr>)"
  "hs_state p = HsVal \<Longrightarrow>
     hs_loop (CHR 0x22 # s) p = hs_loop s (p\<lparr>hs_values := hs_values p @ [Some (hs_buf p)], hs_buf := [], hs_state := HsNext\<rparr>)"
  "hs_state p = HsNext \<Longrightarrow> hs_loop ('', '' @ CHR 0x22 # s) p = hs_loop s (p\<lparr>hs_state := HsKey\<rparr>)"
  "hs_state p = HsNext \<Longrightarrow> hs_loop [] p = Inr (hs_keys p, hs_values p)"
proof -
  show "hs_state p = HsSep \<Longrightarrow> hs_loop (''=>NULL'' @ s) p = hs_loop s (p\<lparr>hs_values := hs_values p @ [None], hs_state := HsNext\<rparr>)"
    by (subst hs_loop.simps, simp add: hs_turn_def, subst hs_loop.simps, simp add: hs_turn_def)
qed (subst hs_loop.simps, simp add: hs_turn_def hs_quoted_def space_left_def space_at_def)+

definition storable :: "string \<times> string option \<Rightarrow> bool" where
  "storable = (\<lambda>(k, v). k \<noteq> [] \<and> valid_utf8 k \<and> (case v of Some v \<Rightarrow> valid_utf8 v | None \<Rightarrow> True))"

lemma hs_loop_entry:
  assumes "storable (k, v)" and "hs_state p = HsKey" "hs_buf p = []"
  shows "hs_loop (tl (hs_entry (k, v)) @ rest) p = hs_loop rest (p\<lparr>hs_keys := hs_keys p @ [k], hs_values := hs_values p @ [v], hs_state := HsNext\<rparr>)"
proof (cases v)
  case None
  then show ?thesis
    using assms by (cases p) (simp add: storable_def hs_entry_def hs_loop_quoted hs_loop_marks(1,3) [simplified])
next
  case (Some w)
  then show ?thesis
    using assms by (cases p) (simp add: storable_def hs_entry_def hs_loop_quoted hs_loop_marks(1,2,4) [simplified])
qed

lemma hs_text_starts: "es \<noteq> [] \<Longrightarrow> hs_text es = CHR 0x22 # tl (hs_text es)"
  by (cases es rule: hs_text.cases) (auto simp: hs_entry_def split: prod.split option.split)

lemma hs_loop_text:
  "es \<noteq> [] \<Longrightarrow> list_all storable es \<Longrightarrow> hs_state p = HsKey \<Longrightarrow> hs_buf p = [] \<Longrightarrow>
     hs_loop (tl (hs_text es)) p = Inr (hs_keys p @ map fst es, hs_values p @ map snd es)"
proof (induction es arbitrary: p rule: hs_text.induct)
  case (2 e)
  then show ?case using hs_loop_entry [of "fst e" "snd e" p "[]"] by (simp add: hs_loop_marks(6))
next
  case (3 e f es)
  let ?p = "p\<lparr>hs_keys := hs_keys p @ [fst e], hs_values := hs_values p @ [snd e], hs_state := HsNext\<rparr>"
  have "hs_entry e \<noteq> []" by (auto simp: hs_entry_def split: prod.split option.split)
  then have "tl (hs_text (e # f # es)) = tl (hs_entry e) @ '', '' @ CHR 0x22 # tl (hs_text (f # es))"
    using hs_text_starts [of "f # es"] by (cases "hs_entry e") auto
  moreover have "storable (fst e, snd e)" using 3(3) by simp
  ultimately have "hs_loop (tl (hs_text (e # f # es))) p = hs_loop ('', '' @ CHR 0x22 # tl (hs_text (f # es))) ?p"
    using hs_loop_entry [of "fst e" "snd e" p "'', '' @ CHR 0x22 # tl (hs_text (f # es))"] 3(4,5) by simp
  also have "\<dots> = hs_loop (tl (hs_text (f # es))) (?p\<lparr>hs_state := HsKey\<rparr>)" by (rule hs_loop_marks(5)) simp
  also have "\<dots> = Inr (hs_keys p @ map fst (e # f # es), hs_values p @ map snd (e # f # es))"
    using 3(1) [of "?p\<lparr>hs_state := HsKey\<rparr>"] 3(3,5) by simp
  finally show ?case .
qed simp

lemma ParseHstore_text:
  assumes "list_all storable es"
  shows "ParseHstore (hs_text es) = Inr (map fst es, map snd es)"
proof (cases "es = []")
  case False
  let ?p = "\<lparr>hs_buf = [], hs_keys = [], hs_values = [], hs_state = HsPre\<rparr>"
  have "ParseHstore (hs_text es) = hs_loop (CHR 0x22 # tl (hs_text es)) ?p" using hs_text_starts [OF False] by (metis ParseHstore_def list.simps(3))
  also have "\<dots> = hs_loop (tl (hs_text es)) (?p\<lparr>hs_state := HsKey\<rparr>)" by (subst hs_loop.simps) (simp add: hs_turn_def)
  also have "\<dots> = Inr (map fst es, map snd es)" using hs_loop_text [OF False assms] by simp
  finally show ?thesis .
qed (simp add: ParseHstore_def)

lemma fold_entries: "fold (\<lambda>(k, v) m. m(k \<mapsto> v)) es m = m ++ map_of (rev es)"
  by (induction es arbitrary: m) auto

lemma map_of_rev_distinct: "distinct (map fst es) \<Longrightarrow> map_of (rev es) = map_of es"
proof (induction es)
  case (Cons e es)
  then have "map_of es (fst e) = None" by (auto simp: map_of_eq_None_iff image_image)
  with Cons show ?case by (cases e) (auto simp: map_add_def split: option.split)
qed simp

lemma hstore_map_some: "hstore_map (map (\<lambda>(k, v). (k, Some v)) es) m = Inr (m ++ map_of (rev es))"
  by (induction es arbitrary: m) auto

section \<open>Properties\<close>

text \<open>
  The text the encoder writes for a map reads back as the same map, whatever quotes and backslashes keys and values
  contain and in whatever order the entries are written, as long as they are valid UTF-8 and no key is empty; NULL values stay NULL.
\<close>

theorem hstore_roundtrip:
  assumes "list_all storable es" and "distinct (map fst es)"
  shows "parseHstoreToNullHstore (hs_text es) = Inr (map_of es) \<and>
    (\<forall>fs. es = map (\<lambda>(k, v). (k, Some v)) fs \<longrightarrow> parseHstoreToMap (hs_text es) = Inr (map_of fs)) \<and>
    NullHstore_Encode es True oid w = encodeString (hs_text es) oid w"
proof (intro conjI allI impI)
  have p: "ParseHstore (hs_text es) = Inr (map fst es, map snd es)" by (rule ParseHstore_text [OF assms(1)])
  have z: "zip (map fst es) (map snd es) = es" by (rule zip_map_fst_snd)
  show "parseHstoreToNullHstore (hs_text es) = Inr (map_of es)"
    using p z by (simp add: parseHstoreToNullHstore_def fold_entries map_of_rev_distinct [OF assms(2)])
  show "NullHstore_Encode es True oid w = encodeString (hs_text es) oid w"
    by (simp add: NullHstore_Encode_def encodeString_def)
  fix fs assume es: "es = map (\<lambda>(k, v). (k, Some v)) fs"
  have "distinct (map fst fs)" using assms(2) es by (simp add: o_def case_prod_unfold)
  then show "parseHstoreToMap (hs_text es) = Inr (map_of fs)"
    using p z hstore_map_some [of fs Map.empty] map_of_rev_distinct [of fs] by (simp add: parseHstoreToMap_def es)
qed

theorem hstore_roundtrip_witness:
  "parseHstoreToNullHstore (hs_text [(''a'' @ [CHR 0x22, CHR 0x5C], Some [CHR 0x5C]), (''b'', None)]) =
     Inr (map_of [(''a'' @ [CHR 0x22, CHR 0x5C], Some [CHR 0x5C]), (''b'', None)])"
proof -
  have "list_all storable [(''a'' @ [CHR 0x22, CHR 0x5C], Some [CHR 0x5C]), (''b'', None)]" by code_simp
  from hstore_roundtrip [OF this] show ?thesis by simp
qed

end
