(* ===== verification/Pgx_Floats.thy ===== *)
theory Pgx_Floats
  imports Pgx_Values
begin

text \<open>
  Floating point numbers as parameters and columns (\<open>encodeFloat32\<close>, \<open>encodeFloat64\<close>, \<open>decodeFloat4\<close>, \<open>decodeFloat8\<close>, their slices and nullable
  types in \<open>pgx/values.go\<close>). A number is the word of its bits (IEEE 754), which \<open>math.Float32bits\<close> and its inverse leave as they are. The
  one conversion in this code, from single to double precision, is written out and keeps every number.
\<close>

section \<open>Numbers\<close>

type_synonym float32 = "32 word"
type_synonym float64 = "64 word"

definition sign32 :: "float32 \<Rightarrow> nat" where "sign32 b = unat b div 2 ^ 31"
definition expo32 :: "float32 \<Rightarrow> nat" where "expo32 b = unat b div 2 ^ 23 mod 2 ^ 8"
definition frac32 :: "float32 \<Rightarrow> nat" where "frac32 b = unat b mod 2 ^ 23"

definition sign64 :: "float64 \<Rightarrow> nat" where "sign64 b = unat b div 2 ^ 63"
definition expo64 :: "float64 \<Rightarrow> nat" where "expo64 b = unat b div 2 ^ 52 mod 2 ^ 11"
definition frac64 :: "float64 \<Rightarrow> nat" where "frac64 b = unat b mod 2 ^ 52"

text \<open>The number of a finite float, in units of the smallest one of its format: \<open>2 ^ -149\<close> and \<open>2 ^ -1074\<close>.\<close>

definition units32 :: "float32 \<Rightarrow> int" where
  "units32 b = (- 1) ^ sign32 b * (if expo32 b = 0 then int (frac32 b) else int (frac32 b + 2 ^ 23) * 2 ^ (expo32 b - 1))"

definition units64 :: "float64 \<Rightarrow> int" where
  "units64 b = (- 1) ^ sign64 b * (if expo64 b = 0 then int (frac64 b) else int (frac64 b + 2 ^ 52) * 2 ^ (expo64 b - 1))"

text \<open>\<open>float64(value)\<close>: a subnormal number becomes a normal one; the conversion makes a NaN quiet and keeps the rest of its bits.\<close>

fun top_bit :: "nat \<Rightarrow> nat" where
  "top_bit n = (if n < 2 then 0 else Suc (top_bit (n div 2)))"

declare top_bit.simps [simp del]

definition pack64 :: "nat \<Rightarrow> nat \<Rightarrow> nat \<Rightarrow> float64" where
  "pack64 s e m = word_of_nat (s * 2 ^ 63 + e * 2 ^ 52 + m)"

definition widen :: "float32 \<Rightarrow> float64" where
  "widen b =
     (let s = sign32 b; e = expo32 b; m = frac32 b in
      if e = 255 then pack64 s 2047 (if m = 0 then 0 else if m < 2 ^ 22 then m * 2 ^ 29 + 2 ^ 51 else m * 2 ^ 29)
      else if e = 0 then
        if m = 0 then pack64 s 0 0
        else (let k = top_bit m in pack64 s (k + 874) ((m - 2 ^ k) * 2 ^ (52 - k)))
      else pack64 s (e + 896) (m * 2 ^ 29))"

lemma top_bit_bounds: "0 < n \<Longrightarrow> 2 ^ top_bit n \<le> n \<and> n < 2 ^ Suc (top_bit n)"
proof (induction n rule: top_bit.induct)
  case (1 n)
  show ?case
  proof (cases "n < 2")
    case True
    with 1 show ?thesis by (simp add: top_bit.simps [of n])
  next
    case False
    with 1 have "2 ^ top_bit (n div 2) \<le> n div 2 \<and> n div 2 < 2 ^ Suc (top_bit (n div 2))" by simp
    then have "2 * 2 ^ top_bit (n div 2) \<le> n \<and> n < 2 * 2 ^ Suc (top_bit (n div 2))" by linarith
    with False show ?thesis by (simp add: top_bit.simps [of n])
  qed
qed

lemma fields32: "sign32 b < 2" "expo32 b < 256" "frac32 b < 2 ^ 23"
  using unsigned_less [of b, where 'a = nat] by (simp_all add: sign32_def expo32_def frac32_def less_mult_imp_div_less)

lemma pack64_fields:
  assumes "s < 2" "e < 2 ^ 11" "m < 2 ^ 52"
  shows "sign64 (pack64 s e m) = s" "expo64 (pack64 s e m) = e" "frac64 (pack64 s e m) = m"
proof -
  have "s * 2 ^ 63 + e * 2 ^ 52 + m < 2 ^ 64" using assms by simp
  then have u: "unat (pack64 s e m) = s * 2 ^ 63 + e * 2 ^ 52 + m" unfolding pack64_def by (subst unat_of_nat) (simp add: take_bit_nat_eq_self)
  have split: "s * 2 ^ 63 + e * 2 ^ 52 + m = (s * 2 ^ 11 + e) * 2 ^ 52 + m" by simp
  have q: "(s * 2 ^ 63 + e * 2 ^ 52 + m) div 2 ^ 52 = s * 2 ^ 11 + e" unfolding split using assms(3) by (subst div_mult_self3) simp_all
  show "expo64 (pack64 s e m) = e" using assms(2) by (simp only: expo64_def u q) simp
  show "frac64 (pack64 s e m) = m" unfolding frac64_def u split using assms(3) by (subst mod_mult_self3) simp
  have "(s * 2 ^ 63 + e * 2 ^ 52 + m) div 2 ^ 63 = (s * 2 ^ 63 + e * 2 ^ 52 + m) div 2 ^ 52 div 2 ^ 11" by (simp add: div_mult2_eq [symmetric])
  also have "\<dots> = s" unfolding q using assms(2) by (subst div_mult_self3) simp_all
  finally show "sign64 (pack64 s e m) = s" by (simp only: sign64_def u)
qed

text \<open>The conversion keeps finite numbers, infinities and their signs, and what is not a number.\<close>

lemma widen_finite:
  assumes "expo32 b \<noteq> 255"
  shows "expo64 (widen b) < 2047 \<and> units64 (widen b) = units32 b * 2 ^ 925"
proof -
  consider (zero) "expo32 b = 0" "frac32 b = 0" | (sub) "expo32 b = 0" "0 < frac32 b" | (norm) "0 < expo32 b" "expo32 b < 255"
    using assms fields32(2) [of b] by fastforce
  then show ?thesis
  proof cases
    case zero
    then show ?thesis using fields32(1) [of b] by (simp add: widen_def units32_def units64_def pack64_fields)
  next
    case sub
    let ?m = "frac32 b" and ?k = "top_bit (frac32 b)"
    have k: "2 ^ ?k \<le> ?m" "?m < 2 ^ Suc ?k" using top_bit_bounds [OF sub(2)] by simp_all
    then have "(2 :: nat) ^ ?k < 2 ^ 23" using fields32(3) [of b] by linarith
    then have k23: "?k < 23" by (rule power_less_imp_less_exp [rotated]) simp
    have "(?m - 2 ^ ?k) * 2 ^ (52 - ?k) < 2 ^ ?k * 2 ^ (52 - ?k)" using k by simp
    also have "\<dots> = (2 ^ 52 :: nat)" using k23 by (simp flip: power_add)
    finally have f: "(?m - 2 ^ ?k) * 2 ^ (52 - ?k) < 2 ^ 52" .
    have "(?m - 2 ^ ?k) * 2 ^ (52 - ?k) + 2 ^ 52 = (?m - 2 ^ ?k + 2 ^ ?k) * 2 ^ (52 - ?k)"
      using k23 by (simp add: distrib_right flip: power_add)
    then have m: "(?m - 2 ^ ?k) * 2 ^ (52 - ?k) + 2 ^ 52 = ?m * 2 ^ (52 - ?k)" using k by simp
    have p: "(2 :: int) ^ (52 - ?k) * 2 ^ (873 + ?k) = 2 ^ 925" using k23 by (simp flip: power_add)
    show ?thesis
      using sub k23 fields32(1) [of b] f m p by (simp add: widen_def units32_def units64_def pack64_fields Let_def mult.assoc add.commute [of ?k])
  next
    case norm
    have f: "frac32 b * 2 ^ 29 < 2 ^ 52" using fields32(3) [of b] by simp
    have p: "(2 :: int) ^ (expo32 b + 895) = 2 ^ (expo32 b - 1) * 2 ^ 896" using norm by (subst power_add [symmetric]) simp
    show ?thesis
      using norm fields32(1) [of b] f p by (simp add: widen_def units32_def units64_def pack64_fields Let_def algebra_simps)
  qed
qed

lemma widen_special:
  assumes "expo32 b = 255"
  shows "expo64 (widen b) = 2047 \<and> sign64 (widen b) = sign32 b \<and> (frac64 (widen b) = 0 \<longleftrightarrow> frac32 b = 0)"
proof -
  have "(if frac32 b = 0 then 0 else if frac32 b < 2 ^ 22 then frac32 b * 2 ^ 29 + 2 ^ 51 else frac32 b * 2 ^ 29) < (2 ^ 52 :: nat)"
    using fields32(3) [of b] by simp
  then show ?thesis using assms fields32(1) [of b] by (simp add: widen_def pack64_fields Let_def)
qed

section \<open>Encoding and decoding\<close>

definition Float4Oid :: Oid where "Float4Oid = 700"
definition Float8Oid :: Oid where "Float8Oid = 701"
definition Float4ArrayOid :: Oid where "Float4ArrayOid = 1021"
definition Float8ArrayOid :: Oid where "Float8ArrayOid = 1022"

lemmas float_oids = Float4Oid_def Float8Oid_def Float4ArrayOid_def Float8ArrayOid_def

definition encodeFloat32 :: "float32 \<Rightarrow> encoder" where
  "encodeFloat32 v oid w =
     (if oid = Float4Oid then put_int4 v w
      else if oid = Float8Oid then put_int8 (widen v) w
      else (Some CannotEncode, w))"

definition encodeFloat64 :: "float64 \<Rightarrow> encoder" where
  "encodeFloat64 v oid w = (if oid = Float8Oid then put_int8 v w else (Some CannotEncode, w))"

definition encodeFloat32Slice :: "float32 list \<Rightarrow> encoder" where
  "encodeFloat32Slice vs oid w =
     (if oid \<noteq> Float4ArrayOid then (Some CannotEncode, w)
      else (None, fold (\<lambda>v w. snd (put_int4 v w)) vs (encodeArrayHeader Float4Oid (length vs) 8 w)))"

definition encodeFloat64Slice :: "float64 list \<Rightarrow> encoder" where
  "encodeFloat64Slice vs oid w =
     (if oid \<noteq> Float8ArrayOid then (Some CannotEncode, w)
      else (None, fold (\<lambda>v w. snd (put_int8 v w)) vs (encodeArrayHeader Float8Oid (length vs) 12 w)))"

definition decodeFloat4 :: "ValueReader \<Rightarrow> float32 \<times> ValueReader" where
  "decodeFloat4 vr = decode_checked Float4Oid 4 0 vr_ReadInt32 vr"

definition decodeFloat8 :: "ValueReader \<Rightarrow> float64 \<times> ValueReader" where
  "decodeFloat8 vr = decode_checked Float8Oid 8 0 vr_ReadInt64 vr"

definition decodeFloat4Array :: "ValueReader \<Rightarrow> (float32 list \<times> ValueReader) option" where
  "decodeFloat4Array = decode_array {Float4ArrayOid} (sized_element 4 vr_ReadInt32)"

definition decodeFloat8Array :: "ValueReader \<Rightarrow> (float64 list \<times> ValueReader) option" where
  "decodeFloat8Array = decode_array {Float8ArrayOid} (sized_element 8 vr_ReadInt64)"

definition NullFloat32_Encode :: "float32 \<Rightarrow> bool \<Rightarrow> encoder" where
  "NullFloat32_Encode v valid oid w =
     (if oid \<noteq> Float4Oid then (Some SerializationError, w) else encode_null valid (encodeFloat32 v) oid w)"

definition NullFloat64_Encode :: "float64 \<Rightarrow> bool \<Rightarrow> encoder" where
  "NullFloat64_Encode v valid oid w =
     (if oid \<noteq> Float8Oid then (Some SerializationError, w) else encode_null valid (encodeFloat64 v) oid w)"

definition NullFloat32_Scan :: "ValueReader \<Rightarrow> (enc_error, (float32 \<times> bool) \<times> mr_error option) result \<times> ValueReader" where
  "NullFloat32_Scan = scan_null Float4Oid 0 decodeFloat4"

definition NullFloat64_Scan :: "ValueReader \<Rightarrow> (enc_error, (float64 \<times> bool) \<times> mr_error option) result \<times> ValueReader" where
  "NullFloat64_Scan = scan_null Float8Oid 0 decodeFloat8"

section \<open>Numbers read back\<close>

lemma decodeFloat4_at:
  assumes at: "vr_at vr (be32 v) tail rest" and fd: "fd_DataType (vr_fd vr) = Float4Oid" "fd_FormatCode (vr_fd vr) = BinaryFormatCode"
  shows "\<exists>vr'. decodeFloat4 vr = (v, vr') \<and> vr_at vr' [] tail rest"
  using vr_ReadInt32_at [of vr v "[]" tail rest] check_value_at [OF at fd, of 4 0 vr_ReadInt32] at by (auto simp: decodeFloat4_def)

lemma decodeFloat8_at:
  assumes at: "vr_at vr (be64 v) tail rest" and fd: "fd_DataType (vr_fd vr) = Float8Oid" "fd_FormatCode (vr_fd vr) = BinaryFormatCode"
  shows "\<exists>vr'. decodeFloat8 vr = (v, vr') \<and> vr_at vr' [] tail rest"
  using vr_ReadInt64_at [of vr v "[]" tail rest] check_value_at [OF at fd, of 8 0 vr_ReadInt64] at by (auto simp: decodeFloat8_def)

lemma encodeFloat32_appended:
  "encodeFloat32 v oid w = (None, w') \<Longrightarrow>
     oid = Float4Oid \<and> appended w (be32 v) w' \<or> oid = Float8Oid \<and> appended w (be64 (widen v)) w'"
  by (auto simp: encodeFloat32_def put_int4_def put_int8_def appended_def write_defs split: if_splits)

lemma encodeFloat64_appended: "encodeFloat64 v oid w = (None, w') \<Longrightarrow> oid = Float8Oid \<and> appended w (be64 v) w'"
  by (auto simp: encodeFloat64_def put_int8_def appended_def write_defs split: if_splits)

lemma float_slices_appended:
  "encodeFloat32Slice as oid w = (None, w') \<Longrightarrow> oid = Float4ArrayOid \<and> appended w (array_body Float4Oid be32 as) w'"
  "encodeFloat64Slice bs oid w = (None, w') \<Longrightarrow> oid = Float8ArrayOid \<and> appended w (array_body Float8Oid be64 bs) w'"
  unfolding encodeFloat32Slice_def encodeFloat64Slice_def
  by (auto intro!: array_appended fold_append simp: put_ints_append split: if_splits)

lemma float_scans:
  "on_value vr Float4Oid (be32 a) \<Longrightarrow> fst (NullFloat32_Scan vr) = Inr ((a, True), None)"
  "on_value vr Float8Oid (be64 b) \<Longrightarrow> fst (NullFloat64_Scan vr) = Inr ((b, True), None)"
  unfolding NullFloat32_Scan_def NullFloat64_Scan_def
  by (rule scan_null_value [where rd = vr_ReadInt32], assumption, simp add: decodeFloat4_def, use vr_ReadInt32_at [of vr a "[]"] in fastforce)
    (rule scan_null_value [where rd = vr_ReadInt64], assumption, simp add: decodeFloat8_def, use vr_ReadInt64_at [of vr b "[]"] in fastforce)

end
