(* ===== verification/Pgx_Times.thy ===== *)
theory Pgx_Times
  imports Pgx_Values "HOL-Library.Signed_Division"
begin

text \<open>
  Times as parameters and columns (\<open>encodeTime\<close>, \<open>decodeDate\<close>, \<open>decodeTimestampTz\<close>, \<open>decodeTimestamp\<close>, their slices and \<open>NullTime\<close> of
  \<open>pgx/values.go\<close>). A timestamp is written as microseconds since the year 2000 and read back to the microsecond, whatever
  the location; a date is the calendar day in the location of the value and comes back as the midnight of that day
  in the local zone. The zones of the machine are a parameter.
\<close>

section \<open>Times of Go\<close>

text \<open>
  A zone is the offset from UTC in seconds at each instant, and the instant \<open>time.Date\<close> returns for the midnight that starts a
  day, counted from 1970. What is assumed of a zone, where it is, is that this instant lies in that day.
\<close>

record zone =
  z_offset :: "int \<Rightarrow> int"
  z_midnight :: "int \<Rightarrow> int"

record Time =
  t_sec :: "64 word"
  t_nsec :: int
  t_loc :: zone

definition UTC :: zone where
  "UTC = \<lparr>z_offset = \<lambda>_. 0, z_midnight = \<lambda>d. 86400 * d\<rparr>"

definition zeroTime :: Time where
  "zeroTime = \<lparr>t_sec = - 62135596800, t_nsec = 0, t_loc = UTC\<rparr>"

text \<open>The day of the calendar on which a time falls in its location, counted from 1970.\<close>

definition civil_day :: "Time \<Rightarrow> int" where
  "civil_day t = (sint (t_sec t) + z_offset (t_loc t) (sint (t_sec t))) div 86400"

definition midnight_ok :: "zone \<Rightarrow> int \<Rightarrow> bool" where
  "midnight_ok z d \<longleftrightarrow> (z_midnight z d + z_offset z (z_midnight z d)) div 86400 = d \<and> - (2 ^ 63) \<le> z_midnight z d \<and> z_midnight z d < 2 ^ 63"

definition time_Unix :: "zone \<Rightarrow> 64 word \<Rightarrow> int \<Rightarrow> Time" where
  "time_Unix loc sec nsec =
     (if nsec < 0 \<or> 10 ^ 9 \<le> nsec then
        let n = nsec sdiv 10 ^ 9; sec = sec + word_of_int n; nsec = nsec - n * 10 ^ 9 in
        if nsec < 0 then \<lparr>t_sec = sec - 1, t_nsec = nsec + 10 ^ 9, t_loc = loc\<rparr>
        else \<lparr>t_sec = sec, t_nsec = nsec, t_loc = loc\<rparr>
      else \<lparr>t_sec = sec, t_nsec = nsec, t_loc = loc\<rparr>)"

section \<open>Encoding\<close>

definition DateOid :: Oid where "DateOid = 1082"
definition TimestampOid :: Oid where "TimestampOid = 1114"
definition TimestampArrayOid :: Oid where "TimestampArrayOid = 1115"
definition TimestampTzOid :: Oid where "TimestampTzOid = 1184"
definition TimestampTzArrayOid :: Oid where "TimestampTzArrayOid = 1185"

lemmas time_oids = DateOid_def TimestampOid_def TimestampArrayOid_def TimestampTzOid_def TimestampTzArrayOid_def

definition microsecFromUnixEpochToY2K :: "64 word" where
  "microsecFromUnixEpochToY2K = 946684800 * 1000000"

definition microsecSinceY2K :: "Time \<Rightarrow> 64 word" where
  "microsecSinceY2K t = t_sec t * 1000000 + word_of_int (t_nsec t div 1000) - microsecFromUnixEpochToY2K"

definition daysSinceDateEpoch :: "Time \<Rightarrow> int" where
  "daysSinceDateEpoch t = (86400 * civil_day t - 946684800) sdiv 86400"

definition encodeTime :: "Time \<Rightarrow> encoder" where
  "encodeTime t oid w =
     (if oid = DateOid then put_int4 (word_of_int (daysSinceDateEpoch t)) w
      else if oid = TimestampTzOid \<or> oid = TimestampOid then put_int8 (microsecSinceY2K t) w
      else (Some CannotEncode, w))"

definition encodeTimeSlice :: "Time list \<Rightarrow> encoder" where
  "encodeTimeSlice ts oid w =
     (case (if oid = TimestampArrayOid then Some TimestampOid else if oid = TimestampTzArrayOid then Some TimestampTzOid else None) of
        None \<Rightarrow> (Some CannotEncode, w)
      | Some elOid \<Rightarrow>
          (None, fold (\<lambda>t w. WriteInt64 (microsecSinceY2K t) (WriteInt32 8 w)) ts (encodeArrayHeader elOid (length ts) 12 w)))"

definition NullTime_Encode :: "Time \<Rightarrow> bool \<Rightarrow> encoder" where
  "NullTime_Encode t valid oid w =
     (if oid \<noteq> TimestampTzOid \<and> oid \<noteq> TimestampOid \<and> oid \<noteq> DateOid then (Some SerializationError, w)
      else encode_null valid (encodeTime t) oid w)"

section \<open>Decoding\<close>

definition timestamp_of :: "zone \<Rightarrow> 64 word \<Rightarrow> Time" where
  "timestamp_of local us =
     (let m = sint (microsecFromUnixEpochToY2K + us) in time_Unix local (word_of_int (m sdiv 1000000)) (m smod 1000000 * 1000))"

definition read_timestamp :: "zone \<Rightarrow> ValueReader \<Rightarrow> Time \<times> ValueReader" where
  "read_timestamp local vr = (case vr_ReadInt64 vr of (us, vr) \<Rightarrow> (timestamp_of local us, vr))"

definition decodeTimestampTz :: "zone \<Rightarrow> ValueReader \<Rightarrow> Time \<times> ValueReader" where
  "decodeTimestampTz local vr = decode_checked TimestampTzOid 8 zeroTime (read_timestamp local) vr"

definition decodeTimestamp :: "zone \<Rightarrow> ValueReader \<Rightarrow> Time \<times> ValueReader" where
  "decodeTimestamp local vr = decode_checked TimestampOid 8 zeroTime (read_timestamp local) vr"

text \<open>A date of another size is an error of the reader, but the function goes on; the sum \<open>1+dayOffset\<close> is one of 32 bits.\<close>

definition decodeDate :: "zone \<Rightarrow> ValueReader \<Rightarrow> Time \<times> ValueReader" where
  "decodeDate local vr =
     (if vr_Len vr = - 1 then (zeroTime, vr_Fatal (ProtocolErr ''Cannot decode null'') vr)
      else if fd_DataType (vr_fd vr) \<noteq> DateOid then (zeroTime, vr_Fatal (ProtocolErr ''Cannot decode oid'') vr)
      else if fd_FormatCode (vr_fd vr) \<noteq> BinaryFormatCode then
        (zeroTime, vr_Fatal (ProtocolErr ''Unknown field description format code'') vr)
      else
        let vr = (if vr_Len vr \<noteq> 4 then vr_Fatal (ProtocolErr ''Received an invalid size'') vr else vr) in
        case vr_ReadInt32 vr of
          (dayOffset, vr) \<Rightarrow>
            (\<lparr>t_sec = word_of_int (z_midnight local (10957 + (sint (1 + dayOffset) - 1))), t_nsec = 0, t_loc = local\<rparr>, vr))"

text \<open>\<open>Decode\<close> into a \<open>time.Time\<close>; \<open>Inl\<close> for a column of another type.\<close>

definition Decode_Time :: "zone \<Rightarrow> ValueReader \<Rightarrow> (dec_error, Time) result \<times> ValueReader" where
  "Decode_Time local vr =
     (let oid = fd_DataType (vr_fd vr) in
      if oid = DateOid then map_prod Inr id (decodeDate local vr)
      else if oid = TimestampTzOid then map_prod Inr id (decodeTimestampTz local vr)
      else if oid = TimestampOid then map_prod Inr id (decodeTimestamp local vr)
      else (Inl CannotDecode, vr))"

definition decodeTimestampArray :: "zone \<Rightarrow> ValueReader \<Rightarrow> (Time list \<times> ValueReader) option" where
  "decodeTimestampArray local = decode_array {TimestampArrayOid, TimestampTzArrayOid} (sized_element 8 (read_timestamp local))"

definition NullTime_Scan :: "zone \<Rightarrow> ValueReader \<Rightarrow> (enc_error, (Time \<times> bool) \<times> mr_error option) result \<times> ValueReader" where
  "NullTime_Scan local vr =
     (let oid = fd_DataType (vr_fd vr) in
      if oid \<noteq> TimestampTzOid \<and> oid \<noteq> TimestampOid \<and> oid \<noteq> DateOid then (Inl SerializationError, vr)
      else if vr_Len vr = - 1 then (Inr ((zeroTime, False), None), vr)
      else
        case (if oid = TimestampTzOid then decodeTimestampTz local vr
              else if oid = TimestampOid then decodeTimestamp local vr else decodeDate local vr) of
          (t, vr) \<Rightarrow> (Inr ((t, True), vr_err vr), vr))"

section \<open>Instants read back\<close>

lemma time_Unix_floor:
  "time_Unix loc (word_of_int (m sdiv 1000000)) (m smod 1000000 * 1000) =
     \<lparr>t_sec = word_of_int (m div 1000000), t_nsec = m mod 1000000 * 1000, t_loc = loc\<rparr>"
proof -
  have bounds: "0 \<le> m mod 1000000" "m mod 1000000 < 1000000" by simp_all
  show ?thesis
  proof (cases "sgn m \<noteq> 1 \<and> \<not> 1000000 dvd m")
    case True
    then have d: "m sdiv 1000000 = m div 1000000 + 1" "m smod 1000000 = m mod 1000000 - 1000000"
      by (simp_all add: signed_divide_int_eq_divide_int signed_modulo_int_eq_modulo_int)
    have pos: "0 < m mod 1000000" using True bounds by (simp add: dvd_eq_mod_eq_0 order.strict_iff_order)
    let ?n = "(m mod 1000000 - 1000000) * 1000"
    have "\<bar>?n\<bar> < 10 ^ 9" "?n < 0" using bounds pos by simp_all
    then have "?n sdiv 10 ^ 9 = 0" by (simp add: signed_divide_int_def)
    with \<open>?n < 0\<close> d show ?thesis by (simp add: time_Unix_def Let_def)
  next
    case False
    then have "m sdiv 1000000 = m div 1000000" "m smod 1000000 = m mod 1000000"
      by (auto simp: signed_divide_int_eq_divide_int signed_modulo_int_eq_modulo_int)
    then show ?thesis by (simp add: time_Unix_def not_less not_le)
  qed
qed

text \<open>A time whose microseconds since 1970 are numbers of 64 bits.\<close>

definition representable :: "Time \<Rightarrow> bool" where
  "representable t \<longleftrightarrow> 0 \<le> t_nsec t \<and> t_nsec t < 10 ^ 9 \<and> - (2 ^ 63) \<le> sint (t_sec t) * 1000000 \<and>
     sint (t_sec t) * 1000000 + t_nsec t div 1000 < 2 ^ 63"

definition to_micro :: "zone \<Rightarrow> Time \<Rightarrow> Time" where
  "to_micro local t = t\<lparr>t_nsec := t_nsec t div 1000 * 1000, t_loc := local\<rparr>"

lemma timestamp_of_microsec:
  assumes "representable t"
  shows "timestamp_of local (microsecSinceY2K t) = to_micro local t"
proof -
  let ?s = "sint (t_sec t)" and ?u = "t_nsec t div 1000"
  have n: "0 \<le> t_nsec t" "t_nsec t \<le> 999999999" using assms by (simp_all add: representable_def)
  have u: "0 \<le> ?u" "?u < 1000000" using n(1) zdiv_mono1 [OF n(2), of 1000] by (simp_all add: pos_imp_zdiv_nonneg_iff)
  have "microsecFromUnixEpochToY2K + microsecSinceY2K t = t_sec t * 1000000 + word_of_int ?u"
    by (simp add: microsecSinceY2K_def)
  also have "\<dots> = word_of_int (?s * 1000000 + ?u)" by simp
  finally have e: "microsecFromUnixEpochToY2K + microsecSinceY2K t = word_of_int (?s * 1000000 + ?u)" .
  have "- (2 ^ 63) \<le> ?s * 1000000 + ?u" "?s * 1000000 + ?u < 2 ^ 63" using assms u(1) unfolding representable_def by linarith+
  then have "sint (microsecFromUnixEpochToY2K + microsecSinceY2K t) = ?s * 1000000 + ?u"
    unfolding e by (intro sint_word_of_int_range) simp_all
  moreover have "(?s * 1000000 + ?u) div 1000000 = ?s" "(?s * 1000000 + ?u) mod 1000000 = ?u"
    using u by simp_all
  ultimately show ?thesis by (simp add: timestamp_of_def time_Unix_floor to_micro_def Let_def)
qed

lemma read_timestamp_at:
  assumes "vr_at vr (be64 (microsecSinceY2K t) @ c) tail rest" and "representable t"
  shows "\<exists>vr'. read_timestamp local vr = (to_micro local t, vr') \<and> vr_at vr' c tail rest \<and> vr_fd vr' = vr_fd vr"
  using vr_ReadInt64_at [OF assms(1)] timestamp_of_microsec [OF assms(2)] by (auto simp: read_timestamp_def)

text \<open>The elements of a slice of times in the local zone, without fractions of a microsecond.\<close>

definition exact :: "zone \<Rightarrow> Time \<Rightarrow> bool" where
  "exact local t \<longleftrightarrow> representable t \<and> t_nsec t mod 1000 = 0 \<and> t_loc t = local"

lemma exact_to_micro: "exact local t \<Longrightarrow> to_micro local t = t"
proof -
  assume e: "exact local t"
  then have "t_nsec t div 1000 * 1000 = t_nsec t" by (simp add: exact_def mod_eq_0_iff_dvd)
  with e show ?thesis by (simp add: exact_def to_micro_def)
qed

interpretation timestamps: element_codec "sized_element 8 (read_timestamp local)" "\<lambda>t. be64 (microsecSinceY2K t)" "exact local" for local
proof
  fix t vr c tail rest assume t: "exact local t" and at: "vr_at vr (be64 (microsecSinceY2K t) @ c) tail rest"
  from t have "representable t" by (simp add: exact_def)
  from read_timestamp_at [OF at this, of local] exact_to_micro [OF t]
  show "\<exists>vr'. sized_element 8 (read_timestamp local) (word_of_nat (length (be64 (microsecSinceY2K t)))) vr = Some (Inr t, vr') \<and>
      vr_at vr' c tail rest \<and> vr_fd vr' = vr_fd vr"
    by (auto simp: sized_element_def)
qed

lemma encodeTimeSlice_appended:
  assumes "encodeTimeSlice ts oid w = (None, w')"
  shows "\<exists>el. appended w (array_body el (\<lambda>t. be64 (microsecSinceY2K t)) ts) w' \<and> oid \<in> {TimestampArrayOid, TimestampTzArrayOid}"
proof -
  let ?enc = "\<lambda>t. be64 (microsecSinceY2K t)"
  obtain el where oid: "oid \<in> {TimestampArrayOid, TimestampTzArrayOid}"
    and w': "w' = fold (\<lambda>t w. WriteInt64 (microsecSinceY2K t) (WriteInt32 8 w)) ts (encodeArrayHeader el (length ts) 12 w)"
    using assms by (auto simp: encodeTimeSlice_def split: if_splits)
  have "wb_buf w' = wb_buf (encodeArrayHeader el (length ts) 12 w) @ concat (map (element ?enc) ts)"
    unfolding w' by (rule fold_append) (simp add: write_defs element_def)
  then have "appended w (array_body el ?enc ts) w'" by (rule array_appended) simp
  with oid show ?thesis by blast
qed

text \<open>A value that is not NULL is scanned by \<open>NullTime\<close> exactly as \<open>Decode\<close> reads it.\<close>

lemma NullTime_Scan_value:
  assumes "vr_Len vr \<noteq> - 1"
  shows "NullTime_Scan local vr =
    (case Decode_Time local vr of (Inl e, vr') \<Rightarrow> (Inl SerializationError, vr') | (Inr t, vr') \<Rightarrow> (Inr ((t, True), vr_err vr'), vr'))"
proof -
  have "DateOid \<noteq> TimestampOid" "DateOid \<noteq> TimestampTzOid" "TimestampOid \<noteq> TimestampTzOid" by (simp_all add: time_oids)
  with assms show ?thesis by (auto simp: NullTime_Scan_def Decode_Time_def Let_def map_prod_def split: prod.splits)
qed

section \<open>Properties\<close>

text \<open>What a column of the given type can keep of a time: a date its day, a timestamp its microseconds.\<close>

definition time_ok :: "zone \<Rightarrow> Oid \<Rightarrow> Time \<Rightarrow> bool" where
  "time_ok local oid t \<longleftrightarrow>
     (if oid = DateOid then - (2 ^ 31) \<le> civil_day t - 10957 \<and> civil_day t - 10957 < 2 ^ 31 - 1 \<and> midnight_ok local (civil_day t)
      else representable t)"

lemma daysSinceDateEpoch_day: "daysSinceDateEpoch t = civil_day t - 10957"
proof -
  have "86400 * civil_day t - 946684800 = (civil_day t - 10957) * 86400" by simp
  moreover have "(k * 86400) sdiv 86400 = (k :: int)" for k by (simp add: signed_divide_int_eq_divide_int)
  ultimately show ?thesis unfolding daysSinceDateEpoch_def by metis
qed

lemma decodeDate_at:
  assumes at: "vr_at vr (be32 (word_of_int d)) tail rest" and fd: "fd_DataType (vr_fd vr) = DateOid" "fd_FormatCode (vr_fd vr) = BinaryFormatCode"
    and d: "- (2 ^ 31) \<le> d" "d < 2 ^ 31 - 1"
  shows "\<exists>vr'. decodeDate local vr = (\<lparr>t_sec = word_of_int (z_midnight local (10957 + d)), t_nsec = 0, t_loc = local\<rparr>, vr') \<and>
    vr_at vr' [] tail rest"
proof -
  obtain vr' where "vr_ReadInt32 vr = (word_of_int d, vr')" "vr_at vr' [] tail rest"
    using vr_ReadInt32_at [of vr "word_of_int d" "[]" tail rest] at by auto
  moreover have "sint (1 + word_of_int d :: 32 word) = 1 + d"
    using sint_word_of_int_range [where 'a = 32, of "1 + d"] d by simp
  ultimately show ?thesis using fd vr_at_Len [OF at] by (simp add: decodeDate_def Let_def)
qed

text \<open>
  A time written to a column is read back into \<open>time.Time\<close>. From a timestamp, with or without time zone, comes the same
  instant cut to microseconds, in the local zone; from a date the midnight that starts the same calendar day,
  which is the day in the location of the value and not in UTC or in the local zone.
\<close>

theorem time_roundtrip:
  assumes enc: "encodeTime t oid w = (None, w')" and ok: "time_ok local oid t"
  shows "\<exists>body t'. appended w body w' \<and>
    (if oid = DateOid then civil_day t' = civil_day t \<and> t_nsec t' = 0 \<and> t_loc t' = local else t' = to_micro local t) \<and>
    (\<forall>vr tail rest. vr_at vr body tail rest \<and> fd_DataType (vr_fd vr) = oid \<and> fd_FormatCode (vr_fd vr) = BinaryFormatCode \<longrightarrow>
       (\<exists>vr'. Decode_Time local vr = (Inr t', vr') \<and> vr_at vr' [] tail rest))"
proof (cases "oid = DateOid")
  case True
  let ?t = "\<lparr>t_sec = word_of_int (z_midnight local (civil_day t)), t_nsec = 0, t_loc = local\<rparr>"
  let ?b = "be32 (word_of_int (civil_day t - 10957))"
  have "civil_day ?t = civil_day t"
    using ok True by (simp add: civil_day_def time_ok_def midnight_ok_def sint_word_of_int_range)
  moreover have "appended w ?b w'"
    using enc True by (auto simp: encodeTime_def put_int4_def daysSinceDateEpoch_day appended_def write_defs)
  moreover have "\<exists>vr'. Decode_Time local vr = (Inr ?t, vr') \<and> vr_at vr' [] tail rest"
    if "vr_at vr ?b tail rest \<and> fd_DataType (vr_fd vr) = oid \<and> fd_FormatCode (vr_fd vr) = BinaryFormatCode" for vr tail rest
    using decodeDate_at [of vr "civil_day t - 10957" tail rest local] that ok True by (auto simp: Decode_Time_def time_ok_def)
  ultimately show ?thesis using True by (intro exI [of _ ?b] exI [of _ ?t]) simp
next
  case False
  let ?b = "be64 (microsecSinceY2K t)"
  have oid: "oid = TimestampTzOid \<or> oid = TimestampOid" and "appended w ?b w'"
    using enc False by (auto simp: encodeTime_def put_int8_def appended_def write_defs split: if_splits)
  moreover have "\<exists>vr'. Decode_Time local vr = (Inr (to_micro local t), vr') \<and> vr_at vr' [] tail rest"
    if at: "vr_at vr ?b tail rest \<and> fd_DataType (vr_fd vr) = oid \<and> fd_FormatCode (vr_fd vr) = BinaryFormatCode" for vr tail rest
  proof -
    obtain vr' where "read_timestamp local vr = (to_micro local t, vr')" "vr_at vr' [] tail rest"
      using read_timestamp_at [of vr t "[]" tail rest local] at ok False by (auto simp: time_ok_def)
    moreover have "decode_checked oid 8 zeroTime (read_timestamp local) vr = read_timestamp local vr"
      using at by (intro check_value_at [of vr ?b tail rest]) simp_all
    ultimately show ?thesis
      using oid False at by (auto simp: Decode_Time_def decodeTimestampTz_def decodeTimestamp_def Let_def time_oids)
  qed
  ultimately show ?thesis using False by (intro exI [of _ ?b] exI [of _ "to_micro local t"]) simp
qed

theorem time_roundtrip_witness:
  "\<exists>vr'. Decode_Time UTC (value_reader TimestampOid (be64 (microsecSinceY2K \<lparr>t_sec = 5, t_nsec = 1500, t_loc = UTC\<rparr>))) =
     (Inr \<lparr>t_sec = 5, t_nsec = 1000, t_loc = UTC\<rparr>, vr')"
proof -
  let ?t = "\<lparr>t_sec = 5, t_nsec = 1500, t_loc = UTC\<rparr>" and ?w = "newWriteBuf 66"
  have enc: "encodeTime ?t TimestampOid ?w = (None, WriteInt64 (microsecSinceY2K ?t) (WriteInt32 8 ?w))"
    by (simp add: encodeTime_def put_int8_def time_oids)
  have ok: "time_ok UTC TimestampOid ?t" by (simp add: time_ok_def representable_def time_oids)
  obtain body where body: "appended ?w body (WriteInt64 (microsecSinceY2K ?t) (WriteInt32 8 ?w))"
    and dec: "\<forall>vr tail rest. vr_at vr body tail rest \<and> fd_DataType (vr_fd vr) = TimestampOid \<and>
      fd_FormatCode (vr_fd vr) = BinaryFormatCode \<longrightarrow> (\<exists>vr'. Decode_Time UTC vr = (Inr (to_micro UTC ?t), vr') \<and> vr_at vr' [] tail rest)"
    using time_roundtrip [OF enc ok] by (auto simp: time_oids)
  have "body = be64 (microsecSinceY2K ?t)"
    using body by (simp add: appended_def write_defs append_eq_append_conv)
  then show ?thesis
    using dec [rule_format, of "value_reader TimestampOid body" "[]" "[]"] value_reader_at [of body TimestampOid]
    by (auto simp: to_micro_def)
qed

text \<open>
  A slice of times in the local zone, without fractions of a microsecond, is read back.
\<close>

theorem times_roundtrip:
  assumes enc: "encodeTimeSlice ts oid w = (None, w')" and ok: "list_all (exact local) ts"
  shows "\<exists>body. appended w body w' \<and>
    (\<forall>vr tail rest. vr_at vr body tail rest \<and> fd_DataType (vr_fd vr) = oid \<and> fd_FormatCode (vr_fd vr) = BinaryFormatCode \<longrightarrow>
       (\<exists>vr'. decodeTimestampArray local vr = Some (ts, vr') \<and> vr_at vr' [] tail rest))"
proof -
  obtain el where "appended w (array_body el (\<lambda>t. be64 (microsecSinceY2K t)) ts) w'" and oid: "oid \<in> {TimestampArrayOid, TimestampTzArrayOid}"
    using encodeTimeSlice_appended [OF enc] by blast
  moreover have "\<exists>vr'. decodeTimestampArray local vr = Some (ts, vr') \<and> vr_at vr' [] tail rest"
    if "vr_at vr (array_body el (\<lambda>t. be64 (microsecSinceY2K t)) ts) tail rest \<and> fd_DataType (vr_fd vr) = oid \<and>
      fd_FormatCode (vr_fd vr) = BinaryFormatCode" for vr tail rest
    using timestamps.decode_array_at [OF ok, of vr el tail rest "{TimestampArrayOid, TimestampTzArrayOid}"] that oid
    by (simp add: decodeTimestampArray_def array_body_def)
  ultimately show ?thesis by blast
qed

theorem times_roundtrip_witness:
  "\<exists>body vr'. decodeTimestampArray UTC (value_reader TimestampArrayOid body) = Some ([\<lparr>t_sec = 5, t_nsec = 1000, t_loc = UTC\<rparr>], vr')"
proof -
  let ?t = "\<lparr>t_sec = 5, t_nsec = 1000, t_loc = UTC\<rparr>" and ?w = "newWriteBuf 66"
  obtain w' where enc: "encodeTimeSlice [?t] TimestampArrayOid ?w = (None, w')" by (simp add: encodeTimeSlice_def)
  have "list_all (exact UTC) [?t]" by (simp add: exact_def representable_def)
  from times_roundtrip [OF enc this] obtain body where body: "appended ?w body w'"
    and dec: "\<forall>vr tail rest. vr_at vr body tail rest \<and> fd_DataType (vr_fd vr) = TimestampArrayOid \<and>
      fd_FormatCode (vr_fd vr) = BinaryFormatCode \<longrightarrow> (\<exists>vr'. decodeTimestampArray UTC vr = Some ([?t], vr') \<and> vr_at vr' [] tail rest)"
    by blast
  have "length (wb_buf w') = length (wb_buf ?w) + 36"
    using enc by (auto simp: encodeTimeSlice_def encodeArrayHeader_append write_defs)
  then have "length body = 32" using body by (simp add: appended_def)
  then show ?thesis using dec value_reader_at [of body TimestampArrayOid] by fastforce
qed

text \<open>
  The largest values of the server wrap around: a timestamp whose microseconds since 1970 exceed 64 bits, like \<open>infinity\<close>, is
  read as a time before 1970, and the date \<open>infinity\<close> as a day before every day a date can have.
\<close>

theorem infinity_is_past:
  assumes "2 ^ 63 - 946684800000000 \<le> sint us"
  shows "sint (t_sec (timestamp_of local us)) < 0 \<and>
    fst (decodeDate local (value_reader DateOid (be32 0x7FFFFFFF))) =
      \<lparr>t_sec = word_of_int (z_midnight local (10957 - 2 ^ 31 - 1)), t_nsec = 0, t_loc = local\<rparr>"
proof
  let ?m = "sint us + 946684800000000 - 2 ^ 64"
  have b: "sint us < 2 ^ 63" using sint_bounds(2) [of us] by simp
  have "microsecFromUnixEpochToY2K + us = word_of_int (sint us + 946684800000000)"
    by (simp add: microsecFromUnixEpochToY2K_def)
  also have "\<dots> = word_of_int ?m" by (simp add: word_of_int_eq_iff take_bit_eq_mod)
  finally have e: "microsecFromUnixEpochToY2K + us = word_of_int ?m" .
  have "sint (microsecFromUnixEpochToY2K + us) = ?m"
    unfolding e using assms b by (intro sint_word_of_int_range) simp_all
  moreover have d: "?m div 1000000 < 0" using b by (simp add: pos_imp_zdiv_neg_iff)
  moreover have "sint (word_of_int (?m div 1000000) :: 64 word) = ?m div 1000000"
    using assms d zdiv_mono1 [of "- (2 ^ 63)" ?m 1000000] by (intro sint_word_of_int_range) simp_all
  ultimately show "sint (t_sec (timestamp_of local us)) < 0"
    by (simp add: timestamp_of_def time_Unix_floor Let_def)
  obtain vr' where "vr_ReadInt32 (value_reader DateOid (be32 0x7FFFFFFF)) = (0x7FFFFFFF, vr')"
    using vr_ReadInt32_at [of "value_reader DateOid (be32 0x7FFFFFFF)" "0x7FFFFFFF" "[]" "[]" "[]"] value_reader_at [of "be32 0x7FFFFFFF" DateOid] by auto
  moreover have "vr_Len (value_reader DateOid (be32 0x7FFFFFFF)) = 4" by (simp add: value_reader_def vr_Len_def)
  ultimately show "fst (decodeDate local (value_reader DateOid (be32 0x7FFFFFFF))) =
      \<lparr>t_sec = word_of_int (z_midnight local (10957 - 2 ^ 31 - 1)), t_nsec = 0, t_loc = local\<rparr>"
    by (simp add: decodeDate_def)
qed

theorem infinity_is_past_witness: "sint (t_sec (timestamp_of UTC (2 ^ 63 - 1))) < 0"
  using infinity_is_past [of "2 ^ 63 - 1" UTC] by simp

end
