(* ===== verification/Pgx_Inet.thy ===== *)
theory Pgx_Inet
  imports Pgx_Values
begin

unbundle bit_operations_syntax

text \<open>
  Network addresses as parameters and columns (\<open>encodeIPNet\<close>, \<open>encodeIP\<close>, \<open>decodeInet\<close> and their slices in \<open>pgx/values.go\<close>), with the
  masks of the package \<open>net\<close>. The numbers of the address families are those the connection read from the server when it was
  opened; they are \<open>None\<close> before, and using them then panics.
\<close>

section \<open>Masks\<close>

text \<open>\<open>net.CIDRMask\<close>; a length or a number of ones that is not possible gives the nil mask.\<close>

fun mask_bytes :: "nat \<Rightarrow> nat \<Rightarrow> bytes" where
  "mask_bytes 0 n = []"
| "mask_bytes (Suc l) n = (if 8 \<le> n then 0xFF # mask_bytes l (n - 8) else NOT (drop_bit n 0xFF) # mask_bytes l 0)"

definition CIDRMask :: "nat \<Rightarrow> nat \<Rightarrow> bytes" where
  "CIDRMask ones bits = (if (bits \<noteq> 32 \<and> bits \<noteq> 128) \<or> bits < ones then [] else mask_bytes (bits div 8) ones)"

text \<open>\<open>IPMask.Size\<close>: the leading ones, after which all bits must be zero; no such mask has the size (0, 0).\<close>

fun leading_ones :: "nat \<Rightarrow> byte \<Rightarrow> nat \<times> byte" where
  "leading_ones 0 v = (0, v)"
| "leading_ones (Suc k) v = (if v AND 0x80 \<noteq> 0 then (case leading_ones k (push_bit 1 v) of (n, v) \<Rightarrow> (Suc n, v)) else (0, v))"

fun simpleMaskLength :: "bytes \<Rightarrow> nat option" where
  "simpleMaskLength [] = Some 0"
| "simpleMaskLength (v # m) =
     (if v = 0xFF then map_option (\<lambda>n. n + 8) (simpleMaskLength m)
      else case leading_ones 8 v of (n, v) \<Rightarrow> if v \<noteq> 0 \<or> list_ex (\<lambda>b. b \<noteq> 0) m then None else Some n)"

definition Mask_Size :: "bytes \<Rightarrow> nat \<times> nat" where
  "Mask_Size m = (case simpleMaskLength m of None \<Rightarrow> (0, 0) | Some ones \<Rightarrow> (ones, length m * 8))"

lemma prefix_byte:
  assumes "n < 8"
  shows "leading_ones 8 (NOT (drop_bit n 0xFF)) = (n, 0) \<and> NOT (drop_bit n 0xFF) \<noteq> (0xFF :: byte)"
proof -
  have "n \<in> {0, 1, 2, 3, 4, 5, 6, 7}" using assms by auto
  then show ?thesis by (elim insertE emptyE; hypsubst; code_simp)
qed

lemma mask_bytes_zero: "mask_bytes l 0 = replicate l 0"
  by (induction l) simp_all

lemma simpleMaskLength_mask: "n \<le> 8 * l \<Longrightarrow> simpleMaskLength (mask_bytes l n) = Some n"
proof (induction l n rule: mask_bytes.induct)
  case (2 l n)
  then show ?case using prefix_byte [of n] by (cases "8 \<le> n") (simp_all add: mask_bytes_zero list_ex_iff)
qed simp

lemma length_mask_bytes [simp]: "length (mask_bytes l n) = l"
  by (induction l n rule: mask_bytes.induct) simp_all

lemma Mask_Size_CIDRMask: "bits \<in> {32, 128} \<Longrightarrow> ones \<le> bits \<Longrightarrow> Mask_Size (CIDRMask ones bits) = (ones, bits)"
  by (auto simp: Mask_Size_def CIDRMask_def simpleMaskLength_mask)

section \<open>Encoding\<close>

definition InetOid :: Oid where "InetOid = 869"
definition CidrOid :: Oid where "CidrOid = 650"
definition CidrArrayOid :: Oid where "CidrArrayOid = 651"
definition InetArrayOid :: Oid where "InetArrayOid = 1041"

lemmas inet_oids = InetOid_def CidrOid_def CidrArrayOid_def InetArrayOid_def

record IPNet =
  ip_IP :: bytes
  ip_Mask :: bytes

record af_constants =
  pgsql_af_inet :: "byte option"
  pgsql_af_inet6 :: "byte option"

type_synonym inet_encoder = "Oid \<Rightarrow> WriteBuf \<Rightarrow> (enc_error option \<times> WriteBuf) option"

definition encodeIPNet :: "af_constants \<Rightarrow> IPNet \<Rightarrow> inet_encoder" where
  "encodeIPNet af v oid w =
     (if oid \<noteq> InetOid \<and> oid \<noteq> CidrOid then Some (Some CannotEncode, w)
      else if length (ip_IP v) \<noteq> 4 \<and> length (ip_IP v) \<noteq> 16 then Some (Some CannotEncode, w)
      else
        let (size, fam) = (if length (ip_IP v) = 4 then (8, pgsql_af_inet af) else (20, pgsql_af_inet6 af)) in
        case fam of
          None \<Rightarrow> None
        | Some family \<Rightarrow>
            Some (None, WriteBytes (ip_IP v) (WriteByte (word_of_nat (length (ip_IP v))) (WriteByte 0
              (WriteByte (word_of_nat (fst (Mask_Size (ip_Mask v)))) (WriteByte family (WriteInt32 size w)))))))"

definition encodeIP :: "af_constants \<Rightarrow> bytes \<Rightarrow> inet_encoder" where
  "encodeIP af v oid w =
     (if oid \<noteq> InetOid \<and> oid \<noteq> CidrOid then Some (Some CannotEncode, w)
      else encodeIPNet af \<lparr>ip_IP = v, ip_Mask = CIDRMask (length v * 8) (length v * 8)\<rparr> oid w)"

text \<open>The slices write the header with the sizes of all addresses, then each address; errors of the addresses are dropped.\<close>

definition inet_element :: "Oid \<Rightarrow> Oid option" where
  "inet_element oid = (if oid = InetArrayOid then Some InetOid else if oid = CidrArrayOid then Some CidrOid else None)"

definition inet_header :: "Oid \<Rightarrow> nat list \<Rightarrow> WriteBuf \<Rightarrow> WriteBuf" where
  "inet_header elOid lens w =
     WriteInt32 1 (WriteInt32 (word_of_nat (length lens)) (WriteInt32 elOid (WriteInt32 0 (WriteInt32 1
       (WriteInt32 (foldl (\<lambda>size n. size + (4 + 4 + word_of_nat n)) 20 lens) w)))))"

fun put_addresses :: "('a \<Rightarrow> WriteBuf \<Rightarrow> (enc_error option \<times> WriteBuf) option) \<Rightarrow> 'a list \<Rightarrow> WriteBuf \<Rightarrow> WriteBuf option" where
  "put_addresses enc [] w = Some w"
| "put_addresses enc (x # xs) w = (case enc x w of None \<Rightarrow> None | Some (_, w) \<Rightarrow> put_addresses enc xs w)"

definition encodeIPNetSlice :: "af_constants \<Rightarrow> IPNet list \<Rightarrow> inet_encoder" where
  "encodeIPNetSlice af vs oid w =
     (case inet_element oid of
        None \<Rightarrow> Some (Some CannotEncode, w)
      | Some elOid \<Rightarrow>
          map_option (Pair None) (put_addresses (\<lambda>v. encodeIPNet af v elOid) vs (inet_header elOid (map (length \<circ> ip_IP) vs) w)))"

definition encodeIPSlice :: "af_constants \<Rightarrow> bytes list \<Rightarrow> inet_encoder" where
  "encodeIPSlice af vs oid w =
     (case inet_element oid of
        None \<Rightarrow> Some (Some CannotEncode, w)
      | Some elOid \<Rightarrow> map_option (Pair None) (put_addresses (\<lambda>v. encodeIP af v elOid) vs (inet_header elOid (map length vs) w)))"

section \<open>Decoding\<close>

text \<open>The family and the flag for networks are skipped; the length of the address is what its byte says.\<close>

definition read_inet :: "ValueReader \<Rightarrow> (IPNet \<times> ValueReader) option" where
  "read_inet vr =
     (case vr_ReadByte vr of
        (_, vr) \<Rightarrow>
          (case vr_ReadByte vr of
             (bits, vr) \<Rightarrow>
               (case vr_ReadByte vr of
                  (_, vr) \<Rightarrow>
                    (case vr_ReadByte vr of
                       (addressLength, vr) \<Rightarrow>
                         map_option (\<lambda>(ip, vr). (\<lparr>ip_IP = ip, ip_Mask = CIDRMask (unat bits) (unat addressLength * 8)\<rparr>, vr))
                           (vr_ReadBytes (ucast addressLength) vr)))))"

definition zero_IPNet :: IPNet where
  "zero_IPNet = \<lparr>ip_IP = [], ip_Mask = []\<rparr>"

definition decodeInet :: "ValueReader \<Rightarrow> (IPNet \<times> ValueReader) option" where
  "decodeInet vr =
     (if vr_Len vr = - 1 then Some (zero_IPNet, vr_Fatal (ProtocolErr ''Cannot decode null'') vr)
      else if fd_FormatCode (vr_fd vr) \<noteq> BinaryFormatCode then
        Some (zero_IPNet, vr_Fatal (ProtocolErr ''Unknown field description format code'') vr)
      else if fd_DataType (vr_fd vr) \<noteq> InetOid \<and> fd_DataType (vr_fd vr) \<noteq> CidrOid then
        Some (zero_IPNet, vr_Fatal (ProtocolErr ''Cannot decode oid'') vr)
      else if vr_Len vr \<noteq> 8 \<and> vr_Len vr \<noteq> 20 then
        Some (zero_IPNet, vr_Fatal (ProtocolErr ''Received an invalid size'') vr)
      else read_inet vr)"

definition decodeInetArray :: "ValueReader \<Rightarrow> (IPNet list \<times> ValueReader) option" where
  "decodeInetArray =
     decode_array {InetArrayOid, CidrArrayOid}
       (\<lambda>elSize vr. if elSize = - 1 then Some (Inl ''Cannot decode null element'', vr)
          else map_option (map_prod Inr id) (read_inet vr))"

text \<open>\<open>Decode\<close> into a \<open>net.IP\<close>: an address with a mask that is not full is refused.\<close>

definition host_mask :: "IPNet \<Rightarrow> bool" where
  "host_mask v = (case Mask_Size (ip_Mask v) of (oneCount, bitCount) \<Rightarrow> oneCount = bitCount)"

definition Decode_IP :: "ValueReader \<Rightarrow> ((dec_error, bytes) result \<times> ValueReader) option" where
  "Decode_IP vr =
     map_option (\<lambda>(v, vr). (if \<not> host_mask v then Inl CannotDecode else Inr (ip_IP v), vr)) (decodeInet vr)"

definition Decode_IPs :: "ValueReader \<Rightarrow> ((dec_error, bytes list) result \<times> ValueReader) option" where
  "Decode_IPs vr =
     map_option (\<lambda>(vs, vr). (if list_ex (\<lambda>v. \<not> host_mask v) vs then Inl CannotDecode else Inr (map ip_IP vs), vr)) (decodeInetArray vr)"

section \<open>What the encoders write\<close>

definition address_ok :: "bytes \<Rightarrow> bool" where
  "address_ok ip \<longleftrightarrow> length ip = 4 \<or> length ip = 16"

definition family_of :: "af_constants \<Rightarrow> bytes \<Rightarrow> byte" where
  "family_of af ip = the (if length ip = 4 then pgsql_af_inet af else pgsql_af_inet6 af)"

definition net_body :: "af_constants \<Rightarrow> IPNet \<Rightarrow> bytes" where
  "net_body af v =
     [family_of af (ip_IP v), word_of_nat (fst (Mask_Size (ip_Mask v))), 0, word_of_nat (length (ip_IP v))] @ ip_IP v"

definition host_net :: "bytes \<Rightarrow> IPNet" where
  "host_net ip = \<lparr>ip_IP = ip, ip_Mask = CIDRMask (length ip * 8) (length ip * 8)\<rparr>"

text \<open>An address that is refused adds nothing.\<close>

definition added :: "af_constants \<Rightarrow> IPNet \<Rightarrow> bytes" where
  "added af v = (if address_ok (ip_IP v) then element (net_body af) v else [])"

lemma encodeIPNet_adds:
  assumes "encodeIPNet af v oid w = Some (e, w')" and "oid \<in> {InetOid, CidrOid}"
  shows "wb_buf w' = wb_buf w @ added af v \<and> (e = None \<longleftrightarrow> address_ok (ip_IP v))"
  using assms by (auto simp: encodeIPNet_def added_def address_ok_def element_def net_body_def family_of_def write_defs
      split: if_splits option.splits)

lemma encodeIPNet_accepts: "encodeIPNet af v oid w = Some (None, w') \<Longrightarrow> oid \<in> {InetOid, CidrOid}"
  by (auto simp: encodeIPNet_def split: if_splits)

lemma encodeIPNet_appended:
  assumes "encodeIPNet af v oid w = Some (None, w')"
  shows "appended w (net_body af v) w' \<and> oid \<in> {InetOid, CidrOid}"
  using encodeIPNet_adds [OF assms encodeIPNet_accepts [OF assms]] encodeIPNet_accepts [OF assms]
  by (simp add: appended_def added_def element_def)

lemma encodeIP_net: "oid \<in> {InetOid, CidrOid} \<Longrightarrow> encodeIP af ip oid w = encodeIPNet af (host_net ip) oid w"
  by (auto simp: encodeIP_def host_net_def)

lemma put_addresses_adds:
  assumes "put_addresses enc xs w = Some w'" and "\<And>x w e w'. enc x w = Some (e, w') \<Longrightarrow> wb_buf w' = wb_buf w @ g x"
  shows "wb_buf w' = wb_buf w @ concat (map g xs)"
  using assms(1) by (induction xs arbitrary: w) (auto simp: assms(2) split: option.splits prod.splits)

lemma sizes_word: "foldl (\<lambda>size n. size + (4 + 4 + word_of_nat n)) k lens = (k :: 32 word) + word_of_nat (\<Sum>n\<leftarrow>lens. 8 + n)"
  by (induction lens arbitrary: k) (simp_all add: algebra_simps)

lemma inet_header_adds:
  "wb_buf (inet_header el lens w) = wb_buf w @ be32 (word_of_nat (20 + (\<Sum>n\<leftarrow>lens. 8 + n))) @ array_header el (length lens)"
  by (simp add: inet_header_def array_header_def write_defs sizes_word [simplified])

lemma inet_element_oids: "inet_element oid = Some el \<Longrightarrow> oid \<in> {InetArrayOid, CidrArrayOid} \<and> el \<in> {InetOid, CidrOid}"
  by (auto simp: inet_element_def split: if_splits)

lemma encodeIPNetSlice_adds:
  assumes "encodeIPNetSlice af vs oid w = Some (None, w')"
  shows "\<exists>el. oid \<in> {InetArrayOid, CidrArrayOid} \<and> wb_buf w' = wb_buf w @
    be32 (word_of_nat (20 + (\<Sum>v\<leftarrow>vs. 8 + length (ip_IP v)))) @ array_header el (length vs) @ concat (map (added af) vs)"
proof -
  obtain el where el: "inet_element oid = Some el"
    and put: "put_addresses (\<lambda>v. encodeIPNet af v el) vs (inet_header el (map (length \<circ> ip_IP) vs) w) = Some w'"
    using assms by (auto simp: encodeIPNetSlice_def split: option.splits)
  have "wb_buf w' = wb_buf (inet_header el (map (length \<circ> ip_IP) vs) w) @ concat (map (added af) vs)"
    by (rule put_addresses_adds [OF put]) (use inet_element_oids [OF el] encodeIPNet_adds in blast)
  with inet_element_oids [OF el] show ?thesis by (auto simp: inet_header_adds comp_def)
qed

lemma encodeIPSlice_nets: "encodeIPSlice af ips oid w = encodeIPNetSlice af (map host_net ips) oid w"
proof -
  have "put_addresses (\<lambda>v. encodeIP af v el) ips w = put_addresses (\<lambda>v. encodeIPNet af v el) (map host_net ips) w"
    if "el \<in> {InetOid, CidrOid}" for el w
    by (induction ips arbitrary: w) (simp_all add: encodeIP_net [OF that] split: option.split)
  then show ?thesis
    using inet_element_oids by (auto simp: encodeIPSlice_def encodeIPNetSlice_def host_net_def comp_def split: option.split)
qed

section \<open>Addresses read back\<close>

text \<open>An address with a mask that is the prefix of some length.\<close>

definition good_net :: "IPNet \<Rightarrow> bool" where
  "good_net v \<longleftrightarrow> address_ok (ip_IP v) \<and> (\<exists>ones \<le> length (ip_IP v) * 8. ip_Mask v = CIDRMask ones (length (ip_IP v) * 8))"

lemma good_net_mask:
  assumes "good_net v"
  shows "CIDRMask (unat (word_of_nat (fst (Mask_Size (ip_Mask v))) :: byte)) (length (ip_IP v) * 8) = ip_Mask v"
proof -
  obtain ones where o: "ones \<le> length (ip_IP v) * 8" "ip_Mask v = CIDRMask ones (length (ip_IP v) * 8)" "length (ip_IP v) * 8 \<in> {32, 128}"
    using assms by (auto simp: good_net_def address_ok_def)
  then have "fst (Mask_Size (ip_Mask v)) = ones" "ones < 256" by (auto simp: Mask_Size_CIDRMask)
  then show ?thesis using o(2) by (simp add: unat_of_nat take_bit_nat_eq_self)
qed

lemma read_inet_at:
  assumes good: "good_net v" and at: "vr_at vr (net_body af v @ c) tail rest"
  shows "\<exists>vr'. read_inet vr = Some (v, vr') \<and> vr_at vr' c tail rest \<and> vr_fd vr' = vr_fd vr"
proof -
  let ?n = "word_of_nat (length (ip_IP v)) :: byte" and ?b = "word_of_nat (fst (Mask_Size (ip_Mask v))) :: byte"
  have len: "length (ip_IP v) = 4 \<or> length (ip_IP v) = 16" using good by (simp add: good_net_def address_ok_def)
  then have n: "unat ?n = length (ip_IP v)" "(ucast ?n :: 32 word) = word_of_nat (length (ip_IP v))" by auto
  have at0: "vr_at vr (family_of af (ip_IP v) # ?b # 0 # ?n # ip_IP v @ c) tail rest" using at by (simp add: net_body_def)
  obtain v1 where v1: "vr_ReadByte vr = (family_of af (ip_IP v), v1)" "vr_fd v1 = vr_fd vr" and at1: "vr_at v1 (?b # 0 # ?n # ip_IP v @ c) tail rest"
    using vr_ReadByte_at [OF at0] by blast
  obtain v2 where v2: "vr_ReadByte v1 = (?b, v2)" "vr_fd v2 = vr_fd vr" and at2: "vr_at v2 (0 # ?n # ip_IP v @ c) tail rest"
    using vr_ReadByte_at [OF at1] v1 by auto
  obtain v3 where v3: "vr_ReadByte v2 = (0, v3)" "vr_fd v3 = vr_fd vr" and at3: "vr_at v3 (?n # ip_IP v @ c) tail rest"
    using vr_ReadByte_at [OF at2] v2 by auto
  obtain v4 where v4: "vr_ReadByte v3 = (?n, v4)" "vr_fd v4 = vr_fd vr" and at4: "vr_at v4 (ip_IP v @ c) tail rest"
    using vr_ReadByte_at [OF at3] v3 by auto
  obtain v5 where v5: "vr_ReadBytes (ucast ?n) v4 = Some (ip_IP v, v5)" "vr_fd v5 = vr_fd vr" "vr_at v5 c tail rest"
    using vr_ReadBytes_at [OF at4 n(2)] v4 by auto
  show ?thesis
    using v1(1) v2(1) v3(1) v4(1) v5 n(1) good_net_mask [OF good] by (simp add: read_inet_def)
qed

interpretation inets: element_codec
    "\<lambda>elSize vr. if elSize = - 1 then Some (Inl ''Cannot decode null element'', vr) else map_option (map_prod Inr id) (read_inet vr)"
    "net_body af" good_net for af
proof
  fix v vr c tail rest assume good: "good_net v" and at: "vr_at vr (net_body af v @ c) tail rest"
  show "\<exists>vr'. (if word_of_nat (length (net_body af v)) = (- 1 :: 32 word) then Some (Inl ''Cannot decode null element'', vr)
      else map_option (map_prod Inr id) (read_inet vr)) = Some (Inr v, vr') \<and> vr_at vr' c tail rest \<and> vr_fd vr' = vr_fd vr"
    using read_inet_at [OF good at] word_of_nat_not_minus1 [of "length (net_body af v)"] vr_at_size [OF at] by auto
qed

lemma added_length: "length (added af v) \<le> 8 + length (ip_IP v)" "\<not> address_ok (ip_IP v) \<Longrightarrow> length (added af v) < 8 + length (ip_IP v)"
  by (simp_all add: added_def element_def net_body_def)

lemma added_less:
  "list_ex (\<lambda>v. \<not> address_ok (ip_IP v)) vs \<Longrightarrow> length (concat (map (added af) vs)) < (\<Sum>v\<leftarrow>vs. 8 + length (ip_IP v))"
proof (induction vs)
  case (Cons v vs)
  have le: "length (concat (map (added af) vs)) \<le> (\<Sum>v\<leftarrow>vs. 8 + length (ip_IP v))"
    by (induction vs) (use added_length(1) in \<open>auto intro: add_mono\<close>)
  show ?case
  proof (cases "address_ok (ip_IP v)")
    case True
    with Cons added_length(1) [of af v] show ?thesis by simp
  next
    case False
    with le added_length(2) [of v af] show ?thesis by simp
  qed
qed simp

section \<open>Properties\<close>

text \<open>
  An address with a prefix mask, of either family, that is written to a column is read back with its mask.
\<close>

theorem inet_roundtrip:
  assumes enc: "encodeIPNet af v oid w = Some (None, w')" and good: "good_net v"
  shows "\<exists>body. appended w body w' \<and>
    (\<forall>vr tail rest. vr_at vr body tail rest \<and> fd_DataType (vr_fd vr) = oid \<and> fd_FormatCode (vr_fd vr) = BinaryFormatCode \<longrightarrow>
       (\<exists>vr'. decodeInet vr = Some (v, vr') \<and> vr_at vr' [] tail rest))"
proof -
  have "\<exists>vr'. decodeInet vr = Some (v, vr') \<and> vr_at vr' [] tail rest"
    if vr: "vr_at vr (net_body af v) tail rest" "fd_DataType (vr_fd vr) = oid" "fd_FormatCode (vr_fd vr) = BinaryFormatCode" for vr tail rest
  proof -
    have "vr_Len vr = 8 \<or> vr_Len vr = 20"
      using good vr_at_Len [OF vr(1)] by (auto simp: good_net_def address_ok_def net_body_def)
    moreover obtain vr' where "read_inet vr = Some (v, vr')" "vr_at vr' [] tail rest"
      using read_inet_at [OF good, of vr af "[]"] vr(1) by auto
    ultimately show ?thesis
      using vr encodeIPNet_accepts [OF enc] by (auto simp: decodeInet_def)
  qed
  then show ?thesis using encodeIPNet_appended [OF enc] by blast
qed

definition loopback :: IPNet where
  "loopback = \<lparr>ip_IP = [127, 0, 0, 1], ip_Mask = [0xFF, 0, 0, 0]\<rparr>"

lemma loopback_good: "good_net loopback"
proof -
  have "CIDRMask 8 32 = [0xFF, 0, 0, 0]" by code_simp
  then have "\<exists>ones \<le> length (ip_IP loopback) * 8. ip_Mask loopback = CIDRMask ones (length (ip_IP loopback) * 8)"
    by (intro exI [of _ 8]) (simp add: loopback_def)
  then show ?thesis by (simp add: good_net_def address_ok_def loopback_def)
qed

theorem inet_roundtrip_witness:
  "\<exists>body vr'. decodeInet (value_reader InetOid body) = Some (loopback, vr') \<and> length body = 8"
proof -
  let ?w = "newWriteBuf 66"
  obtain w' where enc: "encodeIPNet \<lparr>pgsql_af_inet = Some 2, pgsql_af_inet6 = Some 3\<rparr> loopback InetOid ?w = Some (None, w')"
    by (simp add: encodeIPNet_def loopback_def)
  from inet_roundtrip [OF this loopback_good] obtain body where body: "appended ?w body w'"
    and dec: "\<forall>vr tail rest. vr_at vr body tail rest \<and> fd_DataType (vr_fd vr) = InetOid \<and> fd_FormatCode (vr_fd vr) = BinaryFormatCode \<longrightarrow>
      (\<exists>vr'. decodeInet vr = Some (loopback, vr') \<and> vr_at vr' [] tail rest)" by blast
  have "length (wb_buf w') = length (wb_buf ?w) + 12"
    using enc by (auto simp: encodeIPNet_def loopback_def write_defs)
  then have "length body = 8" using body by (simp add: appended_def)
  then show ?thesis using dec value_reader_at [of body InetOid] by fastforce
qed

theorem inet_slice_roundtrip:
  assumes enc: "encodeIPNetSlice af vs oid w = Some (None, w')" and good: "list_all good_net vs"
  shows "\<exists>body. appended w body w' \<and>
    (\<forall>vr tail rest. vr_at vr body tail rest \<and> fd_DataType (vr_fd vr) = oid \<and> fd_FormatCode (vr_fd vr) = BinaryFormatCode \<longrightarrow>
       (\<exists>vr'. decodeInetArray vr = Some (vs, vr') \<and> vr_at vr' [] tail rest))"
proof -
  obtain el where oid: "oid \<in> {InetArrayOid, CidrArrayOid}" and w': "wb_buf w' = wb_buf w @
      be32 (word_of_nat (20 + (\<Sum>v\<leftarrow>vs. 8 + length (ip_IP v)))) @ array_header el (length vs) @ concat (map (added af) vs)"
    using encodeIPNetSlice_adds [OF enc] by blast
  have "concat (map (added af) vs) = concat (map (element (net_body af)) vs)"
    using good by (intro arg_cong [where f = concat] map_cong) (auto simp: added_def good_net_def list_all_iff)
  moreover have "20 + (\<Sum>v\<leftarrow>vs. 8 + length (ip_IP v)) = 20 + length (concat (map (element (net_body af)) vs))"
    by (simp add: length_elements_sum net_body_def)
  ultimately have "appended w (array_body el (net_body af) vs) w'"
    using sized_array_appended w' by metis
  moreover have "\<exists>vr'. decodeInetArray vr = Some (vs, vr') \<and> vr_at vr' [] tail rest"
    if "vr_at vr (array_body el (net_body af) vs) tail rest \<and> fd_DataType (vr_fd vr) = oid \<and> fd_FormatCode (vr_fd vr) = BinaryFormatCode"
    for vr tail rest
    using inets.decode_array_at [OF good, of vr el af tail rest "{InetArrayOid, CidrArrayOid}"] that oid
    by (simp add: decodeInetArray_def array_body_def)
  ultimately show ?thesis by blast
qed

text \<open>
  The slices drop the errors of their addresses: with an address that has neither of the two lengths the slice is
  accepted, but the size it announces is larger than what follows it, so that the server takes the missing bytes from the
  rest of the message.
\<close>

theorem bad_address_breaks_slice:
  assumes enc: "encodeIPNetSlice af vs oid w = Some (None, w')" and bad: "list_ex (\<lambda>v. \<not> address_ok (ip_IP v)) vs"
    and size: "20 + (\<Sum>v\<leftarrow>vs. 8 + length (ip_IP v)) < 2 ^ 32"
  shows "\<nexists>body. appended w body w'"
proof
  obtain el where w': "wb_buf w' = wb_buf w @
      be32 (word_of_nat (20 + (\<Sum>v\<leftarrow>vs. 8 + length (ip_IP v)))) @ array_header el (length vs) @ concat (map (added af) vs)"
    using encodeIPNetSlice_adds [OF enc] by blast
  assume "\<exists>body. appended w body w'"
  then obtain body where "be32 (word_of_nat (length body)) @ body =
      be32 (word_of_nat (20 + (\<Sum>v\<leftarrow>vs. 8 + length (ip_IP v)))) @ array_header el (length vs) @ concat (map (added af) vs)"
    using w' by (auto simp: appended_def)
  then have "be32 (word_of_nat (length body)) = be32 (word_of_nat (20 + (\<Sum>v\<leftarrow>vs. 8 + length (ip_IP v))))"
    and "body = array_header el (length vs) @ concat (map (added af) vs)"
    by (metis append_eq_append_conv length_be32)+
  then have "(word_of_nat (20 + length (concat (map (added af) vs))) :: 32 word) = word_of_nat (20 + (\<Sum>v\<leftarrow>vs. 8 + length (ip_IP v)))"
    by (metis be_word_be32 length_append length_array_header)
  moreover have "(word_of_nat a :: 32 word) \<noteq> word_of_nat b" if "a < b" "b < 2 ^ 32" for a b
    using that by (simp add: word_of_nat_eq_iff take_bit_nat_eq_self)
  ultimately show False using added_less [OF bad, of af] size by (metis nat_add_left_cancel_less)
qed

theorem bad_address_breaks_slice_witness:
  "\<exists>w'. encodeIPNetSlice \<lparr>pgsql_af_inet = Some 2, pgsql_af_inet6 = Some 3\<rparr> [loopback, zero_IPNet] InetArrayOid (newWriteBuf 66) = Some (None, w') \<and>
     (\<nexists>body. appended (newWriteBuf 66) body w')"
proof -
  obtain w' where "encodeIPNetSlice \<lparr>pgsql_af_inet = Some 2, pgsql_af_inet6 = Some 3\<rparr> [loopback, zero_IPNet] InetArrayOid (newWriteBuf 66) = Some (None, w')"
    by (simp add: encodeIPNetSlice_def inet_element_def encodeIPNet_def loopback_def zero_IPNet_def)
  with bad_address_breaks_slice [OF this] show ?thesis by (auto simp: loopback_def zero_IPNet_def address_ok_def)
qed

end
