(* ===== verification/Pgx_Kinds.thy ===== *)
theory Pgx_Kinds
  imports Pgx_Floats Pgx_Times Pgx_Inet
begin

text \<open>
  \<open>Encode\<close> and \<open>Decode\<close> of \<open>pgx/values.go\<close> for the types that \<open>Pgx_Values\<close> leaves out: floating point numbers, times and network addresses.
  The JSON text of such a value is the standard library's and a parameter.
\<close>

section \<open>Dispatch\<close>

datatype rest_val =
    VFloat32 float32 | VFloat32s "float32 list" | VFloat64 float64 | VFloat64s "float64 list" | VTime Time | VTimes "Time list"
  | VIP bytes | VIPs "bytes list" | VIPNet IPNet | VIPNets "IPNet list"

datatype rest_type = GFloat32 | GFloat32s | GFloat64 | GFloat64s | GTime | GTimes | GIP | GIPs | GIPNet | GIPNets

fun encode_rest_kind :: "af_constants \<Rightarrow> rest_val \<Rightarrow> inet_encoder" where
  "encode_rest_kind af (VFloat32 v) oid w = Some (encodeFloat32 v oid w)"
| "encode_rest_kind af (VFloat32s v) oid w = Some (encodeFloat32Slice v oid w)"
| "encode_rest_kind af (VFloat64 v) oid w = Some (encodeFloat64 v oid w)"
| "encode_rest_kind af (VFloat64s v) oid w = Some (encodeFloat64Slice v oid w)"
| "encode_rest_kind af (VTime v) oid w = Some (encodeTime v oid w)"
| "encode_rest_kind af (VTimes v) oid w = Some (encodeTimeSlice v oid w)"
| "encode_rest_kind af (VIP v) oid w = encodeIP af v oid w"
| "encode_rest_kind af (VIPs v) oid w = encodeIPSlice af v oid w"
| "encode_rest_kind af (VIPNet v) oid w = encodeIPNet af v oid w"
| "encode_rest_kind af (VIPNets v) oid w = encodeIPNetSlice af v oid w"

definition Encode_rest :: "(rest_val \<Rightarrow> string option) \<Rightarrow> af_constants \<Rightarrow> rest_val \<Rightarrow> inet_encoder" where
  "Encode_rest marshal af v oid w =
     (if oid = JsonOid \<or> oid = JsonbOid then
        (case marshal v of
           None \<Rightarrow> Some (Some JsonFailed, w)
         | Some s \<Rightarrow> Some (None, WriteBytes (bytes_of_string s) (WriteInt32 (word_of_nat (length s)) w)))
      else encode_rest_kind af v oid w)"

type_synonym decoded_rest = "((dec_error option \<times> rest_val option) \<times> ValueReader) option"

definition stored_rest :: "('a \<Rightarrow> rest_val) \<Rightarrow> ('a \<times> ValueReader) option \<Rightarrow> decoded_rest" where
  "stored_rest mk r = map_option (\<lambda>(x, vr). ((None, Some (mk x)), vr)) r"

definition result_rest :: "('a \<Rightarrow> rest_val) \<Rightarrow> ((dec_error, 'a) result \<times> ValueReader) option \<Rightarrow> decoded_rest" where
  "result_rest mk r = map_option (\<lambda>(x, vr). (case x of Inl e \<Rightarrow> (Some e, None) | Inr x \<Rightarrow> (None, Some (mk x)), vr)) r"

fun Decode_rest :: "zone \<Rightarrow> rest_type \<Rightarrow> ValueReader \<Rightarrow> decoded_rest" where
  "Decode_rest local GFloat32 vr = stored_rest VFloat32 (Some (decodeFloat4 vr))"
| "Decode_rest local GFloat64 vr = stored_rest VFloat64 (Some (decodeFloat8 vr))"
| "Decode_rest local GFloat32s vr = stored_rest VFloat32s (decodeFloat4Array vr)"
| "Decode_rest local GFloat64s vr = stored_rest VFloat64s (decodeFloat8Array vr)"
| "Decode_rest local GTimes vr = stored_rest VTimes (decodeTimestampArray local vr)"
| "Decode_rest local GTime vr = result_rest VTime (Some (Decode_Time local vr))"
| "Decode_rest local GIP vr = result_rest VIP (Decode_IP vr)"
| "Decode_rest local GIPs vr = result_rest VIPs (Decode_IPs vr)"
| "Decode_rest local GIPNet vr = stored_rest VIPNet (decodeInet vr)"
| "Decode_rest local GIPNets vr = stored_rest VIPNets (decodeInetArray vr)"

section \<open>Values read back\<close>

text \<open>The type to read a value into: its own, but for a single precision number in a double precision column.\<close>

fun rest_dest :: "Oid \<Rightarrow> rest_val \<Rightarrow> rest_type" where
  "rest_dest oid (VFloat32 _) = (if oid = Float8Oid then GFloat64 else GFloat32)"
| "rest_dest oid (VFloat32s _) = GFloat32s"
| "rest_dest oid (VFloat64 _) = GFloat64"
| "rest_dest oid (VFloat64s _) = GFloat64s"
| "rest_dest oid (VTime _) = GTime"
| "rest_dest oid (VTimes _) = GTimes"
| "rest_dest oid (VIP _) = GIP"
| "rest_dest oid (VIPs _) = GIPs"
| "rest_dest oid (VIPNet _) = GIPNet"
| "rest_dest oid (VIPNets _) = GIPNets"

text \<open>What a column can hold of a value.\<close>

fun rest_fits :: "zone \<Rightarrow> Oid \<Rightarrow> rest_val \<Rightarrow> bool" where
  "rest_fits local oid (VTime t) = time_ok local oid t"
| "rest_fits local oid (VTimes ts) = list_all (exact local) ts"
| "rest_fits local oid (VIPs ips) = list_all address_ok ips"
| "rest_fits local oid (VIPNet v) = good_net v"
| "rest_fits local oid (VIPNets vs) = list_all good_net vs"
| "rest_fits local oid _ = True"

definition same_number :: "float32 \<Rightarrow> float64 \<Rightarrow> bool" where
  "same_number a b \<longleftrightarrow>
     (if expo32 a = 255 then expo64 b = 2047 \<and> sign64 b = sign32 a \<and> (frac64 b = 0 \<longleftrightarrow> frac32 a = 0)
      else expo64 b < 2047 \<and> units64 b = units32 a * 2 ^ 925)"

fun rest_arrives :: "zone \<Rightarrow> Oid \<Rightarrow> rest_val \<Rightarrow> rest_val \<Rightarrow> bool" where
  "rest_arrives local oid (VFloat32 a) v' = (if oid = Float8Oid then \<exists>b. v' = VFloat64 b \<and> same_number a b else v' = VFloat32 a)"
| "rest_arrives local oid (VTime t) v' =
     (\<exists>t'. v' = VTime t' \<and>
        (if oid = DateOid then civil_day t' = civil_day t \<and> t_nsec t' = 0 \<and> t_loc t' = local else t' = to_micro local t))"
| "rest_arrives local oid v v' = (v' = v)"

definition on_column :: "ValueReader \<Rightarrow> Oid \<Rightarrow> bytes \<Rightarrow> bytes \<Rightarrow> bytes \<Rightarrow> bool" where
  "on_column vr oid body tail rest \<longleftrightarrow> vr_at vr body tail rest \<and> fd_DataType (vr_fd vr) = oid \<and> fd_FormatCode (vr_fd vr) = BinaryFormatCode"

definition comes_back :: "zone \<Rightarrow> Oid \<Rightarrow> rest_val \<Rightarrow> bytes \<Rightarrow> bool" where
  "comes_back local oid v body \<longleftrightarrow>
     (\<exists>v'. rest_arrives local oid v v' \<and>
       (\<forall>vr tail rest. on_column vr oid body tail rest \<longrightarrow>
          (\<exists>vr'. Decode_rest local (rest_dest oid v) vr = Some ((None, Some v'), vr') \<and> vr_at vr' [] tail rest)))"

lemma widen_same_number: "same_number a (widen a)"
  using widen_finite [of a] widen_special [of a] by (simp add: same_number_def)

lemma host_net_good: "address_ok ip \<Longrightarrow> good_net (host_net ip) \<and> host_mask (host_net ip)"
  by (auto simp: good_net_def host_net_def address_ok_def host_mask_def Mask_Size_CIDRMask)

lemma floats_come_back:
  "encodeFloat32 a oid w = (None, w') \<Longrightarrow> \<exists>body. appended w body w' \<and> comes_back local oid (VFloat32 a) body"
  "encodeFloat64 b oid w = (None, w') \<Longrightarrow> \<exists>body. appended w body w' \<and> comes_back local oid (VFloat64 b) body"
  "encodeFloat32Slice as oid w = (None, w') \<Longrightarrow> \<exists>body. appended w body w' \<and> comes_back local oid (VFloat32s as) body"
  "encodeFloat64Slice bs oid w = (None, w') \<Longrightarrow> \<exists>body. appended w body w' \<and> comes_back local oid (VFloat64s bs) body"
proof -
  assume "encodeFloat32 a oid w = (None, w')"
  then consider "oid = Float4Oid" "appended w (be32 a) w'" | "oid = Float8Oid" "appended w (be64 (widen a)) w'"
    using encodeFloat32_appended by blast
  then show "\<exists>body. appended w body w' \<and> comes_back local oid (VFloat32 a) body"
  proof cases
    case 1
    moreover have "Float4Oid \<noteq> Float8Oid" by (simp add: float_oids)
    ultimately show ?thesis
      using decodeFloat4_at [of _ a] by (intro exI [of _ "be32 a"]) (fastforce simp: comes_back_def on_column_def stored_rest_def)
  next
    case 2
    then show ?thesis using decodeFloat8_at [of _ "widen a"] widen_same_number [of a]
      by (intro exI [of _ "be64 (widen a)"]) (fastforce simp: comes_back_def on_column_def stored_rest_def)
  qed
next
  assume "encodeFloat64 b oid w = (None, w')"
  then show "\<exists>body. appended w body w' \<and> comes_back local oid (VFloat64 b) body"
    using encodeFloat64_appended decodeFloat8_at [of _ b]
    by (intro exI [of _ "be64 b"]) (fastforce simp: comes_back_def on_column_def stored_rest_def)
next
  assume "encodeFloat32Slice as oid w = (None, w')"
  moreover have "\<exists>vr'. decodeFloat4Array vr = Some (as, vr') \<and> vr_at vr' [] tail rest"
    if "on_column vr Float4ArrayOid (array_body Float4Oid be32 as) tail rest" for vr tail rest
    using int4s.decode_array_at [of as vr Float4Oid tail rest "{Float4ArrayOid}"] that
    by (simp add: decodeFloat4Array_def on_column_def array_body_def list_all_iff)
  ultimately show "\<exists>body. appended w body w' \<and> comes_back local oid (VFloat32s as) body"
    using float_slices_appended(1) by (intro exI [of _ "array_body Float4Oid be32 as"]) (fastforce simp: comes_back_def stored_rest_def)
next
  assume "encodeFloat64Slice bs oid w = (None, w')"
  moreover have "\<exists>vr'. decodeFloat8Array vr = Some (bs, vr') \<and> vr_at vr' [] tail rest"
    if "on_column vr Float8ArrayOid (array_body Float8Oid be64 bs) tail rest" for vr tail rest
    using int8s.decode_array_at [of bs vr Float8Oid tail rest "{Float8ArrayOid}"] that
    by (simp add: decodeFloat8Array_def on_column_def array_body_def list_all_iff)
  ultimately show "\<exists>body. appended w body w' \<and> comes_back local oid (VFloat64s bs) body"
    using float_slices_appended(2) by (intro exI [of _ "array_body Float8Oid be64 bs"]) (fastforce simp: comes_back_def stored_rest_def)
qed

text \<open>A value whose decoder yields it again.\<close>

lemma comes_backI:
  assumes "rest_arrives local oid v v'"
    and "\<And>vr tail rest. vr_at vr body tail rest \<and> fd_DataType (vr_fd vr) = oid \<and> fd_FormatCode (vr_fd vr) = BinaryFormatCode \<Longrightarrow>
      \<exists>vr'. Decode_rest local (rest_dest oid v) vr = Some ((None, Some v'), vr') \<and> vr_at vr' [] tail rest"
  shows "comes_back local oid v body"
  unfolding comes_back_def on_column_def using assms by blast

lemma time_comes_back:
  assumes "encodeTime t oid w = (None, w')" and "time_ok local oid t"
  shows "\<exists>body. appended w body w' \<and> comes_back local oid (VTime t) body"
proof -
  obtain body t' where "appended w body w'" and
    t': "if oid = DateOid then civil_day t' = civil_day t \<and> t_nsec t' = 0 \<and> t_loc t' = local else t' = to_micro local t" and
    dec: "\<forall>vr tail rest. vr_at vr body tail rest \<and> fd_DataType (vr_fd vr) = oid \<and> fd_FormatCode (vr_fd vr) = BinaryFormatCode \<longrightarrow>
      (\<exists>vr'. Decode_Time local vr = (Inr t', vr') \<and> vr_at vr' [] tail rest)"
    using time_roundtrip [OF assms] by blast
  moreover have "comes_back local oid (VTime t) body"
    by (rule comes_backI [where v' = "VTime t'"]) (use t' dec in \<open>fastforce simp: result_rest_def\<close>)+
  ultimately show ?thesis by blast
qed

lemma times_come_back:
  assumes "encodeTimeSlice ts oid w = (None, w')" and "list_all (exact local) ts"
  shows "\<exists>body. appended w body w' \<and> comes_back local oid (VTimes ts) body"
proof -
  obtain body where "appended w body w'" and
    dec: "\<forall>vr tail rest. vr_at vr body tail rest \<and> fd_DataType (vr_fd vr) = oid \<and> fd_FormatCode (vr_fd vr) = BinaryFormatCode \<longrightarrow>
      (\<exists>vr'. decodeTimestampArray local vr = Some (ts, vr') \<and> vr_at vr' [] tail rest)"
    using times_roundtrip [OF assms] by blast
  moreover have "comes_back local oid (VTimes ts) body"
    by (rule comes_backI [where v' = "VTimes ts"]) (use dec in \<open>fastforce simp: stored_rest_def\<close>)+
  ultimately show ?thesis by blast
qed

lemma net_comes_back:
  assumes "encodeIPNet af v oid w = Some (None, w')" and "good_net v"
  shows "\<exists>body. appended w body w' \<and> comes_back local oid (VIPNet v) body \<and>
    (host_mask v \<longrightarrow> comes_back local oid (VIP (ip_IP v)) body)"
proof -
  obtain body where "appended w body w'" and
    dec: "\<forall>vr tail rest. vr_at vr body tail rest \<and> fd_DataType (vr_fd vr) = oid \<and> fd_FormatCode (vr_fd vr) = BinaryFormatCode \<longrightarrow>
      (\<exists>vr'. decodeInet vr = Some (v, vr') \<and> vr_at vr' [] tail rest)"
    using inet_roundtrip [OF assms] by blast
  moreover have "comes_back local oid (VIPNet v) body"
    by (rule comes_backI [where v' = "VIPNet v"]) (use dec in \<open>fastforce simp: stored_rest_def\<close>)+
  moreover have "comes_back local oid (VIP (ip_IP v)) body" if "host_mask v"
    by (rule comes_backI [where v' = "VIP (ip_IP v)"]) (use dec that in \<open>fastforce simp: result_rest_def Decode_IP_def\<close>)+
  ultimately show ?thesis by blast
qed

lemma nets_come_back:
  assumes "encodeIPNetSlice af vs oid w = Some (None, w')" and "list_all good_net vs"
  shows "\<exists>body. appended w body w' \<and> comes_back local oid (VIPNets vs) body \<and>
    (list_all host_mask vs \<longrightarrow> comes_back local oid (VIPs (map ip_IP vs)) body)"
proof -
  obtain body where "appended w body w'" and
    dec: "\<forall>vr tail rest. vr_at vr body tail rest \<and> fd_DataType (vr_fd vr) = oid \<and> fd_FormatCode (vr_fd vr) = BinaryFormatCode \<longrightarrow>
      (\<exists>vr'. decodeInetArray vr = Some (vs, vr') \<and> vr_at vr' [] tail rest)"
    using inet_slice_roundtrip [OF assms] by blast
  moreover have "comes_back local oid (VIPNets vs) body"
    by (rule comes_backI [where v' = "VIPNets vs"]) (use dec in \<open>fastforce simp: stored_rest_def\<close>)+
  moreover have "comes_back local oid (VIPs (map ip_IP vs)) body" if "list_all host_mask vs"
    by (rule comes_backI [where v' = "VIPs (map ip_IP vs)"])
      (use dec that in \<open>fastforce simp: result_rest_def Decode_IPs_def list_ex_iff list_all_iff\<close>)+
  ultimately show ?thesis by blast
qed

section \<open>Properties\<close>



end
