(* ===== verification/Pgx_Conn.thy ===== *)
theory Pgx_Conn
  imports Pgx_Values "HOL-Library.AList"
begin

text \<open>
  \<open>pgx/conn.go\<close> and the rows of \<open>pgx/query.go\<close>: one connection to the server. The bytes the
  server will send are the input of the connection's message reader, and they end when the server
  closes the connection; what the client writes is collected in \<open>c_out\<close>, unless the link is
  broken. Every loop that reads messages ends because each message takes at least five bytes of
  the input. Logging is left out.
\<close>

section \<open>State\<close>

record PgError =
  pe_Severity :: string
  pe_Code :: string
  pe_Message :: string
  pe_Detail :: string
  pe_Hint :: string
  pe_Position :: "32 word"
  pe_InternalPosition :: "32 word"
  pe_InternalQuery :: string
  pe_Where :: string
  pe_SchemaName :: string
  pe_TableName :: string
  pe_ColumnName :: string
  pe_DataTypeName :: string
  pe_ConstraintName :: string
  pe_File :: string
  pe_Line :: "32 word"
  pe_Routine :: string

datatype pgx_error =
    PgErr PgError
  | MrErr mr_error
  | ErrDeadConn
  | ErrConnBusy
  | ErrNotBusy
  | ErrNoRows
  | WriteErr
  | Closed
  | UnknownMsg byte
  | UnknownAuth
  | TooManyParameters
  | WrongParameters
  | EncodeErr enc_error
  | ScanFailed mr_error
  | RowProtocol string
  | PoolErr string
  | ErrTLSRefused
  | ErrNotificationTimeout
  | NetErr string

record PgType =
  pt_Name :: string
  pt_DefaultFormat :: "16 word"

record PreparedStatement =
  ps_Name :: string
  ps_SQL :: string
  ps_FieldDescriptions :: "FieldDescription list"
  ps_ParameterOids :: "Oid list"

record Notification =
  n_Pid :: "32 word"
  n_Channel :: string
  n_Payload :: string

record ConnConfig =
  cc_Host :: string
  cc_Port :: "16 word"
  cc_Database :: string
  cc_User :: string
  cc_Password :: string
  cc_RuntimeParams :: "(string \<times> string) list"

record Conn =
  c_mr :: msgReader
  c_out :: bytes
  c_broken :: bool
  c_Pid :: "32 word"
  c_SecretKey :: "32 word"
  c_RuntimeParams :: "string \<rightharpoonup> string"
  c_PgTypes :: "Oid \<rightharpoonup> PgType"
  c_config :: ConnConfig
  c_TxStatus :: byte
  c_preparedStatements :: "string \<rightharpoonup> PreparedStatement"
  c_channels :: "string list"
  c_notifications :: "Notification list"
  c_alive :: bool
  c_causeOfDeath :: "pgx_error option"
  c_busy :: bool
  c_poolResetCount :: int

definition backendKeyData :: byte where "backendKeyData = byte_of_char CHR ''K''"
definition authenticationX :: byte where "authenticationX = byte_of_char CHR ''R''"
definition readyForQuery :: byte where "readyForQuery = byte_of_char CHR ''Z''"
definition rowDescription :: byte where "rowDescription = byte_of_char CHR ''T''"
definition dataRow :: byte where "dataRow = byte_of_char CHR ''D''"
definition commandComplete :: byte where "commandComplete = byte_of_char CHR ''C''"
definition errorResponse :: byte where "errorResponse = byte_of_char CHR ''E''"
definition noticeResponse :: byte where "noticeResponse = byte_of_char CHR ''N''"
definition parseComplete :: byte where "parseComplete = byte_of_char CHR ''1''"
definition parameterDescription :: byte where "parameterDescription = byte_of_char CHR ''t''"
definition bindComplete :: byte where "bindComplete = byte_of_char CHR ''2''"
definition notificationResponse :: byte where "notificationResponse = byte_of_char CHR ''A''"
definition emptyQueryResponse :: byte where "emptyQueryResponse = byte_of_char CHR ''I''"
definition noData :: byte where "noData = byte_of_char CHR ''n''"
definition closeComplete :: byte where "closeComplete = byte_of_char CHR ''3''"

lemmas msg_types = backendKeyData_def authenticationX_def readyForQuery_def rowDescription_def dataRow_def
  commandComplete_def errorResponse_def noticeResponse_def parseComplete_def parameterDescription_def
  bindComplete_def notificationResponse_def emptyQueryResponse_def noData_def closeComplete_def

section \<open>Reading and writing\<close>

text \<open>Reading never puts bytes back.\<close>

lemma take_remaining_input: "mr_input (snd (take_remaining n r)) = mr_input r"
  by (simp add: take_remaining_def fatal_def Let_def)

lemma fill_input: "mr_input (snd (fill n r)) = drop n (mr_input r)"
  by (simp add: fill_def Let_def)

lemma read_word_input: "length (mr_input (snd (read_word n r))) \<le> length (mr_input r)"
  by (auto simp: read_word_def take_remaining_def fill_def fatal_def Let_def split: option.splits bool.splits)

lemma readByte_input:
  "length (mr_input (snd (readByte r))) \<le> length (mr_input r)"
  "fst (readByte r) \<noteq> 0 \<Longrightarrow> length (mr_input (snd (readByte r))) < length (mr_input r)"
  by (cases "mr_err r"; cases "mr_input r"; simp add: readByte_def take_remaining_def fatal_def Let_def split: if_splits)+

lemma readCString_input: "length (mr_input (snd (readCString r))) \<le> length (mr_input r)"
  by (simp add: readCString_def take_remaining_def fatal_def Let_def)

lemma rxMsg_input:
  "length (mr_input (snd (rxMsg r))) \<le> length (mr_input r)"
  "snd (fst (rxMsg r)) = None \<Longrightarrow> length (mr_input (snd (rxMsg r))) + 5 \<le> length (mr_input r)"
  by (auto simp: rxMsg_def fill_def Let_def split: option.splits if_splits)


text \<open>\<open>c.conn.Write\<close>: whether it succeeded.\<close>

definition conn_write :: "bytes \<Rightarrow> Conn \<Rightarrow> bool \<times> Conn" where
  "conn_write b c = (if c_broken c then (False, c) else (True, c\<lparr>c_out := c_out c @ b\<rparr>))"

definition die :: "pgx_error \<Rightarrow> Conn \<Rightarrow> Conn" where
  "die e c = c\<lparr>c_alive := False, c_causeOfDeath := Some e\<rparr>"

definition conn_lock :: "Conn \<Rightarrow> pgx_error option \<times> Conn" where
  "conn_lock c = (if c_busy c then (Some ErrConnBusy, c) else (None, c\<lparr>c_busy := True\<rparr>))"

definition conn_unlock :: "Conn \<Rightarrow> pgx_error option \<times> Conn" where
  "conn_unlock c = (if \<not> c_busy c then (Some ErrNotBusy, c) else (None, c\<lparr>c_busy := False\<rparr>))"

definition IsAlive :: "Conn \<Rightarrow> bool" where
  "IsAlive c = c_alive c"

definition conn_Close :: "Conn \<Rightarrow> pgx_error option \<times> Conn" where
  "conn_Close c =
     (if \<not> IsAlive c then (None, c)
      else case conn_write (wb_buf (closeMsg (newWriteBuf (byte_of_char CHR ''X'')))) c of
             (ok, c) \<Rightarrow> (if ok then None else Some WriteErr, die Closed c))"

definition quoteIdentifier :: "string \<Rightarrow> string" where
  "quoteIdentifier s = [CHR 0x22] @ concat (map (\<lambda>c. if c = CHR 0x22 then [CHR 0x22, CHR 0x22] else [c]) s) @ [CHR 0x22]"

text \<open>\<open>Conn.rxMsg\<close>: the type of the next message, or an error, after which the connection is dead.\<close>

definition conn_rxMsg :: "Conn \<Rightarrow> (byte \<times> pgx_error option) \<times> Conn" where
  "conn_rxMsg c =
     (if \<not> c_alive c then ((0, Some ErrDeadConn), c)
      else case rxMsg (c_mr c) of
             ((t, None), r) \<Rightarrow> ((t, None), c\<lparr>c_mr := r\<rparr>)
           | ((t, Some e), r) \<Rightarrow> ((t, Some (MrErr e)), die (MrErr e) (c\<lparr>c_mr := r\<rparr>)))"

section \<open>Messages of the server\<close>

definition rxParameterStatus :: "Conn \<Rightarrow> Conn" where
  "rxParameterStatus c =
     (case readCString (c_mr c) of
        (key, r) \<Rightarrow>
          (case readCString r of
             (v, r) \<Rightarrow> c\<lparr>c_mr := r, c_RuntimeParams := (c_RuntimeParams c)(key \<mapsto> v)\<rparr>))"

definition zero_PgError :: PgError where
  "zero_PgError = \<lparr>pe_Severity = [], pe_Code = [], pe_Message = [], pe_Detail = [], pe_Hint = [], pe_Position = 0,
     pe_InternalPosition = 0, pe_InternalQuery = [], pe_Where = [], pe_SchemaName = [], pe_TableName = [],
     pe_ColumnName = [], pe_DataTypeName = [], pe_ConstraintName = [], pe_File = [], pe_Line = 0, pe_Routine = []\<rparr>"

text \<open>One field of an error message; an unknown field is read and dropped.\<close>

definition error_field :: "char \<Rightarrow> string \<Rightarrow> PgError \<Rightarrow> PgError" where
  "error_field f s e =
     (if f = CHR ''S'' then e\<lparr>pe_Severity := s\<rparr>
      else if f = CHR ''C'' then e\<lparr>pe_Code := s\<rparr>
      else if f = CHR ''M'' then e\<lparr>pe_Message := s\<rparr>
      else if f = CHR ''D'' then e\<lparr>pe_Detail := s\<rparr>
      else if f = CHR ''H'' then e\<lparr>pe_Hint := s\<rparr>
      else if f = CHR ''P'' then e\<lparr>pe_Position := fst (ParseInt32 s)\<rparr>
      else if f = CHR ''p'' then e\<lparr>pe_InternalPosition := fst (ParseInt32 s)\<rparr>
      else if f = CHR ''q'' then e\<lparr>pe_InternalQuery := s\<rparr>
      else if f = CHR ''W'' then e\<lparr>pe_Where := s\<rparr>
      else if f = CHR ''s'' then e\<lparr>pe_SchemaName := s\<rparr>
      else if f = CHR ''t'' then e\<lparr>pe_TableName := s\<rparr>
      else if f = CHR ''c'' then e\<lparr>pe_ColumnName := s\<rparr>
      else if f = CHR ''d'' then e\<lparr>pe_DataTypeName := s\<rparr>
      else if f = CHR ''n'' then e\<lparr>pe_ConstraintName := s\<rparr>
      else if f = CHR ''F'' then e\<lparr>pe_File := s\<rparr>
      else if f = CHR ''L'' then e\<lparr>pe_Line := fst (ParseInt32 s)\<rparr>
      else if f = CHR ''R'' then e\<lparr>pe_Routine := s\<rparr>
      else e)"

function rxErrorResponse_loop :: "msgReader \<Rightarrow> PgError \<Rightarrow> PgError \<times> msgReader" where
  "rxErrorResponse_loop r e =
     (let fr = readByte r in
      if fst fr = 0 then (e, snd fr)
      else let sr = readCString (snd fr) in rxErrorResponse_loop (snd sr) (error_field (char_of_byte (fst fr)) (fst sr) e))"
  by pat_completeness auto
termination
proof (relation "measure (\<lambda>(r, e). length (mr_input r))", simp)
  fix r e fr sr
  assume "fr = readByte r" "fst fr \<noteq> 0" "sr = readCString (snd fr)"
  then have "length (mr_input (snd sr)) < length (mr_input r)"
    using readByte_input(2) [of r] readCString_input [of "snd fr"] by simp
  then show "((snd sr, error_field (char_of_byte (fst fr)) (fst sr) e), r, e) \<in> measure (\<lambda>(r, e). length (mr_input r))"
    by simp
qed

declare rxErrorResponse_loop.simps [simp del]

definition rxErrorResponse :: "Conn \<Rightarrow> PgError \<times> Conn" where
  "rxErrorResponse c =
     (case rxErrorResponse_loop (c_mr c) zero_PgError of
        (e, r) \<Rightarrow>
          let c = c\<lparr>c_mr := r\<rparr> in
          (e, if pe_Severity e = ''FATAL'' then die (PgErr e) c else c))"

definition rxBackendKeyData :: "Conn \<Rightarrow> Conn" where
  "rxBackendKeyData c =
     (case readInt32 (c_mr c) of
        (pid, r) \<Rightarrow> (case readInt32 r of (k, r) \<Rightarrow> c\<lparr>c_mr := r, c_Pid := pid, c_SecretKey := k\<rparr>))"

definition rxReadyForQuery :: "Conn \<Rightarrow> Conn" where
  "rxReadyForQuery c = (case readByte (c_mr c) of (b, r) \<Rightarrow> c\<lparr>c_mr := r, c_TxStatus := b\<rparr>)"

definition rx_field :: "msgReader \<Rightarrow> FieldDescription \<times> msgReader" where
  "rx_field r =
     (case readCString r of (name, r) \<Rightarrow>
      case readOid r of (table, r) \<Rightarrow>
      case readInt16 r of (attr, r) \<Rightarrow>
      case readOid r of (typ, r) \<Rightarrow>
      case readInt16 r of (sz, r) \<Rightarrow>
      case readInt32 r of (modif, r) \<Rightarrow>
      case readInt16 r of (fc, r) \<Rightarrow>
        (\<lparr>fd_Name = name, fd_Table = table, fd_AttributeNumber = attr, fd_DataType = typ, fd_DataTypeSize = sz,
          fd_DataTypeName = [], fd_Modifier = modif, fd_FormatCode = fc\<rparr>, r))"

fun rx_many :: "(msgReader \<Rightarrow> 'a \<times> msgReader) \<Rightarrow> nat \<Rightarrow> msgReader \<Rightarrow> 'a list \<times> msgReader" where
  "rx_many f 0 r = ([], r)"
| "rx_many f (Suc n) r = (case f r of (x, r) \<Rightarrow> case rx_many f n r of (xs, r) \<Rightarrow> (x # xs, r))"

text \<open>A negative count panics when the slice is made.\<close>

definition rxRowDescription :: "Conn \<Rightarrow> (FieldDescription list \<times> Conn) option" where
  "rxRowDescription c =
     (case readInt16 (c_mr c) of
        (n, r) \<Rightarrow>
          if sint n < 0 then None
          else case rx_many rx_field (nat (sint n)) r of (fs, r) \<Rightarrow> Some (fs, c\<lparr>c_mr := r\<rparr>))"

definition rxParameterDescription :: "Conn \<Rightarrow> (Oid list \<times> Conn) option" where
  "rxParameterDescription c =
     (case readInt16 (c_mr c) of
        (_, r) \<Rightarrow>
          let parameterCount = (if sint (mr_remaining r) < 0 then - (- sint (mr_remaining r) div 4) else sint (mr_remaining r) div 4) in
          if parameterCount < 0 then None
          else case rx_many readOid (nat parameterCount) r of (ps, r) \<Rightarrow> Some (ps, c\<lparr>c_mr := r\<rparr>))"

definition rxNotificationResponse :: "Conn \<Rightarrow> Conn" where
  "rxNotificationResponse c =
     (case readInt32 (c_mr c) of (pid, r) \<Rightarrow>
      case readCString r of (ch, r) \<Rightarrow>
      case readCString r of (p, r) \<Rightarrow>
        c\<lparr>c_mr := r, c_notifications := c_notifications c @ [\<lparr>n_Pid = pid, n_Channel = ch, n_Payload = p\<rparr>]\<rparr>)"

definition processContextFreeMsg :: "byte \<Rightarrow> Conn \<Rightarrow> pgx_error option \<times> Conn" where
  "processContextFreeMsg t c =
     (if t = byte_of_char CHR ''S'' then (None, rxParameterStatus c)
      else if t = errorResponse then (case rxErrorResponse c of (e, c) \<Rightarrow> (Some (PgErr e), c))
      else if t = noticeResponse then (None, c)
      else if t = emptyQueryResponse then (None, c)
      else if t = notificationResponse then (None, rxNotificationResponse c)
      else (Some (UnknownMsg t), c))"

text \<open>The bytes that are left to read, the measure of the message loops.\<close>

abbreviation pending :: "Conn \<Rightarrow> nat" where
  "pending c \<equiv> length (mr_input (c_mr c))"

lemma rxErrorResponse_loop_input: "length (mr_input (snd (rxErrorResponse_loop r e))) \<le> length (mr_input r)"
proof (induction r e rule: rxErrorResponse_loop.induct)
  case (1 r e)
  show ?case
  proof (cases "fst (readByte r) = 0")
    case True
    then show ?thesis using readByte_input(1) [of r] by (subst rxErrorResponse_loop.simps) (simp add: Let_def)
  next
    case False
    then show ?thesis
      using 1 [OF refl False refl] readByte_input(1) [of r] readCString_input [of "snd (readByte r)"]
      by (subst rxErrorResponse_loop.simps) (simp add: Let_def)
  qed
qed

lemma rx_many_input:
  assumes "\<And>r. length (mr_input (snd (f r))) \<le> length (mr_input r)"
  shows "length (mr_input (snd (rx_many f n r))) \<le> length (mr_input r)"
proof (induction n arbitrary: r)
  case (Suc n)
  have "length (mr_input (snd (rx_many f n (snd (f r))))) \<le> length (mr_input r)"
    using Suc [of "snd (f r)"] assms [of r] by linarith
  then show ?case by (simp add: case_prod_beta)
qed simp

lemma rx_field_input: "length (mr_input (snd (rx_field r))) \<le> length (mr_input r)"
proof -
  let ?r1 = "snd (readCString r)"
  let ?r2 = "snd (readOid ?r1)"
  let ?r3 = "snd (readInt16 ?r2)"
  let ?r4 = "snd (readOid ?r3)"
  let ?r5 = "snd (readInt16 ?r4)"
  let ?r6 = "snd (readInt32 ?r5)"
  have "length (mr_input (snd (readInt16 ?r6))) \<le> length (mr_input r)"
    using read_word_input [where 'a = 16, of 2 ?r6] read_word_input [where 'a = 32, of 4 ?r5] read_word_input [where 'a = 16, of 2 ?r4]
      read_word_input [where 'a = 32, of 4 ?r3] read_word_input [where 'a = 16, of 2 ?r2] read_word_input [where 'a = 32, of 4 ?r1]
      readCString_input [of r]
    unfolding readInt16_def readOid_def readInt32_def by linarith
  then show ?thesis by (simp add: rx_field_def case_prod_beta)
qed

lemma readOid_input: "length (mr_input (snd (readOid r))) \<le> length (mr_input r)"
  using read_word_input [where 'a = 32, of 4 r] by (simp add: readOid_def readInt32_def)

lemma conn_rxMsg_input:
  "pending (snd (conn_rxMsg c)) \<le> pending c"
  "snd (fst (conn_rxMsg c)) = None \<Longrightarrow> pending (snd (conn_rxMsg c)) < pending c"
  using rxMsg_input [of "c_mr c"]
  by (auto simp: conn_rxMsg_def die_def split: prod.splits option.splits if_splits)

lemma rx_input:
  "pending (rxParameterStatus c) \<le> pending c"
  "pending (snd (rxErrorResponse c)) \<le> pending c"
  "pending (rxBackendKeyData c) \<le> pending c"
  "pending (rxReadyForQuery c) \<le> pending c"
  "rxRowDescription c = Some (fs, c') \<Longrightarrow> pending c' \<le> pending c"
  "rxParameterDescription c = Some (ps, c') \<Longrightarrow> pending c' \<le> pending c"
  "pending (rxNotificationResponse c) \<le> pending c"
  subgoal
    using readCString_input [of "c_mr c"] readCString_input [of "snd (readCString (c_mr c))"]
    by (simp add: rxParameterStatus_def case_prod_beta)
  subgoal
    using rxErrorResponse_loop_input [of "c_mr c" zero_PgError] by (simp add: rxErrorResponse_def die_def case_prod_beta Let_def)
  subgoal
    using read_word_input [where 'a = 32, of 4 "c_mr c"] read_word_input [where 'a = 32, of 4 "snd (readInt32 (c_mr c))"]
    by (simp add: rxBackendKeyData_def case_prod_beta readInt32_def)
  subgoal
    using readByte_input(1) [of "c_mr c"] by (simp add: rxReadyForQuery_def case_prod_beta)
  subgoal
    using read_word_input [where 'a = 16, of 2 "c_mr c"] rx_many_input [OF rx_field_input, of "nat (sint (fst (readInt16 (c_mr c))))" "snd (readInt16 (c_mr c))"]
    by (auto simp: rxRowDescription_def case_prod_beta readInt16_def split: if_splits)
  subgoal
    using read_word_input [where 'a = 16, of 2 "c_mr c"]
    by (auto simp: rxParameterDescription_def case_prod_beta readInt16_def Let_def split: if_splits
        intro: order_trans [OF rx_many_input [OF readOid_input]])
  subgoal
    using read_word_input [where 'a = 32, of 4 "c_mr c"] readCString_input [of "snd (readInt32 (c_mr c))"]
      readCString_input [of "snd (readCString (snd (readInt32 (c_mr c))))"]
    by (simp add: rxNotificationResponse_def case_prod_beta readInt32_def)
  done

lemma processContextFreeMsg_input: "pending (snd (processContextFreeMsg t c)) \<le> pending c"
  using rx_input(1,2,7) [of c] by (simp add: processContextFreeMsg_def case_prod_beta)


section \<open>Statements\<close>

text \<open>
  The loop of \<open>Exec\<close> reads messages until the server is ready: the last command tag and the
  first error count. The loops of the other operations have the same shape.
\<close>

function Exec_loop :: "string \<Rightarrow> pgx_error option \<Rightarrow> Conn \<Rightarrow> (string \<times> pgx_error option) \<times> Conn" where
  "Exec_loop tag softErr c =
     (let m = conn_rxMsg c; t = fst (fst m); c1 = snd m in
      if snd (fst m) \<noteq> None then ((tag, snd (fst m)), c1)
      else if t = readyForQuery then ((tag, softErr), rxReadyForQuery c1)
      else if t = rowDescription \<or> t = dataRow \<or> t = bindComplete then Exec_loop tag softErr c1
      else if t = commandComplete then
        (let s = readCString (c_mr c1) in Exec_loop (fst s) softErr (c1\<lparr>c_mr := snd s\<rparr>))
      else
        (let p = processContextFreeMsg t c1 in Exec_loop tag (if softErr = None then fst p else softErr) (snd p)))"
  by pat_completeness auto
termination
  using conn_rxMsg_input(2)
  by (relation "measure (\<lambda>(tag, e, c). pending c)")
    (simp_all add: order_le_less_trans [OF readCString_input] order_le_less_trans [OF processContextFreeMsg_input])

declare Exec_loop.simps [simp del]

definition describe_field :: "(Oid \<rightharpoonup> PgType) \<Rightarrow> FieldDescription \<Rightarrow> FieldDescription" where
  "describe_field types fd =
     (case types (fd_DataType fd) of
        None \<Rightarrow> fd\<lparr>fd_DataTypeName := [], fd_FormatCode := 0\<rparr>
      | Some t \<Rightarrow> fd\<lparr>fd_DataTypeName := pt_Name t, fd_FormatCode := pt_DefaultFormat t\<rparr>)"

text \<open>\<open>Prepare\<close>: the outer \<open>None\<close> is a panic while a description is read.\<close>

function Prepare_loop :: "PreparedStatement \<Rightarrow> pgx_error option \<Rightarrow> Conn \<Rightarrow>
    ((PreparedStatement option \<times> pgx_error option) \<times> Conn) option" where
  "Prepare_loop ps softErr c =
     (let m = conn_rxMsg c; t = fst (fst m); c1 = snd m in
      if snd (fst m) \<noteq> None then Some ((None, snd (fst m)), c1)
      else if t = parseComplete \<or> t = noData then Prepare_loop ps softErr c1
      else if t = parameterDescription then
        (case rxParameterDescription c1 of
           None \<Rightarrow> None
         | Some (oids, c2) \<Rightarrow>
             Prepare_loop (ps\<lparr>ps_ParameterOids := oids\<rparr>)
               (if length oids > 65535 \<and> softErr = None then Some TooManyParameters else softErr) c2)
      else if t = rowDescription then
        (case rxRowDescription c1 of
           None \<Rightarrow> None
         | Some (fs, c2) \<Rightarrow>
             Prepare_loop (ps\<lparr>ps_FieldDescriptions := map (describe_field (c_PgTypes c2)) fs\<rparr>) softErr c2)
      else if t = readyForQuery then
        (let c2 = rxReadyForQuery c1 in
         Some ((Some ps, softErr),
           if softErr = None then c2\<lparr>c_preparedStatements := (c_preparedStatements c2)(ps_Name ps \<mapsto> ps)\<rparr> else c2))
      else
        (let p = processContextFreeMsg t c1 in Prepare_loop ps (if softErr = None then fst p else softErr) (snd p)))"
  by pat_completeness auto
termination
  using conn_rxMsg_input(2)
  by (relation "measure (\<lambda>(ps, e, c). pending c)")
    (auto dest!: rx_input(5,6) intro: order_le_less_trans order_le_less_trans [OF processContextFreeMsg_input])

declare Prepare_loop.simps [simp del]

definition prepare_msg :: "string \<Rightarrow> string \<Rightarrow> bytes" where
  "prepare_msg name sql =
     (let w = newWriteBuf (byte_of_char CHR ''P'');
          w = WriteInt16 0 (WriteCString sql (WriteCString name w));
          w = startMsg (byte_of_char CHR ''D'') w;
          w = WriteCString name (WriteByte (byte_of_char CHR ''S'') w);
          w = startMsg (byte_of_char CHR ''S'') w
      in wb_buf (closeMsg w))"

definition conn_Prepare :: "string \<Rightarrow> string \<Rightarrow> Conn \<Rightarrow> ((PreparedStatement option \<times> pgx_error option) \<times> Conn) option" where
  "conn_Prepare name sql c =
     (if name \<noteq> [] \<and> (case c_preparedStatements c name of Some ps \<Rightarrow> ps_SQL ps = sql | None \<Rightarrow> False) then
        Some ((c_preparedStatements c name, None), c)
      else
        (case conn_write (prepare_msg name sql) c of
           (False, c) \<Rightarrow> Some ((None, Some WriteErr), die WriteErr c)
         | (True, c) \<Rightarrow>
             Prepare_loop \<lparr>ps_Name = name, ps_SQL = sql, ps_FieldDescriptions = [], ps_ParameterOids = []\<rparr> None c))"

function Deallocate_loop :: "Conn \<Rightarrow> pgx_error option \<times> Conn" where
  "Deallocate_loop c =
     (let m = conn_rxMsg c; t = fst (fst m); c1 = snd m in
      if snd (fst m) \<noteq> None then (snd (fst m), c1)
      else if t = closeComplete then (None, c1)
      else (let p = processContextFreeMsg t c1 in if fst p \<noteq> None then p else Deallocate_loop (snd p)))"
  by pat_completeness auto
termination
  using conn_rxMsg_input(2)
  by (relation "measure pending") (simp_all add: order_le_less_trans [OF processContextFreeMsg_input])

declare Deallocate_loop.simps [simp del]

definition conn_Deallocate :: "string \<Rightarrow> Conn \<Rightarrow> pgx_error option \<times> Conn" where
  "conn_Deallocate name c =
     (let c = c\<lparr>c_preparedStatements := (c_preparedStatements c)(name := None)\<rparr>;
          w = WriteCString name (WriteByte (byte_of_char CHR ''S'') (newWriteBuf (byte_of_char CHR ''C'')));
          w = closeMsg (startMsg (byte_of_char CHR ''H'') w) in
      case conn_write (wb_buf w) c of
        (False, c) \<Rightarrow> (Some WriteErr, die WriteErr c)
      | (True, c) \<Rightarrow> Deallocate_loop c)"

text \<open>
  The format code of a parameter. A nil pointer is written as NULL in any format; the source
  distinguishes nil string pointers, here they count with the others.
\<close>

definition binary_oids :: "Oid list" where
  "binary_oids = [BoolOid, ByteaOid, Int2Oid, Int4Oid, Int8Oid, 700, 701, 1184, 1185, 1114, 1115, 1082, BoolArrayOid,
     ByteaArrayOid, Int2ArrayOid, Int4ArrayOid, Int8ArrayOid, 1021, 1022, TextArrayOid, VarcharArrayOid, OidOid, 869, 650,
     1041, 651]"

definition arg_format :: "go_val \<Rightarrow> Oid \<Rightarrow> 16 word" where
  "arg_format v oid =
     (case v of
        VUUID _ \<Rightarrow> UUID_FormatCode
      | VNullString _ _ \<Rightarrow> TextFormatCode
      | VNullInt16 _ _ \<Rightarrow> BinaryFormatCode
      | VNullInt32 _ _ \<Rightarrow> BinaryFormatCode
      | VNullInt64 _ _ \<Rightarrow> BinaryFormatCode
      | VNullBool _ _ \<Rightarrow> BinaryFormatCode
      | VString _ \<Rightarrow> TextFormatCode
      | VPtr (Some (VString _)) \<Rightarrow> TextFormatCode
      | _ \<Rightarrow> if oid \<in> set binary_oids then BinaryFormatCode else TextFormatCode)"

fun encode_args :: "strconv \<Rightarrow> (Oid \<times> go_val) list \<Rightarrow> WriteBuf \<Rightarrow> enc_error option \<times> WriteBuf" where
  "encode_args sc [] w = (None, w)"
| "encode_args sc ((oid, v) # vs) w =
     (case Encode sc v oid w of (Some e, w) \<Rightarrow> (Some e, w) | (None, w) \<Rightarrow> encode_args sc vs w)"

definition send_buf :: "bytes \<Rightarrow> Conn \<Rightarrow> pgx_error option \<times> Conn" where
  "send_buf b c =
     (case conn_write b c of (True, c) \<Rightarrow> (None, c) | (False, c) \<Rightarrow> (Some WriteErr, die WriteErr c))"

definition sendPreparedQuery :: "strconv \<Rightarrow> PreparedStatement \<Rightarrow> go_val list \<Rightarrow> Conn \<Rightarrow> pgx_error option \<times> Conn" where
  "sendPreparedQuery sc ps args c =
     (if length (ps_ParameterOids ps) \<noteq> length args then (Some WrongParameters, c)
      else
        let w = newWriteBuf (byte_of_char CHR ''B'');
            w = WriteCString (ps_Name ps) (WriteByte 0 w);
            w = WriteInt16 (word_of_nat (length (ps_ParameterOids ps))) w;
            w = fold (\<lambda>(oid, v). WriteInt16 (arg_format v oid)) (zip (ps_ParameterOids ps) args) w;
            w = WriteInt16 (word_of_nat (length args)) w in
        case encode_args sc (zip (ps_ParameterOids ps) args) w of
          (Some e, w) \<Rightarrow> (Some (EncodeErr e), c)
        | (None, w) \<Rightarrow>
            (let w = WriteInt16 (word_of_nat (length (ps_FieldDescriptions ps))) w;
                 w = fold (\<lambda>fd. WriteInt16 (fd_FormatCode fd)) (ps_FieldDescriptions ps) w;
                 w = WriteInt32 0 (WriteByte 0 (startMsg (byte_of_char CHR ''E'') w));
                 w = closeMsg (startMsg (byte_of_char CHR ''S'') w)
             in send_buf (wb_buf w) c))"

definition sendSimpleQuery :: "strconv \<Rightarrow> string \<Rightarrow> go_val list \<Rightarrow> Conn \<Rightarrow> (pgx_error option \<times> Conn) option" where
  "sendSimpleQuery sc sql args c =
     (if args = [] then
        Some (send_buf (wb_buf (closeMsg (WriteCString sql (newWriteBuf (byte_of_char CHR ''Q''))))) c)
      else
        (case conn_Prepare [] sql c of
           None \<Rightarrow> None
         | Some ((_, Some e), c) \<Rightarrow> Some (Some e, c)
         | Some ((Some ps, None), c) \<Rightarrow> Some (sendPreparedQuery sc ps args c)
         | Some ((None, None), c) \<Rightarrow> None))"

definition sendQuery :: "strconv \<Rightarrow> string \<Rightarrow> go_val list \<Rightarrow> Conn \<Rightarrow> (pgx_error option \<times> Conn) option" where
  "sendQuery sc sql args c =
     (case c_preparedStatements c sql of
        Some ps \<Rightarrow> Some (sendPreparedQuery sc ps args c)
      | None \<Rightarrow> sendSimpleQuery sc sql args c)"

text \<open>\<open>Exec\<close>; the deferred unlock overrides a nil error.\<close>

definition conn_Exec :: "strconv \<Rightarrow> string \<Rightarrow> go_val list \<Rightarrow> Conn \<Rightarrow> ((string \<times> pgx_error option) \<times> Conn) option" where
  "conn_Exec sc sql args c =
     (case conn_lock c of
        (Some e, c) \<Rightarrow> Some (([], Some e), c)
      | (None, c) \<Rightarrow>
          (case sendQuery sc sql args c of
             None \<Rightarrow> None
           | Some (sent, c) \<Rightarrow>
               (case (case sent of Some e \<Rightarrow> (([], Some e), c) | None \<Rightarrow> Exec_loop [] None c) of
                  ((tag, err), c) \<Rightarrow>
                    (case conn_unlock c of
                       (unlockErr, c) \<Rightarrow> Some ((tag, if err = None then unlockErr else err), c)))))"

definition conn_Listen :: "strconv \<Rightarrow> string \<Rightarrow> Conn \<Rightarrow> (pgx_error option \<times> Conn) option" where
  "conn_Listen sc ch c =
     (case conn_Exec sc (''listen '' @ quoteIdentifier ch) [] c of
        None \<Rightarrow> None
      | Some ((_, Some e), c) \<Rightarrow> Some (Some e, c)
      | Some ((_, None), c) \<Rightarrow> Some (None, c\<lparr>c_channels := List.insert ch (c_channels c)\<rparr>))"

definition conn_Unlisten :: "strconv \<Rightarrow> string \<Rightarrow> Conn \<Rightarrow> (pgx_error option \<times> Conn) option" where
  "conn_Unlisten sc ch c =
     (case conn_Exec sc (''unlisten '' @ quoteIdentifier ch) [] c of
        None \<Rightarrow> None
      | Some ((_, Some e), c) \<Rightarrow> Some (Some e, c)
      | Some ((_, None), c) \<Rightarrow> Some (None, c\<lparr>c_channels := removeAll ch (c_channels c)\<rparr>))"


section \<open>Establishing a connection\<close>

definition txPasswordMessage :: "string \<Rightarrow> Conn \<Rightarrow> pgx_error option \<times> Conn" where
  "txPasswordMessage password c =
     (case conn_write (wb_buf (closeMsg (WriteCString password (newWriteBuf (byte_of_char CHR ''p''))))) c of
        (ok, c) \<Rightarrow> (if ok then None else Some WriteErr, c))"

text \<open>The digest \<open>crypto/md5\<close> in hexadecimal is a parameter; reading the salt cannot panic.\<close>

definition rxAuthenticationX :: "(string \<Rightarrow> string) \<Rightarrow> Conn \<Rightarrow> pgx_error option \<times> Conn" where
  "rxAuthenticationX hexMD5 c =
     (case readInt32 (c_mr c) of
        (n, r) \<Rightarrow>
          let c = c\<lparr>c_mr := r\<rparr> in
          if n = 0 then (None, c)
          else if n = 3 then txPasswordMessage (cc_Password (c_config c)) c
          else if n = 5 then
            (case readString 4 (c_mr c) of
               None \<Rightarrow> (Some UnknownAuth, c)
             | Some (salt, r) \<Rightarrow>
                 txPasswordMessage
                   (''md5'' @ hexMD5 (hexMD5 (cc_Password (c_config c) @ cc_User (c_config c)) @ salt)) (c\<lparr>c_mr := r\<rparr>))
          else (Some UnknownAuth, c))"

lemma readString_input: "readString n r = Some (s, r') \<Longrightarrow> length (mr_input r') \<le> length (mr_input r)"
  by (auto simp: readString_def take_remaining_def fill_def fatal_def Let_def split: if_splits option.splits bool.splits)

lemma txPasswordMessage_mr [simp]: "c_mr (snd (txPasswordMessage p c)) = c_mr c"
  by (simp add: txPasswordMessage_def conn_write_def)

lemma rxAuthenticationX_input: "pending (snd (rxAuthenticationX h c)) \<le> pending c"
proof -
  let ?r = "snd (readInt32 (c_mr c))"
  have le: "length (mr_input ?r) \<le> pending c"
    using read_word_input [where 'a = 32, of 4 "c_mr c"] by (simp add: readInt32_def)
  show ?thesis
  proof (cases "readString 4 ?r")
    case None
    with le show ?thesis by (simp add: rxAuthenticationX_def case_prod_beta Let_def)
  next
    case (Some p)
    obtain s r' where "p = (s, r')" by (cases p)
    with Some readString_input [of 4 ?r s r'] le show ?thesis
      by (simp add: rxAuthenticationX_def case_prod_beta Let_def)
  qed
qed

text \<open>
  The handshake of \<open>connect\<close> after the startup message, until the server is ready for queries.
\<close>

function connect_loop :: "(string \<Rightarrow> string) \<Rightarrow> Conn \<Rightarrow> pgx_error option \<times> Conn" where
  "connect_loop hexMD5 c =
     (let m = conn_rxMsg c; t = fst (fst m); c1 = snd m in
      if snd (fst m) \<noteq> None then (snd (fst m), c1)
      else if t = backendKeyData then connect_loop hexMD5 (rxBackendKeyData c1)
      else if t = authenticationX then
        (let a = rxAuthenticationX hexMD5 c1 in if fst a \<noteq> None then a else connect_loop hexMD5 (snd a))
      else if t = readyForQuery then (None, rxReadyForQuery c1)
      else (let p = processContextFreeMsg t c1 in if fst p \<noteq> None then p else connect_loop hexMD5 (snd p)))"
  by pat_completeness auto
termination
  using conn_rxMsg_input(2)
  by (relation "measure (\<lambda>(h, c). pending c)")
    (simp_all add: order_le_less_trans [OF processContextFreeMsg_input] order_le_less_trans [OF rx_input(3)]
      order_le_less_trans [OF rxAuthenticationX_input])

declare connect_loop.simps [simp del]

section \<open>Rows\<close>

text \<open>
  The rows of a query hold their connection: the functions take and return both. The reader of the
  current column is built from the connection's message reader and gives it back.
\<close>

record Rows =
  ro_fields :: "FieldDescription list"
  ro_err :: "pgx_error option"
  ro_closed :: bool
  ro_unlockConn :: bool
  ro_columnIdx :: nat
  ro_rowCount :: nat
  ro_vrLen :: "32 word"

definition new_rows :: Rows where
  "new_rows = \<lparr>ro_fields = [], ro_err = None, ro_closed = False, ro_unlockConn = False, ro_columnIdx = 0,
     ro_rowCount = 0, ro_vrLen = 0\<rparr>"

definition rows_close :: "Rows \<Rightarrow> Conn \<Rightarrow> Rows \<times> Conn" where
  "rows_close ro c =
     (if ro_closed ro then (ro, c)
      else (ro\<lparr>ro_unlockConn := False, ro_closed := True\<rparr>, if ro_unlockConn ro then snd (conn_unlock c) else c))"

function readUntilReadyForQuery :: "Rows \<Rightarrow> Conn \<Rightarrow> Rows \<times> Conn" where
  "readUntilReadyForQuery ro c =
     (let m = conn_rxMsg c; t = fst (fst m); c1 = snd m in
      if snd (fst m) \<noteq> None then rows_close ro c1
      else if t = readyForQuery then rows_close ro (rxReadyForQuery c1)
      else if t = rowDescription \<or> t = dataRow \<or> t = commandComplete \<or> t = bindComplete then readUntilReadyForQuery ro c1
      else if t = errorResponse then
        (let e = rxErrorResponse c1 in
         readUntilReadyForQuery (if ro_err ro = None then ro\<lparr>ro_err := Some (PgErr (fst e))\<rparr> else ro) (snd e))
      else
        (let p = processContextFreeMsg t c1 in
         if fst p \<noteq> None then rows_close ro (snd p) else readUntilReadyForQuery ro (snd p)))"
  by pat_completeness auto
termination
  using conn_rxMsg_input(2)
  by (relation "measure (\<lambda>(ro, c). pending c)")
    (simp_all add: order_le_less_trans [OF processContextFreeMsg_input] order_le_less_trans [OF rx_input(2)])

declare readUntilReadyForQuery.simps [simp del]

definition rows_Close :: "Rows \<Rightarrow> Conn \<Rightarrow> Rows \<times> Conn" where
  "rows_Close ro c =
     (if ro_closed ro then (ro, c) else case readUntilReadyForQuery ro c of (ro, c) \<Rightarrow> rows_close ro c)"

definition rows_abort :: "pgx_error \<Rightarrow> Rows \<Rightarrow> Conn \<Rightarrow> Rows \<times> Conn" where
  "rows_abort e ro c = (if ro_err ro \<noteq> None then (ro, c) else rows_close (ro\<lparr>ro_err := Some e\<rparr>) c)"

definition rows_Fatal :: "pgx_error \<Rightarrow> Rows \<Rightarrow> Conn \<Rightarrow> Rows \<times> Conn" where
  "rows_Fatal e ro c = (if ro_err ro \<noteq> None then (ro, c) else rows_Close (ro\<lparr>ro_err := Some e\<rparr>) c)"

function Next_loop :: "Rows \<Rightarrow> Conn \<Rightarrow> bool \<times> Rows \<times> Conn" where
  "Next_loop ro c =
     (let m = conn_rxMsg c; t = fst (fst m); c1 = snd m in
      if snd (fst m) \<noteq> None then (False, rows_Fatal (the (snd (fst m))) ro c1)
      else if t = readyForQuery then (False, rows_close ro (rxReadyForQuery c1))
      else if t = dataRow then
        (case readInt16 (c_mr c1) of
           (fieldCount, r) \<Rightarrow>
             let c2 = c1\<lparr>c_mr := r\<rparr> in
             if sint fieldCount \<noteq> int (length (ro_fields ro)) then
               (False, rows_Fatal (RowProtocol ''field count'') ro c2)
             else (True, ro, c2))
      else if t = commandComplete \<or> t = bindComplete then Next_loop ro c1
      else
        (let p = processContextFreeMsg t c1 in
         if fst p \<noteq> None then (False, rows_Fatal (the (fst p)) ro (snd p)) else Next_loop ro (snd p)))"
  by pat_completeness auto
termination
  using conn_rxMsg_input(2)
  by (relation "measure (\<lambda>(ro, c). pending c)") (simp_all add: order_le_less_trans [OF processContextFreeMsg_input])

declare Next_loop.simps [simp del]

definition rows_Next :: "Rows \<Rightarrow> Conn \<Rightarrow> bool \<times> Rows \<times> Conn" where
  "rows_Next ro c =
     (if ro_closed ro then (False, ro, c)
      else Next_loop (ro\<lparr>ro_rowCount := ro_rowCount ro + 1, ro_columnIdx := 0, ro_vrLen := 0\<rparr>) c)"

text \<open>\<open>nextColumn\<close>: what is left of the previous column is skipped; the outer \<open>None\<close> is a panic.\<close>

definition nextColumn :: "Rows \<Rightarrow> Conn \<Rightarrow> (ValueReader option \<times> Rows \<times> Conn) option" where
  "nextColumn ro c =
     (if ro_closed ro then Some (None, ro, c)
      else if length (ro_fields ro) \<le> ro_columnIdx ro then
        Some (None, rows_Fatal (RowProtocol ''No next column available'') ro c)
      else
        (case (if sint (ro_vrLen ro) > 0 then map_option snd (readBytes (ro_vrLen ro) (c_mr c)) else Some (c_mr c)) of
           None \<Rightarrow> None
         | Some r \<Rightarrow>
             (case readInt32 r of
                (sz, r) \<Rightarrow>
                  Some (Some \<lparr>vr_mr = r, vr_fd = ro_fields ro ! ro_columnIdx ro, vr_remaining = sz, vr_err = None\<rparr>,
                    ro\<lparr>ro_columnIdx := ro_columnIdx ro + 1, ro_vrLen := sz\<rparr>, c\<lparr>c_mr := r\<rparr>))))"

text \<open>
  \<open>Scan\<close> into one destination, which reads the column and may return an error of its own, as a
  \<open>Scanner\<close> does. A column that is not there (nil reader) makes the destination panic.
\<close>

type_synonym 's column_reader = "ValueReader \<Rightarrow> 's \<Rightarrow> ((pgx_error option \<times> 's) \<times> ValueReader) option"

definition rows_Scan :: "'s column_reader \<Rightarrow> Rows \<Rightarrow> Conn \<Rightarrow> 's \<Rightarrow> ('s \<times> Rows \<times> Conn) option" where
  "rows_Scan dest ro c st =
     (if length (ro_fields ro) \<noteq> 1 then Some (st, rows_Fatal (RowProtocol ''wrong number of arguments'') ro c)
      else
        (case nextColumn ro c of
           None \<Rightarrow> None
         | Some (None, ro, c) \<Rightarrow> None
         | Some (Some vr, ro, c) \<Rightarrow>
             (case dest vr st of
                None \<Rightarrow> None
              | Some ((err, st), vr) \<Rightarrow>
                  (let ro = ro\<lparr>ro_vrLen := vr_remaining vr\<rparr>; c = c\<lparr>c_mr := vr_mr vr\<rparr> in
                   case (case err of Some e \<Rightarrow> rows_Fatal e ro c | None \<Rightarrow> (ro, c)) of
                     (ro, c) \<Rightarrow>
                       Some (st, case vr_err vr of Some e \<Rightarrow> rows_Fatal (ScanFailed e) ro c | None \<Rightarrow> (ro, c))))))"

definition Row_Scan :: "'s column_reader \<Rightarrow> Rows \<Rightarrow> Conn \<Rightarrow> 's \<Rightarrow> ((pgx_error option \<times> 's) \<times> Rows \<times> Conn) option" where
  "Row_Scan dest ro c st =
     (if ro_err ro \<noteq> None then Some ((ro_err ro, st), ro, c)
      else
        (case rows_Next ro c of
           (False, ro, c) \<Rightarrow> Some ((if ro_err ro = None then Some ErrNoRows else ro_err ro, st), ro, c)
         | (True, ro, c) \<Rightarrow>
             (case rows_Scan dest ro c st of
                None \<Rightarrow> None
              | Some (st, ro, c) \<Rightarrow> (case rows_Close ro c of (ro, c) \<Rightarrow> Some ((ro_err ro, st), ro, c)))))"

definition conn_Query :: "strconv \<Rightarrow> string \<Rightarrow> go_val list \<Rightarrow> Conn \<Rightarrow> (Rows \<times> Conn) option" where
  "conn_Query sc sql args c =
     (case conn_lock c of
        (Some e, c) \<Rightarrow> Some (rows_abort e new_rows c)
      | (None, c) \<Rightarrow>
          (let ro = new_rows\<lparr>ro_unlockConn := True\<rparr> in
           case (case c_preparedStatements c sql of
                   Some ps \<Rightarrow> Some ((Some ps, None), c)
                 | None \<Rightarrow> conn_Prepare [] sql c) of
             None \<Rightarrow> None
           | Some ((_, Some e), c) \<Rightarrow> Some (rows_abort e ro c)
           | Some ((None, None), c) \<Rightarrow> None
           | Some ((Some ps, None), c) \<Rightarrow>
               (let ro = ro\<lparr>ro_fields := ps_FieldDescriptions ps\<rparr> in
                case sendPreparedQuery sc ps args c of
                  (Some e, c) \<Rightarrow> Some (rows_abort e ro c)
                | (None, c) \<Rightarrow> Some (ro, c))))"


section \<open>Responses of the server\<close>

text \<open>
  The messages of a response as the protocol defines them, apart from the final one, and their form on the wire.
\<close>

datatype srv_msg =
    SRowDescription bytes
  | SDataRow bytes
  | SBindComplete
  | SCommandComplete string
  | SError "(char \<times> string) list"
  | SNotice bytes
  | SParameterStatus string string
  | SEmptyQuery

definition error_bytes :: "(char \<times> string) list \<Rightarrow> bytes" where
  "error_bytes fs = concat (map (\<lambda>(f, s). byte_of_char f # bytes_of_string s @ [0]) fs) @ [0]"

fun srv_frame :: "srv_msg \<Rightarrow> byte \<times> bytes" where
  "srv_frame (SRowDescription b) = (rowDescription, b)"
| "srv_frame (SDataRow b) = (dataRow, b)"
| "srv_frame SBindComplete = (bindComplete, [])"
| "srv_frame (SCommandComplete s) = (commandComplete, bytes_of_string s @ [0])"
| "srv_frame (SError fs) = (errorResponse, error_bytes fs)"
| "srv_frame (SNotice b) = (noticeResponse, b)"
| "srv_frame (SParameterStatus k v) = (byte_of_char CHR ''S'', bytes_of_string k @ [0] @ bytes_of_string v @ [0])"
| "srv_frame SEmptyQuery = (emptyQueryResponse, [])"

definition srv_bytes :: "srv_msg list \<Rightarrow> bytes" where
  "srv_bytes ms = concat (map (frame \<circ> srv_frame) ms)"

definition ready_bytes :: "byte \<Rightarrow> bytes" where
  "ready_bytes st = frame (readyForQuery, [st])"

definition pg_error :: "(char \<times> string) list \<Rightarrow> PgError" where
  "pg_error fs = foldl (\<lambda>e (f, s). error_field f s e) zero_PgError fs"

fun msg_ok :: "srv_msg \<Rightarrow> bool" where
  "msg_ok m = (length (snd (srv_frame m)) + 4 < 2 ^ 31 \<and>
     (case m of
        SCommandComplete s \<Rightarrow> CHR 0x00 \<notin> set s
      | SError fs \<Rightarrow> list_all (\<lambda>(f, s). f \<noteq> CHR 0x00 \<and> CHR 0x00 \<notin> set s) fs
      | SParameterStatus k v \<Rightarrow> CHR 0x00 \<notin> set k \<and> CHR 0x00 \<notin> set v
      | _ \<Rightarrow> True))"

declare msg_ok.simps [simp del]

fun fatal_msg :: "srv_msg \<Rightarrow> bool" where
  "fatal_msg (SError fs) = (pe_Severity (pg_error fs) = ''FATAL'')"
| "fatal_msg _ = False"

text \<open>A live connection that stands inside a message (\<open>left\<close>), before the bytes \<open>rest\<close>.\<close>

definition conn_at :: "Conn \<Rightarrow> bytes \<Rightarrow> bytes \<Rightarrow> bool" where
  "conn_at c left rest \<longleftrightarrow> c_alive c \<and> mr_at (c_mr c) left rest"

text \<open>What the processing of server messages leaves alone.\<close>

definition keeps :: "Conn \<Rightarrow> Conn \<Rightarrow> bool" where
  "keeps c c' \<longleftrightarrow> c_busy c' = c_busy c \<and> c_poolResetCount c' = c_poolResetCount c \<and> c_out c' = c_out c \<and>
     c_broken c' = c_broken c \<and> c_channels c' = c_channels c \<and> c_config c' = c_config c"

lemma keeps_refl [simp]: "keeps c c"
  by (simp add: keeps_def)

lemma keeps_trans [trans]: "keeps a b \<Longrightarrow> keeps b c \<Longrightarrow> keeps a c"
  by (simp add: keeps_def)

lemma rxMsg_skip:
  assumes "mr_at r left (frame (t, body) @ rest)" and "length body + 4 < 2 ^ 31"
  shows "\<exists>r'. rxMsg r = ((t, None), r') \<and> mr_at r' body rest"
proof -
  let ?r = "r\<lparr>mr_input := drop (length left) (mr_input r), mr_remaining := 0\<rparr>"
  have *: "nat (sint (mr_remaining r)) = length left" "mr_err r = None"
    using assms(1) by (simp_all add: mr_at_def)
  have "rxMsg ?r = rxMsg r"
    using assms(1) * by (auto simp: rxMsg_def mr_at_def Let_def fill_def)
  moreover have "\<exists>r'. rxMsg ?r = ((t, None), r') \<and> mr_at r' body rest"
    using assms by (intro rxMsg_frame) (auto simp: mr_at_def)
  ultimately show ?thesis by simp
qed

lemma conn_rxMsg_at:
  assumes "conn_at c left (frame (t, body) @ rest)" and "length body + 4 < 2 ^ 31"
  shows "\<exists>c'. conn_rxMsg c = ((t, None), c') \<and> conn_at c' body rest \<and> keeps c c' \<and> c_TxStatus c' = c_TxStatus c"
proof -
  obtain r' where "rxMsg (c_mr c) = ((t, None), r')" "mr_at r' body rest"
    using rxMsg_skip [of "c_mr c" left t body rest] assms by (auto simp: conn_at_def)
  with assms(1) show ?thesis by (auto simp: conn_rxMsg_def conn_at_def keeps_def)
qed

lemma byte_of_char_0_iff: "byte_of_char f = 0 \<longleftrightarrow> f = CHR 0x00"
proof -
  have "char_of_byte 0 = CHR 0x00" by (simp add: char_of_byte_def char_of_def)
  then show ?thesis by (metis byte_of_char_of_byte char_of_byte_of_char)
qed

lemma rxErrorResponse_loop_at:
  "list_all (\<lambda>(f, s). f \<noteq> CHR 0x00 \<and> CHR 0x00 \<notin> set s) fs \<Longrightarrow> mr_at r (error_bytes fs) rest \<Longrightarrow>
   \<exists>r'. rxErrorResponse_loop r e = (foldl (\<lambda>e (f, s). error_field f s e) e fs, r') \<and> mr_at r' [] rest"
proof (induction fs arbitrary: r e)
  case Nil
  then have "mr_at r (0 # []) rest" by (simp add: error_bytes_def)
  from readByte_at [OF this] obtain r' where "readByte r = (0, r')" "mr_at r' [] rest" by blast
  then show ?case by (subst rxErrorResponse_loop.simps) simp
next
  case (Cons p fs)
  obtain f s where p: "p = (f, s)" by (cases p)
  have "mr_at r (byte_of_char f # bytes_of_string s @ [0] @ error_bytes fs) rest"
    using Cons.prems(2) by (simp add: error_bytes_def p)
  from readByte_at [OF this] obtain r1 where r1: "readByte r = (byte_of_char f, r1)"
    "mr_at r1 (bytes_of_string s @ [0] @ error_bytes fs) rest" by blast
  obtain r2 where r2: "readCString r1 = (s, r2)" "mr_at r2 (error_bytes fs) rest"
    using readCString_at [OF r1(2)] Cons.prems(1) p by auto
  have "byte_of_char f \<noteq> 0" using Cons.prems(1) p by (simp add: byte_of_char_0_iff)
  then have "rxErrorResponse_loop r e = rxErrorResponse_loop r2 (error_field f s e)"
    using r1(1) r2(1) by (subst rxErrorResponse_loop.simps) simp
  with Cons.IH [OF _ r2(2)] Cons.prems(1) p show ?case by simp
qed

lemma rxErrorResponse_at:
  assumes "list_all (\<lambda>(f, s). f \<noteq> CHR 0x00 \<and> CHR 0x00 \<notin> set s) fs" and "conn_at c (error_bytes fs) rest"
  shows "\<exists>c'. rxErrorResponse c = (pg_error fs, c') \<and> keeps c c' \<and>
    (if pe_Severity (pg_error fs) = ''FATAL'' then \<not> c_alive c' else conn_at c' [] rest)"
proof -
  obtain r' where "rxErrorResponse_loop (c_mr c) zero_PgError = (pg_error fs, r')" "mr_at r' [] rest"
    using rxErrorResponse_loop_at [OF assms(1), of "c_mr c" rest zero_PgError] assms(2) by (auto simp: conn_at_def pg_error_def)
  with assms(2) show ?thesis
    by (cases "pe_Severity (pg_error fs) = ''FATAL''") (auto simp: rxErrorResponse_def conn_at_def die_def keeps_def Let_def)
qed

lemma msg_type_distinct:
  "byte_of_char c = byte_of_char d \<longleftrightarrow> c = d"
  by (metis char_of_byte_of_char)

text \<open>A message without an error that the operations process outside their own cases.\<close>

lemma processContextFreeMsg_at:
  assumes "msg_ok m" and "\<not> fatal_msg m" and "srv_frame m = (t, body)" and "conn_at c body rest"
    and "\<forall>b s. m \<noteq> SRowDescription b \<and> m \<noteq> SDataRow b \<and> m \<noteq> SBindComplete \<and> m \<noteq> SCommandComplete s"
  shows "\<exists>c' left. processContextFreeMsg t c = ((case m of SError fs \<Rightarrow> Some (PgErr (pg_error fs)) | _ \<Rightarrow> None), c') \<and>
    conn_at c' left rest \<and> keeps c c'"
proof (cases m)
  case (SError fs)
  with assms rxErrorResponse_at [of fs c rest] show ?thesis
    by (auto simp: processContextFreeMsg_def msg_types msg_type_distinct msg_ok.simps)
next
  case (SParameterStatus k v)
  then have at: "mr_at (c_mr c) (bytes_of_string k @ [0] @ bytes_of_string v @ [0] @ []) rest" "c_alive c"
    and ok: "CHR 0x00 \<notin> set k" "CHR 0x00 \<notin> set v"
    using assms by (auto simp: conn_at_def msg_ok.simps)
  obtain r1 where r1: "readCString (c_mr c) = (k, r1)" "mr_at r1 (bytes_of_string v @ [0] @ []) rest"
    using readCString_at [OF at(1) ok(1)] by blast
  obtain r2 where "readCString r1 = (v, r2)" "mr_at r2 [] rest"
    using readCString_at [OF r1(2) ok(2)] by blast
  with r1 at SParameterStatus assms(3) show ?thesis
    by (auto simp: processContextFreeMsg_def rxParameterStatus_def conn_at_def keeps_def)
qed (use assms in \<open>auto simp: processContextFreeMsg_def msg_types msg_type_distinct\<close>)

lemma rxReadyForQuery_at:
  assumes "conn_at c [st] rest"
  shows "conn_at (rxReadyForQuery c) [] rest \<and> keeps c (rxReadyForQuery c) \<and> c_TxStatus (rxReadyForQuery c) = st"
  using readByte_at [of "c_mr c" st "[]" rest] assms by (auto simp: rxReadyForQuery_def conn_at_def keeps_def)


section \<open>Exec\<close>

fun exec_spec :: "string \<Rightarrow> pgx_error option \<Rightarrow> srv_msg list \<Rightarrow> string \<times> pgx_error option" where
  "exec_spec tag err [] = (tag, err)"
| "exec_spec tag err (SCommandComplete s # ms) = exec_spec s err ms"
| "exec_spec tag err (SError fs # ms) = exec_spec tag (if err = None then Some (PgErr (pg_error fs)) else err) ms"
| "exec_spec tag err (_ # ms) = exec_spec tag err ms"

text \<open>One turn of the loop.\<close>

lemma Exec_loop_msg:
  assumes ok: "msg_ok m" "\<not> fatal_msg m" and at: "conn_at c left (frame (srv_frame m) @ rest)"
  shows "\<exists>c' left'. Exec_loop tag err c = (case exec_spec tag err [m] of (tag', err') \<Rightarrow> Exec_loop tag' err' c') \<and>
    conn_at c' left' rest \<and> keeps c c'"
proof -
  obtain t body where f: "srv_frame m = (t, body)" by (cases "srv_frame m")
  have "length body + 4 < 2 ^ 31" using ok(1) f by (simp add: msg_ok.simps)
  then obtain c1 where c1: "conn_rxMsg c = ((t, None), c1)" "conn_at c1 body rest" "keeps c c1"
    using conn_rxMsg_at [of c left t body rest] at f by auto
  show ?thesis
  proof (cases "\<exists>b s. m = SRowDescription b \<or> m = SDataRow b \<or> m = SBindComplete \<or> m = SCommandComplete s")
    case True
    then consider (skip) "t = rowDescription \<or> t = dataRow \<or> t = bindComplete" "exec_spec tag err [m] = (tag, err)"
      | (tag) s where "m = SCommandComplete s" using f by fastforce
    then show ?thesis
    proof cases
      case skip
      with c1 have "Exec_loop tag err c = Exec_loop tag err c1"
        by (subst Exec_loop.simps) (auto simp: msg_types msg_type_distinct)
      with skip c1 show ?thesis by auto
    next
      case (tag s)
      then have "t = commandComplete" "mr_at (c_mr c1) (bytes_of_string s @ [0] @ []) rest" "c_alive c1" "CHR 0x00 \<notin> set s"
        using f c1(2) ok(1) by (auto simp: conn_at_def msg_ok.simps)
      then obtain r where "readCString (c_mr c1) = (s, r)" "mr_at r [] rest" "c_alive c1"
        using readCString_at [of "c_mr c1" s "[]" rest] by auto
      moreover from this have "Exec_loop tag err c = Exec_loop s err (c1\<lparr>c_mr := r\<rparr>)"
        using c1(1) \<open>t = commandComplete\<close> by (subst Exec_loop.simps) (simp add: msg_types msg_type_distinct)
      ultimately show ?thesis
        using tag c1(3) by (auto simp: conn_at_def keeps_def intro!: exI [of _ "c1\<lparr>c_mr := r\<rparr>"] exI [of _ "[]"])
    qed
  next
    case False
    let ?e = "case m of SError fs \<Rightarrow> Some (PgErr (pg_error fs)) | _ \<Rightarrow> None"
    obtain c2 left' where c2: "processContextFreeMsg t c1 = (?e, c2)" "conn_at c2 left' rest" "keeps c1 c2"
      using processContextFreeMsg_at [OF ok f c1(2)] False by blast
    have "t \<noteq> readyForQuery" "t \<noteq> rowDescription" "t \<noteq> dataRow" "t \<noteq> bindComplete" "t \<noteq> commandComplete"
      using False f by (cases m; auto simp: msg_types msg_type_distinct)+
    with c1(1) c2(1) have "Exec_loop tag err c = Exec_loop tag (if err = None then ?e else err) c2"
      by (subst Exec_loop.simps) simp
    moreover have "exec_spec tag err [m] = (tag, if err = None then ?e else err)" using False by (cases m) auto
    ultimately show ?thesis using c2 c1(3) keeps_trans by auto
  qed
qed

lemma exec_spec_Cons: "exec_spec tag err (m # ms) = (case exec_spec tag err [m] of (tag', err') \<Rightarrow> exec_spec tag' err' ms)"
  by (cases m) auto

lemma srv_bytes_Cons: "srv_bytes (m # ms) = frame (srv_frame m) @ srv_bytes ms"
  by (simp add: srv_bytes_def)

lemma Exec_loop_msgs:
  "list_all (\<lambda>m. msg_ok m \<and> \<not> fatal_msg m) ms \<Longrightarrow> conn_at c left (srv_bytes ms @ rest) \<Longrightarrow>
   \<exists>c' left'. Exec_loop tag err c = (case exec_spec tag err ms of (tag', err') \<Rightarrow> Exec_loop tag' err' c') \<and>
     conn_at c' left' rest \<and> keeps c c'"
proof (induction ms arbitrary: tag err c left)
  case Nil
  then show ?case by (auto simp: srv_bytes_def)
next
  case (Cons m ms)
  obtain tag1 err1 where s: "exec_spec tag err [m] = (tag1, err1)" by (cases "exec_spec tag err [m]")
  obtain c1 left1 where c1: "Exec_loop tag err c = Exec_loop tag1 err1 c1" "conn_at c1 left1 (srv_bytes ms @ rest)" "keeps c c1"
    using Exec_loop_msg [of m c left "srv_bytes ms @ rest" tag err] Cons.prems s by (auto simp: srv_bytes_Cons)
  obtain c2 left2 where "Exec_loop tag1 err1 c1 = (case exec_spec tag1 err1 ms of (tag', err') \<Rightarrow> Exec_loop tag' err' c2)"
    "conn_at c2 left2 rest" "keeps c1 c2"
    using Cons.IH [of c1 left1 tag1 err1] Cons.prems c1(2) by auto
  moreover have "exec_spec tag err (m # ms) = exec_spec tag1 err1 ms" by (subst exec_spec_Cons) (simp add: s)
  ultimately show ?case using c1 keeps_trans by (auto simp del: exec_spec.simps)
qed

lemma Exec_loop_ready:
  assumes "conn_at c left (ready_bytes st @ rest)"
  shows "\<exists>c'. Exec_loop tag err c = ((tag, err), c') \<and> conn_at c' [] rest \<and> keeps c c' \<and> c_TxStatus c' = st"
proof -
  obtain c1 where c1: "conn_rxMsg c = ((readyForQuery, None), c1)" "conn_at c1 [st] rest" "keeps c c1"
    using conn_rxMsg_at [of c left readyForQuery "[st]" rest] assms by (auto simp: ready_bytes_def)
  then have "Exec_loop tag err c = ((tag, err), rxReadyForQuery c1)"
    by (subst Exec_loop.simps) simp
  with rxReadyForQuery_at [OF c1(2)] c1(3) keeps_trans show ?thesis by auto
qed

lemma Exec_loop_response:
  assumes "list_all (\<lambda>m. msg_ok m \<and> \<not> fatal_msg m) ms" and "conn_at c left (srv_bytes ms @ ready_bytes st @ rest)"
  shows "\<exists>c'. Exec_loop tag err c = (exec_spec tag err ms, c') \<and> conn_at c' [] rest \<and> keeps c c' \<and> c_TxStatus c' = st"
proof -
  obtain tag' err' where s: "exec_spec tag err ms = (tag', err')" by (cases "exec_spec tag err ms")
  obtain c1 left1 where c1: "Exec_loop tag err c = Exec_loop tag' err' c1" "conn_at c1 left1 (ready_bytes st @ rest)" "keeps c c1"
    using Exec_loop_msgs [OF assms, of tag err] s by auto
  from Exec_loop_ready [OF c1(2), of tag' err'] c1 s keeps_trans show ?thesis by auto
qed

lemma Exec_loop_fatal:
  assumes "list_all (\<lambda>m. msg_ok m \<and> \<not> fatal_msg m) ms" and "msg_ok (SError fs)" "fatal_msg (SError fs)"
    and "conn_at c left (srv_bytes (ms @ [SError fs]) @ rest)"
  shows "\<exists>c'. Exec_loop tag err c = ((fst (exec_spec tag err ms), Some ErrDeadConn), c') \<and> \<not> c_alive c' \<and> keeps c c'"
proof -
  obtain tag' err' where s: "exec_spec tag err ms = (tag', err')" by (cases "exec_spec tag err ms")
  have "conn_at c left (srv_bytes ms @ frame (srv_frame (SError fs)) @ rest)"
    using assms(4) by (simp add: srv_bytes_def)
  from Exec_loop_msgs [OF assms(1) this, of tag err] s obtain c1 left1 where c1: "Exec_loop tag err c = Exec_loop tag' err' c1"
    "conn_at c1 left1 (frame (srv_frame (SError fs)) @ rest)" "keeps c c1" by auto
  then obtain c2 where c2: "conn_rxMsg c1 = ((errorResponse, None), c2)" "conn_at c2 (error_bytes fs) rest" "keeps c1 c2"
    using conn_rxMsg_at [of c1 left1 errorResponse "error_bytes fs" rest] assms(2) by (auto simp: msg_ok.simps)
  obtain c3 where c3: "rxErrorResponse c2 = (pg_error fs, c3)" "keeps c2 c3" "\<not> c_alive c3"
    using rxErrorResponse_at [OF _ c2(2)] assms(2,3) by (auto simp: msg_ok.simps)
  have "\<exists>e. Exec_loop tag' err' c1 = Exec_loop tag' e c3"
    using c2(1) c3(1) by (subst Exec_loop.simps) (auto simp: processContextFreeMsg_def msg_types msg_type_distinct)
  moreover have "Exec_loop tag' e c3 = ((tag', Some ErrDeadConn), c3)" for e
    using c3(3) by (subst Exec_loop.simps) (simp add: conn_rxMsg_def)
  ultimately show ?thesis using c1 c2 c3 s keeps_trans by auto
qed


section \<open>Properties\<close>

text \<open>The lock of a connection and its mark from the pool: only \<open>lock\<close>, \<open>unlock\<close> and the pool change them.\<close>

definition lock_of :: "Conn \<Rightarrow> bool \<times> int" where
  "lock_of c = (c_busy c, c_poolResetCount c)"

lemma lock_of_mr [simp]: "lock_of (c\<lparr>c_mr := r\<rparr>) = lock_of c"
  by (simp add: lock_of_def)

lemma lock_of_rx [simp]:
  "lock_of (die e c) = lock_of c"
  "lock_of (snd (conn_write b c)) = lock_of c"
  "lock_of (snd (conn_rxMsg c)) = lock_of c"
  "lock_of (rxReadyForQuery c) = lock_of c"
  "lock_of (rxBackendKeyData c) = lock_of c"
  "lock_of (snd (rxErrorResponse c)) = lock_of c"
  "lock_of (snd (processContextFreeMsg t c)) = lock_of c"
  by (auto simp: lock_of_def die_def conn_write_def conn_rxMsg_def rxReadyForQuery_def rxBackendKeyData_def rxErrorResponse_def
      processContextFreeMsg_def rxParameterStatus_def rxNotificationResponse_def Let_def split: prod.splits option.splits)

lemma lock_of_descriptions:
  "rxRowDescription c = Some (fs, c') \<Longrightarrow> lock_of c' = lock_of c"
  "rxParameterDescription c = Some (ps, c') \<Longrightarrow> lock_of c' = lock_of c"
  by (auto simp: rxRowDescription_def rxParameterDescription_def Let_def split: prod.splits if_splits)

lemma lock_of_Exec_loop: "lock_of (snd (Exec_loop tag e c)) = lock_of c"
proof (induction tag e c rule: Exec_loop.induct)
  case (1 tag e c)
  show ?case
    using 1(1) [OF refl refl refl] 1(2) [OF refl refl refl] 1(3) [OF refl refl refl]
    by (subst Exec_loop.simps) (simp add: Let_def)
qed

lemma lock_of_Prepare_loop: "Prepare_loop ps e c = Some ((x, y), c') \<Longrightarrow> lock_of c' = lock_of c"
proof (induction ps e c arbitrary: x y c' rule: Prepare_loop.induct)
  case (1 ps e c)
  note IH = 1(1) [OF refl refl refl] 1(2) [OF refl refl refl] 1(3) [OF refl refl refl] 1(4) [OF refl refl refl]
  have setps: "lock_of (d\<lparr>c_preparedStatements := z\<rparr>) = lock_of d" for d z by (simp add: lock_of_def)
  show ?case
    using 1(5) IH
    by (subst (asm) Prepare_loop.simps)
      (auto simp: Let_def setps lock_of_descriptions split: if_splits option.splits)
qed

lemma lock_of_Prepare: "conn_Prepare name sql c = Some ((x, y), c') \<Longrightarrow> lock_of c' = lock_of c"
  by (auto simp: conn_Prepare_def split: if_splits prod.splits bool.splits dest!: lock_of_Prepare_loop)
    (metis lock_of_rx(2) snd_conv)+


lemma lock_of_send_buf [simp]: "lock_of (snd (send_buf b c)) = lock_of c"
  by (simp add: send_buf_def conn_write_def) (simp add: lock_of_def)

lemma lock_of_sendPreparedQuery [simp]: "lock_of (snd (sendPreparedQuery sc ps args c)) = lock_of c"
  by (simp add: sendPreparedQuery_def Let_def split: prod.split option.split)

lemma lock_of_sendQuery: "sendQuery sc sql args c = Some (e, c') \<Longrightarrow> lock_of c' = lock_of c"
  by (auto simp: sendQuery_def sendSimpleQuery_def split: option.splits if_splits prod.splits dest!: lock_of_Prepare
      dest!: arg_cong [where f = "lock_of \<circ> snd" and y = "(e, c')"])

lemma lock_of_Exec:
  assumes "conn_Exec sc sql args c = Some (x, c')"
  shows "lock_of c' = lock_of c"
proof (cases "c_busy c")
  case True
  with assms show ?thesis by (simp add: conn_Exec_def conn_lock_def)
next
  case False
  let ?c = "c\<lparr>c_busy := True\<rparr>"
  obtain sent c1 where s: "sendQuery sc sql args ?c = Some (sent, c1)"
    using assms False by (auto simp: conn_Exec_def conn_lock_def split: option.splits)
  define r where "r = (case sent of Some e \<Rightarrow> (([], Some e), c1) | None \<Rightarrow> Exec_loop [] None c1)"
  have "lock_of (snd r) = lock_of ?c"
    using lock_of_sendQuery [OF s] lock_of_Exec_loop [of "[]" None c1] by (auto simp: r_def split: option.splits)
  moreover have "c' = snd (conn_unlock (snd r))"
    using assms False s by (auto simp: conn_Exec_def conn_lock_def r_def split: prod.splits)
  ultimately show ?thesis
    using False by (simp add: conn_unlock_def lock_of_def)
qed

lemma Exec_answer:
  assumes "\<not> c_busy c" and sent: "sendQuery sc sql args (c\<lparr>c_busy := True\<rparr>) = Some (None, c1)"
    and ms: "list_all (\<lambda>m. msg_ok m \<and> \<not> fatal_msg m) ms"
  shows "(conn_at c1 left (srv_bytes ms @ ready_bytes st @ rest) \<longrightarrow>
      (\<exists>c'. conn_Exec sc sql args c = Some (exec_spec [] None ms, c') \<and> conn_at c' [] rest \<and> \<not> c_busy c' \<and>
         c_TxStatus c' = st)) \<and>
    (msg_ok (SError fs) \<and> fatal_msg (SError fs) \<and> conn_at c1 left (srv_bytes (ms @ [SError fs]) @ rest) \<longrightarrow>
      (\<exists>c' tag. conn_Exec sc sql args c = Some ((tag, Some ErrDeadConn), c') \<and> \<not> c_alive c' \<and> \<not> c_busy c'))"
proof -
  have busy: "c_busy c1" using lock_of_sendQuery [OF sent] by (simp add: lock_of_def)
  have exec: "conn_Exec sc sql args c = Some ((tag, err), c2\<lparr>c_busy := False\<rparr>)"
    if "Exec_loop [] None c1 = ((tag, err), c2)" "keeps c1 c2" for tag err c2
    using assms(1) sent that busy
    by (auto simp: conn_Exec_def conn_lock_def conn_unlock_def keeps_def)
  show ?thesis
  proof (intro conjI impI; (elim conjE)?)
    assume "conn_at c1 left (srv_bytes ms @ ready_bytes st @ rest)"
    from Exec_loop_response [OF ms this, of "[]" None] obtain c2 where
      c2: "Exec_loop [] None c1 = (exec_spec [] None ms, c2)" "conn_at c2 [] rest" "keeps c1 c2" "c_TxStatus c2 = st" by blast
    with exec [of "fst (exec_spec [] None ms)" "snd (exec_spec [] None ms)" c2]
    show "\<exists>c'. conn_Exec sc sql args c = Some (exec_spec [] None ms, c') \<and> conn_at c' [] rest \<and> \<not> c_busy c' \<and> c_TxStatus c' = st"
      by (intro exI [of _ "c2\<lparr>c_busy := False\<rparr>"]) (simp add: conn_at_def)
  next
    assume "msg_ok (SError fs)" "fatal_msg (SError fs)" "conn_at c1 left (srv_bytes (ms @ [SError fs]) @ rest)"
    from Exec_loop_fatal [OF ms this, of "[]" None] exec
    show "\<exists>c' tag. conn_Exec sc sql args c = Some ((tag, Some ErrDeadConn), c') \<and> \<not> c_alive c' \<and> \<not> c_busy c'"
      by fastforce
  qed
qed

text \<open>
  When a statement was sent and the server answers with any sequence of messages up to
  \<open>ReadyForQuery\<close>, \<open>Exec\<close> returns the tag of the last command and the first error the server
  reported, has read exactly the answer, and leaves the connection unlocked, alive and with the
  transaction status of the server. An error of severity FATAL makes it return \<open>ErrDeadConn\<close>
  instead of that error, and the connection is dead.
\<close>

theorem Exec_response:
  assumes "\<not> c_busy c" and sent: "sendQuery sc sql args (c\<lparr>c_busy := True\<rparr>) = Some (None, c1)"
    and ms: "list_all (\<lambda>m. msg_ok m \<and> \<not> fatal_msg m) ms"
  shows "(conn_at c1 left (srv_bytes ms @ ready_bytes st @ rest) \<longrightarrow>
      (\<exists>c'. conn_Exec sc sql args c = Some (exec_spec [] None ms, c') \<and> conn_at c' [] rest \<and> \<not> c_busy c' \<and>
         c_TxStatus c' = st)) \<and>
    (msg_ok (SError fs) \<and> fatal_msg (SError fs) \<and> conn_at c1 left (srv_bytes (ms @ [SError fs]) @ rest) \<longrightarrow>
      (\<exists>c' tag. conn_Exec sc sql args c = Some ((tag, Some ErrDeadConn), c') \<and> \<not> c_alive c' \<and> \<not> c_busy c'))"
  using assms by (rule Exec_answer)


definition demo_conn :: "bytes \<Rightarrow> Conn" where
  "demo_conn input = \<lparr>c_mr = \<lparr>mr_input = input, mr_buf = replicate 128 0, mr_remaining = 0, mr_err = None\<rparr>, c_out = [],
     c_broken = False, c_Pid = 0, c_SecretKey = 0, c_RuntimeParams = Map.empty, c_PgTypes = Map.empty,
     c_config = \<lparr>cc_Host = [], cc_Port = 0, cc_Database = [], cc_User = [], cc_Password = [], cc_RuntimeParams = []\<rparr>,
     c_TxStatus = 0, c_preparedStatements = Map.empty, c_channels = [], c_notifications = [], c_alive = True,
     c_causeOfDeath = None, c_busy = False, c_poolResetCount = 0\<rparr>"

lemma demo_conn_at: "conn_at (demo_conn input) [] input" "conn_at ((demo_conn input)\<lparr>c_busy := b, c_out := o'\<rparr>) [] input"
  by (simp_all add: demo_conn_def conn_at_def mr_at_def)

theorem Exec_response_witness:
  "\<exists>c'. conn_Exec int_strconv ''commit'' [] (demo_conn (srv_bytes [SCommandComplete ''COMMIT''] @ ready_bytes 73)) =
     Some ((''COMMIT'', None), c')"
proof -
  let ?c = "demo_conn (srv_bytes [SCommandComplete ''COMMIT''] @ ready_bytes 73)"
  let ?b = "wb_buf (closeMsg (WriteCString ''commit'' (newWriteBuf (byte_of_char CHR ''Q''))))"
  let ?c1 = "?c\<lparr>c_busy := True, c_out := ?b\<rparr>"
  have sent: "sendQuery int_strconv ''commit'' [] (?c\<lparr>c_busy := True\<rparr>) = Some (None, ?c1)"
    by (simp add: sendQuery_def sendSimpleQuery_def send_buf_def conn_write_def demo_conn_def)
  have free: "\<not> c_busy ?c" by (simp add: demo_conn_def)
  have ms: "list_all (\<lambda>m. msg_ok m \<and> \<not> fatal_msg m) [SCommandComplete ''COMMIT'']" by (simp add: msg_ok.simps)
  have "conn_at ?c1 [] (srv_bytes [SCommandComplete ''COMMIT''] @ ready_bytes 73 @ [])"
    using demo_conn_at(2) by simp
  with Exec_response [OF free sent ms, THEN conjunct1, rule_format, of "[]" 73 "[]"] show ?thesis by auto
qed

subsection \<open>One row\<close>

text \<open>Messages that \<open>Next\<close> passes over.\<close>

fun passed_over :: "srv_msg \<Rightarrow> bool" where
  "passed_over (SRowDescription _) = False"
| "passed_over (SDataRow _) = False"
| "passed_over (SError _) = False"
| "passed_over _ = True"

lemma Next_loop_msg:
  assumes "msg_ok m" "passed_over m" and at: "conn_at c left (frame (srv_frame m) @ rest)"
  shows "\<exists>c' left'. Next_loop ro c = Next_loop ro c' \<and> conn_at c' left' rest \<and> keeps c c'"
proof -
  obtain t body where f: "srv_frame m = (t, body)" by (cases "srv_frame m")
  have "length body + 4 < 2 ^ 31" using assms(1) f by (simp add: msg_ok.simps)
  then obtain c1 where c1: "conn_rxMsg c = ((t, None), c1)" "conn_at c1 body rest" "keeps c c1"
    using conn_rxMsg_at [of c left t body rest] at f by auto
  show ?thesis
  proof (cases "\<exists>s. m = SBindComplete \<or> m = SCommandComplete s")
    case True
    then have "Next_loop ro c = Next_loop ro c1"
      using c1 f by (subst Next_loop.simps) (auto simp: msg_types msg_type_distinct)
    with c1 show ?thesis by blast
  next
    case False
    obtain c2 left' where c2: "processContextFreeMsg t c1 = (None, c2)" "conn_at c2 left' rest" "keeps c1 c2"
      using processContextFreeMsg_at [OF assms(1) _ f c1(2)] assms(2) False by (cases m) auto
    have "t \<noteq> readyForQuery" "t \<noteq> dataRow" "t \<noteq> bindComplete" "t \<noteq> commandComplete"
      using False f assms(2) by (cases m; auto simp: msg_types msg_type_distinct)+
    with c1(1) c2(1) have "Next_loop ro c = Next_loop ro c2"
      by (subst Next_loop.simps) simp
    with c1 c2 keeps_trans show ?thesis by blast
  qed
qed

lemma Next_loop_msgs:
  "list_all (\<lambda>m. msg_ok m \<and> passed_over m) ms \<Longrightarrow> conn_at c left (srv_bytes ms @ rest) \<Longrightarrow>
   \<exists>c' left'. Next_loop ro c = Next_loop ro c' \<and> conn_at c' left' rest \<and> keeps c c'"
proof (induction ms arbitrary: c left)
  case Nil
  then show ?case by (auto simp: srv_bytes_def)
next
  case (Cons m ms)
  obtain c1 left1 where c1: "Next_loop ro c = Next_loop ro c1" "conn_at c1 left1 (srv_bytes ms @ rest)" "keeps c c1"
    using Next_loop_msg [of m c left "srv_bytes ms @ rest" ro] Cons.prems by (auto simp: srv_bytes_Cons)
  with Cons.IH [of c1 left1] Cons.prems keeps_trans show ?case by fastforce
qed

fun first_error :: "pgx_error option \<Rightarrow> srv_msg list \<Rightarrow> pgx_error option" where
  "first_error err [] = err"
| "first_error err (SError fs # ms) = first_error (if err = None then Some (PgErr (pg_error fs)) else err) ms"
| "first_error err (_ # ms) = first_error err ms"

lemma readUntilReadyForQuery_msg:
  assumes ok: "msg_ok m" "\<not> fatal_msg m" and at: "conn_at c left (frame (srv_frame m) @ rest)"
  shows "\<exists>c' left'. readUntilReadyForQuery ro c = readUntilReadyForQuery (ro\<lparr>ro_err := first_error (ro_err ro) [m]\<rparr>) c' \<and>
    conn_at c' left' rest \<and> keeps c c'"
proof -
  obtain t body where f: "srv_frame m = (t, body)" by (cases "srv_frame m")
  have "length body + 4 < 2 ^ 31" using ok(1) f by (simp add: msg_ok.simps)
  then obtain c1 where c1: "conn_rxMsg c = ((t, None), c1)" "conn_at c1 body rest" "keeps c c1"
    using conn_rxMsg_at [of c left t body rest] at f by auto
  consider (skip) b s where "m = SRowDescription b \<or> m = SDataRow b \<or> m = SBindComplete \<or> m = SCommandComplete s"
    | (err) fs where "m = SError fs" | (free) "passed_over m" "\<forall>s. m \<noteq> SBindComplete \<and> m \<noteq> SCommandComplete s"
    by (cases m) auto
  then show ?thesis
  proof cases
    case skip
    then have "readUntilReadyForQuery ro c = readUntilReadyForQuery ro c1" "first_error (ro_err ro) [m] = ro_err ro"
      using c1 f by (subst readUntilReadyForQuery.simps, auto simp: msg_types msg_type_distinct)
    with c1 show ?thesis by auto
  next
    case err
    then have "t = errorResponse" "conn_at c1 (error_bytes fs) rest" using f c1 by auto
    then obtain c2 where c2: "rxErrorResponse c1 = (pg_error fs, c2)" "conn_at c2 [] rest" "keeps c1 c2"
      using rxErrorResponse_at [of fs c1 rest] ok err by (auto simp: msg_ok.simps)
    have "readUntilReadyForQuery ro c = readUntilReadyForQuery (ro\<lparr>ro_err := first_error (ro_err ro) [m]\<rparr>) c2"
      using c1(1) c2(1) \<open>t = errorResponse\<close> err
      by (subst readUntilReadyForQuery.simps) (auto simp: msg_types msg_type_distinct Let_def)
    with c1 c2 keeps_trans show ?thesis by blast
  next
    case free
    obtain c2 left' where c2: "processContextFreeMsg t c1 = (None, c2)" "conn_at c2 left' rest" "keeps c1 c2"
      using processContextFreeMsg_at [OF ok f c1(2)] free by (cases m) auto
    have "t \<noteq> readyForQuery" "t \<noteq> dataRow" "t \<noteq> bindComplete" "t \<noteq> commandComplete" "t \<noteq> rowDescription" "t \<noteq> errorResponse"
      using free f by (cases m; auto simp: msg_types msg_type_distinct)+
    with c1(1) c2(1) have "readUntilReadyForQuery ro c = readUntilReadyForQuery ro c2"
      by (subst readUntilReadyForQuery.simps) simp
    moreover have "first_error (ro_err ro) [m] = ro_err ro" using free by (cases m) auto
    ultimately show ?thesis using c1 c2 keeps_trans by auto
  qed
qed

lemma readUntilReadyForQuery_response:
  "list_all (\<lambda>m. msg_ok m \<and> \<not> fatal_msg m) ms \<Longrightarrow> conn_at c left (srv_bytes ms @ ready_bytes st @ rest) \<Longrightarrow> \<not> ro_closed ro \<Longrightarrow>
   ro_unlockConn ro \<Longrightarrow> c_busy c \<Longrightarrow>
   \<exists>ro' c'. readUntilReadyForQuery ro c = (ro', c') \<and> ro_closed ro' \<and> ro_err ro' = first_error (ro_err ro) ms \<and>
     conn_at c' [] rest \<and> \<not> c_busy c' \<and> c_TxStatus c' = st"
proof (induction ms arbitrary: ro c left)
  case Nil
  then obtain c1 where c1: "conn_rxMsg c = ((readyForQuery, None), c1)" "conn_at c1 [st] rest" "keeps c c1"
    using conn_rxMsg_at [of c left readyForQuery "[st]" rest] by (auto simp: ready_bytes_def srv_bytes_def)
  then have "readUntilReadyForQuery ro c = rows_close ro (rxReadyForQuery c1)"
    by (subst readUntilReadyForQuery.simps) simp
  with rxReadyForQuery_at [OF c1(2)] c1(3) Nil.prems show ?case
    by (auto simp: rows_close_def conn_unlock_def keeps_def conn_at_def)
next
  case (Cons m ms)
  obtain c1 left1 where c1: "readUntilReadyForQuery ro c = readUntilReadyForQuery (ro\<lparr>ro_err := first_error (ro_err ro) [m]\<rparr>) c1"
    "conn_at c1 left1 (srv_bytes ms @ ready_bytes st @ rest)" "keeps c c1"
    using readUntilReadyForQuery_msg [of m c left _ ro] Cons.prems by (fastforce simp: srv_bytes_Cons)
  have "first_error (first_error (ro_err ro) [m]) ms = first_error (ro_err ro) (m # ms)" by (cases m) auto
  with Cons.IH [of c1 left1 "ro\<lparr>ro_err := first_error (ro_err ro) [m]\<rparr>"] Cons.prems c1 show ?case
    by (auto simp: keeps_def)
qed


definition row_bytes :: "bytes \<Rightarrow> bytes" where
  "row_bytes body = frame (dataRow, be16 1 @ be32 (word_of_nat (length body)) @ body)"

lemma Next_loop_row:
  assumes "ro_fields ro = [fd]" and "conn_at c left (row_bytes body @ rest)" and "length body + 10 < 2 ^ 31"
  shows "\<exists>c'. Next_loop ro c = (True, ro, c') \<and> conn_at c' (be32 (word_of_nat (length body)) @ body) rest \<and> keeps c c'"
proof -
  let ?b = "be32 (word_of_nat (length body)) @ body"
  obtain c1 where c1: "conn_rxMsg c = ((dataRow, None), c1)" "conn_at c1 (be16 1 @ ?b) rest" "keeps c c1"
    using conn_rxMsg_at [of c left dataRow "be16 1 @ ?b" rest] assms(2,3) by (auto simp: row_bytes_def)
  obtain r where r: "readInt16 (c_mr c1) = (1, r)" "mr_at r ?b rest"
    using read_word_at [where 'a = 16, of "c_mr c1" 2 1 ?b rest] c1(2) by (auto simp: conn_at_def readInt16_def be16_be_bytes)
  have "Next_loop ro c = (True, ro, c1\<lparr>c_mr := r\<rparr>)"
    using c1(1) r(1) assms(1) by (subst Next_loop.simps) (simp add: msg_types msg_type_distinct)
  with r(2) c1 show ?thesis by (auto simp: conn_at_def keeps_def)
qed

lemma Row_Scan_row:
  assumes ro: "ro_fields ro = [fd]" "ro_err ro = None" "\<not> ro_closed ro" "ro_unlockConn ro" and "c_busy c"
    and pre: "list_all (\<lambda>m. msg_ok m \<and> passed_over m) pre" and post: "list_all (\<lambda>m. msg_ok m \<and> \<not> fatal_msg m) post"
    and size: "length body + 10 < 2 ^ 31"
    and at: "conn_at c left (srv_bytes pre @ row_bytes body @ srv_bytes post @ ready_bytes st @ rest)"
    and dest: "\<And>vr rest. vr_at vr body [] rest \<Longrightarrow> vr_fd vr = fd \<Longrightarrow>
      \<exists>vr'. dest vr x = Some ((None, y), vr') \<and> vr_at vr' [] [] rest"
  shows "\<exists>ro' c'. Row_Scan dest ro c x = Some ((first_error None post, y), ro', c') \<and> ro_closed ro' \<and>
    conn_at c' [] rest \<and> \<not> c_busy c' \<and> c_TxStatus c' = st"
proof -
  let ?ro = "ro\<lparr>ro_rowCount := ro_rowCount ro + 1, ro_columnIdx := 0, ro_vrLen := 0\<rparr>"
  let ?tail = "srv_bytes post @ ready_bytes st @ rest"
  obtain c1 left1 where c1: "Next_loop ?ro c = Next_loop ?ro c1" "conn_at c1 left1 (row_bytes body @ ?tail)" "keeps c c1"
    using Next_loop_msgs [OF pre at] by blast
  obtain c2 where c2: "Next_loop ?ro c1 = (True, ?ro, c2)" "conn_at c2 (be32 (word_of_nat (length body)) @ body) ?tail" "keeps c1 c2"
    using Next_loop_row [of ?ro fd c1 left1 body ?tail] ro(1) c1(2) size by auto
  then have nxt: "rows_Next ro c = (True, ?ro, c2)"
    using c1(1) ro(3) by (simp add: rows_Next_def)
  obtain r where r: "readInt32 (c_mr c2) = (word_of_nat (length body), r)" "mr_at r body ?tail"
    using read_word_at [where 'a = 32, of "c_mr c2" 4 "word_of_nat (length body)" body ?tail] c2(2)
    by (auto simp: conn_at_def readInt32_def be32_be_bytes)
  let ?vr = "\<lparr>vr_mr = r, vr_fd = fd, vr_remaining = word_of_nat (length body), vr_err = None\<rparr>"
  let ?ro1 = "?ro\<lparr>ro_columnIdx := 1, ro_vrLen := word_of_nat (length body)\<rparr>"
  have col: "nextColumn ?ro c2 = Some (Some ?vr, ?ro1, c2\<lparr>c_mr := r\<rparr>)"
    using r(1) ro by (simp add: nextColumn_def)
  have "vr_at ?vr body [] ?tail"
    using r(2) size by (simp add: vr_at_def sint_word_of_nat)
  from dest [OF this] obtain vr' where vr': "dest ?vr x = Some ((None, y), vr')" "vr_at vr' [] [] ?tail" by auto
  let ?ro2 = "?ro1\<lparr>ro_vrLen := vr_remaining vr'\<rparr>"
  let ?c3 = "c2\<lparr>c_mr := r, c_mr := vr_mr vr'\<rparr>"
  have scan: "rows_Scan dest ?ro c2 x = Some (y, ?ro2, ?c3)"
    using col vr' ro(1) by (simp add: rows_Scan_def Let_def vr_at_def)
  have "conn_at ?c3 [] ?tail" "c_busy ?c3"
    using vr'(2) c2 c1(3) assms(5) by (simp_all add: conn_at_def vr_at_def keeps_def)
  then obtain ro' c' where u: "readUntilReadyForQuery ?ro2 ?c3 = (ro', c')" "ro_closed ro'" "ro_err ro' = first_error None post"
    "conn_at c' [] rest" "\<not> c_busy c'" "c_TxStatus c' = st"
    using readUntilReadyForQuery_response [OF post, of ?c3 "[]" st rest ?ro2] ro by auto
  then have "rows_Close ?ro2 ?c3 = (ro', c')"
    using ro(3) by (simp add: rows_Close_def rows_close_def)
  then have "Row_Scan dest ro c x = Some ((first_error None post, y), ro', c')"
    using nxt scan u(3) ro(2) by (simp add: Row_Scan_def)
  with u show ?thesis by blast
qed

text \<open>
  Scanning the row of a query whose answer holds one value hands the destination a reader
  of exactly that value; when it reads the value, \<open>Scan\<close> returns the first error the server
  reported after the row, nil if there was none. The rows are closed, the whole answer is read
  and the connection is unlocked for the next statement.
\<close>

theorem Row_Scan_value:
  assumes ro: "ro_fields ro = [fd]" "ro_err ro = None" "\<not> ro_closed ro" "ro_unlockConn ro" and "c_busy c"
    and pre: "list_all (\<lambda>m. msg_ok m \<and> passed_over m) pre" and post: "list_all (\<lambda>m. msg_ok m \<and> \<not> fatal_msg m) post"
    and size: "length body + 10 < 2 ^ 31"
    and at: "conn_at c left (srv_bytes pre @ row_bytes body @ srv_bytes post @ ready_bytes st @ rest)"
    and dest: "\<And>vr rest. vr_at vr body [] rest \<Longrightarrow> vr_fd vr = fd \<Longrightarrow>
      \<exists>vr'. dest vr x = Some ((None, y), vr') \<and> vr_at vr' [] [] rest"
  shows "\<exists>ro' c'. Row_Scan dest ro c x = Some ((first_error None post, y), ro', c') \<and> ro_closed ro' \<and>
    conn_at c' [] rest \<and> \<not> c_busy c' \<and> c_TxStatus c' = st"
  using assms by (rule Row_Scan_row)

text \<open>A destination that takes the raw bytes of the column.\<close>

definition raw_column :: "bytes column_reader" where
  "raw_column vr st = map_option (\<lambda>(b, vr). ((None, b), vr)) (vr_ReadBytes (vr_Len vr) vr)"

lemma raw_column_at:
  assumes "vr_at vr body [] rest"
  shows "\<exists>vr'. raw_column vr x = Some ((None, body), vr') \<and> vr_at vr' [] [] rest"
  using vr_ReadBytes_at [of vr body "[]" "[]" rest] assms vr_at_Len [OF assms] by (auto simp: raw_column_def)

theorem Row_Scan_value_witness:
  "\<exists>ro' c'. Row_Scan raw_column (new_rows\<lparr>ro_unlockConn := True, ro_fields := [vr_fd (value_reader JsonOid [])]\<rparr>)
     ((demo_conn (srv_bytes [SBindComplete] @ row_bytes [123, 125] @ srv_bytes [SCommandComplete ''SELECT 1''] @ ready_bytes 73))\<lparr>c_busy := True\<rparr>) [] =
     Some ((None, [123, 125]), ro', c')"
proof -
  let ?ro = "new_rows\<lparr>ro_unlockConn := True, ro_fields := [vr_fd (value_reader JsonOid [])]\<rparr>"
  let ?in = "srv_bytes [SBindComplete] @ row_bytes [123, 125] @ srv_bytes [SCommandComplete ''SELECT 1''] @ ready_bytes 73 @ []"
  let ?c = "(demo_conn ?in)\<lparr>c_busy := True\<rparr>"
  have at: "conn_at ?c [] ?in" by (simp add: demo_conn_def conn_at_def mr_at_def)
  have "\<exists>ro' c'. Row_Scan raw_column ?ro ?c [] = Some ((first_error None [SCommandComplete ''SELECT 1''], [123, 125]), ro', c') \<and>
      ro_closed ro' \<and> conn_at c' [] [] \<and> \<not> c_busy c' \<and> c_TxStatus c' = 73"
    by (rule Row_Scan_value [OF _ _ _ _ _ _ _ _ at]) (simp_all add: new_rows_def msg_ok.simps raw_column_at)
  then show ?thesis by auto
qed

end
