(* ===== verification/Pgx_Notify.thy ===== *)
theory Pgx_Notify
  imports Pgx_Conn
begin

text \<open>
  Waiting for notifications (\<open>WaitForNotification\<close> of \<open>pgx/conn.go\<close>). The clock and the deadlines of the link are a parameter: what the
  calls of \<open>time.Now\<close>, \<open>SetReadDeadline\<close> and \<open>Peek\<close> return, one after the other, and how many bytes of the server's answer to the
  message that keeps the connection alive arrive before its deadline. The wait ends when the clock passes its end; a
  notification that comes with that answer is not handed out.
\<close>

section \<open>The environment\<close>

datatype peeked = PeekData | PeekTimeout | PeekFailed

record wait_env =
  we_now :: "nat \<Rightarrow> int"
  we_SetReadDeadline :: "nat \<Rightarrow> bool"
  we_Peek :: "nat \<Rightarrow> int \<Rightarrow> peeked"
  we_nop :: "nat \<Rightarrow> nat"

text \<open>
  The connection, the time of its last activity and the number of calls answered so far. Only messages received while waiting
  change the time here; those of \<open>Exec\<close> do too, but the time is set again afterwards.
\<close>

record waiter =
  wt_conn :: Conn
  wt_lastActivityTime :: int
  wt_calls :: nat

abbreviation tick :: "waiter \<Rightarrow> waiter" where
  "tick w \<equiv> w\<lparr>wt_calls := Suc (wt_calls w)\<rparr>"

section \<open>Waiting\<close>

function waitForNotification :: "wait_env \<Rightarrow> int \<Rightarrow> waiter \<Rightarrow> (pgx_error, Notification) result \<times> waiter" where
  "waitForNotification env deadline w =
     (let k = wt_calls w; c = wt_conn w in
      if \<not> we_SetReadDeadline env k then (Inl (NetErr ''SetReadDeadline''), tick w)
      else
        case we_Peek env k deadline of
          PeekTimeout \<Rightarrow> (Inl ErrNotificationTimeout, tick w)
        | PeekFailed \<Rightarrow> (Inl (NetErr ''Peek''), tick w)
        | PeekData \<Rightarrow>
            if \<not> we_SetReadDeadline env (Suc k) then (Inl (NetErr ''SetReadDeadline''), tick (tick w))
            else
              let m = conn_rxMsg c;
                  w1 = (tick (tick w))\<lparr>wt_conn := snd m, wt_lastActivityTime := (if c_alive c then we_now env (Suc k) else wt_lastActivityTime w)\<rparr> in
              if snd (fst m) \<noteq> None then (Inl (the (snd (fst m))), w1)
              else
                let p = processContextFreeMsg (fst (fst m)) (snd m) in
                if fst p \<noteq> None then (Inl (the (fst p)), w1\<lparr>wt_conn := snd p\<rparr>)
                else
                  case c_notifications (snd p) of
                    n # ns \<Rightarrow> (Inr n, w1\<lparr>wt_conn := (snd p)\<lparr>c_notifications := ns\<rparr>\<rparr>)
                  | [] \<Rightarrow> waitForNotification env deadline (w1\<lparr>wt_conn := snd p\<rparr>))"
  by pat_completeness auto
termination
  using conn_rxMsg_input(2)
  by (relation "measure (\<lambda>(env, d, w). pending (wt_conn w))")
    (simp_all add: order_le_less_trans [OF processContextFreeMsg_input])

declare waitForNotification.simps [simp del]

text \<open>
  The message that keeps the connection alive: of what the server will send, so much arrives before the deadline.
\<close>

definition ensure_alive :: "strconv \<Rightarrow> wait_env \<Rightarrow> int \<Rightarrow> waiter \<Rightarrow> (pgx_error option \<times> waiter) option" where
  "ensure_alive sc env now w =
     (let k = wt_calls w; c = wt_conn w; input = mr_input (c_mr c); n = we_nop env k in
      if \<not> we_SetReadDeadline env k then Some (Some (NetErr ''SetReadDeadline''), tick w)
      else
        case conn_Exec sc ''--;'' [] (c\<lparr>c_mr := (c_mr c)\<lparr>mr_input := take n input\<rparr>\<rparr>) of
          None \<Rightarrow> None
        | Some ((_, e), c) \<Rightarrow>
            (let w = (tick w)\<lparr>wt_conn := c\<lparr>c_mr := (c_mr c)\<lparr>mr_input := mr_input (c_mr c) @ drop n input\<rparr>\<rparr>\<rparr> in
             Some (if e \<noteq> None then (e, w) else (None, w\<lparr>wt_lastActivityTime := now\<rparr>))))"

definition fifteen_seconds :: int where
  "fifteen_seconds = 15 * 10 ^ 9"

partial_function (option) wait_loop :: "strconv \<Rightarrow> wait_env \<Rightarrow> int \<Rightarrow> waiter \<Rightarrow> ((pgx_error, Notification) result \<times> waiter) option" where
  [code]: "wait_loop sc env stopTime w =
     (let now = we_now env (wt_calls w); nextEnsureAliveTime = wt_lastActivityTime w + fifteen_seconds in
      if now > stopTime then Some (Inl ErrNotificationTimeout, tick w)
      else
        case (if nextEnsureAliveTime < now then ensure_alive sc env now (tick w) else Some (None, tick w)) of
          None \<Rightarrow> None
        | Some (Some e, w) \<Rightarrow> Some (Inl e, w)
        | Some (None, w) \<Rightarrow>
            (case waitForNotification env (if stopTime < nextEnsureAliveTime then stopTime else nextEnsureAliveTime) w of
               (r, w) \<Rightarrow> if r = Inl ErrNotificationTimeout then wait_loop sc env stopTime w else Some (r, w)))"

definition WaitForNotification :: "strconv \<Rightarrow> wait_env \<Rightarrow> int \<Rightarrow> waiter \<Rightarrow> ((pgx_error, Notification) result \<times> waiter) option" where
  "WaitForNotification sc env timeout w =
     (case c_notifications (wt_conn w) of
        n # ns \<Rightarrow> Some (Inr n, w\<lparr>wt_conn := (wt_conn w)\<lparr>c_notifications := ns\<rparr>\<rparr>)
      | [] \<Rightarrow> wait_loop sc env (we_now env (wt_calls w) + timeout) (tick w))"

section \<open>Returning\<close>

lemma conn_Exec_nop: "conn_Exec sc sql [] c \<noteq> None"
  by (auto simp: conn_Exec_def sendQuery_def sendSimpleQuery_def split: prod.splits option.splits)

lemma waitForNotification_calls: "wt_calls w < wt_calls (snd (waitForNotification env d w))"
proof (induction env d w rule: waitForNotification.induct)
  case (1 env d w)
  show ?case
    using 1 [OF refl refl _ _ _ refl refl _ refl] by (subst waitForNotification.simps) (auto simp: Let_def split: peeked.split list.split intro: less_trans)
qed

lemma ensure_alive_calls: "ensure_alive sc env now w = Some (e, w') \<Longrightarrow> wt_calls w' = Suc (wt_calls w)"
  by (auto simp: ensure_alive_def Let_def split: if_splits option.splits)

lemma ensure_alive_returns: "\<exists>e w'. ensure_alive sc env now w = Some (e, w')"
  using conn_Exec_nop [of sc "''--;''" "(wt_conn w)\<lparr>c_mr := (c_mr (wt_conn w))\<lparr>mr_input := take (we_nop env (wt_calls w)) (mr_input (c_mr (wt_conn w)))\<rparr>\<rparr>"]
  by (auto simp: ensure_alive_def Let_def)

lemma wait_loop_returns:
  assumes "\<And>j. K \<le> j \<Longrightarrow> stop < we_now env j"
  shows "\<exists>r w'. wait_loop sc env stop w = Some (r, w')"
proof (induction "K - wt_calls w" arbitrary: w rule: less_induct)
  case less
  show ?case
  proof (cases "we_now env (wt_calls w) > stop")
    case True
    then show ?thesis by (subst wait_loop.simps) simp
  next
    case False
    then have k: "wt_calls w < K" using assms not_le by blast
    let ?now = "we_now env (wt_calls w)" and ?next = "wt_lastActivityTime w + fifteen_seconds"
    obtain e w1 where w1: "(if ?next < ?now then ensure_alive sc env ?now (tick w) else Some (None, tick w)) = Some (e, w1)"
      using ensure_alive_returns by (metis (full_types))
    then have c1: "wt_calls w < wt_calls w1" using ensure_alive_calls by (fastforce split: if_splits)
    obtain r w2 where w2: "waitForNotification env (if stop < ?next then stop else ?next) w1 = (r, w2)" by fastforce
    with c1 have "wt_calls w < wt_calls w2" using waitForNotification_calls [of w1 env "if stop < ?next then stop else ?next"] by simp
    with k have "K - wt_calls w2 < K - wt_calls w" by simp
    from less [OF this] obtain r' w' where "wait_loop sc env stop w2 = Some (r', w')" by blast
    with False w1 w2 show ?thesis
      by (subst wait_loop.simps) (cases e; auto simp: Let_def)
  qed
qed

section \<open>Messages while waiting\<close>

definition note_body :: "Notification \<Rightarrow> bytes" where
  "note_body n = be32 (n_Pid n) @ bytes_of_string (n_Channel n) @ [0] @ bytes_of_string (n_Payload n) @ [0]"

definition note_ok :: "Notification \<Rightarrow> bool" where
  "note_ok n \<longleftrightarrow> CHR 0x00 \<notin> set (n_Channel n) \<and> CHR 0x00 \<notin> set (n_Payload n) \<and> length (note_body n) + 4 < 2 ^ 31"

lemma conn_rxMsg_frame:
  assumes "conn_at c left (frame (t, body) @ rest)" and "length body + 4 < 2 ^ 31"
  shows "\<exists>r. conn_rxMsg c = ((t, None), c\<lparr>c_mr := r\<rparr>) \<and> mr_at r body rest"
proof -
  obtain r where "rxMsg (c_mr c) = ((t, None), r)" "mr_at r body rest"
    using rxMsg_skip [of "c_mr c" left t body rest] assms by (auto simp: conn_at_def)
  with assms(1) show ?thesis by (auto simp: conn_rxMsg_def conn_at_def)
qed

lemma rxNotificationResponse_at:
  assumes "mr_at (c_mr c) (note_body n) rest" and "note_ok n"
  shows "\<exists>r. rxNotificationResponse c = c\<lparr>c_mr := r, c_notifications := c_notifications c @ [n]\<rparr> \<and> mr_at r [] rest"
proof -
  have at: "mr_at (c_mr c) (be32 (n_Pid n) @ bytes_of_string (n_Channel n) @ [0] @ bytes_of_string (n_Payload n) @ [0] @ []) rest"
    using assms(1) by (simp add: note_body_def)
  obtain r1 where r1: "readInt32 (c_mr c) = (n_Pid n, r1)" "mr_at r1 (bytes_of_string (n_Channel n) @ [0] @ bytes_of_string (n_Payload n) @ [0] @ []) rest"
    using read_word_at [of "c_mr c" 4 "n_Pid n"] at by (auto simp: readInt32_def be32_be_bytes)
  obtain r2 where r2: "readCString r1 = (n_Channel n, r2)" "mr_at r2 (bytes_of_string (n_Payload n) @ [0] @ []) rest"
    using readCString_at [OF r1(2)] assms(2) by (auto simp: note_ok_def)
  obtain r3 where r3: "readCString r2 = (n_Payload n, r3)" "mr_at r3 [] rest"
    using readCString_at [OF r2(2)] assms(2) by (auto simp: note_ok_def)
  have "\<lparr>n_Pid = n_Pid n, n_Channel = n_Channel n, n_Payload = n_Payload n\<rparr> = n" by simp
  then show ?thesis using r1(1) r2(1) r3 by (intro exI [of _ r3]) (simp add: rxNotificationResponse_def)
qed

lemma processContextFreeMsg_note: "processContextFreeMsg notificationResponse c = (None, rxNotificationResponse c)"
  by (simp add: processContextFreeMsg_def msg_types msg_type_distinct)

lemma processContextFreeMsg_empty: "processContextFreeMsg emptyQueryResponse c = (None, c)"
  by (simp add: processContextFreeMsg_def msg_types msg_type_distinct)

text \<open>A notification that is the next message is handed out, after those received before it.\<close>

lemma waitForNotification_note:
  assumes at: "conn_at (wt_conn w) left (frame (notificationResponse, note_body n) @ rest)" and n: "note_ok n"
    and env: "we_SetReadDeadline env (wt_calls w)" "we_SetReadDeadline env (Suc (wt_calls w))" "we_Peek env (wt_calls w) d = PeekData"
  shows "\<exists>w'. waitForNotification env d w = (Inr (hd (c_notifications (wt_conn w) @ [n])), w') \<and>
    conn_at (wt_conn w') [] rest \<and> c_notifications (wt_conn w') = tl (c_notifications (wt_conn w) @ [n])"
proof -
  let ?c = "wt_conn w"
  have len: "length (note_body n) + 4 < 2 ^ 31" using n by (simp add: note_ok_def)
  obtain r where r: "conn_rxMsg ?c = ((notificationResponse, None), ?c\<lparr>c_mr := r\<rparr>)" "mr_at r (note_body n) rest"
    using conn_rxMsg_frame [OF at len] by blast
  obtain r' where r': "rxNotificationResponse (?c\<lparr>c_mr := r\<rparr>) = ?c\<lparr>c_mr := r', c_notifications := c_notifications ?c @ [n]\<rparr>" "mr_at r' [] rest"
    using rxNotificationResponse_at [of "?c\<lparr>c_mr := r\<rparr>" n rest] r(2) n by auto
  obtain x xs where q: "c_notifications ?c @ [n] = x # xs" by (cases "c_notifications ?c") auto
  show ?thesis
    using r r' q at env
    by (subst waitForNotification.simps) (simp add: Let_def processContextFreeMsg_note conn_at_def)
qed

section \<open>The answer that keeps the connection alive\<close>

lemma Exec_loop_context_free:
  assumes "conn_rxMsg c = ((t, None), c1)" and "t \<noteq> readyForQuery" "t \<noteq> rowDescription" "t \<noteq> dataRow" "t \<noteq> bindComplete" "t \<noteq> commandComplete"
    and "processContextFreeMsg t c1 = (None, c2)"
  shows "Exec_loop tag None c = Exec_loop tag None c2"
  using assms by (subst Exec_loop.simps) simp

definition nop_answer :: "Notification \<Rightarrow> byte \<Rightarrow> bytes" where
  "nop_answer n st = frame (notificationResponse, note_body n) @ frame (emptyQueryResponse, []) @ ready_bytes st"

lemma Exec_loop_nop:
  assumes at: "conn_at c left (nop_answer n st @ rest)" and n: "note_ok n"
  shows "\<exists>r. Exec_loop tag None c = ((tag, None), c\<lparr>c_mr := r, c_TxStatus := st, c_notifications := c_notifications c @ [n]\<rparr>) \<and> mr_at r [] rest"
proof -
  have alive: "c_alive c" using at by (simp add: conn_at_def)
  have ty: "notificationResponse \<notin> {readyForQuery, rowDescription, dataRow, bindComplete, commandComplete}"
    "emptyQueryResponse \<notin> {readyForQuery, rowDescription, dataRow, bindComplete, commandComplete}" by (simp_all add: msg_types msg_type_distinct)
  have at1: "conn_at c left (frame (notificationResponse, note_body n) @ frame (emptyQueryResponse, []) @ ready_bytes st @ rest)"
    using at by (simp add: nop_answer_def)
  have len: "length (note_body n) + 4 < 2 ^ 31" using n by (simp add: note_ok_def)
  obtain r1 where r1: "conn_rxMsg c = ((notificationResponse, None), c\<lparr>c_mr := r1\<rparr>)" "mr_at r1 (note_body n) (frame (emptyQueryResponse, []) @ ready_bytes st @ rest)"
    using conn_rxMsg_frame [OF at1 len] by blast
  obtain r2 where r2: "rxNotificationResponse (c\<lparr>c_mr := r1\<rparr>) = c\<lparr>c_mr := r2, c_notifications := c_notifications c @ [n]\<rparr>" (is "_ = ?c2")
    "mr_at r2 [] (frame (emptyQueryResponse, []) @ ready_bytes st @ rest)"
    using rxNotificationResponse_at [of "c\<lparr>c_mr := r1\<rparr>" n] r1(2) n by auto
  have e1: "Exec_loop tag None c = Exec_loop tag None ?c2"
    by (rule Exec_loop_context_free [OF r1(1)]) (use ty r2(1) in \<open>simp_all add: processContextFreeMsg_note\<close>)
  obtain r3 where r3: "conn_rxMsg ?c2 = ((emptyQueryResponse, None), ?c2\<lparr>c_mr := r3\<rparr>)" "mr_at r3 [] (ready_bytes st @ rest)"
    using conn_rxMsg_frame [of ?c2 "[]" emptyQueryResponse "[]" "ready_bytes st @ rest"] r2(2) alive by (auto simp: conn_at_def)
  have e2: "Exec_loop tag None ?c2 = Exec_loop tag None (?c2\<lparr>c_mr := r3\<rparr>)"
    by (rule Exec_loop_context_free [OF r3(1)]) (use ty in \<open>simp_all add: processContextFreeMsg_empty\<close>)
  obtain r4 where r4: "conn_rxMsg (?c2\<lparr>c_mr := r3\<rparr>) = ((readyForQuery, None), ?c2\<lparr>c_mr := r4\<rparr>)" "mr_at r4 [st] rest"
    using conn_rxMsg_frame [of "?c2\<lparr>c_mr := r3\<rparr>" "[]" readyForQuery "[st]" rest] r3(2) alive by (auto simp: conn_at_def ready_bytes_def)
  obtain r5 where r5: "readByte r4 = (st, r5)" "mr_at r5 [] rest" using readByte_at [of r4 st "[]" rest] r4(2) by auto
  have "Exec_loop tag None (?c2\<lparr>c_mr := r3\<rparr>) = ((tag, None), ?c2\<lparr>c_mr := r5, c_TxStatus := st\<rparr>)"
    using r4(1) r5(1) by (subst Exec_loop.simps) (simp add: rxReadyForQuery_def)
  with e1 e2 r5(2) show ?thesis by (intro exI [of _ r5]) simp
qed

lemma conn_Exec_nop_answer:
  assumes at: "conn_at c left (nop_answer n st @ rest)" and n: "note_ok n" and c: "\<not> c_busy c" "\<not> c_broken c" "c_preparedStatements c ''--;'' = None"
  shows "\<exists>r out. conn_Exec sc ''--;'' [] c =
    Some (([], None), c\<lparr>c_mr := r, c_TxStatus := st, c_notifications := c_notifications c @ [n], c_out := out\<rparr>) \<and> mr_at r [] rest"
proof -
  let ?b = "wb_buf (closeMsg (WriteCString ''--;'' (newWriteBuf (byte_of_char CHR ''Q''))))"
  let ?c1 = "c\<lparr>c_busy := True, c_out := c_out c @ ?b\<rparr>"
  have "conn_at ?c1 left (nop_answer n st @ rest)" using at by (simp add: conn_at_def)
  from Exec_loop_nop [OF this n] obtain r where
    r: "Exec_loop [] None ?c1 = (([], None), ?c1\<lparr>c_mr := r, c_TxStatus := st, c_notifications := c_notifications c @ [n]\<rparr>)" "mr_at r [] rest" by auto
  have "sendQuery sc ''--;'' [] (c\<lparr>c_busy := True\<rparr>) = Some (None, ?c1)"
    using c by (simp add: sendQuery_def sendSimpleQuery_def send_buf_def conn_write_def)
  with c(1) r have "conn_Exec sc ''--;'' [] c =
      Some (([], None), (?c1\<lparr>c_mr := r, c_TxStatus := st, c_notifications := c_notifications c @ [n]\<rparr>)\<lparr>c_busy := False\<rparr>)"
    by (simp add: conn_Exec_def conn_lock_def conn_unlock_def)
  moreover have "(?c1\<lparr>c_mr := r, c_TxStatus := st, c_notifications := c_notifications c @ [n]\<rparr>)\<lparr>c_busy := False\<rparr> =
      c\<lparr>c_mr := r, c_TxStatus := st, c_notifications := c_notifications c @ [n], c_out := c_out c @ ?b\<rparr>" using c(1) by (cases c) simp
  ultimately show ?thesis using r(2) by auto
qed

section \<open>Properties\<close>

text \<open>
  A wait ends: as soon as the clock stays past the end of the wait, whatever arrives and whatever the calls on the link
  return, \<open>WaitForNotification\<close> returns a notification or an error.
\<close>

theorem WaitForNotification_returns:
  assumes "\<forall>j\<ge>K. we_now env (wt_calls w) + timeout < we_now env j"
  shows "\<exists>r w'. WaitForNotification sc env timeout w = Some (r, w')"
proof (cases "c_notifications (wt_conn w)")
  case Nil
  then show ?thesis
    using wait_loop_returns [of K "we_now env (wt_calls w) + timeout" env sc "tick w"] assms by (auto simp: WaitForNotification_def)
qed (simp add: WaitForNotification_def)

definition demo_env :: wait_env where
  "demo_env = \<lparr>we_now = \<lambda>k. int k * 10 ^ 9, we_SetReadDeadline = \<lambda>_. True, we_Peek = \<lambda>_ _. PeekTimeout, we_nop = \<lambda>_. 1000\<rparr>"

theorem WaitForNotification_returns_witness:
  "\<exists>r w'. WaitForNotification int_strconv demo_env (10 ^ 9) \<lparr>wt_conn = demo_conn [], wt_lastActivityTime = 0, wt_calls = 0\<rparr> = Some (r, w')"
  by (rule WaitForNotification_returns [of 2]) (simp add: demo_env_def)

text \<open>
  Notifications are handed out in the order of their arrival: one that was received before is returned at once, without reading;
  otherwise, when the next message of the server is a notification and arrives in time, that one is.
\<close>

theorem notifications_in_order:
  "(c_notifications (wt_conn w) = n # ns \<longrightarrow>
      WaitForNotification sc env timeout w = Some (Inr n, w\<lparr>wt_conn := (wt_conn w)\<lparr>c_notifications := ns\<rparr>\<rparr>)) \<and>
   (c_notifications (wt_conn w) = [] \<and> conn_at (wt_conn w) left (frame (notificationResponse, note_body n) @ rest) \<and> note_ok n \<and>
      we_now env (Suc (wt_calls w)) \<le> we_now env (wt_calls w) + timeout \<and>
      we_now env (Suc (wt_calls w)) \<le> wt_lastActivityTime w + fifteen_seconds \<and>
      (\<forall>k. we_SetReadDeadline env k) \<and> (\<forall>k d. we_Peek env k d = PeekData) \<longrightarrow>
      (\<exists>w'. WaitForNotification sc env timeout w = Some (Inr n, w') \<and> conn_at (wt_conn w') [] rest \<and> c_notifications (wt_conn w') = []))"
proof (intro conjI impI; (elim conjE)?)
  assume none: "c_notifications (wt_conn w) = []" and at: "conn_at (wt_conn w) left (frame (notificationResponse, note_body n) @ rest)" "note_ok n"
    and time: "we_now env (Suc (wt_calls w)) \<le> we_now env (wt_calls w) + timeout" "we_now env (Suc (wt_calls w)) \<le> wt_lastActivityTime w + fifteen_seconds"
    and link: "\<forall>k. we_SetReadDeadline env k" "\<forall>k d. we_Peek env k d = PeekData"
  let ?w = "tick (tick w)" and ?stop = "we_now env (wt_calls w) + timeout" and ?next = "wt_lastActivityTime w + fifteen_seconds"
  obtain w' where "waitForNotification env (if ?stop < ?next then ?stop else ?next) ?w = (Inr n, w')" "conn_at (wt_conn w') [] rest" "c_notifications (wt_conn w') = []"
    using waitForNotification_note [of ?w left n rest env "if ?stop < ?next then ?stop else ?next"] at none link by auto
  with none time show "\<exists>w'. WaitForNotification sc env timeout w = Some (Inr n, w') \<and> conn_at (wt_conn w') [] rest \<and> c_notifications (wt_conn w') = []"
    by (simp add: WaitForNotification_def, subst wait_loop.simps) (simp add: Let_def)
qed (simp add: WaitForNotification_def)

theorem notifications_in_order_witness:
  "\<exists>w'. WaitForNotification int_strconv (demo_env\<lparr>we_Peek := \<lambda>_ _. PeekData\<rparr>) (10 ^ 10)
     \<lparr>wt_conn = demo_conn (frame (notificationResponse, note_body \<lparr>n_Pid = 7, n_Channel = ''a'', n_Payload = ''b''\<rparr>)), wt_lastActivityTime = 0, wt_calls = 0\<rparr> =
     Some (Inr \<lparr>n_Pid = 7, n_Channel = ''a'', n_Payload = ''b''\<rparr>, w')"
  using notifications_in_order [of "\<lparr>wt_conn = demo_conn (frame (notificationResponse, note_body \<lparr>n_Pid = 7, n_Channel = ''a'', n_Payload = ''b''\<rparr>)),
      wt_lastActivityTime = 0, wt_calls = 0\<rparr>" "\<lparr>n_Pid = 7, n_Channel = ''a'', n_Payload = ''b''\<rparr>" "[]" int_strconv "demo_env\<lparr>we_Peek := \<lambda>_ _. PeekData\<rparr>" "10 ^ 10" "[]" "[]"]
    demo_conn_at(1) [of "frame (notificationResponse, note_body \<lparr>n_Pid = 7, n_Channel = ''a'', n_Payload = ''b''\<rparr>)"]
  by (auto simp: demo_env_def demo_conn_def note_ok_def note_body_def fifteen_seconds_def)

text \<open>
  A notification that arrives with the answer to the message that keeps the connection alive is received but not handed out:
  the loop looks at received notifications only after a further message, so that with a quiet server the wait ends with
  \<open>ErrNotificationTimeout\<close> although the notification is in the queue.
\<close>

theorem nop_hides_notification:
  assumes at: "conn_at (wt_conn w) [] (nop_answer n st @ rest)" and n: "note_ok n"
    and c: "\<not> c_busy (wt_conn w)" "\<not> c_broken (wt_conn w)" "c_preparedStatements (wt_conn w) ''--;'' = None" "c_notifications (wt_conn w) = []"
    and idle: "wt_lastActivityTime w + fifteen_seconds < we_now env (Suc (wt_calls w))"
    and time: "we_now env (Suc (wt_calls w)) \<le> we_now env (wt_calls w) + timeout" "\<forall>j > Suc (wt_calls w). we_now env (wt_calls w) + timeout < we_now env j"
    and link: "\<forall>k. we_SetReadDeadline env k" "\<forall>k d. we_Peek env k d = PeekTimeout" "\<forall>k. length (nop_answer n st) \<le> we_nop env k"
  shows "\<exists>w'. WaitForNotification sc env timeout w = Some (Inl ErrNotificationTimeout, w') \<and> c_notifications (wt_conn w') = [n]"
proof -
  let ?w2 = "tick (tick w)" and ?now = "we_now env (Suc (wt_calls w))" and ?stop = "we_now env (wt_calls w) + timeout"
  let ?n = "we_nop env (wt_calls ?w2)" and ?c = "wt_conn w"
  let ?cut = "?c\<lparr>c_mr := (c_mr ?c)\<lparr>mr_input := take ?n (mr_input (c_mr ?c))\<rparr>\<rparr>"
  have "conn_at ?cut [] (nop_answer n st @ take (?n - length (nop_answer n st)) rest)"
    using at link(3) by (simp add: conn_at_def mr_at_def)
  from conn_Exec_nop_answer [OF this n, of sc] c obtain r out where
    "conn_Exec sc ''--;'' [] ?cut = Some (([], None), ?cut\<lparr>c_mr := r, c_TxStatus := st, c_notifications := [n], c_out := out\<rparr>)" by auto
  then obtain w3 where w3: "ensure_alive sc env ?now ?w2 = Some (None, w3)" "c_notifications (wt_conn w3) = [n]" "wt_calls w3 = Suc (wt_calls ?w2)"
    using link(1) by (auto simp: ensure_alive_def Let_def)
  have w4: "waitForNotification env d w3 = (Inl ErrNotificationTimeout, tick w3)" for d
    using link(1,2) by (subst waitForNotification.simps) (simp add: Let_def)
  have "wait_loop sc env ?stop (tick w3) = Some (Inl ErrNotificationTimeout, tick (tick w3))"
    using time(2) w3(3) by (subst wait_loop.simps) simp
  with w3 w4 idle time(1) have "wait_loop sc env ?stop (tick w) = Some (Inl ErrNotificationTimeout, tick (tick w3))"
    by (subst wait_loop.simps) (simp add: Let_def)
  with c(4) w3(2) show ?thesis by (simp add: WaitForNotification_def)
qed

theorem nop_hides_notification_witness:
  "\<exists>w'. WaitForNotification int_strconv (demo_env\<lparr>we_now := \<lambda>k. int k * (2 * 10 ^ 10)\<rparr>) (2 * 10 ^ 10)
     \<lparr>wt_conn = demo_conn (nop_answer \<lparr>n_Pid = 7, n_Channel = ''a'', n_Payload = ''b''\<rparr> 73), wt_lastActivityTime = 0, wt_calls = 0\<rparr> =
     Some (Inl ErrNotificationTimeout, w') \<and> c_notifications (wt_conn w') = [\<lparr>n_Pid = 7, n_Channel = ''a'', n_Payload = ''b''\<rparr>]"
proof -
  let ?n = "\<lparr>n_Pid = 7, n_Channel = ''a'', n_Payload = ''b''\<rparr>"
  have "length (nop_answer ?n 73) \<le> 1000" by (simp add: nop_answer_def note_body_def frame_def ready_bytes_def)
  then show ?thesis
    using demo_conn_at(1) [of "nop_answer ?n 73"]
    by (intro nop_hides_notification [where st = 73 and rest = "[]"])
      (auto simp: demo_env_def demo_conn_def note_ok_def note_body_def fifteen_seconds_def)
qed

end
