(* ===== verification/Pgx_Pool.thy ===== *)
theory Pgx_Pool
  imports Pgx_Conn
begin

text \<open>
  \<open>pgx/conn_pool.go\<close>: the pool of connections that serves the queries. Connections are objects
  shared by the pool and the clients that acquired them: they live in a heap and the pool's two
  slices hold their addresses. Each function is the part between \<open>Lock\<close> and \<open>Unlock\<close>, so
  the operations of concurrent clients interleave as sequences of these functions; waiting on the
  condition variable ends such a part (\<open>AcqWait\<close>), and the part that runs after a wake-up is
  \<open>acquire\<close> again. What \<open>connect\<close> returns for the n-th attempt is a parameter. Logging and the
  cached type tables are left out.
\<close>

section \<open>State\<close>

record pool_config =
  pc_dial :: "nat \<Rightarrow> (pgx_error, Conn) result"
  pc_MaxConnections :: int
  pc_AfterConnect :: "(Conn \<Rightarrow> pgx_error option \<times> Conn) option"
  pc_AcquireTimeout :: int

record ConnPool =
  cp_allConnections :: "nat list"
  cp_availableConnections :: "nat list"
  cp_maxConnections :: int
  cp_resetCount :: int
  cp_closed :: bool
  cp_preparedStatements :: "(string \<times> PreparedStatement) list"
  cp_acquireTimeout :: int

record pool_state =
  st_pool :: ConnPool
  st_heap :: "nat \<Rightarrow> Conn"
  st_next :: nat
  st_dials :: nat

abbreviation conn_in :: "pool_state \<Rightarrow> nat \<Rightarrow> Conn" where
  "conn_in st c \<equiv> st_heap st c"

definition set_conn :: "nat \<Rightarrow> Conn \<Rightarrow> pool_state \<Rightarrow> pool_state" where
  "set_conn c d st = st\<lparr>st_heap := (st_heap st)(c := d)\<rparr>"

definition set_pool :: "ConnPool \<Rightarrow> pool_state \<Rightarrow> pool_state" where
  "set_pool p st = st\<lparr>st_pool := p\<rparr>"

lemma set_conn_sel [simp]:
  "st_pool (set_conn c d st) = st_pool st" "st_heap (set_conn c d st) = (st_heap st)(c := d)"
  "st_next (set_conn c d st) = st_next st" "st_dials (set_conn c d st) = st_dials st"
  by (simp_all add: set_conn_def)

lemma set_pool_sel [simp]:
  "st_pool (set_pool p st) = p" "st_heap (set_pool p st) = st_heap st"
  "st_next (set_pool p st) = st_next st" "st_dials (set_pool p st) = st_dials st"
  by (simp_all add: set_pool_def)

section \<open>Operations\<close>

fun prepare_all :: "(string \<times> PreparedStatement) list \<Rightarrow> Conn \<Rightarrow> (pgx_error option \<times> Conn) option" where
  "prepare_all [] c = Some (None, c)"
| "prepare_all ((_, ps) # pss) c =
     (case conn_Prepare (ps_Name ps) (ps_SQL ps) c of
        None \<Rightarrow> None
      | Some ((_, Some e), c) \<Rightarrow> Some (Some e, die e c)
      | Some ((_, None), c) \<Rightarrow> prepare_all pss c)"

text \<open>\<open>createConnection\<close>: the address of the new connection. The outer \<open>None\<close> is a panic of \<open>Prepare\<close>.\<close>

definition createConnection :: "pool_config \<Rightarrow> pool_state \<Rightarrow> ((pgx_error, nat) result \<times> pool_state) option" where
  "createConnection cfg st =
     (let r = pc_dial cfg (st_dials st); st = st\<lparr>st_dials := st_dials st + 1\<rparr> in
      case r of
        Inl e \<Rightarrow> Some (Inl e, st)
      | Inr c \<Rightarrow>
          (case (case pc_AfterConnect cfg of None \<Rightarrow> (None, c) | Some f \<Rightarrow> f c) of
             (Some e, c) \<Rightarrow> Some (Inl e, st)
           | (None, c) \<Rightarrow>
               (case prepare_all (cp_preparedStatements (st_pool st)) c of
                  None \<Rightarrow> None
                | Some (Some e, c) \<Rightarrow> Some (Inl e, st)
                | Some (None, c) \<Rightarrow>
                    Some (Inr (st_next st), st\<lparr>st_heap := (st_heap st)(st_next st := c), st_next := st_next st + 1\<rparr>))))"

definition NewConnPool :: "pool_config \<Rightarrow> pool_state \<Rightarrow> (pgx_error option \<times> pool_state) option" where
  "NewConnPool cfg st =
     (let mx = (if pc_MaxConnections cfg = 0 then 5 else pc_MaxConnections cfg) in
      if mx < 1 then Some (Some (PoolErr ''MaxConnections must be at least 1''), st)
      else if pc_AcquireTimeout cfg < 0 then Some (Some (PoolErr ''AcquireTimeout must be equal to or greater than 0''), st)
      else
        let p = \<lparr>cp_allConnections = [], cp_availableConnections = [], cp_maxConnections = mx, cp_resetCount = 0,
                 cp_closed = False, cp_preparedStatements = [], cp_acquireTimeout = pc_AcquireTimeout cfg\<rparr> in
        case createConnection cfg (set_pool p st) of
          None \<Rightarrow> None
        | Some (Inl e, st) \<Rightarrow> Some (Some e, st)
        | Some (Inr c, st) \<Rightarrow>
            (let p = st_pool st in
             Some (None, set_pool (p\<lparr>cp_allConnections := cp_allConnections p @ [c],
                                     cp_availableConnections := cp_availableConnections p @ [c]\<rparr>) st)))"

datatype acq = Acquired nat | AcqErr pgx_error | AcqWait | AcqSpin

text \<open>
  \<open>acquire\<close> up to the wait: with all connections busy it waits when the pool is exactly full;
  a pool with more connections than its maximum would call \<open>acquire\<close> again without end.
\<close>

definition acquire :: "pool_config \<Rightarrow> pool_state \<Rightarrow> (acq \<times> pool_state) option" where
  "acquire cfg st =
     (let p = st_pool st in
      if cp_closed p then Some (AcqErr (PoolErr ''cannot acquire from closed pool''), st)
      else if cp_availableConnections p \<noteq> [] then
        (let c = last (cp_availableConnections p);
             st = set_conn c ((conn_in st c)\<lparr>c_poolResetCount := cp_resetCount p\<rparr>) st in
         Some (Acquired c, set_pool (p\<lparr>cp_availableConnections := butlast (cp_availableConnections p)\<rparr>) st))
      else if int (length (cp_allConnections p)) < cp_maxConnections p then
        (case createConnection cfg st of
           None \<Rightarrow> None
         | Some (Inl e, st) \<Rightarrow> Some (AcqErr e, st)
         | Some (Inr c, st) \<Rightarrow>
             (let st = set_conn c ((conn_in st c)\<lparr>c_poolResetCount := cp_resetCount (st_pool st)\<rparr>) st;
                  p = st_pool st in
              Some (Acquired c, set_pool (p\<lparr>cp_allConnections := cp_allConnections p @ [c]\<rparr>) st)))
      else if int (length (cp_allConnections p)) = cp_maxConnections p then Some (AcqWait, st)
      else Some (AcqSpin, st))"

text \<open>The part after a wake-up, with the time already past the deadline or not.\<close>

definition acquire_woken :: "pool_config \<Rightarrow> bool \<Rightarrow> pool_state \<Rightarrow> (acq \<times> pool_state) option" where
  "acquire_woken cfg expired st =
     (let p = st_pool st in
      if cp_availableConnections p = [] \<and> int (length (cp_allConnections p)) = cp_maxConnections p then
        Some (if expired then AcqErr (PoolErr ''Timeout: All connections in pool are busy'') else AcqWait, st)
      else acquire cfg st)"

text \<open>\<open>Release\<close>: first the connection is tidied up without the lock.\<close>

definition tidy :: "strconv \<Rightarrow> Conn \<Rightarrow> Conn option" where
  "tidy sc c =
     (case (if c_TxStatus c \<noteq> byte_of_char CHR ''I'' then map_option snd (conn_Exec sc ''rollback'' [] c) else Some c) of
        None \<Rightarrow> None
      | Some c \<Rightarrow>
          (case (if c_channels c \<noteq> [] then
                   (case conn_Unlisten sc ''*'' c of
                      None \<Rightarrow> None
                    | Some (Some e, c) \<Rightarrow> Some ((die e c)\<lparr>c_channels := []\<rparr>)
                    | Some (None, c) \<Rightarrow> Some (c\<lparr>c_channels := []\<rparr>))
                 else Some c) of
             None \<Rightarrow> None
           | Some c \<Rightarrow> Some (c\<lparr>c_notifications := []\<rparr>)))"

text \<open>The loop that removes a dead connection: the last one takes its place.\<close>

fun remove_conn :: "nat \<Rightarrow> nat list \<Rightarrow> nat list" where
  "remove_conn c [] = []"
| "remove_conn c (x # xs) =
     (if x = c then (if xs = [] then [] else last xs # butlast xs) else x # remove_conn c xs)"

definition Release :: "strconv \<Rightarrow> nat \<Rightarrow> pool_state \<Rightarrow> pool_state option" where
  "Release sc c st =
     (case tidy sc (conn_in st c) of
        None \<Rightarrow> None
      | Some d \<Rightarrow>
          (let st = set_conn c d st; p = st_pool st in
           if c_poolResetCount d \<noteq> cp_resetCount p then Some (set_conn c (snd (conn_Close d)) st)
           else if IsAlive d then
             Some (set_pool (p\<lparr>cp_availableConnections := cp_availableConnections p @ [c]\<rparr>) st)
           else Some (set_pool (p\<lparr>cp_allConnections := remove_conn c (cp_allConnections p)\<rparr>) st)))"

text \<open>\<open>Close\<close>: the pool is marked closed; once every connection is back they are all closed.\<close>

definition pool_Close_mark :: "pool_state \<Rightarrow> pool_state" where
  "pool_Close_mark st = set_pool ((st_pool st)\<lparr>cp_closed := True\<rparr>) st"

definition pool_Close :: "pool_state \<Rightarrow> pool_state option" where
  "pool_Close st =
     (let st = pool_Close_mark st; p = st_pool st in
      if length (cp_availableConnections p) \<noteq> length (cp_allConnections p) then None
      else Some (fold (\<lambda>c st. set_conn c (snd (conn_Close (conn_in st c))) st) (cp_allConnections p) st))"

definition Reset :: "pool_state \<Rightarrow> pool_state" where
  "Reset st =
     (let p = st_pool st in
      set_pool (p\<lparr>cp_resetCount := cp_resetCount p + 1, cp_allConnections := [], cp_availableConnections := []\<rparr>) st)"

definition invalidateAcquired :: "pool_state \<Rightarrow> pool_state" where
  "invalidateAcquired st =
     (let p = (st_pool st)\<lparr>cp_resetCount := cp_resetCount (st_pool st) + 1\<rparr>;
          st = fold (\<lambda>c st. set_conn c ((conn_in st c)\<lparr>c_poolResetCount := cp_resetCount p\<rparr>) st) (cp_availableConnections p) st;
          all = take (length (cp_availableConnections p)) (cp_allConnections p)
      in set_pool (p\<lparr>cp_allConnections := go_copy 0 (cp_availableConnections p) all\<rparr>) st)"

record ConnPoolStat =
  s_MaxConnections :: int
  s_CurrentConnections :: nat
  s_AvailableConnections :: nat

definition Stat :: "pool_state \<Rightarrow> ConnPoolStat" where
  "Stat st = \<lparr>s_MaxConnections = cp_maxConnections (st_pool st),
     s_CurrentConnections = length (cp_allConnections (st_pool st)),
     s_AvailableConnections = length (cp_availableConnections (st_pool st))\<rparr>"

fun prepare_each :: "string \<Rightarrow> string \<Rightarrow> nat list \<Rightarrow> pool_state \<Rightarrow> (pgx_error option \<times> pool_state) option" where
  "prepare_each name sql [] st = Some (None, st)"
| "prepare_each name sql (c # cs) st =
     (case conn_Prepare name sql (conn_in st c) of
        None \<Rightarrow> None
      | Some ((_, Some e), d) \<Rightarrow> Some (Some e, set_conn c d st)
      | Some ((_, None), d) \<Rightarrow> prepare_each name sql cs (set_conn c d st))"

text \<open>
  \<open>ConnPool.Prepare\<close>; waiting for a connection is \<open>AcqWait\<close> of \<open>acquire\<close>. The result is the error, if any.
\<close>

datatype prep = PrepOk | PrepErr pgx_error | PrepWait

definition pool_Prepare :: "pool_config \<Rightarrow> string \<Rightarrow> string \<Rightarrow> pool_state \<Rightarrow> (prep \<times> pool_state) option" where
  "pool_Prepare cfg name sql st =
     (if (case map_of (cp_preparedStatements (st_pool st)) name of Some ps \<Rightarrow> ps_SQL ps = sql | None \<Rightarrow> False) then Some (PrepOk, st)
      else
        (case acquire cfg st of
           None \<Rightarrow> None
         | Some (AcqErr e, st) \<Rightarrow> Some (PrepErr e, st)
         | Some (AcqWait, st) \<Rightarrow> Some (PrepWait, st)
         | Some (AcqSpin, st) \<Rightarrow> Some (PrepWait, st)
         | Some (Acquired c, st) \<Rightarrow>
             (case conn_Prepare name sql (conn_in st c) of
                None \<Rightarrow> None
              | Some ((ps, err), d) \<Rightarrow>
                  (let st = set_conn c d st; p = st_pool st;
                       st = set_pool (p\<lparr>cp_availableConnections := cp_availableConnections p @ [c]\<rparr>) st in
                   case err of
                     Some e \<Rightarrow> Some (PrepErr e, st)
                   | None \<Rightarrow>
                       (case prepare_each name sql (cp_availableConnections (st_pool st)) st of
                          None \<Rightarrow> None
                        | Some (Some e, st) \<Rightarrow> Some (PrepErr e, st)
                        | Some (None, st) \<Rightarrow>
                            (let st = invalidateAcquired st; p = st_pool st in
                             Some (PrepOk,
                               set_pool (p\<lparr>cp_preparedStatements := AList.update name (the ps) (cp_preparedStatements p)\<rparr>) st)))))))"

fun deallocate_each :: "string \<Rightarrow> nat list \<Rightarrow> pool_state \<Rightarrow> pgx_error option \<times> pool_state" where
  "deallocate_each name [] st = (None, st)"
| "deallocate_each name (c # cs) st =
     (case conn_Deallocate name (conn_in st c) of
        (Some e, d) \<Rightarrow> (Some e, set_conn c d st)
      | (None, d) \<Rightarrow> deallocate_each name cs (set_conn c d st))"

definition pool_Deallocate :: "string \<Rightarrow> pool_state \<Rightarrow> pgx_error option \<times> pool_state" where
  "pool_Deallocate name st =
     (case deallocate_each name (cp_availableConnections (st_pool st)) st of
        (Some e, st) \<Rightarrow> (Some e, st)
      | (None, st) \<Rightarrow>
          (let st = invalidateAcquired st; p = st_pool st in
           (None, set_pool (p\<lparr>cp_preparedStatements := AList.delete name (cp_preparedStatements p)\<rparr>) st)))"

text \<open>
  \<open>Exec\<close>, and \<open>QueryRow\<close> followed by \<open>Scan\<close>, when a connection can be had at once: the connection is
  released when the rows are closed, or at once when the query could not be sent.
\<close>

definition pool_Exec :: "strconv \<Rightarrow> pool_config \<Rightarrow> string \<Rightarrow> go_val list \<Rightarrow> pool_state \<Rightarrow>
    ((string \<times> pgx_error option) \<times> pool_state) option" where
  "pool_Exec sc cfg sql args st =
     (case acquire cfg st of
        Some (AcqErr e, st) \<Rightarrow> Some (([], Some e), st)
      | Some (Acquired c, st) \<Rightarrow>
          (case conn_Exec sc sql args (conn_in st c) of
             None \<Rightarrow> None
           | Some (res, d) \<Rightarrow> map_option (Pair res) (Release sc c (set_conn c d st)))
      | _ \<Rightarrow> None)"

definition pool_QueryRow_Scan ::
  "strconv \<Rightarrow> pool_config \<Rightarrow> string \<Rightarrow> go_val list \<Rightarrow> 's column_reader \<Rightarrow> pool_state \<Rightarrow> 's \<Rightarrow>
     ((pgx_error option \<times> 's) \<times> pool_state) option" where
  "pool_QueryRow_Scan sc cfg sql args dest st x =
     (case acquire cfg st of
        Some (AcqErr e, st) \<Rightarrow> Some ((Some e, x), st)
      | Some (Acquired c, st) \<Rightarrow>
          (case conn_Query sc sql args (conn_in st c) of
             None \<Rightarrow> None
           | Some (ro, d) \<Rightarrow>
               if ro_err ro \<noteq> None then map_option (Pair (ro_err ro, x)) (Release sc c (set_conn c d st))
               else
                 (case Row_Scan dest ro d x of
                    None \<Rightarrow> None
                  | Some (res, ro, d) \<Rightarrow>
                      if ro_closed ro then map_option (Pair res) (Release sc c (set_conn c d st))
                      else Some (res, set_conn c d st)))
      | _ \<Rightarrow> None)"


section \<open>The invariant of the pool\<close>

text \<open>
  The pool and the connections the clients hold: available connections are in no client's hands,
  and the pool knows exactly the available ones and the held ones that were acquired since the
  last reset (their count is the pool's). The others will be closed when they are released.
\<close>

definition pool_ok :: "ConnPool \<Rightarrow> nat \<Rightarrow> (nat \<Rightarrow> int) \<Rightarrow> nat list \<Rightarrow> bool" where
  "pool_ok p n prc H \<longleftrightarrow>
     distinct (cp_availableConnections p) \<and> distinct H \<and> set (cp_availableConnections p) \<inter> set H = {} \<and>
     distinct (cp_allConnections p) \<and>
     set (cp_allConnections p) = set (cp_availableConnections p) \<union> {c \<in> set H. prc c = cp_resetCount p} \<and>
     int (length (cp_allConnections p)) \<le> cp_maxConnections p \<and>
     (\<forall>c \<in> set (cp_allConnections p) \<union> set H. c < n) \<and> (\<forall>c \<in> set H. prc c \<le> cp_resetCount p)"

abbreviation prc_of :: "pool_state \<Rightarrow> nat \<Rightarrow> int" where
  "prc_of st c \<equiv> c_poolResetCount (st_heap st c)"

definition pool_inv :: "pool_state \<Rightarrow> nat list \<Rightarrow> bool" where
  "pool_inv st H = pool_ok (st_pool st) (st_next st) (prc_of st) H"

lemma pool_ok_cong:
  assumes "\<And>c. c \<in> set H \<Longrightarrow> prc c = prc' c"
  shows "pool_ok p n prc H \<longleftrightarrow> pool_ok p n prc' H"
proof -
  have "{c \<in> set H. prc c = r} = {c \<in> set H. prc' c = r}" for r using assms by auto
  then show ?thesis using assms by (auto simp: pool_ok_def)
qed

lemma pool_ok_available_in_all: "pool_ok p n prc H \<Longrightarrow> length (cp_availableConnections p) \<le> length (cp_allConnections p)"
  unfolding pool_ok_def by (metis List.finite_set Un_upper1 card_mono distinct_card)

text \<open>The moves of a connection between the pool and a client.\<close>

lemma pool_ok_take:
  assumes "pool_ok p n prc H" and "cp_availableConnections p = cs @ [c]"
  shows "pool_ok (p\<lparr>cp_availableConnections := cs\<rparr>) n (prc(c := cp_resetCount p)) (c # H)"
proof -
  have "c \<notin> set H" using assms by (auto simp: pool_ok_def)
  then have "{x \<in> set (c # H). (prc(c := cp_resetCount p)) x = cp_resetCount p} = insert c {x \<in> set H. prc x = cp_resetCount p}"
    by auto
  with assms \<open>c \<notin> set H\<close> show ?thesis by (auto simp: pool_ok_def)
qed

lemma pool_ok_create:
  assumes "pool_ok p n prc H" and "int (length (cp_allConnections p)) < cp_maxConnections p"
  shows "pool_ok (p\<lparr>cp_allConnections := cp_allConnections p @ [n]\<rparr>) (Suc n) (prc(n := cp_resetCount p)) (n # H)"
proof -
  have n: "n \<notin> set H" "n \<notin> set (cp_allConnections p)" "n \<notin> set (cp_availableConnections p)"
    using assms(1) by (auto simp: pool_ok_def)
  then have "{x \<in> set (n # H). (prc(n := cp_resetCount p)) x = cp_resetCount p} = insert n {x \<in> set H. prc x = cp_resetCount p}"
    by auto
  with assms n show ?thesis by (auto simp: pool_ok_def less_Suc_eq)
qed

lemma pool_ok_put:
  assumes "pool_ok p n prc (c # H)" and "prc c = cp_resetCount p"
  shows "pool_ok (p\<lparr>cp_availableConnections := cp_availableConnections p @ [c]\<rparr>) n prc H"
  using assms by (auto simp: pool_ok_def)

lemma pool_ok_drop_stale:
  "pool_ok p n prc (c # H) \<Longrightarrow> prc c \<noteq> cp_resetCount p \<Longrightarrow> pool_ok p n prc H"
  by (auto simp: pool_ok_def)

lemma remove_conn_props:
  "c \<in> set xs \<Longrightarrow> distinct xs \<Longrightarrow>
   set (remove_conn c xs) = set xs - {c} \<and> distinct (remove_conn c xs) \<and> Suc (length (remove_conn c xs)) = length xs"
proof (induction xs)
  case (Cons x xs)
  show ?case
  proof (cases "x = c")
    case True
    show ?thesis
    proof (cases xs rule: rev_cases)
      case (snoc ys y)
      with True Cons.prems show ?thesis by auto
    qed (use True in auto)
  qed (use Cons in auto)
qed simp

lemma pool_ok_drop_dead:
  assumes "pool_ok p n prc (c # H)" and "prc c = cp_resetCount p"
  shows "pool_ok (p\<lparr>cp_allConnections := remove_conn c (cp_allConnections p)\<rparr>) n prc H"
proof -
  have "c \<in> set (cp_allConnections p)" "distinct (cp_allConnections p)" using assms by (auto simp: pool_ok_def)
  from remove_conn_props [OF this] assms show ?thesis by (auto simp: pool_ok_def)
qed

lemma pool_ok_reset:
  assumes "pool_ok p n prc H"
  shows "pool_ok (p\<lparr>cp_resetCount := cp_resetCount p + 1, cp_allConnections := [], cp_availableConnections := []\<rparr>) n prc H"
  using assms by (fastforce simp: pool_ok_def)

lemma pool_ok_invalidate:
  assumes "pool_ok p n prc H"
  shows "pool_ok (p\<lparr>cp_resetCount := cp_resetCount p + 1, cp_allConnections := cp_availableConnections p\<rparr>) n prc H"
  using assms pool_ok_available_in_all [OF assms] by (fastforce simp: pool_ok_def)

lemma pool_ok_other_fields:
  "pool_ok (p\<lparr>cp_closed := b\<rparr>) n prc H = pool_ok p n prc H"
  "pool_ok (p\<lparr>cp_preparedStatements := pss\<rparr>) n prc H = pool_ok p n prc H"
  by (simp_all add: pool_ok_def)


section \<open>Every operation keeps the invariant\<close>

lemma createConnection_ok:
  assumes "createConnection cfg st = Some (r, st')"
  shows "st_pool st' = st_pool st \<and>
    (case r of Inl e \<Rightarrow> st_next st' = st_next st \<and> st_heap st' = st_heap st
     | Inr c \<Rightarrow> c = st_next st \<and> st_next st' = Suc (st_next st) \<and> (\<forall>x. x \<noteq> c \<longrightarrow> st_heap st' x = st_heap st x))"
  using assms by (auto simp: createConnection_def Let_def split: sum.splits option.splits prod.splits)

lemma acquire_ok:
  assumes inv: "pool_inv st H" and acq: "acquire cfg st = Some (a, st')"
  shows "case a of
      Acquired c \<Rightarrow> pool_inv st' (c # H) \<and> prc_of st' c = cp_resetCount (st_pool st')
    | AcqErr e \<Rightarrow> pool_inv st' H
    | AcqWait \<Rightarrow> st' = st \<and> int (length (cp_allConnections (st_pool st))) = cp_maxConnections (st_pool st) \<and>
        cp_availableConnections (st_pool st) = []
    | AcqSpin \<Rightarrow> False"
proof -
  let ?p = "st_pool st"
  have le: "int (length (cp_allConnections ?p)) \<le> cp_maxConnections ?p" using inv by (simp add: pool_inv_def pool_ok_def)
  consider (closed) "cp_closed ?p" | (avail) cs c where "\<not> cp_closed ?p" "cp_availableConnections ?p = cs @ [c]"
    | (create) "\<not> cp_closed ?p" "cp_availableConnections ?p = []" "int (length (cp_allConnections ?p)) < cp_maxConnections ?p"
    | (full) "\<not> cp_closed ?p" "cp_availableConnections ?p = []" "int (length (cp_allConnections ?p)) = cp_maxConnections ?p"
    using le by (cases "cp_availableConnections ?p" rule: rev_cases) force+
  then show ?thesis
  proof cases
    case closed
    with acq inv show ?thesis by (auto simp: acquire_def)
  next
    case avail
    have "(\<lambda>x. prc_of (set_conn c ((conn_in st c)\<lparr>c_poolResetCount := cp_resetCount ?p\<rparr>) st) x) = (prc_of st)(c := cp_resetCount ?p)"
      by auto
    with avail acq inv pool_ok_take [of ?p "st_next st" "prc_of st" H cs c] show ?thesis
      by (auto simp: acquire_def pool_inv_def Let_def)
  next
    case create
    then obtain r st1 where r: "createConnection cfg st = Some (r, st1)"
      using acq by (auto simp: acquire_def split: option.splits)
    show ?thesis
    proof (cases r)
      case (Inl e)
      with create r acq inv createConnection_ok [OF r] show ?thesis by (auto simp: acquire_def pool_inv_def)
    next
      case (Inr c)
      then have c: "c = st_next st" "st_pool st1 = ?p" "st_next st1 = Suc (st_next st)" "\<forall>x. x \<noteq> c \<longrightarrow> st_heap st1 x = st_heap st x"
        using createConnection_ok [OF r] by auto
      have "pool_ok (?p\<lparr>cp_allConnections := cp_allConnections ?p @ [c]\<rparr>) (Suc (st_next st)) ((prc_of st)(c := cp_resetCount ?p)) (c # H)"
        using pool_ok_create [of ?p "st_next st" "prc_of st" H] inv create(3) c(1) by (simp add: pool_inv_def)
      moreover have "(\<lambda>x. prc_of (set_conn c ((conn_in st1 c)\<lparr>c_poolResetCount := cp_resetCount ?p\<rparr>) st1) x) = (prc_of st)(c := cp_resetCount ?p)"
        using c(4) by auto
      ultimately show ?thesis
        using create r Inr acq c by (auto simp: acquire_def pool_inv_def Let_def)
    qed
  next
    case full
    with acq show ?thesis by (auto simp: acquire_def)
  qed
qed

lemma tidy_lock:
  assumes "tidy sc c = Some d"
  shows "c_poolResetCount d = c_poolResetCount c"
proof -
  have ul: "conn_Unlisten sc ch c1 = Some (e, c2) \<Longrightarrow> c_poolResetCount c2 = c_poolResetCount c1" for ch c1 e c2
    by (auto simp: conn_Unlisten_def split: option.splits prod.splits dest!: lock_of_Exec) (auto simp: lock_of_def)
  have ex: "conn_Exec sc sql [] c1 = Some (x, c2) \<Longrightarrow> c_poolResetCount c2 = c_poolResetCount c1" for sql c1 x c2
    by (auto simp: lock_of_def dest!: lock_of_Exec)
  show ?thesis
    using assms by (auto simp: tidy_def die_def split: option.splits if_splits prod.splits dest!: ul ex)
qed

lemma Release_ok:
  assumes inv: "pool_inv st (c # H)" and "Release sc c st = Some st'"
  shows "pool_inv st' H"
proof -
  obtain d where d: "tidy sc (conn_in st c) = Some d" using assms(2) by (auto simp: Release_def split: option.splits)
  have prc: "c_poolResetCount d = prc_of st c" by (rule tidy_lock [OF d])
  have inv1: "pool_ok (st_pool st) (st_next st) (prc_of (set_conn c d st)) (c # H)"
    using inv prc by (subst pool_ok_cong [where prc' = "prc_of st"]) (auto simp: pool_inv_def)
  have close: "c \<notin> set H" using inv by (auto simp: pool_inv_def pool_ok_def)
  show ?thesis
  proof (cases "prc_of st c = cp_resetCount (st_pool st)")
    case False
    then have st': "st' = set_conn c (snd (conn_Close d)) (set_conn c d st)"
      using assms(2) d prc by (simp add: Release_def Let_def)
    have "pool_ok (st_pool st) (st_next st) (prc_of st) H"
      using pool_ok_drop_stale [of "st_pool st" "st_next st" "prc_of st" c H] inv False by (simp add: pool_inv_def)
    then show ?thesis
      unfolding st' pool_inv_def using close by (subst pool_ok_cong [where prc' = "prc_of st"]) auto
  next
    case True
    have "prc_of (set_conn c d st) c = cp_resetCount (st_pool st)" using True prc by simp
    with assms(2) d prc True pool_ok_put [OF inv1] pool_ok_drop_dead [OF inv1] show ?thesis
      by (auto simp: Release_def Let_def pool_inv_def split: if_splits)
  qed
qed


lemma lock_of_Deallocate: "c_poolResetCount (snd (conn_Deallocate name c)) = c_poolResetCount c"
proof -
  have loop: "lock_of (snd (Deallocate_loop c)) = lock_of c" for c
  proof (induction c rule: Deallocate_loop.induct)
    case (1 c)
    then show ?case by (subst Deallocate_loop.simps) (simp add: Let_def)
  qed
  have "c_poolResetCount (snd (Deallocate_loop c)) = c_poolResetCount c" for c
    using loop [of c] by (simp add: lock_of_def)
  then show ?thesis
    by (simp add: conn_Deallocate_def Let_def conn_write_def die_def split: prod.splits bool.splits)
qed

text \<open>Steps that only work on the connections themselves.\<close>

definition same_pool :: "pool_state \<Rightarrow> pool_state \<Rightarrow> bool" where
  "same_pool st st' \<longleftrightarrow> st_pool st' = st_pool st \<and> st_next st' = st_next st \<and> prc_of st' = prc_of st"

lemma same_pool_inv: "same_pool st st' \<Longrightarrow> pool_inv st' H = pool_inv st H"
  by (simp add: same_pool_def pool_inv_def)

lemma same_pool_refl [simp]: "same_pool st st"
  by (simp add: same_pool_def)

lemma same_pool_trans: "same_pool a b \<Longrightarrow> same_pool b c \<Longrightarrow> same_pool a c"
  by (simp add: same_pool_def)

lemma same_pool_set_conn: "c_poolResetCount d = prc_of st c \<Longrightarrow> same_pool st (set_conn c d st)"
  by (auto simp: same_pool_def)

lemma prepare_each_same: "prepare_each name sql cs st = Some (e, st') \<Longrightarrow> same_pool st st'"
proof (induction cs arbitrary: st)
  case (Cons c cs)
  then obtain ps err d where p: "conn_Prepare name sql (conn_in st c) = Some ((ps, err), d)"
    by (auto split: option.splits)
  have s: "same_pool st (set_conn c d st)"
    using lock_of_Prepare [OF p] by (intro same_pool_set_conn) (simp add: lock_of_def)
  show ?case
  proof (cases err)
    case None
    with Cons p s same_pool_trans show ?thesis by fastforce
  qed (use Cons p s in auto)
qed simp

lemma deallocate_each_same: "same_pool st (snd (deallocate_each name cs st))"
proof (induction cs arbitrary: st)
  case (Cons c cs)
  obtain err d where p: "conn_Deallocate name (conn_in st c) = (err, d)" by (cases "conn_Deallocate name (conn_in st c)")
  have s: "same_pool st (set_conn c d st)"
    using lock_of_Deallocate [of name "conn_in st c"] p by (intro same_pool_set_conn) simp
  with Cons [of "set_conn c d st"] p same_pool_trans show ?case by (cases err) auto
qed simp

lemma fold_set_conn:
  "st_pool (fold (\<lambda>c st. set_conn c (f (conn_in st c)) st) cs st) = st_pool st \<and>
   st_next (fold (\<lambda>c st. set_conn c (f (conn_in st c)) st) cs st) = st_next st \<and>
   (\<forall>x. x \<notin> set cs \<longrightarrow> st_heap (fold (\<lambda>c st. set_conn c (f (conn_in st c)) st) cs st) x = st_heap st x)"
  by (induction cs arbitrary: st) auto

lemma invalidateAcquired_ok:
  assumes "pool_inv st H"
  shows "pool_inv (invalidateAcquired st) H"
proof -
  let ?p = "st_pool st"
  let ?st = "fold (\<lambda>c st. set_conn c ((conn_in st c)\<lparr>c_poolResetCount := cp_resetCount ?p + 1\<rparr>) st) (cp_availableConnections ?p) st"
  have len: "length (cp_availableConnections ?p) \<le> length (cp_allConnections ?p)"
    using assms pool_ok_available_in_all by (auto simp: pool_inv_def)
  then have copy: "go_copy 0 (cp_availableConnections ?p) (take (length (cp_availableConnections ?p)) (cp_allConnections ?p)) =
      cp_availableConnections ?p"
    by (simp add: go_copy_def)
  have st: "st_pool ?st = ?p" "st_next ?st = st_next st" "\<forall>x. x \<notin> set (cp_availableConnections ?p) \<longrightarrow> st_heap ?st x = st_heap st x"
    using fold_set_conn [of "\<lambda>c. c\<lparr>c_poolResetCount := cp_resetCount ?p + 1\<rparr>" "cp_availableConnections ?p" st] by auto
  have "pool_ok (?p\<lparr>cp_resetCount := cp_resetCount ?p + 1, cp_allConnections := cp_availableConnections ?p\<rparr>) (st_next st) (prc_of ?st) H"
    using assms st(3)
    by (subst pool_ok_cong [where prc' = "prc_of st"]) (auto simp: pool_inv_def pool_ok_def [of ?p] intro: pool_ok_invalidate)
  then show ?thesis
    using st copy by (simp add: invalidateAcquired_def Let_def pool_inv_def)
qed

lemma pool_inv_prepared:
  "pool_inv (set_pool ((st_pool st)\<lparr>cp_preparedStatements := x\<rparr>) st) H = pool_inv st H"
  "pool_inv (set_pool ((st_pool st)\<lparr>cp_closed := b\<rparr>) st) H = pool_inv st H"
  by (simp_all add: pool_inv_def pool_ok_other_fields)

lemma pool_Prepare_ok:
  assumes inv: "pool_inv st H" and "pool_Prepare cfg name sql st = Some (r, st')"
  shows "pool_inv st' H"
proof (cases "\<exists>ps. map_of (cp_preparedStatements (st_pool st)) name = Some ps \<and> ps_SQL ps = sql")
  case True
  with assms show ?thesis by (auto simp: pool_Prepare_def)
next
  case False
  then obtain a st1 where a: "acquire cfg st = Some (a, st1)"
    using assms(2) by (auto simp: pool_Prepare_def split: option.splits if_splits)
  note ok = acquire_ok [OF inv a]
  show ?thesis
  proof (cases a)
    case (Acquired c)
    with a assms(2) False obtain ps err d where p: "conn_Prepare name sql (conn_in st1 c) = Some ((ps, err), d)"
      by (auto simp: pool_Prepare_def split: option.splits if_splits)
    let ?st2 = "set_conn c d st1"
    let ?st3 = "set_pool ((st_pool ?st2)\<lparr>cp_availableConnections := cp_availableConnections (st_pool ?st2) @ [c]\<rparr>) ?st2"
    have same: "same_pool st1 ?st2"
      using lock_of_Prepare [OF p] by (intro same_pool_set_conn) (simp add: lock_of_def)
    have "pool_inv ?st3 H"
      using ok Acquired same pool_ok_put [of "st_pool st1" "st_next st1" "prc_of st1" c H]
      by (simp add: pool_inv_def same_pool_def)
    note inv3 = this prepare_each_same [of name sql _ ?st3, THEN same_pool_inv]
    show ?thesis
      using assms(2) False a Acquired p inv3 invalidateAcquired_ok
      by (auto simp: pool_Prepare_def Let_def pool_inv_prepared split: option.splits if_splits)
  qed (use assms(2) False a ok inv in \<open>auto simp: pool_Prepare_def split: option.splits if_splits\<close>)
qed

lemma pool_Deallocate_ok: "pool_inv st H \<Longrightarrow> pool_inv (snd (pool_Deallocate name st)) H"
  using deallocate_each_same [of st name "cp_availableConnections (st_pool st)", THEN same_pool_inv, of H] invalidateAcquired_ok
  by (auto simp: pool_Deallocate_def Let_def pool_inv_prepared split: prod.splits option.splits)

lemma Reset_ok: "pool_inv st H \<Longrightarrow> pool_inv (Reset st) H"
  using pool_ok_reset by (auto simp: Reset_def pool_inv_def Let_def)


section \<open>Rows give their connection back\<close>

text \<open>Closing, reading and scanning rows leave the mark of the pool alone, and a scanned row is closed.\<close>

abbreviation prc_conn :: "Conn \<Rightarrow> int" where
  "prc_conn c \<equiv> c_poolResetCount c"

lemma prc_lock: "lock_of c = lock_of d \<Longrightarrow> prc_conn c = prc_conn d"
  by (simp add: lock_of_def)

lemma prc_rx [simp]:
  "prc_conn (snd (conn_rxMsg c)) = prc_conn c" "prc_conn (rxReadyForQuery c) = prc_conn c"
  "prc_conn (snd (rxErrorResponse c)) = prc_conn c" "prc_conn (snd (processContextFreeMsg t c)) = prc_conn c"
  by (auto intro: prc_lock)

lemma rows_close_prc [simp]: "prc_conn (snd (rows_close ro c)) = prc_conn c"
  by (simp add: rows_close_def conn_unlock_def)

lemma rows_close_closed [simp]: "ro_closed (fst (rows_close ro c))"
  by (simp add: rows_close_def)

lemma readUntilReadyForQuery_ends:
  "ro_closed (fst (readUntilReadyForQuery ro c)) \<and> prc_conn (snd (readUntilReadyForQuery ro c)) = prc_conn c"
proof (induction ro c rule: readUntilReadyForQuery.induct)
  case (1 ro c)
  show ?case
    using 1(1) [OF refl refl refl] 1(2) [OF refl refl refl] 1(3) [OF refl refl refl]
    by (subst (1 2) readUntilReadyForQuery.simps) (simp add: Let_def)
qed

lemma rows_Close_ends [simp]: "ro_closed (fst (rows_Close ro c))" "prc_conn (snd (rows_Close ro c)) = prc_conn c"
  using readUntilReadyForQuery_ends [of ro c] by (auto simp: rows_Close_def case_prod_beta)

lemma rows_Fatal_ends: "prc_conn (snd (rows_Fatal e ro c)) = prc_conn c"
  "ro_err ro = None \<Longrightarrow> ro_closed (fst (rows_Fatal e ro c))"
  by (simp_all add: rows_Fatal_def)

lemma Next_loop_ends:
  "ro_err ro = None \<Longrightarrow> prc_conn (snd (snd (Next_loop ro c))) = prc_conn c \<and>
   (\<not> fst (Next_loop ro c) \<longrightarrow> ro_closed (fst (snd (Next_loop ro c))))"
proof (induction ro c rule: Next_loop.induct)
  case (1 ro c)
  show ?case
    using 1(1) [OF refl refl refl] 1(2) [OF refl refl refl] 1(3)
    by (subst (1 2 3) Next_loop.simps) (simp add: Let_def rows_Fatal_ends case_prod_beta)
qed

lemma nextColumn_prc: "nextColumn ro c = Some (v, ro', c') \<Longrightarrow> prc_conn c' = prc_conn c"
  using rows_Fatal_ends(1) [of "RowProtocol ''No next column available''" ro c]
  by (auto simp: nextColumn_def split: if_splits option.splits prod.splits)

lemma rows_Scan_prc: "rows_Scan dest ro c x = Some (y, ro', c') \<Longrightarrow> prc_conn c' = prc_conn c"
  using rows_Fatal_ends(1)
  by (auto simp: rows_Scan_def Let_def split: if_splits option.splits prod.splits dest!: nextColumn_prc)
    (metis (no_types) Conn.select_convs(16) Conn.surjective Conn.update_convs(1) snd_conv)+

lemma Row_Scan_prc: "Row_Scan dest ro c x = Some (y, ro', c') \<Longrightarrow> prc_conn c' = prc_conn c"
proof -
  assume a: "Row_Scan dest ro c x = Some (y, ro', c')"
  have nx: "ro_err ro = None \<Longrightarrow> rows_Next ro c = (b, ro1, c1) \<Longrightarrow> prc_conn c1 = prc_conn c" for b ro1 c1
    using Next_loop_ends [of "ro\<lparr>ro_rowCount := ro_rowCount ro + 1, ro_columnIdx := 0, ro_vrLen := 0\<rparr>" c]
    by (auto simp: rows_Next_def split: if_splits)
  have cl: "rows_Close ro1 c1 = (ro2, c2) \<Longrightarrow> prc_conn c2 = prc_conn c1" for ro1 c1 ro2 c2
    using rows_Close_ends(2) [of ro1 c1] by simp
  show ?thesis
    using a by (auto simp: Row_Scan_def split: if_splits prod.splits bool.splits option.splits dest!: nx cl rows_Scan_prc)
qed

lemma Row_Scan_closed: "Row_Scan dest ro c x = Some (y, ro', c') \<Longrightarrow> ro_err ro = None \<Longrightarrow> ro_closed ro'"
proof -
  assume a: "Row_Scan dest ro c x = Some (y, ro', c')" "ro_err ro = None"
  have nx: "rows_Next ro c = (False, ro1, c1) \<Longrightarrow> ro_closed ro1" for ro1 c1
    using Next_loop_ends [of "ro\<lparr>ro_rowCount := ro_rowCount ro + 1, ro_columnIdx := 0, ro_vrLen := 0\<rparr>" c] a(2)
    by (auto simp: rows_Next_def split: if_splits)
  have cl: "rows_Close ro1 c1 = (ro2, c2) \<Longrightarrow> ro_closed ro2" for ro1 c1 ro2 c2
    using rows_Close_ends(1) [of ro1 c1] by simp
  show ?thesis
    using a by (auto simp: Row_Scan_def split: if_splits prod.splits bool.splits option.splits dest: nx cl)
qed

lemma rows_abort_prc: "prc_conn (snd (rows_abort e ro c)) = prc_conn c"
  by (simp add: rows_abort_def)

lemma conn_Query_prc:
  assumes "conn_Query sc sql args c = Some (ro, c')"
  shows "prc_conn c' = prc_conn c"
proof -
  have lk: "conn_lock c = (e, c1) \<Longrightarrow> prc_conn c1 = prc_conn c" for e c1
    by (auto simp: conn_lock_def split: if_splits)
  have pr: "conn_Prepare nm q c1 = Some (z, c2) \<Longrightarrow> prc_conn c2 = prc_conn c1" for nm q c1 z c2
    by (cases z) (auto intro: prc_lock dest: lock_of_Prepare)
  have sp: "sendPreparedQuery sc ps args c1 = (e, c2) \<Longrightarrow> prc_conn c2 = prc_conn c1" for ps c1 e c2
    using prc_lock [OF lock_of_sendPreparedQuery, of sc ps args c1] by simp
  have ab: "rows_abort e r c1 = (r', c2) \<Longrightarrow> prc_conn c2 = prc_conn c1" for e r c1 r' c2
    using rows_abort_prc [of e r c1] by simp
  show ?thesis
    using assms
    by (auto simp: conn_Query_def Let_def split: prod.splits option.splits dest!: lk pr sp ab)
qed

section \<open>Clients and their pool\<close>

text \<open>
  The pool with the connections its clients hold, each with the client it was handed to. A client works on its
  own connection, which leaves the mark of the pool alone; the mark is private to the package.
\<close>

record pool_sys =
  py_state :: pool_state
  py_held :: "(nat \<times> nat) list"

inductive pool_step :: "strconv \<Rightarrow> pool_config \<Rightarrow> pool_sys \<Rightarrow> pool_sys \<Rightarrow> bool" for sc cfg where
  acquires: "acquire cfg (py_state y) = Some (Acquired c, st) \<Longrightarrow>
    pool_step sc cfg y (y\<lparr>py_state := st, py_held := (k, c) # py_held y\<rparr>)"
| acquire_fails: "acquire cfg (py_state y) = Some (AcqErr e, st) \<Longrightarrow> pool_step sc cfg y (y\<lparr>py_state := st\<rparr>)"
| uses: "(k, c) \<in> set (py_held y) \<Longrightarrow> prc_conn d = prc_of (py_state y) c \<Longrightarrow>
    pool_step sc cfg y (y\<lparr>py_state := set_conn c d (py_state y)\<rparr>)"
| releases: "py_held y = hs @ (k, c) # hs' \<Longrightarrow> Release sc c (py_state y) = Some st \<Longrightarrow>
    pool_step sc cfg y (y\<lparr>py_state := st, py_held := hs @ hs'\<rparr>)"
| resets: "pool_step sc cfg y (y\<lparr>py_state := Reset (py_state y)\<rparr>)"
| prepares: "pool_Prepare cfg name sql (py_state y) = Some (r, st) \<Longrightarrow> pool_step sc cfg y (y\<lparr>py_state := st\<rparr>)"
| deallocates: "pool_step sc cfg y (y\<lparr>py_state := snd (pool_Deallocate name (py_state y))\<rparr>)"
| closes: "pool_step sc cfg y (y\<lparr>py_state := pool_Close_mark (py_state y)\<rparr>)"

inductive pool_reachable :: "strconv \<Rightarrow> pool_config \<Rightarrow> pool_sys \<Rightarrow> bool" for sc cfg where
  created: "NewConnPool cfg st0 = Some (None, st) \<Longrightarrow> pool_reachable sc cfg \<lparr>py_state = st, py_held = []\<rparr>"
| stepped: "pool_reachable sc cfg y \<Longrightarrow> pool_step sc cfg y y' \<Longrightarrow> pool_reachable sc cfg y'"

abbreviation held_conns :: "pool_sys \<Rightarrow> nat list" where
  "held_conns y \<equiv> map snd (py_held y)"

lemma NewConnPool_inv:
  assumes "NewConnPool cfg st0 = Some (None, st)"
  shows "pool_inv st []"
proof -
  let ?mx = "if pc_MaxConnections cfg = 0 then 5 else pc_MaxConnections cfg"
  let ?p = "\<lparr>cp_allConnections = [], cp_availableConnections = [], cp_maxConnections = ?mx, cp_resetCount = 0,
    cp_closed = False, cp_preparedStatements = [], cp_acquireTimeout = pc_AcquireTimeout cfg\<rparr>"
  obtain c st1 where c: "createConnection cfg (set_pool ?p st0) = Some (Inr c, st1)" and mx: "1 \<le> ?mx"
    and st: "st = set_pool ((st_pool st1)\<lparr>cp_allConnections := cp_allConnections (st_pool st1) @ [c],
      cp_availableConnections := cp_availableConnections (st_pool st1) @ [c]\<rparr>) st1"
    using assms by (auto simp: NewConnPool_def Let_def split: if_splits option.splits sum.splits)
  from createConnection_ok [OF c] mx show ?thesis
    by (simp add: st pool_inv_def pool_ok_def)
qed

lemma pool_inv_perm: "set H = set H' \<Longrightarrow> distinct H = distinct H' \<Longrightarrow> pool_inv st H = pool_inv st H'"
  by (simp add: pool_inv_def pool_ok_def)

lemma pool_step_inv:
  assumes "pool_step sc cfg y y'" and "pool_inv (py_state y) (held_conns y)"
  shows "pool_inv (py_state y') (held_conns y')"
  using assms
proof cases
  case (acquires c st k)
  with acquire_ok [OF assms(2) acquires(2)] show ?thesis by simp
next
  case (acquire_fails e st)
  with acquire_ok [OF assms(2) acquire_fails(2)] show ?thesis by simp
next
  case (uses k c d)
  with assms(2) same_pool_inv [OF same_pool_set_conn] show ?thesis by simp
next
  case (releases hs k c hs' st)
  have "pool_inv (py_state y) (c # map snd (hs @ hs'))"
    using assms(2) releases(2) pool_inv_perm [of "held_conns y" "c # map snd (hs @ hs')" "py_state y"] by auto
  with Release_ok releases show ?thesis by simp
next
  case resets
  with assms(2) Reset_ok show ?thesis by simp
next
  case (prepares name sql r st)
  with pool_Prepare_ok [OF assms(2) prepares(2)] show ?thesis by simp
next
  case (deallocates name)
  with assms(2) pool_Deallocate_ok show ?thesis by simp
next
  case closes
  with assms(2) show ?thesis by (simp add: pool_Close_mark_def pool_inv_prepared)
qed

lemma pool_reachable_inv: "pool_reachable sc cfg y \<Longrightarrow> pool_inv (py_state y) (held_conns y)"
  by (induction rule: pool_reachable.induct) (simp_all add: NewConnPool_inv pool_step_inv)

text \<open>
  C25: however the clients of a pool interleave their operations, no two of them hold the same connection, no held
  connection is available, the pool never has more connections than its maximum, and it knows exactly the
  available connections and the held ones acquired since the last reset.
\<close>

theorem pool_exclusive:
  assumes "pool_reachable sc cfg y"
  shows "distinct (held_conns y) \<and> set (cp_availableConnections (st_pool (py_state y))) \<inter> set (held_conns y) = {} \<and>
    int (length (cp_allConnections (st_pool (py_state y)))) \<le> cp_maxConnections (st_pool (py_state y)) \<and>
    set (cp_allConnections (st_pool (py_state y))) =
      set (cp_availableConnections (st_pool (py_state y))) \<union>
      {c \<in> set (held_conns y). prc_of (py_state y) c = cp_resetCount (st_pool (py_state y))}"
  using pool_reachable_inv [OF assms] by (simp add: pool_inv_def pool_ok_def)

definition demo_pool_config :: pool_config where
  "demo_pool_config = \<lparr>pc_dial = (\<lambda>n. Inr (demo_conn [])), pc_MaxConnections = 1, pc_AfterConnect = None, pc_AcquireTimeout = 0\<rparr>"

definition no_pool :: pool_state where
  "no_pool = \<lparr>st_pool = \<lparr>cp_allConnections = [], cp_availableConnections = [], cp_maxConnections = 0, cp_resetCount = 0,
     cp_closed = False, cp_preparedStatements = [], cp_acquireTimeout = 0\<rparr>, st_heap = (\<lambda>_. demo_conn []), st_next = 0, st_dials = 0\<rparr>"

definition demo_sys :: pool_sys where
  "demo_sys = \<lparr>py_state = snd (the (acquire demo_pool_config (snd (the (NewConnPool demo_pool_config no_pool))))),
     py_held = [(7, 0)]\<rparr>"

lemma demo_sys_reachable: "pool_reachable int_strconv demo_pool_config demo_sys"
proof -
  let ?st = "snd (the (NewConnPool demo_pool_config no_pool))"
  have "NewConnPool demo_pool_config no_pool = Some (None, ?st)"
    by (simp add: NewConnPool_def createConnection_def demo_pool_config_def no_pool_def Let_def)
  from pool_reachable.created [OF this] have "pool_reachable int_strconv demo_pool_config \<lparr>py_state = ?st, py_held = []\<rparr>" .
  moreover have "acquire demo_pool_config ?st = Some (Acquired 0, snd (the (acquire demo_pool_config ?st)))"
    by (simp add: NewConnPool_def createConnection_def demo_pool_config_def no_pool_def Let_def acquire_def)
  then have "pool_step int_strconv demo_pool_config \<lparr>py_state = ?st, py_held = []\<rparr> demo_sys"
    using pool_step.acquires [of demo_pool_config "\<lparr>py_state = ?st, py_held = []\<rparr>" 0 _ int_strconv 7] by (simp add: demo_sys_def)
  ultimately show ?thesis by (rule pool_reachable.stepped)
qed

theorem pool_exclusive_witness:
  "held_conns demo_sys = [0] \<and> int (length (cp_allConnections (st_pool (py_state demo_sys)))) \<le> cp_maxConnections (st_pool (py_state demo_sys))"
  using pool_exclusive [OF demo_sys_reachable] by (simp add: demo_sys_def)

text \<open>
  C26: acquiring a connection never ends in a call that repeats without end, and it waits only when clients hold
  the maximal number of connections, none of them to be thrown away at its release.
\<close>

theorem acquire_waits_for_a_client:
  assumes "pool_reachable sc cfg y" and "acquire cfg (py_state y) = Some (a, st')"
  shows "a \<noteq> AcqSpin \<and>
    (a = AcqWait \<longrightarrow> st' = py_state y \<and> cp_maxConnections (st_pool st') =
       int (length (filter (\<lambda>(k, c). prc_of st' c = cp_resetCount (st_pool st')) (py_held y))))"
proof -
  note inv = pool_reachable_inv [OF assms(1)]
  note ok = acquire_ok [OF inv assms(2)]
  have "cp_maxConnections (st_pool st') = int (length (filter (\<lambda>(k, c). prc_of st' c = cp_resetCount (st_pool st')) (py_held y)))"
    if w: "a = AcqWait"
  proof -
    let ?st = "py_state y" let ?f = "\<lambda>c. prc_of ?st c = cp_resetCount (st_pool ?st)"
    have "set (cp_allConnections (st_pool ?st)) = set (filter ?f (held_conns y))" "distinct (cp_allConnections (st_pool ?st))"
      "distinct (filter ?f (held_conns y))"
      using ok w inv by (auto simp: pool_inv_def pool_ok_def)
    then have "length (cp_allConnections (st_pool ?st)) = length (filter ?f (held_conns y))" by (metis distinct_card)
    moreover have "length (filter ?f (held_conns y)) = length (filter (\<lambda>(k, c). ?f c) (py_held y))"
      by (simp add: filter_map o_def case_prod_unfold)
    ultimately show ?thesis using ok w by simp
  qed
  then show ?thesis using ok by (cases a) auto
qed

theorem acquire_waits_for_a_client_witness:
  "acquire demo_pool_config (py_state demo_sys) = Some (AcqWait, py_state demo_sys) \<and>
   cp_maxConnections (st_pool (py_state demo_sys)) =
     int (length (filter (\<lambda>(k, c). prc_of (py_state demo_sys) c = cp_resetCount (st_pool (py_state demo_sys))) (py_held demo_sys)))"
proof -
  have "acquire demo_pool_config (py_state demo_sys) = Some (AcqWait, py_state demo_sys)"
    by (simp add: demo_sys_def NewConnPool_def createConnection_def demo_pool_config_def no_pool_def Let_def acquire_def)
  with acquire_waits_for_a_client [OF demo_sys_reachable this] show ?thesis by simp
qed

lemma pool_QueryRow_Scan_inv:
  assumes "pool_inv st H" and "pool_QueryRow_Scan sc cfg sql args dest st x = Some (res, st')"
  shows "pool_inv st' H"
proof -
  obtain a st1 where a: "acquire cfg st = Some (a, st1)"
    using assms(2) by (auto simp: pool_QueryRow_Scan_def split: option.splits)
  note ok = acquire_ok [OF assms(1) a]
  show ?thesis
  proof (cases a)
    case (Acquired c)
    with a assms(2) obtain ro d where q: "conn_Query sc sql args (conn_in st1 c) = Some (ro, d)"
      by (auto simp: pool_QueryRow_Scan_def split: option.splits)
    have rel: "pool_inv st' H" if "Release sc c (set_conn c d' st1) = Some st'" and "prc_conn d' = prc_of st1 c" for d'
    proof (rule Release_ok [OF _ that(1)])
      show "pool_inv (set_conn c d' st1) (c # H)"
        using ok Acquired same_pool_inv [OF same_pool_set_conn [OF that(2)]] by simp
    qed
    show ?thesis
    proof (cases "ro_err ro")
      case (Some e)
      with assms(2) a Acquired q conn_Query_prc [OF q] rel [of d] show ?thesis by (auto simp: pool_QueryRow_Scan_def)
    next
      case None
      with assms(2) a Acquired q obtain y ro' d' where r: "Row_Scan dest ro d x = Some (y, ro', d')"
        by (auto simp: pool_QueryRow_Scan_def split: option.splits)
      with None assms(2) a Acquired q Row_Scan_closed [OF r None] Row_Scan_prc [OF r] conn_Query_prc [OF q] rel [of d']
      show ?thesis by (auto simp: pool_QueryRow_Scan_def)
    qed
  qed (use assms(2) a ok in \<open>auto simp: pool_QueryRow_Scan_def split: option.splits\<close>)
qed

text \<open>
  A query for one row through the pool gives its connection back on every path, whatever the server answers and
  whatever the destination does with the value.
\<close>

theorem pool_QueryRow_Scan_releases:
  assumes "pool_inv st H" and "pool_QueryRow_Scan sc cfg sql args dest st x = Some (res, st')"
  shows "pool_inv st' H"
  using assms by (rule pool_QueryRow_Scan_inv)

definition broken_pool_config :: pool_config where
  "broken_pool_config = demo_pool_config\<lparr>pc_dial := (\<lambda>n. Inr ((demo_conn [])\<lparr>c_broken := True, c_TxStatus := 73\<rparr>))\<rparr>"

definition broken_pool :: pool_state where
  "broken_pool = snd (the (NewConnPool broken_pool_config no_pool))"

lemma broken_pool_created: "NewConnPool broken_pool_config no_pool = Some (None, broken_pool)"
  by (simp add: NewConnPool_def createConnection_def broken_pool_config_def demo_pool_config_def no_pool_def Let_def broken_pool_def)

theorem pool_QueryRow_Scan_releases_witness:
  "\<exists>st'. pool_QueryRow_Scan int_strconv broken_pool_config ''select 1'' [] raw_column broken_pool [] = Some ((Some WriteErr, []), st') \<and>
     pool_inv st' [] \<and> cp_allConnections (st_pool st') = []"
proof -
  obtain st' where st': "pool_QueryRow_Scan int_strconv broken_pool_config ''select 1'' [] raw_column broken_pool [] = Some ((Some WriteErr, []), st')"
    "cp_allConnections (st_pool st') = []"
    by (simp add: pool_QueryRow_Scan_def broken_pool_def NewConnPool_def createConnection_def broken_pool_config_def
      demo_pool_config_def no_pool_def Let_def acquire_def conn_Query_def conn_lock_def demo_conn_def conn_Prepare_def conn_write_def
      die_def rows_abort_def rows_close_def new_rows_def conn_unlock_def Release_def tidy_def IsAlive_def byte_of_char_def)
  from pool_QueryRow_Scan_releases [OF NewConnPool_inv [OF broken_pool_created] st'(1)] st' show ?thesis by blast
qed

end
