(* ===== verification/Pgx_Session.thy ===== *)
theory Pgx_Session
  imports Pgx_Pool
begin

text \<open>
  Statements with one JSON parameter, as the query engine sends them: \<open>Exec\<close> and \<open>QueryRow\<close> on a
  connection that is idle, from the preparation of the statement to the answer. The lemmas compose
  \<open>Prepare\<close>, \<open>sendPreparedQuery\<close> and the reading of the answer, and give the connection
  back idle.
\<close>

section \<open>What receiving leaves alone\<close>

definition stat_of :: "Conn \<Rightarrow> bool \<times> (Oid \<rightharpoonup> PgType) \<times> (string \<rightharpoonup> PreparedStatement) \<times> string list" where
  "stat_of c = (c_broken c, c_PgTypes c, c_preparedStatements c, c_channels c)"

lemma stat_of_mr [simp]: "stat_of (c\<lparr>c_mr := r\<rparr>) = stat_of c" "stat_of (c\<lparr>c_busy := b\<rparr>) = stat_of c"
  by (simp_all add: stat_of_def)

lemma stat_of_rx [simp]:
  "stat_of (die e c) = stat_of c"
  "stat_of (snd (conn_rxMsg c)) = stat_of c"
  "stat_of (rxReadyForQuery c) = stat_of c"
  "stat_of (rxParameterStatus c) = stat_of c"
  "stat_of (rxNotificationResponse c) = stat_of c"
  "stat_of (snd (rxErrorResponse c)) = stat_of c"
  "stat_of (snd (conn_unlock c)) = stat_of c"
  "stat_of (snd (conn_lock c)) = stat_of c"
  by (simp_all add: stat_of_def die_def conn_rxMsg_def rxReadyForQuery_def rxParameterStatus_def
      rxNotificationResponse_def rxErrorResponse_def conn_unlock_def conn_lock_def Let_def split: prod.splits option.splits)

lemma stat_of_processContextFreeMsg [simp]: "stat_of (snd (processContextFreeMsg t c)) = stat_of c"
  by (simp add: processContextFreeMsg_def case_prod_beta)

lemma stat_of_Exec_loop [simp]: "stat_of (snd (Exec_loop tag e c)) = stat_of c"
proof (induction tag e c rule: Exec_loop.induct)
  case (1 tag e c)
  show ?case
    using 1(1) [OF refl refl refl] 1(2) [OF refl refl refl] 1(3) [OF refl refl refl]
    by (subst Exec_loop.simps) (simp add: Let_def)
qed

lemma stat_of_rows_close [simp]: "stat_of (snd (rows_close ro c)) = stat_of c"
  by (simp add: rows_close_def)

lemma stat_of_readUntil [simp]: "stat_of (snd (readUntilReadyForQuery ro c)) = stat_of c"
proof (induction ro c rule: readUntilReadyForQuery.induct)
  case (1 ro c)
  show ?case
    using 1(1) [OF refl refl refl] 1(2) [OF refl refl refl] 1(3) [OF refl refl refl]
    by (subst readUntilReadyForQuery.simps) (simp add: Let_def)
qed

lemma stat_of_rows_Close [simp]: "stat_of (snd (rows_Close ro c)) = stat_of c"
  by (simp add: rows_Close_def case_prod_beta)

lemma stat_of_rows_Fatal [simp]: "stat_of (snd (rows_Fatal e ro c)) = stat_of c" "stat_of (snd (rows_abort e ro c)) = stat_of c"
  by (simp_all add: rows_Fatal_def rows_abort_def)

lemma stat_of_Next_loop [simp]: "stat_of (snd (snd (Next_loop ro c))) = stat_of c"
proof (induction ro c rule: Next_loop.induct)
  case (1 ro c)
  show ?case
    using 1(1) [OF refl refl refl] 1(2) [OF refl refl refl]
    by (subst Next_loop.simps) (simp add: Let_def case_prod_beta)
qed

lemma stat_of_Row_Scan: "Row_Scan dest ro c x = Some (y, ro', c') \<Longrightarrow> stat_of c' = stat_of c"
proof -
  assume a: "Row_Scan dest ro c x = Some (y, ro', c')"
  have nx: "rows_Next ro c = (b, ro1, c1) \<Longrightarrow> stat_of c1 = stat_of c" for b ro1 c1
    by (auto simp: rows_Next_def split: if_splits dest!: arg_cong [where f = "\<lambda>r. stat_of (snd (snd r))"])
  have cl: "rows_Close ro1 c1 = (ro2, c2) \<Longrightarrow> stat_of c2 = stat_of c1" for ro1 c1 ro2 c2
    using stat_of_rows_Close [of ro1 c1] by simp
  have ft: "rows_Fatal e ro1 c1 = (ro2, c2) \<Longrightarrow> stat_of c2 = stat_of c1" for e ro1 c1 ro2 c2
    using stat_of_rows_Fatal(1) [of e ro1 c1] by simp
  have nc: "nextColumn ro1 c1 = Some (v, ro2, c2) \<Longrightarrow> stat_of c2 = stat_of c1" for ro1 c1 v ro2 c2
    by (auto simp: nextColumn_def split: if_splits option.splits prod.splits dest!: ft)
  have sn: "rows_Scan dest ro1 c1 x = Some (y', ro2, c2) \<Longrightarrow> stat_of c2 = stat_of c1" for ro1 c1 y' ro2 c2
    by (auto simp: rows_Scan_def Let_def split: if_splits option.splits prod.splits dest!: nc ft)
  show ?thesis
    using a by (auto simp: Row_Scan_def split: if_splits prod.splits bool.splits option.splits dest!: nx cl sn)
qed

lemma stat_of_send [simp]:
  "stat_of (snd (send_buf b c)) = stat_of c" "stat_of (snd (sendPreparedQuery sc ps args c)) = stat_of c"
  by (simp_all add: send_buf_def conn_write_def sendPreparedQuery_def Let_def die_def stat_of_def split: prod.splits option.splits)

section \<open>An idle connection\<close>

text \<open>
  A connection between two statements: alive, unlocked, nothing of a previous answer left to read. It knows the
  type \<open>json\<close> with the binary format that \<open>querystore\<close> asks for, and no named statements.
\<close>

definition json_type :: PgType where
  "json_type = \<lparr>pt_Name = ''json'', pt_DefaultFormat = BinaryFormatCode\<rparr>"

definition conn_idle :: "Conn \<Rightarrow> bytes \<Rightarrow> bool" where
  "conn_idle c rest \<longleftrightarrow> conn_at c [] rest \<and> \<not> c_busy c \<and> \<not> c_broken c \<and> c_PgTypes c JsonOid = Some json_type \<and>
     (\<forall>name. name \<noteq> [] \<longrightarrow> c_preparedStatements c name = None) \<and> c_channels c = []"

text \<open>The description of the one column of a statement that returns JSON, and the answer to its preparation.\<close>

definition json_field :: "string \<Rightarrow> FieldDescription" where
  "json_field name = \<lparr>fd_Name = name, fd_Table = 0, fd_AttributeNumber = 0, fd_DataType = JsonOid, fd_DataTypeSize = - 1,
     fd_DataTypeName = ''json'', fd_Modifier = - 1, fd_FormatCode = BinaryFormatCode\<rparr>"

text \<open>Columns on the wire, and the answer to the preparation of a statement.\<close>

definition column_bytes :: "FieldDescription \<Rightarrow> bytes" where
  "column_bytes fd = bytes_of_string (fd_Name fd) @ [0] @ be32 (fd_Table fd) @ be16 (fd_AttributeNumber fd) @
     be32 (fd_DataType fd) @ be16 (fd_DataTypeSize fd) @ be32 (fd_Modifier fd) @ be16 (fd_FormatCode fd)"

definition columns_bytes :: "FieldDescription list \<Rightarrow> bytes" where
  "columns_bytes fds = be16 (word_of_nat (length fds)) @ concat (map column_bytes fds)"

definition described_bytes :: "Oid list \<Rightarrow> FieldDescription list \<Rightarrow> byte \<Rightarrow> bytes" where
  "described_bytes oids fds st = frame (parseComplete, []) @
     frame (parameterDescription, be16 (word_of_nat (length oids)) @ concat (map be32 oids)) @
     frame (rowDescription, columns_bytes fds) @ ready_bytes st"

definition columns_ok :: "FieldDescription list \<Rightarrow> bool" where
  "columns_ok fds \<longleftrightarrow> length fds < 2 ^ 15 \<and> list_all (\<lambda>fd. CHR 0x00 \<notin> set (fd_Name fd)) fds \<and> length (columns_bytes fds) < 2 ^ 31 - 4"

definition prepared_bytes :: "Oid list \<Rightarrow> string \<Rightarrow> byte \<Rightarrow> bytes" where
  "prepared_bytes oids name = described_bytes oids [(json_field name)\<lparr>fd_FormatCode := 0\<rparr>]"

lemma conn_rxMsg_mr:
  assumes "conn_at c left (frame (t, body) @ rest)" and "length body + 4 < 2 ^ 31"
  shows "\<exists>r. conn_rxMsg c = ((t, None), c\<lparr>c_mr := r\<rparr>) \<and> mr_at r body rest"
  using rxMsg_skip [of "c_mr c" left t body rest] assms by (auto simp: conn_at_def conn_rxMsg_def)

lemma readInt16_at: "mr_at r (be16 n @ body) rest \<Longrightarrow> \<exists>r'. readInt16 r = (n, r') \<and> mr_at r' body rest"
  using read_word_at [where 'a = 16, of r 2 n body rest] by (simp add: readInt16_def be16_be_bytes)

lemma readInt32_at: "mr_at r (be32 n @ body) rest \<Longrightarrow> \<exists>r'. readInt32 r = (n, r') \<and> mr_at r' body rest"
  using read_word_at [where 'a = 32, of r 4 n body rest] by (simp add: readInt32_def be32_be_bytes)

lemma readOid_at: "mr_at r (be32 n @ body) rest \<Longrightarrow> \<exists>r'. readOid r = (n, r') \<and> mr_at r' body rest"
  using readInt32_at by (simp add: readOid_def)

lemma rx_many_oids: "mr_at r (concat (map be32 oids) @ body) rest \<Longrightarrow>
   \<exists>r'. rx_many readOid (length oids) r = (oids, r') \<and> mr_at r' body rest"
proof (induction oids arbitrary: r)
  case (Cons x xs)
  then obtain r1 where r1: "readOid r = (x, r1)" "mr_at r1 (concat (map be32 xs) @ body) rest"
    using readOid_at [of r x "concat (map be32 xs) @ body" rest] by auto
  with Cons.IH [OF r1(2)] show ?case by auto
qed simp

lemma rx_field_at:
  assumes "mr_at r (column_bytes fd @ body) rest" and "CHR 0x00 \<notin> set (fd_Name fd)"
  shows "\<exists>r'. rx_field r = (fd\<lparr>fd_DataTypeName := []\<rparr>, r') \<and> mr_at r' body rest"
proof -
  let ?t4 = "be16 (fd_DataTypeSize fd) @ be32 (fd_Modifier fd) @ be16 (fd_FormatCode fd) @ body"
  let ?t2 = "be16 (fd_AttributeNumber fd) @ be32 (fd_DataType fd) @ ?t4"
  have "mr_at r (bytes_of_string (fd_Name fd) @ [0] @ be32 (fd_Table fd) @ ?t2) rest"
    using assms(1) by (simp add: column_bytes_def)
  from readCString_at [OF this assms(2)] obtain r1 where r1: "readCString r = (fd_Name fd, r1)" "mr_at r1 (be32 (fd_Table fd) @ ?t2) rest" by blast
  obtain r2 where r2: "readOid r1 = (fd_Table fd, r2)" "mr_at r2 ?t2 rest" using readOid_at [OF r1(2)] by blast
  obtain r3 where r3: "readInt16 r2 = (fd_AttributeNumber fd, r3)" "mr_at r3 (be32 (fd_DataType fd) @ ?t4) rest" using readInt16_at [OF r2(2)] by blast
  obtain r4 where r4: "readOid r3 = (fd_DataType fd, r4)" "mr_at r4 ?t4 rest" using readOid_at [OF r3(2)] by blast
  obtain r5 where r5: "readInt16 r4 = (fd_DataTypeSize fd, r5)" "mr_at r5 (be32 (fd_Modifier fd) @ be16 (fd_FormatCode fd) @ body) rest"
    using readInt16_at [OF r4(2)] by blast
  obtain r6 where r6: "readInt32 r5 = (fd_Modifier fd, r6)" "mr_at r6 (be16 (fd_FormatCode fd) @ body) rest" using readInt32_at [OF r5(2)] by blast
  obtain r7 where r7: "readInt16 r6 = (fd_FormatCode fd, r7)" "mr_at r7 body rest" using readInt16_at [OF r6(2)] by blast
  show ?thesis
    using r1(1) r2(1) r3(1) r4(1) r5(1) r6(1) r7 by (simp add: rx_field_def)
qed

lemma rx_many_fields:
  "mr_at r (concat (map column_bytes fds) @ body) rest \<Longrightarrow> list_all (\<lambda>fd. CHR 0x00 \<notin> set (fd_Name fd)) fds \<Longrightarrow>
   \<exists>r'. rx_many rx_field (length fds) r = (map (fd_DataTypeName_update (\<lambda>_. [])) fds, r') \<and> mr_at r' body rest"
proof (induction fds arbitrary: r)
  case (Cons fd fds)
  obtain r1 where "rx_field r = (fd\<lparr>fd_DataTypeName := []\<rparr>, r1)" "mr_at r1 (concat (map column_bytes fds) @ body) rest"
    using rx_field_at [of r fd "concat (map column_bytes fds) @ body" rest] Cons.prems by auto
  with Cons.IH [of r1] Cons.prems show ?case by auto
qed simp

lemma rxRowDescription_at:
  assumes "mr_at (c_mr c) (columns_bytes fds) rest" and "columns_ok fds"
  shows "\<exists>r. rxRowDescription c = Some (map (fd_DataTypeName_update (\<lambda>_. [])) fds, c\<lparr>c_mr := r\<rparr>) \<and> mr_at r [] rest"
proof -
  let ?n = "word_of_nat (length fds) :: 16 word"
  obtain r1 where r1: "readInt16 (c_mr c) = (?n, r1)" "mr_at r1 (concat (map column_bytes fds) @ []) rest"
    using readInt16_at [of "c_mr c" ?n "concat (map column_bytes fds)" rest] assms(1) by (auto simp: columns_bytes_def)
  obtain r2 where r2: "rx_many rx_field (length fds) r1 = (map (fd_DataTypeName_update (\<lambda>_. [])) fds, r2)" "mr_at r2 [] rest"
    using rx_many_fields [OF r1(2)] assms(2) by (auto simp: columns_ok_def)
  have "sint (word_of_int (int (length fds)) :: 16 word) = int (length fds)"
    using assms(2) by (subst sint_sbintrunc') (simp add: columns_ok_def signed_take_bit_int_eq_self)
  then have "sint ?n = int (length fds)" by simp
  with r1(1) r2 show ?thesis by (auto simp: rxRowDescription_def)
qed

lemma describe_field_name [simp]: "describe_field types (fd\<lparr>fd_DataTypeName := n\<rparr>) = describe_field types fd"
  by (simp add: describe_field_def split: option.splits)

lemma rxParameterDescription_at:
  assumes "mr_at (c_mr c) (be16 k @ concat (map be32 oids)) rest"
  shows "\<exists>r. rxParameterDescription c = Some (oids, c\<lparr>c_mr := r\<rparr>) \<and> mr_at r [] rest"
proof -
  obtain r1 where r1: "readInt16 (c_mr c) = (k, r1)" "mr_at r1 (concat (map be32 oids) @ []) rest"
    using readInt16_at [of "c_mr c" k "concat (map be32 oids)" rest] assms by auto
  obtain r2 where r2: "rx_many readOid (length oids) r1 = (oids, r2)" "mr_at r2 [] rest"
    using rx_many_oids [OF r1(2)] by blast
  have "length (concat (map be32 oids)) = 4 * length oids" by (induction oids) (simp_all add: be32_be_bytes)
  then have "sint (mr_remaining r1) div 4 = int (length oids)" "\<not> sint (mr_remaining r1) < 0"
    using r1(2) by (simp_all add: mr_at_def)
  with r1(1) r2 show ?thesis by (auto simp: rxParameterDescription_def Let_def)
qed

lemma Prepare_loop_columns:
  assumes at: "conn_at c left (described_bytes oids fds st @ rest)" and fds: "columns_ok fds" and size: "length oids \<le> 65535"
  shows "\<exists>r. let ps' = ps\<lparr>ps_ParameterOids := oids, ps_FieldDescriptions := map (describe_field (c_PgTypes c)) fds\<rparr> in
    Prepare_loop ps None c =
      Some ((Some ps', None), c\<lparr>c_mr := r, c_TxStatus := st, c_preparedStatements := (c_preparedStatements c)(ps_Name ps \<mapsto> ps')\<rparr>) \<and>
    mr_at r [] rest"
proof -
  let ?pd = "be16 (word_of_nat (length oids)) @ concat (map be32 oids)"
  let ?rd = "columns_bytes fds"
  have alive: "c_alive c" using at by (simp add: conn_at_def)
  have lens: "length (concat (map be32 oids)) = 4 * length oids" by (induction oids) (simp_all add: be32_be_bytes)
  have s1: "length ?pd + 4 < 2 ^ 31" using size lens by (simp add: be16_be_bytes)
  have s2: "length ?rd + 4 < 2 ^ 31" using fds by (simp add: columns_ok_def)
  have "conn_at c left (frame (parseComplete, []) @ frame (parameterDescription, ?pd) @ frame (rowDescription, ?rd) @ frame (readyForQuery, [st]) @ rest)"
    using at by (simp add: described_bytes_def ready_bytes_def)
  from conn_rxMsg_mr [OF this] obtain r1 where r1: "conn_rxMsg c = ((parseComplete, None), c\<lparr>c_mr := r1\<rparr>)"
    "mr_at r1 [] (frame (parameterDescription, ?pd) @ frame (rowDescription, ?rd) @ frame (readyForQuery, [st]) @ rest)" by auto
  have "conn_at (c\<lparr>c_mr := r1\<rparr>) [] (frame (parameterDescription, ?pd) @ frame (rowDescription, ?rd) @ frame (readyForQuery, [st]) @ rest)"
    using r1(2) alive by (simp add: conn_at_def)
  from conn_rxMsg_mr [OF this s1] obtain r2 where r2: "conn_rxMsg (c\<lparr>c_mr := r1\<rparr>) = ((parameterDescription, None), c\<lparr>c_mr := r2\<rparr>)"
    "mr_at r2 ?pd (frame (rowDescription, ?rd) @ frame (readyForQuery, [st]) @ rest)" by auto
  obtain r3 where r3: "rxParameterDescription (c\<lparr>c_mr := r2\<rparr>) = Some (oids, c\<lparr>c_mr := r3\<rparr>)"
    "mr_at r3 [] (frame (rowDescription, ?rd) @ frame (readyForQuery, [st]) @ rest)"
    using rxParameterDescription_at [of "c\<lparr>c_mr := r2\<rparr>"] r2(2) by fastforce
  have "conn_at (c\<lparr>c_mr := r3\<rparr>) [] (frame (rowDescription, ?rd) @ frame (readyForQuery, [st]) @ rest)"
    using r3(2) alive by (simp add: conn_at_def)
  from conn_rxMsg_mr [OF this s2] obtain r4 where r4: "conn_rxMsg (c\<lparr>c_mr := r3\<rparr>) = ((rowDescription, None), c\<lparr>c_mr := r4\<rparr>)"
    "mr_at r4 ?rd (frame (readyForQuery, [st]) @ rest)" by auto
  obtain r5 where r5: "rxRowDescription (c\<lparr>c_mr := r4\<rparr>) = Some (map (fd_DataTypeName_update (\<lambda>_. [])) fds, c\<lparr>c_mr := r5\<rparr>)"
    "mr_at r5 [] (frame (readyForQuery, [st]) @ rest)"
    using rxRowDescription_at [of "c\<lparr>c_mr := r4\<rparr>" fds] r4(2) fds by fastforce
  have "conn_at (c\<lparr>c_mr := r5\<rparr>) [] (frame (readyForQuery, [st]) @ rest)" using r5(2) alive by (simp add: conn_at_def)
  from conn_rxMsg_mr [OF this] obtain r6 where r6: "conn_rxMsg (c\<lparr>c_mr := r5\<rparr>) = ((readyForQuery, None), c\<lparr>c_mr := r6\<rparr>)"
    "mr_at r6 [st] rest" by auto
  obtain r7 where r7: "readByte r6 = (st, r7)" "mr_at r7 [] rest" using readByte_at [OF r6(2)] by blast
  note step = Prepare_loop.simps [THEN trans]
  let ?ps1 = "ps\<lparr>ps_ParameterOids := oids\<rparr>" let ?ps2 = "?ps1\<lparr>ps_FieldDescriptions := map (describe_field (c_PgTypes c)) fds\<rparr>"
  have "Prepare_loop ps None c = Prepare_loop ps None (c\<lparr>c_mr := r1\<rparr>)"
    by (rule step) (simp add: r1(1) msg_types msg_type_distinct)
  also have "\<dots> = Prepare_loop ?ps1 None (c\<lparr>c_mr := r3\<rparr>)"
    by (rule step) (use size in \<open>simp add: r2(1) r3(1) msg_types msg_type_distinct\<close>)
  also have "\<dots> = Prepare_loop ?ps2 None (c\<lparr>c_mr := r5\<rparr>)"
    by (rule step) (simp add: r4(1) r5(1) comp_def msg_types msg_type_distinct)
  also have "\<dots> = Some ((Some ?ps2, None), c\<lparr>c_mr := r7, c_TxStatus := st, c_preparedStatements := (c_preparedStatements c)(ps_Name ps \<mapsto> ?ps2)\<rparr>)"
    by (rule step) (simp add: r6(1) r7(1) rxReadyForQuery_def msg_types msg_type_distinct)
  finally show ?thesis using r7(2) by (auto simp: Let_def)
qed

text \<open>The unnamed statement on a connection that has not been used for anything else.\<close>

lemma conn_Prepare_columns:
  assumes at: "conn_at c [] (described_bytes oids fds st @ rest)" and "\<not> c_broken c" and fds: "columns_ok fds" and size: "length oids \<le> 65535"
  shows "\<exists>r out. let ps = \<lparr>ps_Name = [], ps_SQL = sql, ps_FieldDescriptions = map (describe_field (c_PgTypes c)) fds, ps_ParameterOids = oids\<rparr> in
    conn_Prepare [] sql c = Some ((Some ps, None),
      c\<lparr>c_out := out, c_mr := r, c_TxStatus := st, c_preparedStatements := (c_preparedStatements c)([] \<mapsto> ps)\<rparr>) \<and> mr_at r [] rest"
proof -
  let ?c1 = "c\<lparr>c_out := c_out c @ prepare_msg [] sql\<rparr>"
  let ?ps = "\<lparr>ps_Name = [], ps_SQL = sql, ps_FieldDescriptions = [], ps_ParameterOids = []\<rparr> :: PreparedStatement"
  have "conn_at ?c1 [] (described_bytes oids fds st @ rest)" using at by (simp add: conn_at_def)
  from Prepare_loop_columns [OF this fds size, of ?ps] obtain r where
    "Prepare_loop ?ps None ?c1 = Some ((Some (?ps\<lparr>ps_ParameterOids := oids, ps_FieldDescriptions := map (describe_field (c_PgTypes c)) fds\<rparr>), None),
       ?c1\<lparr>c_mr := r, c_TxStatus := st, c_preparedStatements := (c_preparedStatements c)
         ([] \<mapsto> ?ps\<lparr>ps_ParameterOids := oids, ps_FieldDescriptions := map (describe_field (c_PgTypes c)) fds\<rparr>)\<rparr>)" "mr_at r [] rest"
    by (auto simp: Let_def)
  with assms(2) show ?thesis
    by (auto simp: conn_Prepare_def conn_write_def Let_def intro!: exI [of _ r] exI [of _ "c_out c @ prepare_msg [] sql"])
qed

section \<open>A statement with text parameters\<close>

text \<open>The unnamed statement, prepared for its text arguments, and sent.\<close>

lemma encode_args_texts: "encode_args sc (zip oids (map VString ss)) w = (e, w') \<Longrightarrow> e = None"
proof (induction ss arbitrary: oids w)
  case (Cons s ss)
  then show ?case by (cases oids) (auto simp: encodeString_def)
qed simp

lemma sendPreparedQuery_text:
  assumes "\<not> c_broken c" and "length (ps_ParameterOids ps) = length ss"
  shows "\<exists>out. sendPreparedQuery sc ps (map VString ss) c = (None, c\<lparr>c_out := out\<rparr>)"
  using assms
  by (auto simp: sendPreparedQuery_def Let_def send_buf_def conn_write_def split: prod.splits option.splits dest: encode_args_texts)

definition asking :: "string \<Rightarrow> Oid list \<Rightarrow> string \<Rightarrow> PreparedStatement" where
  "asking sql oids name = \<lparr>ps_Name = [], ps_SQL = sql, ps_FieldDescriptions = [json_field name], ps_ParameterOids = oids\<rparr>"

lemma asking_sel [simp]: "ps_ParameterOids (asking sql oids name) = oids" "ps_FieldDescriptions (asking sql oids name) = [json_field name]"
  by (simp_all add: asking_def)

lemma conn_Prepare_answer:
  assumes idle: "conn_idle c (prepared_bytes oids name st @ rest)"
    and name: "CHR 0x00 \<notin> set name" "length name < 2 ^ 30" "length oids \<le> 65535"
  shows "\<exists>r out. conn_Prepare [] sql (c\<lparr>c_busy := True\<rparr>) = Some ((Some (asking sql oids name), None),
      c\<lparr>c_busy := True, c_out := out, c_mr := r, c_TxStatus := st, c_preparedStatements := (c_preparedStatements c)([] \<mapsto> asking sql oids name)\<rparr>) \<and>
    mr_at r [] rest"
proof -
  let ?fd = "(json_field name)\<lparr>fd_FormatCode := 0\<rparr>"
  have at: "conn_at (c\<lparr>c_busy := True\<rparr>) [] (described_bytes oids [?fd] st @ rest)" and nb: "\<not> c_broken (c\<lparr>c_busy := True\<rparr>)"
    and json: "c_PgTypes c JsonOid = Some json_type"
    using idle by (simp_all add: conn_idle_def conn_at_def prepared_bytes_def)
  have ok: "columns_ok [?fd]"
    using name by (simp add: columns_ok_def columns_bytes_def column_bytes_def json_field_def be16_be_bytes be32_be_bytes)
  have "describe_field (c_PgTypes c) ?fd = json_field name"
    using json by (simp add: describe_field_def json_field_def json_type_def)
  then have "\<lparr>ps_Name = [], ps_SQL = sql, ps_FieldDescriptions = map (describe_field (c_PgTypes c)) [?fd], ps_ParameterOids = oids\<rparr> =
      asking sql oids name"
    by (simp add: asking_def)
  with conn_Prepare_columns [OF at nb ok name(3), of sql] show ?thesis by (auto simp: Let_def)
qed

lemma conn_idle_again:
  assumes "conn_idle c rest0" and "stat_of c' = stat_of (c1\<lparr>c_preparedStatements := (c_preparedStatements c)([] \<mapsto> ps)\<rparr>)"
    and "stat_of c1 = stat_of c" and "conn_at c' [] rest" "\<not> c_busy c'"
  shows "conn_idle c' rest"
  using assms by (auto simp: conn_idle_def stat_of_def)

lemma Exec_json:
  assumes idle: "conn_idle c (prepared_bytes oids name st0 @ srv_bytes ms @ ready_bytes st @ rest)"
    and name: "CHR 0x00 \<notin> set name" "length name < 2 ^ 30" "length oids \<le> 65535" and sql: "sql \<noteq> []" and args: "length oids = length ss" "ss \<noteq> []"
    and ms: "list_all (\<lambda>m. msg_ok m \<and> \<not> fatal_msg m) ms"
  shows "\<exists>c'. conn_Exec sc sql (map VString ss) c = Some (exec_spec [] None ms, c') \<and> conn_idle c' rest \<and> c_TxStatus c' = st \<and>
    prc_conn c' = prc_conn c"
proof -
  let ?b = "c\<lparr>c_busy := True\<rparr>" let ?ps = "asking sql oids name"
  obtain r out where p: "conn_Prepare [] sql ?b = Some ((Some ?ps, None),
      c\<lparr>c_busy := True, c_out := out, c_mr := r, c_TxStatus := st0, c_preparedStatements := (c_preparedStatements c)([] \<mapsto> ?ps)\<rparr>)"
    (is "_ = Some (_, ?c2)") and r: "mr_at r [] (srv_bytes ms @ ready_bytes st @ rest)"
    using conn_Prepare_answer [OF idle name, of sql] by blast
  have nb: "\<not> c_broken ?c2" "\<not> c_busy c" "c_alive c" "c_preparedStatements c sql = None"
    using idle sql by (simp_all add: conn_idle_def conn_at_def)
  obtain out' where s: "sendPreparedQuery sc ?ps (map VString ss) ?c2 = (None, ?c2\<lparr>c_out := out'\<rparr>)"
    using sendPreparedQuery_text [OF nb(1), of ?ps] args by auto
  let ?c3 = "?c2\<lparr>c_out := out'\<rparr>"
  have sent: "sendQuery sc sql (map VString ss) ?b = Some (None, ?c3)"
    using p s nb(4) args(2) by (simp add: sendQuery_def sendSimpleQuery_def)
  have at: "conn_at ?c3 [] (srv_bytes ms @ ready_bytes st @ rest)" using r nb(3) by (simp add: conn_at_def)
  obtain c' where c': "conn_Exec sc sql (map VString ss) c = Some (exec_spec [] None ms, c')" "conn_at c' [] rest" "\<not> c_busy c'" "c_TxStatus c' = st"
    using Exec_answer [OF nb(2) sent ms] at by blast
  then have "c' = snd (conn_unlock (snd (Exec_loop [] None ?c3)))"
    using sent nb(2) by (simp add: conn_Exec_def conn_lock_def split: prod.splits)
  then have "stat_of c' = stat_of ?c3" by simp
  then have "conn_idle c' rest"
    using conn_idle_again [OF idle, where c' = c' and ?c1.0 = c and ps = ?ps] c' by (simp add: stat_of_def)
  with c' prc_lock [OF lock_of_Exec [OF c'(1)]] show ?thesis by blast
qed

text \<open>
  A query for one row on a connection, read into a destination: the result, and the connection idle again before
  the bytes \<open>rest\<close>.
\<close>

definition row_gives :: "strconv \<Rightarrow> string \<Rightarrow> go_val list \<Rightarrow> 's column_reader \<Rightarrow> 's \<Rightarrow> pgx_error option \<times> 's \<Rightarrow> byte \<Rightarrow> Conn \<Rightarrow> bytes \<Rightarrow> bool" where
  "row_gives sc sql args dest x res st c rest \<longleftrightarrow>
     (\<exists>ro c1 ro' c'. conn_Query sc sql args c = Some (ro, c1) \<and> ro_err ro = None \<and> Row_Scan dest ro c1 x = Some (res, ro', c') \<and>
        ro_closed ro' \<and> conn_idle c' rest \<and> c_TxStatus c' = st \<and> prc_conn c' = prc_conn c)"

text \<open>The query is sent on an idle connection; its answer is what follows.\<close>

lemma conn_Query_json:
  assumes idle: "conn_idle c (prepared_bytes oids name st0 @ answer)"
    and name: "CHR 0x00 \<notin> set name" "length name < 2 ^ 30" "length oids \<le> 65535" and sql: "sql \<noteq> []" and args: "length oids = length ss"
  shows "\<exists>c1. conn_Query sc sql (map VString ss) c = Some (new_rows\<lparr>ro_unlockConn := True, ro_fields := [json_field name]\<rparr>, c1) \<and>
    conn_at c1 [] answer \<and> c_busy c1 \<and> prc_conn c1 = prc_conn c \<and>
    stat_of c1 = stat_of (c\<lparr>c_preparedStatements := (c_preparedStatements c)([] \<mapsto> asking sql oids name)\<rparr>)"
proof -
  let ?b = "c\<lparr>c_busy := True\<rparr>" let ?ps = "asking sql oids name"
  obtain r out where p: "conn_Prepare [] sql ?b = Some ((Some ?ps, None),
      c\<lparr>c_busy := True, c_out := out, c_mr := r, c_TxStatus := st0, c_preparedStatements := (c_preparedStatements c)([] \<mapsto> ?ps)\<rparr>)"
    (is "_ = Some (_, ?c2)") and r: "mr_at r [] answer"
    using conn_Prepare_answer [OF idle name, of sql] by blast
  have nb: "\<not> c_broken ?c2" "\<not> c_busy c" "c_alive c" "c_preparedStatements c sql = None"
    using idle sql by (simp_all add: conn_idle_def conn_at_def)
  obtain out' where s: "sendPreparedQuery sc ?ps (map VString ss) ?c2 = (None, ?c2\<lparr>c_out := out'\<rparr>)"
    using sendPreparedQuery_text [OF nb(1), of ?ps] args by auto
  have "conn_Query sc sql (map VString ss) c = Some (new_rows\<lparr>ro_unlockConn := True, ro_fields := [json_field name]\<rparr>, ?c2\<lparr>c_out := out'\<rparr>)"
    using p s nb by (simp add: conn_Query_def conn_lock_def)
  with r nb(3) show ?thesis by (auto simp: conn_at_def stat_of_def)
qed

lemma QueryRow_json:
  assumes idle: "conn_idle c (prepared_bytes oids name st0 @ srv_bytes pre @ row_bytes body @ srv_bytes post @ ready_bytes st @ rest)"
    and name: "CHR 0x00 \<notin> set name" "length name < 2 ^ 30" "length oids \<le> 65535" and sql: "sql \<noteq> []" and args: "length oids = length ss"
    and pre: "list_all (\<lambda>m. msg_ok m \<and> passed_over m) pre" and post: "list_all (\<lambda>m. msg_ok m \<and> \<not> fatal_msg m) post"
    and size: "length body + 10 < 2 ^ 31"
    and dest: "\<And>vr rest. vr_at vr body [] rest \<Longrightarrow> vr_fd vr = json_field name \<Longrightarrow>
      \<exists>vr'. dest vr x = Some ((None, y), vr') \<and> vr_at vr' [] [] rest"
  shows "row_gives sc sql (map VString ss) dest x (first_error None post, y) st c rest"
proof -
  let ?ro = "new_rows\<lparr>ro_unlockConn := True, ro_fields := [json_field name]\<rparr>"
  obtain c1 where q: "conn_Query sc sql (map VString ss) c = Some (?ro, c1)" "c_busy c1" "prc_conn c1 = prc_conn c"
      "stat_of c1 = stat_of (c\<lparr>c_preparedStatements := (c_preparedStatements c)([] \<mapsto> asking sql oids name)\<rparr>)"
    and at: "conn_at c1 [] (srv_bytes pre @ row_bytes body @ srv_bytes post @ ready_bytes st @ rest)"
    using conn_Query_json [OF idle name sql args] by blast
  obtain ro' c' where c': "Row_Scan dest ?ro c1 x = Some ((first_error None post, y), ro', c')" "ro_closed ro'"
    "conn_at c' [] rest" "\<not> c_busy c'" "c_TxStatus c' = st"
    using Row_Scan_row [where ro = ?ro and fd = "json_field name" and c = c1 and dest = dest and x = x and y = y,
        OF _ _ _ _ q(2) pre post size at dest] by (auto simp: new_rows_def)
  have "conn_idle c' rest"
    using conn_idle_again [OF idle _ refl c'(3,4)] stat_of_Row_Scan [OF c'(1)] q(4) by simp
  moreover have "prc_conn c' = prc_conn c" using Row_Scan_prc [OF c'(1)] q(3) by simp
  ultimately show ?thesis using q(1) c' by (auto simp: row_gives_def new_rows_def)
qed

text \<open>A query the server refuses: the destination is left alone.\<close>

lemma QueryRow_refused:
  assumes idle: "conn_idle c (prepared_bytes oids name st0 @ srv_bytes (pre @ SError fs # post) @ ready_bytes st @ rest)"
    and name: "CHR 0x00 \<notin> set name" "length name < 2 ^ 30" "length oids \<le> 65535" and sql: "sql \<noteq> []" and args: "length oids = length ss"
    and pre: "list_all (\<lambda>m. msg_ok m \<and> passed_over m) pre"
    and post: "list_all (\<lambda>m. msg_ok m \<and> \<not> fatal_msg m) (SError fs # post)"
  shows "row_gives sc sql (map VString ss) dest x (Some (PgErr (pg_error fs)), x) st c rest"
proof -
  let ?ro = "new_rows\<lparr>ro_unlockConn := True, ro_fields := [json_field name]\<rparr>"
  let ?tail = "srv_bytes post @ ready_bytes st @ rest"
  obtain c1 where q: "conn_Query sc sql (map VString ss) c = Some (?ro, c1)" "c_busy c1" "prc_conn c1 = prc_conn c"
      "stat_of c1 = stat_of (c\<lparr>c_preparedStatements := (c_preparedStatements c)([] \<mapsto> asking sql oids name)\<rparr>)"
    and at: "conn_at c1 [] (srv_bytes pre @ frame (srv_frame (SError fs)) @ ?tail)"
    using conn_Query_json [OF idle name sql args] by (auto simp: srv_bytes_def)
  let ?ro1 = "?ro\<lparr>ro_rowCount := ro_rowCount ?ro + 1, ro_columnIdx := 0, ro_vrLen := 0\<rparr>"
  obtain c2 left2 where c2: "Next_loop ?ro1 c1 = Next_loop ?ro1 c2" "conn_at c2 left2 (frame (srv_frame (SError fs)) @ ?tail)" "keeps c1 c2"
    using Next_loop_msgs [OF pre at] by blast
  obtain c3 where c3: "conn_rxMsg c2 = ((errorResponse, None), c3)" "conn_at c3 (error_bytes fs) ?tail" "keeps c2 c3"
    using conn_rxMsg_at [of c2 left2 errorResponse "error_bytes fs" ?tail] c2(2) post by (auto simp: msg_ok.simps)
  obtain c4 where c4: "rxErrorResponse c3 = (pg_error fs, c4)" "conn_at c4 [] ?tail" "keeps c3 c4"
    using rxErrorResponse_at [of fs c3 ?tail] c3(2) post by (auto simp: msg_ok.simps)
  let ?ro2 = "?ro1\<lparr>ro_err := Some (PgErr (pg_error fs))\<rparr>"
  have "Next_loop ?ro1 c2 = (False, rows_Close ?ro2 c4)"
    using c3(1) c4(1)
    by (subst Next_loop.simps) (simp add: processContextFreeMsg_def msg_types msg_type_distinct rows_Fatal_def new_rows_def)
  moreover obtain ro' c' where u: "readUntilReadyForQuery ?ro2 c4 = (ro', c')" "ro_closed ro'"
    "ro_err ro' = first_error (Some (PgErr (pg_error fs))) post" "conn_at c' [] rest" "\<not> c_busy c'" "c_TxStatus c' = st"
    using readUntilReadyForQuery_response [of post c4 "[]" st rest ?ro2] c4 c3(3) c2(3) q(2) post by (auto simp: keeps_def new_rows_def)
  moreover have "first_error (Some e) ms = Some e" for e ms by (induction "Some e" ms rule: first_error.induct) auto
  ultimately have scan: "Row_Scan dest ?ro c1 x = Some ((Some (PgErr (pg_error fs)), x), ro', c')"
    using c2(1) by (simp add: Row_Scan_def rows_Next_def new_rows_def rows_Close_def rows_close_def)
  have "conn_idle c' rest"
    using conn_idle_again [OF idle _ refl u(4,5)] stat_of_Row_Scan [OF scan] q(4) by simp
  moreover have "prc_conn c' = prc_conn c" using Row_Scan_prc [OF scan] q(3) by simp
  ultimately show ?thesis using q(1) scan u by (auto simp: row_gives_def new_rows_def)
qed

section \<open>Through the pool\<close>

text \<open>A pool at rest: open, no client holds a connection, and the connection next to be handed out is idle.\<close>

definition pool_idle :: "pool_state \<Rightarrow> nat \<Rightarrow> bytes \<Rightarrow> bool" where
  "pool_idle st c rest \<longleftrightarrow> pool_inv st [] \<and> \<not> cp_closed (st_pool st) \<and> cp_availableConnections (st_pool st) \<noteq> [] \<and>
     last (cp_availableConnections (st_pool st)) = c \<and> conn_idle (conn_in st c) rest"

text \<open>What one row through an idle connection gives, it gives through the pool, and the pool is at rest again.\<close>

lemma pool_QueryRow_gives:
  assumes pool: "pool_idle st c input"
    and gives: "\<And>d. conn_idle d input \<Longrightarrow> row_gives sc sql args dest x res 73 d rest"
  shows "\<exists>st'. pool_QueryRow_Scan sc cfg sql args dest st x = Some (res, st') \<and> pool_idle st' c rest"
proof -
  let ?p = "st_pool st" let ?d = "(conn_in st c)\<lparr>c_poolResetCount := cp_resetCount ?p\<rparr>"
  let ?st1 = "set_pool (?p\<lparr>cp_availableConnections := butlast (cp_availableConnections ?p)\<rparr>) (set_conn c ?d st)"
  have acq: "acquire cfg st = Some (Acquired c, ?st1)"
    using pool by (auto simp: acquire_def pool_idle_def Let_def)
  have "conn_idle ?d input" using pool by (simp add: pool_idle_def conn_idle_def conn_at_def)
  from gives [OF this] obtain ro c1 ro' c' where
    q: "conn_Query sc sql args ?d = Some (ro, c1)" "ro_err ro = None" "Row_Scan dest ro c1 x = Some (res, ro', c')" "ro_closed ro'"
    and idle: "conn_idle c' rest" and c': "c_TxStatus c' = 73" "prc_conn c' = prc_conn ?d"
    unfolding row_gives_def by blast
  have tidy: "tidy sc c' = Some (c'\<lparr>c_notifications := []\<rparr>)"
    using c'(1) idle by (simp add: tidy_def conn_idle_def byte_of_char_def)
  let ?st2 = "set_conn c c' ?st1"
  let ?st3 = "set_conn c (c'\<lparr>c_notifications := []\<rparr>) ?st2"
  let ?st' = "set_pool ((st_pool ?st1)\<lparr>cp_availableConnections := cp_availableConnections (st_pool ?st1) @ [c]\<rparr>) ?st3"
  have rel: "Release sc c ?st2 = Some ?st'"
    using tidy c' idle by (simp add: Release_def Let_def IsAlive_def conn_idle_def conn_at_def)
  have run: "pool_QueryRow_Scan sc cfg sql args dest st x = Some (res, ?st')"
    using acq q rel by (simp add: pool_QueryRow_Scan_def)
  have "cp_availableConnections (st_pool ?st') \<noteq> []" "last (cp_availableConnections (st_pool ?st')) = c" "\<not> cp_closed (st_pool ?st')"
    using pool by (simp_all add: pool_idle_def)
  moreover have "conn_idle (conn_in ?st' c) rest" using idle by (simp add: conn_idle_def conn_at_def)
  moreover have "pool_inv ?st' []"
    using pool_QueryRow_Scan_inv [OF _ run] pool by (simp add: pool_idle_def)
  ultimately show ?thesis using run unfolding pool_idle_def by blast
qed

end
