(* ===== verification/Pgx_Tx.thy ===== *)
theory Pgx_Tx
  imports Pgx_Session
begin

text \<open>
  Transactions (\<open>pgx/tx.go\<close>) and those begun through the pool (\<open>BeginIso\<close> of \<open>conn_pool.go\<close>). A transaction
  refers to its connection by its place in the store of the pool model. The callbacks of \<open>AfterClose\<close> see the
  transaction through its methods \<open>Conn\<close>, \<open>Err\<close> and \<open>Status\<close>.
\<close>

section \<open>Transactions\<close>

datatype tx_error = ErrTxClosed | ErrTxCommitRollback | TxConnErr pgx_error

type_synonym tx_callback = "nat \<times> tx_error option \<times> int \<Rightarrow> pool_state \<Rightarrow> pool_state option"

record Tx =
  tx_conn :: nat
  tx_afterClose :: "tx_callback option"
  tx_err :: "tx_error option"
  tx_status :: int

definition begin_sql :: "string \<Rightarrow> string" where
  "begin_sql isoLevel = (if isoLevel = [] then ''begin'' else ''begin isolation level '' @ isoLevel)"

definition conn_begin :: "strconv \<Rightarrow> string \<Rightarrow> nat \<Rightarrow> pool_state \<Rightarrow> ((pgx_error, Tx) result \<times> pool_state) option" where
  "conn_begin sc isoLevel c st =
     (case conn_Exec sc (begin_sql isoLevel) [] (conn_in st c) of
        None \<Rightarrow> None
      | Some ((_, Some e), d) \<Rightarrow> Some (Inl e, set_conn c d st)
      | Some ((_, None), d) \<Rightarrow> Some (Inr \<lparr>tx_conn = c, tx_afterClose = None, tx_err = None, tx_status = 0\<rparr>, set_conn c d st))"

definition tx_closed :: "Tx \<Rightarrow> pool_state \<Rightarrow> (tx_error option \<times> Tx \<times> pool_state) option" where
  "tx_closed tx st =
     (case tx_afterClose tx of
        None \<Rightarrow> Some (tx_err tx, tx, st)
      | Some f \<Rightarrow> map_option (\<lambda>st. (tx_err tx, tx, st)) (f (tx_conn tx, tx_err tx, tx_status tx) st))"

definition Commit :: "strconv \<Rightarrow> Tx \<Rightarrow> pool_state \<Rightarrow> (tx_error option \<times> Tx \<times> pool_state) option" where
  "Commit sc tx st =
     (if tx_status tx \<noteq> 0 then Some (Some ErrTxClosed, tx, st)
      else
        case conn_Exec sc ''commit'' [] (conn_in st (tx_conn tx)) of
          None \<Rightarrow> None
        | Some ((commandTag, err), d) \<Rightarrow>
            (let st = set_conn (tx_conn tx) d st;
                 tx = (if err = None \<and> commandTag = ''COMMIT'' then tx\<lparr>tx_status := 1\<rparr>
                       else if err = None \<and> commandTag = ''ROLLBACK'' then tx\<lparr>tx_status := - 1, tx_err := Some ErrTxCommitRollback\<rparr>
                       else tx\<lparr>tx_status := - 1, tx_err := map_option TxConnErr err\<rparr>)
             in tx_closed tx st))"

definition Rollback :: "strconv \<Rightarrow> Tx \<Rightarrow> pool_state \<Rightarrow> (tx_error option \<times> Tx \<times> pool_state) option" where
  "Rollback sc tx st =
     (if tx_status tx \<noteq> 0 then Some (Some ErrTxClosed, tx, st)
      else
        case conn_Exec sc ''rollback'' [] (conn_in st (tx_conn tx)) of
          None \<Rightarrow> None
        | Some ((_, err), d) \<Rightarrow>
            (let st = set_conn (tx_conn tx) d st;
                 tx = tx\<lparr>tx_err := map_option TxConnErr err\<rparr>;
                 tx = (if tx_err tx = None then tx\<lparr>tx_status := 2\<rparr> else tx\<lparr>tx_status := - 2\<rparr>)
             in tx_closed tx st))"

definition tx_Exec :: "strconv \<Rightarrow> string \<Rightarrow> go_val list \<Rightarrow> Tx \<Rightarrow> pool_state \<Rightarrow> ((string \<times> tx_error option) \<times> pool_state) option" where
  "tx_Exec sc sql args tx st =
     (if tx_status tx \<noteq> 0 then Some (([], Some ErrTxClosed), st)
      else map_option (\<lambda>((tag, err), d). ((tag, map_option TxConnErr err), set_conn (tx_conn tx) d st)) (conn_Exec sc sql args (conn_in st (tx_conn tx))))"

text \<open>\<open>Query\<close>; on a closed transaction the rows are closed and carry the error.\<close>

definition tx_Query :: "strconv \<Rightarrow> string \<Rightarrow> go_val list \<Rightarrow> Tx \<Rightarrow> pool_state \<Rightarrow> ((tx_error, Rows) result \<times> pool_state) option" where
  "tx_Query sc sql args tx st =
     (if tx_status tx \<noteq> 0 then Some (Inl ErrTxClosed, st)
      else map_option (\<lambda>(rows, d). (case ro_err rows of Some e \<Rightarrow> Inl (TxConnErr e) | None \<Rightarrow> Inr rows, set_conn (tx_conn tx) d st))
             (conn_Query sc sql args (conn_in st (tx_conn tx))))"

definition AfterClose :: "tx_callback \<Rightarrow> Tx \<Rightarrow> Tx" where
  "AfterClose f tx =
     (case tx_afterClose tx of
        None \<Rightarrow> tx\<lparr>tx_afterClose := Some f\<rparr>
      | Some prevFn \<Rightarrow> tx\<lparr>tx_afterClose := Some (\<lambda>v st. Option.bind (f v st) (prevFn v))\<rparr>)"

section \<open>Transactions of the pool\<close>

definition txAfterClose :: "strconv \<Rightarrow> tx_callback" where
  "txAfterClose sc v st = Release sc (fst v) st"

text \<open>
  \<open>BeginIso\<close> tries again with another connection while the one it got turns out to be dead. Nothing bounds the
  number of attempts, so not returning is \<open>None\<close>.
\<close>

partial_function (option) pool_BeginIso ::
  "strconv \<Rightarrow> pool_config \<Rightarrow> string \<Rightarrow> pool_state \<Rightarrow> ((pgx_error, Tx) result \<times> pool_state) option" where
  [code]: "pool_BeginIso sc cfg isoLevel st =
     (case acquire cfg st of
        Some (AcqErr e, st) \<Rightarrow> Some (Inl e, st)
      | Some (Acquired c, st) \<Rightarrow>
          (case conn_begin sc isoLevel c st of
             None \<Rightarrow> None
           | Some (Inr tx, st) \<Rightarrow> Some (Inr (AfterClose (txAfterClose sc) tx), st)
           | Some (Inl e, st) \<Rightarrow>
               (let alive = IsAlive (conn_in st c) in
                case Release sc c st of
                  None \<Rightarrow> None
                | Some st \<Rightarrow> if alive then Some (Inl e, st) else pool_BeginIso sc cfg isoLevel st))
      | _ \<Rightarrow> None)"

section \<open>The pool during a transaction\<close>

lemma Exec_prc: "conn_Exec sc sql args c = Some (x, c') \<Longrightarrow> prc_conn c' = prc_conn c"
  using prc_lock [OF lock_of_Exec] by metis

lemma pool_inv_set_conn: "prc_conn d = prc_of st c \<Longrightarrow> pool_inv (set_conn c d st) H = pool_inv st H"
  by (rule same_pool_inv [OF same_pool_set_conn])

lemma conn_begin_inv:
  assumes "conn_begin sc isoLevel c st = Some (r, st')"
  shows "pool_inv st' H = pool_inv st H \<and> (\<forall>tx. r = Inr tx \<longrightarrow> tx_conn tx = c \<and> tx_status tx = 0 \<and> tx_afterClose tx = None)"
  using assms by (auto simp: conn_begin_def pool_inv_set_conn split: option.splits prod.splits dest!: Exec_prc)

definition begun :: "strconv \<Rightarrow> nat list \<Rightarrow> (pgx_error, Tx) result \<times> pool_state \<Rightarrow> bool" where
  "begun sc H = (\<lambda>(r, st').
     case r of
       Inl e \<Rightarrow> pool_inv st' H
     | Inr tx \<Rightarrow> pool_inv st' (tx_conn tx # H) \<and> tx_status tx = 0 \<and> tx_afterClose tx = Some (txAfterClose sc))"

lemma pool_BeginIso_inv:
  assumes "pool_BeginIso sc cfg isoLevel st = Some y"
  shows "pool_inv st H \<longrightarrow> begun sc H y"
  using assms
proof (rule pool_BeginIso.raw_induct [rotated])
  fix loop :: "strconv \<Rightarrow> pool_config \<Rightarrow> string \<Rightarrow> pool_state \<Rightarrow> ((pgx_error, Tx) result \<times> pool_state) option"
    and sc cfg isoLevel st y
  assume IH: "\<And>sc cfg isoLevel st y. loop sc cfg isoLevel st = Some y \<Longrightarrow> pool_inv st H \<longrightarrow> begun sc H y"
    and run: "(case acquire cfg st of
        Some (AcqErr e, st) \<Rightarrow> Some (Inl e, st)
      | Some (Acquired c, st) \<Rightarrow>
          (case conn_begin sc isoLevel c st of
             None \<Rightarrow> None
           | Some (Inr tx, st) \<Rightarrow> Some (Inr (AfterClose (txAfterClose sc) tx), st)
           | Some (Inl e, st) \<Rightarrow>
               (let alive = IsAlive (conn_in st c) in
                case Release sc c st of
                  None \<Rightarrow> None
                | Some st \<Rightarrow> if alive then Some (Inl e, st) else loop sc cfg isoLevel st))
      | _ \<Rightarrow> None) = Some y"
  show "pool_inv st H \<longrightarrow> begun sc H y"
  proof
    assume inv: "pool_inv st H"
    obtain a st1 where a: "acquire cfg st = Some (a, st1)" using run by (auto split: option.splits)
    note ok = acquire_ok [OF inv a]
    show "begun sc H y"
    proof (cases a)
      case (Acquired c)
      obtain r st2 where b: "conn_begin sc isoLevel c st1 = Some (r, st2)" using run a Acquired by (auto split: option.splits)
      have i2: "pool_inv st2 (c # H)" using ok Acquired conn_begin_inv [OF b, of "c # H"] by simp
      show ?thesis
      proof (cases r)
        case (Inr tx)
        with run a Acquired b i2 conn_begin_inv [OF b, of "[]"] show ?thesis by (auto simp: begun_def AfterClose_def)
      next
        case (Inl e)
        with run a Acquired b Release_ok [OF i2] IH show ?thesis by (auto simp: begun_def Let_def split: option.splits if_splits)
      qed
    qed (use run a ok in \<open>auto simp: begun_def\<close>)
  qed
qed

text \<open>Ending a transaction releases its connection.\<close>

lemma tx_closed_inv:
  assumes "tx_closed tx st = Some (e, tx', st')" and "tx_afterClose tx = Some (txAfterClose sc)" and "pool_inv st (tx_conn tx # H)"
  shows "pool_inv st' H \<and> tx' = tx \<and> e = tx_err tx"
  using assms Release_ok [OF assms(3)] by (auto simp: tx_closed_def txAfterClose_def)

lemma Commit_inv:
  assumes "Commit sc tx st = Some (e, tx', st')" and "tx_status tx = 0" and "tx_afterClose tx = Some (txAfterClose sc')" and "pool_inv st (tx_conn tx # H)"
  shows "pool_inv st' H \<and> tx_status tx' \<noteq> 0 \<and> tx_conn tx' = tx_conn tx"
proof -
  obtain tag err d where x: "conn_Exec sc ''commit'' [] (conn_in st (tx_conn tx)) = Some ((tag, err), d)"
    using assms(1,2) by (auto simp: Commit_def split: option.splits)
  have "pool_inv (set_conn (tx_conn tx) d st) (tx_conn tx # H)" using assms(4) Exec_prc [OF x] pool_inv_set_conn by blast
  with assms(1-3) x show ?thesis
    by (auto simp: Commit_def Let_def split: if_splits dest!: tx_closed_inv [where sc = sc' and H = H])
qed

lemma Rollback_inv:
  assumes "Rollback sc tx st = Some (e, tx', st')" and "tx_status tx = 0" and "tx_afterClose tx = Some (txAfterClose sc')" and "pool_inv st (tx_conn tx # H)"
  shows "pool_inv st' H \<and> tx_status tx' \<noteq> 0 \<and> tx_conn tx' = tx_conn tx"
proof -
  obtain tag err d where x: "conn_Exec sc ''rollback'' [] (conn_in st (tx_conn tx)) = Some ((tag, err), d)"
    using assms(1,2) by (auto simp: Rollback_def split: option.splits)
  have "pool_inv (set_conn (tx_conn tx) d st) (tx_conn tx # H)" using assms(4) Exec_prc [OF x] pool_inv_set_conn by blast
  with assms(1-3) x show ?thesis
    by (auto simp: Rollback_def Let_def split: if_splits dest!: tx_closed_inv [where sc = sc' and H = H])
qed

lemma closed_refuses:
  assumes "tx_status tx \<noteq> 0"
  shows "Commit sc tx st = Some (Some ErrTxClosed, tx, st)" "Rollback sc tx st = Some (Some ErrTxClosed, tx, st)"
    "tx_Exec sc sql args tx st = Some (([], Some ErrTxClosed), st)" "tx_Query sc sql args tx st = Some (Inl ErrTxClosed, st)"
  using assms by (simp_all add: Commit_def Rollback_def tx_Exec_def tx_Query_def)

text \<open>Statements executed one after the other, whatever their results.\<close>

fun tx_Execs :: "strconv \<Rightarrow> (string \<times> go_val list) list \<Rightarrow> Tx \<Rightarrow> pool_state \<Rightarrow> pool_state option" where
  "tx_Execs sc [] tx st = Some st"
| "tx_Execs sc ((sql, args) # qs) tx st = Option.bind (tx_Exec sc sql args tx st) (\<lambda>(r, st). tx_Execs sc qs tx st)"

lemma tx_Exec_inv: "tx_Exec sc sql args tx st = Some (r, st') \<Longrightarrow> pool_inv st' H = pool_inv st H"
  by (auto simp: tx_Exec_def pool_inv_set_conn split: if_splits dest!: Exec_prc)

lemma tx_Execs_inv: "tx_Execs sc qs tx st = Some st' \<Longrightarrow> pool_inv st H \<Longrightarrow> pool_inv st' H"
proof (induction qs arbitrary: st)
  case (Cons q qs)
  then show ?case by (cases q) (auto simp: bind_eq_Some_conv tx_Exec_inv)
qed simp

lemma Exec_simple:
  assumes idle: "conn_idle c (srv_bytes ms @ ready_bytes st @ rest)" and sql: "sql \<noteq> []" and ms: "list_all (\<lambda>m. msg_ok m \<and> \<not> fatal_msg m) ms"
  shows "\<exists>c'. conn_Exec sc sql [] c = Some (exec_spec [] None ms, c') \<and> conn_idle c' rest \<and> c_TxStatus c' = st"
proof -
  let ?b = "wb_buf (closeMsg (WriteCString sql (newWriteBuf (byte_of_char CHR ''Q''))))"
  let ?c1 = "c\<lparr>c_busy := True, c_out := c_out c @ ?b\<rparr>"
  have nb: "\<not> c_busy c" "\<not> c_broken c" "c_preparedStatements c sql = None" using idle sql by (simp_all add: conn_idle_def)
  have sent: "sendQuery sc sql [] (c\<lparr>c_busy := True\<rparr>) = Some (None, ?c1)"
    using nb by (simp add: sendQuery_def sendSimpleQuery_def send_buf_def conn_write_def)
  have "conn_at ?c1 [] (srv_bytes ms @ ready_bytes st @ rest)" using idle by (simp add: conn_idle_def conn_at_def)
  with Exec_answer [OF nb(1) sent ms] obtain c' where
    c': "conn_Exec sc sql [] c = Some (exec_spec [] None ms, c')" "conn_at c' [] rest" "\<not> c_busy c'" "c_TxStatus c' = st" by blast
  then have "c' = snd (conn_unlock (snd (Exec_loop [] None ?c1)))"
    using sent nb(1) by (simp add: conn_Exec_def conn_lock_def split: prod.splits)
  then have "stat_of c' = stat_of ?c1" by simp
  with c' idle have "conn_idle c' rest" by (simp add: stat_of_def conn_idle_def)
  with c' show ?thesis by blast
qed

section \<open>Properties\<close>


text \<open>
  The result of \<open>Commit\<close> for the command tag of the server: success for \<open>COMMIT\<close>, \<open>ErrTxCommitRollback\<close> for
  \<open>ROLLBACK\<close>, the first error the server reported; but for any other tag without an error the transaction counts as
  failed while the caller gets no error.
\<close>

theorem Commit_outcome:
  assumes "tx_status tx = 0" "tx_err tx = None" "tx_afterClose tx = None"
    and "conn_idle (conn_in st (tx_conn tx)) (srv_bytes ms @ ready_bytes txst @ rest)" and "list_all (\<lambda>m. msg_ok m \<and> \<not> fatal_msg m) ms"
  shows "\<exists>e tx' st'. Commit sc tx st = Some (e, tx', st') \<and>
    (case exec_spec [] None ms of
       (tag, Some err) \<Rightarrow> e = Some (TxConnErr err) \<and> tx_status tx' = - 1
     | (tag, None) \<Rightarrow>
         if tag = ''COMMIT'' then e = None \<and> tx_status tx' = 1
         else if tag = ''ROLLBACK'' then e = Some ErrTxCommitRollback \<and> tx_status tx' = - 1
         else e = None \<and> tx_status tx' = - 1)"
proof -
  obtain d where "conn_Exec sc ''commit'' [] (conn_in st (tx_conn tx)) = Some (exec_spec [] None ms, d)"
    using Exec_simple [OF assms(4) _ assms(5), of "''commit''" sc] by auto
  with assms(1-3) show ?thesis by (auto simp: Commit_def tx_closed_def Let_def split: prod.splits option.splits)
qed

text \<open>A pool of one connection, and answers of the server to a short transaction.\<close>

definition demo_store :: "bytes \<Rightarrow> pool_state" where
  "demo_store input = \<lparr>st_pool = \<lparr>cp_allConnections = [0], cp_availableConnections = [0], cp_maxConnections = 1, cp_resetCount = 0,
     cp_closed = False, cp_preparedStatements = [], cp_acquireTimeout = 0\<rparr>,
     st_heap = (\<lambda>n. (demo_conn input)\<lparr>c_TxStatus := 73, c_PgTypes := [JsonOid \<mapsto> json_type]\<rparr>), st_next = 1, st_dials = 0\<rparr>"

lemma demo_store_idle: "conn_idle (conn_in (demo_store input) c) input" "pool_inv (demo_store input) []"
  by (simp_all add: demo_store_def conn_idle_def demo_conn_def conn_at_def mr_at_def pool_inv_def pool_ok_def)

theorem Commit_outcome_witness:
  "\<exists>tx' st'. Commit int_strconv \<lparr>tx_conn = 0, tx_afterClose = None, tx_err = None, tx_status = 0\<rparr>
      (demo_store (srv_bytes [SCommandComplete ''SET''] @ ready_bytes 73)) = Some (None, tx', st') \<and> tx_status tx' = - 1"
proof -
  have ms: "list_all (\<lambda>m. msg_ok m \<and> \<not> fatal_msg m) [SCommandComplete ''SET'']" by (simp add: msg_ok.simps)
  have "conn_idle (conn_in (demo_store (srv_bytes [SCommandComplete ''SET''] @ ready_bytes 73)) 0) (srv_bytes [SCommandComplete ''SET''] @ ready_bytes 73 @ [])"
    using demo_store_idle(1) by simp
  then show ?thesis
    using Commit_outcome [of "\<lparr>tx_conn = 0, tx_afterClose = None, tx_err = None, tx_status = 0\<rparr>" _ "[SCommandComplete ''SET'']" 73 "[]" int_strconv] ms by simp
qed


end
