(* ===== verification/Query_Engine.thy ===== *)
theory Query_Engine
  imports Server_Errors Pgx_Session Go_Http
begin

text \<open>
  \<open>arla/querystore\<close>: the engine behind the \<open>Engine\<close> interface (\<open>engine.go\<close>), which is always
  PostgreSQL (\<open>postgres.go\<close>), with the operations that serve requests. They run on the connections of
  \<open>pgx\<close>: mutations on one connection of their own, everything else through the pool. What the
  server answers is the input of those connections. Starting the engine is in \<open>Engine_Startup\<close>.
\<close>

section \<open>State\<close>

datatype logLevel = UNKNOWN | ALL | DEBUG | INFO | LOG | WARN | ERROR

record Config =
  cfg_Path :: string
  cfg_LogLevel :: logLevel
  cfg_MaxConnections :: int

text \<open>
  The pointers that \<open>Start\<close> sets are options. Of the server's process only matters whether the command was
  made (\<open>p_cmd\<close>) and whether it was started (\<open>p_Process\<close>); the log formatter is its level and the
  script it numbers lines of.
\<close>

record postgres =
  p_execConn :: "Conn option"
  p_queryPool :: "(pool_config \<times> pool_state) option"
  p_cfg :: Config
  p_pgcfg :: ConnConfig
  p_cmd :: bool
  p_Process :: bool
  p_Level :: logLevel
  p_src :: "string option"
  p_info :: "Info option"
  p_maxConnections :: int

definition SetLogLevel :: "logLevel \<Rightarrow> postgres \<Rightarrow> postgres" where
  "SetLogLevel lv p = p\<lparr>p_Level := lv\<rparr>"

definition GetLogLevel :: "postgres \<Rightarrow> logLevel" where
  "GetLogLevel p = p_Level p"

definition pg_Info :: "postgres \<Rightarrow> (go_error, Info option) result" where
  "pg_Info p = Inr (p_info p)"

text \<open>
  An error of \<open>pgx\<close> as the server sees it: only the dynamic type \<open>pgx.PgError\<close> and its message matter there.
\<close>

definition go_of_pgx :: "pgx_error \<Rightarrow> go_error" where
  "go_of_pgx e = (case e of PgErr pe \<Rightarrow> PgError (pe_Message pe) | RowProtocol s \<Rightarrow> ErrorString s | PoolErr s \<Rightarrow> ErrorString s | _ \<Rightarrow> ErrorString ''pgx'')"

section \<open>Streaming a JSON value\<close>

datatype scan_result = ScanOk | ScanErr pgx_error | ScanPanic

text \<open>
  The loop of \<open>jsonbytes.Scan\<close>: chunks of at most 8192 bytes go from the value to the writer. It
  need not end when the reader already carries an error, so it is a partial function.
\<close>

partial_function (option) jsonbytes_loop ::
  "'w io_writer \<Rightarrow> 32 word \<Rightarrow> ValueReader \<Rightarrow> 'w \<Rightarrow> (scan_result \<times> 'w \<times> ValueReader) option" where
  [code]: "jsonbytes_loop wr chunk vr w =
     (let n = vr_Len vr in
      if sint n \<le> 0 then
        Some (case vr_err vr of None \<Rightarrow> ScanOk | Some e \<Rightarrow> ScanErr (ScanFailed e), w, vr)
      else
        let chunk = (if sint n < sint chunk then n else chunk) in
        case vr_ReadBytes chunk vr of
          None \<Rightarrow> Some (ScanPanic, w, vr)
        | Some (b, vr) \<Rightarrow>
            (case wr w (string_of_bytes b) of
               ((sent, failed), w) \<Rightarrow>
                 if failed then Some (ScanErr (RowProtocol ''write''), w, vr)
                 else if sent \<noteq> length b then
                   Some (ScanErr (RowProtocol ''number of bytes written does not match''), w, vr)
                 else jsonbytes_loop wr chunk vr w))"

definition jsonbytes_Scan ::
  "'w io_writer \<Rightarrow> ValueReader \<Rightarrow> 'w \<Rightarrow> (scan_result \<times> 'w \<times> ValueReader) option" where
  "jsonbytes_Scan wr vr w =
     (if fd_DataTypeName (vr_fd vr) \<noteq> ''json'' then Some (ScanErr (RowProtocol ''jsonstream.Scan cannot decode''), w, vr)
      else if fd_FormatCode (vr_fd vr) = TextFormatCode then
        Some (ScanErr (RowProtocol ''jsonstream text format not implemented''), w, vr)
      else if fd_FormatCode (vr_fd vr) = BinaryFormatCode then jsonbytes_loop wr 8192 vr w
      else Some (ScanErr (RowProtocol ''jsonstream: unknown format''), w, vr))"

text \<open>The two kinds of destination: \<open>Rows.Scan\<close> calls a \<open>Scanner\<close>, and decodes JSON columns into any other value.\<close>

definition scanner_dest :: "'w io_writer \<Rightarrow> 'w column_reader" where
  "scanner_dest wr vr w =
     (case jsonbytes_Scan wr vr w of
        Some (ScanOk, w, vr) \<Rightarrow> Some ((None, w), vr)
      | Some (ScanErr e, w, vr) \<Rightarrow> Some ((Some e, w), vr)
      | _ \<Rightarrow> None)"

definition json_dest :: "(jtree \<Rightarrow> 'r \<Rightarrow> 'r \<times> dstatus) \<Rightarrow> 'r column_reader" where
  "json_dest d vr r =
     (if fd_DataType (vr_fd vr) = JsonOid \<or> fd_DataType (vr_fd vr) = JsonbOid then
        map_option (\<lambda>((r, e), vr). ((None, r), vr)) (decodeJSON d vr r)
      else Some ((Some (RowProtocol ''Scan cannot decode''), r), vr))"

section \<open>The operations\<close>

text \<open>They dereference the pointers that \<open>Start\<close> sets: \<open>None\<close> is the panic when one is nil.\<close>

definition Mutate :: "strconv \<Rightarrow> Mutation \<Rightarrow> postgres \<Rightarrow> (go_error option \<times> Mutation \<times> postgres) option" where
  "Mutate sc m p =
     (if m_Name m = [] then Some (Some (ErrorString ''invalid mutation name''), m, p)
      else case p_info p of
             None \<Rightarrow> None
           | Some i \<Rightarrow>
               (let m = m\<lparr>m_Version := i_Version i\<rparr> in
                case marshal_tree (mutation_tree sc m) of
                  Inl e \<Rightarrow> Some (Some (JsonErr e), m, p)
                | Inr b \<Rightarrow>
                    (case p_execConn p of
                       None \<Rightarrow> None
                     | Some c \<Rightarrow>
                         (case conn_Exec sc ''select arla_exec($1::json)'' [VString b] c of
                            None \<Rightarrow> None
                          | Some ((_, err), c) \<Rightarrow> Some (map_option go_of_pgx err, m, p\<lparr>p_execConn := Some c\<rparr>)))))"

text \<open>\<open>p.queryPool.QueryRow(sql, arg).Scan(dest)\<close>.\<close>

definition pool_row :: "strconv \<Rightarrow> string \<Rightarrow> go_val list \<Rightarrow> 's column_reader \<Rightarrow> postgres \<Rightarrow> 's \<Rightarrow>
    (go_error option \<times> 's \<times> postgres) option" where
  "pool_row sc sql args dest p x =
     (case p_queryPool p of
        None \<Rightarrow> None
      | Some (cfg, st) \<Rightarrow>
          (case pool_QueryRow_Scan sc cfg sql args dest st x of
             None \<Rightarrow> None
           | Some ((err, x), st) \<Rightarrow> Some (map_option go_of_pgx err, x, p\<lparr>p_queryPool := Some (cfg, st)\<rparr>)))"

text \<open>The query is a pointer: nil is marshalled as \<open>null\<close>.\<close>

definition query_ptr_tree :: "strconv \<Rightarrow> Query option \<Rightarrow> jtree option" where
  "query_ptr_tree sc q = (case q of None \<Rightarrow> Some TNull | Some q \<Rightarrow> query_tree sc q)"

definition pg_Query :: "strconv \<Rightarrow> 'w io_writer \<Rightarrow> Query option \<Rightarrow> postgres \<Rightarrow> 'w \<Rightarrow> (go_error option \<times> 'w \<times> postgres) option" where
  "pg_Query sc wr q p w =
     (case marshal_tree (query_ptr_tree sc q) of
        Inl e \<Rightarrow> Some (Some (JsonErr e), w, p)
      | Inr b \<Rightarrow> pool_row sc ''select arla_query($1::json)'' [VString b] (scanner_dest wr) p w)"

definition Authenticate :: "strconv \<Rightarrow> string \<Rightarrow> postgres \<Rightarrow> ((go_error, Token) result \<times> postgres) option" where
  "Authenticate sc vals p =
     (case pool_row sc ''select arla_authenticate($1::json)'' [VString vals] (json_dest (decode_map sc)) p [] of
        None \<Rightarrow> None
      | Some (Some e, _, p) \<Rightarrow> Some (Inl e, p)
      | Some (None, t, p) \<Rightarrow> Some (Inr t, p))"

definition Register :: "strconv \<Rightarrow> string \<Rightarrow> postgres \<Rightarrow> ((go_error, Mutation) result \<times> postgres) option" where
  "Register sc vals p =
     (case pool_row sc ''select arla_register($1::json)'' [VString vals] (json_dest (decode_mutation sc)) p zero_mutation of
        None \<Rightarrow> None
      | Some (Some e, _, p) \<Rightarrow> Some (Inl e, p)
      | Some (None, m, p) \<Rightarrow> Some (Inr m, p))"

section \<open>Writers\<close>

text \<open>
  What the streaming loop needs of a writer in a good state: it takes everything, and writing
  two pieces is writing both together.
\<close>

locale good_writer =
  fixes wr :: "'w io_writer" and app :: "'w \<Rightarrow> string \<Rightarrow> 'w" and good :: "'w \<Rightarrow> bool"
  assumes wr_good: "good w \<Longrightarrow> wr w s = ((length s, False), app w s)"
    and good_app: "good w \<Longrightarrow> good (app w s)"
    and app_app: "good w \<Longrightarrow> app (app w s) t = app w (s @ t)"
begin

definition appended :: "'w \<Rightarrow> string \<Rightarrow> 'w" where
  "appended w s = (if s = [] then w else app w s)"

lemma appended_append: "good w \<Longrightarrow> s \<noteq> [] \<Longrightarrow> appended (app w s) t = appended w (s @ t)"
  by (simp add: appended_def app_app)

lemma jsonbytes_loop_writes:
  assumes "vr_at vr b [] rest" and "0 < sint chunk" and "good w"
  shows "\<exists>vr'. jsonbytes_loop wr chunk vr w = Some (ScanOk, appended w (string_of_bytes b), vr') \<and> vr_at vr' [] [] rest"
  using assms
proof (induction "length b" arbitrary: b vr chunk w rule: less_induct)
  case less
  have rem: "sint (vr_Len vr) = int (length b)" "vr_err vr = None"
    using less.prems(1) by (simp_all add: vr_at_def vr_Len_def)
  show ?case
  proof (cases "b = []")
    case True
    with less.prems rem show ?thesis
      by (subst jsonbytes_loop.simps) (simp add: appended_def string_of_bytes_def)
  next
    case False
    let ?c = "if sint (vr_Len vr) < sint chunk then vr_Len vr else chunk"
    define k where "k = nat (sint ?c)"
    have k: "0 < k" "k \<le> length b" "sint ?c = int k"
      using less.prems False rem by (auto simp: k_def)
    have "?c = word_of_int (sint ?c)" by simp
    also have "\<dots> = word_of_nat k" by (simp only: k(3) of_int_of_nat_eq)
    finally have c: "?c = word_of_nat (length (take k b))" using k(2) by simp
    have at: "vr_at vr (take k b @ drop k b) [] rest" using less.prems(1) by simp
    obtain vr1 where vr1: "vr_ReadBytes ?c vr = Some (take k b, vr1)" "vr_at vr1 (drop k b) [] rest"
      using vr_ReadBytes_at [OF at c] by blast
    have cpos: "0 < sint ?c" using k by simp
    let ?w = "app w (string_of_bytes (take k b))"
    have "length (drop k b) < length b" using k False by simp
    from less.hyps [OF this vr1(2) cpos good_app [OF less.prems(3)]] obtain vr' where
      rest: "jsonbytes_loop wr ?c vr1 ?w = Some (ScanOk, appended ?w (string_of_bytes (drop k b)), vr')" "vr_at vr' [] [] rest" by blast
    have ne: "string_of_bytes (take k b) \<noteq> []" using k False by (simp add: string_of_bytes_def)
    have "appended ?w (string_of_bytes (drop k b)) = appended w (string_of_bytes b)"
      using appended_append [OF less.prems(3) ne] by (metis append_take_drop_id string_of_bytes_append)
    moreover have "jsonbytes_loop wr chunk vr w = jsonbytes_loop wr ?c vr1 ?w"
      using rem False vr1(1) wr_good [OF less.prems(3)] k(2)
      by (subst jsonbytes_loop.simps) (simp add: Let_def string_of_bytes_def)
    ultimately show ?thesis using rest by simp
  qed
qed

lemma scanner_dest_column:
  assumes "vr_at vr (bytes_of_string s) [] rest" and "vr_fd vr = json_field name" and "good w"
  shows "\<exists>vr'. scanner_dest wr vr w = Some ((None, appended w s), vr') \<and> vr_at vr' [] [] rest"
proof -
  have "jsonbytes_Scan wr vr w = jsonbytes_loop wr 8192 vr w"
    using assms(2) by (simp add: jsonbytes_Scan_def json_field_def TextFormatCode_def BinaryFormatCode_def)
  with jsonbytes_loop_writes [OF assms(1), of 8192 w] assms(3) show ?thesis
    by (auto simp: scanner_dest_def)
qed

end

interpretation buffer: good_writer buf_write "\<lambda>w s. w @ s" "\<lambda>w. True"
  by unfold_locales (simp_all add: buf_write_def)

definition body_append :: "Response \<Rightarrow> string \<Rightarrow> Response" where
  "body_append w s = (let w' = WriteHeader 200 w in w'\<lparr>w_Body := w_Body w' @ s\<rparr>)"

interpretation response: good_writer Write_body body_append "\<lambda>w. \<not> w_Broken w"
  by unfold_locales
    (auto simp: Write_body_def body_append_def Let_def WriteHeader_def split: option.splits)

section \<open>Answers of the database\<close>

text \<open>
  The two answers to a query for one JSON value, from the preparation of the statement on: a row with the value,
  or an error. Other messages may come before and after.
\<close>

definition row_answer :: "string \<Rightarrow> byte \<Rightarrow> srv_msg list \<Rightarrow> string \<Rightarrow> srv_msg list \<Rightarrow> bytes" where
  "row_answer name st0 pre s post = prepared_bytes [JsonOid] name st0 @ srv_bytes pre @ row_bytes (bytes_of_string s) @ srv_bytes post @ ready_bytes 73"

definition row_answer_ok :: "string \<Rightarrow> srv_msg list \<Rightarrow> string \<Rightarrow> srv_msg list \<Rightarrow> bool" where
  "row_answer_ok name pre s post \<longleftrightarrow> CHR 0x00 \<notin> set name \<and> length name < 2 ^ 30 \<and>
     list_all (\<lambda>m. msg_ok m \<and> passed_over m) pre \<and> list_all (\<lambda>m. msg_ok m \<and> \<not> fatal_msg m) post \<and> length s + 10 < 2 ^ 31"

definition refusal :: "string \<Rightarrow> byte \<Rightarrow> srv_msg list \<Rightarrow> (char \<times> string) list \<Rightarrow> srv_msg list \<Rightarrow> bytes" where
  "refusal name st0 pre fs post = prepared_bytes [JsonOid] name st0 @ srv_bytes (pre @ SError fs # post) @ ready_bytes 73"

definition refusal_ok :: "string \<Rightarrow> srv_msg list \<Rightarrow> (char \<times> string) list \<Rightarrow> srv_msg list \<Rightarrow> bool" where
  "refusal_ok name pre fs post \<longleftrightarrow> CHR 0x00 \<notin> set name \<and> length name < 2 ^ 30 \<and>
     list_all (\<lambda>m. msg_ok m \<and> passed_over m) pre \<and> list_all (\<lambda>m. msg_ok m \<and> \<not> fatal_msg m) (SError fs # post)"

text \<open>The pool of an engine is at rest before the bytes \<open>input\<close>; the rest of the engine is that of \<open>p\<close>.\<close>

definition engine_idle :: "postgres \<Rightarrow> nat \<Rightarrow> bytes \<Rightarrow> bool" where
  "engine_idle p c input \<longleftrightarrow> (case p_queryPool p of Some (cfg, st) \<Rightarrow> pool_idle st c input | None \<Rightarrow> False)"

definition same_but_pool :: "postgres \<Rightarrow> postgres \<Rightarrow> bool" where
  "same_but_pool p p' \<longleftrightarrow> (\<exists>x. p' = p\<lparr>p_queryPool := x\<rparr>)"

lemma pool_row_gives:
  assumes "engine_idle p c input" and "\<And>d. conn_idle d input \<Longrightarrow> row_gives sc sql args dest x (err, y) 73 d rest"
  shows "\<exists>p'. pool_row sc sql args dest p x = Some (map_option go_of_pgx err, y, p') \<and> engine_idle p' c rest \<and> same_but_pool p p'"
proof -
  obtain cfg st where q: "p_queryPool p = Some (cfg, st)" "pool_idle st c input"
    using assms(1) by (auto simp: engine_idle_def split: option.splits)
  obtain st' where "pool_QueryRow_Scan sc cfg sql args dest st x = Some ((err, y), st')" "pool_idle st' c rest"
    using pool_QueryRow_gives [OF q(2) assms(2)] by blast
  with q(1) show ?thesis by (auto simp: pool_row_def engine_idle_def same_but_pool_def)
qed

lemma pool_row_value:
  assumes "engine_idle p c (row_answer name st0 pre s post @ rest)" and ok: "row_answer_ok name pre s post" and "sql \<noteq> []"
    and dest: "\<And>vr rest. vr_at vr (bytes_of_string s) [] rest \<Longrightarrow> vr_fd vr = json_field name \<Longrightarrow>
      \<exists>vr'. dest vr x = Some ((None, y), vr') \<and> vr_at vr' [] [] rest"
  shows "\<exists>p'. pool_row sc sql [VString arg] dest p x = Some (map_option go_of_pgx (first_error None post), y, p') \<and>
    engine_idle p' c rest \<and> same_but_pool p p'"
proof (rule pool_row_gives [OF assms(1)])
  fix d assume "conn_idle d (row_answer name st0 pre s post @ rest)"
  then have "conn_idle d (prepared_bytes [JsonOid] name st0 @ srv_bytes pre @ row_bytes (bytes_of_string s) @ srv_bytes post @ ready_bytes 73 @ rest)"
    by (simp add: row_answer_def)
  from QueryRow_json [where dest = dest and x = x and y = y and ss = "[arg]", OF this _ _ _ assms(3) _ _ _ _ dest] ok
  show "row_gives sc sql [VString arg] dest x (first_error None post, y) 73 d rest"
    by (simp add: row_answer_ok_def)
qed

lemma pool_row_refused:
  assumes "engine_idle p c (refusal name st0 pre fs post @ rest)" and ok: "refusal_ok name pre fs post" and "sql \<noteq> []"
  shows "\<exists>p'. pool_row sc sql [VString arg] dest p x = Some (Some (PgError (pe_Message (pg_error fs))), x, p') \<and>
    engine_idle p' c rest \<and> same_but_pool p p'"
proof -
  have "row_gives sc sql [VString arg] dest x (Some (PgErr (pg_error fs)), x) 73 d rest" if "conn_idle d (refusal name st0 pre fs post @ rest)" for d
    using QueryRow_refused [where dest = dest and x = x and st = 73 and rest = rest and oids = "[JsonOid]" and ss = "[arg]", OF _ _ _ _ assms(3)] that ok by (simp add: refusal_def refusal_ok_def)
  from pool_row_gives [where dest = dest and x = x and y = x, OF assms(1) this] show ?thesis by (simp add: go_of_pgx_def)
qed

lemma json_dest_column:
  assumes at: "vr_at vr (bytes_of_string s) [] rest" and "vr_fd vr = json_field name" and "unmarshal_with d s r = (y, None)"
  shows "\<exists>vr'. json_dest d vr r = Some ((None, y), vr') \<and> vr_at vr' [] [] rest"
proof -
  have "vr_Len vr \<noteq> - 1" using vr_at_Len [OF at] word_of_nat_not_minus1 vr_at_size [OF at] by simp
  moreover obtain vr' where "vr_ReadBytes (vr_Len vr) vr = Some (bytes_of_string s, vr')" "vr_at vr' [] [] rest"
    using vr_ReadBytes_at [of vr "bytes_of_string s" "[]" "[]" rest "vr_Len vr"] at vr_at_Len [OF at] by auto
  ultimately show ?thesis using assms(2,3) by (simp add: json_dest_def decodeJSON_def json_field_def Let_def)
qed

lemma Authenticate_value:
  assumes "engine_idle p c (row_answer name st0 pre s post @ rest)" and "row_answer_ok name pre s post"
    and "unmarshal_with (decode_map sc) s [] = (t, None)"
  shows "\<exists>p'. Authenticate sc vals p = Some (case first_error None post of None \<Rightarrow> Inr t | Some e \<Rightarrow> Inl (go_of_pgx e), p') \<and>
    engine_idle p' c rest \<and> same_but_pool p p'"
proof -
  have "\<exists>p'. pool_row sc ''select arla_authenticate($1::json)'' [VString vals] (json_dest (decode_map sc)) p [] =
      Some (map_option go_of_pgx (first_error None post), t, p') \<and> engine_idle p' c rest \<and> same_but_pool p p'"
    by (rule pool_row_value [OF assms(1,2)]) (simp_all add: json_dest_column [OF _ _ assms(3)])
  then show ?thesis by (auto simp: Authenticate_def split: option.splits)
qed

lemma Authenticate_refused:
  assumes "engine_idle p c (refusal name st0 pre fs post @ rest)" and "refusal_ok name pre fs post"
  shows "\<exists>p'. Authenticate sc vals p = Some (Inl (PgError (pe_Message (pg_error fs))), p') \<and> engine_idle p' c rest \<and> same_but_pool p p'"
  using pool_row_refused [OF assms, of "''select arla_authenticate($1::json)''" sc vals "json_dest (decode_map sc)" "[]"]
  by (auto simp: Authenticate_def)

lemma Register_value:
  assumes "engine_idle p c (row_answer name st0 pre s post @ rest)" and "row_answer_ok name pre s post"
    and "unmarshal_with (decode_mutation sc) s zero_mutation = (m, None)"
  shows "\<exists>p'. Register sc vals p = Some (case first_error None post of None \<Rightarrow> Inr m | Some e \<Rightarrow> Inl (go_of_pgx e), p') \<and>
    engine_idle p' c rest \<and> same_but_pool p p'"
proof -
  have "\<exists>p'. pool_row sc ''select arla_register($1::json)'' [VString vals] (json_dest (decode_mutation sc)) p zero_mutation =
      Some (map_option go_of_pgx (first_error None post), m, p') \<and> engine_idle p' c rest \<and> same_but_pool p p'"
    by (rule pool_row_value [OF assms(1,2)]) (simp_all add: json_dest_column [OF _ _ assms(3)])
  then show ?thesis by (auto simp: Register_def split: option.splits)
qed

lemma pg_Query_value:
  assumes "engine_idle p c (row_answer name st0 pre s post @ rest)" and "row_answer_ok name pre s post"
    and b: "marshal_tree (query_ptr_tree sc q) = Inr b" and w: "\<not> w_Broken w"
  shows "\<exists>p'. pg_Query sc Write_body q p w = Some (map_option go_of_pgx (first_error None post), if s = [] then w else body_append w s, p') \<and>
    engine_idle p' c rest \<and> same_but_pool p p'"
proof -
  have "\<exists>p'. pool_row sc ''select arla_query($1::json)'' [VString b] (scanner_dest Write_body) p w =
      Some (map_option go_of_pgx (first_error None post), response.appended w s, p') \<and> engine_idle p' c rest \<and> same_but_pool p p'"
    by (rule pool_row_value [OF assms(1,2)]) (use response.scanner_dest_column w in auto)
  then show ?thesis by (simp add: pg_Query_def b response.appended_def)
qed

lemma pg_Query_refused:
  assumes "engine_idle p c (refusal name st0 pre fs post @ rest)" and "refusal_ok name pre fs post"
    and b: "marshal_tree (query_ptr_tree sc q) = Inr b"
  shows "\<exists>p'. pg_Query sc Write_body q p w = Some (Some (PgError (pe_Message (pg_error fs))), w, p') \<and>
    engine_idle p' c rest \<and> same_but_pool p p'"
  using pool_row_refused [OF assms(1,2), of "''select arla_query($1::json)''" sc b "scanner_dest Write_body" w]
  by (simp add: pg_Query_def b)

text \<open>The connection for mutations is idle before the bytes \<open>input\<close>.\<close>

definition exec_idle :: "postgres \<Rightarrow> bytes \<Rightarrow> bool" where
  "exec_idle p input \<longleftrightarrow> (case p_execConn p of Some c \<Rightarrow> conn_idle c input | None \<Rightarrow> False)"

lemma Mutate_answered:
  assumes idle: "exec_idle p (prepared_bytes [JsonOid] name st0 @ srv_bytes ms @ ready_bytes st @ rest)"
    and name: "CHR 0x00 \<notin> set name" "length name < 2 ^ 30" and ms: "list_all (\<lambda>m. msg_ok m \<and> \<not> fatal_msg m) ms"
    and m: "m_Name m \<noteq> []" "p_info p = Some i" "marshal_tree (mutation_tree sc (m\<lparr>m_Version := i_Version i\<rparr>)) = Inr b"
  shows "\<exists>c'. Mutate sc m p = Some (map_option go_of_pgx (snd (exec_spec [] None ms)), m\<lparr>m_Version := i_Version i\<rparr>, p\<lparr>p_execConn := Some c'\<rparr>) \<and>
    conn_idle c' rest"
proof -
  obtain c where c: "p_execConn p = Some c" "conn_idle c (prepared_bytes [JsonOid] name st0 @ srv_bytes ms @ ready_bytes st @ rest)"
    using idle by (auto simp: exec_idle_def split: option.splits)
  obtain c' where "conn_Exec sc ''select arla_exec($1::json)'' [VString b] c = Some (exec_spec [] None ms, c')" "conn_idle c' rest"
    using Exec_json [OF c(2) name _ _ _ _ ms, of "''select arla_exec($1::json)''" "[b]" sc] by auto
  with c(1) m show ?thesis by (auto simp: Mutate_def Let_def split: prod.splits)
qed

lemma sint_minus_within:
  assumes "0 < sint c" and "sint c \<le> sint n"
  shows "sint (n - c :: 32 word) = sint n - sint c"
proof -
  have "word_of_nat (nat (sint c)) = c" using assms(1) by (simp add: of_nat_nat)
  moreover have "nat (sint c) < 2 ^ 31" using sint_lt [of c] by simp
  ultimately show ?thesis using sint_minus_nat [of n "nat (sint c)"] assms by simp
qed

lemma vr_ReadBytes_shrinks:
  assumes "vr_err vr = None" and "0 < sint c" "sint c \<le> sint (vr_Len vr)" and "vr_ReadBytes c vr = Some (b, vr')"
  shows "vr_err vr' = None \<and> sint (vr_Len vr') = sint (vr_Len vr) - sint c"
  using assms sint_minus_within [OF assms(2,3)]
  by (auto simp: vr_ReadBytes_def vr_take_def vr_Len_def Let_def split: if_splits prod.splits)

text \<open>A reader in error reads nothing, so a writer that takes nothing without complaint keeps the loop going.\<close>

lemma jsonbytes_loop_stuck:
  assumes "jsonbytes_loop wr chunk vr w = Some r" and "\<forall>w. wr w [] = ((0, False), w)"
  shows "vr_err vr = None \<or> sint (vr_Len vr) \<le> 0"
proof -
  have "(\<forall>w. wr w [] = ((0, False), w)) \<longrightarrow> vr_err vr = None \<or> sint (vr_Len vr) \<le> 0"
    using assms(1) by (rule jsonbytes_loop.raw_induct [rotated])
      (force simp: Let_def vr_ReadBytes_def string_of_bytes_def split: if_splits)
  with assms(2) show ?thesis by blast
qed

lemma jsonbytes_loop_returns:
  assumes "vr_err vr = None" and "0 < sint chunk"
  shows "\<exists>r. jsonbytes_loop wr chunk vr w = Some r"
  using assms
proof (induction "nat (sint (vr_Len vr))" arbitrary: vr chunk w rule: less_induct)
  case less
  let ?c = "if sint (vr_Len vr) < sint chunk then vr_Len vr else chunk"
  show ?case
  proof (cases "sint (vr_Len vr) \<le> 0 \<or> vr_ReadBytes ?c vr = None")
    case True
    then show ?thesis by (subst jsonbytes_loop.simps) (auto simp: Let_def)
  next
    case False
    then obtain b vr' where r: "vr_ReadBytes ?c vr = Some (b, vr')" and pos: "0 < sint (vr_Len vr)" by auto
    have c: "0 < sint ?c" "sint ?c \<le> sint (vr_Len vr)" using pos less.prems(2) by auto
    have vr': "vr_err vr' = None" "nat (sint (vr_Len vr')) < nat (sint (vr_Len vr))"
      using vr_ReadBytes_shrinks [OF less.prems(1) c r] c pos by auto
    obtain sent failed w' where wr: "wr w (string_of_bytes b) = ((sent, failed), w')" by (metis surj_pair)
    have "\<exists>x. jsonbytes_loop wr ?c vr' w' = Some x" by (rule less.hyps [OF vr'(2,1) c(1)])
    with r pos wr show ?thesis by (subst jsonbytes_loop.simps) (auto simp: Let_def)
  qed
qed

section \<open>Properties\<close>

text \<open>An engine with one connection for mutations and a pool of one connection, for concrete answers of the database.\<close>

definition json_conn :: "bytes \<Rightarrow> Conn" where
  "json_conn input = (demo_conn input)\<lparr>c_PgTypes := [JsonOid \<mapsto> json_type], c_TxStatus := 73\<rparr>"

definition demo_pool :: "bytes \<Rightarrow> pool_config \<times> pool_state" where
  "demo_pool input = (let cfg = demo_pool_config\<lparr>pc_dial := (\<lambda>n. Inr (json_conn input))\<rparr> in (cfg, snd (the (NewConnPool cfg no_pool))))"

definition demo_engine :: "bytes \<Rightarrow> bytes \<Rightarrow> postgres" where
  "demo_engine einput qinput = \<lparr>p_execConn = Some (json_conn einput), p_queryPool = Some (demo_pool qinput),
     p_cfg = \<lparr>cfg_Path = ''config.js'', cfg_LogLevel = DEBUG, cfg_MaxConnections = 1\<rparr>,
     p_pgcfg = \<lparr>cc_Host = [], cc_Port = 0, cc_Database = [], cc_User = [], cc_Password = [], cc_RuntimeParams = []\<rparr>,
     p_cmd = True, p_Process = True, p_Level = DEBUG, p_src = None, p_info = Some (zero_info\<lparr>i_Version := 7\<rparr>), p_maxConnections = 1\<rparr>"

lemma json_conn_idle: "conn_idle (json_conn input) input"
  by (simp add: json_conn_def demo_conn_def conn_idle_def conn_at_def mr_at_def)

lemma demo_pool_idle: "pool_idle (snd (demo_pool input)) 0 input"
proof -
  let ?cfg = "demo_pool_config\<lparr>pc_dial := (\<lambda>n. Inr (json_conn input))\<rparr>"
  have new: "NewConnPool ?cfg no_pool = Some (None, snd (demo_pool input))"
    by (simp add: demo_pool_def NewConnPool_def createConnection_def demo_pool_config_def no_pool_def Let_def)
  have "cp_availableConnections (st_pool (snd (demo_pool input))) = [0]" "\<not> cp_closed (st_pool (snd (demo_pool input)))"
    "conn_in (snd (demo_pool input)) 0 = json_conn input"
    by (simp_all add: demo_pool_def NewConnPool_def createConnection_def demo_pool_config_def no_pool_def Let_def)
  with NewConnPool_inv [OF new] json_conn_idle show ?thesis by (simp add: pool_idle_def)
qed

lemma demo_engine_idle: "engine_idle (demo_engine e q) 0 q" "exec_idle (demo_engine e q) e" "p_info (demo_engine e q) = Some (zero_info\<lparr>i_Version := 7\<rparr>)"
  using demo_pool_idle [of q] json_conn_idle [of e] by (simp_all add: demo_engine_def engine_idle_def exec_idle_def case_prod_beta)

text \<open>
  C29: a query whose JSON value the database returns is streamed to the client byte for byte, in however many chunks,
  with the error the database reported afterwards, if any; a query the database refuses writes nothing and returns
  the error of the database. Either way the whole answer is read and the connection is back in the pool, idle.
\<close>

theorem Query_outcome:
  assumes "marshal_tree (query_ptr_tree sc q) = Inr b" and "\<not> w_Broken w"
  shows "(row_answer_ok name pre s post \<and> engine_idle p c (row_answer name st0 pre s post @ rest) \<longrightarrow>
      (\<exists>p'. pg_Query sc Write_body q p w = Some (map_option go_of_pgx (first_error None post), if s = [] then w else body_append w s, p') \<and>
         engine_idle p' c rest)) \<and>
    (refusal_ok name pre fs post \<and> engine_idle p c (refusal name st0 pre fs post @ rest) \<longrightarrow>
      (\<exists>p'. pg_Query sc Write_body q p w = Some (Some (PgError (pe_Message (pg_error fs))), w, p') \<and> engine_idle p' c rest))"
  using pg_Query_value [OF _ _ assms] pg_Query_refused [OF _ _ assms(1)] by blast

theorem Query_outcome_witness:
  "\<exists>p'. pg_Query int_strconv Write_body None (demo_engine [] (row_answer ''arla_query'' 73 [SBindComplete] ''{}'' [SCommandComplete ''SELECT 1''])) new_response =
     Some (None, body_append new_response ''{}'', p') \<and> engine_idle p' 0 []"
proof -
  let ?a = "row_answer ''arla_query'' 73 [SBindComplete] ''{}'' [SCommandComplete ''SELECT 1'']"
  have m: "marshal_tree (query_ptr_tree int_strconv None) = Inr ''null''"
    by (simp add: query_ptr_tree_def marshal_tree_def)
  have ok: "row_answer_ok ''arla_query'' [SBindComplete] ''{}'' [SCommandComplete ''SELECT 1'']"
    by (simp add: row_answer_ok_def msg_ok.simps)
  have idle: "engine_idle (demo_engine [] ?a) 0 (?a @ [])" using demo_engine_idle(1) by simp
  have "\<not> w_Broken new_response" by (simp add: new_response_def)
  from Query_outcome [OF m this, of "''arla_query''" "[SBindComplete]" "''{}''" "[SCommandComplete ''SELECT 1'']" "demo_engine [] ?a" 0 73 "[]"] ok idle
  show ?thesis by simp
qed

text \<open>
  A mutation is handed to the database under the version of the loaded application, whatever version it came with,
  and succeeds exactly when the database reports no error; otherwise the first error of the database is returned. The
  connection is idle again, ready for the next mutation. A mutation without a name never reaches the database.
\<close>

theorem Mutate_outcome:
  assumes "p_info p = Some i" and "marshal_tree (mutation_tree sc (m\<lparr>m_Version := i_Version i\<rparr>)) = Inr b"
    and "exec_idle p (prepared_bytes [JsonOid] name st0 @ srv_bytes ms @ ready_bytes st @ rest)"
    and "CHR 0x00 \<notin> set name" "length name < 2 ^ 30" and "list_all (\<lambda>m. msg_ok m \<and> \<not> fatal_msg m) ms"
  shows "if m_Name m = [] then Mutate sc m p = Some (Some (ErrorString ''invalid mutation name''), m, p)
    else \<exists>p'. Mutate sc m p = Some (map_option go_of_pgx (first_error None ms), m\<lparr>m_Version := i_Version i\<rparr>, p') \<and> exec_idle p' rest"
proof (cases "m_Name m = []")
  case True
  then show ?thesis by (simp add: Mutate_def)
next
  case False
  have "snd (exec_spec tag err ms) = first_error err ms" for tag err
    by (induction tag err ms rule: exec_spec.induct) auto
  with Mutate_answered [OF assms(3-6) False assms(1,2)] False show ?thesis by (auto simp: exec_idle_def)
qed

theorem Mutate_outcome_witness:
  "\<exists>p'. Mutate int_strconv sample_mutation
      (demo_engine (prepared_bytes [JsonOid] ''arla_exec'' 73 @ srv_bytes [SBindComplete, SError [(CHR ''M'', ''no'')]] @ ready_bytes 73) []) =
    Some (Some (PgError ''no''), sample_mutation\<lparr>m_Version := 7\<rparr>, p') \<and> exec_idle p' []"
proof -
  let ?p = "demo_engine (prepared_bytes [JsonOid] ''arla_exec'' 73 @ srv_bytes [SBindComplete, SError [(CHR ''M'', ''no'')]] @ ready_bytes 73) []"
  obtain b where b: "marshal_tree (mutation_tree int_strconv (sample_mutation\<lparr>m_Version := 7\<rparr>)) = Inr b"
    by (simp add: marshal_tree_def mutation_tree_def sample_mutation_def int_strconv_def)
  have "list_all (\<lambda>m. msg_ok m \<and> \<not> fatal_msg m) [SBindComplete, SError [(CHR ''M'', ''no'')]]" "m_Name sample_mutation \<noteq> []"
    "first_error None [SBindComplete, SError [(CHR ''M'', ''no'')]] = Some (PgErr (zero_PgError\<lparr>pe_Message := ''no''\<rparr>))"
    by (simp_all add: msg_ok.simps error_bytes_def pg_error_def zero_PgError_def sample_mutation_def error_field_def)
  with Mutate_outcome [OF demo_engine_idle(3), of int_strconv sample_mutation b "prepared_bytes [JsonOid] ''arla_exec'' 73 @ srv_bytes [SBindComplete, SError [(CHR ''M'', ''no'')]] @ ready_bytes 73" "[]" "''arla_exec''" 73 "[SBindComplete, SError [(CHR ''M'', ''no'')]]" 73 "[]"]
    b demo_engine_idle(2)
  show ?thesis by (simp add: go_of_pgx_def)
qed

text \<open>
  C32: streaming a value to a client comes to an end whatever the client does: with any writer, even one that fails or
  takes only part of a chunk, and any value whose reader is not in error before the first chunk. A reader that is, with
  bytes of the value left, keeps the loop going for ever on a writer that takes nothing without complaint.
\<close>

theorem jsonbytes_Scan_terminates:
  "(vr_err vr = None \<longrightarrow> (\<exists>r. jsonbytes_Scan wr vr w = Some r)) \<and>
   (vr_err vr \<noteq> None \<and> 0 < sint (vr_Len vr) \<and> fd_DataTypeName (vr_fd vr) = ''json'' \<and> fd_FormatCode (vr_fd vr) = BinaryFormatCode \<longrightarrow>
      jsonbytes_Scan buf_write vr out = None)"
proof (intro conjI impI)
  assume "vr_err vr = None"
  then show "\<exists>r. jsonbytes_Scan wr vr w = Some r"
    using jsonbytes_loop_returns [of vr 8192 wr w] by (auto simp: jsonbytes_Scan_def)
next
  assume a: "vr_err vr \<noteq> None \<and> 0 < sint (vr_Len vr) \<and> fd_DataTypeName (vr_fd vr) = ''json'' \<and> fd_FormatCode (vr_fd vr) = BinaryFormatCode"
  then have "jsonbytes_loop buf_write 8192 vr out = None"
    using jsonbytes_loop_stuck [of buf_write 8192 vr out] by (cases "jsonbytes_loop buf_write 8192 vr out") (auto simp: buf_write_def)
  with a show "jsonbytes_Scan buf_write vr out = None"
    by (simp add: jsonbytes_Scan_def TextFormatCode_def BinaryFormatCode_def)
qed

theorem jsonbytes_Scan_terminates_witness:
  "let vr = \<lparr>vr_mr = \<lparr>mr_input = bytes_of_string ''{}'', mr_buf = [], mr_remaining = 2, mr_err = None\<rparr>, vr_fd = json_field ''x'', vr_remaining = 2, vr_err = None\<rparr>
   in (\<exists>r. jsonbytes_Scan buf_write vr [] = Some r) \<and> jsonbytes_Scan buf_write (vr\<lparr>vr_err := Some PastEndOfValue\<rparr>) [] = None"
proof -
  let ?vr = "\<lparr>vr_mr = \<lparr>mr_input = bytes_of_string ''{}'', mr_buf = [], mr_remaining = 2, mr_err = None\<rparr>, vr_fd = json_field ''x'', vr_remaining = 2, vr_err = None\<rparr>"
  show ?thesis
    using jsonbytes_Scan_terminates [of ?vr buf_write "[]"] jsonbytes_Scan_terminates [of "?vr\<lparr>vr_err := Some PastEndOfValue\<rparr>" buf_write "[]" "[]"]
    by (simp add: vr_Len_def json_field_def)
qed

end
