(* ===== verification/Engine_Startup.thy ===== *)
theory Engine_Startup
  imports Query_Engine
begin

text \<open>
  Starting and stopping the engine: \<open>postgres.go\<close> from \<open>cpConfig\<close> on, \<open>writer.go\<close>,
  \<open>userid.go\<close>, \<open>engine.New\<close> and the settings \<open>pgx.ParseEnvLibpq\<close> reads. What the
  operating system answers is a parameter (\<open>os_api\<close>): it may depend on a state that every command and
  every written file changes. The generated constant \<open>postgresInitScript\<close> is an argument.
\<close>

section \<open>The operating system\<close>

record Cmd =
  cm_Path :: string
  cm_Args :: "string list"
  cm_Credential :: "(32 word \<times> 32 word) option"
  cm_Env :: "string list option"
  cm_Stdin :: "string option"

text \<open>
  \<open>os_Run\<close> starts a command and waits for it: the error of either and what it wrote to its standard output.
  \<open>os_Start\<close> only starts a command; \<open>os_Wait\<close> waits for one that was started, with all the input it was sent,
  and \<open>os_PipeBroken\<close> says whether it refuses more input after that. \<open>os_Exited\<close> is the error the process of the
  database server ended with, once it has, and \<open>os_Kill\<close> signals it. \<open>os_Connect\<close> is what the n-th attempt to connect returns.
\<close>

record 'os os_api =
  os_LookPath :: "string \<Rightarrow> 'os \<Rightarrow> (go_error, string) result"
  os_Run :: "Cmd \<Rightarrow> 'os \<Rightarrow> (go_error option \<times> string) \<times> 'os"
  os_Start :: "Cmd \<Rightarrow> 'os \<Rightarrow> go_error option \<times> 'os"
  os_Wait :: "Cmd \<Rightarrow> 'os \<Rightarrow> go_error option \<times> 'os"
  os_Exited :: "'os \<Rightarrow> go_error option option"
  os_Kill :: "'os \<Rightarrow> 'os"
  os_Getenv :: "string \<Rightarrow> 'os \<Rightarrow> string"
  os_Environ :: "'os \<Rightarrow> string list"
  os_ReadFile :: "string \<Rightarrow> 'os \<Rightarrow> (go_error, string) result"
  os_WriteFile :: "string \<Rightarrow> string \<Rightarrow> 'os \<Rightarrow> go_error option \<times> 'os"
  os_PipeBroken :: "Cmd \<Rightarrow> string \<Rightarrow> 'os \<Rightarrow> bool"
  os_Connect :: "ConnConfig \<Rightarrow> 'os \<Rightarrow> nat \<Rightarrow> (pgx_error, Conn) result"

text \<open>\<open>filepath.Join\<close> and \<open>filepath.Clean\<close> on Unix.\<close>

fun clean_step :: "bool \<Rightarrow> string list \<Rightarrow> string list \<Rightarrow> string list" where
  "clean_step rooted out [] = rev out"
| "clean_step rooted out (x # xs) =
     (if x = [] \<or> x = ''.'' then clean_step rooted out xs
      else if x = ''..'' then
        (if out \<noteq> [] \<and> hd out \<noteq> ''..'' then clean_step rooted (tl out) xs
         else if rooted then clean_step rooted out xs
         else clean_step rooted (x # out) xs)
      else clean_step rooted (x # out) xs)"

definition Clean :: "string \<Rightarrow> string" where
  "Clean path =
     (let rooted = HasPrefix path ''/'';
          s = (if rooted then ''/'' else []) @ Join (clean_step rooted [] (Split CHR ''/'' path)) ''/''
      in if s = [] then ''.'' else s)"

definition filepath_Join :: "string list \<Rightarrow> string" where
  "filepath_Join elems = (let es = dropWhile (\<lambda>e. e = []) elems in if es = [] then [] else Clean (Join es ''/''))"

section \<open>Commands\<close>

definition getSysUserId :: "'os os_api \<Rightarrow> string \<Rightarrow> string \<Rightarrow> 'os \<Rightarrow> (go_error, 32 word) result \<times> 'os" where
  "getSysUserId api flag username s =
     (case os_LookPath api ''id'' s of
        Inl e \<Rightarrow> (Inl e, s)
      | Inr exe \<Rightarrow>
          (case os_Run api \<lparr>cm_Path = exe, cm_Args = [flag, username], cm_Credential = None, cm_Env = None, cm_Stdin = None\<rparr> s of
             ((Some e, _), s) \<Rightarrow> (Inl e, s)
           | ((None, res), s) \<Rightarrow>
               (case ParseUint10 32 (TrimSpace res) of
                  None \<Rightarrow> (Inl (ErrorString ''strconv.ParseUint''), s)
                | Some n \<Rightarrow> (Inr (word_of_nat n), s))))"

definition getUid :: "'os os_api \<Rightarrow> string \<Rightarrow> 'os \<Rightarrow> (go_error, 32 word) result \<times> 'os" where
  "getUid api username = getSysUserId api ''-u'' username"

definition getGid :: "'os os_api \<Rightarrow> string \<Rightarrow> 'os \<Rightarrow> (go_error, 32 word) result \<times> 'os" where
  "getGid api username = getSysUserId api ''-u'' username"

definition command :: "'os os_api \<Rightarrow> string \<Rightarrow> string list \<Rightarrow> 'os \<Rightarrow> (go_error, Cmd) result \<times> 'os" where
  "command api name args s =
     (case getUid api ''postgres'' s of
        (Inl e, s) \<Rightarrow> (Inl e, s)
      | (Inr uid, s) \<Rightarrow>
          (case getGid api ''postgres'' s of
             (Inl e, s) \<Rightarrow> (Inl e, s)
           | (Inr gid, s) \<Rightarrow>
               (case os_LookPath api name s of
                  Inl e \<Rightarrow> (Inl e, s)
                | Inr exe \<Rightarrow>
                    (Inr \<lparr>cm_Path = exe, cm_Args = args, cm_Credential = Some (uid, gid),
                       cm_Env = Some (os_Environ api s @ [''PGUSER=postgres'', ''PGDATABASE=arla'', ''PGHOST=/var/run/postgresql'']),
                       cm_Stdin = None\<rparr>, s))))"

definition run :: "'os os_api \<Rightarrow> string \<Rightarrow> string list \<Rightarrow> 'os \<Rightarrow> go_error option \<times> 'os" where
  "run api exe args s =
     (case command api exe args s of
        (Inl e, s) \<Rightarrow> (Some e, s)
      | (Inr cmd, s) \<Rightarrow> (case os_Run api cmd s of ((err, _), s) \<Rightarrow> (err, s)))"

section \<open>The data directory\<close>

definition cpConfig :: "'os os_api \<Rightarrow> string \<Rightarrow> 'os \<Rightarrow> go_error option \<times> 'os" where
  "cpConfig api name s =
     (let dataDir = os_Getenv api ''PGDATA'' s;
          src = filepath_Join [dataDir, ''..'', name] in
      case run api ''cp'' [''-f'', src, dataDir] s of
        (Some _, s) \<Rightarrow> (Some (ErrorString (''failed to install '' @ name)), s)
      | (None, s) \<Rightarrow> (None, s))"

definition initMarker :: "'os os_api \<Rightarrow> 'os \<Rightarrow> string" where
  "initMarker api s = filepath_Join [os_Getenv api ''PGDATA'' s, ''.init'']"

definition alreadyInitialized :: "'os os_api \<Rightarrow> 'os \<Rightarrow> bool" where
  "alreadyInitialized api s = (case os_ReadFile api (initMarker api s) s of Inl _ \<Rightarrow> False | Inr b \<Rightarrow> b = ''true'')"

definition markAsInitialized :: "'os os_api \<Rightarrow> 'os \<Rightarrow> go_error option \<times> 'os" where
  "markAsInitialized api s = os_WriteFile api (initMarker api s) ''true'' s"

definition initdb :: "'os os_api \<Rightarrow> 'os \<Rightarrow> go_error option \<times> 'os" where
  "initdb api s =
     (if alreadyInitialized api s then (None, s)
      else
        (case run api ''initdb'' [''--nosync'', ''--noclean''] s of
           (Some e, s) \<Rightarrow> (Some e, s)
         | (None, s) \<Rightarrow>
             (case cpConfig api ''postgresql.conf'' s of
                (Some e, s) \<Rightarrow> (Some e, s)
              | (None, s) \<Rightarrow>
                  (case cpConfig api ''pg_hba.conf'' s of
                     (Some e, s) \<Rightarrow> (Some e, s)
                   | (None, s) \<Rightarrow> markAsInitialized api s))))"

section \<open>The server process\<close>

definition pg_Stop :: "'os os_api \<Rightarrow> postgres \<Rightarrow> 'os \<Rightarrow> go_error option \<times> 'os" where
  "pg_Stop api p s = (None, if p_cmd p \<and> p_Process p then os_Kill api s else s)"

text \<open>
  The wait for the server: a poll every half second, each after a look at the process, until the ten seconds of
  \<open>spawn\<close> are over; twenty polls fit in. The goroutine of \<open>pollForReady\<close> and the \<open>select\<close> of
  \<open>spawn\<close> are taken together here.
\<close>

datatype readiness = Ready | TimedOut | ProcessExited "go_error option"

fun pollForReady :: "'os os_api \<Rightarrow> nat \<Rightarrow> 'os \<Rightarrow> readiness \<times> 'os" where
  "pollForReady api 0 s = (TimedOut, s)"
| "pollForReady api (Suc n) s =
     (case os_Exited api s of
        Some err \<Rightarrow> (ProcessExited err, s)
      | None \<Rightarrow>
          (case run api ''pg_isready'' [''-d'', ''postgres''] s of
             (None, s) \<Rightarrow> (Ready, s)
           | (Some _, s) \<Rightarrow> pollForReady api n s))"

definition init_marker :: string where
  "init_marker = ''//CONFIG//''"

definition pg_init :: "'os os_api \<Rightarrow> string \<Rightarrow> postgres \<Rightarrow> 'os \<Rightarrow> go_error option \<times> postgres \<times> 'os" where
  "pg_init api postgresInitScript p s =
     (case (case run api ''createdb'' [] s of
              (None, s) \<Rightarrow> (None, s)
            | (Some _, s) \<Rightarrow> run api ''createdb'' [] (snd (run api ''dropdb'' [''arla''] s))) of
        (Some e, s) \<Rightarrow> (Some e, p, s)
      | (None, s) \<Rightarrow>
          (case command api ''browserify'' [cfg_Path (p_cfg p), ''-t'', ''['', ''/usr/lib/node_modules/babelify'',
               ''--modules'', ''common'', ''--stage'', ''0'', '']''] s of
             (Inl e, s) \<Rightarrow> (Some e, p, s)
           | (Inr cmd, s) \<Rightarrow>
               (case os_Run api cmd s of
                  ((Some e, _), s) \<Rightarrow> (Some (ErrorString ''failed to compile app source''), p, s)
                | ((None, js), s) \<Rightarrow>
                    (let sql = Replace1 postgresInitScript init_marker js; p = p\<lparr>p_src := Some sql\<rparr> in
                     case command api ''psql'' [''-v'', ''ON_ERROR_STOP=1''] s of
                       (Inl e, s) \<Rightarrow> (Some e, p, s)
                     | (Inr cmd, s) \<Rightarrow>
                         (case os_Run api (cmd\<lparr>cm_Stdin := Some sql\<rparr>) s of
                            ((Some e, _), s) \<Rightarrow> (Some (ErrorString ''failed to initialize arla''), p, s)
                          | ((None, _), s) \<Rightarrow> (None, p, s))))))"

definition spawn :: "'os os_api \<Rightarrow> string \<Rightarrow> postgres \<Rightarrow> 'os \<Rightarrow> go_error option \<times> postgres \<times> 'os" where
  "spawn api postgresInitScript p s =
     (case command api ''postgres'' [''-k'', ''/var/run/postgresql'', ''-c'', ''max_connections='' @ format_int (p_maxConnections p + 1)] s of
        (Inl e, s) \<Rightarrow> (Some e, p\<lparr>p_cmd := False\<rparr>, s)
      | (Inr cmd, s) \<Rightarrow>
          (case os_Start api cmd s of
             (Some e, s) \<Rightarrow> (Some e, p\<lparr>p_cmd := True, p_Process := False\<rparr>, s)
           | (None, s) \<Rightarrow>
               (let p = p\<lparr>p_cmd := True, p_Process := True\<rparr> in
                case pollForReady api 20 s of
                  (Ready, s) \<Rightarrow> pg_init api postgresInitScript p s
                | (TimedOut, s) \<Rightarrow>
                    (Some (ErrorString ''timeout waiting for postgres to start accepting connections''), p, snd (pg_Stop api p s))
                | (ProcessExited (Some e), s) \<Rightarrow> (Some (ErrorString ''failed to start postgres''), p, s)
                | (ProcessExited None, s) \<Rightarrow> (Some (ErrorString ''postgres progress exited during startup''), p, s))))"

section \<open>Connecting\<close>

text \<open>The TLS settings are kept beside the configuration of the connection, whose model has none.\<close>

datatype tls_config = InsecureSkipVerify | ServerName string

record tls_settings =
  ts_TLSConfig :: "tls_config option"
  ts_UseFallbackTLS :: bool
  ts_FallbackTLSConfig :: "tls_config option"

definition configSSL :: "string \<Rightarrow> string \<Rightarrow> (go_error, tls_settings) result" where
  "configSSL sslmode host =
     (let sslmode = (if sslmode = [] then ''prefer'' else sslmode);
          none = \<lparr>ts_TLSConfig = None, ts_UseFallbackTLS = False, ts_FallbackTLSConfig = None\<rparr> in
      if sslmode = ''disable'' then Inr none
      else if sslmode = ''allow'' then Inr (none\<lparr>ts_UseFallbackTLS := True, ts_FallbackTLSConfig := Some InsecureSkipVerify\<rparr>)
      else if sslmode = ''prefer'' then Inr (none\<lparr>ts_TLSConfig := Some InsecureSkipVerify, ts_UseFallbackTLS := True\<rparr>)
      else if sslmode \<in> {''require'', ''verify-ca'', ''verify-full''} then Inr (none\<lparr>ts_TLSConfig := Some (ServerName host)\<rparr>)
      else Inl (ErrorString ''sslmode is invalid''))"

definition ParseEnvLibpq :: "'os os_api \<Rightarrow> 'os \<Rightarrow> (go_error, ConnConfig \<times> tls_settings) result" where
  "ParseEnvLibpq api s =
     (let env = (\<lambda>k. os_Getenv api k s);
          cc = \<lparr>cc_Host = env ''PGHOST'', cc_Port = 0, cc_Database = [], cc_User = [], cc_Password = [], cc_RuntimeParams = []\<rparr> in
      case (if env ''PGPORT'' = [] then Some 0 else ParseUint10 16 (env ''PGPORT'')) of
        None \<Rightarrow> Inl (ErrorString ''strconv.ParseUint'')
      | Some port \<Rightarrow>
          (let cc = cc\<lparr>cc_Port := word_of_nat port, cc_Database := env ''PGDATABASE'', cc_User := env ''PGUSER'', cc_Password := env ''PGPASSWORD''\<rparr> in
           case configSSL (env ''PGSSLMODE'') (cc_Host cc) of
             Inl e \<Rightarrow> Inl e
           | Inr tls \<Rightarrow>
               Inr (if env ''PGAPPNAME'' = [] then cc else cc\<lparr>cc_RuntimeParams := [(''application_name'', env ''PGAPPNAME'')]\<rparr>, tls)))"

definition zero_ConnConfig :: ConnConfig where
  "zero_ConnConfig = \<lparr>cc_Host = [], cc_Port = 0, cc_Database = [], cc_User = [], cc_Password = [], cc_RuntimeParams = []\<rparr>"

text \<open>\<open>Scan(&p.info)\<close>: the destination is the pointer, so the JSON text \<open>null\<close> makes it nil.\<close>

definition decode_info_ptr :: "jtree \<Rightarrow> Info option \<Rightarrow> Info option \<times> dstatus" where
  "decode_info_ptr t i =
     (if t = TNull then (None, DOk) else case decode_info t (case i of Some i \<Rightarrow> i | None \<Rightarrow> zero_info) of (i, st) \<Rightarrow> (Some i, st))"

text \<open>A pool before \<open>NewConnPool\<close>; the first attempt to connect was the one of \<open>execConn\<close>.\<close>

definition fresh_pool :: pool_state where
  "fresh_pool = \<lparr>st_pool = \<lparr>cp_allConnections = [], cp_availableConnections = [], cp_maxConnections = 0, cp_resetCount = 0,
     cp_closed = False, cp_preparedStatements = [], cp_acquireTimeout = 0\<rparr>, st_heap = (\<lambda>_. demo_conn []), st_next = 0, st_dials = 1\<rparr>"

definition pg_Start :: "strconv \<Rightarrow> 'os os_api \<Rightarrow> string \<Rightarrow> postgres \<Rightarrow> 'os \<Rightarrow> (go_error option \<times> postgres \<times> 'os) option" where
  "pg_Start sc api postgresInitScript p s =
     (case ParseEnvLibpq api s of
        Inl e \<Rightarrow> Some (Some e, p, s)
      | Inr (cc, _) \<Rightarrow>
          (let p = p\<lparr>p_pgcfg := cc\<lparr>cc_User := ''postgres'', cc_Database := ''arla'', cc_Host := ''/var/run/postgresql/''\<rparr>\<rparr> in
           case initdb api s of
             (Some e, s) \<Rightarrow> Some (Some e, p, s)
           | (None, s) \<Rightarrow>
               (case spawn api postgresInitScript p s of
                  (Some e, p, s) \<Rightarrow> Some (Some e, p, s)
                | (None, p, s) \<Rightarrow>
                    (case os_Connect api (p_pgcfg p) s 0 of
                       Inl e \<Rightarrow> Some (Some (go_of_pgx e), p, s)
                     | Inr c \<Rightarrow>
                         (let p = p\<lparr>p_execConn := Some c\<rparr>;
                              cfg = \<lparr>pc_dial = os_Connect api (p_pgcfg p) s, pc_MaxConnections = p_maxConnections p,
                                     pc_AfterConnect = None, pc_AcquireTimeout = 0\<rparr> in
                          case NewConnPool cfg fresh_pool of
                            None \<Rightarrow> None
                          | Some (Some e, st) \<Rightarrow> Some (Some (go_of_pgx e), p, s)
                          | Some (None, st) \<Rightarrow>
                              (case pool_row sc ''select arla_info()'' [] (json_dest decode_info_ptr) (p\<lparr>p_queryPool := Some (cfg, st)\<rparr>) (p_info p) of
                                 None \<Rightarrow> None
                               | Some (Some e, i, p) \<Rightarrow> Some (Some e, p\<lparr>p_info := i\<rparr>, s)
                               | Some (None, i, p) \<Rightarrow> Some (None, p\<lparr>p_info := i\<rparr>, s)))))))"

text \<open>\<open>engine.New\<close>: the engine is returned even when it could not be started.\<close>

definition engine_New :: "strconv \<Rightarrow> 'os os_api \<Rightarrow> string \<Rightarrow> Config \<Rightarrow> 'os \<Rightarrow> (postgres \<times> go_error option \<times> 'os) option" where
  "engine_New sc api postgresInitScript cfg s =
     (let p = \<lparr>p_execConn = None, p_queryPool = None, p_cfg = cfg, p_pgcfg = zero_ConnConfig, p_cmd = False, p_Process = False,
               p_Level = UNKNOWN, p_src = None, p_info = None, p_maxConnections = cfg_MaxConnections cfg\<rparr>;
          p = SetLogLevel (cfg_LogLevel cfg) p in
      map_option (\<lambda>(err, p, s). (p, err, s)) (pg_Start sc api postgresInitScript p s))"

section \<open>Streaming SQL\<close>

text \<open>
  A writer is the \<open>psql\<close> command with what was written to its standard input so far; closing it waits for the
  command. The credentials, environment and pipe are those of the started command.
\<close>

record pgWriter =
  pw_cmd :: Cmd
  pw_input :: string

definition newPgWriter :: "'os os_api \<Rightarrow> 'os \<Rightarrow> (go_error, pgWriter) result \<times> 'os" where
  "newPgWriter api s =
     (case command api ''psql'' [''-q'', ''-A'', ''-t'', ''-v'', ''ON_ERROR_STOP=1''] s of
        (Inl e, s) \<Rightarrow> (Inl e, s)
      | (Inr cmd, s) \<Rightarrow>
          (case os_Start api cmd s of
             (Some e, s) \<Rightarrow> (Inl e, s)
           | (None, s) \<Rightarrow> (Inr \<lparr>pw_cmd = cmd, pw_input = []\<rparr>, s)))"

definition NewWriter :: "'os os_api \<Rightarrow> 'os \<Rightarrow> (go_error, pgWriter) result \<times> 'os" where
  "NewWriter api s = newPgWriter api s"

definition pgWriter_Write :: "'os os_api \<Rightarrow> 'os \<Rightarrow> pgWriter io_writer" where
  "pgWriter_Write api s w b =
     (if os_PipeBroken api (pw_cmd w) (pw_input w) s then ((0, True), w)
      else ((length b, False), w\<lparr>pw_input := pw_input w @ b\<rparr>))"

definition pgWriter_Close :: "'os os_api \<Rightarrow> pgWriter \<Rightarrow> 'os \<Rightarrow> go_error option \<times> 'os" where
  "pgWriter_Close api w s = os_Wait api ((pw_cmd w)\<lparr>cm_Stdin := Some (pw_input w)\<rparr>) s"

section \<open>Properties\<close>

text \<open>
  What is known of the system: a file that was written reads back, reading the environment does not depend on files
  and commands, and no command writes the marker file.
\<close>

definition os_files :: "'os os_api \<Rightarrow> bool" where
  "os_files api \<longleftrightarrow>
     (\<forall>f b s s'. os_WriteFile api f b s = (None, s') \<longrightarrow> os_ReadFile api f s' = Inr b) \<and>
     (\<forall>f b s k. os_Getenv api k (snd (os_WriteFile api f b s)) = os_Getenv api k s) \<and>
     (\<forall>c s k. os_Getenv api k (snd (os_Run api c s)) = os_Getenv api k s) \<and>
     (\<forall>c s. os_ReadFile api (initMarker api s) (snd (os_Run api c s)) = os_ReadFile api (initMarker api s) s)"

lemma os_files_write:
  assumes "os_files api" and "os_WriteFile api f b s = (None, s')"
  shows "os_ReadFile api f s' = Inr b" "os_Getenv api k s' = os_Getenv api k s"
proof -
  have "os_Getenv api k (snd (os_WriteFile api f b s)) = os_Getenv api k s" using assms(1) unfolding os_files_def by blast
  then show "os_Getenv api k s' = os_Getenv api k s" using assms(2) by simp
  show "os_ReadFile api f s' = Inr b" using assms unfolding os_files_def by blast
qed

definition marker_of :: "'os os_api \<Rightarrow> 'os \<Rightarrow> string \<times> bool" where
  "marker_of api s = (initMarker api s, alreadyInitialized api s)"

lemma os_Run_marker: "os_files api \<Longrightarrow> marker_of api (snd (os_Run api c s)) = marker_of api s"
  by (simp add: os_files_def marker_of_def alreadyInitialized_def initMarker_def)

lemma getSysUserId_marker: "os_files api \<Longrightarrow> marker_of api (snd (getSysUserId api fl u s)) = marker_of api s"
  by (simp add: getSysUserId_def case_prod_beta os_Run_marker split: sum.split option.split)

lemma command_marker: "os_files api \<Longrightarrow> marker_of api (snd (command api name args s)) = marker_of api s"
  by (simp add: command_def getUid_def getGid_def case_prod_beta getSysUserId_marker split: sum.split)

lemma run_marker: "os_files api \<Longrightarrow> marker_of api (snd (run api exe args s)) = marker_of api s"
  by (simp add: run_def case_prod_beta command_marker os_Run_marker split: sum.split)

lemma cpConfig_marker: "os_files api \<Longrightarrow> marker_of api (snd (cpConfig api name s)) = marker_of api s"
  by (simp add: cpConfig_def Let_def case_prod_beta run_marker split: option.split)

lemma initdb_cases:
  assumes "os_files api" and "initdb api s = (err, s')"
  shows "alreadyInitialized api s \<and> err = None \<and> s' = s \<or>
    \<not> alreadyInitialized api s \<and> err \<noteq> None \<and> marker_of api s' = marker_of api s \<or>
    (\<exists>s1. os_WriteFile api (initMarker api s1) ''true'' s1 = (err, s') \<and> \<not> alreadyInitialized api s)"
proof (cases "alreadyInitialized api s")
  case True
  with assms(2) show ?thesis by (simp add: initdb_def)
next
  case False
  let ?r1 = "run api ''initdb'' [''--nosync'', ''--noclean''] s"
  let ?r2 = "cpConfig api ''postgresql.conf'' (snd ?r1)"
  let ?r3 = "cpConfig api ''pg_hba.conf'' (snd ?r2)"
  have m: "marker_of api (snd ?r1) = marker_of api s" "marker_of api (snd ?r2) = marker_of api s" "marker_of api (snd ?r3) = marker_of api s"
    using assms(1) by (simp_all add: run_marker cpConfig_marker)
  have "initdb api s = (if fst ?r1 \<noteq> None then ?r1 else if fst ?r2 \<noteq> None then ?r2 else if fst ?r3 \<noteq> None then ?r3 else markAsInitialized api (snd ?r3))"
    using False by (auto simp: initdb_def case_prod_beta prod_eq_iff split: option.splits)
  with assms(2) m False show ?thesis
    by (auto simp: markAsInitialized_def split: if_splits)
qed

text \<open>
  C31: the data directory is initialised once. After \<open>initdb\<close> has succeeded, another start runs no command; when one
  of its steps fails, the directory still counts as not initialised and the next start does all the steps again,
  unless the step that failed was writing the marker itself.
\<close>

theorem initdb_once:
  assumes "os_files api" and "initdb api s = (err, s')"
  shows "if err = None then initdb api s' = (None, s')
    else \<not> alreadyInitialized api s' \<or> (\<exists>s1. os_WriteFile api (initMarker api s1) ''true'' s1 = (err, s'))"
proof (cases "err = None")
  case True
  have "alreadyInitialized api s'" if w: "os_WriteFile api (initMarker api s1) ''true'' s1 = (None, s')" for s1
  proof -
    have "initMarker api s' = initMarker api s1"
      using os_files_write(2) [OF assms(1) w] by (simp add: initMarker_def)
    with os_files_write(1) [OF assms(1) w] show ?thesis by (simp add: alreadyInitialized_def)
  qed
  with True initdb_cases [OF assms] have "alreadyInitialized api s'" by auto
  with True show ?thesis by (simp add: initdb_def)
next
  case False
  with initdb_cases [OF assms] show ?thesis by (auto simp: marker_of_def)
qed

text \<open>A system on which every command succeeds, with the files as its state.\<close>

definition demo_api :: "bytes \<Rightarrow> (string \<rightharpoonup> string) os_api" where
  "demo_api input = \<lparr>os_LookPath = (\<lambda>n s. Inr n), os_Run = (\<lambda>c s. ((None, if cm_Path c = ''id'' then ''33'' else []), s)),
     os_Start = (\<lambda>c s. (None, s)),
     os_Wait = (\<lambda>c s. (None, s)), os_Exited = (\<lambda>s. None), os_Kill = id, os_Getenv = (\<lambda>k s. if k = ''PGDATA'' then ''/data'' else []),
     os_Environ = (\<lambda>s. []), os_ReadFile = (\<lambda>f s. case s f of Some b \<Rightarrow> Inr b | None \<Rightarrow> Inl (ErrorString ''not found'')),
     os_WriteFile = (\<lambda>f b s. (None, s(f \<mapsto> b))), os_PipeBroken = (\<lambda>c b s. False),
     os_Connect = (\<lambda>cc s n. Inr (json_conn input))\<rparr>"

lemma demo_api_files: "os_files (demo_api input)"
  by (simp add: os_files_def demo_api_def)

lemma demo_command: "\<exists>cmd. command (demo_api input) name args s = (Inr cmd, s)"
proof -
  have "TrimSpace ''33'' = ''33''" by code_simp
  moreover have "ParseUint10 32 ''33'' = Some 33" by (simp add: ParseUint10_def parse_digits_def digits_value_def is_digit_def)
  ultimately have "ParseUint10 32 (TrimSpace ''33'') = Some 33" by simp
  then have "getSysUserId (demo_api input) fl u s = (Inr 33, s)" for fl u
    by (simp add: getSysUserId_def demo_api_def)
  moreover have "os_LookPath (demo_api input) name s = Inr name" by (simp add: demo_api_def)
  ultimately show ?thesis by (simp add: command_def getUid_def getGid_def)
qed

lemma demo_run: "run (demo_api input) exe args s = (None, s)"
  using demo_command [of input exe args s] by (auto simp: run_def demo_api_def)

lemma demo_initdb: "initdb (demo_api input) Map.empty = (None, [''/data/.init'' \<mapsto> ''true''])"
proof -
  have marker: "initMarker (demo_api input) s = ''/data/.init''" for s
  proof -
    have "filepath_Join [''/data'', ''.init''] = ''/data/.init''" by code_simp
    then show ?thesis by (simp add: initMarker_def demo_api_def)
  qed
  have "\<not> alreadyInitialized (demo_api input) Map.empty" by (simp add: alreadyInitialized_def demo_api_def)
  moreover have "cpConfig (demo_api input) name s = (None, s)" for name s by (simp add: cpConfig_def demo_run Let_def)
  moreover have "markAsInitialized (demo_api input) Map.empty = (None, [''/data/.init'' \<mapsto> ''true''])"
    unfolding markAsInitialized_def marker by (simp add: demo_api_def)
  ultimately show ?thesis by (simp add: initdb_def demo_run)
qed

theorem initdb_once_witness:
  "initdb (demo_api []) Map.empty = (None, [''/data/.init'' \<mapsto> ''true'']) \<and>
   initdb (demo_api []) [''/data/.init'' \<mapsto> ''true''] = (None, [''/data/.init'' \<mapsto> ''true''])"
  using initdb_once [OF demo_api_files demo_initdb] demo_initdb by simp

lemma pg_init_ok: "pg_init api script p s = (None, p', s') \<Longrightarrow> \<exists>js. p' = p\<lparr>p_src := Some (Replace1 script init_marker js)\<rparr>"
  by (auto simp: pg_init_def Let_def split: prod.splits option.splits sum.splits)

lemma spawn_ok: "spawn api script p s = (None, p', s') \<Longrightarrow>
    \<exists>js. p' = p\<lparr>p_cmd := True, p_Process := True, p_src := Some (Replace1 script init_marker js)\<rparr>"
  by (auto simp: spawn_def Let_def split: prod.splits option.splits sum.splits readiness.splits dest!: pg_init_ok)

lemma pool_row_inv:
  assumes "pool_row sc sql args dest p x = Some (e, y, p')" and "p_queryPool p = Some (cfg, st)" and "pool_inv st H"
  shows "\<exists>st'. p' = p\<lparr>p_queryPool := Some (cfg, st')\<rparr> \<and> pool_inv st' H"
  using assms by (force simp: pool_row_def split: option.splits dest: pool_QueryRow_Scan_inv [OF assms(3)])

text \<open>The last steps of \<open>Start\<close>, once the server runs: connection, pool and the information on the application.\<close>

lemma pg_Start_ok:
  assumes "pg_Start sc api script p s = Some (None, p', s')"
  obtains cc js c cfg st i where
    "p' = p\<lparr>p_pgcfg := cc, p_cmd := True, p_Process := True, p_src := Some (Replace1 script init_marker js), p_execConn := Some c,
       p_queryPool := Some (cfg, st), p_info := i\<rparr>"
    "pool_inv st []" "pc_MaxConnections cfg = p_maxConnections p" "cc_User cc = ''postgres''" "cc_Database cc = ''arla''"
proof -
  obtain cc0 tls where env: "ParseEnvLibpq api s = Inr (cc0, tls)"
    using assms by (auto simp: pg_Start_def split: sum.splits)
  let ?cc = "cc0\<lparr>cc_User := ''postgres'', cc_Database := ''arla'', cc_Host := ''/var/run/postgresql/''\<rparr>"
  let ?p1 = "p\<lparr>p_pgcfg := ?cc\<rparr>"
  obtain s1 where idb: "initdb api s = (None, s1)"
    using assms env by (auto simp: pg_Start_def Let_def split: prod.splits option.splits)
  obtain p2 s2 where sp: "spawn api script ?p1 s1 = (None, p2, s2)"
    using assms env idb by (auto simp: pg_Start_def Let_def split: prod.splits option.splits)
  obtain js where p2: "p2 = ?p1\<lparr>p_cmd := True, p_Process := True, p_src := Some (Replace1 script init_marker js)\<rparr>"
    using spawn_ok [OF sp] by blast
  obtain c where c: "os_Connect api (p_pgcfg p2) s2 0 = Inr c"
    using assms env idb sp by (auto simp: pg_Start_def Let_def split: sum.splits)
  let ?cfg = "\<lparr>pc_dial = os_Connect api (p_pgcfg p2) s2, pc_MaxConnections = p_maxConnections p2, pc_AfterConnect = None, pc_AcquireTimeout = 0\<rparr>"
  obtain st where st: "NewConnPool ?cfg fresh_pool = Some (None, st)"
    using assms env idb sp c by (auto simp: pg_Start_def Let_def split: option.splits)
  let ?p3 = "p2\<lparr>p_execConn := Some c, p_queryPool := Some (?cfg, st)\<rparr>"
  obtain i p4 where row: "pool_row sc ''select arla_info()'' [] (json_dest decode_info_ptr) ?p3 (p_info p2) = Some (None, i, p4)"
    and p': "p' = p4\<lparr>p_info := i\<rparr>"
    using assms env idb sp c st by (auto simp: pg_Start_def Let_def split: option.splits prod.splits)
  obtain st' where "p4 = ?p3\<lparr>p_queryPool := Some (?cfg, st')\<rparr>" "pool_inv st' []"
    using pool_row_inv [OF row _ NewConnPool_inv [OF st]] by auto
  with p' p2 show ?thesis by (intro that [where cc = ?cc and js = js and c = c and cfg = ?cfg and st = st' and i = i]) simp_all
qed


definition info_answer :: bytes where
  "info_answer = prepared_bytes [] ''arla_info'' 73 @ srv_bytes [SBindComplete] @ row_bytes (bytes_of_string ''{}'') @
     srv_bytes [SCommandComplete ''SELECT 1''] @ ready_bytes 73"

lemma info_answer_row:
  assumes "conn_idle d info_answer"
  shows "row_gives sc ''select arla_info()'' [] (json_dest decode_info_ptr) None (None, Some zero_info) 73 d []"
proof -
  have dec: "unmarshal_with decode_info_ptr ''{}'' None = (Some zero_info, None)" by code_simp
  let ?post = "[SCommandComplete ''SELECT 1'']"
  have "row_gives sc ''select arla_info()'' (map VString []) (json_dest decode_info_ptr) None (first_error None ?post, Some zero_info) 73 d []"
    by (rule QueryRow_json [where name = "''arla_info''" and ?st0.0 = 73 and pre = "[SBindComplete]" and oids = "[]" and body = "bytes_of_string ''{}''"])
      (use assms json_dest_column [OF _ _ dec] in \<open>simp_all add: info_answer_def msg_ok.simps\<close>)
  then show ?thesis by simp
qed

definition demo_config :: Config where
  "demo_config = \<lparr>cfg_Path = ''./config.js'', cfg_LogLevel = DEBUG, cfg_MaxConnections = 1\<rparr>"

lemma demo_spawn: "\<exists>p'. spawn (demo_api input) script p s = (None, p', s)"
proof -
  obtain cmd where c: "command (demo_api input) ''postgres'' [''-k'', ''/var/run/postgresql'', ''-c'', ''max_connections='' @ format_int (p_maxConnections p + 1)] s = (Inr cmd, s)"
    using demo_command by blast
  have "os_Exited (demo_api input) s = None" by (simp add: demo_api_def)
  then have "pollForReady (demo_api input) (Suc n) s = (Ready, s)" for n by (simp add: demo_run)
  from this [of 19] have ready: "pollForReady (demo_api input) 20 s = (Ready, s)" by simp
  have "\<exists>p'. pg_init (demo_api input) script q s = (None, p', s)" for q
  proof -
    obtain c1 where c1: "command (demo_api input) ''browserify'' [cfg_Path (p_cfg q), ''-t'', ''['', ''/usr/lib/node_modules/babelify'',
        ''--modules'', ''common'', ''--stage'', ''0'', '']''] s = (Inr c1, s)" using demo_command by blast
    obtain c2 where c2: "command (demo_api input) ''psql'' [''-v'', ''ON_ERROR_STOP=1''] s = (Inr c2, s)" using demo_command by blast
    have "os_Run (demo_api input) x s = ((None, if cm_Path x = ''id'' then ''33'' else []), s)" for x by (simp add: demo_api_def)
    then show ?thesis by (simp add: pg_init_def demo_run c1 c2)
  qed
  moreover have "os_Start (demo_api input) cmd s = (None, s)" by (simp add: demo_api_def)
  ultimately show ?thesis unfolding spawn_def c by (simp add: ready)
qed

lemma demo_New:
  "\<exists>p. engine_New int_strconv (demo_api info_answer) ''//CONFIG//'' demo_config Map.empty = Some (p, None, [''/data/.init'' \<mapsto> ''true'']) \<and>
     p_info p = Some zero_info"
proof -
  let ?api = "demo_api info_answer"
  define p0 where "p0 = \<lparr>p_execConn = None, p_queryPool = None, p_cfg = demo_config, p_pgcfg = zero_ConnConfig, p_cmd = False, p_Process = False,
    p_Level = DEBUG, p_src = None, p_info = None, p_maxConnections = 1\<rparr>"
  obtain cc tls where env: "ParseEnvLibpq ?api Map.empty = Inr (cc, tls)"
    by (simp add: ParseEnvLibpq_def demo_api_def configSSL_def)
  let ?s = "[''/data/.init'' \<mapsto> ''true'']"
  obtain p1 where sp: "spawn ?api ''//CONFIG//'' (p0\<lparr>p_pgcfg := cc\<lparr>cc_User := ''postgres'', cc_Database := ''arla'', cc_Host := ''/var/run/postgresql/''\<rparr>\<rparr>) ?s = (None, p1, ?s)"
    using demo_spawn by blast
  have p1: "p_info p1 = None" "p_maxConnections p1 = 1" using spawn_ok [OF sp] by (auto simp: p0_def)
  let ?cfg = "\<lparr>pc_dial = os_Connect ?api (p_pgcfg p1) ?s, pc_MaxConnections = 1, pc_AfterConnect = None, pc_AcquireTimeout = 0\<rparr>"
  obtain st where st: "NewConnPool ?cfg fresh_pool = Some (None, st)"
    and av: "cp_availableConnections (st_pool st) = [0]" "\<not> cp_closed (st_pool st)" "conn_in st 0 = json_conn info_answer"
    by (simp add: NewConnPool_def createConnection_def fresh_pool_def demo_api_def Let_def)
  have idle: "engine_idle (p1\<lparr>p_execConn := Some (json_conn info_answer), p_queryPool := Some (?cfg, st)\<rparr>) 0 info_answer"
    using NewConnPool_inv [OF st] av json_conn_idle by (simp add: engine_idle_def pool_idle_def)
  obtain p2 where row: "pool_row int_strconv ''select arla_info()'' [] (json_dest decode_info_ptr)
      (p1\<lparr>p_execConn := Some (json_conn info_answer), p_queryPool := Some (?cfg, st)\<rparr>) None = Some (None, Some zero_info, p2)"
    using pool_row_gives [OF idle info_answer_row] by auto
  have con: "os_Connect ?api c s n = Inr (json_conn info_answer)" for c s n by (simp add: demo_api_def)
  have "pg_Start int_strconv ?api ''//CONFIG//'' p0 Map.empty = Some (None, p2\<lparr>p_info := Some zero_info\<rparr>, ?s)"
    unfolding pg_Start_def env using row st by (simp add: demo_initdb sp con p1)
  then have "engine_New int_strconv ?api ''//CONFIG//'' demo_config Map.empty = Some (p2\<lparr>p_info := Some zero_info\<rparr>, None, ?s)"
    by (simp add: engine_New_def SetLogLevel_def p0_def demo_config_def)
  then show ?thesis by auto
qed


end
