(* ===== verification/Pgx_Connect.thy ===== *)
theory Pgx_Connect
  imports Engine_Startup Pgx_Inet
begin

text \<open>
  Making a connection (\<open>connect\<close> of \<open>pgx/conn.go\<close>): defaults of the configuration, dialling, TLS with its fallback,
  the handshake, and the two queries that load the table of types and the constants of address families.
  \<open>Rows.Scan\<close> appears here with any number of destinations.

  The operating system and the network are the parameter \<open>net_api\<close>. A dialled link is what the server will send on
  it and whether writing fails; a TLS client on a link shows the plain text behind it. What a connection
  writes after TLS has started is not readable on the link, so the bytes written in clear are returned apart.
\<close>

section \<open>Rows with several columns\<close>

text \<open>\<open>None\<close> among the destinations is \<open>nil\<close>, which skips the column.\<close>

fun scan_dests :: "'s column_reader option list \<Rightarrow> Rows \<Rightarrow> Conn \<Rightarrow> 's \<Rightarrow> ('s \<times> Rows \<times> Conn) option" where
  "scan_dests [] ro c st = Some (st, ro, c)"
| "scan_dests (d # ds) ro c st =
     (case nextColumn ro c of
        None \<Rightarrow> None
      | Some (vr, ro, c) \<Rightarrow>
          (case d of
             None \<Rightarrow> scan_dests ds ro c st
           | Some dest \<Rightarrow>
               (case vr of
                  None \<Rightarrow> None
                | Some vr \<Rightarrow>
                    (case dest vr st of
                       None \<Rightarrow> None
                     | Some ((err, st), vr) \<Rightarrow>
                         (let ro = ro\<lparr>ro_vrLen := vr_remaining vr\<rparr>; c = c\<lparr>c_mr := vr_mr vr\<rparr> in
                          case (case err of Some e \<Rightarrow> rows_Fatal e ro c | None \<Rightarrow> (ro, c)) of
                            (ro, c) \<Rightarrow>
                              (case (case vr_err vr of Some e \<Rightarrow> rows_Fatal (ScanFailed e) ro c | None \<Rightarrow> (ro, c)) of
                                 (ro, c) \<Rightarrow> if ro_err ro \<noteq> None then Some (st, ro, c) else scan_dests ds ro c st))))))"

definition rows_Scan_all :: "'s column_reader option list \<Rightarrow> Rows \<Rightarrow> Conn \<Rightarrow> 's \<Rightarrow> ('s \<times> Rows \<times> Conn) option" where
  "rows_Scan_all dests ro c st =
     (if length (ro_fields ro) \<noteq> length dests then Some (st, rows_Fatal (RowProtocol ''wrong number of arguments'') ro c)
      else scan_dests dests ro c st)"

definition Row_Scan_all ::
  "'s column_reader option list \<Rightarrow> Rows \<Rightarrow> Conn \<Rightarrow> 's \<Rightarrow> ((pgx_error option \<times> 's) \<times> Rows \<times> Conn) option" where
  "Row_Scan_all dests ro c st =
     (if ro_err ro \<noteq> None then Some ((ro_err ro, st), ro, c)
      else
        (case rows_Next ro c of
           (False, ro, c) \<Rightarrow> Some ((if ro_err ro = None then Some ErrNoRows else ro_err ro, st), ro, c)
         | (True, ro, c) \<Rightarrow>
             (case rows_Scan_all dests ro c st of
                None \<Rightarrow> None
              | Some (st, ro, c) \<Rightarrow> (case rows_Close ro c of (ro, c) \<Rightarrow> Some ((ro_err ro, st), ro, c)))))"

text \<open>With one destination this is the function the engine uses.\<close>

lemma rows_Scan_all_one: "rows_Scan_all [Some dest] ro c st = rows_Scan dest ro c st"
  by (auto simp: rows_Scan_all_def rows_Scan_def Let_def split: option.splits prod.splits)

text \<open>
  Destinations: a pointer to a value that \<open>Decode\<close> knows, of which the queries below use \<open>*Oid\<close> and \<open>*string\<close>, and
  \<open>*[]byte\<close>. A column of type JSON goes through \<open>decodeJSON\<close> whatever the destination is.
\<close>

definition value_dest ::
  "(jtree \<Rightarrow> 's \<Rightarrow> 's \<times> dstatus) \<Rightarrow> (ValueReader \<Rightarrow> ('a \<times> ValueReader) option) \<Rightarrow> ('a \<Rightarrow> 's \<Rightarrow> 's) \<Rightarrow> 's column_reader" where
  "value_dest d dec upd vr st =
     (if fd_DataType (vr_fd vr) = JsonOid \<or> fd_DataType (vr_fd vr) = JsonbOid then
        map_option (\<lambda>((st, e), vr). ((None, st), vr)) (decodeJSON d vr st)
      else map_option (\<lambda>(v, vr). ((None, upd v st), vr)) (dec vr))"

definition decode_int32 :: "jtree \<Rightarrow> Oid \<Rightarrow> Oid \<times> dstatus" where
  "decode_int32 t n =
     (case decode_int t (sint n) of
        (i, st) \<Rightarrow> if - (2 ^ 31) \<le> i \<and> i < 2 ^ 31 then (word_of_int i, st) else (n, DSaved))"

definition oid_dest :: "(Oid \<times> string) column_reader" where
  "oid_dest = value_dest (\<lambda>t (n, s). map_prod (\<lambda>n. (n, s)) id (decode_int32 t n)) decodeOid (\<lambda>n (_, s). (n, s))"

definition name_dest :: "(Oid \<times> string) column_reader" where
  "name_dest = value_dest (\<lambda>t (n, s). map_prod (\<lambda>s. (n, s)) id (decode_string t s)) decodeText (\<lambda>s (n, _). (n, s))"

definition bytes_dest :: "(bytes \<Rightarrow> 's \<Rightarrow> 's) \<Rightarrow> 's column_reader" where
  "bytes_dest upd vr st =
     map_option (\<lambda>(b, vr). ((None, upd b st), vr))
       (if fd_DataType (vr_fd vr) = ByteaOid then decodeBytea vr
        else if vr_Len vr \<noteq> - 1 then vr_ReadBytes (vr_Len vr) vr
        else Some ([], vr))"

section \<open>Nothing is put back\<close>

lemma rows_close_input [simp]: "pending (snd (rows_close ro c)) = pending c"
  by (simp add: rows_close_def conn_unlock_def)

lemma readUntilReadyForQuery_input: "pending (snd (readUntilReadyForQuery ro c)) \<le> pending c"
proof (induction ro c rule: readUntilReadyForQuery.induct)
  case (1 ro c)
  let ?c = "snd (conn_rxMsg c)"
  have *: "pending ?c \<le> pending c" "pending (rxReadyForQuery ?c) \<le> pending c" "pending (snd (rxErrorResponse ?c)) \<le> pending c"
    "pending (snd (processContextFreeMsg t ?c)) \<le> pending c" for t
    using conn_rxMsg_input(1) [of c] rx_input(2,4) [of ?c] processContextFreeMsg_input [of t ?c] by linarith+
  show ?case
    using 1(1) [OF refl refl refl, THEN order_trans] 1(2) [OF refl refl refl, THEN order_trans]
      1(3) [OF refl refl refl, THEN order_trans] *
    by (subst readUntilReadyForQuery.simps) (simp add: Let_def)
qed

lemma rows_Close_input: "pending (snd (rows_Close ro c)) \<le> pending c"
  using readUntilReadyForQuery_input [of ro c] by (simp add: rows_Close_def case_prod_beta)

lemma rows_Fatal_input: "rows_Fatal e ro c = (ro', c') \<Longrightarrow> pending c' \<le> pending c"
  using rows_Close_input [of "ro\<lparr>ro_err := Some e\<rparr>" c] by (auto simp: rows_Fatal_def split: if_splits)

lemma Next_loop_input: "Next_loop ro c = (True, ro', c') \<Longrightarrow> pending c' < pending c"
proof (induction ro c rule: Next_loop.induct)
  case (1 ro c)
  let ?c = "snd (conn_rxMsg c)"
  show ?case
  proof (cases "snd (fst (conn_rxMsg c)) = None")
    case True
    then have lt: "pending ?c < pending c" by (rule conn_rxMsg_input(2))
    have rd: "length (mr_input (snd (readInt16 (c_mr ?c)))) \<le> pending ?c"
      using read_word_input [where 'a = 16, of 2 "c_mr ?c"] by (simp add: readInt16_def)
    have pc: "pending (snd (processContextFreeMsg t ?c)) \<le> pending ?c" for t by (rule processContextFreeMsg_input)
    note unfold = 1(3) [unfolded Next_loop.simps [of ro c] Let_def]
    consider "fst (fst (conn_rxMsg c)) = readyForQuery" | "fst (fst (conn_rxMsg c)) = dataRow"
      | (skip) "fst (fst (conn_rxMsg c)) \<notin> {readyForQuery, dataRow}" "fst (fst (conn_rxMsg c)) \<in> {commandComplete, bindComplete}"
      | (other) "fst (fst (conn_rxMsg c)) \<notin> {readyForQuery, dataRow, commandComplete, bindComplete}"
      by auto
    then show ?thesis
    proof cases
      case 1
      with unfold True show ?thesis by simp
    next
      case 2
      with unfold True rd lt show ?thesis
        by (auto simp: msg_types msg_type_distinct split: if_splits prod.splits)
    next
      case skip
      then have "Next_loop ro ?c = (True, ro', c')" using unfold True by auto
      then have "pending c' < pending ?c" using skip True by (intro 1(1) [OF refl refl refl]) auto
      with lt show ?thesis by linarith
    next
      case other
      let ?p = "processContextFreeMsg (fst (fst (conn_rxMsg c))) ?c"
      from other have "fst ?p = None \<and> Next_loop ro (snd ?p) = (True, ro', c')" using unfold True by (auto split: if_splits)
      then have "pending c' < pending (snd ?p)" using other True by (intro 1(2) [OF refl refl refl _ _ _ _ refl]) auto
      with lt pc [of "fst (fst (conn_rxMsg c))"] show ?thesis by linarith
    qed
  next
    case False
    with 1(3) show ?thesis by (subst (asm) Next_loop.simps) (simp add: Let_def)
  qed
qed

lemma rows_Next_input: "rows_Next ro c = (True, ro', c') \<Longrightarrow> pending c' < pending c"
  by (auto simp: rows_Next_def split: if_splits dest: Next_loop_input)

definition reads_on :: "'s column_reader \<Rightarrow> bool" where
  "reads_on d \<longleftrightarrow> (\<forall>vr st x vr'. d vr st = Some (x, vr') \<longrightarrow> length (mr_input (vr_mr vr')) \<le> length (mr_input (vr_mr vr)))"

lemma readBytes_input: "readBytes n r = Some (s, r') \<Longrightarrow> length (mr_input r') \<le> length (mr_input r)"
  by (auto simp: readBytes_def take_remaining_def fatal_def Let_def split: if_splits bool.splits)

lemma vr_reads_input:
  "vr_ReadString n vr = Some (s, vr') \<Longrightarrow> length (mr_input (vr_mr vr')) \<le> length (mr_input (vr_mr vr))"
  "vr_ReadBytes n vr = Some (b, vr') \<Longrightarrow> length (mr_input (vr_mr vr')) \<le> length (mr_input (vr_mr vr))"
  "length (mr_input (vr_mr (snd (vr_ReadInt32 vr)))) \<le> length (mr_input (vr_mr vr))"
  subgoal
    by (auto simp: vr_ReadString_def vr_take_def vr_Fatal_def Let_def split: if_splits prod.splits bool.splits dest: readString_input)
  subgoal
    by (auto simp: vr_ReadBytes_def vr_take_def vr_Fatal_def Let_def split: if_splits prod.splits bool.splits dest: readBytes_input)
  subgoal
    using read_word_input [where 'a = 32, of 4 "vr_mr vr"]
    by (auto simp: vr_ReadInt32_def vr_read_def vr_take_def vr_Fatal_def readInt32_def Let_def split: prod.splits bool.splits)
  done

lemma decode_input:
  "decodeOid vr = Some (n, vr') \<Longrightarrow> length (mr_input (vr_mr vr')) \<le> length (mr_input (vr_mr vr))"
  "decodeText vr = Some (s, vr') \<Longrightarrow> length (mr_input (vr_mr vr')) \<le> length (mr_input (vr_mr vr))"
  "decodeBytea vr = Some (b, vr') \<Longrightarrow> length (mr_input (vr_mr vr')) \<le> length (mr_input (vr_mr vr))"
  "decodeJSON d vr r = Some (x, vr') \<Longrightarrow> length (mr_input (vr_mr vr')) \<le> length (mr_input (vr_mr vr))"
  subgoal
    using vr_reads_input(3) [of vr]
    by (auto simp: decodeOid_def vr_Fatal_def split: if_splits option.splits prod.splits dest: vr_reads_input(1))
  subgoal
    by (auto simp: decodeText_def vr_Fatal_def split: if_splits dest: vr_reads_input(1))
  subgoal
    by (auto simp: decodeBytea_def vr_Fatal_def split: if_splits dest: vr_reads_input(2))
  subgoal
    by (auto simp: decodeJSON_def vr_Fatal_def Let_def split: if_splits option.splits prod.splits dest!: vr_reads_input(2))
  done

lemma dests_read_on [simp]: "reads_on oid_dest" "reads_on name_dest" "reads_on (bytes_dest upd)"
  by (auto simp: reads_on_def oid_dest_def name_dest_def bytes_dest_def value_dest_def split: if_splits
      dest: decode_input vr_reads_input(2))

lemma nextColumn_input:
  assumes "nextColumn ro c = Some (vr, ro', c')"
  shows "pending c' \<le> pending c" and "vr = Some v \<Longrightarrow> vr_mr v = c_mr c'"
proof -
  have rd: "length (mr_input (snd (readInt32 r))) \<le> length (mr_input r)" for r
    using read_word_input [where 'a = 32, of 4 r] by (simp add: readInt32_def)
  have "length (mr_input r') \<le> pending c"
    if "readBytes n (c_mr c) = Some (b, r)" "readInt32 r = (m, r')" for n b r m r'
    using readBytes_input [OF that(1)] rd [of r] that(2) by simp
  moreover have "length (mr_input r') \<le> pending c" if "readInt32 (c_mr c) = (m, r')" for m r'
    using that rd [of "c_mr c"] by simp
  ultimately show "pending c' \<le> pending c"
    using assms by (auto simp: nextColumn_def split: if_splits option.splits prod.splits dest: rows_Fatal_input)
  show "vr = Some v \<Longrightarrow> vr_mr v = c_mr c'"
    using assms by (auto simp: nextColumn_def split: if_splits option.splits prod.splits)
qed

lemma scan_dests_input:
  "list_all (\<lambda>d. \<forall>f. d = Some f \<longrightarrow> reads_on f) ds \<Longrightarrow> scan_dests ds ro c st = Some (st', ro', c') \<Longrightarrow> pending c' \<le> pending c"
proof (induction ds arbitrary: ro c st)
  case (Cons d ds)
  obtain vr ro1 c1 where nc: "nextColumn ro c = Some (vr, ro1, c1)"
    using Cons.prems(2) by (auto split: option.splits)
  have c1: "pending c1 \<le> pending c" by (rule nextColumn_input(1) [OF nc])
  have IH: "scan_dests ds ro2 c2 st2 = Some (st', ro', c') \<Longrightarrow> pending c' \<le> pending c2" for ro2 c2 st2
    using Cons.IH Cons.prems(1) by simp
  show ?case
  proof (cases d)
    case None
    with Cons.prems(2) nc IH [of ro1 c1 st] c1 show ?thesis by simp
  next
    case (Some dest)
    then obtain v where v: "vr = Some v" using Cons.prems(2) nc by (cases vr) auto
    obtain err st1 v1 where d: "dest v st = Some ((err, st1), v1)"
      using Cons.prems(2) nc v Some by (auto split: option.splits)
    let ?ro = "ro1\<lparr>ro_vrLen := vr_remaining v1\<rparr>" and ?c = "c1\<lparr>c_mr := vr_mr v1\<rparr>"
    have le: "pending ?c \<le> pending c1"
      using d Cons.prems(1) Some nextColumn_input(2) [OF nc v] by (simp add: reads_on_def) metis
    obtain ro2 c2 where f2: "(case err of Some e \<Rightarrow> rows_Fatal e ?ro ?c | None \<Rightarrow> (ro1\<lparr>ro_vrLen := vr_remaining v1\<rparr>, ?c)) = (ro2, c2)" by fastforce
    obtain ro3 c3 where f3: "(case vr_err v1 of Some e \<Rightarrow> rows_Fatal (ScanFailed e) ro2 c2 | None \<Rightarrow> (ro2, c2)) = (ro3, c3)" by fastforce
    have "pending c2 \<le> pending ?c" using f2 by (auto split: option.splits dest: rows_Fatal_input)
    moreover have "pending c3 \<le> pending c2" using f3 by (auto split: option.splits dest: rows_Fatal_input)
    moreover have "pending c' \<le> pending c3"
      using Cons.prems(2) nc v Some d f2 f3 IH by (auto simp: Let_def split: if_splits)
    ultimately show ?thesis using le c1 by linarith
  qed
qed simp

lemma rows_Scan_all_input:
  assumes "list_all (\<lambda>d. \<forall>f. d = Some f \<longrightarrow> reads_on f) ds" and "rows_Scan_all ds ro c st = Some (st', ro', c')"
  shows "pending c' \<le> pending c"
  using assms scan_dests_input [OF assms(1), of ro c st]
  by (auto simp: rows_Scan_all_def split: if_splits dest: rows_Fatal_input)

section \<open>Types and address families\<close>

definition DefaultTypeFormats :: "string \<rightharpoonup> 16 word" where
  "DefaultTypeFormats = map_of (map (\<lambda>t. (t, BinaryFormatCode))
     [''_bool'', ''_bytea'', ''_cidr'', ''_float4'', ''_float8'', ''_inet'', ''_int2'', ''_int4'', ''_int8'', ''_text'',
      ''_timestamp'', ''_timestamptz'', ''_varchar'', ''bool'', ''bytea'', ''cidr'', ''date'', ''float4'', ''float8'', ''inet'',
      ''int2'', ''int4'', ''int8'', ''oid'', ''timestamp'', ''timestamptz''])"

text \<open>The \<open>init\<close> of \<open>querystore/postgres.go\<close> asks for the binary format of \<open>json\<close>.\<close>

definition querystore_formats :: "string \<rightharpoonup> 16 word" where
  "querystore_formats = DefaultTypeFormats(''json'' \<mapsto> BinaryFormatCode)"

lemma row_of_type_input:
  assumes "(True, ro1, c1) = rows_Next ro c" and "rows_Scan_all [Some oid_dest, Some name_dest] ro1 c1 st = Some (x, ro2, c2)"
  shows "pending c2 < pending c"
  using rows_Next_input [OF assms(1) [symmetric]] rows_Scan_all_input [OF _ assms(2)] by simp

function load_types_loop :: "(string \<rightharpoonup> 16 word) \<Rightarrow> Rows \<Rightarrow> Conn \<Rightarrow> (pgx_error option \<times> Conn) option" where
  "load_types_loop formats ro c =
     (case rows_Next ro c of
        (False, ro, c) \<Rightarrow> Some (ro_err ro, c)
      | (True, ro, c) \<Rightarrow>
          (case rows_Scan_all [Some oid_dest, Some name_dest] ro c (0, []) of
             None \<Rightarrow> None
           | Some ((oid, name), ro, c) \<Rightarrow>
               load_types_loop formats ro
                 (c\<lparr>c_PgTypes := (c_PgTypes c)(oid \<mapsto>
                    \<lparr>pt_Name = name, pt_DefaultFormat = (case formats name of Some f \<Rightarrow> f | None \<Rightarrow> 0)\<rparr>)\<rparr>)))"
  by pat_completeness auto
termination
  by (relation "measure (\<lambda>(f, ro, c). pending c)")
    (auto dest: row_of_type_input)

declare load_types_loop.simps [simp del]

text \<open>\<open>loadPgTypes\<close>: the error, whether the table has been made (it stays nil when the query fails), the connection.\<close>

definition loadPgTypes :: "strconv \<Rightarrow> (string \<rightharpoonup> 16 word) \<Rightarrow> Conn \<Rightarrow> (pgx_error option \<times> bool \<times> Conn) option" where
  "loadPgTypes sc formats c =
     (case conn_Query sc ''select t.oid, t.typname from pg_type t left join pg_type base_type on t.typelem=base_type.oid where t.typtype='b' and (base_type.oid is null or base_type.typtype='b');'' [] c of
        None \<Rightarrow> None
      | Some (ro, c) \<Rightarrow>
          if ro_err ro \<noteq> None then Some (ro_err ro, False, c)
          else map_option (\<lambda>(e, c). (e, True, c)) (load_types_loop formats ro (c\<lparr>c_PgTypes := Map.empty\<rparr>)))"

text \<open>An address that comes back empty is indexed all the same, which panics.\<close>

definition loadInetConstants :: "strconv \<Rightarrow> Conn \<Rightarrow> ((pgx_error, byte \<times> byte) result \<times> Conn) option" where
  "loadInetConstants sc c =
     (case conn_Query sc ''select '127.0.0.1'::inet, '1::'::inet'' [] c of
        None \<Rightarrow> None
      | Some (ro, c) \<Rightarrow>
          (case Row_Scan_all [Some (bytes_dest (\<lambda>b (_, b6). (b, b6))), Some (bytes_dest (\<lambda>b (b4, _). (b4, b)))] ro c ([], []) of
             None \<Rightarrow> None
           | Some ((Some e, _), ro, c) \<Rightarrow> Some (Inl e, c)
           | Some ((None, ipv4, ipv6), ro, c) \<Rightarrow>
               if ipv4 = [] \<or> ipv6 = [] then None else Some (Inr (hd ipv4, hd ipv6), c)))"

section \<open>Connecting\<close>

record net_api =
  na_User :: "string option"
  na_Stat :: "string \<Rightarrow> bool"
  na_Dial :: "nat \<Rightarrow> string \<Rightarrow> string \<Rightarrow> (pgx_error, bytes \<times> bool) result"
  na_TLS :: "nat \<Rightarrow> tls_config \<Rightarrow> bytes \<Rightarrow> bytes \<times> bool"
  na_MD5 :: "string \<Rightarrow> string"

text \<open>A connection under construction with the constants of the address families, if they are known.\<close>

record session =
  se_conn :: Conn
  se_PgTypes_known :: bool
  se_af_inet :: "byte option"
  se_af_inet6 :: "byte option"

definition startup_options :: "tls_config option \<Rightarrow> (string \<times> string) list \<Rightarrow> ConnConfig \<Rightarrow> (string \<times> string) list" where
  "startup_options tls runtimeParams cfg =
     (let opts = (if tls = None then [] else [(''ssl_renegotiation_limit'', ''0'')]);
          opts = fold (\<lambda>(k, v). AList.update k v) runtimeParams opts;
          opts = AList.update ''user'' (cc_User cfg) opts in
      if cc_Database cfg \<noteq> [] then AList.update ''database'' (cc_Database cfg) opts else opts)"

definition ssl_request :: bytes where
  "ssl_request = be32 8 @ be32 80877103"

text \<open>
  \<open>startTLS\<close>: the error, the connection, and what it wrote on the bare link. On success the connection reads and
  writes through the TLS client.
\<close>

definition startTLS :: "net_api \<Rightarrow> nat \<Rightarrow> tls_config \<Rightarrow> Conn \<Rightarrow> pgx_error option \<times> Conn \<times> bytes" where
  "startTLS net k tlsConfig c =
     (case conn_write ssl_request c of
        (False, c) \<Rightarrow> (Some WriteErr, c, [])
      | (True, c) \<Rightarrow>
          (case mr_input (c_mr c) of
             [] \<Rightarrow> (Some (MrErr ReadFailed), c, ssl_request)
           | response # rest \<Rightarrow>
               if response \<noteq> byte_of_char CHR ''S'' then (Some ErrTLSRefused, c, ssl_request)
               else
                 (case na_TLS net k tlsConfig rest of
                    (plaintext, broken) \<Rightarrow> (None, c\<lparr>c_mr := (c_mr c)\<lparr>mr_input := plaintext\<rparr>, c_out := [], c_broken := broken\<rparr>, ssl_request))))"

definition load_constants :: "strconv \<Rightarrow> (string \<rightharpoonup> 16 word) \<Rightarrow> session \<Rightarrow> (pgx_error option \<times> session) option" where
  "load_constants sc formats se =
     (case (if se_PgTypes_known se then Some (None, True, se_conn se) else loadPgTypes sc formats (se_conn se)) of
        None \<Rightarrow> None
      | Some (Some e, known, c) \<Rightarrow> Some (Some e, se\<lparr>se_conn := c, se_PgTypes_known := known\<rparr>)
      | Some (None, known, c) \<Rightarrow>
          (let se = se\<lparr>se_conn := c, se_PgTypes_known := known\<rparr> in
           if se_af_inet se \<noteq> None \<and> se_af_inet6 se \<noteq> None then Some (None, se)
           else
             (case loadInetConstants sc c of
                None \<Rightarrow> None
              | Some (Inl e, c) \<Rightarrow> Some (Some e, se\<lparr>se_conn := c\<rparr>)
              | Some (Inr (a, a6), c) \<Rightarrow> Some (None, se\<lparr>se_conn := c, se_af_inet := Some a, se_af_inet6 := Some a6\<rparr>))))"

text \<open>From the startup message on.\<close>

definition handshake ::
  "strconv \<Rightarrow> (string \<rightharpoonup> 16 word) \<Rightarrow> net_api \<Rightarrow> ConnConfig \<Rightarrow> tls_config option \<Rightarrow> session \<Rightarrow> (pgx_error option \<times> session) option" where
  "handshake sc formats net config tls se =
     (case conn_write (startup_Bytes (startup_options tls (cc_RuntimeParams config) (c_config (se_conn se)))) (se_conn se) of
        (False, c) \<Rightarrow> Some (Some WriteErr, se\<lparr>se_conn := c\<rparr>)
      | (True, c) \<Rightarrow>
          (case connect_loop (na_MD5 net) c of
             (Some e, c) \<Rightarrow> Some (Some e, se\<lparr>se_conn := c\<rparr>)
           | (None, c) \<Rightarrow> load_constants sc formats (se\<lparr>se_conn := c\<rparr>)))"

text \<open>
  \<open>Conn.connect\<close>: one attempt, with the bytes it wrote in clear. The connection keeps its message reader, with
  what a previous attempt left in it, and gets a new stream. A failure closes the link.
\<close>

definition conn_connect ::
  "strconv \<Rightarrow> (string \<rightharpoonup> 16 word) \<Rightarrow> net_api \<Rightarrow> nat \<Rightarrow> ConnConfig \<Rightarrow> string \<Rightarrow> string \<Rightarrow> tls_config option \<Rightarrow> session \<Rightarrow>
     (pgx_error option \<times> session \<times> bytes) option" where
  "conn_connect sc formats net k config network address tls se =
     (case na_Dial net k network address of
        Inl e \<Rightarrow> Some (Some e, se, [])
      | Inr (input, broken) \<Rightarrow>
          (let c = (se_conn se)\<lparr>c_mr := (c_mr (se_conn se))\<lparr>mr_input := input\<rparr>, c_out := [], c_broken := broken,
                 c_RuntimeParams := Map.empty, c_preparedStatements := Map.empty, c_channels := [], c_alive := True\<rparr>;
               fail = (\<lambda>e se clear. (Some e, se\<lparr>se_conn := (se_conn se)\<lparr>c_alive := False\<rparr>\<rparr>, clear)) in
           case (case tls of None \<Rightarrow> (None, c, []) | Some t \<Rightarrow> startTLS net k t c) of
             (Some e, c, clear) \<Rightarrow> Some (fail e (se\<lparr>se_conn := c\<rparr>) clear)
           | (None, c, clear) \<Rightarrow>
               (case handshake sc formats net config tls (se\<lparr>se_conn := c\<rparr>) of
                  None \<Rightarrow> None
                | Some (err, se) \<Rightarrow>
                    (let clear = (if tls = None then c_out (se_conn se) else clear) in
                     Some (case err of Some e \<Rightarrow> fail e se clear | None \<Rightarrow> (None, se, clear))))))"

text \<open>The address that is dialled: a socket when the host is a path.\<close>

definition dial_address :: "net_api \<Rightarrow> ConnConfig \<Rightarrow> string \<times> string" where
  "dial_address net cfg =
     (if na_Stat net (cc_Host cfg) then
        (''unix'', if Contains (cc_Host cfg) ''/.s.PGSQL.'' then cc_Host cfg
                   else filepath_Join [cc_Host cfg, ''.s.PGSQL.''] @ itoa (unat (cc_Port cfg)))
      else (''tcp'', cc_Host cfg @ '':'' @ itoa (unat (cc_Port cfg))))"

definition fresh_conn :: "ConnConfig \<Rightarrow> Conn" where
  "fresh_conn cfg = (demo_conn [])\<lparr>c_alive := False, c_config := cfg\<rparr>"

text \<open>\<open>connect\<close>, with everything its attempts wrote in clear.\<close>

definition connect ::
  "strconv \<Rightarrow> (string \<rightharpoonup> 16 word) \<Rightarrow> net_api \<Rightarrow> ConnConfig \<Rightarrow> tls_settings \<Rightarrow> (Oid \<rightharpoonup> PgType) option \<Rightarrow> byte option \<Rightarrow> byte option \<Rightarrow>
     ((pgx_error, session) result \<times> bytes) option" where
  "connect sc formats net config tls pgTypes af_inet af_inet6 =
     (case (if cc_User config = [] then na_User net else Some (cc_User config)) of
        None \<Rightarrow> Some (Inl (NetErr ''user''), [])
      | Some user \<Rightarrow>
          (let cfg = config\<lparr>cc_User := user\<rparr>;
               cfg = (if cc_Port cfg = 0 then cfg\<lparr>cc_Port := 5432\<rparr> else cfg);
               se = \<lparr>se_conn = (fresh_conn cfg)\<lparr>c_PgTypes := (case pgTypes of Some ts \<Rightarrow> ts | None \<Rightarrow> Map.empty)\<rparr>,
                     se_PgTypes_known = (pgTypes \<noteq> None), se_af_inet = af_inet, se_af_inet6 = af_inet6\<rparr>;
               addr = dial_address net cfg;
               attempt = (\<lambda>k t. conn_connect sc formats net k config (fst addr) (snd addr) t) in
           case attempt 0 (ts_TLSConfig tls) se of
             None \<Rightarrow> None
           | Some (None, se, clear) \<Rightarrow> Some (Inr se, clear)
           | Some (Some e, se, clear) \<Rightarrow>
               if \<not> ts_UseFallbackTLS tls then Some (Inl e, clear)
               else
                 (case attempt 1 (ts_FallbackTLSConfig tls) se of
                    None \<Rightarrow> None
                  | Some (None, se, clear') \<Rightarrow> Some (Inr se, clear @ clear')
                  | Some (Some e, se, clear') \<Rightarrow> Some (Inl e, clear @ clear'))))"

end
