(* ===== verification/Pgx_LargeObjects.thy ===== *)
theory Pgx_LargeObjects
  imports Pgx_Connect Pgx_Tx
begin

text \<open>
  Large objects (\<open>pgx/large_objects.go\<close>) and the function calls they are made of (\<open>pgx/fastpath.go\<close>). A call writes one message and reads
  until the server is ready. When the server refuses the call it stops one message too early, and the connection is out of
  step from then on: the next statement is answered by what the call left unread.
\<close>

section \<open>Function calls\<close>

type_synonym fastpath = "string \<rightharpoonup> Oid"
type_synonym fpArg = bytes

definition newFastpath :: fastpath where
  "newFastpath = Map.empty"

definition functionOID :: "fastpath \<Rightarrow> string \<Rightarrow> Oid" where
  "functionOID f name = (case f name of Some oid \<Rightarrow> oid | None \<Rightarrow> 0)"

definition addFunction :: "string \<Rightarrow> Oid \<Rightarrow> fastpath \<Rightarrow> fastpath" where
  "addFunction name oid f = f(name \<mapsto> oid)"

lemma row_of_function_input:
  assumes "(True, ro1, c1) = rows_Next ro c" and "rows_Scan_all [Some name_dest, Some oid_dest] ro1 c1 st = Some (x, ro2, c2)"
  shows "pending c2 < pending c"
  using rows_Next_input [OF assms(1) [symmetric]] rows_Scan_all_input [OF _ assms(2)] by simp

function addFunctions :: "Rows \<Rightarrow> Conn \<Rightarrow> fastpath \<Rightarrow> (pgx_error option \<times> fastpath \<times> Conn) option" where
  "addFunctions ro c f =
     (case rows_Next ro c of
        (False, ro, c) \<Rightarrow> Some (ro_err ro, f, c)
      | (True, ro, c) \<Rightarrow>
          (case rows_Scan_all [Some name_dest, Some oid_dest] ro c (0, []) of
             None \<Rightarrow> None
           | Some ((oid, name), ro, c) \<Rightarrow>
               if ro_err ro \<noteq> None then Some (ro_err ro, f, c) else addFunctions ro c (addFunction name oid f)))"
  by pat_completeness auto
termination
  by (relation "measure (\<lambda>(ro, c, f). pending c)") (auto dest: row_of_function_input)

declare addFunctions.simps [simp del]

definition fpIntArg :: "32 word \<Rightarrow> fpArg" where
  "fpIntArg n = be32 n"

definition fpInt64Arg :: "64 word \<Rightarrow> fpArg" where
  "fpInt64Arg n = be64 n"

definition call_msg :: "Oid \<Rightarrow> fpArg list \<Rightarrow> bytes" where
  "call_msg oid args =
     (let w = newWriteBuf (byte_of_char CHR ''F'');
          w = WriteInt16 1 (WriteInt16 1 (WriteInt32 oid w));
          w = WriteInt16 (word_of_nat (length args)) w;
          w = fold (\<lambda>arg w. WriteBytes arg (WriteInt32 (word_of_nat (length arg)) w)) args w
      in wb_buf (closeMsg (WriteInt16 1 w)))"

text \<open>\<open>FunctionCallResponse\<close>; a length that is negative panics (\<open>None\<close>).\<close>

definition functionCallResponse :: byte where
  "functionCallResponse = byte_of_char CHR ''V''"

definition rxFunctionCallResponse :: "Conn \<Rightarrow> (bytes \<times> Conn) option" where
  "rxFunctionCallResponse c =
     (case readInt32 (c_mr c) of (n, r) \<Rightarrow> map_option (\<lambda>(data, r). (data, c\<lparr>c_mr := r\<rparr>)) (readBytes n r))"

lemma rxFunctionCallResponse_input:
  "rxFunctionCallResponse c = Some (data, c') \<Longrightarrow> pending c' \<le> pending c"
  using read_word_input [where 'a = 32, of 4 "c_mr c"]
  by (auto simp: rxFunctionCallResponse_def readInt32_def split: prod.splits dest: readBytes_input)

function Call_loop :: "bytes \<Rightarrow> Conn \<Rightarrow> ((bytes \<times> pgx_error option) \<times> Conn) option" where
  "Call_loop res c =
     (let m = conn_rxMsg c; t = fst (fst m); c1 = snd m in
      if snd (fst m) \<noteq> None then Some (([], snd (fst m)), c1)
      else if t = functionCallResponse then
        (case rxFunctionCallResponse c1 of None \<Rightarrow> None | Some (data, c2) \<Rightarrow> Call_loop data c2)
      else if t = readyForQuery then Some ((res, None), rxReadyForQuery c1)
      else
        (let p = processContextFreeMsg t c1 in
         if fst p \<noteq> None then Some (([], fst p), snd p) else Call_loop res (snd p)))"
  by pat_completeness auto
termination
  using conn_rxMsg_input(2)
  by (relation "measure (\<lambda>(res, c). pending c)")
    (auto simp: order_le_less_trans [OF processContextFreeMsg_input] dest!: rxFunctionCallResponse_input intro: order_le_less_trans)

declare Call_loop.simps [simp del]

text \<open>A write that fails is reported, but the connection is not marked as dead.\<close>

definition fp_Call :: "Oid \<Rightarrow> fpArg list \<Rightarrow> Conn \<Rightarrow> ((bytes \<times> pgx_error option) \<times> Conn) option" where
  "fp_Call oid args c =
     (case conn_write (call_msg oid args) c of
        (False, c) \<Rightarrow> Some (([], Some WriteErr), c)
      | (True, c) \<Rightarrow> Call_loop [] c)"

definition CallFn :: "fastpath \<Rightarrow> string \<Rightarrow> fpArg list \<Rightarrow> Conn \<Rightarrow> ((bytes \<times> pgx_error option) \<times> Conn) option" where
  "CallFn f fn args c = fp_Call (functionOID f fn) args c"

text \<open>The number in a result; a result that is too short panics.\<close>

definition fpInt32 :: "((bytes \<times> pgx_error option) \<times> Conn) option \<Rightarrow> ((32 word \<times> pgx_error option) \<times> Conn) option" where
  "fpInt32 r =
     (case r of
        None \<Rightarrow> None
      | Some ((data, Some e), c) \<Rightarrow> Some ((0, Some e), c)
      | Some ((data, None), c) \<Rightarrow> if length data < 4 then None else Some ((be_word (take 4 data), None), c))"

definition fpInt64 :: "((bytes \<times> pgx_error option) \<times> Conn) option \<Rightarrow> ((64 word \<times> pgx_error option) \<times> Conn) option" where
  "fpInt64 r =
     (case r of
        None \<Rightarrow> None
      | Some ((data, Some e), c) \<Rightarrow> Some ((0, Some e), c)
      | Some ((data, None), c) \<Rightarrow> if length data < 8 then None else Some ((be_word (take 8 data), None), c))"

section \<open>Large objects\<close>

record LargeObjects =
  lo_Has64 :: bool
  lo_fp :: fastpath

definition quoted_name :: "string \<Rightarrow> string" where
  "quoted_name n = CHR 0x27 # n @ [CHR 0x27]"

definition largeObjectFns :: string where
  "largeObjectFns =
     ''select proname, oid from pg_catalog.pg_proc '' @ [CHR 0x0A] @ ''where proname in ('' @ [CHR 0x0A] @
     Join (map quoted_name [''lo_open'', ''lo_close'', ''lo_create'', ''lo_unlink'', ''lo_lseek'', ''lo_lseek64'', ''lo_tell'', ''lo_tell64'',
       ''lo_truncate'', ''lo_truncate64'', ''loread'', ''lowrite'']) ('', '' @ [CHR 0x0A]) @
     '') '' @ [CHR 0x0A] @ ''and pronamespace = (select oid from pg_catalog.pg_namespace where nspname = '' @ quoted_name ''pg_catalog'' @ '')''"

text \<open>\<open>Tx.LargeObjects\<close>: the table of functions stays with the connection, here the argument \<open>fp\<close>, and is loaded once.\<close>

definition tx_LargeObjects :: "strconv \<Rightarrow> fastpath option \<Rightarrow> Tx \<Rightarrow> pool_state \<Rightarrow>
    ((tx_error, LargeObjects) result \<times> fastpath option \<times> pool_state) option" where
  "tx_LargeObjects sc fp tx st =
     (let f = (case fp of None \<Rightarrow> newFastpath | Some f \<Rightarrow> f);
          made = (\<lambda>f. \<lparr>lo_Has64 = (f ''lo_lseek64'' \<noteq> None), lo_fp = f\<rparr>) in
      if f ''lo_open'' \<noteq> None then Some (Inr (made f), Some f, st)
      else
        case tx_Query sc largeObjectFns [] tx st of
          None \<Rightarrow> None
        | Some (Inl e, st) \<Rightarrow> Some (Inl e, Some f, st)
        | Some (Inr rows, st) \<Rightarrow>
            (case addFunctions rows (conn_in st (tx_conn tx)) f of
               None \<Rightarrow> None
             | Some (Some e, f, c) \<Rightarrow> Some (Inl (TxConnErr e), Some f, set_conn (tx_conn tx) c st)
             | Some (None, f, c) \<Rightarrow> Some (Inr (made f), Some f, set_conn (tx_conn tx) c st)))"

definition LargeObjectModeWrite :: "32 word" where "LargeObjectModeWrite = 0x20000"
definition LargeObjectModeRead :: "32 word" where "LargeObjectModeRead = 0x40000"

definition lo_Create :: "LargeObjects \<Rightarrow> Oid \<Rightarrow> Conn \<Rightarrow> ((Oid \<times> pgx_error option) \<times> Conn) option" where
  "lo_Create lo i c = fpInt32 (CallFn (lo_fp lo) ''lo_create'' [fpIntArg i] c)"

definition lo_Open :: "LargeObjects \<Rightarrow> Oid \<Rightarrow> 32 word \<Rightarrow> Conn \<Rightarrow> ((32 word \<times> pgx_error option) \<times> Conn) option" where
  "lo_Open lo oid mode c = fpInt32 (CallFn (lo_fp lo) ''lo_open'' [fpIntArg oid, fpIntArg mode] c)"

definition error_of :: "((bytes \<times> pgx_error option) \<times> Conn) option \<Rightarrow> (pgx_error option \<times> Conn) option" where
  "error_of r = map_option (\<lambda>((_, e), c). (e, c)) r"

definition lo_Unlink :: "LargeObjects \<Rightarrow> Oid \<Rightarrow> Conn \<Rightarrow> (pgx_error option \<times> Conn) option" where
  "lo_Unlink lo oid c = error_of (CallFn (lo_fp lo) ''lo_unlink'' [fpIntArg oid] c)"

text \<open>A descriptor with the objects it belongs to.\<close>

record LargeObject =
  ob_fd :: "32 word"
  ob_lo :: LargeObjects

definition ob_Write :: "LargeObject \<Rightarrow> bytes \<Rightarrow> Conn \<Rightarrow> ((32 word \<times> pgx_error option) \<times> Conn) option" where
  "ob_Write ob p c = fpInt32 (CallFn (lo_fp (ob_lo ob)) ''lowrite'' [fpIntArg (ob_fd ob), p] c)"

text \<open>
  \<open>Read\<close> into a buffer of \<open>len\<close> bytes: what is copied into it, and the error; \<open>io.EOF\<close> takes the place of every error when the result is
  shorter than the buffer.
\<close>

datatype lo_error = IoEOF | LoErr pgx_error

definition ob_Read :: "LargeObject \<Rightarrow> nat \<Rightarrow> Conn \<Rightarrow> ((bytes \<times> lo_error option) \<times> Conn) option" where
  "ob_Read ob len c =
     map_option (\<lambda>((res, e), c). ((take len res, if length res < len then Some IoEOF else map_option LoErr e), c))
       (CallFn (lo_fp (ob_lo ob)) ''loread'' [fpIntArg (ob_fd ob), fpIntArg (word_of_nat len)] c)"

definition widen32 :: "((32 word \<times> pgx_error option) \<times> Conn) option \<Rightarrow> ((64 word \<times> pgx_error option) \<times> Conn) option" where
  "widen32 r = map_option (\<lambda>((n, e), c). ((scast n, e), c)) r"

definition ob_Seek :: "LargeObject \<Rightarrow> 64 word \<Rightarrow> 64 word \<Rightarrow> Conn \<Rightarrow> ((64 word \<times> pgx_error option) \<times> Conn) option" where
  "ob_Seek ob offset whence c =
     (if lo_Has64 (ob_lo ob) then
        fpInt64 (CallFn (lo_fp (ob_lo ob)) ''lo_lseek64'' [fpIntArg (ob_fd ob), fpInt64Arg offset, fpIntArg (ucast whence)] c)
      else
        widen32 (fpInt32 (CallFn (lo_fp (ob_lo ob)) ''lo_lseek'' [fpIntArg (ob_fd ob), fpIntArg (ucast offset), fpIntArg (ucast whence)] c)))"

definition ob_Tell :: "LargeObject \<Rightarrow> Conn \<Rightarrow> ((64 word \<times> pgx_error option) \<times> Conn) option" where
  "ob_Tell ob c =
     (if lo_Has64 (ob_lo ob) then fpInt64 (CallFn (lo_fp (ob_lo ob)) ''lo_tell64'' [fpIntArg (ob_fd ob)] c)
      else widen32 (fpInt32 (CallFn (lo_fp (ob_lo ob)) ''lo_tell'' [fpIntArg (ob_fd ob)] c)))"

definition ob_Truncate :: "LargeObject \<Rightarrow> 64 word \<Rightarrow> Conn \<Rightarrow> (pgx_error option \<times> Conn) option" where
  "ob_Truncate ob sz c =
     (if lo_Has64 (ob_lo ob) then error_of (CallFn (lo_fp (ob_lo ob)) ''lo_truncate64'' [fpIntArg (ob_fd ob), fpInt64Arg sz] c)
      else error_of (CallFn (lo_fp (ob_lo ob)) ''lo_truncate'' [fpIntArg (ob_fd ob), fpIntArg (ucast sz)] c))"

definition ob_Close :: "LargeObject \<Rightarrow> Conn \<Rightarrow> (pgx_error option \<times> Conn) option" where
  "ob_Close ob c = error_of (CallFn (lo_fp (ob_lo ob)) ''lo_close'' [fpIntArg (ob_fd ob)] c)"


section \<open>Calls and the answers of the server\<close>

text \<open>Messages the server may send at any time.\<close>

definition async_msg :: "srv_msg \<Rightarrow> bool" where
  "async_msg m = (case m of SNotice _ \<Rightarrow> True | SParameterStatus _ _ \<Rightarrow> True | _ \<Rightarrow> False)"

definition call_answer :: "bytes \<Rightarrow> bytes" where
  "call_answer data = frame (functionCallResponse, be32 (word_of_nat (length data)) @ data)"

lemma Call_loop_other:
  assumes "msg_ok m" and "async_msg m" and "conn_at c left (frame (srv_frame m) @ rest)"
  shows "\<exists>c' left'. Call_loop res c = Call_loop res c' \<and> conn_at c' left' rest \<and> keeps c c' \<and> stat_of c' = stat_of c"
proof -
  obtain t body where f: "srv_frame m = (t, body)" by (cases "srv_frame m")
  have t: "t \<noteq> functionCallResponse" "t \<noteq> readyForQuery"
    using assms(2) f by (auto simp: async_msg_def functionCallResponse_def msg_types msg_type_distinct split: srv_msg.splits)
  obtain c1 where c1: "conn_rxMsg c = ((t, None), c1)" "conn_at c1 body rest" "keeps c c1"
    using conn_rxMsg_at [of c left t body rest] assms(1,3) f by (auto simp: msg_ok.simps)
  obtain c2 left2 where c2: "processContextFreeMsg t c1 = (None, c2)" "conn_at c2 left2 rest" "keeps c1 c2"
    using processContextFreeMsg_at [OF assms(1) _ f c1(2)] assms(2) by (auto simp: async_msg_def split: srv_msg.splits)
  have "stat_of c2 = stat_of c"
    using stat_of_processContextFreeMsg [of t c1] stat_of_rx(2) [of c] c1(1) c2(1) by simp
  moreover have "Call_loop res c = Call_loop res c2" using c1(1) c2(1) t by (subst Call_loop.simps) simp
  ultimately show ?thesis using c1(3) c2(2,3) keeps_trans by blast
qed

lemma Call_loop_error:
  assumes "msg_ok (SError fs)" "\<not> fatal_msg (SError fs)" and "conn_at c left (frame (srv_frame (SError fs)) @ rest)"
  shows "\<exists>c'. Call_loop res c = Some (([], Some (PgErr (pg_error fs))), c') \<and> conn_at c' [] rest \<and> keeps c c' \<and> stat_of c' = stat_of c"
proof -
  obtain c1 where c1: "conn_rxMsg c = ((errorResponse, None), c1)" "conn_at c1 (error_bytes fs) rest" "keeps c c1"
    using conn_rxMsg_at [of c left errorResponse "error_bytes fs" rest] assms(1,3) by (auto simp: msg_ok.simps)
  obtain c2 where c2: "rxErrorResponse c1 = (pg_error fs, c2)" "keeps c1 c2" "conn_at c2 [] rest"
    using rxErrorResponse_at [OF _ c1(2)] assms(1,2) by (auto simp: msg_ok.simps)
  have "stat_of c2 = stat_of c" using stat_of_rx(2) [of c] stat_of_rx(6) [of c1] c1(1) c2(1) by simp
  moreover have "Call_loop res c = Some (([], Some (PgErr (pg_error fs))), c2)"
    using c1(1) c2(1)
    by (subst Call_loop.simps) (simp add: processContextFreeMsg_def functionCallResponse_def msg_types msg_type_distinct)
  ultimately show ?thesis using c1(3) c2(2,3) keeps_trans by blast
qed

lemma Call_loop_async:
  "list_all (\<lambda>m. msg_ok m \<and> async_msg m) ms \<Longrightarrow> conn_at c left (srv_bytes ms @ rest) \<Longrightarrow>
   \<exists>c' left'. Call_loop res c = Call_loop res c' \<and> conn_at c' left' rest \<and> keeps c c' \<and> stat_of c' = stat_of c"
proof (induction ms arbitrary: c left)
  case (Cons m ms)
  then have m: "msg_ok m" "async_msg m" "conn_at c left (frame (srv_frame m) @ srv_bytes ms @ rest)"
    by (auto simp: srv_bytes_def)
  obtain c1 left1 where "Call_loop res c = Call_loop res c1" "conn_at c1 left1 (srv_bytes ms @ rest)" "keeps c c1" "stat_of c1 = stat_of c"
    using Call_loop_other [OF m, of res] by blast
  with Cons.IH [of c1 left1] Cons.prems(1) keeps_trans show ?case by fastforce
qed (auto simp: srv_bytes_def)

lemma Call_loop_data:
  assumes "conn_at c left (call_answer data @ rest)" and "length data + 8 < 2 ^ 31"
  shows "\<exists>c'. Call_loop res c = Call_loop data c' \<and> conn_at c' [] rest \<and> keeps c c' \<and> stat_of c' = stat_of c"
proof -
  obtain c1 where c1: "conn_rxMsg c = ((functionCallResponse, None), c1)" "conn_at c1 (be32 (word_of_nat (length data)) @ data) rest" "keeps c c1"
    using conn_rxMsg_at [of c left functionCallResponse "be32 (word_of_nat (length data)) @ data" rest] assms by (auto simp: call_answer_def be32_def)
  obtain r where r: "readInt32 (c_mr c1) = (word_of_nat (length data), r)" "mr_at r (data @ []) rest"
    using readInt32_at [of "c_mr c1" "word_of_nat (length data)" data rest] c1(2) by (auto simp: conn_at_def)
  obtain r' where r': "readBytes (word_of_nat (length data)) r = Some (data, r')" "mr_at r' [] rest"
    using readBytes_at [OF r(2) refl] by blast
  have "Call_loop res c = Call_loop data (c1\<lparr>c_mr := r'\<rparr>)"
    using c1(1) r(1) r'(1) by (subst Call_loop.simps) (simp add: rxFunctionCallResponse_def)
  moreover have "stat_of c1 = stat_of c" using stat_of_rx(2) [of c] c1(1) by simp
  ultimately show ?thesis using c1(2,3) r'(2) by (intro exI [of _ "c1\<lparr>c_mr := r'\<rparr>"]) (simp add: conn_at_def keeps_def)
qed

lemma Call_loop_ready:
  assumes "conn_at c left (ready_bytes st @ rest)"
  shows "\<exists>c'. Call_loop res c = Some ((res, None), c') \<and> conn_at c' [] rest \<and> keeps c c' \<and> stat_of c' = stat_of c \<and> c_TxStatus c' = st"
proof -
  obtain c1 where c1: "conn_rxMsg c = ((readyForQuery, None), c1)" "conn_at c1 [st] rest" "keeps c c1"
    using conn_rxMsg_at [of c left readyForQuery "[st]" rest] assms by (auto simp: ready_bytes_def)
  then have "Call_loop res c = Some ((res, None), rxReadyForQuery c1)"
    by (subst Call_loop.simps) (simp add: functionCallResponse_def msg_types msg_type_distinct)
  moreover have "stat_of c1 = stat_of c" using stat_of_rx(2) [of c] c1(1) by simp
  ultimately show ?thesis using rxReadyForQuery_at [OF c1(2)] c1(3) keeps_trans by fastforce
qed

text \<open>What a call does to the connection before it reads the answer.\<close>

lemma fp_Call_idle:
  assumes "conn_idle c input"
  shows "fp_Call oid args c = Call_loop [] (c\<lparr>c_out := c_out c @ call_msg oid args\<rparr>)" "conn_at (c\<lparr>c_out := out'\<rparr>) [] input"
    "stat_of (c\<lparr>c_out := out'\<rparr>) = stat_of c"
  using assms by (simp_all add: fp_Call_def conn_write_def conn_idle_def conn_at_def stat_of_def)

lemma conn_idle_after:
  assumes "conn_idle c input" "conn_at c' [] rest" "keeps (c\<lparr>c_out := out'\<rparr>) c'" "stat_of c' = stat_of c"
  shows "conn_idle c' rest"
  using assms by (simp add: conn_idle_def keeps_def stat_of_def)

lemma fp_Call_answered:
  assumes idle: "conn_idle c (srv_bytes ms @ call_answer data @ srv_bytes ms' @ ready_bytes st @ rest)"
    and ms: "list_all (\<lambda>m. msg_ok m \<and> async_msg m) ms" "list_all (\<lambda>m. msg_ok m \<and> async_msg m) ms'" and len: "length data + 8 < 2 ^ 31"
  shows "\<exists>c'. fp_Call oid args c = Some ((data, None), c') \<and> conn_idle c' rest \<and> c_TxStatus c' = st \<and> c_out c' = c_out c @ call_msg oid args"
proof -
  note call = fp_Call_idle [OF idle]
  let ?c = "c\<lparr>c_out := c_out c @ call_msg oid args\<rparr>"
  obtain c1 left1 where c1: "fp_Call oid args c = Call_loop [] c1" "conn_at c1 left1 (call_answer data @ srv_bytes ms' @ ready_bytes st @ rest)"
    "keeps ?c c1" "stat_of c1 = stat_of c"
    using Call_loop_async [OF ms(1) call(2) [of "c_out c @ call_msg oid args"], of "[]"] call(1,3) by auto
  obtain c2 where c2: "Call_loop [] c1 = Call_loop data c2" "conn_at c2 [] (srv_bytes ms' @ ready_bytes st @ rest)" "keeps c1 c2" "stat_of c2 = stat_of c1"
    using Call_loop_data [OF c1(2) len] by blast
  obtain c3 left3 where c3: "Call_loop data c2 = Call_loop data c3" "conn_at c3 left3 (ready_bytes st @ rest)" "keeps c2 c3" "stat_of c3 = stat_of c2"
    using Call_loop_async [OF ms(2) c2(2)] by blast
  obtain c4 where c4: "Call_loop data c3 = Some ((data, None), c4)" "conn_at c4 [] rest" "keeps c3 c4" "stat_of c4 = stat_of c3" "c_TxStatus c4 = st"
    using Call_loop_ready [OF c3(2)] by blast
  have "keeps ?c c4" using c1(3) c2(3) c3(3) c4(3) keeps_trans by blast
  then have "conn_idle c4 rest" "c_out c4 = c_out c @ call_msg oid args"
    using conn_idle_after [OF idle c4(2)] c1(4) c2(4) c3(4) c4(4) by (simp_all add: keeps_def)
  with c1(1) c2(1) c3(1) c4(1,5) show ?thesis by simp
qed

lemma fp_Call_refused:
  assumes idle: "conn_idle c (srv_bytes (ms @ [SError fs]) @ rest)"
    and ms: "list_all (\<lambda>m. msg_ok m \<and> async_msg m) ms" and fs: "msg_ok (SError fs)" "\<not> fatal_msg (SError fs)"
  shows "\<exists>c'. fp_Call oid args c = Some (([], Some (PgErr (pg_error fs))), c') \<and> conn_idle c' rest"
proof -
  have idle': "conn_idle c (srv_bytes ms @ frame (srv_frame (SError fs)) @ rest)" using idle by (simp add: srv_bytes_def)
  note call = fp_Call_idle [OF idle']
  let ?c = "c\<lparr>c_out := c_out c @ call_msg oid args\<rparr>"
  obtain c1 left1 where c1: "fp_Call oid args c = Call_loop [] c1" "conn_at c1 left1 (frame (srv_frame (SError fs)) @ rest)" "keeps ?c c1" "stat_of c1 = stat_of c"
    using Call_loop_async [OF ms call(2) [of "c_out c @ call_msg oid args"], of "[]"] call(1,3) by auto
  obtain c2 where c2: "Call_loop [] c1 = Some (([], Some (PgErr (pg_error fs))), c2)" "conn_at c2 [] rest" "keeps c1 c2" "stat_of c2 = stat_of c1"
    using Call_loop_error [OF fs c1(2), of "[]"] by blast
  have "keeps ?c c2" using c1(3) c2(3) keeps_trans by blast
  then have "conn_idle c2 rest" using conn_idle_after [OF idle c2(2)] c1(4) c2(4) by simp
  with c1(1) c2(1) show ?thesis by simp
qed


text \<open>The message of a call on the wire.\<close>

definition call_body :: "Oid \<Rightarrow> fpArg list \<Rightarrow> bytes" where
  "call_body oid args = be32 oid @ be16 1 @ be16 1 @ be16 (word_of_nat (length args)) @
     concat (map (\<lambda>arg. be32 (word_of_nat (length arg)) @ arg) args) @ be16 1"

lemma wb_rep_args:
  "wb_rep w fin t body \<Longrightarrow> wb_rep (fold (\<lambda>arg w. WriteBytes arg (WriteInt32 (word_of_nat (length arg)) w)) args w) fin t
     (body @ concat (map (\<lambda>arg. be32 (word_of_nat (length arg)) @ arg) args))"
proof (induction args arbitrary: w body)
  case (Cons arg args)
  have "wb_rep (WriteBytes arg (WriteInt32 (word_of_nat (length arg)) w)) fin t ((body @ be32 (word_of_nat (length arg))) @ arg)"
    unfolding WriteBytes_def WriteInt32_def by (intro wb_rep_append Cons.prems)
  from Cons.IH [OF this] show ?case by simp
qed simp

lemma call_msg_frame: "call_msg oid args = frame (byte_of_char CHR ''F'', call_body oid args)"
proof -
  let ?w = "WriteInt16 (word_of_nat (length args)) (WriteInt16 1 (WriteInt16 1 (WriteInt32 oid (newWriteBuf (byte_of_char CHR ''F'')))))"
  have "wb_rep ?w [] (byte_of_char CHR ''F'') (((([] @ be32 oid) @ be16 1) @ be16 1) @ be16 (word_of_nat (length args)))"
    unfolding WriteInt16_def WriteInt32_def by (intro wb_rep_append wb_rep_new)
  from closeMsg_buf(1) [OF wb_rep_append [OF wb_rep_args [OF this], of "be16 1"]] show ?thesis
    by (simp add: call_msg_def call_body_def Let_def WriteInt16_def)
qed

section \<open>Properties\<close>

text \<open>
  One call writes one message with the function and the sized arguments, and reads the result and the final message of the answer,
  whatever notices and parameter changes come between; the connection is ready for the next statement. A \<open>Read\<close> over it returns the
  bytes of the server, with \<open>io.EOF\<close> exactly when they do not fill the buffer.
\<close>

theorem large_object_read:
  assumes "conn_idle c (srv_bytes ms @ call_answer data @ srv_bytes ms' @ ready_bytes st @ rest)"
    and "list_all (\<lambda>m. msg_ok m \<and> async_msg m) ms" "list_all (\<lambda>m. msg_ok m \<and> async_msg m) ms'" and "length data + 8 < 2 ^ 31" "length data \<le> n"
  shows "\<exists>c'. ob_Read ob n c = Some ((data, if length data < n then Some IoEOF else None), c') \<and> conn_idle c' rest \<and> c_TxStatus c' = st \<and>
    c_out c' = c_out c @ frame (byte_of_char CHR ''F'',
      call_body (functionOID (lo_fp (ob_lo ob)) ''loread'') [be32 (ob_fd ob), be32 (word_of_nat n)])"
proof -
  obtain c' where "CallFn (lo_fp (ob_lo ob)) ''loread'' [fpIntArg (ob_fd ob), fpIntArg (word_of_nat n)] c = Some ((data, None), c')"
    "conn_idle c' rest" "c_TxStatus c' = st"
    "c_out c' = c_out c @ frame (byte_of_char CHR ''F'', call_body (functionOID (lo_fp (ob_lo ob)) ''loread'') [be32 (ob_fd ob), be32 (word_of_nat n)])"
    using fp_Call_answered [OF assms(1-4), of "functionOID (lo_fp (ob_lo ob)) ''loread''"] by (auto simp: CallFn_def fpIntArg_def call_msg_frame)
  with assms(5) show ?thesis by (simp add: ob_Read_def)
qed

text \<open>
  C24: when the server refuses a call, the call returns the error but leaves the final message of the answer unread. The \<open>Commit\<close> of the
  transaction then reads that message as its own answer: it returns no error, whatever the server answers to \<open>commit\<close>, and that answer
  is read by the next statement on the connection as the answer to it.
\<close>

theorem refused_call_desynchronises:
  assumes tx: "tx_status tx = 0" "tx_err tx = None" "tx_afterClose tx = None"
    and idle: "conn_idle (conn_in st (tx_conn tx)) (srv_bytes (ms @ [SError fs]) @ ready_bytes s1 @ srv_bytes cs @ ready_bytes s2 @ rest)"
    and ms: "list_all (\<lambda>m. msg_ok m \<and> async_msg m) ms" and fs: "msg_ok (SError fs)" "\<not> fatal_msg (SError fs)"
    and cs: "list_all (\<lambda>m. msg_ok m \<and> \<not> fatal_msg m) cs" and sql: "sql \<noteq> []"
  shows "\<exists>c1 tx' st' c2. fp_Call oid args (conn_in st (tx_conn tx)) = Some (([], Some (PgErr (pg_error fs))), c1) \<and>
    Commit sc tx (set_conn (tx_conn tx) c1 st) = Some (None, tx', st') \<and> tx_status tx' = - 1 \<and>
    conn_Exec sc sql [] (conn_in st' (tx_conn tx)) = Some (exec_spec [] None cs, c2) \<and> conn_idle c2 rest"
proof -
  obtain c1 where c1: "fp_Call oid args (conn_in st (tx_conn tx)) = Some (([], Some (PgErr (pg_error fs))), c1)"
    "conn_idle c1 (ready_bytes s1 @ srv_bytes cs @ ready_bytes s2 @ rest)"
    using fp_Call_refused [OF idle ms fs] by blast
  then have "conn_idle c1 (srv_bytes [] @ ready_bytes s1 @ srv_bytes cs @ ready_bytes s2 @ rest)" by (simp add: srv_bytes_def)
  then obtain d where d: "conn_Exec sc ''commit'' [] c1 = Some (([], None), d)" "conn_idle d (srv_bytes cs @ ready_bytes s2 @ rest)"
    using Exec_simple [of c1 "[]" s1 _ "''commit''" sc] by auto
  obtain c2 where "conn_Exec sc sql [] d = Some (exec_spec [] None cs, c2)" "conn_idle c2 rest"
    using Exec_simple [OF d(2) sql cs] by blast
  with c1(1) d(1) tx show ?thesis by (simp add: Commit_def tx_closed_def Let_def)
qed

text \<open>A \<open>Read\<close> that the server refuses looks like the end of the object.\<close>

theorem refused_read_is_EOF:
  assumes "conn_idle c (srv_bytes (ms @ [SError fs]) @ rest)" and "list_all (\<lambda>m. msg_ok m \<and> async_msg m) ms"
    and "msg_ok (SError fs)" "\<not> fatal_msg (SError fs)" and "0 < n"
  shows "\<exists>c'. ob_Read ob n c = Some (([], Some IoEOF), c')"
proof -
  obtain c' where "CallFn (lo_fp (ob_lo ob)) ''loread'' [fpIntArg (ob_fd ob), fpIntArg (word_of_nat n)] c = Some (([], Some (PgErr (pg_error fs))), c')"
    using fp_Call_refused [OF assms(1-4)] by (auto simp: CallFn_def)
  with assms(5) show ?thesis by (simp add: ob_Read_def)
qed

text \<open>With a server that has no 64-bit functions, offsets and sizes that differ by 4 GB are the same.\<close>

theorem offsets_are_cut:
  assumes "\<not> lo_Has64 (ob_lo ob)"
  shows "ob_Seek ob (offset + 0x100000000) whence c = ob_Seek ob offset whence c"
    and "ob_Truncate ob (sz + 0x100000000) c = ob_Truncate ob sz c"
proof -
  have "ucast (w + 0x100000000 :: 64 word) = (ucast w :: 32 word)" for w
    by transfer (simp add: take_bit_eq_mod mod_mod_cancel)
  with assms show "ob_Seek ob (offset + 0x100000000) whence c = ob_Seek ob offset whence c"
    and "ob_Truncate ob (sz + 0x100000000) c = ob_Truncate ob sz c"
    by (simp_all add: ob_Seek_def ob_Truncate_def)
qed


section \<open>Witnesses\<close>

text \<open>An error of the server, the refusal of a commit, and a connection on which they arrive.\<close>

definition demo_error :: srv_msg where
  "demo_error = SError [(CHR ''S'', ''ERROR''), (CHR ''C'', ''42704'')]"

definition demo_idle :: "bytes \<Rightarrow> Conn" where
  "demo_idle input = conn_in (demo_store input) 0"

lemma demo_messages:
  "msg_ok demo_error" "\<not> fatal_msg demo_error" "msg_ok (SNotice [])" "async_msg (SNotice [])" "msg_ok (SCommandComplete ''ROLLBACK'')"
  by (simp_all add: demo_error_def msg_ok.simps error_bytes_def bytes_of_string_def pg_error_def error_field_def zero_PgError_def async_msg_def)

theorem large_object_read_witness:
  "\<exists>c'. ob_Read \<lparr>ob_fd = 0, ob_lo = \<lparr>lo_Has64 = True, lo_fp = newFastpath\<rparr>\<rparr> 4
     (demo_idle (srv_bytes [SNotice []] @ call_answer [1, 2] @ srv_bytes [] @ ready_bytes 84 @ [])) = Some (([1, 2], Some IoEOF), c')"
  using large_object_read [of "demo_idle (srv_bytes [SNotice []] @ call_answer [1, 2] @ srv_bytes [] @ ready_bytes 84 @ [])"
      "[SNotice []]" "[1, 2]" "[]" 84 "[]" 4 "\<lparr>ob_fd = 0, ob_lo = \<lparr>lo_Has64 = True, lo_fp = newFastpath\<rparr>\<rparr>"]
    demo_store_idle(1) demo_messages by (auto simp: demo_idle_def)

theorem refused_call_desynchronises_witness:
  "let tx = \<lparr>tx_conn = 0, tx_afterClose = None, tx_err = None, tx_status = 0\<rparr>;
       st = demo_store (srv_bytes ([] @ [demo_error]) @ ready_bytes 69 @ srv_bytes [SCommandComplete ''ROLLBACK''] @ ready_bytes 73 @ [])
   in \<exists>e c1 tx' st' c2. fp_Call 0 [] (conn_in st 0) = Some (([], Some e), c1) \<and> Commit int_strconv tx (set_conn 0 c1 st) = Some (None, tx', st') \<and>
        conn_Exec int_strconv ''select 1'' [] (conn_in st' 0) = Some ((''ROLLBACK'', None), c2)"
proof -
  let ?input = "srv_bytes ([] @ [demo_error]) @ ready_bytes 69 @ srv_bytes [SCommandComplete ''ROLLBACK''] @ ready_bytes 73 @ []"
  obtain fs where fs: "demo_error = SError fs" by (simp add: demo_error_def)
  have "\<not> fatal_msg (SCommandComplete ''ROLLBACK'')" by simp
  then show ?thesis
    using refused_call_desynchronises [of "\<lparr>tx_conn = 0, tx_afterClose = None, tx_err = None, tx_status = 0\<rparr>" "demo_store ?input" "[]" fs
        69 "[SCommandComplete ''ROLLBACK'']" 73 "[]" "''select 1''" 0 "[]" int_strconv]
      demo_store_idle(1) [of ?input 0] demo_messages(1,2,5) fs by (auto simp: Let_def)
qed

end
