(* ===== verification/Pgx_Connected.thy ===== *)
theory Pgx_Connected
  imports Pgx_Connect
begin

text \<open>
  What a connection has when \<open>connect\<close> has made it. Against a server that follows the protocol the new connection is
  idle, knows the types of the server with the formats the program asks for, and so satisfies what the engine
  relies on (\<open>conn_idle\<close>). A configuration that requires TLS writes nothing but the request for TLS in clear. A
  connection that falls back keeps the message reader of the failed attempt, which may cost it the first bytes
  of the new link.
\<close>

section \<open>A query without parameters\<close>

lemma conn_Query_columns:
  assumes at: "conn_at c [] (described_bytes [] fds st @ answer)" and nb: "\<not> c_broken c" "\<not> c_busy c" and fds: "columns_ok fds"
    and sql: "c_preparedStatements c sql = None"
  shows "\<exists>ps c1. conn_Query sc sql [] c = Some (new_rows\<lparr>ro_unlockConn := True, ro_fields := map (describe_field (c_PgTypes c)) fds\<rparr>, c1) \<and>
    conn_at c1 [] answer \<and> c_busy c1 \<and> stat_of c1 = stat_of (c\<lparr>c_preparedStatements := (c_preparedStatements c)([] \<mapsto> ps)\<rparr>)"
proof -
  let ?b = "c\<lparr>c_busy := True\<rparr>"
  let ?ps = "\<lparr>ps_Name = [], ps_SQL = sql, ps_FieldDescriptions = map (describe_field (c_PgTypes c)) fds, ps_ParameterOids = []\<rparr> :: PreparedStatement"
  have atb: "conn_at ?b [] (described_bytes [] fds st @ answer)" "\<not> c_broken ?b" using at nb by (simp_all add: conn_at_def)
  from conn_Prepare_columns [OF atb fds, of sql] obtain r out where
    p: "conn_Prepare [] sql ?b = Some ((Some ?ps, None),
       ?b\<lparr>c_out := out, c_mr := r, c_TxStatus := st, c_preparedStatements := (c_preparedStatements c)([] \<mapsto> ?ps)\<rparr>)"
    (is "_ = Some (_, ?c2)") and r: "mr_at r [] answer"
    by (auto simp: Let_def)
  obtain out' where s: "sendPreparedQuery sc ?ps (map VString []) ?c2 = (None, ?c2\<lparr>c_out := out'\<rparr>)"
    using sendPreparedQuery_text [of ?c2 ?ps "[]" sc] nb by auto
  have "conn_Query sc sql [] c = Some (new_rows\<lparr>ro_unlockConn := True, ro_fields := map (describe_field (c_PgTypes c)) fds\<rparr>, ?c2\<lparr>c_out := out'\<rparr>)"
    using p s nb sql by (simp add: conn_Query_def conn_lock_def)
  with r at show ?thesis by (intro exI [of _ ?ps] exI [of _ "?c2\<lparr>c_out := out'\<rparr>"]) (simp add: conn_at_def stat_of_def)
qed

section \<open>Rows of several values\<close>

definition sized :: "bytes \<Rightarrow> bytes" where
  "sized b = be32 (word_of_nat (length b)) @ b"

definition data_row :: "bytes list \<Rightarrow> bytes" where
  "data_row vals = frame (dataRow, be16 (word_of_nat (length vals)) @ concat (map sized vals))"

lemma Next_data_row:
  assumes "length (ro_fields ro) = length vals" and "conn_at c left (data_row vals @ rest)"
    and "length vals < 2 ^ 15" and "length (concat (map sized vals)) < 2 ^ 31 - 6" and "\<not> ro_closed ro"
  shows "\<exists>c'. rows_Next ro c = (True, ro\<lparr>ro_rowCount := ro_rowCount ro + 1, ro_columnIdx := 0, ro_vrLen := 0\<rparr>, c') \<and>
    conn_at c' (concat (map sized vals)) rest \<and> keeps c c' \<and> stat_of c' = stat_of c"
proof -
  let ?b = "concat (map sized vals)" and ?n = "word_of_nat (length vals) :: 16 word"
  let ?ro = "ro\<lparr>ro_rowCount := ro_rowCount ro + 1, ro_columnIdx := 0, ro_vrLen := 0\<rparr>"
  obtain c1 where c1: "conn_rxMsg c = ((dataRow, None), c1)" "conn_at c1 (be16 ?n @ ?b) rest" "keeps c c1"
    using conn_rxMsg_at [of c left dataRow "be16 ?n @ ?b" rest] assms(2,4) by (auto simp: data_row_def be16_be_bytes)
  obtain r where r: "readInt16 (c_mr c1) = (?n, r)" "mr_at r ?b rest"
    using readInt16_at [of "c_mr c1" ?n ?b rest] c1(2) by (auto simp: conn_at_def)
  have "sint (word_of_int (int (length vals)) :: 16 word) = int (length vals)"
    using assms(3) by (subst sint_sbintrunc') (simp add: signed_take_bit_int_eq_self)
  then have n: "sint ?n = int (length vals)" by simp
  have "Next_loop ?ro c = (True, ?ro, c1\<lparr>c_mr := r\<rparr>)"
    using c1(1) r(1) assms(1) n by (subst Next_loop.simps) (simp add: msg_types msg_type_distinct)
  moreover from this have "stat_of (c1\<lparr>c_mr := r\<rparr>) = stat_of c"
    using stat_of_Next_loop [of ?ro c] by simp
  ultimately show ?thesis using r(2) c1 assms(5) by (auto simp: conn_at_def keeps_def rows_Next_def)
qed

text \<open>One destination takes its column and leaves the reader before the next one.\<close>

lemma scan_column:
  assumes "\<not> ro_closed ro" and "ro_columnIdx ro < length (ro_fields ro)" and "ro_vrLen ro = 0" and "ro_err ro = None"
    and at: "conn_at c (sized b @ tail) rest"
    and dest: "\<And>vr. vr_at vr b tail rest \<Longrightarrow> vr_fd vr = ro_fields ro ! ro_columnIdx ro \<Longrightarrow>
      \<exists>vr'. dest vr st = Some ((None, st'), vr') \<and> vr_at vr' [] tail rest"
  shows "\<exists>r. scan_dests (Some dest # ds) ro c st =
      scan_dests ds (ro\<lparr>ro_columnIdx := ro_columnIdx ro + 1, ro_vrLen := 0\<rparr>) (c\<lparr>c_mr := r\<rparr>) st' \<and> mr_at r tail rest"
proof -
  let ?n = "word_of_nat (length b) :: 32 word"
  obtain r where r: "readInt32 (c_mr c) = (?n, r)" "mr_at r (b @ tail) rest"
    using readInt32_at [of "c_mr c" ?n "b @ tail" rest] at by (auto simp: conn_at_def sized_def)
  have size: "length b < 2 ^ 31"
    using r(2) sint_range_size [of "mr_remaining r"] by (simp add: mr_at_def word_size)
  let ?vr = "\<lparr>vr_mr = r, vr_fd = ro_fields ro ! ro_columnIdx ro, vr_remaining = ?n, vr_err = None\<rparr>"
  have col: "nextColumn ro c = Some (Some ?vr, ro\<lparr>ro_columnIdx := ro_columnIdx ro + 1, ro_vrLen := ?n\<rparr>, c\<lparr>c_mr := r\<rparr>)"
    using r(1) assms(1-3) by (simp add: nextColumn_def)
  have "vr_at ?vr b tail rest" using r(2) size by (simp add: vr_at_def sint_word_of_nat)
  from dest [OF this] obtain vr' where vr': "dest ?vr st = Some ((None, st'), vr')" "vr_at vr' [] tail rest" by auto
  then have "sint (vr_remaining vr') = sint (0 :: 32 word)" by (simp add: vr_at_def)
  then have "vr_remaining vr' = 0" by (rule signed_word_eqI)
  moreover from vr'(2) have "vr_err vr' = None" "mr_at (vr_mr vr') tail rest"
    by (simp_all add: vr_at_def)
  ultimately show ?thesis using col vr'(1) assms(4) by (intro exI [of _ "vr_mr vr'"]) (simp add: Let_def)
qed

lemma vr_ReadString_all: "vr_at vr b tail rest \<Longrightarrow> \<exists>vr'. vr_ReadString (vr_Len vr) vr = Some (string_of_bytes b, vr') \<and> vr_at vr' [] tail rest"
  using vr_ReadString_at [of vr b "[]" tail rest] vr_at_Len [of vr b tail rest] by auto

lemma vr_ReadBytes_all: "vr_at vr b tail rest \<Longrightarrow> \<exists>vr'. vr_ReadBytes (vr_Len vr) vr = Some (b, vr') \<and> vr_at vr' [] tail rest"
  using vr_ReadBytes_at [of vr b "[]" tail rest] vr_at_Len [of vr b tail rest] by auto

lemma vr_Len_nonneg: "vr_at vr b tail rest \<Longrightarrow> vr_Len vr \<noteq> - 1"
  by (auto simp: vr_at_def vr_Len_def)

section \<open>The table of types\<close>

lemma digits_grow: "m \<le> foldl (\<lambda>v c. 10 * v + (code c - 48)) m s"
proof (induction s arbitrary: m)
  case (Cons c s)
  from Cons [of "10 * m + (code c - 48)"] show ?case by simp
qed simp

lemma ParseUint32_loop_digits:
  "list_all is_digit s \<Longrightarrow> foldl (\<lambda>v c. 10 * v + (code c - 48)) m s \<le> 2 ^ 32 - 1 \<Longrightarrow>
   ParseUint32_loop m s = Some (foldl (\<lambda>v c. 10 * v + (code c - 48)) m s)"
proof (induction s arbitrary: m)
  case (Cons c s)
  have "10 * m + (code c - 48) \<le> 2 ^ 32 - 1"
    using digits_grow [of "10 * m + (code c - 48)" s] Cons.prems(2) by simp
  with Cons show ?case by (simp add: Let_def)
qed simp

lemma ParseInt32_itoa: "n < 2 ^ 31 \<Longrightarrow> ParseInt32 (itoa n) = (word_of_nat n, True)"
proof -
  assume n: "n < 2 ^ 31"
  have d: "list_all is_digit (itoa n)" by (rule itoa_digits)
  then have h: "is_digit (hd (itoa n))" by (cases "itoa n") auto
  have "hd (itoa n) \<noteq> CHR ''-''" "hd (itoa n) \<noteq> CHR ''+''" using h by (auto simp: is_digit_def)
  moreover have "ParseUint32_loop 0 (itoa n) = Some n"
    using ParseUint32_loop_digits [OF d, of 0] digits_value_itoa [of n] n by (simp add: digits_value_def)
  ultimately show ?thesis using n by (simp add: ParseInt32_def Let_def)
qed

text \<open>The two columns of the answer, and a row: the number of the type in decimal digits, its name.\<close>

definition type_columns :: "FieldDescription list" where
  "type_columns =
     [\<lparr>fd_Name = ''oid'', fd_Table = 1247, fd_AttributeNumber = - 2, fd_DataType = OidOid, fd_DataTypeSize = 4,
       fd_DataTypeName = [], fd_Modifier = - 1, fd_FormatCode = 0\<rparr>,
      \<lparr>fd_Name = ''typname'', fd_Table = 1247, fd_AttributeNumber = 1, fd_DataType = 19, fd_DataTypeSize = 64,
       fd_DataTypeName = [], fd_Modifier = - 1, fd_FormatCode = 0\<rparr>]"

definition type_row :: "Oid \<times> string \<Rightarrow> bytes" where
  "type_row t = data_row [bytes_of_string (itoa (unat (fst t))), bytes_of_string (snd t)]"

definition type_ok :: "Oid \<times> string \<Rightarrow> bool" where
  "type_ok t \<longleftrightarrow> unat (fst t) < 2 ^ 31 \<and> length (snd t) < 2 ^ 16"

definition put_type :: "(string \<rightharpoonup> 16 word) \<Rightarrow> Oid \<times> string \<Rightarrow> (Oid \<rightharpoonup> PgType) \<Rightarrow> (Oid \<rightharpoonup> PgType)" where
  "put_type formats t types =
     types(fst t \<mapsto> \<lparr>pt_Name = snd t, pt_DefaultFormat = (case formats (snd t) of Some f \<Rightarrow> f | None \<Rightarrow> 0)\<rparr>)"

definition types_bytes :: "(Oid \<times> string) list \<Rightarrow> string \<Rightarrow> byte \<Rightarrow> bytes" where
  "types_bytes ts tag st = concat (map type_row ts) @ srv_bytes [SCommandComplete tag] @ ready_bytes st"

lemma oid_dest_at:
  assumes "vr_at vr (bytes_of_string (itoa (unat oid))) tail rest" and "vr_fd vr = type_columns ! 0" and "unat oid < 2 ^ 31"
  shows "\<exists>vr'. oid_dest vr (m, s) = Some ((None, oid, s), vr') \<and> vr_at vr' [] tail rest"
  using vr_ReadString_all [OF assms(1)] vr_Len_nonneg [OF assms(1)] assms(2) ParseInt32_itoa [OF assms(3)]
  by (auto simp: oid_dest_def value_dest_def decodeOid_def type_columns_def OidOid_def JsonOid_def JsonbOid_def TextFormatCode_def)

lemma name_dest_at:
  assumes "vr_at vr (bytes_of_string name) tail rest" and "vr_fd vr = type_columns ! 1"
  shows "\<exists>vr'. name_dest vr (oid, s) = Some ((None, oid, name), vr') \<and> vr_at vr' [] tail rest"
  using vr_ReadString_all [OF assms(1)] vr_Len_nonneg [OF assms(1)] assms(2)
  by (auto simp: name_dest_def value_dest_def decodeText_def type_columns_def JsonOid_def JsonbOid_def)

lemma length_itoa: "n < 10 ^ Suc k \<Longrightarrow> length (itoa n) \<le> Suc k"
proof (induction k arbitrary: n)
  case (Suc k)
  then show ?case
    using Suc.IH [of "n div 10"] by (subst itoa.simps) (auto simp: less_mult_imp_div_less)
qed (subst itoa.simps, simp)

lemma scan_type_row:
  assumes "conn_at c (concat (map sized [bytes_of_string (itoa (unat oid)), bytes_of_string name])) rest" and "unat oid < 2 ^ 31"
    and ro: "ro_fields ro = type_columns" "\<not> ro_closed ro" "ro_columnIdx ro = 0" "ro_vrLen ro = 0" "ro_err ro = None"
  shows "\<exists>r. rows_Scan_all [Some oid_dest, Some name_dest] ro c (0, []) =
      Some ((oid, name), ro\<lparr>ro_columnIdx := 2, ro_vrLen := 0\<rparr>, c\<lparr>c_mr := r\<rparr>) \<and> mr_at r [] rest"
proof -
  let ?b = "bytes_of_string (itoa (unat oid))" and ?n = "bytes_of_string name"
  let ?ro1 = "ro\<lparr>ro_columnIdx := ro_columnIdx ro + 1, ro_vrLen := 0\<rparr>"
  have two: "length type_columns = 2" by (simp add: type_columns_def)
  have at: "conn_at c (sized ?b @ sized ?n) rest" using assms(1) by simp
  from scan_column [OF ro(2) _ ro(4,5) at, where dest = oid_dest and st' = "(oid, [])" and st = "(0, [])" and ds = "[Some name_dest]"]
    oid_dest_at [OF _ _ assms(2)] ro two
  obtain r1 where r1: "scan_dests [Some oid_dest, Some name_dest] ro c (0, []) = scan_dests [Some name_dest] ?ro1 (c\<lparr>c_mr := r1\<rparr>) (oid, [])"
    "mr_at r1 (sized ?n) rest" by auto
  have at1: "conn_at (c\<lparr>c_mr := r1\<rparr>) (sized ?n @ []) rest" using r1(2) at by (simp add: conn_at_def)
  from scan_column [OF _ _ _ _ at1, where dest = name_dest and st' = "(oid, name)" and st = "(oid, [])" and ds = "[]" and ro = ?ro1]
    name_dest_at ro two
  obtain r2 where r2: "scan_dests [Some name_dest] ?ro1 (c\<lparr>c_mr := r1\<rparr>) (oid, []) =
      scan_dests [] (?ro1\<lparr>ro_columnIdx := ro_columnIdx ?ro1 + 1, ro_vrLen := 0\<rparr>) (c\<lparr>c_mr := r1, c_mr := r2\<rparr>) (oid, name)" "mr_at r2 [] rest"
    by auto
  have "scan_dests [Some oid_dest, Some name_dest] ro c (0, []) = Some ((oid, name), ro\<lparr>ro_columnIdx := 2, ro_vrLen := 0\<rparr>, c\<lparr>c_mr := r2\<rparr>)"
    unfolding r1(1) r2(1) using ro(3) by (simp add: numeral_2_eq_2)
  with r2(2) ro(1) two show ?thesis by (auto simp: rows_Scan_all_def)
qed

lemma frame_step:
  assumes "conn_at c left (frame (t, body) @ rest)" and "length body + 4 < 2 ^ 31"
  shows "\<exists>r. conn_rxMsg c = ((t, None), c\<lparr>c_mr := r\<rparr>) \<and> conn_at (c\<lparr>c_mr := r\<rparr>) body rest"
  using conn_rxMsg_mr [OF assms] assms(1) by (auto simp: conn_at_def)

lemma Next_skip:
  assumes "conn_at c left (frame (t, body) @ rest)" and "length body + 4 < 2 ^ 31" and "t = bindComplete \<or> t = commandComplete"
    and "\<not> ro_closed ro"
  shows "\<exists>r. rows_Next ro c = rows_Next ro (c\<lparr>c_mr := r\<rparr>) \<and> conn_at (c\<lparr>c_mr := r\<rparr>) body rest"
proof -
  obtain r where r: "conn_rxMsg c = ((t, None), c\<lparr>c_mr := r\<rparr>)" "conn_at (c\<lparr>c_mr := r\<rparr>) body rest"
    using frame_step [OF assms(1,2)] by blast
  have "Next_loop ro' c = Next_loop ro' (c\<lparr>c_mr := r\<rparr>)" for ro'
    using r(1) assms(3) by (subst Next_loop.simps) (auto simp: msg_types msg_type_distinct)
  with r(2) assms(4) show ?thesis by (auto simp: rows_Next_def)
qed

lemma Next_ready:
  assumes "conn_at c left (ready_bytes st @ rest)" and "\<not> ro_closed ro" "ro_unlockConn ro" "c_busy c" "ro_err ro = None"
  shows "\<exists>ro' c'. rows_Next ro c = (False, ro', c') \<and> ro_err ro' = None \<and> ro_closed ro' \<and> conn_at c' [] rest \<and> \<not> c_busy c' \<and>
    c_TxStatus c' = st \<and> stat_of c' = stat_of c"
proof -
  obtain r where r: "conn_rxMsg c = ((readyForQuery, None), c\<lparr>c_mr := r\<rparr>)" "conn_at (c\<lparr>c_mr := r\<rparr>) [st] rest"
    using frame_step [of c left readyForQuery "[st]" rest] assms(1) by (auto simp: ready_bytes_def)
  let ?ro = "ro\<lparr>ro_rowCount := ro_rowCount ro + 1, ro_columnIdx := 0, ro_vrLen := 0\<rparr>" and ?c = "rxReadyForQuery (c\<lparr>c_mr := r\<rparr>)"
  have "rows_Next ro c = (False, rows_close ?ro ?c)"
    using r(1) assms(2) by (simp add: rows_Next_def, subst Next_loop.simps) (simp add: msg_types msg_type_distinct)
  moreover have "conn_at ?c [] rest" "keeps (c\<lparr>c_mr := r\<rparr>) ?c" "c_TxStatus ?c = st" "stat_of ?c = stat_of c"
    using rxReadyForQuery_at [OF r(2)] by simp_all
  ultimately show ?thesis
    using assms(2-5) by (simp add: rows_close_def conn_unlock_def conn_at_def keeps_def)
qed

lemma load_types_rows:
  assumes "list_all type_ok ts" and "conn_at c left (types_bytes ts tag st @ rest)" and "msg_ok (SCommandComplete tag)"
    and "ro_fields ro = type_columns" "\<not> ro_closed ro" "ro_unlockConn ro" "ro_err ro = None" "c_busy c"
  shows "\<exists>c'. load_types_loop formats ro c = Some (None, c') \<and> conn_at c' [] rest \<and> \<not> c_busy c' \<and> c_TxStatus c' = st \<and>
    stat_of c' = stat_of (c\<lparr>c_PgTypes := fold (put_type formats) ts (c_PgTypes c)\<rparr>)"
  using assms
proof (induction ts arbitrary: ro c left)
  case Nil
  let ?b = "bytes_of_string tag @ [0]"
  have at: "conn_at c left (frame (commandComplete, ?b) @ ready_bytes st @ rest)"
    using Nil.prems(2) by (simp add: types_bytes_def srv_bytes_def)
  have "length ?b + 4 < 2 ^ 31" using Nil.prems(3) by (simp add: msg_ok.simps)
  from Next_skip [OF at this, of ro] Nil.prems(5) obtain r where r: "rows_Next ro c = rows_Next ro (c\<lparr>c_mr := r\<rparr>)"
    "conn_at (c\<lparr>c_mr := r\<rparr>) ?b (ready_bytes st @ rest)" by auto
  from Next_ready [OF r(2) Nil.prems(5,6) _ Nil.prems(7)] Nil.prems(8) obtain ro' c' where
    "rows_Next ro c = (False, ro', c')" "ro_err ro' = None" "conn_at c' [] rest" "\<not> c_busy c'" "c_TxStatus c' = st" "stat_of c' = stat_of c"
    unfolding r(1) by auto
  then show ?case by (subst load_types_loop.simps) (simp add: stat_of_def)
next
  case (Cons t ts)
  obtain oid name where t: "t = (oid, name)" by (cases t)
  let ?vals = "[bytes_of_string (itoa (unat oid)), bytes_of_string name]"
  have ok: "unat oid < 2 ^ 31" "length name < 2 ^ 16" using Cons.prems(1) t by (simp_all add: type_ok_def)
  have "length (itoa (unat oid)) \<le> Suc 9" using ok(1) by (intro length_itoa) simp
  then have size: "length (concat (map sized ?vals)) < 2 ^ 31 - 6" using ok(2) by (simp add: sized_def be32_be_bytes)
  have at: "conn_at c left (data_row ?vals @ types_bytes ts tag st @ rest)"
    using Cons.prems(2) by (simp add: types_bytes_def type_row_def t)
  let ?ro = "ro\<lparr>ro_rowCount := ro_rowCount ro + 1, ro_columnIdx := 0, ro_vrLen := 0\<rparr>"
  obtain c1 where c1: "rows_Next ro c = (True, ?ro, c1)" "conn_at c1 (concat (map sized ?vals)) (types_bytes ts tag st @ rest)"
    "keeps c c1" "stat_of c1 = stat_of c"
    using Next_data_row [OF _ at _ size Cons.prems(5)] Cons.prems(4) by (auto simp: type_columns_def)
  obtain r where r: "rows_Scan_all [Some oid_dest, Some name_dest] ?ro c1 (0, []) =
      Some ((oid, name), ?ro\<lparr>ro_columnIdx := 2, ro_vrLen := 0\<rparr>, c1\<lparr>c_mr := r\<rparr>)" "mr_at r [] (types_bytes ts tag st @ rest)"
    using scan_type_row [OF c1(2) ok(1), of ?ro] Cons.prems(4-7) by auto
  let ?c2 = "c1\<lparr>c_mr := r, c_PgTypes := put_type formats t (c_PgTypes c1)\<rparr>"
  have step: "load_types_loop formats ro c = load_types_loop formats (?ro\<lparr>ro_columnIdx := 2, ro_vrLen := 0\<rparr>) ?c2"
    using c1(1) r(1) by (subst load_types_loop.simps) (simp add: put_type_def t)
  have at2: "conn_at ?c2 [] (types_bytes ts tag st @ rest)" and busy: "c_busy ?c2"
    using r(2) c1(2,3) Cons.prems(8) by (simp_all add: conn_at_def keeps_def)
  from Cons.IH [OF _ at2 Cons.prems(3), of "?ro\<lparr>ro_columnIdx := 2, ro_vrLen := 0\<rparr>"] Cons.prems busy c1(4)
  show ?case unfolding step by (auto simp: stat_of_def)
qed

text \<open>The whole exchange.\<close>

definition types_answer :: "(Oid \<times> string) list \<Rightarrow> string \<Rightarrow> byte \<Rightarrow> bytes" where
  "types_answer ts tag st = described_bytes [] type_columns st @ frame (bindComplete, []) @ types_bytes ts tag st"

lemma columns_ok_types: "columns_ok type_columns"
  by (simp add: columns_ok_def columns_bytes_def column_bytes_def type_columns_def be16_be_bytes be32_be_bytes)

lemma loadPgTypes_answer:
  assumes "list_all type_ok ts" and at: "conn_at c [] (types_answer ts tag st @ rest)" and tag: "msg_ok (SCommandComplete tag)"
    and c: "\<not> c_broken c" "\<not> c_busy c" "c_preparedStatements c = Map.empty" "c_PgTypes c = Map.empty"
  shows "\<exists>ps c'. loadPgTypes sc formats c = Some (None, True, c') \<and> conn_at c' [] rest \<and> \<not> c_busy c' \<and> c_TxStatus c' = st \<and>
    stat_of c' = stat_of (c\<lparr>c_preparedStatements := [[] \<mapsto> ps], c_PgTypes := fold (put_type formats) ts Map.empty\<rparr>)"
proof -
  let ?sql = "''select t.oid, t.typname from pg_type t left join pg_type base_type on t.typelem=base_type.oid where t.typtype='b' and (base_type.oid is null or base_type.typtype='b');''"
  let ?ans = "frame (bindComplete, []) @ types_bytes ts tag st @ rest"
  have cols: "map (describe_field (c_PgTypes c)) type_columns = type_columns"
    by (simp add: c(4) describe_field_def type_columns_def)
  have at1: "conn_at c [] (described_bytes [] type_columns st @ ?ans)" using at by (simp add: types_answer_def)
  have none: "c_preparedStatements c ?sql = None" by (simp add: c(3))
  let ?ro = "new_rows\<lparr>ro_unlockConn := True, ro_fields := type_columns\<rparr>"
  obtain ps c1 where q: "conn_Query sc ?sql [] c = Some (?ro, c1)" "conn_at c1 [] ?ans" "c_busy c1"
    "stat_of c1 = stat_of (c\<lparr>c_preparedStatements := (c_preparedStatements c)([] \<mapsto> ps)\<rparr>)"
    using conn_Query_columns [OF at1 c(1,2) columns_ok_types none, of sc] unfolding cols by blast
  let ?c1 = "c1\<lparr>c_PgTypes := Map.empty\<rparr>"
  have at2: "conn_at ?c1 [] ?ans" using q(2) by (simp add: conn_at_def)
  obtain r where r: "rows_Next ?ro ?c1 = rows_Next ?ro (?c1\<lparr>c_mr := r\<rparr>)" "conn_at (?c1\<lparr>c_mr := r\<rparr>) [] (types_bytes ts tag st @ rest)"
    using Next_skip [OF at2, of ?ro] by (auto simp: new_rows_def)
  have "load_types_loop formats ?ro ?c1 = load_types_loop formats ?ro (?c1\<lparr>c_mr := r\<rparr>)"
    by (subst (1 2) load_types_loop.simps) (simp only: r(1))
  with load_types_rows [OF assms(1) r(2) tag, of ?ro formats] q
  show ?thesis
    by (auto simp: loadPgTypes_def new_rows_def stat_of_def c(3) intro!: exI [of _ ps])
qed

section \<open>Address families\<close>

definition inet_columns :: "FieldDescription list" where
  "inet_columns = (let fd = \<lparr>fd_Name = ''inet'', fd_Table = 0, fd_AttributeNumber = 0, fd_DataType = InetOid, fd_DataTypeSize = - 1,
     fd_DataTypeName = [], fd_Modifier = - 1, fd_FormatCode = 0\<rparr> in [fd, fd])"

definition inet_answer :: "bytes \<Rightarrow> bytes \<Rightarrow> string \<Rightarrow> byte \<Rightarrow> bytes" where
  "inet_answer a4 a6 tag st = described_bytes [] inet_columns st @ frame (bindComplete, []) @ data_row [a4, a6] @
     srv_bytes [SCommandComplete tag] @ ready_bytes st"

lemma bytes_dest_at:
  assumes "vr_at vr b tail rest" and "fd_DataType (vr_fd vr) \<noteq> ByteaOid"
  shows "\<exists>vr'. bytes_dest upd vr st = Some ((None, upd b st), vr') \<and> vr_at vr' [] tail rest"
  using vr_ReadBytes_all [OF assms(1)] vr_Len_nonneg [OF assms(1)] assms(2) by (auto simp: bytes_dest_def)

lemma describe_field_type [simp]: "fd_DataType (describe_field types fd) = fd_DataType fd"
  by (simp add: describe_field_def split: option.splits)

lemma scan_inet_row:
  assumes at: "conn_at c (concat (map sized [a4, a6])) rest"
    and ro: "length (ro_fields ro) = 2" "list_all (\<lambda>fd. fd_DataType fd \<noteq> ByteaOid) (ro_fields ro)" "\<not> ro_closed ro"
      "ro_columnIdx ro = 0" "ro_vrLen ro = 0" "ro_err ro = None"
  shows "\<exists>r. rows_Scan_all [Some (bytes_dest (\<lambda>b (_, b6). (b, b6))), Some (bytes_dest (\<lambda>b (b4, _). (b4, b)))] ro c ([], []) =
      Some ((a4, a6), ro\<lparr>ro_columnIdx := 2, ro_vrLen := 0\<rparr>, c\<lparr>c_mr := r\<rparr>) \<and> mr_at r [] rest"
proof -
  let ?d4 = "bytes_dest (\<lambda>b (_, b6). (b, b6))" and ?d6 = "bytes_dest (\<lambda>b (b4, _). (b4, b))"
  let ?ro1 = "ro\<lparr>ro_columnIdx := ro_columnIdx ro + 1, ro_vrLen := 0\<rparr>"
  have nb: "fd_DataType (ro_fields ro ! 0) \<noteq> ByteaOid" "fd_DataType (ro_fields ro ! 1) \<noteq> ByteaOid"
    using ro(1,2) by (auto simp: list_all_length)
  have at0: "conn_at c (sized a4 @ sized a6) rest" using at by simp
  obtain r1 where r1: "scan_dests [Some ?d4, Some ?d6] ro c ([], []) = scan_dests [Some ?d6] ?ro1 (c\<lparr>c_mr := r1\<rparr>) (a4, [])" "mr_at r1 (sized a6) rest"
    using scan_column [OF ro(3) _ ro(5,6) at0, where dest = ?d4 and st' = "(a4, [])" and st = "([], [])" and ds = "[Some ?d6]"]
      bytes_dest_at [where upd = "\<lambda>b (_, b6). (b, b6)" and st = "([], [])" and b = a4] ro nb(1) by fastforce
  have at1: "conn_at (c\<lparr>c_mr := r1\<rparr>) (sized a6 @ []) rest" using r1(2) at by (simp add: conn_at_def)
  obtain r2 where r2: "scan_dests [Some ?d6] ?ro1 (c\<lparr>c_mr := r1\<rparr>) (a4, []) =
      scan_dests [] (?ro1\<lparr>ro_columnIdx := ro_columnIdx ?ro1 + 1, ro_vrLen := 0\<rparr>) (c\<lparr>c_mr := r1, c_mr := r2\<rparr>) (a4, a6)" "mr_at r2 [] rest"
    using scan_column [OF _ _ _ _ at1, where dest = ?d6 and st' = "(a4, a6)" and st = "(a4, [])" and ds = "[]" and ro = ?ro1]
      bytes_dest_at [where upd = "\<lambda>b (b4, _). (b4, b)" and st = "(a4, [])" and b = a6] ro nb(2) by fastforce
  have "scan_dests [Some ?d4, Some ?d6] ro c ([], []) = Some ((a4, a6), ro\<lparr>ro_columnIdx := 2, ro_vrLen := 0\<rparr>, c\<lparr>c_mr := r2\<rparr>)"
    unfolding r1(1) r2(1) using ro(4) by (simp add: numeral_2_eq_2)
  with r2(2) ro(1) show ?thesis by (auto simp: rows_Scan_all_def)
qed

lemma loadInetConstants_answer:
  assumes at: "conn_at c [] (inet_answer a4 a6 tag st @ rest)" and tag: "msg_ok (SCommandComplete tag)"
    and a: "a4 \<noteq> []" "a6 \<noteq> []" "length a4 + length a6 < 2 ^ 30"
    and c: "\<not> c_broken c" "\<not> c_busy c" "\<forall>name. name \<noteq> [] \<longrightarrow> c_preparedStatements c name = None"
  shows "\<exists>ps c'. loadInetConstants sc c = Some (Inr (hd a4, hd a6), c') \<and> conn_at c' [] rest \<and> \<not> c_busy c' \<and> c_TxStatus c' = st \<and>
    stat_of c' = stat_of (c\<lparr>c_preparedStatements := (c_preparedStatements c)([] \<mapsto> ps)\<rparr>)"
proof -
  let ?sql = "''select '127.0.0.1'::inet, '1::'::inet''"
  let ?tail = "srv_bytes [SCommandComplete tag] @ ready_bytes st @ rest"
  let ?ans = "frame (bindComplete, []) @ data_row [a4, a6] @ ?tail"
  let ?fds = "map (describe_field (c_PgTypes c)) inet_columns"
  let ?ro = "new_rows\<lparr>ro_unlockConn := True, ro_fields := ?fds\<rparr>"
  let ?ro1 = "?ro\<lparr>ro_rowCount := ro_rowCount ?ro + 1, ro_columnIdx := 0, ro_vrLen := 0\<rparr>"
  let ?ds = "[Some (bytes_dest (\<lambda>b (_, b6). (b, b6))), Some (bytes_dest (\<lambda>b (b4, _). (b4, b)))]"
  have at1: "conn_at c [] (described_bytes [] inet_columns st @ ?ans)" using at by (simp add: inet_answer_def)
  have ok: "columns_ok inet_columns"
    by (simp add: columns_ok_def columns_bytes_def column_bytes_def inet_columns_def Let_def be16_be_bytes be32_be_bytes)
  have len: "length ?fds = 2" "list_all (\<lambda>fd. fd_DataType fd \<noteq> ByteaOid) ?fds"
    by (simp_all add: inet_columns_def Let_def InetOid_def ByteaOid_def)
  obtain ps c1 where q: "conn_Query sc ?sql [] c = Some (?ro, c1)" "conn_at c1 [] ?ans" "c_busy c1"
    "stat_of c1 = stat_of (c\<lparr>c_preparedStatements := (c_preparedStatements c)([] \<mapsto> ps)\<rparr>)"
    using conn_Query_columns [OF at1 c(1,2) ok, of ?sql sc] c(3) by auto
  obtain r where r: "rows_Next ?ro c1 = rows_Next ?ro (c1\<lparr>c_mr := r\<rparr>)" "conn_at (c1\<lparr>c_mr := r\<rparr>) [] (data_row [a4, a6] @ ?tail)"
    using Next_skip [OF q(2), of ?ro] by (auto simp: new_rows_def)
  have size: "length (concat (map sized [a4, a6])) < 2 ^ 31 - 6" using a(3) by (simp add: sized_def be32_be_bytes)
  obtain c2 where c2: "rows_Next ?ro c1 = (True, ?ro1, c2)" "conn_at c2 (concat (map sized [a4, a6])) ?tail"
    "keeps (c1\<lparr>c_mr := r\<rparr>) c2" "stat_of c2 = stat_of c1"
    using Next_data_row [OF _ r(2) _ size, of ?ro] len(1) unfolding r(1) by (auto simp: new_rows_def)
  obtain r2 where r2: "rows_Scan_all ?ds ?ro1 c2 ([], []) = Some ((a4, a6), ?ro1\<lparr>ro_columnIdx := 2, ro_vrLen := 0\<rparr>, c2\<lparr>c_mr := r2\<rparr>)"
    "mr_at r2 [] ?tail"
    using scan_inet_row [OF c2(2), of ?ro1] len by (auto simp: new_rows_def)
  let ?c3 = "c2\<lparr>c_mr := r2\<rparr>" and ?ro2 = "?ro1\<lparr>ro_columnIdx := 2, ro_vrLen := 0\<rparr>"
  have at3: "conn_at ?c3 [] (srv_bytes [SCommandComplete tag] @ ready_bytes st @ rest)" "c_busy ?c3"
    using r2(2) c2(2,3) q(3) by (simp_all add: conn_at_def keeps_def)
  obtain ro' c' where u: "readUntilReadyForQuery ?ro2 ?c3 = (ro', c')" "ro_closed ro'" "ro_err ro' = None"
    "conn_at c' [] rest" "\<not> c_busy c'" "c_TxStatus c' = st"
    using readUntilReadyForQuery_response [of "[SCommandComplete tag]" ?c3 "[]" st rest ?ro2] at3 tag by (auto simp: new_rows_def)
  then have "rows_Close ?ro2 ?c3 = (ro', c')" by (simp add: rows_Close_def rows_close_def new_rows_def)
  moreover from this have "stat_of c' = stat_of c1" using stat_of_rows_Close [of ?ro2 ?c3] c2(4) by simp
  ultimately show ?thesis
    using q(1,4) c2(1) r2(1) u a(1,2) by (auto simp: loadInetConstants_def Row_Scan_all_def new_rows_def intro!: exI [of _ ps])
qed

section \<open>The handshake\<close>

definition startup_msg :: "srv_msg \<Rightarrow> bool" where
  "startup_msg m \<longleftrightarrow> msg_ok m \<and> (case m of SParameterStatus k v \<Rightarrow> True | SNotice b \<Rightarrow> True | _ \<Rightarrow> False)"

definition greeting :: "srv_msg list \<Rightarrow> uint32 \<Rightarrow> uint32 \<Rightarrow> byte \<Rightarrow> bytes" where
  "greeting ms pid secret st = frame (authenticationX, be32 0) @ srv_bytes ms @
     frame (backendKeyData, be32 pid @ be32 secret) @ ready_bytes st"

lemma startup_msg_step:
  assumes "startup_msg m" and at: "conn_at c left (frame (srv_frame m) @ rest)"
  shows "\<exists>c' left'. connect_loop h c = connect_loop h c' \<and> conn_at c' left' rest \<and> keeps c c' \<and> stat_of c' = stat_of c"
proof -
  have ok: "msg_ok m" "\<not> fatal_msg m" "passed_over m" using assms(1) by (cases m; simp add: startup_msg_def)+
  obtain t body where f: "srv_frame m = (t, body)" by (cases "srv_frame m")
  have "length body + 4 < 2 ^ 31" using ok(1) f by (simp add: msg_ok.simps)
  then obtain r where r: "conn_rxMsg c = ((t, None), c\<lparr>c_mr := r\<rparr>)" "conn_at (c\<lparr>c_mr := r\<rparr>) body rest"
    using frame_step [of c left t body rest] at f by auto
  obtain c2 left' where c2: "processContextFreeMsg t (c\<lparr>c_mr := r\<rparr>) = (None, c2)" "conn_at c2 left' rest" "keeps (c\<lparr>c_mr := r\<rparr>) c2"
    using processContextFreeMsg_at [OF ok(1,2) f r(2)] assms(1) by (cases m) (auto simp: startup_msg_def)
  have "t \<noteq> backendKeyData" "t \<noteq> authenticationX" "t \<noteq> readyForQuery"
    using f assms(1) by (cases m; auto simp: startup_msg_def msg_types msg_type_distinct)+
  then have "connect_loop h c = connect_loop h c2"
    using r(1) c2(1) by (subst connect_loop.simps) simp
  moreover have "stat_of c2 = stat_of c"
    using stat_of_processContextFreeMsg [of t "c\<lparr>c_mr := r\<rparr>"] c2(1) by simp
  ultimately show ?thesis using c2 by (auto simp: keeps_def)
qed

lemma startup_msgs:
  "list_all startup_msg ms \<Longrightarrow> conn_at c left (srv_bytes ms @ rest) \<Longrightarrow>
   \<exists>c' left'. connect_loop h c = connect_loop h c' \<and> conn_at c' left' rest \<and> keeps c c' \<and> stat_of c' = stat_of c"
proof (induction ms arbitrary: c left)
  case Nil
  then show ?case by (auto simp: srv_bytes_def)
next
  case (Cons m ms)
  obtain c1 left1 where c1: "connect_loop h c = connect_loop h c1" "conn_at c1 left1 (srv_bytes ms @ rest)" "keeps c c1" "stat_of c1 = stat_of c"
    using startup_msg_step [of m c left "srv_bytes ms @ rest" h] Cons.prems by (auto simp: srv_bytes_Cons)
  with Cons.IH [of c1 left1] Cons.prems keeps_trans show ?case by fastforce
qed

lemma connect_loop_greeting:
  assumes ms: "list_all startup_msg ms" and at: "conn_at c left (greeting ms pid secret st @ rest)"
  shows "\<exists>c'. connect_loop h c = (None, c') \<and> conn_at c' [] rest \<and> keeps c c' \<and> stat_of c' = stat_of c \<and>
    c_Pid c' = pid \<and> c_SecretKey c' = secret \<and> c_TxStatus c' = st"
proof -
  let ?key = "frame (backendKeyData, be32 pid @ be32 secret)"
  obtain r where r: "conn_rxMsg c = ((authenticationX, None), c\<lparr>c_mr := r\<rparr>)" "conn_at (c\<lparr>c_mr := r\<rparr>) (be32 0) (srv_bytes ms @ ?key @ ready_bytes st @ rest)"
    using frame_step [of c left authenticationX "be32 0"] at by (auto simp: greeting_def be32_be_bytes)
  obtain r1 where r1: "readInt32 r = (0, r1)" "mr_at r1 [] (srv_bytes ms @ ?key @ ready_bytes st @ rest)"
    using readInt32_at [of r 0 "[]"] r(2) by (auto simp: conn_at_def)
  have s1: "connect_loop h c = connect_loop h (c\<lparr>c_mr := r1\<rparr>)"
    using r(1) r1(1) by (subst connect_loop.simps) (simp add: rxAuthenticationX_def msg_types msg_type_distinct)
  have at1: "conn_at (c\<lparr>c_mr := r1\<rparr>) [] (srv_bytes ms @ ?key @ ready_bytes st @ rest)" using r1(2) r(2) by (simp add: conn_at_def)
  from startup_msgs [OF ms at1, of h] obtain c2 left2 where c2: "connect_loop h c = connect_loop h c2"
    "conn_at c2 left2 (?key @ ready_bytes st @ rest)" "keeps c c2" "stat_of c2 = stat_of c"
    unfolding s1 by (auto simp: keeps_def)
  obtain r3 where r3: "conn_rxMsg c2 = ((backendKeyData, None), c2\<lparr>c_mr := r3\<rparr>)" "conn_at (c2\<lparr>c_mr := r3\<rparr>) (be32 pid @ be32 secret) (ready_bytes st @ rest)"
    using frame_step [OF c2(2)] by (auto simp: be32_be_bytes)
  obtain r4 where r4: "readInt32 r3 = (pid, r4)" "mr_at r4 (be32 secret @ []) (ready_bytes st @ rest)"
    using readInt32_at [of r3 pid "be32 secret"] r3(2) by (auto simp: conn_at_def)
  obtain r5 where r5: "readInt32 r4 = (secret, r5)" "mr_at r5 [] (ready_bytes st @ rest)"
    using readInt32_at [OF r4(2)] by blast
  let ?c3 = "c2\<lparr>c_mr := r5, c_Pid := pid, c_SecretKey := secret\<rparr>"
  have s2: "connect_loop h c2 = connect_loop h ?c3"
    using r3(1) r4(1) r5(1) by (subst connect_loop.simps) (simp add: rxBackendKeyData_def msg_types msg_type_distinct)
  have at3: "conn_at ?c3 [] (frame (readyForQuery, [st]) @ rest)" using r5(2) c2(2) by (simp add: conn_at_def ready_bytes_def)
  obtain r6 where r6: "conn_rxMsg ?c3 = ((readyForQuery, None), ?c3\<lparr>c_mr := r6\<rparr>)" "conn_at (?c3\<lparr>c_mr := r6\<rparr>) [st] rest"
    using frame_step [OF at3] by auto
  have "connect_loop h ?c3 = (None, rxReadyForQuery (?c3\<lparr>c_mr := r6\<rparr>))"
    using r6(1) by (subst connect_loop.simps) (simp add: msg_types msg_type_distinct)
  moreover have "c_Pid (rxReadyForQuery d) = c_Pid d" "c_SecretKey (rxReadyForQuery d) = c_SecretKey d" for d
    by (simp_all add: rxReadyForQuery_def split: prod.splits)
  moreover have "stat_of (?c3\<lparr>c_mr := r6\<rparr>) = stat_of c2" by (simp add: stat_of_def)
  then have "stat_of (rxReadyForQuery (?c3\<lparr>c_mr := r6\<rparr>)) = stat_of c" using c2(4) by simp
  ultimately show ?thesis
    using c2(1,3) s2 rxReadyForQuery_at [OF r6(2)] by (auto simp: keeps_def)
qed

section \<open>A server that follows the protocol\<close>

text \<open>What it sends to a new client: the greeting, and the answers to the two queries.\<close>

definition server_bytes ::
  "srv_msg list \<Rightarrow> uint32 \<Rightarrow> uint32 \<Rightarrow> (Oid \<times> string) list \<Rightarrow> string \<Rightarrow> bytes \<Rightarrow> bytes \<Rightarrow> byte \<Rightarrow> bytes" where
  "server_bytes ms pid secret ts tag a4 a6 st =
     greeting ms pid secret st @ types_answer ts tag st @ inet_answer a4 a6 tag st"

definition server_ok :: "srv_msg list \<Rightarrow> (Oid \<times> string) list \<Rightarrow> string \<Rightarrow> bytes \<Rightarrow> bytes \<Rightarrow> bool" where
  "server_ok ms ts tag a4 a6 \<longleftrightarrow> list_all startup_msg ms \<and> list_all type_ok ts \<and> msg_ok (SCommandComplete tag) \<and>
     a4 \<noteq> [] \<and> a6 \<noteq> [] \<and> length a4 + length a6 < 2 ^ 30"

lemma handshake_server:
  assumes ok: "server_ok ms ts tag a4 a6" and at: "conn_at (se_conn se) [] (server_bytes ms pid secret ts tag a4 a6 st @ rest)"
    and c: "\<not> c_broken (se_conn se)" "\<not> c_busy (se_conn se)" "c_preparedStatements (se_conn se) = Map.empty" "c_PgTypes (se_conn se) = Map.empty"
      "c_channels (se_conn se) = []"
    and se: "\<not> se_PgTypes_known se" "se_af_inet se = None"
  shows "\<exists>c'. handshake sc formats net config tls se =
      Some (None, se\<lparr>se_conn := c', se_PgTypes_known := True, se_af_inet := Some (hd a4), se_af_inet6 := Some (hd a6)\<rparr>) \<and>
    conn_at c' [] rest \<and> \<not> c_busy c' \<and> \<not> c_broken c' \<and> c_TxStatus c' = st \<and> c_channels c' = [] \<and>
    c_PgTypes c' = fold (put_type formats) ts Map.empty \<and> (\<forall>name. name \<noteq> [] \<longrightarrow> c_preparedStatements c' name = None)"
proof -
  note s = ok [unfolded server_ok_def]
  let ?msg = "startup_Bytes (startup_options tls (cc_RuntimeParams config) (c_config (se_conn se)))"
  let ?c0 = "(se_conn se)\<lparr>c_out := c_out (se_conn se) @ ?msg\<rparr>"
  have w: "conn_write ?msg (se_conn se) = (True, ?c0)" using c(1) by (simp add: conn_write_def)
  have "conn_at ?c0 [] (greeting ms pid secret st @ types_answer ts tag st @ inet_answer a4 a6 tag st @ rest)"
    using at by (simp add: conn_at_def server_bytes_def)
  from connect_loop_greeting [OF _ this, of "na_MD5 net"] s obtain c1 where c1: "connect_loop (na_MD5 net) ?c0 = (None, c1)"
    "conn_at c1 [] (types_answer ts tag st @ inet_answer a4 a6 tag st @ rest)" "keeps ?c0 c1" "stat_of c1 = stat_of ?c0" by blast
  have t1: "\<not> c_broken c1" "\<not> c_busy c1" "c_preparedStatements c1 = Map.empty" "c_PgTypes c1 = Map.empty" "c_channels c1 = []"
    using c1(3,4) c by (simp_all add: keeps_def stat_of_def)
  from loadPgTypes_answer [OF _ c1(2) _ t1(1-4), of sc formats] s obtain ps c2 where
    c2: "loadPgTypes sc formats c1 = Some (None, True, c2)" "conn_at c2 [] (inet_answer a4 a6 tag st @ rest)" "\<not> c_busy c2"
    "stat_of c2 = stat_of (c1\<lparr>c_preparedStatements := [[] \<mapsto> ps], c_PgTypes := fold (put_type formats) ts Map.empty\<rparr>)" by blast
  have t2: "\<not> c_broken c2" "\<forall>name. name \<noteq> [] \<longrightarrow> c_preparedStatements c2 name = None"
    using c2(4) t1(1) by (simp_all add: stat_of_def)
  from loadInetConstants_answer [OF c2(2) _ _ _ _ t2(1) c2(3) t2(2), of sc] s obtain ps' c3 where
    c3: "loadInetConstants sc c2 = Some (Inr (hd a4, hd a6), c3)" "conn_at c3 [] rest" "\<not> c_busy c3" "c_TxStatus c3 = st"
    "stat_of c3 = stat_of (c2\<lparr>c_preparedStatements := (c_preparedStatements c2)([] \<mapsto> ps')\<rparr>)" by blast
  show ?thesis
    using w c1(1) c2(1) c3 c2(4) t1 t2 se
    by (intro exI [of _ c3]) (simp add: handshake_def load_constants_def Let_def stat_of_def)
qed

lemma put_type_keeps: "n \<notin> fst ` set ts \<Longrightarrow> fold (put_type formats) ts m n = m n"
  by (induction ts arbitrary: m) (auto simp: put_type_def)

lemma json_type_loaded:
  "(JsonOid, ''json'') \<in> set ts \<Longrightarrow> distinct (map fst ts) \<Longrightarrow> fold (put_type querystore_formats) ts m JsonOid = Some json_type"
proof (induction ts arbitrary: m)
  case (Cons t ts)
  have "put_type querystore_formats (JsonOid, ''json'') m JsonOid = Some json_type"
    by (simp add: put_type_def querystore_formats_def json_type_def)
  with Cons put_type_keeps [of JsonOid ts] show ?case by (cases "t = (JsonOid, ''json'')") auto
qed simp

section \<open>Properties\<close>

text \<open>
  C28: a connection to a server that follows the protocol (greeting, table of types, address families, in any
  sizes, with any settings and notices) succeeds, and is ready for what the engine does with connections: alive, idle
  before whatever the server sends next, with the table of types of the server in which \<open>json\<close> has the
  binary format, no named statements and no channels.
\<close>

theorem connected_is_idle:
  assumes "server_ok ms ts tag a4 a6" and "(JsonOid, ''json'') \<in> set ts" and "distinct (map fst ts)"
    and "ts_TLSConfig tls = None" and "cc_User config \<noteq> []"
    and "\<forall>network address. na_Dial net 0 network address = Inr (server_bytes ms pid secret ts tag a4 a6 st @ rest, False)"
  shows "\<exists>se clear. connect sc querystore_formats net config tls None None None = Some (Inr se, clear) \<and> conn_idle (se_conn se) rest \<and>
    c_TxStatus (se_conn se) = st \<and> c_PgTypes (se_conn se) = fold (put_type querystore_formats) ts Map.empty \<and>
    se_af_inet se = Some (hd a4) \<and> se_af_inet6 se = Some (hd a6)"
proof -
  let ?cfg = "if cc_Port config = 0 then config\<lparr>cc_Port := 5432\<rparr> else config"
  let ?in = "server_bytes ms pid secret ts tag a4 a6 st @ rest"
  let ?se0 = "\<lparr>se_conn = (fresh_conn ?cfg)\<lparr>c_PgTypes := Map.empty\<rparr>, se_PgTypes_known = False, se_af_inet = None, se_af_inet6 = None\<rparr>"
  let ?c = "(se_conn ?se0)\<lparr>c_mr := (c_mr (se_conn ?se0))\<lparr>mr_input := ?in\<rparr>, c_out := [], c_broken := False,
     c_RuntimeParams := Map.empty, c_preparedStatements := Map.empty, c_channels := [], c_alive := True\<rparr>"
  let ?se = "?se0\<lparr>se_conn := ?c\<rparr>"
  have at: "conn_at (se_conn ?se) [] ?in" by (simp add: conn_at_def mr_at_def fresh_conn_def demo_conn_def)
  from handshake_server [OF assms(1) at, of sc querystore_formats net config None] obtain c' where
    h: "handshake sc querystore_formats net config None ?se =
      Some (None, ?se\<lparr>se_conn := c', se_PgTypes_known := True, se_af_inet := Some (hd a4), se_af_inet6 := Some (hd a6)\<rparr>)"
    and c': "conn_at c' [] rest" "\<not> c_busy c'" "\<not> c_broken c'" "c_TxStatus c' = st" "c_channels c' = []"
      "c_PgTypes c' = fold (put_type querystore_formats) ts Map.empty" "\<forall>name. name \<noteq> [] \<longrightarrow> c_preparedStatements c' name = None"
    by (auto simp: fresh_conn_def demo_conn_def)
  have "conn_idle c' rest" using c' json_type_loaded [OF assms(2,3)] by (simp add: conn_idle_def)
  with h c' assms(4-6) show ?thesis
    by (auto simp: connect_def conn_connect_def Let_def)
qed

definition demo_net :: "(nat \<Rightarrow> bytes) \<Rightarrow> bytes \<Rightarrow> net_api" where
  "demo_net links plaintext = \<lparr>na_User = Some ''me'', na_Stat = (\<lambda>p. True), na_Dial = (\<lambda>k network address. Inr (links k, False)),
     na_TLS = (\<lambda>k cfg raw. (plaintext, False)), na_MD5 = id\<rparr>"

theorem connected_is_idle_witness:
  "\<exists>se clear. connect int_strconv querystore_formats
     (demo_net (\<lambda>k. server_bytes [SParameterStatus ''TimeZone'' ''UTC''] 1 2 [(16, ''bool''), (JsonOid, ''json'')] ''SELECT 2'' [2, 32] [3, 128] 73) [])
     (zero_ConnConfig\<lparr>cc_User := ''postgres''\<rparr>) \<lparr>ts_TLSConfig = None, ts_UseFallbackTLS = False, ts_FallbackTLSConfig = None\<rparr> None None None =
     Some (Inr se, clear) \<and> conn_idle (se_conn se) []"
proof -
  let ?ts = "[(16, ''bool''), (JsonOid, ''json'')] :: (Oid \<times> string) list"
  have "server_ok [SParameterStatus ''TimeZone'' ''UTC''] ?ts ''SELECT 2'' [2, 32] [3, 128]"
    by (simp add: server_ok_def startup_msg_def type_ok_def msg_ok.simps JsonOid_def)
  from connected_is_idle [OF this, where rest = "[]" and st = 73 and pid = 1 and secret = 2 and sc = int_strconv
      and tls = "\<lparr>ts_TLSConfig = None, ts_UseFallbackTLS = False, ts_FallbackTLSConfig = None\<rparr>"
      and config = "zero_ConnConfig\<lparr>cc_User := ''postgres''\<rparr>"
      and net = "demo_net (\<lambda>k. server_bytes [SParameterStatus ''TimeZone'' ''UTC''] 1 2 ?ts ''SELECT 2'' [2, 32] [3, 128] 73) []"]
  show ?thesis by (auto simp: demo_net_def JsonOid_def)
qed


lemma conn_connect_refused:
  assumes "na_Dial net k nw ad = Inr ([r], False)" and "r \<noteq> byte_of_char CHR ''S''"
  shows "\<exists>se'. conn_connect sc formats net k config nw ad (Some t) se = Some (Some ErrTLSRefused, se', ssl_request)"
  using assms by (auto simp: conn_connect_def startTLS_def conn_write_def Let_def)

lemma connect_attempts:
  assumes user: "cc_User config \<noteq> [] \<or> na_User net \<noteq> None"
  obtains se nw ad where "mr_at (c_mr (se_conn se)) [] []"
    and "connect sc formats net config tls pgTypes af af6 =
      (case conn_connect sc formats net 0 config nw ad (ts_TLSConfig tls) se of
         None \<Rightarrow> None
       | Some (None, se, clear) \<Rightarrow> Some (Inr se, clear)
       | Some (Some e, se, clear) \<Rightarrow>
           if \<not> ts_UseFallbackTLS tls then Some (Inl e, clear)
           else (case conn_connect sc formats net 1 config nw ad (ts_FallbackTLSConfig tls) se of
                   None \<Rightarrow> None
                 | Some (None, se, clear') \<Rightarrow> Some (Inr se, clear @ clear')
                 | Some (Some e, se, clear') \<Rightarrow> Some (Inl e, clear @ clear')))"
proof -
  obtain u where u: "(if cc_User config = [] then na_User net else Some (cc_User config)) = Some u"
    using user by (cases "cc_User config = []") auto
  let ?cfg = "if cc_Port (config\<lparr>cc_User := u\<rparr>) = 0 then config\<lparr>cc_User := u, cc_Port := 5432\<rparr> else config\<lparr>cc_User := u\<rparr>"
  let ?se = "\<lparr>se_conn = (fresh_conn ?cfg)\<lparr>c_PgTypes := (case pgTypes of Some ts \<Rightarrow> ts | None \<Rightarrow> Map.empty)\<rparr>,
     se_PgTypes_known = (pgTypes \<noteq> None), se_af_inet = af, se_af_inet6 = af6\<rparr>"
  show thesis
    by (rule that [of ?se "fst (dial_address net ?cfg)" "snd (dial_address net ?cfg)"])
      (simp_all only: connect_def Let_def u option.case, simp add: fresh_conn_def demo_conn_def mr_at_def)
qed

lemma connect_no_fallback:
  assumes "cc_User config \<noteq> [] \<or> na_User net \<noteq> None" and "\<not> ts_UseFallbackTLS tls"
    and "\<And>nw ad se. \<exists>se'. conn_connect sc formats net 0 config nw ad (ts_TLSConfig tls) se = Some (Some e, se', clear)"
  shows "connect sc formats net config tls pgTypes af af6 = Some (Inl e, clear)"
proof (rule connect_attempts [OF assms(1), of sc formats tls pgTypes af af6], goal_cases)
  case (1 se nw ad)
  with assms(2) assms(3) [of nw ad se] show ?case by auto
qed


lemma unknown_auth:
  assumes at: "conn_at c left (frame (authenticationX, be32 10 @ methods) @ rest)" and "length methods < 2 ^ 30"
  shows "\<exists>r. connect_loop h c = (Some UnknownAuth, c\<lparr>c_mr := r\<rparr>) \<and> mr_at r methods rest"
proof -
  obtain r where r: "conn_rxMsg c = ((authenticationX, None), c\<lparr>c_mr := r\<rparr>)" "conn_at (c\<lparr>c_mr := r\<rparr>) (be32 10 @ methods) rest"
    using frame_step [OF at] assms(2) by (auto simp: be32_be_bytes)
  obtain r1 where r1: "readInt32 r = (10, r1)" "mr_at r1 methods rest"
    using readInt32_at [of r 10 methods] r(2) by (auto simp: conn_at_def)
  have "connect_loop h c = (Some UnknownAuth, c\<lparr>c_mr := r1\<rparr>)"
    using r(1) r1(1) by (subst connect_loop.simps) (simp add: rxAuthenticationX_def msg_types msg_type_distinct)
  with r1(2) show ?thesis by blast
qed

lemma attempt_unknown_auth:
  assumes "mr_at (c_mr (se_conn se)) [] []" and "length methods < 2 ^ 30"
    and "na_Dial net k nw ad = Inr (byte_of_char CHR ''S'' # raw, False)"
    and "na_TLS net k t raw = (frame (authenticationX, be32 10 @ methods) @ rest, False)"
  shows "\<exists>se'. conn_connect sc formats net k config nw ad (Some t) se = Some (Some UnknownAuth, se', ssl_request) \<and>
    mr_at (c_mr (se_conn se')) methods rest"
proof -
  let ?in = "frame (authenticationX, be32 10 @ methods) @ rest"
  let ?c = "(se_conn se)\<lparr>c_RuntimeParams := Map.empty, c_preparedStatements := Map.empty, c_channels := [], c_alive := True,
     c_mr := (c_mr (se_conn se))\<lparr>mr_input := ?in\<rparr>, c_out := [], c_broken := False\<rparr>"
  let ?msg = "startup_Bytes (startup_options (Some t) (cc_RuntimeParams config) (c_config ?c))"
  have "conn_at (?c\<lparr>c_out := ?msg\<rparr>) [] ?in" using assms(1) by (simp add: conn_at_def mr_at_def)
  from unknown_auth [OF this assms(2), of "na_MD5 net"] obtain r where
    "connect_loop (na_MD5 net) (?c\<lparr>c_out := ?msg\<rparr>) = (Some UnknownAuth, ?c\<lparr>c_out := ?msg, c_mr := r\<rparr>)" "mr_at r methods rest" by auto
  then show ?thesis
    using assms(3,4) by (simp add: conn_connect_def startTLS_def conn_write_def handshake_def Let_def)
qed

lemma attempt_with_stale_length:
  assumes "mr_at (c_mr (se_conn se)) methods rest" and "na_Dial net k nw ad = Inr (input, False)" and "length input < length methods"
  shows "\<exists>se' clear. conn_connect sc formats net k config nw ad None se = Some (Some (MrErr ReadFailed), se', clear)"
proof -
  have "sint (mr_remaining (c_mr (se_conn se))) = int (length methods)" "mr_err (c_mr (se_conn se)) = None"
    using assms(1) by (simp_all add: mr_at_def)
  then have "fst (rxMsg ((c_mr (se_conn se))\<lparr>mr_input := input\<rparr>)) = (0, Some ReadFailed)"
    using assms(3) by (auto simp: rxMsg_def)
  then obtain r where "rxMsg ((c_mr (se_conn se))\<lparr>mr_input := input\<rparr>) = ((0, Some ReadFailed), r)" by (metis prod.collapse)
  then show ?thesis
    using assms(2) by (simp add: conn_connect_def handshake_def conn_write_def Let_def, subst connect_loop.simps)
      (simp add: conn_rxMsg_def die_def)
qed

text \<open>
  A connection that falls back keeps what the failed attempt left in the message reader: when the first attempt, over
  TLS, ends at a request for an authentication the client does not know, the rest of that request counts as unread
  on the new link, and the fallback loses that many bytes of it. It then fails although the new link may come from a
  server to which a connection without the first attempt succeeds.
\<close>

theorem fallback_reads_stale_length:
  assumes tls: "configSSL ''prefer'' host = Inr tls" and user: "cc_User config \<noteq> []"
    and first: "\<forall>nw ad. na_Dial net 0 nw ad = Inr (byte_of_char CHR ''S'' # raw, False)"
      "\<forall>cfg. na_TLS net 0 cfg raw = (frame (authenticationX, be32 10 @ methods) @ rest, False)"
    and second: "\<forall>nw ad. na_Dial net 1 nw ad = Inr (input, False)"
    and len: "length input < length methods" "length methods < 2 ^ 30"
  shows "\<exists>clear. connect sc formats net config tls pgTypes af af6 = Some (Inl (MrErr ReadFailed), clear)"
proof -
  have t: "ts_TLSConfig tls = Some InsecureSkipVerify" "ts_UseFallbackTLS tls" "ts_FallbackTLSConfig tls = None"
    using tls by (auto simp: configSSL_def Let_def)
  obtain se nw ad where fresh: "mr_at (c_mr (se_conn se)) [] []" and con: "connect sc formats net config tls pgTypes af af6 =
      (case conn_connect sc formats net 0 config nw ad (ts_TLSConfig tls) se of
         None \<Rightarrow> None
       | Some (None, se, clear) \<Rightarrow> Some (Inr se, clear)
       | Some (Some e, se, clear) \<Rightarrow>
           if \<not> ts_UseFallbackTLS tls then Some (Inl e, clear)
           else (case conn_connect sc formats net 1 config nw ad (ts_FallbackTLSConfig tls) se of
                   None \<Rightarrow> None
                 | Some (None, se, clear') \<Rightarrow> Some (Inr se, clear @ clear')
                 | Some (Some e, se, clear') \<Rightarrow> Some (Inl e, clear @ clear')))"
    using connect_attempts [of config net sc formats tls pgTypes af af6] user by blast
  obtain se' where a: "conn_connect sc formats net 0 config nw ad (Some InsecureSkipVerify) se = Some (Some UnknownAuth, se', ssl_request)"
    "mr_at (c_mr (se_conn se')) methods rest"
    using attempt_unknown_auth [OF fresh len(2) first(1) [rule_format] first(2) [rule_format]] by blast
  obtain se'' clear where "conn_connect sc formats net 1 config nw ad None se' = Some (Some (MrErr ReadFailed), se'', clear)"
    using attempt_with_stale_length [OF a(2) second [rule_format] len(1)] by blast
  with con a(1) t show ?thesis by simp
qed

text \<open>A server whose greeting is shorter than the list of methods it offered over TLS.\<close>

theorem fallback_reads_stale_length_witness:
  "\<exists>tls clear. configSSL ''prefer'' [] = Inr tls \<and>
     connect int_strconv querystore_formats
       (demo_net (\<lambda>k. if k = 0 then [83] else greeting [] 1 2 73) (frame (authenticationX, be32 10 @ replicate 100 65)))
       (zero_ConnConfig\<lparr>cc_User := ''me''\<rparr>) tls None None None = Some (Inl (MrErr ReadFailed), clear)"
proof -
  let ?net = "demo_net (\<lambda>k. if k = 0 then [83] else greeting [] 1 2 73) (frame (authenticationX, be32 10 @ replicate 100 65))"
  obtain tls where tls: "configSSL ''prefer'' [] = Inr tls" by (simp add: configSSL_def)
  have "byte_of_char CHR ''S'' = 83" by code_simp
  then have "\<exists>clear. connect int_strconv querystore_formats ?net (zero_ConnConfig\<lparr>cc_User := ''me''\<rparr>) tls None None None =
      Some (Inl (MrErr ReadFailed), clear)"
    by (intro fallback_reads_stale_length [OF tls, where raw = "[]" and methods = "replicate 100 65" and rest = "[]" and input = "greeting [] 1 2 73"])
      (simp_all add: demo_net_def greeting_def srv_bytes_def ready_bytes_def frame_def be32_be_bytes)
  with tls show ?thesis by blast
qed

end
