(* ===== verification/Pgx_RowValues.thy ===== *)
theory Pgx_RowValues
  imports Pgx_Kinds Pgx_Connected
begin

text \<open>
  Reading a row without knowing its types: \<open>Rows.Values\<close> and the destinations of \<open>database/sql\<close> in \<open>Rows.Scan\<close> (\<open>pgx/query.go\<close>), and the number of
  rows in a command tag (\<open>pgx/conn.go\<close>). Both ignore that a row may have no next column.
\<close>

section \<open>Values\<close>

datatype row_val = RNil | RGo go_val | RRest rest_val | RJson json

definition got :: "('a \<Rightarrow> row_val) \<Rightarrow> ('a \<times> ValueReader) option \<Rightarrow> ((pgx_error option \<times> row_val list) \<times> ValueReader) option" where
  "got mk r = map_option (\<lambda>(x, vr). ((None, [mk x]), vr)) r"

definition decode_any :: "strconv \<Rightarrow> jtree \<Rightarrow> json \<Rightarrow> json \<times> dstatus" where
  "decode_any sc t v = (json_val sc t, if nums_ok sc t then DOk else DSaved)"

definition binary_value :: "strconv \<Rightarrow> zone \<Rightarrow> ValueReader \<Rightarrow> ((pgx_error option \<times> row_val list) \<times> ValueReader) option" where
  "binary_value sc local vr =
     (let oid = fd_DataType (vr_fd vr) in
      if oid = BoolOid then got (RGo \<circ> VBool) (Some (decodeBool vr))
      else if oid = ByteaOid then got (RGo \<circ> VBytes) (decodeBytea vr)
      else if oid = Int8Oid then got (RGo \<circ> VInt64) (Some (decodeInt8 vr))
      else if oid = Int2Oid then got (RGo \<circ> VInt16) (Some (decodeInt2 vr))
      else if oid = Int4Oid then got (RGo \<circ> VInt32) (Some (decodeInt4 vr))
      else if oid = OidOid then got (RGo \<circ> VOid) (decodeOid vr)
      else if oid = Float4Oid then got (RRest \<circ> VFloat32) (Some (decodeFloat4 vr))
      else if oid = Float8Oid then got (RRest \<circ> VFloat64) (Some (decodeFloat8 vr))
      else if oid = BoolArrayOid then got (RGo \<circ> VBools) (decodeBoolArray vr)
      else if oid = Int2ArrayOid then got (RGo \<circ> VInt16s) (decodeInt2Array vr)
      else if oid = Int4ArrayOid then got (RGo \<circ> VInt32s) (decodeInt4Array vr)
      else if oid = Int8ArrayOid then got (RGo \<circ> VInt64s) (decodeInt8Array vr)
      else if oid = Float4ArrayOid then got (RRest \<circ> VFloat32s) (decodeFloat4Array vr)
      else if oid = Float8ArrayOid then got (RRest \<circ> VFloat64s) (decodeFloat8Array vr)
      else if oid = TextArrayOid \<or> oid = VarcharArrayOid then got (RGo \<circ> VStrings) (decodeTextArray vr)
      else if oid = TimestampArrayOid \<or> oid = TimestampTzArrayOid then got (RRest \<circ> VTimes) (decodeTimestampArray local vr)
      else if oid = DateOid then got (RRest \<circ> VTime) (Some (decodeDate local vr))
      else if oid = TimestampTzOid then got (RRest \<circ> VTime) (Some (decodeTimestampTz local vr))
      else if oid = TimestampOid then got (RRest \<circ> VTime) (Some (decodeTimestamp local vr))
      else if oid = InetOid \<or> oid = CidrOid then got (RRest \<circ> VIPNet) (decodeInet vr)
      else if oid = JsonOid \<or> oid = JsonbOid then got (RJson \<circ> fst) (decodeJSON (decode_any sc) vr JNull)
      else Some ((Some (RowProtocol ''Values cannot handle binary format non-intrinsic types''), []), vr))"

definition column_value :: "strconv \<Rightarrow> zone \<Rightarrow> ValueReader \<Rightarrow> ((pgx_error option \<times> row_val list) \<times> ValueReader) option" where
  "column_value sc local vr =
     (if fd_FormatCode (vr_fd vr) = TextFormatCode then got (RGo \<circ> VString) (vr_ReadString (vr_Len vr) vr)
      else if fd_FormatCode (vr_fd vr) = BinaryFormatCode then binary_value sc local vr
      else Some ((Some (RowProtocol ''Unknown format code''), []), vr))"

text \<open>One turn for every field of the row; no reader (\<open>nil\<close>) makes it panic.\<close>

fun Values_loop :: "strconv \<Rightarrow> zone \<Rightarrow> nat \<Rightarrow> row_val list \<Rightarrow> Rows \<Rightarrow> Conn \<Rightarrow> ((row_val list \<times> pgx_error option) \<times> Rows \<times> Conn) option" where
  "Values_loop sc local 0 values ro c = Some ((values, ro_err ro), ro, c)"
| "Values_loop sc local (Suc n) values ro c =
     (case nextColumn ro c of
        None \<Rightarrow> None
      | Some (None, ro, c) \<Rightarrow> None
      | Some (Some vr, ro, c) \<Rightarrow>
          if vr_Len vr = - 1 then Values_loop sc local n (values @ [RNil]) ro c
          else
            case column_value sc local vr of
              None \<Rightarrow> None
            | Some ((err, vals), vr) \<Rightarrow>
                (let ro = ro\<lparr>ro_vrLen := vr_remaining vr\<rparr>; c = c\<lparr>c_mr := vr_mr vr\<rparr> in
                 case (case err of Some e \<Rightarrow> rows_Fatal e ro c | None \<Rightarrow> (ro, c)) of
                   (ro, c) \<Rightarrow>
                     (case (case vr_err vr of Some e \<Rightarrow> rows_Fatal (ScanFailed e) ro c | None \<Rightarrow> (ro, c)) of
                        (ro, c) \<Rightarrow>
                          if ro_err ro \<noteq> None then Some (([], ro_err ro), ro, c)
                          else Values_loop sc local n (values @ vals) ro c)))"

definition rows_Values :: "strconv \<Rightarrow> zone \<Rightarrow> Rows \<Rightarrow> Conn \<Rightarrow> ((row_val list \<times> pgx_error option) \<times> Rows \<times> Conn) option" where
  "rows_Values sc local ro c =
     (if ro_closed ro then Some (([], Some (RowProtocol ''rows is closed'')), ro, c)
      else Values_loop sc local (length (ro_fields ro)) [] ro c)"

section \<open>Destinations of database/sql\<close>

text \<open>
  The values that reach a \<open>sql.Scanner\<close>; the scanner itself is a function of the value and of the state of the destinations, with the error
  it returns.
\<close>

datatype sql_val = SNil | SBool bool | SInt64 "64 word" | SText string | SFloat64 float64 | STime Time | SBytes bytes

definition passed :: "('a \<Rightarrow> sql_val) \<Rightarrow> ('a \<times> ValueReader) option \<Rightarrow> (sql_val \<times> ValueReader) option" where
  "passed mk r = map_option (\<lambda>(x, vr). (mk x, vr)) r"

definition sql_value :: "zone \<Rightarrow> ValueReader \<Rightarrow> (sql_val \<times> ValueReader) option" where
  "sql_value local vr =
     (let oid = fd_DataType (vr_fd vr) in
      if sint (vr_Len vr) < 0 then Some (SNil, vr)
      else if oid = BoolOid then passed SBool (Some (decodeBool vr))
      else if oid = Int8Oid then passed SInt64 (Some (decodeInt8 vr))
      else if oid = Int2Oid then passed (SInt64 \<circ> scast) (Some (decodeInt2 vr))
      else if oid = Int4Oid then passed (SInt64 \<circ> scast) (Some (decodeInt4 vr))
      else if oid = TextOid \<or> oid = VarcharOid then passed SText (decodeText vr)
      else if oid = OidOid then passed (SInt64 \<circ> scast) (decodeOid vr)
      else if oid = Float4Oid then passed (SFloat64 \<circ> widen) (Some (decodeFloat4 vr))
      else if oid = Float8Oid then passed SFloat64 (Some (decodeFloat8 vr))
      else if oid = DateOid then passed STime (Some (decodeDate local vr))
      else if oid = TimestampOid then passed STime (Some (decodeTimestamp local vr))
      else if oid = TimestampTzOid then passed STime (Some (decodeTimestampTz local vr))
      else passed SBytes (vr_ReadBytes (vr_Len vr) vr))"

definition sql_dest :: "zone \<Rightarrow> (sql_val \<Rightarrow> 's \<Rightarrow> pgx_error option \<times> 's) \<Rightarrow> 's column_reader" where
  "sql_dest local scan vr st = map_option (\<lambda>(v, vr). (scan v st, vr)) (sql_value local vr)"

text \<open>A parameter that implements \<open>driver.Valuer\<close> is what its \<open>Value\<close> returned.\<close>

definition Encode_Valuer :: "strconv \<Rightarrow> (enc_error, go_val) result \<Rightarrow> encoder" where
  "Encode_Valuer sc value oid w = (case value of Inl e \<Rightarrow> (Some e, w) | Inr v \<Rightarrow> Encode sc v oid w)"

text \<open>\<open>Decode\<close> into a pointer to a pointer: NULL makes it \<open>nil\<close>.\<close>

definition Decode_pointer :: "go_type \<Rightarrow> ValueReader \<Rightarrow> decoded_value" where
  "Decode_pointer t vr =
     (if vr_Len vr = - 1 then Some ((None, Some (VPtr None)), vr)
      else map_option (\<lambda>((e, v), vr). ((e, map_option (\<lambda>v. VPtr (Some v)) v), vr)) (Decode t vr))"

lemma Decode_pointer_back:
  assumes "decodes_back oid t v body" and "vr_at vr body tail rest" "fd_DataType (vr_fd vr) = oid" "fd_FormatCode (vr_fd vr) = BinaryFormatCode"
  shows "\<exists>vr'. Decode_pointer t vr = Some ((None, Some (VPtr (Some v))), vr') \<and> vr_at vr' [] tail rest"
  using assms vr_Len_nonneg [OF assms(2)] by (fastforce simp: decodes_back_def Decode_pointer_def)

section \<open>Command tags\<close>

text \<open>\<open>strings.LastIndex(s, '' '')\<close> and the value that \<open>strconv.ParseInt(s, 10, 64)\<close> returns beside an error.\<close>

definition LastSpace :: "string \<Rightarrow> nat option" where
  "LastSpace s = (if CHR '' '' \<in> set s then Some (length s - 1 - length (takeWhile (\<lambda>c. c \<noteq> CHR '' '') (rev s))) else None)"

fun ParseUint64_loop :: "nat \<Rightarrow> string \<Rightarrow> nat option" where
  "ParseUint64_loop n [] = Some n"
| "ParseUint64_loop n (c # cs) =
     (if \<not> is_digit c then None
      else let n1 = 10 * n + (code c - 48) in if n1 > 2 ^ 64 - 1 then Some (2 ^ 64 - 1) else ParseUint64_loop n1 cs)"

definition ParseInt64_value :: "string \<Rightarrow> int" where
  "ParseInt64_value s =
     (let neg = (s \<noteq> [] \<and> hd s = CHR ''-'');
          digits = (if s \<noteq> [] \<and> (hd s = CHR ''-'' \<or> hd s = CHR ''+'') then tl s else s) in
      if digits = [] then 0
      else case ParseUint64_loop 0 digits of
             None \<Rightarrow> 0
           | Some un \<Rightarrow>
               if \<not> neg \<and> un \<ge> 2 ^ 63 then 2 ^ 63 - 1
               else if neg \<and> un > 2 ^ 63 then - (2 ^ 63)
               else if neg then - int un else int un)"

definition RowsAffected :: "string \<Rightarrow> int" where
  "RowsAffected ct = (case LastSpace ct of None \<Rightarrow> 0 | Some index \<Rightarrow> ParseInt64_value (drop (index + 1) ct))"


lemma ParseUint64_loop_digits:
  "list_all is_digit s \<Longrightarrow> foldl (\<lambda>v c. 10 * v + (code c - 48)) m s \<le> 2 ^ 64 - 1 \<Longrightarrow>
   ParseUint64_loop m s = Some (foldl (\<lambda>v c. 10 * v + (code c - 48)) m s)"
proof (induction s arbitrary: m)
  case (Cons c s)
  have "10 * m + (code c - 48) \<le> 2 ^ 64 - 1"
    using digits_grow [of "10 * m + (code c - 48)" s] Cons.prems(2) by simp
  with Cons show ?case by (simp add: Let_def)
qed simp

section \<open>A row read as values\<close>

text \<open>A column on the wire, and the value \<open>Values\<close> makes of it.\<close>

definition cell :: "bytes option \<Rightarrow> bytes" where
  "cell b = (case b of None \<Rightarrow> be32 (- 1) | Some b \<Rightarrow> sized b)"

definition column_shows :: "strconv \<Rightarrow> zone \<Rightarrow> FieldDescription \<Rightarrow> bytes option \<Rightarrow> row_val \<Rightarrow> bool" where
  "column_shows sc local fd b v \<longleftrightarrow>
     (case b of
        None \<Rightarrow> v = RNil
      | Some b \<Rightarrow> \<forall>vr tail rest. vr_at vr b tail rest \<and> vr_fd vr = fd \<longrightarrow>
          (\<exists>vr'. column_value sc local vr = Some ((None, [v]), vr') \<and> vr_at vr' [] tail rest))"

definition in_row :: "Rows \<Rightarrow> bool" where
  "in_row ro \<longleftrightarrow> \<not> ro_closed ro \<and> ro_err ro = None \<and> sint (ro_vrLen ro) \<le> 0"

lemma nextColumn_cell:
  assumes ro: "in_row ro" "ro_columnIdx ro < length (ro_fields ro)" and at: "conn_at c (cell b @ tail) rest"
  shows "\<exists>r n. nextColumn ro c = Some (Some \<lparr>vr_mr = r, vr_fd = ro_fields ro ! ro_columnIdx ro, vr_remaining = n, vr_err = None\<rparr>,
      ro\<lparr>ro_columnIdx := ro_columnIdx ro + 1, ro_vrLen := n\<rparr>, c\<lparr>c_mr := r\<rparr>) \<and>
    (case b of None \<Rightarrow> n = - 1 \<and> mr_at r tail rest | Some b \<Rightarrow> n = word_of_nat (length b) \<and> mr_at r (b @ tail) rest)"
proof -
  let ?n = "(case b of None \<Rightarrow> - 1 | Some b \<Rightarrow> word_of_nat (length b)) :: 32 word" and ?b = "case b of None \<Rightarrow> [] | Some b \<Rightarrow> b"
  have "mr_at (c_mr c) (be32 ?n @ ?b @ tail) rest" using at by (auto simp: conn_at_def cell_def sized_def split: option.splits)
  then obtain r where "readInt32 (c_mr c) = (?n, r)" "mr_at r (?b @ tail) rest" using readInt32_at by blast
  with ro show ?thesis by (intro exI [of _ r] exI [of _ ?n]) (auto simp: nextColumn_def in_row_def split: option.splits)
qed

lemma Values_cells:
  "list_all2 (\<lambda>(fd, b) v. column_shows sc local fd b v) (zip (drop (ro_columnIdx ro) (ro_fields ro)) bs) vs \<Longrightarrow>
   ro_columnIdx ro + length bs = length (ro_fields ro) \<Longrightarrow> in_row ro \<Longrightarrow> conn_at c (concat (map cell bs) @ tail) rest \<Longrightarrow>
   \<exists>ro' c'. Values_loop sc local (length bs) acc ro c = Some ((acc @ vs, None), ro', c') \<and> in_row ro' \<and> ro_fields ro' = ro_fields ro \<and>
     ro_columnIdx ro' = length (ro_fields ro) \<and> conn_at c' tail rest"
proof (induction bs arbitrary: ro c acc vs)
  case Nil
  then show ?case by (auto simp: in_row_def)
next
  case (Cons b bs)
  let ?i = "ro_columnIdx ro"
  have i: "?i < length (ro_fields ro)" using Cons.prems(2) by simp
  then have d: "drop ?i (ro_fields ro) = ro_fields ro ! ?i # drop (Suc ?i) (ro_fields ro)" by (rule Cons_nth_drop_Suc [symmetric])
  obtain v vs' where vs: "vs = v # vs'" and v: "column_shows sc local (ro_fields ro ! ?i) b v"
    and rest: "list_all2 (\<lambda>(fd, b) v. column_shows sc local fd b v) (zip (drop (Suc ?i) (ro_fields ro)) bs) vs'"
    using Cons.prems(1) by (auto simp: d list_all2_Cons1)
  have at: "conn_at c (cell b @ concat (map cell bs) @ tail) rest" using Cons.prems(4) by simp
  obtain r n where col: "nextColumn ro c = Some (Some \<lparr>vr_mr = r, vr_fd = ro_fields ro ! ?i, vr_remaining = n, vr_err = None\<rparr>,
      ro\<lparr>ro_columnIdx := ?i + 1, ro_vrLen := n\<rparr>, c\<lparr>c_mr := r\<rparr>)"
    and n: "case b of None \<Rightarrow> n = - 1 \<and> mr_at r (concat (map cell bs) @ tail) rest
      | Some b \<Rightarrow> n = word_of_nat (length b) \<and> mr_at r (b @ concat (map cell bs) @ tail) rest"
    using nextColumn_cell [OF Cons.prems(3) i at] by blast
  have alive: "c_alive c" using at by (simp add: conn_at_def)
  have next_turn: ?case if "Values_loop sc local (length (b # bs)) acc ro c = Values_loop sc local (length bs) (acc @ [v])
      (ro\<lparr>ro_columnIdx := ?i + 1, ro_vrLen := n'\<rparr>) (c\<lparr>c_mr := r'\<rparr>)" "sint n' \<le> 0" "mr_at r' (concat (map cell bs) @ tail) rest" for n' r'
    using Cons.IH [of "ro\<lparr>ro_columnIdx := ?i + 1, ro_vrLen := n'\<rparr>" vs' "c\<lparr>c_mr := r'\<rparr>" "acc @ [v]"] that rest Cons.prems(2,3) alive vs
    by (simp add: in_row_def conn_at_def)
  show ?case
  proof (cases b)
    case None
    with v n col show ?thesis by (intro next_turn [of n r]) (auto simp: column_shows_def vr_Len_def)
  next
    case (Some x)
    let ?vr = "\<lparr>vr_mr = r, vr_fd = ro_fields ro ! ?i, vr_remaining = n, vr_err = None\<rparr>"
    have x: "n = word_of_nat (length x)" "mr_at r (x @ concat (map cell bs) @ tail) rest" using n Some by simp_all
    have "length x < 2 ^ 31" using x(2) sint_range_size [of "mr_remaining r"] by (simp add: mr_at_def word_size)
    then have vr: "vr_at ?vr x (concat (map cell bs) @ tail) rest" using x by (simp add: vr_at_def sint_word_of_nat)
    have "\<forall>vr tail rest. vr_at vr x tail rest \<and> vr_fd vr = ro_fields ro ! ?i \<longrightarrow>
        (\<exists>vr'. column_value sc local vr = Some ((None, [v]), vr') \<and> vr_at vr' [] tail rest)"
      using v Some by (simp add: column_shows_def)
    moreover have "vr_fd ?vr = ro_fields ro ! ?i" by simp
    ultimately obtain vr' where vr': "column_value sc local ?vr = Some ((None, [v]), vr')" "vr_at vr' [] (concat (map cell bs) @ tail) rest"
      using vr by blast
    have "vr_Len ?vr \<noteq> - 1" by (rule vr_Len_nonneg [OF vr])
    with vr' col Cons.prems(3) show ?thesis
      by (intro next_turn [of "vr_remaining vr'" "vr_mr vr'"]) (auto simp: vr_at_def in_row_def Let_def)
  qed
qed


text \<open>The bytes of a value in a column: as text, or in the binary form of its type.\<close>

fun binary_form :: "row_val \<Rightarrow> (Oid \<times> bytes) option" where
  "binary_form (RGo (VBool b)) = Some (BoolOid, [if b then 1 else 0])"
| "binary_form (RGo (VBytes b)) = Some (ByteaOid, b)"
| "binary_form (RGo (VInt16 n)) = Some (Int2Oid, be16 n)"
| "binary_form (RGo (VInt32 n)) = Some (Int4Oid, be32 n)"
| "binary_form (RGo (VInt64 n)) = Some (Int8Oid, be64 n)"
| "binary_form (RGo (VOid n)) = Some (OidOid, be32 n)"
| "binary_form (RRest (VFloat32 x)) = Some (Float4Oid, be32 x)"
| "binary_form (RRest (VFloat64 x)) = Some (Float8Oid, be64 x)"
| "binary_form (RGo (VBools xs)) = Some (BoolArrayOid, array_body BoolOid (\<lambda>b. [if b then 1 else 0]) xs)"
| "binary_form (RGo (VInt16s xs)) = Some (Int2ArrayOid, array_body Int2Oid be16 xs)"
| "binary_form (RGo (VInt32s xs)) = Some (Int4ArrayOid, array_body Int4Oid be32 xs)"
| "binary_form (RGo (VInt64s xs)) = Some (Int8ArrayOid, array_body Int8Oid be64 xs)"
| "binary_form _ = None"

definition row_cell :: "FieldDescription \<Rightarrow> bytes option \<Rightarrow> row_val \<Rightarrow> bool" where
  "row_cell fd b v \<longleftrightarrow>
     b = None \<and> v = RNil \<or>
     fd_FormatCode fd = TextFormatCode \<and> (\<exists>s. b = Some (bytes_of_string s) \<and> v = RGo (VString s)) \<or>
     fd_FormatCode fd = BinaryFormatCode \<and> (\<exists>x. b = Some x \<and> binary_form v = Some (fd_DataType fd, x))"

lemmas row_oids = oid_defs float_oids

lemma scalars_shown:
  assumes at: "vr_at vr b tail rest" and fd: "fd_DataType (vr_fd vr) = oid" "fd_FormatCode (vr_fd vr) = BinaryFormatCode"
  shows "oid = BoolOid \<Longrightarrow> b = [if x then 1 else 0] \<Longrightarrow> \<exists>vr'. decodeBool vr = (x, vr') \<and> vr_at vr' [] tail rest"
    and "oid = Int2Oid \<Longrightarrow> b = be16 n2 \<Longrightarrow> \<exists>vr'. decodeInt2 vr = (n2, vr') \<and> vr_at vr' [] tail rest"
    and "oid = Int4Oid \<Longrightarrow> b = be32 n4 \<Longrightarrow> \<exists>vr'. decodeInt4 vr = (n4, vr') \<and> vr_at vr' [] tail rest"
    and "oid = Int8Oid \<Longrightarrow> b = be64 n8 \<Longrightarrow> \<exists>vr'. decodeInt8 vr = (n8, vr') \<and> vr_at vr' [] tail rest"
    and "oid = OidOid \<Longrightarrow> b = be32 n4 \<Longrightarrow> \<exists>vr'. decodeOid vr = Some (n4, vr') \<and> vr_at vr' [] tail rest"
    and "oid = ByteaOid \<Longrightarrow> \<exists>vr'. decodeBytea vr = Some (b, vr') \<and> vr_at vr' [] tail rest"
proof -
  note ck = check_value_at [OF at fd]
  show "oid = BoolOid \<Longrightarrow> b = [if x then 1 else 0] \<Longrightarrow> \<exists>vr'. decodeBool vr = (x, vr') \<and> vr_at vr' [] tail rest"
    using vr_ReadByte_at [of vr "if x then 1 else 0" "[]" tail rest] at ck [of 1 False "\<lambda>vr. case vr_ReadByte vr of (b, vr) \<Rightarrow> (b \<noteq> 0, vr)"]
    by (auto simp: decodeBool_def)
  show "oid = Int2Oid \<Longrightarrow> b = be16 n2 \<Longrightarrow> \<exists>vr'. decodeInt2 vr = (n2, vr') \<and> vr_at vr' [] tail rest"
    using vr_ReadInt16_at [of vr n2 "[]" tail rest] at ck [of 2 0 vr_ReadInt16] by (auto simp: decodeInt2_def)
  show "oid = Int4Oid \<Longrightarrow> b = be32 n4 \<Longrightarrow> \<exists>vr'. decodeInt4 vr = (n4, vr') \<and> vr_at vr' [] tail rest"
    using vr_ReadInt32_at [of vr n4 "[]" tail rest] at ck [of 4 0 vr_ReadInt32] by (auto simp: decodeInt4_def)
  show "oid = Int8Oid \<Longrightarrow> b = be64 n8 \<Longrightarrow> \<exists>vr'. decodeInt8 vr = (n8, vr') \<and> vr_at vr' [] tail rest"
    using vr_ReadInt64_at [of vr n8 "[]" tail rest] at ck [of 8 0 vr_ReadInt64] by (auto simp: decodeInt8_def)
  show "oid = OidOid \<Longrightarrow> b = be32 n4 \<Longrightarrow> \<exists>vr'. decodeOid vr = Some (n4, vr') \<and> vr_at vr' [] tail rest"
    using vr_ReadInt32_at [of vr n4 "[]" tail rest] at fd vr_at_Len [OF at] vr_Len_nonneg [OF at]
    by (auto simp: decodeOid_def TextFormatCode_def BinaryFormatCode_def)
  show "oid = ByteaOid \<Longrightarrow> \<exists>vr'. decodeBytea vr = Some (b, vr') \<and> vr_at vr' [] tail rest"
    using vr_ReadBytes_all [OF at] fd vr_Len_nonneg [OF at] by (auto simp: decodeBytea_def)
qed


lemma arrays_shown:
  assumes at: "vr_at vr b tail rest" and fd: "fd_DataType (vr_fd vr) = oid" "fd_FormatCode (vr_fd vr) = BinaryFormatCode"
  shows "oid = BoolArrayOid \<Longrightarrow> b = array_body el (\<lambda>b. [if b then 1 else 0]) bs \<Longrightarrow> \<exists>vr'. decodeBoolArray vr = Some (bs, vr') \<and> vr_at vr' [] tail rest"
    and "oid = Int2ArrayOid \<Longrightarrow> b = array_body el be16 n2 \<Longrightarrow> \<exists>vr'. decodeInt2Array vr = Some (n2, vr') \<and> vr_at vr' [] tail rest"
    and "oid = Int4ArrayOid \<Longrightarrow> b = array_body el be32 n4 \<Longrightarrow> \<exists>vr'. decodeInt4Array vr = Some (n4, vr') \<and> vr_at vr' [] tail rest"
    and "oid = Int8ArrayOid \<Longrightarrow> b = array_body el be64 n8 \<Longrightarrow> \<exists>vr'. decodeInt8Array vr = Some (n8, vr') \<and> vr_at vr' [] tail rest"
  using bools_read_back [of bs el] int16s_read_back [of n2 el] int32s_read_back [of n4 el] int64s_read_back [of n8 el] at fd
  by (fastforce simp: decodes_back_def stored_def)+

lemma row_cell_shows:
  assumes "row_cell fd b v"
  shows "column_shows sc local fd b v"
proof -
  have "\<exists>vr'. column_value sc local vr = Some ((None, [v]), vr') \<and> vr_at vr' [] tail rest"
    if b: "b = Some x" and at: "vr_at vr x tail rest" and fd: "vr_fd vr = fd" for x vr tail rest
  proof (cases "fd_FormatCode fd = TextFormatCode")
    case True
    then obtain s where "x = bytes_of_string s" "v = RGo (VString s)"
      using assms b by (auto simp: row_cell_def TextFormatCode_def BinaryFormatCode_def)
    then show ?thesis using vr_ReadString_all [OF at] True fd by (auto simp: column_value_def got_def)
  next
    case False
    with assms b have bin: "fd_FormatCode fd = BinaryFormatCode" "binary_form v = Some (fd_DataType fd, x)" by (auto simp: row_cell_def)
    then have f: "fd_DataType (vr_fd vr) = fd_DataType fd" "fd_FormatCode (vr_fd vr) = BinaryFormatCode" using fd by simp_all
    have "column_value sc local vr = binary_value sc local vr" using False bin(1) fd by (simp add: column_value_def)
    moreover have "\<exists>vr'. binary_value sc local vr = Some ((None, [v]), vr') \<and> vr_at vr' [] tail rest"
      using bin(2) at f scalars_shown [OF at f] arrays_shown [OF at f] decodeFloat4_at [of vr _ tail rest] decodeFloat8_at [of vr _ tail rest]
      by (cases v rule: binary_form.cases) (fastforce simp: binary_value_def got_def row_oids)+
    ultimately show ?thesis by simp
  qed
  moreover have "b = None \<Longrightarrow> v = RNil" using assms by (auto simp: row_cell_def)
  ultimately show ?thesis by (auto simp: column_shows_def split: option.split)
qed

section \<open>Properties\<close>

text \<open>
  \<open>Values\<close> returns the values of the row in order, whatever mixture of NULL, text and binary columns it is, and reads the row to its end.
  But once a row with at least one column has been read, a second \<open>Values\<close> and a \<open>Scan\<close> of it panic, where an error was intended.
\<close>

theorem Values_row:
  assumes "in_row ro" "ro_columnIdx ro = 0" and "length bs = length (ro_fields ro)" "ro_fields ro \<noteq> []"
    and "list_all2 (\<lambda>(fd, b) v. row_cell fd b v) (zip (ro_fields ro) bs) vs" and "conn_at c (concat (map cell bs)) rest"
  shows "\<exists>ro' c'. rows_Values sc local ro c = Some ((vs, None), ro', c') \<and> conn_at c' [] rest \<and>
    rows_Values sc local ro' c' = None \<and>
    (\<forall>dest ds. length (dest # ds) = length (ro_fields ro) \<longrightarrow> rows_Scan_all (map Some (dest # ds)) ro' c' st = None)"
proof -
  have "list_all2 (\<lambda>(fd, b) v. column_shows sc local fd b v) (zip (drop (ro_columnIdx ro) (ro_fields ro)) bs) vs"
    using assms(2,5) row_cell_shows by (auto elim!: list_all2_mono)
  then obtain ro' c' where ro': "Values_loop sc local (length bs) [] ro c = Some (([] @ vs, None), ro', c')" "in_row ro'" "ro_fields ro' = ro_fields ro"
    "ro_columnIdx ro' = length (ro_fields ro)" "conn_at c' [] rest"
    using Values_cells [of sc local ro bs vs c "[]" rest "[]"] assms by auto
  obtain n where n: "length (ro_fields ro) = Suc n" using assms(4) by (cases "ro_fields ro") auto
  have "\<exists>p. nextColumn ro' c' = Some (None, p)" using ro'(2-4) by (simp add: nextColumn_def in_row_def)
  then obtain r1 c1 where nc: "nextColumn ro' c' = Some (None, r1, c1)" by (metis surj_pair)
  have "rows_Values sc local ro' c' = None" using nc ro'(2,3) n by (simp add: rows_Values_def in_row_def)
  moreover have "rows_Scan_all (map Some (dest # ds)) ro' c' st = None" if "length (dest # ds) = length (ro_fields ro)" for dest ds
    using nc ro'(3) that by (simp add: rows_Scan_all_def)
  moreover have "rows_Values sc local ro c = Some ((vs, None), ro', c')" using ro'(1) assms(1,3) by (simp add: rows_Values_def in_row_def)
  ultimately show ?thesis using ro'(5) by blast
qed

section \<open>The number of rows in a tag\<close>

text \<open>It is the number after the last space; a tag without a number has none.\<close>

lemma RowsAffected_count:
  assumes "n < 2 ^ 63"
  shows "RowsAffected (verb @ '' '' @ itoa n) = int n"
proof -
  have d: "list_all is_digit (itoa n)" by (rule itoa_digits)
  then have ns: "takeWhile (\<lambda>c. c \<noteq> CHR '' '') (rev (itoa n) @ CHR '' '' # rev verb) = rev (itoa n)"
    by (subst takeWhile_append2) (auto simp: list_all_iff is_digit_def)
  have "LastSpace (verb @ '' '' @ itoa n) = Some (length verb)"
    using ns by (simp add: LastSpace_def)
  moreover have "ParseInt64_value (itoa n) = int n"
  proof -
    have h: "is_digit (hd (itoa n))" using d by (cases "itoa n") auto
    then have "hd (itoa n) \<noteq> CHR ''-''" "hd (itoa n) \<noteq> CHR ''+''" by (auto simp: is_digit_def)
    moreover have "ParseUint64_loop 0 (itoa n) = Some n"
      using ParseUint64_loop_digits [OF d, of 0] digits_value_itoa [of n] assms by (simp add: digits_value_def)
    ultimately show ?thesis using assms by (simp add: ParseInt64_value_def Let_def)
  qed
  ultimately show ?thesis by (simp add: RowsAffected_def)
qed

lemma RowsAffected_none: "CHR '' '' \<notin> set word \<Longrightarrow> RowsAffected word = 0"
  by (simp add: RowsAffected_def LastSpace_def)

end
