(* ===== verification/Pgx_Logger.thy ===== *)
theory Pgx_Logger
  imports Pgx_Values
begin

text \<open>
  The logging of \<open>pgx\<close>: levels and the form in which the arguments of a query are logged (\<open>logger.go\<close>), and what a connection logs
  (\<open>shouldLog\<close>, \<open>log\<close>, \<open>SetLogLevel\<close> of \<open>conn.go\<close>). A logger is known by the calls it receives.
\<close>

definition LogLevelTrace :: int where "LogLevelTrace = 6"
definition LogLevelDebug :: int where "LogLevelDebug = 5"
definition LogLevelInfo :: int where "LogLevelInfo = 4"
definition LogLevelWarn :: int where "LogLevelWarn = 3"
definition LogLevelError :: int where "LogLevelError = 2"
definition LogLevelNone :: int where "LogLevelNone = 1"

lemmas log_levels = LogLevelTrace_def LogLevelDebug_def LogLevelInfo_def LogLevelWarn_def LogLevelError_def LogLevelNone_def

definition LogLevelFromString :: "string \<Rightarrow> int option" where
  "LogLevelFromString s =
     (if s = ''trace'' then Some LogLevelTrace
      else if s = ''debug'' then Some LogLevelDebug
      else if s = ''info'' then Some LogLevelInfo
      else if s = ''warn'' then Some LogLevelWarn
      else if s = ''error'' then Some LogLevelError
      else if s = ''none'' then Some LogLevelNone
      else None)"

definition hex_bytes :: "bytes \<Rightarrow> string" where
  "hex_bytes b = concat (map (\<lambda>x. [hex_digit (unat x div 16), hex_digit (unat x mod 16)]) b)"

definition truncated :: "string \<Rightarrow> nat \<Rightarrow> string" where
  "truncated s n = s @ '' (truncated '' @ itoa n @ '' bytes)''"

definition log_arg :: "go_val \<Rightarrow> go_val" where
  "log_arg a =
     (case a of
        VBytes v \<Rightarrow> VString (if length v < 64 then hex_bytes v else truncated (hex_bytes (take 64 v)) (length v - 64))
      | VString v \<Rightarrow> if length v > 64 then VString (truncated (take 64 v) (length v - 64)) else VString v
      | _ \<Rightarrow> a)"

definition logQueryArgs :: "go_val list \<Rightarrow> go_val list" where
  "logQueryArgs args = map log_arg args"

record log_state =
  lg_logger :: bool
  lg_level :: int
  lg_pid :: int

datatype log_call = CallDebug | CallInfo | CallWarn | CallError

definition shouldLog :: "int \<Rightarrow> log_state \<Rightarrow> bool" where
  "shouldLog lvl c \<longleftrightarrow> lg_logger c \<and> lg_level c \<ge> lvl"

text \<open>The method of the logger that is called, with the process identifier appended to the context when it is known.\<close>

definition conn_log :: "int \<Rightarrow> string \<Rightarrow> string list \<Rightarrow> log_state \<Rightarrow> (log_call \<times> string \<times> string list) option" where
  "conn_log lvl msg ctx c =
     (let ctx = (if lg_pid c \<noteq> 0 then ctx @ [''pid'', format_int (lg_pid c)] else ctx) in
      if lvl = LogLevelTrace \<or> lvl = LogLevelDebug then Some (CallDebug, msg, ctx)
      else if lvl = LogLevelInfo then Some (CallInfo, msg, ctx)
      else if lvl = LogLevelWarn then Some (CallWarn, msg, ctx)
      else if lvl = LogLevelError then Some (CallError, msg, ctx)
      else None)"

definition conn_SetLogger :: "bool \<Rightarrow> log_state \<Rightarrow> bool \<times> log_state" where
  "conn_SetLogger logger c = (lg_logger c, c\<lparr>lg_logger := logger\<rparr>)"

definition conn_SetLogLevel :: "int \<Rightarrow> log_state \<Rightarrow> (int \<times> bool) \<times> log_state" where
  "conn_SetLogLevel lvl c =
     (if lvl < LogLevelNone \<or> lvl > LogLevelTrace then ((lg_level c, False), c) else ((lvl, True), c\<lparr>lg_level := lvl\<rparr>))"

text \<open>A level that was set by its name decides which messages are logged; the call returns the level just set, not the previous one.\<close>

lemma SetLogLevel_named:
  assumes "LogLevelFromString s = Some lvl"
  shows "conn_SetLogLevel lvl c = ((lvl, True), c\<lparr>lg_level := lvl\<rparr>)"
    and "lg_logger c \<Longrightarrow> shouldLog l (snd (conn_SetLogLevel lvl c)) \<longleftrightarrow> l \<le> lvl"
  using assms by (auto simp: LogLevelFromString_def conn_SetLogLevel_def shouldLog_def log_levels split: if_splits)

lemma hex_bytes_append: "hex_bytes (a @ b) = hex_bytes a @ hex_bytes b"
  by (simp add: hex_bytes_def)

text \<open>What is logged of a text or of bytes begins with at most 64 of them; exactly 64 bytes are called truncated though nothing is missing.\<close>

lemma log_arg_prefix:
  "log_arg (VString s) = VString t \<Longrightarrow> \<exists>r. t = take 64 s @ r \<and> (r = [] \<longleftrightarrow> length s \<le> 64)"
  "log_arg (VBytes b) = VString t \<Longrightarrow> \<exists>r. t = hex_bytes (take 64 b) @ r \<and> (r = [] \<longleftrightarrow> length b < 64)"
  by (auto simp: log_arg_def truncated_def split: if_splits)

end
