(* ===== verification/Pgx_Stdlib.thy ===== *)
theory Pgx_Stdlib
  imports Pgx_RowValues Pgx_Tx
begin

text \<open>
  The driver for \<open>database/sql\<close> (\<open>pgx/stdlib/sql.go\<close>) over connections of the pool model. A connection that was not taken from a pool is opened
  by \<open>ParseURI\<close> and \<open>Connect\<close>; that way to one is the argument \<open>open_uri\<close>. Its transactions look at errors only, never at the answer.
\<close>

section \<open>Connections and statements\<close>

definition databaseSqlOids :: "Oid list" where
  "databaseSqlOids = [BoolOid, ByteaOid, Int2Oid, Int4Oid, Int8Oid, Float4Oid, Float8Oid, DateOid, TimestampTzOid, TimestampOid]"

datatype sql_error = ErrBadConn | SqlPgx pgx_error | SqlEOF | SqlText string

record sql_Conn =
  sq_conn :: nat
  sq_pool :: bool
  sq_psCount :: "64 word"

definition Driver_Open ::
  "pool_config option \<Rightarrow> (string \<Rightarrow> pool_state \<Rightarrow> (sql_error, nat) result \<times> pool_state) \<Rightarrow> string \<Rightarrow> pool_state \<Rightarrow>
     ((sql_error, sql_Conn) result \<times> pool_state) option" where
  "Driver_Open pool open_uri name st =
     (case pool of
        Some cfg \<Rightarrow>
          (case acquire cfg st of
             Some (AcqErr e, st) \<Rightarrow> Some (Inl (SqlPgx e), st)
           | Some (Acquired c, st) \<Rightarrow> Some (Inr \<lparr>sq_conn = c, sq_pool = True, sq_psCount = 0\<rparr>, st)
           | _ \<Rightarrow> None)
      | None \<Rightarrow>
          (case open_uri name st of
             (Inl e, st) \<Rightarrow> Some (Inl e, st)
           | (Inr c, st) \<Rightarrow> Some (Inr \<lparr>sq_conn = c, sq_pool = False, sq_psCount = 0\<rparr>, st)))"

text \<open>The limits that \<open>OpenFromConnPool\<close> sets on the \<open>database/sql\<close> side: idle and open connections.\<close>

definition OpenFromConnPool :: "int \<Rightarrow> (sql_error, int \<times> int) result" where
  "OpenFromConnPool maxConnections =
     (if maxConnections \<le> 2 then Inl (SqlText ''pool connection size must be at least 2'') else Inr (maxConnections - 2, maxConnections))"

definition restrict_field :: "FieldDescription \<Rightarrow> FieldDescription" where
  "restrict_field fd = (if fd_DataType fd \<in> set databaseSqlOids then fd else fd\<lparr>fd_FormatCode := TextFormatCode\<rparr>)"

definition restrictBinaryToDatabaseSqlTypes :: "PreparedStatement \<Rightarrow> PreparedStatement" where
  "restrictBinaryToDatabaseSqlTypes ps = ps\<lparr>ps_FieldDescriptions := map restrict_field (ps_FieldDescriptions ps)\<rparr>"

record sql_Stmt =
  ss_name :: string
  ss_ParameterOids :: "Oid list"
  ss_conn :: sql_Conn

text \<open>Preparing under a name; the statement that the connection keeps is the one that is restricted.\<close>

definition prepare_restricted :: "string \<Rightarrow> string \<Rightarrow> nat \<Rightarrow> pool_state \<Rightarrow> ((sql_error, PreparedStatement) result \<times> pool_state) option" where
  "prepare_restricted name query c st =
     (case conn_Prepare name query (conn_in st c) of
        None \<Rightarrow> None
      | Some ((_, Some e), d) \<Rightarrow> Some (Inl (SqlPgx e), set_conn c d st)
      | Some ((None, None), d) \<Rightarrow> None
      | Some ((Some ps, None), d) \<Rightarrow>
          (let ps = restrictBinaryToDatabaseSqlTypes ps in
           Some (Inr ps, set_conn c (d\<lparr>c_preparedStatements := (c_preparedStatements d)(ps_Name ps \<mapsto> ps)\<rparr>) st)))"

definition sql_Prepare :: "string \<Rightarrow> sql_Conn \<Rightarrow> pool_state \<Rightarrow> ((sql_error, sql_Stmt) result \<times> sql_Conn \<times> pool_state) option" where
  "sql_Prepare query cn st =
     (if \<not> IsAlive (conn_in st (sq_conn cn)) then Some (Inl ErrBadConn, cn, st)
      else
        let name = ''pgx_'' @ format_int (sint (sq_psCount cn)); cn = cn\<lparr>sq_psCount := sq_psCount cn + 1\<rparr> in
        case prepare_restricted name query (sq_conn cn) st of
          None \<Rightarrow> None
        | Some (Inl e, st) \<Rightarrow> Some (Inl e, cn, st)
        | Some (Inr ps, st) \<Rightarrow> Some (Inr \<lparr>ss_name = ps_Name ps, ss_ParameterOids = ps_ParameterOids ps, ss_conn = cn\<rparr>, cn, st))"

definition sql_Close :: "strconv \<Rightarrow> sql_Conn \<Rightarrow> pool_state \<Rightarrow> (sql_error option \<times> pool_state) option" where
  "sql_Close sc cn st =
     (if sq_pool cn then map_option (\<lambda>st. (None, st)) (Release sc (sq_conn cn) st)
      else case conn_Close (conn_in st (sq_conn cn)) of (e, d) \<Rightarrow> Some (map_option SqlPgx e, set_conn (sq_conn cn) d st))"

definition valueToInterface :: "go_val list \<Rightarrow> go_val list" where
  "valueToInterface argsV = map (\<lambda>v. if v \<noteq> VNil then v else VNil) argsV"

text \<open>A statement, with the tag of its answer.\<close>

definition exec_on :: "strconv \<Rightarrow> string \<Rightarrow> go_val list \<Rightarrow> nat \<Rightarrow> pool_state \<Rightarrow> ((string \<times> sql_error option) \<times> pool_state) option" where
  "exec_on sc sql args c st =
     map_option (\<lambda>((tag, e), d). ((tag, map_option SqlPgx e), set_conn c d st)) (conn_Exec sc sql args (conn_in st c))"

definition sql_Begin :: "strconv \<Rightarrow> sql_Conn \<Rightarrow> pool_state \<Rightarrow> ((sql_error, nat) result \<times> pool_state) option" where
  "sql_Begin sc cn st =
     (if \<not> IsAlive (conn_in st (sq_conn cn)) then Some (Inl ErrBadConn, st)
      else map_option (\<lambda>((tag, e), st). (case e of Some e \<Rightarrow> Inl e | None \<Rightarrow> Inr (sq_conn cn), st)) (exec_on sc ''begin'' [] (sq_conn cn) st))"

definition sql_Exec :: "strconv \<Rightarrow> string \<Rightarrow> go_val list \<Rightarrow> sql_Conn \<Rightarrow> pool_state \<Rightarrow> ((int option \<times> sql_error option) \<times> pool_state) option" where
  "sql_Exec sc query argsV cn st =
     (if \<not> IsAlive (conn_in st (sq_conn cn)) then Some ((None, Some ErrBadConn), st)
      else map_option (\<lambda>((tag, e), st). ((Some (RowsAffected tag), e), st)) (exec_on sc query (valueToInterface argsV) (sq_conn cn) st))"

definition queryPrepared :: "strconv \<Rightarrow> string \<Rightarrow> go_val list \<Rightarrow> sql_Conn \<Rightarrow> pool_state \<Rightarrow> ((sql_error, Rows) result \<times> pool_state) option" where
  "queryPrepared sc name argsV cn st =
     (if \<not> IsAlive (conn_in st (sq_conn cn)) then Some (Inl ErrBadConn, st)
      else map_option (\<lambda>(rows, d). (case ro_err rows of Some e \<Rightarrow> Inl (SqlPgx e) | None \<Rightarrow> Inr rows, set_conn (sq_conn cn) d st))
             (conn_Query sc name (valueToInterface argsV) (conn_in st (sq_conn cn))))"

definition sql_Query :: "strconv \<Rightarrow> string \<Rightarrow> go_val list \<Rightarrow> sql_Conn \<Rightarrow> pool_state \<Rightarrow> ((sql_error, Rows) result \<times> pool_state) option" where
  "sql_Query sc query argsV cn st =
     (if \<not> IsAlive (conn_in st (sq_conn cn)) then Some (Inl ErrBadConn, st)
      else
        case prepare_restricted [] query (sq_conn cn) st of
          None \<Rightarrow> None
        | Some (Inl e, st) \<Rightarrow> Some (Inl e, st)
        | Some (Inr ps, st) \<Rightarrow> queryPrepared sc [] argsV cn st)"

definition stmt_Close :: "sql_Stmt \<Rightarrow> pool_state \<Rightarrow> sql_error option \<times> pool_state" where
  "stmt_Close s st =
     (case conn_Deallocate (ss_name s) (conn_in st (sq_conn (ss_conn s))) of (e, d) \<Rightarrow> (map_option SqlPgx e, set_conn (sq_conn (ss_conn s)) d st))"

definition NumInput :: "sql_Stmt \<Rightarrow> nat" where
  "NumInput s = length (ss_ParameterOids s)"

definition stmt_Exec :: "strconv \<Rightarrow> go_val list \<Rightarrow> sql_Stmt \<Rightarrow> pool_state \<Rightarrow> ((int option \<times> sql_error option) \<times> pool_state) option" where
  "stmt_Exec sc argsV s st = sql_Exec sc (ss_name s) argsV (ss_conn s) st"

definition stmt_Query :: "strconv \<Rightarrow> go_val list \<Rightarrow> sql_Stmt \<Rightarrow> pool_state \<Rightarrow> ((sql_error, Rows) result \<times> pool_state) option" where
  "stmt_Query sc argsV s st = queryPrepared sc (ss_name s) argsV (ss_conn s) st"

section \<open>Rows and transactions\<close>

definition Columns :: "Rows \<Rightarrow> string list" where
  "Columns ro = map fd_Name (ro_fields ro)"

definition sql_rows_Close :: "Rows \<Rightarrow> Conn \<Rightarrow> Rows \<times> Conn" where
  "sql_rows_Close ro c = rows_Close ro c"

text \<open>\<open>Next\<close> fills \<open>dest\<close> from the left.\<close>

definition sql_Next :: "strconv \<Rightarrow> zone \<Rightarrow> row_val list \<Rightarrow> Rows \<Rightarrow> Conn \<Rightarrow> ((sql_error option \<times> row_val list) \<times> Rows \<times> Conn) option" where
  "sql_Next sc local dest ro c =
     (case rows_Next ro c of
        (False, ro, c) \<Rightarrow> Some ((Some (case ro_err ro of None \<Rightarrow> SqlEOF | Some e \<Rightarrow> SqlPgx e), dest), ro, c)
      | (True, ro, c) \<Rightarrow>
          (case rows_Values sc local ro c of
             None \<Rightarrow> None
           | Some ((values, Some e), ro, c) \<Rightarrow> Some ((Some (SqlPgx e), dest), ro, c)
           | Some ((values, None), ro, c) \<Rightarrow>
               if length dest < length values then Some ((Some (SqlText ''expected more values than were received''), dest), ro, c)
               else Some ((None, values @ drop (length values) dest), ro, c)))"

definition sql_Commit :: "strconv \<Rightarrow> nat \<Rightarrow> pool_state \<Rightarrow> (sql_error option \<times> pool_state) option" where
  "sql_Commit sc c st = map_option (\<lambda>((tag, e), st). (e, st)) (exec_on sc ''commit'' [] c st)"

definition sql_Rollback :: "strconv \<Rightarrow> nat \<Rightarrow> pool_state \<Rightarrow> (sql_error option \<times> pool_state) option" where
  "sql_Rollback sc c st = map_option (\<lambda>((tag, e), st). (e, st)) (exec_on sc ''rollback'' [] c st)"


section \<open>The types of the values\<close>

text \<open>Reading leaves the fields of the rows alone.\<close>

lemma fields_close [simp]: "ro_fields (fst (rows_close ro c)) = ro_fields ro"
  by (simp add: rows_close_def)

lemma fields_readUntil [simp]: "ro_fields (fst (readUntilReadyForQuery ro c)) = ro_fields ro"
proof (induction ro c rule: readUntilReadyForQuery.induct)
  case (1 ro c)
  show ?case
    using 1(1) [OF refl refl refl] 1(2) [OF refl refl refl] 1(3) [OF refl refl refl]
    by (subst readUntilReadyForQuery.simps) (simp add: Let_def)
qed

lemma fields_Fatal [simp]: "ro_fields (fst (rows_Fatal e ro c)) = ro_fields ro"
  by (simp add: rows_Fatal_def rows_Close_def case_prod_beta)

lemma Next_loop_same: "Next_loop ro c = (True, ro', c') \<Longrightarrow> ro' = ro"
proof (induction ro c rule: Next_loop.induct)
  case (1 ro c)
  show ?case
    using 1(1) [OF refl refl refl] 1(2) [OF refl refl refl] 1(3)
    by (subst (asm) (3) Next_loop.simps) (auto simp: Let_def split: if_splits prod.splits)
qed

lemma rows_Next_fields: "rows_Next ro c = (True, ro', c') \<Longrightarrow> ro_fields ro' = ro_fields ro"
  by (auto simp: rows_Next_def split: if_splits dest: Next_loop_same)

text \<open>The types that the comment of \<open>restrictBinaryToDatabaseSqlTypes\<close> calls intrinsic.\<close>

fun intrinsic :: "row_val \<Rightarrow> bool" where
  "intrinsic RNil = True"
| "intrinsic (RGo v) = (case v of VBool _ \<Rightarrow> True | VBytes _ \<Rightarrow> True | VInt16 _ \<Rightarrow> True | VInt32 _ \<Rightarrow> True | VInt64 _ \<Rightarrow> True | VString _ \<Rightarrow> True | _ \<Rightarrow> False)"
| "intrinsic (RRest v) = (case v of VFloat32 _ \<Rightarrow> True | VFloat64 _ \<Rightarrow> True | VTime _ \<Rightarrow> True | _ \<Rightarrow> False)"
| "intrinsic (RJson v) = False"

definition sql_field :: "FieldDescription \<Rightarrow> bool" where
  "sql_field fd \<longleftrightarrow> fd_FormatCode fd = BinaryFormatCode \<longrightarrow> fd_DataType fd \<in> set databaseSqlOids"

lemma restrict_field_sql: "sql_field (restrict_field fd)"
  by (simp add: restrict_field_def sql_field_def TextFormatCode_def BinaryFormatCode_def)

lemma column_value_intrinsic:
  assumes "column_value sc local vr = Some ((e, vals), vr')" and "sql_field (vr_fd vr)"
  shows "list_all intrinsic vals"
  using assms
  by (auto simp: column_value_def binary_value_def got_def sql_field_def databaseSqlOids_def row_oids time_oids inet_oids
      case_prod_beta split: if_splits)

lemma Values_loop_intrinsic:
  "Values_loop sc local n acc ro c = Some ((vs, None), ro', c') \<Longrightarrow> list_all sql_field (ro_fields ro) \<Longrightarrow> list_all intrinsic acc \<Longrightarrow>
   list_all intrinsic vs"
proof (induction n arbitrary: acc ro c)
  case (Suc n)
  obtain vr ro1 c1 where nc: "nextColumn ro c = Some (Some vr, ro1, c1)"
    using Suc.prems(1) by (auto split: option.splits)
  then have fd: "sql_field (vr_fd vr)" "ro_fields ro1 = ro_fields ro"
    using Suc.prems(2) by (auto simp: nextColumn_def list_all_length split: if_splits option.splits prod.splits)
  show ?case
  proof (cases "vr_Len vr = - 1")
    case True
    with Suc.prems nc fd(2) show ?thesis by (auto intro: Suc.IH)
  next
    case False
    then obtain e vals vr' where cv: "column_value sc local vr = Some ((e, vals), vr')"
      using Suc.prems(1) nc by (auto split: option.splits)
    let ?p = "case e of Some e \<Rightarrow> rows_Fatal e (ro1\<lparr>ro_vrLen := vr_remaining vr'\<rparr>) (c1\<lparr>c_mr := vr_mr vr'\<rparr>)
      | None \<Rightarrow> (ro1\<lparr>ro_vrLen := vr_remaining vr'\<rparr>, c1\<lparr>c_mr := vr_mr vr'\<rparr>)"
    let ?q = "case vr_err vr' of Some e \<Rightarrow> rows_Fatal (ScanFailed e) (fst ?p) (snd ?p) | None \<Rightarrow> ?p"
    have f: "ro_fields (fst ?q) = ro_fields ro" by (simp add: fd(2) split: option.split)
    have "Values_loop sc local n (acc @ vals) (fst ?q) (snd ?q) = Some ((vs, None), ro', c')"
      using Suc.prems(1) nc cv False by (auto simp: Let_def case_prod_beta split: if_splits option.splits)
    with f show ?thesis using Suc.prems(2,3) column_value_intrinsic [OF cv fd(1)] by (auto intro: Suc.IH)
  qed
qed simp

section \<open>Properties\<close>

text \<open>
  The transactions of \<open>database/sql\<close> take a commit that the server turned into a rollback for a success: \<open>Commit\<close> of this driver returns no
  error where the \<open>Commit\<close> of \<open>pgx\<close> itself reports \<open>ErrTxCommitRollback\<close>.
\<close>

theorem sql_commit_hides_rollback:
  assumes "conn_idle (conn_in st c) (srv_bytes ms @ ready_bytes s @ rest)" and "list_all (\<lambda>m. msg_ok m \<and> \<not> fatal_msg m) ms"
    and "exec_spec [] None ms = (''ROLLBACK'', None)"
  shows "\<exists>st'. sql_Commit sc c st = Some (None, st') \<and>
    (\<forall>tx. tx_conn tx = c \<and> tx_status tx = 0 \<and> tx_afterClose tx = None \<longrightarrow>
       (\<exists>tx'. Commit sc tx st = Some (Some ErrTxCommitRollback, tx', st') \<and> tx_status tx' = - 1))"
proof -
  obtain d where "conn_Exec sc ''commit'' [] (conn_in st c) = Some ((''ROLLBACK'', None), d)"
    using Exec_simple [OF assms(1) _ assms(2), of "''commit''" sc] assms(3) by auto
  then show ?thesis by (auto simp: sql_Commit_def exec_on_def Commit_def tx_closed_def Let_def)
qed

text \<open>
  The rows of a restricted statement only hold values of the intrinsic types: no array, address or JSON value ever reaches
  \<open>database/sql\<close>, whatever the server sends.
\<close>

theorem sql_Next_intrinsic:
  assumes "ro_fields ro = map restrict_field fds" and "sql_Next sc local dest ro c = Some ((None, dest'), ro', c')" and "list_all intrinsic dest"
  shows "list_all intrinsic dest' \<and> length dest' = length dest"
proof -
  obtain ro1 c1 vs where n: "rows_Next ro c = (True, ro1, c1)" and v: "rows_Values sc local ro1 c1 = Some ((vs, None), ro', c')"
    and d: "length vs \<le> length dest" "dest' = vs @ drop (length vs) dest"
    using assms(2) by (auto simp: sql_Next_def split: prod.splits bool.splits option.splits if_splits)
  have "list_all sql_field (ro_fields ro1)" using rows_Next_fields [OF n] assms(1) by (simp add: list_all_iff restrict_field_sql)
  then have "list_all intrinsic vs" using v by (auto simp: rows_Values_def split: if_splits dest: Values_loop_intrinsic)
  moreover have "list_all intrinsic (drop (length vs) dest)" using assms(3) by (auto simp: list_all_iff dest: in_set_dropD)
  ultimately show ?thesis using d by simp
qed

text \<open>The number of rows that \<open>Exec\<close> returns is the one at the end of the command tag.\<close>

theorem sql_Exec_counts:
  assumes "conn_idle (conn_in st (sq_conn cn)) (srv_bytes ms @ ready_bytes s @ rest)" and "list_all (\<lambda>m. msg_ok m \<and> \<not> fatal_msg m) ms"
    and "exec_spec [] None ms = (verb @ '' '' @ itoa n, None)" and "n < 2 ^ 63" and "query \<noteq> []"
  shows "\<exists>st'. sql_Exec sc query [] cn st = Some ((Some (int n), None), st') \<and> conn_idle (conn_in st' (sq_conn cn)) rest"
proof -
  obtain d where d: "conn_Exec sc query [] (conn_in st (sq_conn cn)) = Some ((verb @ '' '' @ itoa n, None), d)" "conn_idle d rest"
    using Exec_simple [OF assms(1,5,2), of sc] assms(3) by auto
  have "IsAlive (conn_in st (sq_conn cn))" using assms(1) by (simp add: conn_idle_def conn_at_def IsAlive_def)
  moreover have "RowsAffected (verb @ '' '' @ itoa n) = int n" using RowsAffected_count [OF assms(4)] .
  ultimately show ?thesis using d by (simp add: sql_Exec_def exec_on_def valueToInterface_def)
qed

section \<open>Witnesses\<close>

theorem sql_commit_hides_rollback_witness:
  "\<exists>st'. sql_Commit int_strconv 0 (demo_store (srv_bytes [SCommandComplete ''ROLLBACK''] @ ready_bytes 73 @ [])) = Some (None, st')"
proof -
  have "list_all (\<lambda>m. msg_ok m \<and> \<not> fatal_msg m) [SCommandComplete ''ROLLBACK'']" by (simp add: msg_ok.simps)
  then show ?thesis
    using sql_commit_hides_rollback [where st = "demo_store (srv_bytes [SCommandComplete ''ROLLBACK''] @ ready_bytes 73 @ [])" and c = 0 and sc = int_strconv,
        OF demo_store_idle(1)]
    by fastforce
qed

end
