(* ===== verification/Pgx_Dsn.thy ===== *)
theory Pgx_Dsn
  imports Engine_Startup
begin

text \<open>
  Data source names (\<open>ParseDSN\<close> of \<open>pgx/conn.go\<close>): a text of settings \<open>key=value\<close>, found by a regular expression. The
  matcher below is the leftmost-first match of that expression, repeated after each match; text between
  matches is passed over. A name written with the settings of a configuration is read back; values in double
  quotes keep their quotes.
\<close>

section \<open>The expression \<open>([a-zA-Z_]+)=((?:"[^"]+")|(?:[^ ]+))\<close>\<close>

definition is_key_char :: "char \<Rightarrow> bool" where
  "is_key_char c \<longleftrightarrow> 97 \<le> code c \<and> code c \<le> 122 \<or> 65 \<le> code c \<and> code c \<le> 90 \<or> c = CHR ''_''"

definition match_word :: "string \<Rightarrow> (string \<times> string) option" where
  "match_word v = (let w = takeWhile (\<lambda>c. c \<noteq> CHR '' '') v in if w = [] then None else Some (w, drop (length w) v))"

definition match_value :: "string \<Rightarrow> (string \<times> string) option" where
  "match_value v =
     (case v of
        [] \<Rightarrow> None
      | c # t \<Rightarrow>
          (let q = takeWhile (\<lambda>c. c \<noteq> CHR 0x22) t in
           if c = CHR 0x22 \<and> q \<noteq> [] \<and> length q < length t then Some (c # q @ [CHR 0x22], drop (length q + 1) t)
           else match_word v))"

text \<open>A match at the start of the text: the key, the value and what follows.\<close>

definition match_setting :: "string \<Rightarrow> (string \<times> string \<times> string) option" where
  "match_setting s =
     (let k = takeWhile is_key_char s in
      if k = [] then None
      else case drop (length k) s of
             [] \<Rightarrow> None
           | c # v \<Rightarrow> if c \<noteq> CHR ''='' then None else map_option (Pair k) (match_value v))"

lemma match_value_shrinks: "match_value v = Some (x, rest) \<Longrightarrow> length rest < length v"
  by (auto simp: match_value_def match_word_def Let_def split: list.splits if_splits)

lemma match_setting_shrinks: "match_setting s = Some (k, x, rest) \<Longrightarrow> length rest < length s"
proof -
  assume a: "match_setting s = Some (k, x, rest)"
  let ?d = "drop (length (takeWhile is_key_char s)) s"
  from a obtain c v where d: "?d = c # v" and v: "match_value v = Some (x, rest)"
    by (cases ?d) (simp_all add: match_setting_def Let_def split: if_split_asm)
  from d have "length (c # v) \<le> length s" by (metis length_drop diff_le_self)
  with match_value_shrinks [OF v] show ?thesis by simp
qed

function FindAllSettings :: "string \<Rightarrow> (string \<times> string) list" where
  "FindAllSettings s =
     (case s of
        [] \<Rightarrow> []
      | c # t \<Rightarrow>
          (case match_setting s of
             None \<Rightarrow> FindAllSettings t
           | Some (k, v, rest) \<Rightarrow> (k, v) # FindAllSettings rest))"
  by pat_completeness auto
termination
  by (relation "measure length") (auto dest: match_setting_shrinks)

declare FindAllSettings.simps [simp del]

section \<open>Settings\<close>

record dsn_state =
  ds_config :: ConnConfig
  ds_sslmode :: string

fun dsn_settings :: "(string \<times> string) list \<Rightarrow> dsn_state \<Rightarrow> (go_error, dsn_state) result" where
  "dsn_settings [] st = Inr st"
| "dsn_settings ((k, v) # ms) st =
     (let cp = ds_config st in
      if k = ''user'' then dsn_settings ms (st\<lparr>ds_config := cp\<lparr>cc_User := v\<rparr>\<rparr>)
      else if k = ''password'' then dsn_settings ms (st\<lparr>ds_config := cp\<lparr>cc_Password := v\<rparr>\<rparr>)
      else if k = ''host'' then dsn_settings ms (st\<lparr>ds_config := cp\<lparr>cc_Host := v\<rparr>\<rparr>)
      else if k = ''port'' then
        (case ParseUint10 16 v of
           None \<Rightarrow> Inl (ErrorString ''strconv.ParseUint'')
         | Some p \<Rightarrow> dsn_settings ms (st\<lparr>ds_config := cp\<lparr>cc_Port := word_of_nat p\<rparr>\<rparr>))
      else if k = ''dbname'' then dsn_settings ms (st\<lparr>ds_config := cp\<lparr>cc_Database := v\<rparr>\<rparr>)
      else if k = ''sslmode'' then dsn_settings ms (st\<lparr>ds_sslmode := v\<rparr>)
      else dsn_settings ms (st\<lparr>ds_config := cp\<lparr>cc_RuntimeParams := AList.update k v (cc_RuntimeParams cp)\<rparr>\<rparr>))"

definition ParseDSN :: "string \<Rightarrow> (go_error, ConnConfig \<times> tls_settings) result" where
  "ParseDSN s =
     (case dsn_settings (FindAllSettings s) \<lparr>ds_config = zero_ConnConfig, ds_sslmode = []\<rparr> of
        Inl e \<Rightarrow> Inl e
      | Inr st \<Rightarrow>
          (case configSSL (ds_sslmode st) (cc_Host (ds_config st)) of
             Inl e \<Rightarrow> Inl e
           | Inr tls \<Rightarrow> Inr (ds_config st, tls)))"

section \<open>Reading a name back\<close>

text \<open>A name as it is documented: settings separated by spaces.\<close>

definition plain_setting :: "string \<times> string \<Rightarrow> bool" where
  "plain_setting kv \<longleftrightarrow> fst kv \<noteq> [] \<and> list_all is_key_char (fst kv) \<and> snd kv \<noteq> [] \<and> CHR '' '' \<notin> set (snd kv) \<and> hd (snd kv) \<noteq> CHR 0x22"

definition dsn_text :: "(string \<times> string) list \<Rightarrow> string" where
  "dsn_text ms = Join (map (\<lambda>(k, v). k @ ''='' @ v) ms) '' ''"

lemma takeWhile_all_then: "list_all P k \<Longrightarrow> \<not> P c \<Longrightarrow> takeWhile P (k @ c # t) = k"
  by (induction k) auto

lemma match_plain:
  assumes "plain_setting (k, v)" and "rest = [] \<or> hd rest = CHR '' ''"
  shows "match_setting (k @ ''='' @ v @ rest) = Some (k, v, rest)"
proof -
  have "\<not> is_key_char CHR ''=''" by (simp add: is_key_char_def)
  with assms(1) have key: "takeWhile is_key_char (k @ ''='' @ v @ rest) = k"
    using takeWhile_all_then [of is_key_char k "CHR ''=''" "v @ rest"] by (simp add: plain_setting_def)
  have "\<forall>x\<in>set v. x \<noteq> CHR '' ''" using assms(1) by (auto simp: plain_setting_def)
  then have "takeWhile (\<lambda>c. c \<noteq> CHR '' '') (v @ rest) = v"
    using assms(2) by (cases rest) (simp_all add: takeWhile_append)
  moreover obtain c t where v: "v = c # t" "c \<noteq> CHR 0x22" using assms(1) by (cases v) (auto simp: plain_setting_def)
  ultimately have "match_value (v @ rest) = Some (v, rest)"
    using assms(1) by (simp add: match_value_def match_word_def Let_def plain_setting_def)
  with key assms(1) show ?thesis by (simp add: match_setting_def Let_def plain_setting_def)
qed

lemma FindAllSettings_space: "FindAllSettings (CHR '' '' # s) = FindAllSettings s"
  by (subst FindAllSettings.simps) (simp add: match_setting_def Let_def is_key_char_def)

lemma FindAllSettings_dsn: "list_all plain_setting ms \<Longrightarrow> FindAllSettings (dsn_text ms) = ms"
proof (induction ms rule: induct_list012)
  case 1
  then show ?case by (simp add: dsn_text_def FindAllSettings.simps)
next
  case (2 m)
  obtain k v where m: "m = (k, v)" by (cases m)
  have "match_setting (k @ ''='' @ v) = Some (k, v, [])" using match_plain [of k v "[]"] 2 m by simp
  with m show ?case by (subst FindAllSettings.simps) (auto simp: dsn_text_def FindAllSettings.simps [of "[]"] split: list.splits)
next
  case (3 m n ms)
  obtain k v where m: "m = (k, v)" by (cases m)
  have eq: "dsn_text (m # n # ms) = k @ ''='' @ v @ '' '' @ dsn_text (n # ms)" by (simp add: dsn_text_def m)
  have "match_setting (dsn_text (m # n # ms)) = Some (k, v, '' '' @ dsn_text (n # ms))"
    using match_plain [of k v "'' '' @ dsn_text (n # ms)"] 3 m eq by simp
  moreover have "dsn_text (m # n # ms) \<noteq> []" by (simp add: eq)
  ultimately show ?case
    using 3 m by (subst FindAllSettings.simps) (auto simp: FindAllSettings_space split: list.splits)
qed

text \<open>The settings of a configuration, the run-time parameters last.\<close>

definition config_settings :: "ConnConfig \<Rightarrow> string \<Rightarrow> (string \<times> string) list" where
  "config_settings cc sslmode =
     [(''user'', cc_User cc), (''password'', cc_Password cc), (''host'', cc_Host cc), (''port'', itoa (unat (cc_Port cc))),
      (''dbname'', cc_Database cc), (''sslmode'', sslmode)] @ cc_RuntimeParams cc"

definition reserved_keys :: "string set" where
  "reserved_keys = {''user'', ''password'', ''host'', ''port'', ''dbname'', ''sslmode''}"

lemma dsn_settings_params:
  "distinct (map fst (ps @ ms)) \<Longrightarrow> fst ` set ms \<inter> reserved_keys = {} \<Longrightarrow>
   dsn_settings ms \<lparr>ds_config = cc\<lparr>cc_RuntimeParams := ps\<rparr>, ds_sslmode = m\<rparr> =
     Inr \<lparr>ds_config = cc\<lparr>cc_RuntimeParams := ps @ ms\<rparr>, ds_sslmode = m\<rparr>"
proof (induction ms arbitrary: ps)
  case (Cons kv ms)
  obtain k v where kv: "kv = (k, v)" by (cases kv)
  with Cons.prems have "AList.update k v ps = ps @ [(k, v)]" by (induction ps) auto
  moreover have "k \<notin> reserved_keys" using Cons.prems(2) kv by auto
  ultimately show ?case using Cons.IH [of "ps @ [(k, v)]"] Cons.prems kv by (simp add: Let_def reserved_keys_def)
qed simp

lemma ParseUint10_port: "ParseUint10 16 (itoa (unat (p :: 16 word))) = Some (unat p)"
  using unsigned_less [of p, where 'a = nat] by (simp add: ParseUint10_def)

lemma dsn_settings_config:
  assumes "distinct (map fst (cc_RuntimeParams cc))" and "fst ` set (cc_RuntimeParams cc) \<inter> reserved_keys = {}"
  shows "dsn_settings (config_settings cc sslmode) \<lparr>ds_config = zero_ConnConfig, ds_sslmode = []\<rparr> = Inr \<lparr>ds_config = cc, ds_sslmode = sslmode\<rparr>"
  using dsn_settings_params [of "[]" "cc_RuntimeParams cc" cc sslmode] assms
  by (cases cc) (simp add: config_settings_def ParseUint10_port zero_ConnConfig_def Let_def)

text \<open>
  A data source name written with the settings of a configuration is read back: when no text in it is empty, holds a space
  or starts with a double quote, and the run-time parameters have distinct names that are no setting of their own,
  \<open>ParseDSN\<close> returns that configuration with the TLS settings of its \<open>sslmode\<close>, or the error of a mode that is none.
\<close>

theorem ParseDSN_dsn_text:
  assumes plain: "list_all plain_setting (config_settings cc sslmode)"
    and params: "distinct (map fst (cc_RuntimeParams cc))" "fst ` set (cc_RuntimeParams cc) \<inter> reserved_keys = {}"
  shows "ParseDSN (dsn_text (config_settings cc sslmode)) =
           (case configSSL sslmode (cc_Host cc) of Inl e \<Rightarrow> Inl e | Inr tls \<Rightarrow> Inr (cc, tls))"
  using FindAllSettings_dsn [OF plain] dsn_settings_config [OF params] by (simp add: ParseDSN_def split: sum.split)

definition demo_config :: ConnConfig where
  "demo_config = \<lparr>cc_Host = ''db'', cc_Port = 54, cc_Database = ''arla'', cc_User = ''me'', cc_Password = ''pw'',
     cc_RuntimeParams = [(''application_name'', ''arla'')]\<rparr>"

lemma demo_config_plain: "list_all plain_setting (config_settings demo_config ''require'')"
proof -
  have "unat (54 :: 16 word) = 54" by simp
  moreover have "itoa 54 = ''54''" by code_simp
  ultimately show ?thesis by (simp add: config_settings_def demo_config_def plain_setting_def is_key_char_def)
qed

theorem ParseDSN_dsn_text_witness:
  "ParseDSN (dsn_text (config_settings demo_config ''require'')) =
     Inr (demo_config, \<lparr>ts_TLSConfig = Some (ServerName ''db''), ts_UseFallbackTLS = False, ts_FallbackTLSConfig = None\<rparr>)"
  using ParseDSN_dsn_text [OF demo_config_plain] by (simp add: demo_config_def reserved_keys_def configSSL_def)

text \<open>
  A value in double quotes keeps its quotes: the expression matches the quotes as part of the value, so a password
  written in quotes, the only way to write one with a space, is sent to the server with them.
\<close>

theorem dsn_quotes_kept:
  assumes "pw \<noteq> []" and "CHR 0x22 \<notin> set pw"
  shows "ParseDSN (''sslmode=disable password='' @ CHR 0x22 # pw @ [CHR 0x22]) =
           Inr (zero_ConnConfig\<lparr>cc_Password := CHR 0x22 # pw @ [CHR 0x22]\<rparr>,
                \<lparr>ts_TLSConfig = None, ts_UseFallbackTLS = False, ts_FallbackTLSConfig = None\<rparr>)"
proof -
  let ?q = "CHR 0x22 # pw @ [CHR 0x22]"
  have "takeWhile (\<lambda>c. c \<noteq> CHR 0x22) (pw @ [CHR 0x22]) = pw"
    using assms(2) by (induction pw) auto
  with assms(1) have v: "match_value ?q = Some (?q, [])" by (simp add: match_value_def Let_def)
  have "match_setting (''password'' @ ''='' @ ?q) = Some (''password'', ?q, [])"
    using v by (simp add: match_setting_def Let_def is_key_char_def)
  then have q: "FindAllSettings (''password'' @ ''='' @ ?q) = [(''password'', ?q)]"
    by (subst FindAllSettings.simps) (simp add: FindAllSettings.simps [of "[]"])
  have "plain_setting (''sslmode'', ''disable'')" by (simp add: plain_setting_def is_key_char_def)
  from match_plain [OF this, of "'' '' @ ''password'' @ ''='' @ ?q"]
  have "match_setting (''sslmode=disable password='' @ ?q) = Some (''sslmode'', ''disable'', '' '' @ ''password'' @ ''='' @ ?q)" by simp
  then have "FindAllSettings (''sslmode=disable password='' @ ?q) = [(''sslmode'', ''disable''), (''password'', ?q)]"
    using q FindAllSettings_space [of "''password'' @ ''='' @ ?q"] by (subst FindAllSettings.simps) simp
  then show ?thesis by (simp add: ParseDSN_def Let_def configSSL_def zero_ConnConfig_def)
qed

theorem dsn_quotes_kept_witness:
  "ParseDSN (''sslmode=disable password='' @ [CHR 0x22, CHR ''a'', CHR '' '', CHR ''b'', CHR 0x22]) =
     Inr (zero_ConnConfig\<lparr>cc_Password := [CHR 0x22, CHR ''a'', CHR '' '', CHR ''b'', CHR 0x22]\<rparr>,
          \<lparr>ts_TLSConfig = None, ts_UseFallbackTLS = False, ts_FallbackTLSConfig = None\<rparr>)"
  using dsn_quotes_kept [of "''a b''"] by simp

end
