(* ===== verification/Log_Formatter.thy ===== *)
theory Log_Formatter
  imports Query_Engine
begin

text \<open>
  The formatter of the database's log (\<open>querystore/logging.go\<close>) and the terminal colours it uses
  (\<open>github.com/mgutz/ansi\<close>). Each line the database prints gets a level from its prefix; a line without a known
  prefix keeps the level of the line before. Lines below the level of the formatter are dropped, the others are
  printed in the colour of their level.
\<close>

section \<open>Terminal colours\<close>

definition esc_start :: string where
  "esc_start = CHR 0x1B # ''[''"

definition ansi_Reset :: string where
  "ansi_Reset = esc_start @ ''0m''"

definition named_colors :: "(string \<times> int) list" where
  "named_colors = [(''black'', 0), (''red'', 1), (''green'', 2), (''yellow'', 3), (''blue'', 4), (''magenta'', 5),
     (''cyan'', 6), (''white'', 7), (''default'', 9)]"

text \<open>The map of colours after \<open>init\<close> has added the numbers; a missing name reads as zero.\<close>

definition Colors :: "string \<Rightarrow> int" where
  "Colors s =
     (case map_of named_colors s of
        Some n \<Rightarrow> n
      | None \<Rightarrow> (case map_of (map (\<lambda>i. (itoa i, int i)) [0..<256]) s of Some n \<Rightarrow> n | None \<Rightarrow> 0))"

definition second_or_empty :: "string list \<Rightarrow> string" where
  "second_or_empty xs = (if length xs > 1 then xs ! 1 else [])"

text \<open>The attributes of a foreground style, then the colour with the \<open>;\<close> that is cut off at the end.\<close>

definition style_attributes :: "string \<Rightarrow> string" where
  "style_attributes fgStyle =
     (if Contains fgStyle ''b'' then ''1;'' else []) @ (if Contains fgStyle ''B'' then ''5;'' else []) @
     (if Contains fgStyle ''u'' then ''4;'' else []) @ (if Contains fgStyle ''i'' then ''7;'' else [])"

definition color_number :: "string \<Rightarrow> string \<Rightarrow> int \<Rightarrow> string" where
  "color_number prefix key base =
     (case Atoi key of Some n \<Rightarrow> prefix @ format_int n @ '';'' | None \<Rightarrow> format_int (base + Colors key) @ '';'')"

definition colorCode :: "bool \<Rightarrow> string \<Rightarrow> string" where
  "colorCode nocolor style =
     (if nocolor \<or> style = [] then []
      else if style = ''reset'' then ansi_Reset
      else if style = ''off'' then []
      else
        let foregroundBackground = Split CHR '':'' style;
            foreground = Split CHR ''+'' (foregroundBackground ! 0);
            fgKey = foreground ! 0;
            fgStyle = second_or_empty foreground;
            background = (if length foregroundBackground > 1 then Split CHR ''+'' (foregroundBackground ! 1) else [[]]);
            bg = background ! 0;
            bgStyle = second_or_empty background;
            base = (if Contains fgStyle ''h'' then 90 else 30);
            buf = esc_start @ style_attributes fgStyle @ color_number ''38;5;'' fgKey base;
            base = (if Contains bgStyle ''h'' then 100 else 40);
            buf = (if bg \<noteq> [] then buf @ color_number ''48;5;'' bg base else buf)
        in butlast buf @ ''m'')"

definition ansi_Color :: "bool \<Rightarrow> string \<Rightarrow> string \<Rightarrow> string" where
  "ansi_Color nocolor s style = (if nocolor \<or> style = [] then s else colorCode nocolor style @ s @ ansi_Reset)"

definition ColorFunc :: "bool \<Rightarrow> string \<Rightarrow> string \<Rightarrow> string" where
  "ColorFunc nocolor style s =
     (if style = [] then s else if nocolor \<or> s = [] then s else colorCode nocolor style @ s @ ansi_Reset)"

section \<open>Levels\<close>

fun level_number :: "logLevel \<Rightarrow> nat" where
  "level_number UNKNOWN = 0"
| "level_number logLevel.ALL = 1"
| "level_number DEBUG = 2"
| "level_number INFO = 3"
| "level_number LOG = 4"
| "level_number WARN = 5"
| "level_number ERROR = 6"

lemma level_number_inj: "level_number a = level_number b \<Longrightarrow> a = b"
  by (cases a; cases b) auto

instantiation logLevel :: linorder
begin

definition less_eq_logLevel :: "logLevel \<Rightarrow> logLevel \<Rightarrow> bool" where
  "a \<le> b \<longleftrightarrow> level_number a \<le> level_number b"

definition less_logLevel :: "logLevel \<Rightarrow> logLevel \<Rightarrow> bool" where
  "a < b \<longleftrightarrow> level_number a < level_number b"

instance
  by standard (auto simp: less_eq_logLevel_def less_logLevel_def intro: level_number_inj)

end

lemma level_le_ERROR [simp]: "a \<le> ERROR"
  by (cases a) (simp_all add: less_eq_logLevel_def)

definition level_color :: "logLevel \<Rightarrow> string" where
  "level_color ll =
     (case ll of
        UNKNOWN \<Rightarrow> colorCode False ''black+h''
      | logLevel.ALL \<Rightarrow> colorCode False ''black+h''
      | DEBUG \<Rightarrow> colorCode False ''black+h''
      | INFO \<Rightarrow> colorCode False ''blue''
      | LOG \<Rightarrow> colorCode False ''white''
      | WARN \<Rightarrow> colorCode False ''yellow''
      | ERROR \<Rightarrow> colorCode False ''red'')"

text \<open>What \<open>Fprintln\<close> writes: the colour, the line, and the reset deferred to the end.\<close>

definition level_Fprintln :: "logLevel \<Rightarrow> string \<Rightarrow> string" where
  "level_Fprintln ll line = level_color ll @ line @ [CHR 0x0A] @ ansi_Reset"

section \<open>Lines\<close>

text \<open>The regular expression \<open>LINE\s+(\d+):\<close> at the start of a text, and its leftmost match.\<close>

definition is_re_space :: "char \<Rightarrow> bool" where
  "is_re_space c \<longleftrightarrow> code c \<in> {9, 10, 12, 13, 32}"

definition match_here :: "string \<Rightarrow> string option" where
  "match_here s =
     (if HasPrefix s ''LINE'' then
        let t = drop 4 s;
            u = dropWhile is_re_space t;
            ds = takeWhile is_digit u
        in if u \<noteq> t \<and> ds \<noteq> [] \<and> HasPrefix (drop (length ds) u) '':'' then Some ds else None
      else None)"

fun plv8err :: "string \<Rightarrow> string option" where
  "plv8err [] = None"
| "plv8err (c # s) = (case match_here (c # s) of Some ds \<Rightarrow> Some ds | None \<Rightarrow> plv8err s)"

text \<open>The level a prefix stands for; \<open>None\<close> is the default branch.\<close>

definition prefix_level :: "string \<Rightarrow> string \<Rightarrow> logLevel option" where
  "prefix_level prefix line =
     (if prefix = ''CONTEXT'' then Some logLevel.ALL
      else if prefix = ''DEBUG'' then Some DEBUG
      else if prefix = ''INFO'' then Some INFO
      else if prefix = ''LOG'' then
        (if Contains line ''statement:'' then Some DEBUG
         else if Contains line ''execute <unnamed>:'' then Some DEBUG
         else Some LOG)
      else if prefix = ''WARN'' \<or> prefix = ''WARNING'' then Some WARN
      else if prefix = ''ERROR'' then Some ERROR
      else if prefix = ''DETAIL'' then (if Contains line ''plv8_init() LINE'' then Some ERROR else Some DEBUG)
      else if prefix = ''FATAL'' then Some ERROR
      else None)"

text \<open>One line: the level it leaves behind and the text to print.\<close>

definition classify :: "string \<Rightarrow> logLevel \<Rightarrow> logLevel \<times> string" where
  "classify scanned level =
     (let s = Replace1 scanned ''NOTICE:'' [];
          ss = SplitN2 CHR '':'' s in
      if length ss < 2 then (level, s)
      else let line = ss ! 1 in
        case prefix_level (TrimSpace (ss ! 0)) line of Some l \<Rightarrow> (l, line) | None \<Rightarrow> (level, s))"

text \<open>
  With the script at hand, an error that names a line of it is to be replaced by that part of the script. The code that
  collects the part is commented out, so the buffer that replaces the line is empty.
\<close>

definition error_context :: "string option \<Rightarrow> logLevel \<Rightarrow> string \<Rightarrow> string" where
  "error_context src level line =
     (if level = ERROR \<and> src \<noteq> None then
        (case plv8err line of
           None \<Rightarrow> line
         | Some ds \<Rightarrow> (case Atoi ds of None \<Rightarrow> line | Some lineNo \<Rightarrow> []))
      else line)"

record formatter_env =
  f_Level :: logLevel
  f_src :: "string option"

definition format_line :: "formatter_env \<Rightarrow> string \<Rightarrow> logLevel \<Rightarrow> logLevel \<times> string" where
  "format_line fe scanned level =
     (case classify scanned level of (level, line) \<Rightarrow>
        (level, if f_Level fe \<le> level then level_Fprintln level (error_context (f_src fe) level line) else []))"

text \<open>
  The goroutine of \<open>NewLogFormatter\<close> on the lines of the pipe, each with the fields of the formatter at its time.
\<close>

fun format_lines :: "(formatter_env \<times> string) list \<Rightarrow> logLevel \<Rightarrow> string" where
  "format_lines [] level = []"
| "format_lines ((fe, s) # ls) level = (case format_line fe s level of (level, out) \<Rightarrow> out @ format_lines ls level)"

definition NewLogFormatter :: "formatter_env \<Rightarrow> string \<Rightarrow> string \<times> bool" where
  "NewLogFormatter fe input = (case Scan input of (ls, ok) \<Rightarrow> (format_lines (map (Pair fe) ls) UNKNOWN, ok))"

section \<open>What is printed\<close>

text \<open>The lines with their levels, before any is dropped.\<close>

fun leveled :: "string list \<Rightarrow> logLevel \<Rightarrow> (logLevel \<times> string) list" where
  "leveled [] level = []"
| "leveled (s # ls) level = (case classify s level of (level, line) \<Rightarrow> (level, line) # leveled ls level)"

lemma format_lines_spec:
  "format_lines (map (Pair fe) ls) level =
     concat (map (\<lambda>(l, line). level_Fprintln l (error_context (f_src fe) l line)) (filter (\<lambda>(l, line). f_Level fe \<le> l) (leveled ls level)))"
  by (induction ls arbitrary: level) (auto simp: format_line_def split: prod.split)

lemma SplitN2_colon: "CHR '':'' \<notin> set a \<Longrightarrow> SplitN2 CHR '':'' (a @ CHR '':'' # b) = [a, b]"
  by (induction a) auto

lemma plv8err_skip: "CHR ''L'' \<notin> set a \<Longrightarrow> plv8err (a @ b) = plv8err b"
  by (induction a) (auto simp: match_here_def HasPrefix_def)

lemma plv8err_line: "plv8err (''LINE '' @ itoa n @ '':'' @ b) = Some (itoa n)"
proof -
  have d: "list_all is_digit (itoa n)" by (rule itoa_digits)
  then have "takeWhile is_digit (itoa n @ CHR '':'' # b) = itoa n"
    by (simp add: takeWhile_append2 list_all_iff is_digit_def)
  moreover have "dropWhile is_re_space (itoa n @ CHR '':'' # b) = itoa n @ CHR '':'' # b"
    using d by (cases "itoa n") (auto simp: is_re_space_def is_digit_def)
  ultimately show ?thesis by (simp add: match_here_def HasPrefix_def is_re_space_def)
qed

text \<open>A line that continues the message before it: it has no colon, or no known word in front of one.\<close>

definition continues :: "string \<Rightarrow> bool" where
  "continues s \<longleftrightarrow> (let ss = SplitN2 CHR '':'' (Replace1 s ''NOTICE:'' []) in
     length ss < 2 \<or> prefix_level (TrimSpace (ss ! 0)) (ss ! 1) = None)"

lemma classify_continues: "continues s \<Longrightarrow> classify s level = (level, Replace1 s ''NOTICE:'' [])"
  by (auto simp: continues_def classify_def Let_def split: option.split)

lemma classify_starts: "\<not> continues s \<Longrightarrow> \<exists>l line. \<forall>level. classify s level = (l, line)"
  by (auto simp: continues_def classify_def Let_def split: option.split)

lemma leveled_continues:
  "list_all continues cs \<Longrightarrow> leveled cs level = map (\<lambda>s. (level, Replace1 s ''NOTICE:'' [])) cs"
  by (induction cs) (auto simp: classify_continues)

section \<open>Properties\<close>

text \<open>
  A message of the database is printed whole or not at all: its first line and the lines that continue it appear in
  the colour of the first line's level if that level reaches the formatter's, whatever was logged before.
\<close>

theorem message_printed_whole:
  assumes "\<not> continues s" and "list_all continues cs"
  shows "\<exists>l line. classify s before = (l, line) \<and>
    format_lines (map (Pair fe) (s # cs)) before =
      (if f_Level fe \<le> l
       then concat (map (\<lambda>t. level_color l @ error_context (f_src fe) l t @ [CHR 0x0A] @ ansi_Reset) (line # map (\<lambda>c. Replace1 c ''NOTICE:'' []) cs))
       else [])"
proof -
  obtain l line where c: "classify s before = (l, line)" using classify_starts [OF assms(1)] by blast
  have "concat (map (\<lambda>(l, line). level_Fprintln l (error_context (f_src fe) l line)) (filter (\<lambda>(l, line). f_Level fe \<le> l) (leveled cs l))) =
      (if f_Level fe \<le> l then concat (map (\<lambda>c. level_Fprintln l (error_context (f_src fe) l (Replace1 c ''NOTICE:'' []))) cs) else [])"
    unfolding leveled_continues [OF assms(2)] by (simp add: o_def)
  with c show ?thesis by (simp only: format_lines_spec) (simp add: level_Fprintln_def o_def)
qed

text \<open>
  Once the script is loaded, the text of an error that names a line of the script is not printed at all; an empty
  line takes its place.
\<close>

theorem script_error_text_lost:
  assumes "f_src fe \<noteq> None" and "CHR ''L'' \<notin> set msg" and "n < 2 ^ 63"
    and "\<not> Contains (''ERROR:'' @ msg @ ''LINE '' @ itoa n @ '':'' @ post) ''NOTICE:''"
  shows "format_line fe (''ERROR:'' @ msg @ ''LINE '' @ itoa n @ '':'' @ post) before = (ERROR, level_color ERROR @ [CHR 0x0A] @ ansi_Reset)"
proof -
  let ?line = "msg @ ''LINE '' @ itoa n @ '':'' @ post"
  have "Replace1 (''ERROR:'' @ ?line) ''NOTICE:'' [] = ''ERROR:'' @ ?line"
    using assms(4) by (simp add: Replace1_def Contains_def)
  moreover have "SplitN2 CHR '':'' (''ERROR:'' @ ?line) = [''ERROR'', ?line]" using SplitN2_colon [of "''ERROR''" ?line] by simp
  moreover have "TrimSpace ''ERROR'' = ''ERROR''" by code_simp
  ultimately have "classify (''ERROR:'' @ ?line) before = (ERROR, ?line)" by (simp add: classify_def prefix_level_def Let_def)
  moreover have "plv8err ?line = Some (itoa n)" using plv8err_skip [OF assms(2)] plv8err_line by metis
  then have "error_context (f_src fe) ERROR ?line = []" using assms(1) Atoi_itoa [OF assms(3)] by (simp add: error_context_def)
  ultimately show ?thesis by (simp add: format_line_def level_Fprintln_def)
qed

theorem message_printed_whole_witness:
  "format_lines (map (Pair \<lparr>f_Level = ERROR, f_src = None\<rparr>) [''LOG:  start'', ''  more'', ''and more'']) ERROR = []"
proof -
  have "\<not> continues ''LOG:  start''" "list_all continues [''  more'', ''and more'']" by code_simp+
  from message_printed_whole [OF this, of ERROR "\<lparr>f_Level = ERROR, f_src = None\<rparr>"]
  obtain l line where "classify ''LOG:  start'' ERROR = (l, line)" and
    out: "format_lines (map (Pair \<lparr>f_Level = ERROR, f_src = None\<rparr>) [''LOG:  start'', ''  more'', ''and more'']) ERROR \<noteq> [] \<longrightarrow> ERROR \<le> l"
    by auto
  moreover have "fst (classify ''LOG:  start'' ERROR) = LOG" by code_simp
  ultimately show ?thesis by (auto simp: less_eq_logLevel_def)
qed

theorem script_error_text_lost_witness:
  "format_line \<lparr>f_Level = DEBUG, f_src = Some []\<rparr> ''ERROR: bad token in plv8 LINE 12: {'' UNKNOWN =
     (ERROR, level_color ERROR @ [CHR 0x0A] @ ansi_Reset)"
proof -
  have i: "itoa 12 = ''12''" by code_simp
  have "\<not> Contains (''ERROR:'' @ '' bad token in plv8 '' @ ''LINE '' @ itoa 12 @ '':'' @ '' {'') ''NOTICE:''" unfolding i by code_simp
  from script_error_text_lost [OF _ _ _ this, of "\<lparr>f_Level = DEBUG, f_src = Some []\<rparr>" UNKNOWN]
  show ?thesis unfolding i by simp
qed

end
