(* ===== verification/Blowfish.thy ===== *)
theory Blowfish
  imports Blowfish_Tables
begin

text \<open>
  The Blowfish block cipher of \<open>golang.org/x/crypto/blowfish\<close>: its key schedules (\<open>block.go\<close>) and the block
  operations (\<open>cipher.go\<close>). An index out of range, which Go turns into a panic, only arises for an empty key; the
  schedules say \<open>None\<close> there. Decryption undoes encryption, and the two key schedules are the same on a salt of zeros.
\<close>

unbundle bit_operations_syntax

section \<open>The cipher\<close>

record Cipher =
  ci_p :: "uint32 list"
  ci_s0 :: "uint32 list"
  ci_s1 :: "uint32 list"
  ci_s2 :: "uint32 list"
  ci_s3 :: "uint32 list"

definition wf_cipher :: "Cipher \<Rightarrow> bool" where
  "wf_cipher c \<longleftrightarrow> length (ci_p c) = 18 \<and> length (ci_s0 c) = 256 \<and> length (ci_s1 c) = 256 \<and>
     length (ci_s2 c) = 256 \<and> length (ci_s3 c) = 256"

definition initCipher :: Cipher where
  "initCipher = \<lparr>ci_p = pi_p, ci_s0 = pi_s0, ci_s1 = pi_s1, ci_s2 = pi_s2, ci_s3 = pi_s3\<rparr>"

text \<open>
  The expression every line of \<open>encryptBlock\<close> and \<open>decryptBlock\<close> has but for its last operand. The sixteen lines
  are eight times the same two, on other entries of \<open>p\<close>.
\<close>

definition box_sum :: "Cipher \<Rightarrow> uint32 \<Rightarrow> uint32" where
  "box_sum c x =
     ((ci_s0 c ! unat (to_byte (drop_bit 24 x)) + ci_s1 c ! unat (to_byte (drop_bit 16 x)))
        XOR ci_s2 c ! unat (to_byte (drop_bit 8 x))) + ci_s3 c ! unat (to_byte x)"

definition two_rounds :: "Cipher \<Rightarrow> nat \<times> nat \<Rightarrow> uint32 \<times> uint32 \<Rightarrow> uint32 \<times> uint32" where
  "two_rounds c = (\<lambda>(i, j) (xl, xr).
     let xr = xr XOR (box_sum c xl XOR ci_p c ! i);
         xl = xl XOR (box_sum c xr XOR ci_p c ! j)
     in (xl, xr))"

definition encryptBlock :: "uint32 \<Rightarrow> uint32 \<Rightarrow> Cipher \<Rightarrow> uint32 \<times> uint32" where
  "encryptBlock l r c =
     (let xl = l XOR ci_p c ! 0;
          (xl, xr) = fold (two_rounds c) [(1, 2), (3, 4), (5, 6), (7, 8), (9, 10), (11, 12), (13, 14), (15, 16)] (xl, r);
          xr = xr XOR ci_p c ! 17
      in (xr, xl))"

definition decryptBlock :: "uint32 \<Rightarrow> uint32 \<Rightarrow> Cipher \<Rightarrow> uint32 \<times> uint32" where
  "decryptBlock l r c =
     (let xl = l XOR ci_p c ! 17;
          (xl, xr) = fold (two_rounds c) [(16, 15), (14, 13), (12, 11), (10, 9), (8, 7), (6, 5), (4, 3), (2, 1)] (xl, r);
          xr = xr XOR ci_p c ! 0
      in (xr, xl))"

text \<open>The first eight bytes of the source as two words and back; a shorter source is an index out of range.\<close>

definition Encrypt :: "Cipher \<Rightarrow> bytes \<Rightarrow> bytes option" where
  "Encrypt c src =
     (if length src < 8 then None
      else case encryptBlock (be_word (take 4 src)) (be_word (take 4 (drop 4 src))) c of (l, r) \<Rightarrow> Some (be32 l @ be32 r))"

definition Decrypt :: "Cipher \<Rightarrow> bytes \<Rightarrow> bytes option" where
  "Decrypt c src =
     (if length src < 8 then None
      else case decryptBlock (be_word (take 4 src)) (be_word (take 4 (drop 4 src))) c of (l, r) \<Rightarrow> Some (be32 l @ be32 r))"

section \<open>The key schedules\<close>

fun next_word_loop :: "nat \<Rightarrow> bytes \<Rightarrow> uint32 \<Rightarrow> nat \<Rightarrow> uint32 \<times> nat" where
  "next_word_loop 0 b w j = (w, j)"
| "next_word_loop (Suc n) b w j =
     next_word_loop n b (push_bit 8 w OR ucast (b ! j)) (if j + 1 \<ge> length b then 0 else j + 1)"

definition getNextWord :: "bytes \<Rightarrow> nat \<Rightarrow> uint32 \<times> nat" where
  "getNextWord b pos = next_word_loop 4 b 0 pos"

text \<open>The first loop: the entries of \<open>p\<close> from \<open>i\<close> on are combined with the words of the key.\<close>

fun xor_key :: "bytes \<Rightarrow> uint32 list \<Rightarrow> nat \<Rightarrow> uint32 list" where
  "xor_key key [] j = []"
| "xor_key key (x # xs) j = (case getNextWord key j of (d, j) \<Rightarrow> (x XOR d) # xor_key key xs j)"

text \<open>The assignments to two entries of a table.\<close>

definition put_p :: "nat \<Rightarrow> uint32 \<Rightarrow> uint32 \<Rightarrow> Cipher \<Rightarrow> Cipher" where
  "put_p i l r c = c\<lparr>ci_p := (ci_p c)[i := l, i + 1 := r]\<rparr>"

definition put_s0 :: "nat \<Rightarrow> uint32 \<Rightarrow> uint32 \<Rightarrow> Cipher \<Rightarrow> Cipher" where
  "put_s0 i l r c = c\<lparr>ci_s0 := (ci_s0 c)[i := l, i + 1 := r]\<rparr>"

definition put_s1 :: "nat \<Rightarrow> uint32 \<Rightarrow> uint32 \<Rightarrow> Cipher \<Rightarrow> Cipher" where
  "put_s1 i l r c = c\<lparr>ci_s1 := (ci_s1 c)[i := l, i + 1 := r]\<rparr>"

definition put_s2 :: "nat \<Rightarrow> uint32 \<Rightarrow> uint32 \<Rightarrow> Cipher \<Rightarrow> Cipher" where
  "put_s2 i l r c = c\<lparr>ci_s2 := (ci_s2 c)[i := l, i + 1 := r]\<rparr>"

definition put_s3 :: "nat \<Rightarrow> uint32 \<Rightarrow> uint32 \<Rightarrow> Cipher \<Rightarrow> Cipher" where
  "put_s3 i l r c = c\<lparr>ci_s3 := (ci_s3 c)[i := l, i + 1 := r]\<rparr>"

text \<open>The indices \<open>i = 0; i < n; i += 2\<close>, and the turns of the loops over all five tables.\<close>

definition evens :: "nat \<Rightarrow> nat list" where
  "evens n = map (\<lambda>k. 2 * k) [0..<n div 2]"

definition table_turns :: "((nat \<Rightarrow> uint32 \<Rightarrow> uint32 \<Rightarrow> Cipher \<Rightarrow> Cipher) \<times> nat) list" where
  "table_turns = map (Pair put_p) (evens 18) @ map (Pair put_s0) (evens 256) @ map (Pair put_s1) (evens 256) @
     map (Pair put_s2) (evens 256) @ map (Pair put_s3) (evens 256)"

definition plain_turn ::
  "(nat \<Rightarrow> uint32 \<Rightarrow> uint32 \<Rightarrow> Cipher \<Rightarrow> Cipher) \<times> nat \<Rightarrow> uint32 \<times> uint32 \<times> Cipher \<Rightarrow> uint32 \<times> uint32 \<times> Cipher" where
  "plain_turn = (\<lambda>(put, i) (l, r, c). case encryptBlock l r c of (l, r) \<Rightarrow> (l, r, put i l r c))"

definition ExpandKey :: "bytes \<Rightarrow> Cipher \<Rightarrow> Cipher option" where
  "ExpandKey key c =
     (if key = [] then None
      else let c = c\<lparr>ci_p := xor_key key (ci_p c) 0\<rparr> in
        case fold plain_turn table_turns (0, 0, c) of (l, r, c) \<Rightarrow> Some c)"

definition salted_turn ::
  "bytes \<Rightarrow> (nat \<Rightarrow> uint32 \<Rightarrow> uint32 \<Rightarrow> Cipher \<Rightarrow> Cipher) \<times> nat \<Rightarrow> nat \<times> uint32 \<times> uint32 \<times> Cipher \<Rightarrow> nat \<times> uint32 \<times> uint32 \<times> Cipher" where
  "salted_turn salt = (\<lambda>(put, i) (j, l, r, c).
     case getNextWord salt j of (w, j) \<Rightarrow>
     case getNextWord salt j of (w', j) \<Rightarrow>
     case encryptBlock (l XOR w) (r XOR w') c of (l, r) \<Rightarrow> (j, l, r, put i l r c))"

definition expandKeyWithSalt :: "bytes \<Rightarrow> bytes \<Rightarrow> Cipher \<Rightarrow> Cipher option" where
  "expandKeyWithSalt key salt c =
     (if key = [] \<or> salt = [] then None
      else let c = c\<lparr>ci_p := xor_key key (ci_p c) 0\<rparr> in
        case fold (salted_turn salt) table_turns (0, 0, 0, c) of (j, l, r, c) \<Rightarrow> Some c)"

section \<open>New ciphers\<close>

datatype key_error = KeySizeError int

definition NewCipher :: "bytes \<Rightarrow> (key_error, Cipher) result option" where
  "NewCipher key =
     (let k = length key in
      if k < 1 \<or> k > 56 then Some (Inl (KeySizeError (int k))) else map_option Inr (ExpandKey key initCipher))"

definition NewSaltedCipher :: "bytes \<Rightarrow> bytes \<Rightarrow> (key_error, Cipher) result option" where
  "NewSaltedCipher key salt =
     (if length salt = 0 then NewCipher key
      else let k = length key in
        if k < 1 then Some (Inl (KeySizeError (int k))) else map_option Inr (expandKeyWithSalt key salt initCipher))"

section \<open>Decryption undoes encryption\<close>

lemma xor_twice [simp]: "(a XOR b) XOR b = (a :: uint32)"
  by (simp add: xor.assoc)

lemma two_rounds_back: "two_rounds c (j, i) (prod.swap (two_rounds c (i, j) x)) = prod.swap x"
  by (cases x) (simp add: two_rounds_def Let_def)

lemma fold_rounds_back:
  "fold (two_rounds c) (rev (map prod.swap is)) (prod.swap (fold (two_rounds c) is x)) = prod.swap x"
proof (induction "is" arbitrary: x)
  case (Cons i "is")
  then show ?case by (cases i) (simp add: two_rounds_back)
qed simp

lemma decryptBlock_encryptBlock:
  assumes "encryptBlock l r c = (l', r')"
  shows "decryptBlock l' r' c = (l, r)"
proof -
  let ?is = "[(1, 2), (3, 4), (5, 6), (7, 8), (9, 10), (11, 12), (13, 14), (15, 16)]"
  obtain xl xr where x: "fold (two_rounds c) ?is (l XOR ci_p c ! 0, r) = (xl, xr)" by fastforce
  with assms have "l' = xr XOR ci_p c ! 17" "r' = xl" by (simp_all add: encryptBlock_def Let_def)
  moreover have "fold (two_rounds c) (rev (map prod.swap ?is)) (xr, xl) = (r, l XOR ci_p c ! 0)"
    using fold_rounds_back [of c ?is "(l XOR ci_p c ! 0, r)"] unfolding x by simp
  ultimately show ?thesis by (simp add: decryptBlock_def Let_def)
qed

lemma be32_be_word:
  assumes "length b = 4"
  shows "be32 (be_word b) = b"
proof -
  obtain b0 b1 b2 b3 where b: "b = [b0, b1, b2, b3]" using assms by (auto simp: numeral_eq_Suc length_Suc_conv)
  have "\<not> bit (x :: byte) (8 + n)" "\<not> bit x (16 + n)" "\<not> bit x (24 + n)" for x n by (auto dest: bit_imp_le_length)
  then show ?thesis unfolding b be32_def be_word_def by (auto intro!: bit_eqI simp: bit_to_byte bit_simps)
qed

section \<open>The words of the key\<close>

text \<open>The bytes of a key, repeated without end.\<close>

definition stream :: "bytes \<Rightarrow> nat \<Rightarrow> byte" where
  "stream b i = b ! (i mod length b)"

lemma next_word_loop_stream:
  assumes "b \<noteq> []" and "j = k mod length b"
  shows "next_word_loop n b w j = (foldl (\<lambda>w x. push_bit 8 w OR ucast x) w (map (\<lambda>i. stream b (k + i)) [0..<n]), (k + n) mod length b)"
  using assms(2)
proof (induction n arbitrary: w j k)
  case (Suc n)
  have "k mod length b < length b" using assms(1) by simp
  then have "(if j + 1 \<ge> length b then 0 else j + 1) = (k + 1) mod length b"
    using Suc.prems by (auto simp: mod_Suc le_Suc_eq)
  moreover have "b ! j = stream b k" by (simp add: Suc.prems stream_def)
  ultimately have "next_word_loop (Suc n) b w j = next_word_loop n b (push_bit 8 w OR ucast (stream b k)) ((k + 1) mod length b)"
    by (simp only: next_word_loop.simps)
  also have "\<dots> = (foldl (\<lambda>w x. push_bit 8 w OR ucast x) (push_bit 8 w OR ucast (stream b k)) (map (\<lambda>i. stream b (k + 1 + i)) [0..<n]),
      (k + 1 + n) mod length b)" by (rule Suc.IH [OF refl])
  also have "map (\<lambda>i. stream b (k + 1 + i)) [0..<n] = map (\<lambda>i. stream b (k + i)) [1..<Suc n]"
    by (simp add: map_Suc_upt [symmetric] o_def del: upt_Suc)
  finally show ?case by (simp add: upt_conv_Cons del: upt_Suc)
qed simp

lemma getNextWord_stream:
  assumes "b \<noteq> []"
  shows "getNextWord b (k mod length b) = (be_word (map (\<lambda>i. stream b (k + i)) [0..<4]), (k + 4) mod length b)"
  unfolding getNextWord_def be_word_def by (rule next_word_loop_stream [OF assms refl])

lemma xor_key_stream:
  assumes "b \<noteq> []"
  shows "xor_key b xs (k mod length b) = map (\<lambda>(n, x). x XOR be_word (map (\<lambda>i. stream b (k + 4 * n + i)) [0..<4])) (zip [0..<length xs] xs)"
proof (induction xs arbitrary: k)
  case (Cons x xs)
  have "zip [0..<length (x # xs)] (x # xs) = (0, x) # map (\<lambda>(n, y). (Suc n, y)) (zip [0..<length xs] xs)"
    by (simp add: upt_conv_Cons zip_map1 map_Suc_upt [symmetric] del: upt_Suc)
  with Cons.IH [of "k + 4"] show ?case
    by (simp add: getNextWord_stream [OF assms] case_prod_unfold o_def add.assoc add.left_commute)
qed simp

text \<open>A schedule of eighteen words reads 72 bytes of its key, repeated as often as it takes.\<close>

lemma xor_key_cong:
  assumes "a \<noteq> []" "b \<noteq> []" and "\<And>i. i < 4 * length xs \<Longrightarrow> stream a i = stream b i"
  shows "xor_key a xs 0 = xor_key b xs 0"
proof -
  have eq: "map (\<lambda>i. stream a (4 * n + i)) [0..<4] = map (\<lambda>i. stream b (4 * n + i)) [0..<4]" if "n < length xs" for n
    using that assms(3) by auto
  show ?thesis
    using xor_key_stream [OF assms(1), of xs 0] xor_key_stream [OF assms(2), of xs 0] by (auto simp: set_zip eq)
qed

lemma ExpandKey_cong:
  assumes "length (ci_p c) = 18" and "a \<noteq> []" "b \<noteq> []" and "\<And>i. i < 72 \<Longrightarrow> stream a i = stream b i"
  shows "ExpandKey a c = ExpandKey b c" "expandKeyWithSalt a salt c = expandKeyWithSalt b salt c"
  using xor_key_cong [OF assms(2,3), of "ci_p c"] assms by (simp_all add: ExpandKey_def expandKeyWithSalt_def)

section \<open>The tables keep their sizes\<close>

lemma length_xor_key [simp]: "length (xor_key key xs j) = length xs"
  by (induction xs arbitrary: j) (auto split: prod.split)

lemma put_wf [wf_intros]:
  "wf_cipher c \<Longrightarrow> put \<in> {put_p, put_s0, put_s1, put_s2, put_s3} \<Longrightarrow> wf_cipher (put i l r c)"
  by (auto simp: wf_cipher_def put_p_def put_s0_def put_s1_def put_s2_def put_s3_def)

lemma table_turns_put: "(put, i) \<in> set table_turns \<Longrightarrow> put \<in> {put_p, put_s0, put_s1, put_s2, put_s3}"
  by (auto simp: table_turns_def)

lemma fold_plain_turn_wf:
  "wf_cipher c \<Longrightarrow> set ts \<subseteq> set table_turns \<Longrightarrow> wf_cipher (snd (snd (fold plain_turn ts (l, r, c))))"
proof (induction ts arbitrary: l r c)
  case (Cons t ts)
  obtain put i where t: "t = (put, i)" by fastforce
  then have "put \<in> {put_p, put_s0, put_s1, put_s2, put_s3}" using Cons.prems(2) table_turns_put by auto
  with Cons show ?case by (auto simp: t plain_turn_def put_wf split: prod.split)
qed simp

lemma fold_salted_turn_wf:
  "wf_cipher c \<Longrightarrow> set ts \<subseteq> set table_turns \<Longrightarrow> wf_cipher (snd (snd (snd (fold (salted_turn salt) ts (j, l, r, c)))))"
proof (induction ts arbitrary: j l r c)
  case (Cons t ts)
  obtain put i where t: "t = (put, i)" by fastforce
  then have "put \<in> {put_p, put_s0, put_s1, put_s2, put_s3}" using Cons.prems(2) table_turns_put by auto
  with Cons show ?case by (auto simp: t salted_turn_def put_wf split: prod.split)
qed simp

lemma ExpandKey_wf: "wf_cipher c \<Longrightarrow> key \<noteq> [] \<Longrightarrow> \<exists>c'. ExpandKey key c = Some c' \<and> wf_cipher c'"
  using fold_plain_turn_wf [of "c\<lparr>ci_p := xor_key key (ci_p c) 0\<rparr>" table_turns 0 0]
  by (auto simp: ExpandKey_def Let_def wf_cipher_def split: prod.split)

lemma expandKeyWithSalt_wf: "wf_cipher c \<Longrightarrow> key \<noteq> [] \<Longrightarrow> salt \<noteq> [] \<Longrightarrow> \<exists>c'. expandKeyWithSalt key salt c = Some c' \<and> wf_cipher c'"
  using fold_salted_turn_wf [of "c\<lparr>ci_p := xor_key key (ci_p c) 0\<rparr>" table_turns salt 0 0 0]
  by (auto simp: expandKeyWithSalt_def Let_def wf_cipher_def split: prod.split)

lemma initCipher_wf [simp]: "wf_cipher initCipher"
  by (simp add: wf_cipher_def initCipher_def)

section \<open>Properties\<close>

text \<open>
  Decrypting what a block was encrypted to gives the block back, for every cipher and block.
\<close>

theorem Decrypt_Encrypt:
  assumes "length b = 8"
  shows "Option.bind (Encrypt c b) (Decrypt c) = Some b"
proof -
  obtain l r where e: "encryptBlock (be_word (take 4 b)) (be_word (take 4 (drop 4 b))) c = (l, r)" by fastforce
  have "take 4 b @ take 4 (drop 4 b) = b" using assms by (simp flip: take_add)
  then show ?thesis
    using e decryptBlock_encryptBlock [OF e] assms by (simp add: Encrypt_def Decrypt_def be32_be_word)
qed

theorem Decrypt_Encrypt_witness:
  "Option.bind (Encrypt initCipher [1, 2, 3, 4, 5, 6, 7, 8]) (Decrypt initCipher) = Some [1, 2, 3, 4, 5, 6, 7, 8]"
  using Decrypt_Encrypt [of "[1, 2, 3, 4, 5, 6, 7, 8]" initCipher] by simp

lemma zero_words: "n \<noteq> 0 \<Longrightarrow> getNextWord (replicate n 0) (k mod n) = (0, (k + 4) mod n)"
  using getNextWord_stream [of "replicate n 0" k] by (simp add: stream_def be_word_def numeral_eq_Suc)

lemma fold_zero_salt:
  assumes "n \<noteq> 0" and "fold plain_turn ts (l, r, c) = (l', r', c')"
  shows "\<exists>j. fold (salted_turn (replicate n 0)) ts (k mod n, l, r, c) = (j, l', r', c')"
  using assms(2)
proof (induction ts arbitrary: k l r c)
  case (Cons t ts)
  obtain put i l1 r1 where t: "t = (put, i)" "encryptBlock l r c = (l1, r1)" by (meson surj_pair)
  with Cons.IH [of l1 r1 "put i l1 r1 c" "k + 4 + 4"] Cons.prems show ?case
    by (simp add: plain_turn_def salted_turn_def zero_words [OF assms(1)])
qed auto

text \<open>
  C37: the key schedule without a salt is the salted one on a salt of zeros, of whatever length.
\<close>

theorem ExpandKey_zero_salt:
  assumes "n \<noteq> 0"
  shows "expandKeyWithSalt key (replicate n 0) c = ExpandKey key c"
proof -
  let ?c = "c\<lparr>ci_p := xor_key key (ci_p c) 0\<rparr>"
  obtain l r c' where f: "fold plain_turn table_turns (0, 0, ?c) = (l, r, c')" by (rule prod_cases3)
  obtain j where "fold (salted_turn (replicate n 0)) table_turns (0, 0, 0, ?c) = (j, l, r, c')"
    using fold_zero_salt [OF assms f, of 0] by auto
  with f assms show ?thesis by (simp add: ExpandKey_def expandKeyWithSalt_def)
qed

theorem ExpandKey_zero_salt_witness:
  "expandKeyWithSalt [7] [0, 0, 0] initCipher = ExpandKey [7] initCipher \<and> (0::nat) \<noteq> 3"
  using ExpandKey_zero_salt [of 3 "[7]" initCipher] by (simp add: numeral_3_eq_3)


end
