(* ===== verification/User_Password.thy ===== *)
theory User_Password
  imports Blowfish Go_Base64 Uuid
begin

text \<open>
  Passwords of users: \<open>schema/user.go\<close> on top of \<open>golang.org/x/crypto/bcrypt\<close>. Hashes are texts, so they are
  strings of bytes here. The random source is the list of bytes it delivers before it fails. \<open>None\<close> is a panic, an
  index out of range; it is shown not to happen.
\<close>

section \<open>bcrypt's base64\<close>

definition alphabet :: string where
  "alphabet = ''./ABCDEFGHIJKLMNOPQRSTUVWXYZabcdefghijklmnopqrstuvwxyz0123456789''"

interpretation bc: base64_alphabet alphabet
  by unfold_locales (simp_all add: alphabet_def)

definition base64Encode :: "bytes \<Rightarrow> string option" where
  "base64Encode src =
     (let dst = rev (dropWhile (\<lambda>c. c = pad) (rev (b64_encode alphabet src))) in if dst = [] then None else Some dst)"

definition base64Decode :: "string \<Rightarrow> bytes option" where
  "base64Decode src = (let numOfEquals = 4 - length src mod 4 in b64_decode alphabet (src @ replicate numOfEquals pad))"

section \<open>The hash of a password\<close>

datatype bcrypt_error =
    ErrMismatchedHashAndPassword
  | ErrHashTooShort
  | HashVersionTooNewError char
  | InvalidHashPrefixError char
  | InvalidCostError int
  | CostNotANumber
  | CorruptInput
  | InvalidKeySize int
  | RandFailed

record hashed =
  h_hash :: string
  h_salt :: string
  h_cost :: int
  h_major :: char
  h_minor :: char

definition magicCipherData :: bytes where
  "magicCipherData =
     [0x4f, 0x72, 0x70, 0x68, 0x65, 0x61, 0x6e, 0x42, 0x65, 0x68, 0x6f, 0x6c,
      0x64, 0x65, 0x72, 0x53, 0x63, 0x72, 0x79, 0x44, 0x6f, 0x75, 0x62, 0x74]"

definition checkCost :: "int \<Rightarrow> bcrypt_error option" where
  "checkCost cost = (if cost < 4 \<or> cost > 31 then Some (InvalidCostError cost) else None)"

fun expand_rounds :: "nat \<Rightarrow> bytes \<Rightarrow> bytes \<Rightarrow> Cipher \<Rightarrow> Cipher option" where
  "expand_rounds 0 ckey csalt c = Some c"
| "expand_rounds (Suc n) ckey csalt c =
     (case ExpandKey ckey c of
        None \<Rightarrow> None
      | Some c \<Rightarrow> (case ExpandKey csalt c of None \<Rightarrow> None | Some c \<Rightarrow> expand_rounds n ckey csalt c))"

text \<open>\<open>1 << cost\<close> in 64 bits.\<close>

definition rounds :: "uint32 \<Rightarrow> nat" where
  "rounds cost = (if unat cost < 64 then 2 ^ unat cost else 0)"

definition expensiveBlowfishSetup :: "bytes \<Rightarrow> uint32 \<Rightarrow> string \<Rightarrow> (bcrypt_error, Cipher) result option" where
  "expensiveBlowfishSetup key cost salt =
     (case base64Decode salt of
        None \<Rightarrow> Some (Inl CorruptInput)
      | Some csalt \<Rightarrow>
          (let ckey = key @ [0] in
           case NewSaltedCipher ckey csalt of
             None \<Rightarrow> None
           | Some (Inl (KeySizeError k)) \<Rightarrow> Some (Inl (InvalidKeySize k))
           | Some (Inr c) \<Rightarrow> map_option Inr (expand_rounds (rounds cost) ckey csalt c)))"

fun encrypt_times :: "nat \<Rightarrow> Cipher \<Rightarrow> bytes \<Rightarrow> bytes option" where
  "encrypt_times 0 c b = Some b"
| "encrypt_times (Suc n) c b = (case Encrypt c b of None \<Rightarrow> None | Some b \<Rightarrow> encrypt_times n c b)"

definition bcrypt :: "bytes \<Rightarrow> int \<Rightarrow> string \<Rightarrow> (bcrypt_error, string) result option" where
  "bcrypt password cost salt =
     (case expensiveBlowfishSetup password (word_of_int cost) salt of
        None \<Rightarrow> None
      | Some (Inl e) \<Rightarrow> Some (Inl e)
      | Some (Inr c) \<Rightarrow>
          (case (encrypt_times 64 c (take 8 magicCipherData), encrypt_times 64 c (take 8 (drop 8 magicCipherData)),
                 encrypt_times 64 c (take 8 (drop 16 magicCipherData))) of
             (Some a, Some b, Some d) \<Rightarrow> map_option Inr (base64Encode (take 23 (a @ b @ d)))
           | _ \<Rightarrow> None))"

section \<open>The text of a hash\<close>

text \<open>\<open>%02d\<close>.\<close>

definition two_digits :: "int \<Rightarrow> string" where
  "two_digits n = (let s = format_int n in if length s < 2 then CHR ''0'' # s else s)"

definition hashed_Hash :: "hashed \<Rightarrow> string" where
  "hashed_Hash p =
     (let arr = (replicate 60 CHR 0x00)[0 := CHR ''$'', 1 := h_major p];
          (n, arr) = (if h_minor p \<noteq> CHR 0x00 then (3, arr[2 := h_minor p]) else (2, arr));
          arr = arr[n := CHR ''$''];
          n = n + 1;
          arr = go_copy n (two_digits (h_cost p)) arr;
          n = n + 2;
          arr = arr[n := CHR ''$''];
          n = n + 1;
          arr = go_copy n (h_salt p) arr;
          n = n + 22;
          arr = go_copy n (h_hash p) arr;
          n = n + 31
      in take n arr)"

definition decodeVersion :: "string \<Rightarrow> hashed \<Rightarrow> (bcrypt_error, nat \<times> hashed) result" where
  "decodeVersion sbytes p =
     (if sbytes ! 0 \<noteq> CHR ''$'' then Inl (InvalidHashPrefixError (sbytes ! 0))
      else if code (sbytes ! 1) > code CHR ''2'' then Inl (HashVersionTooNewError (sbytes ! 1))
      else
        let p = p\<lparr>h_major := sbytes ! 1\<rparr> in
        if sbytes ! 2 \<noteq> CHR ''$'' then Inr (4, p\<lparr>h_minor := sbytes ! 2\<rparr>) else Inr (3, p))"

definition decodeCost :: "string \<Rightarrow> hashed \<Rightarrow> (bcrypt_error, nat \<times> hashed) result" where
  "decodeCost sbytes p =
     (case Atoi (take 2 sbytes) of
        None \<Rightarrow> Inl CostNotANumber
      | Some cost \<Rightarrow> (case checkCost cost of Some e \<Rightarrow> Inl e | None \<Rightarrow> Inr (3, p\<lparr>h_cost := cost\<rparr>)))"

definition zero_hashed :: hashed where
  "zero_hashed = \<lparr>h_hash = [], h_salt = [], h_cost = 0, h_major = CHR 0x00, h_minor = CHR 0x00\<rparr>"

definition newFromHash :: "string \<Rightarrow> (bcrypt_error, hashed) result" where
  "newFromHash hashedSecret =
     (if length hashedSecret < 59 then Inl ErrHashTooShort
      else
        case decodeVersion hashedSecret zero_hashed of
          Inl e \<Rightarrow> Inl e
        | Inr (n, p) \<Rightarrow>
            (let hashedSecret = drop n hashedSecret in
             case decodeCost hashedSecret p of
               Inl e \<Rightarrow> Inl e
             | Inr (n, p) \<Rightarrow>
                 (let hashedSecret = drop n hashedSecret in
                  Inr (p\<lparr>h_salt := take 22 hashedSecret, h_hash := drop 22 hashedSecret\<rparr>))))"

definition newFromPassword :: "bytes \<Rightarrow> bytes \<Rightarrow> int \<Rightarrow> (bcrypt_error, hashed) result option" where
  "newFromPassword rand password cost =
     (let cost = (if cost < 4 then 10 else cost);
          p = zero_hashed\<lparr>h_major := CHR ''2'', h_minor := CHR ''a''\<rparr> in
      case checkCost cost of
        Some e \<Rightarrow> Some (Inl e)
      | None \<Rightarrow>
          (case read_full 16 rand of
             (unencodedSalt, False, _) \<Rightarrow> Some (Inl RandFailed)
           | (unencodedSalt, True, _) \<Rightarrow>
               (case base64Encode unencodedSalt of
                  None \<Rightarrow> None
                | Some salt \<Rightarrow>
                    (case bcrypt password cost salt of
                       None \<Rightarrow> None
                     | Some (Inl e) \<Rightarrow> Some (Inl e)
                     | Some (Inr hash) \<Rightarrow> Some (Inr (p\<lparr>h_cost := cost, h_salt := salt, h_hash := hash\<rparr>))))))"

definition GenerateFromPassword :: "bytes \<Rightarrow> bytes \<Rightarrow> int \<Rightarrow> (bcrypt_error, string) result option" where
  "GenerateFromPassword rand password cost =
     (case newFromPassword rand password cost of
        None \<Rightarrow> None
      | Some (Inl e) \<Rightarrow> Some (Inl e)
      | Some (Inr p) \<Rightarrow> Some (Inr (hashed_Hash p)))"

definition CompareHashAndPassword :: "string \<Rightarrow> bytes \<Rightarrow> bcrypt_error option option" where
  "CompareHashAndPassword hashedPassword password =
     (case newFromHash hashedPassword of
        Inl e \<Rightarrow> Some (Some e)
      | Inr p \<Rightarrow>
          (case bcrypt password (h_cost p) (h_salt p) of
             None \<Rightarrow> None
           | Some (Inl e) \<Rightarrow> Some (Some e)
           | Some (Inr otherHash) \<Rightarrow>
               Some (if hashed_Hash p = hashed_Hash (p\<lparr>h_hash := otherHash\<rparr>) then None else Some ErrMismatchedHashAndPassword)))"

definition Cost :: "string \<Rightarrow> (bcrypt_error, int) result" where
  "Cost hashedPassword = (case newFromHash hashedPassword of Inl e \<Rightarrow> Inl e | Inr p \<Rightarrow> Inr (h_cost p))"

section \<open>Users\<close>

record User =
  u_ID :: UUID
  u_Name :: string
  u_Aliases :: "string list"
  u_Roles :: "string list"
  u_Hash :: string

definition SetPassword :: "bytes \<Rightarrow> string \<Rightarrow> User \<Rightarrow> (bcrypt_error option \<times> User) option" where
  "SetPassword rand pw u =
     (case GenerateFromPassword rand (bytes_of_string pw) 10 of
        None \<Rightarrow> None
      | Some (Inl e) \<Rightarrow> Some (Some e, u\<lparr>u_Hash := []\<rparr>)
      | Some (Inr hash) \<Rightarrow> Some (None, u\<lparr>u_Hash := hash\<rparr>))"

definition MatchPassword :: "User \<Rightarrow> string \<Rightarrow> bool option" where
  "MatchPassword u pw =
     (if length (u_Hash u) = 0 then Some False
      else map_option (\<lambda>e. e = None) (CompareHashAndPassword (u_Hash u) (bytes_of_string pw)))"

section \<open>base64 of salts and hashes\<close>

lemma base64Encode_some:
  assumes "src \<noteq> []" and "length src mod 3 \<noteq> 0"
  shows "\<exists>s. base64Encode src = Some s \<and> length s = (4 * length src + 2) div 3 \<and> base64Decode s = Some src"
proof -
  obtain body k where b: "b64_encode alphabet src = body @ replicate k pad" "pad \<notin> set body" "k = (3 - length src mod 3) mod 3"
    "length body = (4 * length src + 2) div 3" using bc.strip_pad by blast
  have "body \<noteq> []" using b(4) assms(1) by (cases src) auto
  have "dropWhile (\<lambda>c. c = pad) (replicate k pad @ rev body) = rev body"
    using b(2) by (induction k) (auto simp: dropWhile_eq_self_iff hd_rev in_set_conv_nth last_conv_nth)
  with \<open>body \<noteq> []\<close> have "base64Encode src = Some body" by (simp add: base64Encode_def b(1))
  moreover have "4 - length body mod 4 = k"
  proof -
    define q r where "q = length src div 3" and "r = length src mod 3"
    then have l: "length src = 3 * q + r" "r = 1 \<or> r = 2" using assms(2) by auto
    moreover have "(4 * (3 * q + 1) + 2) div 3 mod 4 = 2" "(4 * (3 * q + 2) + 2) div 3 mod 4 = 3" by presburger+
    ultimately show ?thesis unfolding b(3,4) l(1) by auto
  qed
  ultimately show ?thesis using b bc.decode_encode [of src] by (simp add: base64Decode_def)
qed

lemma decode_quanta_nonempty: "b64_decode_quanta alph cs = Some [] \<Longrightarrow> cs = []"
  by (induction alph cs rule: b64_decode_quanta.induct) (auto split: option.splits if_splits)

lemma base64Decode_nonempty: "base64Decode s \<noteq> Some []"
proof
  assume "base64Decode s = Some []"
  then have "filter (\<lambda>c. code c \<noteq> 10 \<and> code c \<noteq> 13) (s @ replicate (4 - length s mod 4) pad) = []"
    by (intro decode_quanta_nonempty) (simp add: base64Decode_def b64_decode_def)
  then have "4 - length s mod 4 = 0" by (auto simp: filter_empty_conv split: if_splits)
  moreover have "length s mod 4 < 4" by simp
  ultimately show False by simp
qed

section \<open>Nothing panics\<close>

lemma Encrypt_block: "length b = 8 \<Longrightarrow> \<exists>b'. Encrypt c b = Some b' \<and> length b' = 8"
  by (auto simp: Encrypt_def split: prod.split)

lemma encrypt_times_block: "length b = 8 \<Longrightarrow> \<exists>b'. encrypt_times n c b = Some b' \<and> length b' = 8"
proof (induction n arbitrary: b)
  case (Suc n)
  then show ?case using Encrypt_block [of b c] by auto
qed simp

lemma expand_rounds_wf:
  "wf_cipher c \<Longrightarrow> ckey \<noteq> [] \<Longrightarrow> csalt \<noteq> [] \<Longrightarrow> \<exists>c'. expand_rounds n ckey csalt c = Some c' \<and> wf_cipher c'"
proof (induction n arbitrary: c)
  case (Suc n)
  obtain c1 where c1: "ExpandKey ckey c = Some c1" "wf_cipher c1" using ExpandKey_wf Suc.prems by blast
  obtain c2 where "ExpandKey csalt c1 = Some c2" "wf_cipher c2" using ExpandKey_wf c1(2) Suc.prems(3) by blast
  with c1 Suc.IH Suc.prems show ?case by simp
qed simp

lemma setup_cases:
  "expensiveBlowfishSetup key cost salt =
     (case base64Decode salt of None \<Rightarrow> Some (Inl CorruptInput)
      | Some csalt \<Rightarrow> map_option Inr (Option.bind (expandKeyWithSalt (key @ [0]) csalt initCipher) (expand_rounds (rounds cost) (key @ [0]) csalt)))"
  using base64Decode_nonempty [of salt]
  by (auto simp: expensiveBlowfishSetup_def NewSaltedCipher_def Let_def expandKeyWithSalt_def split: option.splits prod.splits)

lemma setup_total:
  assumes "base64Decode salt = Some csalt"
  shows "\<exists>c. expensiveBlowfishSetup key cost salt = Some (Inr c) \<and> wf_cipher c"
proof -
  have n: "csalt \<noteq> []" using assms base64Decode_nonempty by metis
  obtain c where c: "expandKeyWithSalt (key @ [0]) csalt initCipher = Some c" "wf_cipher c" using expandKeyWithSalt_wf [of initCipher "key @ [0]" csalt] n by auto
  with expand_rounds_wf [OF c(2) _ n, of "key @ [0]" "rounds cost"] assms show ?thesis by (auto simp: setup_cases)
qed

lemma bcrypt_corrupt: "base64Decode salt = None \<Longrightarrow> bcrypt pw cost salt = Some (Inl CorruptInput)"
  by (simp add: bcrypt_def setup_cases)

lemma bcrypt_total:
  assumes "base64Decode salt = Some csalt"
  shows "\<exists>h. bcrypt pw cost salt = Some (Inr h) \<and> length h = 31"
proof -
  obtain c where c: "expensiveBlowfishSetup pw (word_of_int cost) salt = Some (Inr c)" using setup_total [OF assms] by blast
  obtain a b d where e: "encrypt_times 64 c (take 8 magicCipherData) = Some a" "length a = 8"
    "encrypt_times 64 c (take 8 (drop 8 magicCipherData)) = Some b" "length b = 8"
    "encrypt_times 64 c (take 8 (drop 16 magicCipherData)) = Some d" "length d = 8"
    using encrypt_times_block [of "take 8 magicCipherData" 64 c] encrypt_times_block [of "take 8 (drop 8 magicCipherData)" 64 c]
      encrypt_times_block [of "take 8 (drop 16 magicCipherData)" 64 c] by (auto simp: magicCipherData_def)
  have l: "length (take 23 (a @ b @ d)) = 23" using e by simp
  then have "take 23 (a @ b @ d) \<noteq> []" by (metis length_0_conv numeral_eq_iff zero_neq_numeral)
  with base64Encode_some [OF this] l obtain h where "base64Encode (take 23 (a @ b @ d)) = Some h" "length h = 31" by (auto simp del: take_append)
  with c e show ?thesis by (auto simp: bcrypt_def simp del: take_append)
qed

section \<open>The text of a hash reads back\<close>

lemma go_copy_fill: "length src \<le> m \<Longrightarrow> n = length xs \<Longrightarrow> go_copy n src (xs @ replicate m z) = (xs @ src) @ replicate (m - length src) z"
  by (simp add: go_copy_def)

lemma update_fill: "n = length xs \<Longrightarrow> (xs @ replicate (Suc m) z)[n := a] = (xs @ [a]) @ replicate m z"
  by (simp add: list_update_append)

lemma two_digits_cost:
  assumes "checkCost cost = None"
  shows "length (two_digits cost) = 2 \<and> Atoi (two_digits cost) = Some cost"
proof -
  obtain n where n: "cost = int n" "n \<le> 31" using assms by (auto simp: checkCost_def split: if_splits intro: that [of "nat cost"])
  show ?thesis
  proof (cases "n < 10")
    case True
    then have "two_digits cost = [CHR ''0'', digit_char n]" by (simp add: two_digits_def format_int_def n itoa.simps [of n])
    moreover have "parse_digits [CHR ''0'', digit_char n] = Some n"
      using True by (simp add: parse_digits_def digits_value_def is_digit_def)
    ultimately show ?thesis using n by (simp add: Atoi_def)
  next
    case False
    moreover have "n div 10 < 10" using n(2) by simp
    ultimately have "length (itoa n) = 2" by (simp add: itoa.simps [of n] itoa.simps [of "n div 10"])
    then show ?thesis using Atoi_itoa [of n] n by (simp add: two_digits_def format_int_def)
  qed
qed

lemma Hash_text:
  assumes "checkCost (h_cost p) = None" and "length (h_salt p) = 22" "length (h_hash p) = 31" and "h_minor p \<noteq> CHR 0x00"
  shows "hashed_Hash p = [CHR ''$'', h_major p, h_minor p, CHR ''$''] @ two_digits (h_cost p) @ [CHR ''$''] @ h_salt p @ h_hash p"
proof -
  let ?z = "CHR 0x00" and ?d = "two_digits (h_cost p)"
  let ?a = "[CHR ''$'', h_major p, h_minor p, CHR ''$'']"
  have d: "length ?d = 2" using two_digits_cost [OF assms(1)] by simp
  have "(replicate 60 ?z)[0 := CHR ''$'', 1 := h_major p, 2 := h_minor p, 3 := CHR ''$''] = ?a @ replicate 56 ?z"
    by (simp add: numeral_eq_Suc)
  moreover have "go_copy 4 ?d (?a @ replicate 56 ?z) = (?a @ ?d) @ replicate 54 ?z"
    using d by (subst go_copy_fill) simp_all
  moreover have "((?a @ ?d) @ replicate 54 ?z)[6 := CHR ''$''] = (?a @ ?d @ [CHR ''$'']) @ replicate 53 ?z"
    using update_fill [of 6 "?a @ ?d" 53 ?z "CHR ''$''"] d by simp
  moreover have "go_copy 7 (h_salt p) ((?a @ ?d @ [CHR ''$'']) @ replicate 53 ?z) = (?a @ ?d @ [CHR ''$''] @ h_salt p) @ replicate 31 ?z"
    using d assms(2) by (subst go_copy_fill) simp_all
  moreover have "go_copy 29 (h_hash p) ((?a @ ?d @ [CHR ''$''] @ h_salt p) @ replicate 31 ?z) = ?a @ ?d @ [CHR ''$''] @ h_salt p @ h_hash p"
    using d assms(2,3) by (subst go_copy_fill) simp_all
  ultimately show ?thesis
    using assms(2-4) d by (simp add: hashed_Hash_def Let_def del: append_Cons append_assoc)
qed

lemma newFromHash_Hash:
  assumes "checkCost (h_cost p) = None" and "length (h_salt p) = 22" "length (h_hash p) = 31" and "h_major p = CHR ''2''" "h_minor p = CHR ''a''"
  shows "newFromHash (hashed_Hash p) = Inr p"
proof -
  have d: "length (two_digits (h_cost p)) = 2" "Atoi (two_digits (h_cost p)) = Some (h_cost p)" using two_digits_cost [OF assms(1)] by simp_all
  have "hashed_Hash p = [CHR ''$'', CHR ''2'', CHR ''a'', CHR ''$''] @ two_digits (h_cost p) @ [CHR ''$''] @ h_salt p @ h_hash p"
    using Hash_text [of p] assms by simp
  then show ?thesis
    using d assms by (simp add: newFromHash_def decodeVersion_def decodeCost_def zero_hashed_def Let_def)
qed

section \<open>What counts of a password\<close>

lemma bcrypt_cong:
  assumes "\<And>i. i < 72 \<Longrightarrow> stream (a @ [0]) i = stream (b @ [0]) i"
  shows "bcrypt a cost salt = bcrypt b cost salt"
proof -
  have e: "ExpandKey (a @ [0]) c = ExpandKey (b @ [0]) c" "expandKeyWithSalt (a @ [0]) csalt c = expandKeyWithSalt (b @ [0]) csalt c" if "wf_cipher c" for c csalt
    using ExpandKey_cong [of c "a @ [0]" "b @ [0]"] assms that by (simp_all add: wf_cipher_def)
  have "csalt \<noteq> [] \<Longrightarrow> wf_cipher c \<Longrightarrow> expand_rounds n (a @ [0]) csalt c = expand_rounds n (b @ [0]) csalt c" for n csalt c
  proof (induction n arbitrary: c)
    case (Suc n)
    obtain c1 where c1: "ExpandKey (b @ [0]) c = Some c1" "wf_cipher c1" using ExpandKey_wf Suc.prems by blast
    obtain c2 where "ExpandKey csalt c1 = Some c2" "wf_cipher c2" using ExpandKey_wf c1(2) Suc.prems(1) by blast
    with c1 e(1) Suc show ?case by simp
  qed simp
  then have "expensiveBlowfishSetup a k salt = expensiveBlowfishSetup b k salt" for k
    using base64Decode_nonempty [of salt] e(2) [OF initCipher_wf] expandKeyWithSalt_wf [OF initCipher_wf, of "b @ [0]"]
    by (fastforce simp: setup_cases split: option.split)
  then show ?thesis by (simp add: bcrypt_def)
qed

lemma stream_prefix: "length a \<ge> 72 \<Longrightarrow> i < 72 \<Longrightarrow> stream (a @ [x]) i = take 72 a ! i"
  by (simp add: stream_def nth_append)

section \<open>Properties\<close>

text \<open>
  C36: the password a user has just set matches, whatever the password and the random salt, and the hash is a text
  of sixty bytes; nothing else of the user changes. If the random source runs dry the error is returned, the hash is gone, and no password
  matches.
\<close>

theorem SetPassword_MatchPassword:
  "if 16 \<le> length rand
   then \<exists>h. SetPassword rand pw u = Some (None, u\<lparr>u_Hash := h\<rparr>) \<and> length h = 60 \<and> MatchPassword (u\<lparr>u_Hash := h\<rparr>) pw = Some True
   else SetPassword rand pw u = Some (Some RandFailed, u\<lparr>u_Hash := []\<rparr>) \<and> MatchPassword (u\<lparr>u_Hash := []\<rparr>) pw' = Some False"
proof (cases "16 \<le> length rand")
  case True
  let ?salt = "take 16 rand" and ?pw = "bytes_of_string pw"
  have "?salt \<noteq> []" using True by (cases rand) auto
  then obtain salt where salt: "base64Encode ?salt = Some salt" "length salt = 22" "base64Decode salt = Some ?salt"
    using base64Encode_some [of ?salt] True by auto
  obtain hash where hash: "bcrypt ?pw 10 salt = Some (Inr hash)" "length hash = 31" using bcrypt_total [OF salt(3)] by blast
  let ?p = "\<lparr>h_hash = hash, h_salt = salt, h_cost = 10, h_major = CHR ''2'', h_minor = CHR ''a''\<rparr>" 
  have gen: "SetPassword rand pw u = Some (None, u\<lparr>u_Hash := hashed_Hash ?p\<rparr>)"
    using True salt hash by (simp add: SetPassword_def GenerateFromPassword_def newFromPassword_def checkCost_def read_full_def zero_hashed_def Let_def)
  have cost: "checkCost (h_cost ?p) = None" by (simp add: checkCost_def)
  have reads: "newFromHash (hashed_Hash ?p) = Inr ?p" by (rule newFromHash_Hash [OF cost]) (use salt hash in simp_all)
  have "length (hashed_Hash ?p) = 60" using Hash_text [OF cost] two_digits_cost [OF cost] salt hash by simp
  moreover from this have "hashed_Hash ?p \<noteq> []" by (metis length_0_conv zero_neq_numeral)
  ultimately have "MatchPassword (u\<lparr>u_Hash := hashed_Hash ?p\<rparr>) pw = Some True"
    using reads hash by (simp add: MatchPassword_def CompareHashAndPassword_def)
  with gen \<open>length (hashed_Hash ?p) = 60\<close> True show ?thesis by auto
next
  case False
  then show ?thesis
    by (simp add: SetPassword_def GenerateFromPassword_def newFromPassword_def checkCost_def read_full_def MatchPassword_def Let_def)
qed

text \<open>
  A comparison never panics, whatever is stored as the hash: it answers yes exactly when the stored text reads as a
  bcrypt hash and hashing the password under its salt and cost gives the same text.
\<close>

theorem MatchPassword_decides:
  "MatchPassword u pw = Some (\<exists>p h. u_Hash u \<noteq> [] \<and> newFromHash (u_Hash u) = Inr p \<and>
     bcrypt (bytes_of_string pw) (h_cost p) (h_salt p) = Some (Inr h) \<and> hashed_Hash p = hashed_Hash (p\<lparr>h_hash := h\<rparr>))"
proof (cases "newFromHash (u_Hash u)")
  case (Inr p)
  show ?thesis
  proof (cases "base64Decode (h_salt p)")
    case None
    with Inr bcrypt_corrupt [OF None] show ?thesis by (simp add: MatchPassword_def CompareHashAndPassword_def)
  next
    case (Some csalt)
    then obtain h where "bcrypt (bytes_of_string pw) (h_cost p) (h_salt p) = Some (Inr h)" using bcrypt_total by blast
    with Inr show ?thesis by (simp add: MatchPassword_def CompareHashAndPassword_def)
  qed
qed (simp add: MatchPassword_def CompareHashAndPassword_def)

text \<open>
  Only the first 72 bytes of a password count: two passwords of at least that length that agree on them match the
  same hashes.
\<close>

theorem passwords_are_cut:
  assumes "72 \<le> length pw" "72 \<le> length pw'" and "take 72 pw = take 72 pw'"
  shows "MatchPassword u pw = MatchPassword u pw'"
proof -
  have "take 72 (bytes_of_string pw) = take 72 (bytes_of_string pw')" using assms(3) by (simp add: bytes_of_string_def take_map)
  then have "stream (bytes_of_string pw @ [0]) i = stream (bytes_of_string pw' @ [0]) i" if "i < 72" for i
    using stream_prefix [of "bytes_of_string pw" i 0] stream_prefix [of "bytes_of_string pw'" i 0] assms(1,2) that by simp
  from bcrypt_cong [OF this] show ?thesis by (simp add: MatchPassword_def CompareHashAndPassword_def split: sum.split)
qed

theorem passwords_are_cut_witness:
  "let u = \<lparr>u_ID = replicate 16 0, u_Name = ''bob'', u_Aliases = [], u_Roles = [], u_Hash = ''$2a$10$''\<rparr>;
       pw = replicate 72 CHR ''a'' @ ''b''; pw' = replicate 72 CHR ''a'' @ ''c''
   in pw \<noteq> pw' \<and> MatchPassword u pw = MatchPassword u pw'"
  using passwords_are_cut [of "replicate 72 CHR ''a'' @ ''b''" "replicate 72 CHR ''a'' @ ''c''"] by (simp add: Let_def)

end
