(* ===== verification/Graceful.thy ===== *)
theory Graceful
  imports Prelude
begin

text \<open>
  The graceful HTTP server (\<open>gopkg.in/tylerb/graceful.v1\<close>) around which \<open>startHTTP\<close> and \<open>Stop\<close> of the
  server are built: the goroutines of \<open>Serve\<close>, \<open>manageConnections\<close>, \<open>handleInterrupt\<close> and of every client connection,
  which only meet on channels. A send or receive on an unbuffered channel is one step of both sides. The listener, the
  clients and the clock decide when a connection arrives or ends, when accepting fails and when the timeout expires.
\<close>

section \<open>The goroutines\<close>

text \<open>
  \<open>Serve\<close>: accepting; reporting a new connection on \<open>add\<close>; sending on \<open>shutdown\<close>; waiting for \<open>done\<close> or the timeout; closing
  the stop channel; returned, with an error or not.
\<close>

datatype serve_pc = SAccept | SAdd nat | SShutdown bool | SWait bool | SClose bool | SReturned bool

text \<open>\<open>manageConnections\<close>: in its select, with \<open>done\<close> set or not; sending on \<open>done\<close>; returned.\<close>

datatype manager_pc = MSelect bool | MDone | MReturned

text \<open>\<open>handleInterrupt\<close>: waiting for a signal; then what it does on the first one.\<close>

datatype handler_pc = HRange | HQuit | HListener | HHook

text \<open>A connection: not accepted yet, open, reporting its end on \<open>remove\<close>, reported.\<close>

datatype conn_pc = CNone | COpen | CRemove | CGone

datatype stop_chan = NoChan | OpenChan | ClosedChan

record gserver =
  g_Timeout :: nat
  g_Interrupted :: bool
  g_interrupt :: nat
  g_quitting :: bool
  g_listener :: bool
  g_kill :: bool
  g_stopChan :: stop_chan
  g_connections :: "nat set"
  g_hooks :: nat
  g_serve :: serve_pc
  g_manager :: manager_pc
  g_handler :: handler_pc
  g_conn :: "nat \<Rightarrow> conn_pc"

definition serve_init :: "nat \<Rightarrow> gserver" where
  "serve_init timeout = \<lparr>g_Timeout = timeout, g_Interrupted = False, g_interrupt = 0, g_quitting = False, g_listener = True,
     g_kill = False, g_stopChan = NoChan, g_connections = {}, g_hooks = 0, g_serve = SAccept, g_manager = MSelect False,
     g_handler = HRange, g_conn = (\<lambda>c. CNone)\<rparr>"

text \<open>\<open>Serve\<close> and \<open>shutdown\<close>.\<close>

inductive serve_step :: "gserver \<Rightarrow> gserver \<Rightarrow> bool" where
  accepts: "g_serve s = SAccept \<Longrightarrow> g_listener s \<Longrightarrow> g_conn s c = CNone \<Longrightarrow> serve_step s (s\<lparr>g_serve := SAdd c\<rparr>)"
| adds: "g_serve s = SAdd c \<Longrightarrow> g_manager s = MSelect d \<Longrightarrow>
    serve_step s (s\<lparr>g_connections := insert c (g_connections s), g_conn := (g_conn s)(c := COpen), g_serve := SAccept\<rparr>)"
| accept_fails: "g_serve s = SAccept \<Longrightarrow> serve_step s (s\<lparr>g_serve := SShutdown (\<not> g_quitting s)\<rparr>)"
| asks_done: "g_serve s = SShutdown e \<Longrightarrow> g_manager s = MSelect d \<Longrightarrow>
    serve_step s (s\<lparr>g_serve := SWait e, g_manager := if g_connections s = {} then MDone else MSelect True\<rparr>)"
| gets_done: "g_serve s = SWait e \<Longrightarrow> g_manager s = MDone \<Longrightarrow> serve_step s (s\<lparr>g_serve := SClose e, g_manager := MReturned\<rparr>)"
| times_out: "g_serve s = SWait e \<Longrightarrow> g_Timeout s > 0 \<Longrightarrow> serve_step s (s\<lparr>g_serve := SClose e, g_kill := True\<rparr>)"
| returns: "g_serve s = SClose e \<Longrightarrow>
    serve_step s (s\<lparr>g_serve := SReturned e, g_stopChan := if g_stopChan s = NoChan then NoChan else ClosedChan\<rparr>)"

text \<open>\<open>manageConnections\<close> and the state changes of a connection; a closed \<open>kill\<close> closes what is left.\<close>

inductive manage_step :: "gserver \<Rightarrow> gserver \<Rightarrow> bool" where
  ends: "g_conn s c = COpen \<Longrightarrow> manage_step s (s\<lparr>g_conn := (g_conn s)(c := CRemove)\<rparr>)"
| removes: "g_conn s c = CRemove \<Longrightarrow> g_manager s = MSelect d \<Longrightarrow>
    manage_step s (s\<lparr>g_connections := g_connections s - {c}, g_conn := (g_conn s)(c := CGone),
      g_manager := if d \<and> g_connections s - {c} = {} then MDone else MSelect d\<rparr>)"
| kills: "g_manager s = MSelect d \<Longrightarrow> g_kill s \<Longrightarrow> manage_step s (s\<lparr>g_manager := MReturned\<rparr>)"

text \<open>\<open>Stop\<close>, \<open>StopChan\<close>, signals of the system, and \<open>handleInterrupt\<close>. The channel of signals holds one.\<close>

inductive stop_step :: "gserver \<Rightarrow> gserver \<Rightarrow> bool" where
  stop_timeout: "stop_step s (s\<lparr>g_Timeout := t\<rparr>)"
| interrupt: "g_interrupt s < 1 \<Longrightarrow> stop_step s (s\<lparr>g_interrupt := g_interrupt s + 1\<rparr>)"
| stop_channel: "stop_step s (s\<lparr>g_stopChan := if g_stopChan s = NoChan then OpenChan else g_stopChan s\<rparr>)"
| again: "g_handler s = HRange \<Longrightarrow> g_interrupt s > 0 \<Longrightarrow> g_Interrupted s \<Longrightarrow> stop_step s (s\<lparr>g_interrupt := g_interrupt s - 1\<rparr>)"
| first: "g_handler s = HRange \<Longrightarrow> g_interrupt s > 0 \<Longrightarrow> \<not> g_Interrupted s \<Longrightarrow>
    stop_step s (s\<lparr>g_interrupt := g_interrupt s - 1, g_Interrupted := True, g_handler := HQuit\<rparr>)"
| quits: "g_handler s = HQuit \<Longrightarrow> stop_step s (s\<lparr>g_quitting := True, g_handler := HListener\<rparr>)"
| closes: "g_handler s = HListener \<Longrightarrow> stop_step s (s\<lparr>g_listener := False, g_handler := HHook\<rparr>)"
| hooks: "g_handler s = HHook \<Longrightarrow> stop_step s (s\<lparr>g_hooks := g_hooks s + 1, g_handler := HRange\<rparr>)"

definition graceful_step :: "gserver \<Rightarrow> gserver \<Rightarrow> bool" where
  "graceful_step s s' \<longleftrightarrow> serve_step s s' \<or> manage_step s s' \<or> stop_step s s'"

abbreviation graceful_reach :: "gserver \<Rightarrow> gserver \<Rightarrow> bool" where
  "graceful_reach \<equiv> graceful_step\<^sup>*\<^sup>*"

inductive_cases serve_stepE: "serve_step s s'"
inductive_cases manage_stepE: "manage_step s s'"
inductive_cases stop_stepE: "stop_step s s'"

lemma graceful_stepE [consumes 1, case_names serve manage stop]:
  assumes "graceful_step s s'"
  obtains "serve_step s s'" | "manage_step s s'" | "stop_step s s'"
  using assms by (auto simp: graceful_step_def)

section \<open>Invariants\<close>

text \<open>The manager's map holds the connections that have not been reported as ended.\<close>

definition tracks :: "gserver \<Rightarrow> bool" where
  "tracks s \<longleftrightarrow> finite (g_connections s) \<and> g_connections s = {c. g_conn s c = COpen \<or> g_conn s c = CRemove} \<and>
     (\<forall>c. g_serve s = SAdd c \<longrightarrow> g_conn s c = CNone)"

text \<open>How far \<open>Serve\<close> and the manager have come together.\<close>

fun phases_ok :: "serve_pc \<Rightarrow> manager_pc \<Rightarrow> bool \<Rightarrow> bool \<Rightarrow> bool" where
  "phases_ok (SWait e) m kill none \<longleftrightarrow> \<not> kill \<and> (m = MDone \<and> none \<or> m = MSelect True \<and> \<not> none)"
| "phases_ok (SClose e) m kill none \<longleftrightarrow> (if kill then m = MDone \<longrightarrow> none else m = MReturned \<and> none)"
| "phases_ok (SReturned e) m kill none \<longleftrightarrow> (if kill then m = MDone \<longrightarrow> none else m = MReturned \<and> none)"
| "phases_ok _ m kill none \<longleftrightarrow> \<not> kill \<and> m = MSelect False"

definition phases :: "gserver \<Rightarrow> bool" where
  "phases s \<longleftrightarrow> phases_ok (g_serve s) (g_manager s) (g_kill s) (g_connections s = {})"

text \<open>The first interrupt, and only it, closes \<open>quitting\<close>, the listener and calls the hook.\<close>

definition interrupted :: "gserver \<Rightarrow> bool" where
  "interrupted s \<longleftrightarrow>
     (case g_handler s of
        HRange \<Rightarrow> g_quitting s = g_Interrupted s \<and> g_listener s = (\<not> g_Interrupted s) \<and> g_hooks s = (if g_Interrupted s then 1 else 0)
      | HQuit \<Rightarrow> g_Interrupted s \<and> \<not> g_quitting s \<and> g_listener s \<and> g_hooks s = 0
      | HListener \<Rightarrow> g_Interrupted s \<and> g_quitting s \<and> g_listener s \<and> g_hooks s = 0
      | HHook \<Rightarrow> g_Interrupted s \<and> g_quitting s \<and> \<not> g_listener s \<and> g_hooks s = 0)"

lemma tracks_step [inv_intros]: "graceful_step s s' \<Longrightarrow> tracks s \<Longrightarrow> tracks s'"
  by (elim graceful_stepE serve_stepE manage_stepE stop_stepE) (auto simp: tracks_def insert_Collect split: if_splits intro: rev_finite_subset)

lemma phases_step [inv_intros]: "graceful_step s s' \<Longrightarrow> tracks s \<Longrightarrow> phases s \<Longrightarrow> phases s'"
  by (elim graceful_stepE serve_stepE manage_stepE stop_stepE; cases "g_serve s") (auto simp: phases_def tracks_def split: if_splits)

lemma interrupted_step [inv_intros]: "graceful_step s s' \<Longrightarrow> interrupted s \<Longrightarrow> interrupted s'"
  by (elim graceful_stepE serve_stepE manage_stepE stop_stepE) (auto simp: interrupted_def split: if_splits handler_pc.splits)

lemma graceful_inv:
  assumes "graceful_reach (serve_init t) s"
  shows "tracks s \<and> phases s \<and> interrupted s"
  using assms
proof (induction rule: rtranclp_induct)
  case base
  then show ?case by (auto simp: serve_init_def tracks_def phases_def interrupted_def)
next
  case (step s s')
  then show ?case by (blast intro: inv_intros)
qed

section \<open>Shutting down\<close>

lemma graceful_steps:
  "serve_step s s' \<Longrightarrow> graceful_step s s'" "manage_step s s' \<Longrightarrow> graceful_step s s'" "stop_step s s' \<Longrightarrow> graceful_step s s'"
  by (simp_all add: graceful_step_def)

lemma returns_from_close: "g_serve s = SClose e \<Longrightarrow> \<exists>s'. graceful_reach s s' \<and> g_serve s' = SReturned e"
  by (rule exI, rule conjI, rule r_into_rtranclp, rule graceful_steps(1), erule returns) simp

lemma returns_when_done:
  assumes "g_serve s = SWait e" and "g_manager s = MDone"
  shows "\<exists>s'. graceful_reach s s' \<and> g_serve s' = SReturned e"
proof -
  let ?s = "s\<lparr>g_serve := SClose e, g_manager := MReturned\<rparr>"
  have "graceful_step s ?s" using assms by (intro graceful_steps(1) gets_done)
  moreover obtain s' where "graceful_reach ?s s'" "g_serve s' = SReturned e" using returns_from_close [of ?s e] by auto
  ultimately show ?thesis by (blast intro: converse_rtranclp_into_rtranclp)
qed

text \<open>The last state change of a connection is always possible while the manager is in its select.\<close>

lemma connection_goes:
  assumes "g_conn s c = COpen \<or> g_conn s c = CRemove" and "g_manager s = MSelect d"
  shows "graceful_reach s (s\<lparr>g_connections := g_connections s - {c}, g_conn := (g_conn s)(c := CGone),
      g_manager := if d \<and> g_connections s - {c} = {} then MDone else MSelect d\<rparr>)"
proof -
  let ?s = "s\<lparr>g_conn := (g_conn s)(c := CRemove)\<rparr>"
  have "graceful_reach s ?s"
    using assms(1) ends [of s c] by (cases "g_conn s c") (auto simp: fun_upd_idem intro!: graceful_steps(2) r_into_rtranclp)
  moreover have "graceful_step ?s (s\<lparr>g_connections := g_connections s - {c}, g_conn := (g_conn s)(c := CGone),
      g_manager := if d \<and> g_connections s - {c} = {} then MDone else MSelect d\<rparr>)"
    by (rule graceful_steps(2)) (use removes [of ?s c d] assms(2) in simp)
  ultimately show ?thesis by (rule rtranclp.rtrancl_into_rtrancl)
qed

lemma drains:
  assumes "finite (g_connections s)" and "g_connections s = {c. g_conn s c = COpen \<or> g_conn s c = CRemove}"
    and "g_serve s = SWait e" and "g_connections s \<noteq> {}" and "g_manager s = MSelect True"
  shows "\<exists>s'. graceful_reach s s' \<and> g_serve s' = SReturned e"
  using assms
proof (induction "card (g_connections s)" arbitrary: s)
  case 0
  then show ?case by simp
next
  case (Suc n)
  then obtain c where c: "c \<in> g_connections s" by blast
  let ?s = "s\<lparr>g_connections := g_connections s - {c}, g_conn := (g_conn s)(c := CGone),
      g_manager := if True \<and> g_connections s - {c} = {} then MDone else MSelect True\<rparr>"
  have r: "graceful_reach s ?s" using c Suc.prems by (intro connection_goes) auto
  have "\<exists>s'. graceful_reach ?s s' \<and> g_serve s' = SReturned e"
  proof (cases "g_connections s - {c} = {}")
    case True
    then show ?thesis using Suc.prems(3) by (intro returns_when_done) simp_all
  next
    case False
    have "card (g_connections ?s) = n" using Suc.hyps(2) Suc.prems(1) c by simp
    then show ?thesis using Suc.prems False by (intro Suc.hyps(1)) auto
  qed
  with r show ?case by (meson rtranclp_trans)
qed

lemma returns_from_wait:
  assumes "tracks s" "phases s" and "g_serve s = SWait e"
  shows "\<exists>s'. graceful_reach s s' \<and> g_serve s' = SReturned e"
proof (cases "g_connections s = {}")
  case True
  with assms show ?thesis by (intro returns_when_done) (auto simp: phases_def)
next
  case False
  with assms show ?thesis by (intro drains) (auto simp: phases_def tracks_def)
qed

lemma returns_from_shutdown:
  assumes "tracks s" "phases s" and "g_serve s = SShutdown e"
  shows "\<exists>s'. graceful_reach s s' \<and> g_serve s' = SReturned e"
proof -
  let ?s = "s\<lparr>g_serve := SWait e, g_manager := if g_connections s = {} then MDone else MSelect True\<rparr>"
  have st: "graceful_step s ?s" using assms by (intro graceful_steps(1) asks_done) (auto simp: phases_def)
  then have "tracks ?s" "phases ?s" using assms(1,2) inv_intros by blast+
  with returns_from_wait [of ?s e] st show ?thesis by (auto intro: converse_rtranclp_into_rtranclp)
qed

lemma returns_from_accept:
  assumes "tracks s" "phases s" and "g_serve s = SAccept"
  shows "\<exists>s'. graceful_reach s s' \<and> g_serve s' = SReturned (\<not> g_quitting s)"
proof -
  let ?s = "s\<lparr>g_serve := SShutdown (\<not> g_quitting s)\<rparr>"
  have st: "graceful_step s ?s" using assms(3) by (intro graceful_steps(1) accept_fails)
  then have "tracks ?s" "phases ?s" using assms(1,2) inv_intros by blast+
  with returns_from_shutdown [of ?s] st show ?thesis by (auto intro: converse_rtranclp_into_rtranclp)
qed

lemma serve_can_return:
  assumes "tracks s" "phases s"
  shows "\<exists>s' e. graceful_reach s s' \<and> g_serve s' = SReturned e"
proof (cases "g_serve s")
  case SAccept
  with assms show ?thesis by (blast dest: returns_from_accept)
next
  case (SAdd c)
  let ?s = "s\<lparr>g_connections := insert c (g_connections s), g_conn := (g_conn s)(c := COpen), g_serve := SAccept\<rparr>"
  have st: "graceful_step s ?s" using assms SAdd by (intro graceful_steps(1) adds [where d = False]) (simp_all add: phases_def)
  then have "tracks ?s" "phases ?s" using assms inv_intros by blast+
  with returns_from_accept [of ?s] st show ?thesis by (auto intro: converse_rtranclp_into_rtranclp)
next
  case (SShutdown e)
  with assms show ?thesis by (blast dest: returns_from_shutdown)
next
  case (SWait e)
  with assms show ?thesis by (blast dest: returns_from_wait)
next
  case (SClose e)
  then show ?thesis by (blast dest: returns_from_close)
qed blast

section \<open>Properties\<close>

text \<open>
  C39: when \<open>Serve\<close> has returned and the timeout has not expired, every connection it accepted has ended; the callback
  for the shutdown ran at most once, and \<open>Serve\<close> can return from every state it gets into, without an error once
  the first signal has been handled.
\<close>

theorem graceful_shutdown:
  assumes "graceful_reach (serve_init t) s"
  shows "(g_serve s = SReturned e \<and> \<not> g_kill s \<longrightarrow> (\<forall>c. g_conn s c = CNone \<or> g_conn s c = CGone)) \<and> g_hooks s \<le> 1 \<and>
    (\<exists>s' e'. graceful_reach s s' \<and> g_serve s' = SReturned e' \<and> (g_serve s = SAccept \<and> \<not> g_listener s \<longrightarrow> \<not> e'))"
proof -
  have i: "tracks s" "phases s" "interrupted s" using graceful_inv [OF assms] by blast+
  have "g_conn s c = CNone \<or> g_conn s c = CGone" if "g_serve s = SReturned e" "\<not> g_kill s" for c
    using i(1,2) that by (cases "g_conn s c") (auto simp: tracks_def phases_def)
  moreover have "g_hooks s \<le> 1" using i(3) by (auto simp: interrupted_def split: handler_pc.splits)
  moreover have "\<not> g_listener s \<Longrightarrow> g_quitting s" using i(3) by (auto simp: interrupted_def split: handler_pc.splits)
  then have "\<exists>s' e'. graceful_reach s s' \<and> g_serve s' = SReturned e' \<and> (g_serve s = SAccept \<and> \<not> g_listener s \<longrightarrow> \<not> e')"
    using serve_can_return [OF i(1,2)] returns_from_accept [OF i(1,2)] by metis
  ultimately show ?thesis by blast
qed

text \<open>
  Once the timeout has made the manager return, the connections it has closed are never reported as ended: their
  goroutines wait on the channel for ever.
\<close>

theorem killed_connections_wait_forever:
  assumes "graceful_reach (serve_init t) s" and "g_manager s = MReturned" and "c \<in> g_connections s" and "graceful_reach s s'"
  shows "g_kill s \<and> (g_conn s' c = COpen \<or> g_conn s' c = CRemove)"
proof -
  have i: "tracks s" "phases s" using graceful_inv [OF assms(1)] by blast+
  have "g_kill s" using i(2) assms(2,3) by (cases "g_serve s") (auto simp: phases_def split: if_splits)
  moreover from assms(4) have "g_manager s' = MReturned \<and> (g_conn s' c = COpen \<or> g_conn s' c = CRemove)"
  proof (induction rule: rtranclp_induct)
    case base
    then show ?case using i(1) assms(2,3) by (auto simp: tracks_def)
  next
    case (step y z)
    from step.hyps(2) step.IH show ?case by (elim graceful_stepE serve_stepE manage_stepE stop_stepE) auto
  qed
  ultimately show ?thesis by blast
qed

text \<open>A server with one client, stopped with a timeout: the client is still connected when the timeout expires.\<close>

lemma demo_killed:
  "\<exists>s. graceful_reach (serve_init 1) s \<and> g_manager s = MReturned \<and> 7 \<in> g_connections s \<and> g_conn s 7 = COpen"
proof -
  let ?s0 = "serve_init 1" let ?s1 = "?s0\<lparr>g_serve := SAdd 7\<rparr>"
  let ?s2 = "?s1\<lparr>g_connections := insert 7 (g_connections ?s1), g_conn := (g_conn ?s1)(7 := COpen), g_serve := SAccept\<rparr>"
  let ?s3 = "?s2\<lparr>g_serve := SShutdown (\<not> g_quitting ?s2)\<rparr>"
  let ?s4 = "?s3\<lparr>g_serve := SWait True, g_manager := if g_connections ?s3 = {} then MDone else MSelect True\<rparr>"
  let ?s5 = "?s4\<lparr>g_serve := SClose True, g_kill := True\<rparr>" let ?s6 = "?s5\<lparr>g_manager := MReturned\<rparr>"
  have "graceful_step ?s0 ?s1" by (rule graceful_steps(1), rule accepts) (simp_all add: serve_init_def)
  moreover have "graceful_step ?s1 ?s2" by (rule graceful_steps(1), rule adds [where d = False]) (simp_all add: serve_init_def)
  moreover have "graceful_step ?s2 ?s3" by (rule graceful_steps(1), rule accept_fails) simp
  moreover have "graceful_step ?s3 ?s4" by (rule graceful_steps(1), rule asks_done [where d = False]) (simp_all add: serve_init_def)
  moreover have "graceful_step ?s4 ?s5" by (rule graceful_steps(1), rule times_out) (simp_all add: serve_init_def)
  moreover have "graceful_step ?s5 ?s6" by (rule graceful_steps(2), rule kills [where d = True]) simp_all
  ultimately have "graceful_reach ?s0 ?s6" by (meson converse_rtranclp_into_rtranclp rtranclp.rtrancl_refl)
  then show ?thesis by (intro exI [of _ ?s6]) simp
qed

theorem killed_connections_wait_forever_witness:
  "\<exists>s. graceful_reach (serve_init 1) s \<and> 7 \<in> g_connections s \<and> g_kill s \<and> (\<forall>s'. graceful_reach s s' \<longrightarrow> g_conn s' 7 \<noteq> CGone)"
proof -
  obtain s where s: "graceful_reach (serve_init 1) s" "g_manager s = MReturned" "7 \<in> g_connections s" using demo_killed by blast
  have "g_kill s" using killed_connections_wait_forever [OF s rtranclp.rtrancl_refl] by blast
  moreover have "g_conn s' 7 \<noteq> CGone" if "graceful_reach s s'" for s'
    using killed_connections_wait_forever [OF s that] by auto
  ultimately show ?thesis using s by blast
qed

theorem graceful_shutdown_witness:
  "\<exists>s s' e. graceful_reach (serve_init 1) s \<and> g_conn s 7 = COpen \<and> g_hooks s \<le> 1 \<and> graceful_reach s s' \<and> g_serve s' = SReturned e"
proof -
  obtain s where s: "graceful_reach (serve_init 1) s" "g_conn s 7 = COpen" using demo_killed by blast
  with graceful_shutdown [OF s(1), of True] show ?thesis by blast
qed

end
