(* ===== verification/Server.thy ===== *)
theory Server
  imports Query_Engine
begin

text \<open>
  \<open>arla/main.go\<close>: the HTTP server, its handlers and routes. A handler takes the response, the request and
  the server and returns the error for the client, if any; the outer \<open>None\<close> is a panic, or a call
  that never returns. The query engine is reached through its interface, a record of methods over the state of the
  engine. Starting and stopping is in \<open>Server_Lifecycle\<close>.
\<close>

section \<open>State\<close>

text \<open>The methods of \<open>querystore.Engine\<close> that the handlers call.\<close>

record 'e Engine =
  en_Mutate :: "Mutation \<Rightarrow> 'e \<Rightarrow> (go_error option \<times> Mutation \<times> 'e) option"
  en_Query :: "Query option \<Rightarrow> 'e \<Rightarrow> Response \<Rightarrow> (go_error option \<times> Response \<times> 'e) option"
  en_Authenticate :: "string \<Rightarrow> 'e \<Rightarrow> ((go_error, Token) result \<times> 'e) option"
  en_Register :: "string \<Rightarrow> 'e \<Rightarrow> ((go_error, Mutation) result \<times> 'e) option"

definition postgres_engine :: "strconv \<Rightarrow> postgres Engine" where
  "postgres_engine sc = \<lparr>en_Mutate = Mutate sc, en_Query = pg_Query sc Write_body, en_Authenticate = Authenticate sc, en_Register = Register sc\<rparr>"

record ServerConfig =
  sv_ConfigPath :: string
  sv_Secret :: string
  sv_DataDir :: string
  sv_ListenAddr :: string
  sv_GraceDuration :: int
  sv_MaxConnections :: int
  sv_Debug :: bool

text \<open>
  The mutation store is the open log and whether its writing goroutine still runs; the file it writes is kept
  apart, because it outlives the store.
\<close>

record 'e Server =
  s_cfg :: ServerConfig
  s_info :: "Info option"
  s_qs :: "'e option"
  s_ms :: "(Log \<times> bool) option"
  s_file :: string
  s_http :: bool
  s_stopping :: bool

text \<open>What a request meets in the world: number formatting, the hash functions, the clock and the disk.\<close>

record env =
  ev_sc :: strconv
  ev_crypto :: crypto
  ev_now :: int
  ev_disk :: disk

type_synonym 'e HandlerFunc = "Response \<Rightarrow> Request \<Rightarrow> 'e Server \<Rightarrow> (Error option \<times> Response \<times> 'e Server) option"

type_synonym 'e AuthenticatedHandlerFunc = "Response \<Rightarrow> Request \<Rightarrow> Token \<Rightarrow> 'e Server \<Rightarrow> (Error option \<times> Response \<times> 'e Server) option"

section \<open>Handlers\<close>

text \<open>\<open>json.NewEncoder(w).Encode(v)\<close>.\<close>

definition encode_to :: "jtree option \<Rightarrow> Response \<Rightarrow> go_error option \<times> Response" where
  "encode_to t w =
     (case encode_line t of
        Inl e \<Rightarrow> (Some (JsonErr e), w)
      | Inr line \<Rightarrow> (case Write_body w line of ((n, failed), w) \<Rightarrow> (if failed then Some (ErrorString ''write'') else None, w)))"

text \<open>\<open>json.NewDecoder(r.Body).Decode(&v)\<close>: a body that cannot be read gives its error.\<close>

definition decode_body :: "(jtree \<Rightarrow> 'r \<Rightarrow> 'r \<times> dstatus) \<Rightarrow> Request \<Rightarrow> 'r \<Rightarrow> 'r \<times> go_error option" where
  "decode_body d r x =
     (case r_Body r of
        None \<Rightarrow> (x, Some (ErrorString ''read''))
      | Some b \<Rightarrow> (case decode_with d b x of (x, e, _) \<Rightarrow> (x, map_option JsonErr e)))"

definition access_token_tree :: "string \<Rightarrow> jtree" where
  "access_token_tree tok = TObj (opt_field (tok \<noteq> []) ''access_token'' (TStr (escape tok)))"

definition token_claims :: "Token \<Rightarrow> int \<Rightarrow> Token" where
  "token_claims claims now = map_put ''exp'' (JInt (now + 72 * 3600)) (fold (\<lambda>(k, v). map_put k v) claims [])"

definition login :: "env \<Rightarrow> 'e Engine \<Rightarrow> Response \<Rightarrow> string \<Rightarrow> 'e Server \<Rightarrow> (Error option \<times> Response \<times> 'e Server) option" where
  "login ev eng w vals s =
     (case s_qs s of
        None \<Rightarrow> None
      | Some q \<Rightarrow>
          (case en_Authenticate eng vals q of
             None \<Rightarrow> None
           | Some (Inl e, q) \<Rightarrow> Some (Some (authError e), w, s\<lparr>s_qs := Some q\<rparr>)
           | Some (Inr claims, q) \<Rightarrow>
               (let s = s\<lparr>s_qs := Some q\<rparr>;
                    token = (jwt_New SigningMethodHS256)\<lparr>t_Claims := token_claims claims (ev_now ev)\<rparr> in
                case SignedString (ev_sc ev) (ev_crypto ev) token (KeyBytes (bytes_of_string (sv_Secret (s_cfg s)))) of
                  Inl e \<Rightarrow> Some (Some (internalError (JwtErr (Inl e))), w, s)
                | Inr accessToken \<Rightarrow>
                    (case encode_to (Some (access_token_tree accessToken)) w of
                       (Some e, w) \<Rightarrow> Some (Some (internalError e), w, s)
                     | (None, w) \<Rightarrow> Some (None, w, s)))))"

text \<open>\<open>s.ms.Write(m)\<close>; the call does not return when the writing goroutine is gone.\<close>

definition ms_Write :: "env \<Rightarrow> Mutation \<Rightarrow> Log \<times> bool \<Rightarrow> 'e Server \<Rightarrow> (log_error option \<times> 'e Server) option" where
  "ms_Write ev m ms s =
     (case Log_Write (ev_sc ev) (ev_disk ev) (Some m) (fst ms) (snd ms) (s_file s) of
        (None, _, _, _) \<Rightarrow> None
      | (Some e, l, go, f) \<Rightarrow> Some (e, s\<lparr>s_ms := Some (l, go), s_file := f\<rparr>))"

definition registrationHandler :: "env \<Rightarrow> 'e Engine \<Rightarrow> 'e HandlerFunc" where
  "registrationHandler ev eng w r s =
     (case r_Body r of
        None \<Rightarrow> Some (userError (ev_sc ev) (ErrorString ''read''), w, s)
      | Some b \<Rightarrow>
          (case s_qs s of
             None \<Rightarrow> Some (Some tempError, w, s)
           | Some q \<Rightarrow>
               (case en_Register eng b q of
                  None \<Rightarrow> None
                | Some (Inl e, q) \<Rightarrow> Some (userError (ev_sc ev) e, w, s\<lparr>s_qs := Some q\<rparr>)
                | Some (Inr m, q) \<Rightarrow>
                    (case en_Mutate eng m q of
                       None \<Rightarrow> None
                     | Some (Some e, m, q) \<Rightarrow> Some (userError (ev_sc ev) e, w, s\<lparr>s_qs := Some q\<rparr>)
                     | Some (None, m, q) \<Rightarrow>
                         (let s = s\<lparr>s_qs := Some q\<rparr> in
                          case s_ms s of
                            None \<Rightarrow> Some (Some tempError, w, s)
                          | Some ms \<Rightarrow>
                              (case ms_Write ev m ms s of
                                 None \<Rightarrow> None
                               | Some (Some e, s) \<Rightarrow> Some (Some (internalError (LogErr e)), w, s)
                               | Some (None, s) \<Rightarrow> login ev eng w b s))))))"

definition info_ptr_tree :: "Info option \<Rightarrow> jtree" where
  "info_ptr_tree i = (case i of None \<Rightarrow> TNull | Some i \<Rightarrow> info_tree i)"

definition infoHandler :: "env \<Rightarrow> 'e HandlerFunc" where
  "infoHandler ev w r s =
     (case encode_to (Some (info_ptr_tree (s_info s))) w of
        (Some e, w) \<Rightarrow> Some (Some (internalError e), w, s)
      | (None, w) \<Rightarrow> Some (None, w, s))"

definition authenticationHandler :: "env \<Rightarrow> 'e Engine \<Rightarrow> 'e HandlerFunc" where
  "authenticationHandler ev eng w r s =
     (case r_Body r of
        None \<Rightarrow> Some (userError (ev_sc ev) (ErrorString ''read''), w, s)
      | Some b \<Rightarrow> login ev eng w b s)"

definition success_tree :: jtree where
  "success_tree = TObj [(''success'', TBool True)]"

definition execHandler :: "env \<Rightarrow> 'e Engine \<Rightarrow> 'e AuthenticatedHandlerFunc" where
  "execHandler ev eng w r t s =
     (case decode_body (decode_mutation (ev_sc ev)) r zero_mutation of
        (_, Some e) \<Rightarrow> Some (userError (ev_sc ev) e, w, s)
      | (m, None) \<Rightarrow>
          (let m = m\<lparr>m_Token := t\<rparr> in
           case s_qs s of
             None \<Rightarrow> Some (Some tempError, w, s)
           | Some q \<Rightarrow>
               (case en_Mutate eng m q of
                  None \<Rightarrow> None
                | Some (Some e, m, q) \<Rightarrow> Some (userError (ev_sc ev) e, w, s\<lparr>s_qs := Some q\<rparr>)
                | Some (None, m, q) \<Rightarrow>
                    (let s = s\<lparr>s_qs := Some q\<rparr> in
                     case s_ms s of
                       None \<Rightarrow> Some (Some tempError, w, s)
                     | Some ms \<Rightarrow>
                         (case ms_Write ev m ms s of
                            None \<Rightarrow> None
                          | Some (Some e, s) \<Rightarrow> Some (userError (ev_sc ev) (LogErr e), w, s)
                          | Some (None, s) \<Rightarrow>
                              (case encode_to (Some success_tree) w of
                                 (Some e, w) \<Rightarrow> Some (Some (internalError e), w, s)
                               | (None, w) \<Rightarrow> Some (None, w, s)))))))"

text \<open>The decoder gets the address of the pointer to the query: \<open>null\<close> makes the pointer nil.\<close>

definition decode_query_ptr :: "strconv \<Rightarrow> jtree \<Rightarrow> Query option \<Rightarrow> Query option \<times> dstatus" where
  "decode_query_ptr sc t q =
     (if t = TNull then (None, DOk) else case decode_query sc t (case q of Some q \<Rightarrow> q | None \<Rightarrow> zero_query) of (q, st) \<Rightarrow> (Some q, st))"

definition queryHandler :: "env \<Rightarrow> 'e Engine \<Rightarrow> 'e AuthenticatedHandlerFunc" where
  "queryHandler ev eng w r t s =
     (case decode_body (decode_query_ptr (ev_sc ev)) r (Some (zero_query\<lparr>q_Token := t\<rparr>)) of
        (_, Some e) \<Rightarrow> Some (userError (ev_sc ev) e, w, s)
      | (q, None) \<Rightarrow>
          (case s_qs s of
             None \<Rightarrow> Some (Some tempError, w, s)
           | Some e \<Rightarrow>
               (case en_Query eng q e w of
                  None \<Rightarrow> None
                | Some (Some err, w, e) \<Rightarrow> Some (userError (ev_sc ev) err, w, s\<lparr>s_qs := Some e\<rparr>)
                | Some (None, w, e) \<Rightarrow> Some (None, w, s\<lparr>s_qs := Some e\<rparr>))))"

section \<open>Wrapping and routing\<close>

definition enableCORS :: "Request \<Rightarrow> Response \<Rightarrow> Response" where
  "enableCORS r w =
     (let origin = Get (r_Header r) ''Origin'' in
      if origin = [] then w
      else Header_Set ''Access-Control-Allow-Headers'' ''Accept, Content-Type, Content-Length, Accept-Encoding, X-CSRF-Token, Authorization''
            (Header_Set ''Access-Control-Allow-Methods'' ''POST, GET, OPTIONS, PUT, DELETE''
              (Header_Set ''Access-Control-Allow-Origin'' origin w)))"

definition wrapHandler :: "env \<Rightarrow> 'e HandlerFunc \<Rightarrow> Response \<Rightarrow> Request \<Rightarrow> 'e Server \<Rightarrow> (Response \<times> 'e Server) option" where
  "wrapHandler ev fn w r s =
     (let w = enableCORS r (Header_Set ''Content-Type'' ''application/json'' w) in
      if r_Method r = ''OPTIONS'' then Some (w, s)
      else
        (case fn w r s of
           None \<Rightarrow> None
         | Some (None, w, s) \<Rightarrow> Some (w, s)
         | Some (Some e, w, s) \<Rightarrow> Some (snd (encode_to (error_tree (ev_sc ev) e) (WriteHeader (e_code e) w)), s)))"

definition keyfunc :: "ServerConfig \<Rightarrow> Keyfunc" where
  "keyfunc cfg t =
     (case t_Method t of
        Some (SigningMethodHMAC n h) \<Rightarrow> Inr (KeyBytes (bytes_of_string (sv_Secret cfg)))
      | _ \<Rightarrow> Inl ''unexpected signing method'')"

definition wrapAuthenticatedHandler :: "env \<Rightarrow> 'e AuthenticatedHandlerFunc \<Rightarrow> 'e HandlerFunc" where
  "wrapAuthenticatedHandler ev fn w r s =
     (case ParseFromRequest (ev_sc ev) (ev_crypto ev) (ev_now ev) (Some (keyfunc (s_cfg s))) r of
        ((_, Some e), r) \<Rightarrow> Some (Some (authError (JwtErr e)), w, s)
      | ((None, None), r) \<Rightarrow> None
      | ((Some t, None), r) \<Rightarrow>
          if \<not> t_Valid t then Some (Some (authError (ErrorString ''invalid token'')), w, s) else fn w r (t_Claims t) s)"

text \<open>
  The routes of \<open>New\<close>. Every other path goes to the file server, a parameter; the redirects of
  \<open>http.ServeMux\<close> for unclean paths belong to it.
\<close>

definition ServeHTTP :: "env \<Rightarrow> 'e Engine \<Rightarrow> (Request \<Rightarrow> Response \<Rightarrow> Response) \<Rightarrow> Response \<Rightarrow> Request \<Rightarrow> 'e Server \<Rightarrow> (Response \<times> 'e Server) option" where
  "ServeHTTP ev eng files w r s =
     (if r_Path r = ''/info'' then wrapHandler ev (infoHandler ev) w r s
      else if r_Path r = ''/register'' then wrapHandler ev (registrationHandler ev eng) w r s
      else if r_Path r = ''/authenticate'' then wrapHandler ev (authenticationHandler ev eng) w r s
      else if r_Path r = ''/exec'' then wrapHandler ev (wrapAuthenticatedHandler ev (execHandler ev eng)) w r s
      else if r_Path r = ''/query'' then wrapHandler ev (wrapAuthenticatedHandler ev (queryHandler ev eng)) w r s
      else Some (files r w, s))"

definition new_server :: "ServerConfig \<Rightarrow> 'e Server" where
  "new_server cfg = \<lparr>s_cfg = cfg, s_info = None, s_qs = None, s_ms = None, s_file = [], s_http = False, s_stopping = False\<rparr>"

section \<open>Error responses\<close>

lemma error_tree_plain: "error_tree sc (new_error e c msg) = Some (TObj [(''error'', TStr (escape msg))])"
  by (simp add: error_tree_def new_error_def opt_field_def Let_def)

lemma error_codes [simp]: "e_code (authError e) = 401" "e_code (internalError e) = 500" "e_code tempError = 503"
  by (simp_all add: authError_def internalError_def tempError_def new_error_def)

lemma authError_tree: "error_tree sc (authError e) = Some (TObj [(''error'', TStr (escape ''you are not authorized to perform this request''))])"
  by (simp only: authError_def error_tree_plain)

lemma encode_to_good: "\<not> w_Broken w \<Longrightarrow> encode_to (Some t) w = (None, body_append w (print_tree t @ [CHR 0x0A]))"
  by (simp add: encode_to_def encode_line_def response.wr_good)

lemma encode_to_sent: "w_Sent w = Some p \<Longrightarrow> w_Sent (snd (encode_to t w)) = Some p"
  using w_Sent_Write_body [of w p] by (auto simp: encode_to_def split: sum.splits prod.splits) (metis snd_conv)

definition prepared_response :: "Request \<Rightarrow> Response \<Rightarrow> Response" where
  "prepared_response r w = enableCORS r (Header_Set ''Content-Type'' ''application/json'' w)"

lemma prepared_response_sel [simp]:
  "w_Sent (prepared_response r w) = w_Sent w" "w_Body (prepared_response r w) = w_Body w" "w_Broken (prepared_response r w) = w_Broken w"
  by (simp_all add: prepared_response_def enableCORS_def Let_def)

lemma prepared_response_json: "Get (w_Header (prepared_response r w)) ''Content-Type'' = ''application/json''"
  by (simp add: prepared_response_def enableCORS_def Get_Header_Set Let_def)

lemma wrapHandler_cases:
  assumes "wrapHandler ev fn w r s = Some (w', s')" and "r_Method r \<noteq> ''OPTIONS''"
  obtains (ok) "fn (prepared_response r w) r s = Some (None, w', s')"
    | (error) e w1 where "fn (prepared_response r w) r s = Some (Some e, w1, s')"
        "w' = snd (encode_to (error_tree (ev_sc ev) e) (WriteHeader (e_code e) w1))"
  using assms by (auto simp: wrapHandler_def prepared_response_def Let_def split: option.splits prod.splits)

section \<open>Tokens\<close>

text \<open>The text a request presents as its token, and what it takes for the server to accept it.\<close>

definition request_token :: "Request \<Rightarrow> string" where
  "request_token r =
     (let ah = Get (r_Header r) ''Authorization'' in
      if length ah > 6 \<and> ToUpper (take 7 ah) = ''BEARER '' then drop 7 ah else Get (r_Form r) ''access_token'')"

definition signed_by :: "crypto \<Rightarrow> string \<Rightarrow> string \<Rightarrow> bool" where
  "signed_by cr secret tok \<longleftrightarrow> (\<exists>h c sig hash. Split (CHR ''.'') tok = [h, c, sig] \<and>
     DecodeSegment sig = Some (hmac_sum cr hash (bytes_of_string secret) (bytes_of_string (h @ ''.'' @ c))))"

definition current :: "strconv \<Rightarrow> int \<Rightarrow> Token \<Rightarrow> bool" where
  "current sc now claims \<longleftrightarrow>
     (\<forall>e. time_claim sc claims ''exp'' = Some e \<longrightarrow> now \<le> e) \<and> (\<forall>n. time_claim sc claims ''nbf'' = Some n \<longrightarrow> n \<le> now)"

lemma ParseFromRequest_accepts:
  assumes "ParseFromRequest sc cr now (Some (keyfunc cfg)) r = ((t, None), r')"
  shows "\<exists>tk. t = Some tk \<and> t_Valid tk \<and> signed_by cr (sv_Secret cfg) (request_token r) \<and> current sc now (t_Claims tk)"
proof -
  have p: "jwt_Parse sc cr now (Some (keyfunc cfg)) (request_token r) = (t, None)"
    using assms by (auto simp: ParseFromRequest_def request_token_def ParseMultipartForm_def Let_def split: if_splits prod.splits)
  obtain h c sig m k token where a: "Split (CHR ''.'') (request_token r) = [h, c, sig]" "t_Method token = Some m" "keyfunc cfg token = Inr k"
    "Verify cr m (h @ ''.'' @ c) sig k = None" "ve_valid (check_times sc now (t_Claims token))" "t = Some (token\<lparr>t_Signature := sig, t_Valid := True\<rparr>)"
    using Parse_accepts [OF p] .
  from a(2,3) obtain n hash where m: "m = SigningMethodHMAC n hash" "k = KeyBytes (bytes_of_string (sv_Secret cfg))"
    by (auto simp: keyfunc_def split: SigningMethod.splits)
  from a(4) have "DecodeSegment sig = Some (hmac_sum cr hash (bytes_of_string (sv_Secret cfg)) (bytes_of_string (h @ ''.'' @ c)))"
    by (auto simp: m HMAC_Verify_def split: option.splits if_splits)
  with a check_times_valid show ?thesis by (auto simp: signed_by_def current_def)
qed

definition unauthorized :: "Response \<Rightarrow> Response" where
  "unauthorized w = body_append (WriteHeader 401 w)
     (print_tree (TObj [(''error'', TStr (escape ''you are not authorized to perform this request''))]) @ [CHR 0x0A])"

lemma wrapAuthenticatedHandler_cases:
  assumes "wrapAuthenticatedHandler ev fn w r s = Some (err, w', s')"
  obtains (accepted) t r' where "ParseFromRequest (ev_sc ev) (ev_crypto ev) (ev_now ev) (Some (keyfunc (s_cfg s))) r = ((Some t, None), r')"
      "fn w r' (t_Claims t) s = Some (err, w', s')"
    | (refused) e where "err = Some (authError e)" "w' = w" "s' = s"
  using assms by (auto simp: wrapAuthenticatedHandler_def split: prod.splits option.splits if_splits)

text \<open>
  C2: the routes for mutations and queries are closed to everyone without a token of this server: unless the request
  presents a token whose signature is the HMAC of its first two segments under the server's secret, which has not
  expired, the answer is 401 with the same JSON text for every cause, and neither the database nor the log is touched.
\<close>

theorem protected_routes:
  assumes "r_Path r \<in> {''/exec'', ''/query''}" and "r_Method r \<noteq> ''OPTIONS''"
    and "ServeHTTP ev eng files new_response r s = Some (w, s')"
  shows "signed_by (ev_crypto ev) (sv_Secret (s_cfg s)) (request_token r) \<and>
      (\<exists>t r'. ParseFromRequest (ev_sc ev) (ev_crypto ev) (ev_now ev) (Some (keyfunc (s_cfg s))) r = ((Some t, None), r') \<and>
         current (ev_sc ev) (ev_now ev) (t_Claims t)) \<or>
    s' = s \<and> w = unauthorized (prepared_response r new_response) \<and> status w = 401"
proof -
  obtain fn where fn: "wrapHandler ev (wrapAuthenticatedHandler ev fn) new_response r s = Some (w, s')"
    using assms by (auto simp: ServeHTTP_def)
  then obtain err w1 where h: "wrapAuthenticatedHandler ev fn (prepared_response r new_response) r s = Some (err, w1, s')"
    and w: "w = (case err of None \<Rightarrow> w1 | Some e \<Rightarrow> snd (encode_to (error_tree (ev_sc ev) e) (WriteHeader (e_code e) w1)))"
    using assms(2) by (auto elim!: wrapHandler_cases)
  from h show ?thesis
  proof (cases rule: wrapAuthenticatedHandler_cases)
    case (accepted t r')
    with ParseFromRequest_accepts [OF accepted(1)] show ?thesis by auto
  next
    case (refused e)
    have "w_Sent (prepared_response r new_response) = None" "\<not> w_Broken (prepared_response r new_response)" by (simp_all add: new_response_def)
    with refused w show ?thesis
      by (simp add: authError_tree encode_to_good unauthorized_def WriteHeader_def status_def body_append_def)
  qed
qed

section \<open>Mutations\<close>

text \<open>The answer of \<open>execHandler\<close> to a mutation that was applied and logged.\<close>

definition success_line :: string where
  "success_line = print_tree success_tree @ [CHR 0x0A]"

lemma ms_Write_cases:
  assumes "ms_Write ev m ms s = Some (e, s')"
  shows "s_qs s' = s_qs s \<and> s_cfg s' = s_cfg s \<and> s_info s' = s_info s \<and>
    (e = None \<longrightarrow> (\<exists>line. encode_line (mutation_tree (ev_sc ev) m) = Inr line \<and> s_file s' = s_file s @ line \<and> d_synced (ev_disk ev)))"
  using assms
  by (auto simp: ms_Write_def Log_Write_def writer_turn_def Let_def split: if_splits prod.splits option.splits sum.splits)

lemma userError_LogErr: "userError sc (LogErr e) \<noteq> None"
  by (simp add: userError_def)

lemma exec_outcome:
  assumes "\<not> w_Broken w" and "execHandler ev eng w r t s = Some (err, w', s')"
  shows "w' = w \<and> (err = None \<longrightarrow> s_file s' = s_file s) \<or>
    err = None \<and> w' = body_append w success_line \<and>
    (\<exists>m m' q q' ms. decode_body (decode_mutation (ev_sc ev)) r zero_mutation = (m, None) \<and>
       s_qs s = Some q \<and> en_Mutate eng (m\<lparr>m_Token := t\<rparr>) q = Some (None, m', q') \<and> s_ms s = Some ms \<and>
       ms_Write ev m' ms (s\<lparr>s_qs := Some q'\<rparr>) = Some (None, s'))"
proof -
  obtain m de where d: "decode_body (decode_mutation (ev_sc ev)) r zero_mutation = (m, de)" by fastforce
  show ?thesis
  proof (cases "de = None \<and> s_qs s \<noteq> None")
    case False
    then show ?thesis using assms d by (auto simp: execHandler_def split: option.splits)
  next
    case True
    then obtain q where q: "s_qs s = Some q" by auto
    obtain me m' q' where mu: "en_Mutate eng (m\<lparr>m_Token := t\<rparr>) q = Some (me, m', q')"
      using assms True d q by (auto simp: execHandler_def Let_def split: option.splits)
    show ?thesis
    proof (cases "me = None \<and> s_ms s \<noteq> None")
      case False
      then show ?thesis using assms True d q mu by (auto simp: execHandler_def Let_def split: option.splits)
    next
      case logged: True
      then obtain ms where ms: "s_ms s = Some ms" by auto
      obtain le s1 where wr: "ms_Write ev m' ms (s\<lparr>s_qs := Some q'\<rparr>) = Some (le, s1)"
        using assms True d q mu logged ms by (auto simp: execHandler_def Let_def split: option.splits)
      show ?thesis
      proof (cases le)
        case None
        have "err = None" "w' = body_append w success_line" "s' = s1"
          using assms True d q mu logged ms wr None by (auto simp: execHandler_def Let_def encode_to_good success_line_def)
        with True d q mu logged ms wr None show ?thesis by blast
      next
        case (Some e)
        with assms True d q mu logged ms wr userError_LogErr [of "ev_sc ev" e] show ?thesis
          by (auto simp: execHandler_def Let_def)
      qed
    qed
  qed
qed

text \<open>
  C7: when the handler for mutations writes an answer, that answer is the success text, the mutation of the body has
  been applied by the query engine under the claims of the caller's token and no others, and the mutation as applied
  is a complete line at the end of the log, on the disk. In every other case it writes nothing, and a handler that
  returns no error then has left the log alone.
\<close>

theorem exec_answers_after_logging:
  assumes "\<not> w_Broken w" and "execHandler ev eng w r t s = Some (err, w', s')"
  shows "w' = w \<and> (err = None \<longrightarrow> s_file s' = s_file s) \<or>
    err = None \<and> w' = body_append w success_line \<and>
    (\<exists>m m' q q' line. decode_body (decode_mutation (ev_sc ev)) r zero_mutation = (m, None) \<and>
       s_qs s = Some q \<and> en_Mutate eng (m\<lparr>m_Token := t\<rparr>) q = Some (None, m', q') \<and> s_qs s' = Some q' \<and>
       encode_line (mutation_tree (ev_sc ev) m') = Inr line \<and> s_file s' = s_file s @ line \<and> d_synced (ev_disk ev))"
  using exec_outcome [OF assms] by (auto dest!: ms_Write_cases)

section \<open>Logging in\<close>

lemma wf_map_put: "list_all P m \<Longrightarrow> P (k, v) \<Longrightarrow> list_all P (map_put k v m)"
  by (induction k v m rule: map_put.induct) auto

lemma fold_map_put:
  assumes "sorted_map m"
  shows "fold (\<lambda>(k, v). map_put k v) m [] = m"
  using foldl_map_put_sorted [of "[]" m] assms by (simp add: foldl_conv_fold case_prod_unfold)

lemma token_claims_wf:
  assumes "wf_json (JObj claims)" and "0 \<le> now" "now < 2 ^ 52"
  shows "wf_json (JObj (token_claims claims now))" "map_of (token_claims claims now) ''exp'' = Some (JInt (now + 72 * 3600))"
proof -
  have f: "token_claims claims now = map_put ''exp'' (JInt (now + 72 * 3600)) claims"
    using assms(1) fold_map_put [of claims] by (simp add: token_claims_def)
  have "valid_utf8 ''exp''" by code_simp
  then show "wf_json (JObj (token_claims claims now))"
    using assms unfolding f by (auto intro!: sorted_map_put wf_map_put)
  show "map_of (token_claims claims now) ''exp'' = Some (JInt (now + 72 * 3600))" unfolding f by (simp add: map_of_map_put)
qed

lemma map_of_decoded: "map_of (decoded_claims sc m) k = map_option (decoded sc) (map_of m k)"
  by (induction m) (auto simp: decoded_claims_def)

lemma login_token_current:
  assumes "strconv_ok sc" and "wf_json (JObj claims)" and "0 \<le> now" "now < 2 ^ 52" and "map_of claims ''nbf'' = None"
    and "now' \<le> now + 72 * 3600"
  shows "ve_valid (check_times sc now' (decoded_claims sc (token_claims claims now)))"
proof -
  have "- (2 ^ 53) \<le> now + 72 * 3600 \<and> now + 72 * 3600 \<le> 2 ^ 53" using assms(3,4) by simp
  then obtain x where x: "ParseFloat sc (format_int (now + 72 * 3600)) = Some x" "float_int64 sc x = now + 72 * 3600"
    using assms(1) unfolding strconv_ok_def by blast
  have "time_claim sc (decoded_claims sc (token_claims claims now)) ''exp'' = Some (now + 72 * 3600)"
    using token_claims_wf(2) [OF assms(2-4)] x by (simp add: time_claim_def map_of_decoded)
  moreover have "map_of (token_claims claims now) ''nbf'' = None"
    using assms(2,5) fold_map_put [of claims] by (simp add: token_claims_def map_of_map_put)
  then have "time_claim sc (decoded_claims sc (token_claims claims now)) ''nbf'' = None"
    by (simp add: time_claim_def map_of_decoded)
  ultimately show ?thesis using assms(6) by (simp add: check_times_valid)
qed

definition bearer :: "string \<Rightarrow> Request \<Rightarrow> bool" where
  "bearer tok r \<longleftrightarrow> Get (r_Header r) ''Authorization'' = ''Bearer '' @ tok"

lemma bearer_parsed:
  assumes "bearer tok r" and "jwt_Parse sc cr now kf tok = (t, e)"
  shows "ParseFromRequest sc cr now kf r = ((t, map_option Inr e), r)"
proof -
  have "ToUpper ''Bearer '' = ''BEARER ''" by code_simp
  then have "ToUpper (take 7 (''Bearer '' @ tok)) = ''BEARER ''" by simp
  then show ?thesis
    using assms(2) by (simp add: ParseFromRequest_def Let_def assms(1) [unfolded bearer_def])
qed


section \<open>Queries\<close>

lemma map_of_foldl_put: "map_of (foldl (\<lambda>m (k, v). map_put k v m) m0 kvs) = map_of m0 ++ map_of (rev kvs)"
proof (induction kvs arbitrary: m0)
  case (Cons kv kvs)
  then show ?case by (cases kv) (simp add: map_of_map_put map_add_def fun_eq_iff split: option.split)
qed simp

lemma decode_map_merges:
  assumes "strconv_ok sc" and "wf_json (JObj c)" and "tree_of sc (JObj c) = Some t"
  shows "\<exists>m'. decode_map sc t m0 = (m', DOk) \<and> map_of m' = map_of m0 ++ map_of (decoded_claims sc c)"
proof -
  obtain ms where t: "t = TObj ms" using assms(3) by auto
  let ?kvs = "map (\<lambda>(k, t). (unquote k, json_val sc t)) ms"
  have f: "foldl (\<lambda>m (k, t). map_put (unquote k) (json_val sc t) m) m ms = foldl (\<lambda>m (k, v). map_put k v m) m ?kvs" for m
    by (induction ms arbitrary: m) auto
  have d: "decode_map sc t [] = (decoded_claims sc c, DOk)"
    using decode_map_tree [OF assms] by (simp add: decoded_claims_def)
  then have "map_of (decoded_claims sc c) = map_of (rev ?kvs)"
    using map_of_foldl_put [of "[]" ?kvs] by (simp add: t f)
  with d map_of_foldl_put [of m0 ?kvs] show ?thesis by (simp add: t f)
qed

definition query_body :: "string \<Rightarrow> jtree \<Rightarrow> jtree" where
  "query_body text tc = TObj [(''query'', TStr (escape text)), (''token'', tc)]"

text \<open>
  C34: the claims a query runs under are not those of the validated token: a member \<open>token\<close> of the request body is
  merged into them, so the caller chooses the value of every claim it names there, and only the others are those of
  the token that was checked.
\<close>

theorem query_body_overrides_claims:
  assumes "strconv_ok (ev_sc ev)" and "wf_json (JObj c)" "tree_of (ev_sc ev) (JObj c) = Some tc" and "valid_utf8 text"
    and "r_Body r = Some (print_tree (query_body text tc))" and "s_qs s = Some e"
  shows "\<exists>claims. (\<forall>k. map_of claims k = (case map_of c k of Some v \<Rightarrow> Some (decoded (ev_sc ev) v) | None \<Rightarrow> map_of t k)) \<and>
    queryHandler ev eng w r t s =
      (case en_Query eng (Some \<lparr>q_Token = claims, q_Query = text, q_Args = []\<rparr>) e w of
         None \<Rightarrow> None
       | Some (err, w, e) \<Rightarrow> Some (case err of None \<Rightarrow> None | Some x \<Rightarrow> userError (ev_sc ev) x, w, s\<lparr>s_qs := Some e\<rparr>))"
proof -
  obtain claims where cl: "decode_map (ev_sc ev) tc t = (claims, DOk)" "map_of claims = map_of t ++ map_of (decoded_claims (ev_sc ev) c)"
    using decode_map_merges [OF assms(1-3)] by blast
  have "wf_tree tc" using wf_json_reads_back [OF assms(1,2)] assms(3) unfolding reads_back_def by blast
  then have wf: "wf_tree (query_body text tc)"
    using mutation_keys_ok(3) raw_ok_plain [of "''query''"] by (simp add: query_body_def key_char_def)
  have f: "find_field (query_fields (ev_sc ev)) (unquote ''query'') = Some (\<lambda>t q. case decode_string t (q_Query q) of (v, st) \<Rightarrow> (q\<lparr>q_Query := v\<rparr>, st))"
    "find_field (query_fields (ev_sc ev)) (unquote ''token'') = Some (\<lambda>t q. case decode_map (ev_sc ev) t (q_Token q) of (v, st) \<Rightarrow> (q\<lparr>q_Token := v\<rparr>, st))"
    by (simp_all add: unquote_lower find_field_def query_fields_def)
  have "decode_query (ev_sc ev) (query_body text tc) (zero_query\<lparr>q_Token := t\<rparr>) = (\<lparr>q_Token = claims, q_Query = text, q_Args = []\<rparr>, DOk)"
    using cl(1) assms(4) by (simp add: decode_query_def decode_struct_def query_body_def f zero_query_def unquote_escape)
  then have "decode_body (decode_query_ptr (ev_sc ev)) r (Some (zero_query\<lparr>q_Token := t\<rparr>)) =
      (Some \<lparr>q_Token = claims, q_Query = text, q_Args = []\<rparr>, None)"
    using decode_next_print_end [OF wf] assms(5) by (simp add: decode_body_def decode_with_def decode_query_ptr_def) (simp add: query_body_def)
  with assms(6) have "queryHandler ev eng w r t s =
      (case en_Query eng (Some \<lparr>q_Token = claims, q_Query = text, q_Args = []\<rparr>) e w of
         None \<Rightarrow> None
       | Some (err, w, e) \<Rightarrow> Some (case err of None \<Rightarrow> None | Some x \<Rightarrow> userError (ev_sc ev) x, w, s\<lparr>s_qs := Some e\<rparr>))"
    by (auto simp: queryHandler_def split: option.split)
  moreover have "map_of claims k = (case map_of c k of Some v \<Rightarrow> Some (decoded (ev_sc ev) v) | None \<Rightarrow> map_of t k)" for k
    by (simp add: cl(2) map_of_decoded map_add_def split: option.split)
  ultimately show ?thesis by blast
qed

section \<open>From the request to the log\<close>

text \<open>The handler for mutations on PostgreSQL.\<close>

lemma exec_applied:
  assumes body: "decode_body (decode_mutation (ev_sc ev)) r zero_mutation = (m, None)" "m_Name m \<noteq> []" and w: "\<not> w_Broken w"
    and eng: "s_qs s = Some p" "p_info p = Some i" "exec_idle p (prepared_bytes [JsonOid] name st0 @ srv_bytes ms @ ready_bytes st @ rest)"
    and ans: "CHR 0x00 \<notin> set name" "length name < 2 ^ 30" "list_all (\<lambda>m. msg_ok m \<and> \<not> fatal_msg m) ms"
    and line: "encode_line (mutation_tree (ev_sc ev) (m\<lparr>m_Token := t, m_Version := i_Version i\<rparr>)) = Inr line"
    and log: "s_ms s = Some (l, True)" "\<not> l_closed l" "ev_disk ev = good_disk"
  shows "\<exists>p'. exec_idle p' rest \<and> execHandler ev (postgres_engine (ev_sc ev)) w r t s =
    (case snd (exec_spec [] None ms) of
       None \<Rightarrow> Some (None, body_append w success_line,
         s\<lparr>s_qs := Some p', s_ms := Some (l\<lparr>l_count := l_count l + 1\<rparr>, True), s_file := s_file s @ line\<rparr>)
     | Some e \<Rightarrow> Some (userError (ev_sc ev) (go_of_pgx e), w, s\<lparr>s_qs := Some p'\<rparr>))"
proof -
  let ?m = "m\<lparr>m_Token := t\<rparr>" let ?m' = "?m\<lparr>m_Version := i_Version i\<rparr>"
  have name: "m_Name ?m \<noteq> []" using body(2) by simp
  have line': "encode_line (mutation_tree (ev_sc ev) ?m') = Inr line" using line by simp
  then obtain b where b: "marshal_tree (mutation_tree (ev_sc ev) ?m') = Inr b"
    by (auto simp: encode_line_def marshal_tree_def split: option.splits)
  obtain c' where c': "Mutate (ev_sc ev) ?m p = Some (map_option go_of_pgx (snd (exec_spec [] None ms)), ?m', p\<lparr>p_execConn := Some c'\<rparr>)" "conn_idle c' rest"
    using Mutate_answered [OF eng(3) ans name eng(2) b] by blast
  have wr: "ms_Write ev ?m' (l, True) (s\<lparr>s_qs := Some q\<rparr>) =
      Some (None, s\<lparr>s_qs := Some q, s_ms := Some (l\<lparr>l_count := l_count l + 1\<rparr>, True), s_file := s_file s @ line\<rparr>)" for q
    using log(2,3) line' by (simp add: ms_Write_def Log_Write_def writer_turn_def good_disk_def Let_def)
  have "exec_idle (p\<lparr>p_execConn := Some c'\<rparr>) rest" using c'(2) by (simp add: exec_idle_def)
  moreover have "en_Mutate (postgres_engine (ev_sc ev)) = Mutate (ev_sc ev)" by (simp add: postgres_engine_def)
  ultimately show ?thesis
    using body(1) eng(1) c'(1) wr log(1) encode_to_good [OF w, of success_tree]
    by (intro exI [of _ "p\<lparr>p_execConn := Some c'\<rparr>"]) (simp add: execHandler_def success_line_def split: option.split)
qed


section \<open>A server for concrete requests\<close>

definition demo_env :: env where
  "demo_env = \<lparr>ev_sc = int_strconv, ev_crypto = demo_crypto, ev_now = 40, ev_disk = good_disk\<rparr>"

definition demo_server :: "postgres \<Rightarrow> postgres Server" where
  "demo_server p = \<lparr>s_cfg = \<lparr>sv_ConfigPath = ''./config.js'', sv_Secret = ''k'', sv_DataDir = ''/var/state'', sv_ListenAddr = '':80'',
       sv_GraceDuration = 1, sv_MaxConnections = 1, sv_Debug = False\<rparr>,
     s_info = p_info p, s_qs = Some p, s_ms = Some (\<lparr>l_filename = ''/var/state/datastore'', l_closed = False, l_count = 0\<rparr>, True),
     s_file = [], s_http = True, s_stopping = False\<rparr>"

definition demo_request :: "string \<Rightarrow> (string \<times> string) list \<Rightarrow> string \<Rightarrow> Request" where
  "demo_request path hdr body = \<lparr>r_Method = ''POST'', r_Path = path, r_Header = hdr, r_Body = Some body, r_Form = [], r_FormBody = Some body\<rparr>"

theorem protected_routes_witness:
  "\<exists>w s'. ServeHTTP demo_env (postgres_engine int_strconv) (\<lambda>r w. w) new_response (demo_request ''/exec'' [] ''{}'') (demo_server (demo_engine [] [])) = Some (w, s') \<and>
     s' = demo_server (demo_engine [] []) \<and> status w = 401"
proof -
  let ?r = "demo_request ''/exec'' [] ''{}''" let ?s = "demo_server (demo_engine [] [])"
  have p: "ParseFromRequest int_strconv demo_crypto 40 kf ?r = ((None, Some (Inl ErrNoTokenInRequest)), ?r)" for kf
    by (simp add: ParseFromRequest_def demo_request_def Get_def ParseMultipartForm_def)
  obtain w s' where run: "ServeHTTP demo_env (postgres_engine int_strconv) (\<lambda>r w. w) new_response ?r ?s = Some (w, s')"
    using p by (simp add: ServeHTTP_def demo_request_def [of "''/exec''"] wrapHandler_def wrapAuthenticatedHandler_def demo_env_def Let_def)
  have "\<not> signed_by demo_crypto x (request_token ?r)" for x
    by (simp add: signed_by_def request_token_def demo_request_def Get_def)
  with protected_routes [OF _ _ run] run show ?thesis by (auto simp: demo_request_def demo_env_def)
qed

definition demo_claims :: Token where
  "demo_claims = [(''exp'', JInt 50)]"

lemma demo_token: "\<exists>tok. SignedString int_strconv demo_crypto ((jwt_New SigningMethodHS256)\<lparr>t_Claims := demo_claims\<rparr>) (KeyBytes (bytes_of_string ''k'')) = Inr tok"
  by (simp add: SignedString_def SigningString_def jwt_New_def SigningMethodHS256_def HMAC_Sign_def demo_crypto_def Marshal_def demo_claims_def)

lemma demo_token_accepted:
  assumes "SignedString int_strconv demo_crypto ((jwt_New SigningMethodHS256)\<lparr>t_Claims := demo_claims\<rparr>) (KeyBytes (bytes_of_string ''k'')) = Inr tok"
    and "bearer tok r"
  shows "\<exists>t. ParseFromRequest int_strconv demo_crypto 40 (Some (keyfunc (s_cfg (demo_server p)))) r = ((Some t, None), r) \<and>
    t_Claims t = [(''exp'', JNum 50)]"
proof -
  let ?kf = "keyfunc (s_cfg (demo_server p))"
  have kf: "?kf (signed_token int_strconv SigningMethodHS256 demo_claims tok) = Inr (KeyBytes (bytes_of_string ''k''))"
    by (simp add: keyfunc_def signed_token_def SigningMethodHS256_def demo_server_def)
  have cl: "decoded_claims int_strconv demo_claims = [(''exp'', JNum 50)]"
    using Atoi_format_int [of 50] by (simp add: decoded_claims_def demo_claims_def int_strconv_def)
  have "ve_valid (check_times int_strconv 40 [(''exp'', JNum 50)])"
    by (simp add: check_times_valid time_claim_def int_strconv_def)
  with Parse_signed_HS256 [OF int_strconv_ok demo_claims_wf [folded demo_claims_def] assms(1), where kf = ?kf and now = 40, OF kf]
  obtain t where "jwt_Parse int_strconv demo_crypto 40 (Some ?kf) tok = (Some t, None)" "t_Claims t = [(''exp'', JNum 50)]"
    unfolding cl by (auto simp: Let_def signed_token_def cl)
  with bearer_parsed [OF assms(2) this(1)] show ?thesis by auto
qed

definition exec_answer :: bytes where
  "exec_answer = prepared_bytes [JsonOid] ''arla_exec'' 73 @ srv_bytes [SBindComplete, SCommandComplete ''SELECT 1''] @ ready_bytes 73"


theorem exec_answers_after_logging_witness:
  "\<exists>body err w' s'. execHandler demo_env (postgres_engine int_strconv) new_response (demo_request ''/exec'' [] body) demo_claims
      (demo_server (demo_engine exec_answer [])) = Some (err, w', s') \<and> w' = body_append new_response success_line \<and> s_file s' \<noteq> []"
proof -
  obtain body where body: "encode_line (mutation_tree int_strconv sample_mutation) = Inr body" using sample_line ..
  let ?r = "demo_request ''/exec'' [] body" let ?p = "demo_engine exec_answer []" let ?s = "demo_server ?p"
  let ?m = "decoded_mutation int_strconv sample_mutation" let ?l = "\<lparr>l_filename = ''/var/state/datastore'', l_closed = False, l_count = 0\<rparr>"
  let ?ms = "[SBindComplete, SCommandComplete ''SELECT 1'']"
  have good: "\<not> w_Broken new_response" by (simp add: new_response_def)
  have dec: "decode_body (decode_mutation int_strconv) ?r zero_mutation = (?m, None)"
    using decode_encode_mutation [OF int_strconv_ok sample_mutation_wf body, of "[]"] by (simp add: decode_body_def demo_request_def)
  obtain line where line: "encode_line (mutation_tree int_strconv (?m\<lparr>m_Token := demo_claims, m_Version := 7\<rparr>)) = Inr line"
    by (simp add: encode_line_def mutation_tree_def sample_mutation_def decoded_mutation_def int_strconv_def demo_claims_def)
  have idle: "exec_idle ?p (prepared_bytes [JsonOid] ''arla_exec'' 73 @ srv_bytes ?ms @ ready_bytes 73 @ [])"
    using demo_engine_idle(2) by (simp add: exec_answer_def)
  have "\<exists>p'. exec_idle p' [] \<and> execHandler demo_env (postgres_engine (ev_sc demo_env)) new_response ?r demo_claims ?s =
    (case snd (exec_spec [] None ?ms) of
       None \<Rightarrow> Some (None, body_append new_response success_line,
         ?s\<lparr>s_qs := Some p', s_ms := Some (?l\<lparr>l_count := l_count ?l + 1\<rparr>, True), s_file := s_file ?s @ line\<rparr>)
     | Some e \<Rightarrow> Some (userError (ev_sc demo_env) (go_of_pgx e), new_response, ?s\<lparr>s_qs := Some p'\<rparr>))"
    by (rule exec_applied [where m = ?m and p = ?p and i = "zero_info\<lparr>i_Version := 7\<rparr>" and l = ?l, OF _ _ good _ demo_engine_idle(3) idle])
      (use dec line in \<open>simp_all add: demo_env_def demo_server_def decoded_mutation_def sample_mutation_def msg_ok.simps\<close>)
  then obtain err w' s' where run: "execHandler demo_env (postgres_engine int_strconv) new_response ?r demo_claims ?s = Some (err, w', s')"
    and w': "w' = body_append new_response success_line" by (auto simp: demo_env_def)
  have "body_append new_response success_line \<noteq> new_response" by (simp add: body_append_def new_response_def WriteHeader_def success_line_def)
  with exec_answers_after_logging [OF good run] w' obtain m' line where "encode_line (mutation_tree int_strconv m') = Inr line" "s_file s' = s_file ?s @ line"
    by (auto simp: demo_env_def)
  then have "s_file s' \<noteq> []" by (auto simp: encode_line_def split: option.splits)
  with run w' show ?thesis by blast
qed

lemma demo_server_secret: "sv_Secret (s_cfg (demo_server p)) = ''k''"
  by (simp add: demo_server_def)

definition user_claims :: Token where
  "user_claims = [(''id'', JStr ''u1'')]"

lemma user_claims_wf: "wf_json (JObj user_claims)"
proof -
  have "valid_utf8 ''id''" "valid_utf8 ''u1''" by code_simp+
  then show ?thesis by (simp add: sorted_map_def user_claims_def)
qed

definition auth_answer :: bytes where
  "auth_answer = row_answer ''arla_authenticate'' 73 [SBindComplete] ''{\"id\":\"u1\"}'' [SCommandComplete ''SELECT 1'']"

lemma demo_Authenticate: "\<exists>p'. Authenticate int_strconv ''{}'' (demo_engine [] auth_answer) = Some (Inr user_claims, p')"
proof -
  have u: "unmarshal_with (decode_map int_strconv) ''{\"id\":\"u1\"}'' [] = (user_claims, None)" by code_simp
  have ok: "row_answer_ok ''arla_authenticate'' [SBindComplete] ''{\"id\":\"u1\"}'' [SCommandComplete ''SELECT 1'']"
    by (simp add: row_answer_ok_def msg_ok.simps)
  have "engine_idle (demo_engine [] auth_answer) 0 (auth_answer @ [])" using demo_engine_idle(1) by simp
  from Authenticate_value [OF this [unfolded auth_answer_def] ok u] show ?thesis by (auto simp: auth_answer_def)
qed


theorem query_body_overrides_claims_witness:
  "\<exists>claims tc. map_of claims ''id'' = Some (JStr ''u1'') \<and>
     queryHandler demo_env (postgres_engine int_strconv) new_response (demo_request ''/query'' [] (print_tree (query_body ''a'' tc))) [(''id'', JStr ''someone'')]
       (demo_server (demo_engine [] [])) =
     (case pg_Query int_strconv Write_body (Some \<lparr>q_Token = claims, q_Query = ''a'', q_Args = []\<rparr>) (demo_engine [] []) new_response of
        None \<Rightarrow> None
      | Some (err, w, e) \<Rightarrow> Some (case err of None \<Rightarrow> None | Some x \<Rightarrow> userError int_strconv x, w, (demo_server (demo_engine [] []))\<lparr>s_qs := Some e\<rparr>))"
proof -
  obtain tc where tc: "tree_of int_strconv (JObj user_claims) = Some tc" by (simp add: user_claims_def)
  have u: "valid_utf8 ''a''" by code_simp
  have "strconv_ok (ev_sc demo_env)" "tree_of (ev_sc demo_env) (JObj user_claims) = Some tc" using tc by (simp_all add: demo_env_def)
  note ov = query_body_overrides_claims [OF this(1) user_claims_wf this(2) u,
      of "demo_request ''/query'' [] (print_tree (query_body ''a'' tc))" "demo_server (demo_engine [] [])" "demo_engine [] []"
        "[(''id'', JStr ''someone'')]" "postgres_engine int_strconv" new_response]
  obtain claims where c: "\<forall>k. map_of claims k = (case map_of user_claims k of Some v \<Rightarrow> Some (decoded (ev_sc demo_env) v) | None \<Rightarrow> map_of [(''id'', JStr ''someone'')] k)"
    and q: "queryHandler demo_env (postgres_engine int_strconv) new_response (demo_request ''/query'' [] (print_tree (query_body ''a'' tc))) [(''id'', JStr ''someone'')]
       (demo_server (demo_engine [] [])) =
     (case en_Query (postgres_engine int_strconv) (Some \<lparr>q_Token = claims, q_Query = ''a'', q_Args = []\<rparr>) (demo_engine [] []) new_response of
        None \<Rightarrow> None
      | Some (err, w, e) \<Rightarrow> Some (case err of None \<Rightarrow> None | Some x \<Rightarrow> userError (ev_sc demo_env) x, w, (demo_server (demo_engine [] []))\<lparr>s_qs := Some e\<rparr>))"
    using ov by (auto simp: demo_request_def demo_server_def)
  have "map_of claims ''id'' = Some (JStr ''u1'')" using c by (simp add: user_claims_def)
  moreover have eqs: "en_Query (postgres_engine int_strconv) = pg_Query int_strconv Write_body" "ev_sc demo_env = int_strconv"
    by (simp_all add: postgres_engine_def demo_env_def)
  ultimately show ?thesis using q [unfolded eqs] by blast
qed

end
