(* ===== verification/Server_Lifecycle.thy ===== *)
theory Server_Lifecycle
  imports Engine_Startup Server
begin

text \<open>
  Starting and stopping the server: \<open>main.go\<close> from \<open>startQueryEngine\<close> to \<open>replayLog\<close> and from
  \<open>startHTTP\<close> to \<open>Stop\<close>. The goroutines that wait for the database process and for the HTTP listener
  only clear the server's pointers when those end; they are the functions \<open>engine_exited\<close> and
  \<open>http_exited\<close>, which may run between any two operations. The HTTP listener itself is not modelled.
\<close>

section \<open>Starting\<close>

definition startQueryEngine ::
  "strconv \<Rightarrow> 'os os_api \<Rightarrow> string \<Rightarrow> postgres Server \<Rightarrow> 'os \<Rightarrow> (go_error option \<times> postgres Server \<times> 'os) option" where
  "startQueryEngine sc api script s os =
     (if s_qs s \<noteq> None then Some (None, s, os)
      else
        let qscfg = \<lparr>cfg_Path = sv_ConfigPath (s_cfg s), cfg_LogLevel = DEBUG, cfg_MaxConnections = sv_MaxConnections (s_cfg s)\<rparr>;
            qscfg = (if sv_Debug (s_cfg s) then qscfg\<lparr>cfg_LogLevel := DEBUG\<rparr> else qscfg) in
        case engine_New sc api script qscfg os of
          None \<Rightarrow> None
        | Some (p, Some e, os) \<Rightarrow> Some (Some (ErrorString ''failed to start query engine''), s\<lparr>s_qs := Some p\<rparr>, os)
        | Some (p, None, os) \<Rightarrow>
            (let s = s\<lparr>s_qs := Some p\<rparr> in
             case pg_Info p of
               Inl e \<Rightarrow> Some (Some e, s, os)
             | Inr None \<Rightarrow> None
             | Inr (Some i) \<Rightarrow> Some (None, s\<lparr>s_info := Some i\<rparr>, os)))"

definition engine_exited :: "'e Server \<Rightarrow> 'e Server" where
  "engine_exited s = s\<lparr>s_qs := None\<rparr>"

definition http_exited :: "'e Server \<Rightarrow> 'e Server" where
  "http_exited s = s\<lparr>s_http := False\<rparr>"

text \<open>\<open>can_open\<close>: whether the system lets the file be opened. A log that could not be opened is kept nevertheless.\<close>

definition startLog :: "bool \<Rightarrow> 'e Server \<Rightarrow> go_error option \<times> 'e Server" where
  "startLog can_open s =
     (if s_ms s \<noteq> None then (None, s)
      else
        let filename = filepath_Join [sv_DataDir (s_cfg s), ''datastore''] in
        case Log_Open can_open filename [filename \<mapsto> s_file s] of
          ((l, ok, go), fs) \<Rightarrow>
            (if ok then None else Some (ErrorString ''failed to start mutationstore''),
             s\<lparr>s_ms := Some (l, go), s_file := the (fs filename)\<rparr>))"

text \<open>The deferred close of the writer runs on every path once the writer exists; its error counts when there is no other.\<close>

definition replayLog :: "'os os_api \<Rightarrow> postgres Server \<Rightarrow> 'os \<Rightarrow> (go_error option \<times> postgres Server \<times> 'os) option" where
  "replayLog api s os =
     (case s_qs s of
        None \<Rightarrow> None
      | Some p \<Rightarrow>
          (let oldLogLevel = GetLogLevel p; p = SetLogLevel ERROR p in
           case NewWriter api os of
             (Inl e, os) \<Rightarrow> Some (Some (ErrorString ''failed to create mutation writer''), s\<lparr>s_qs := Some p\<rparr>, os)
           | (Inr w, os) \<Rightarrow>
               (case s_ms s of
                  None \<Rightarrow> None
                | Some (l, go) \<Rightarrow>
                    (case Log_WriteTo (pgWriter_Write api os) (Some (s_file s)) w l of
                       ((n, err), w, l) \<Rightarrow>
                         (let p = (if err = None then SetLogLevel oldLogLevel p else p);
                              s = s\<lparr>s_qs := Some p, s_ms := Some (l, go)\<rparr> in
                          case pgWriter_Close api w os of
                            (e, os) \<Rightarrow>
                              Some (if err = None then e else Some (ErrorString ''error streaming mutations to querystore''), s, os))))))"

definition startHTTP :: "'e Server \<Rightarrow> go_error option \<times> 'e Server" where
  "startHTTP s = (None, if s_http s then s else s\<lparr>s_http := True\<rparr>)"

text \<open>\<open>Wait\<close> returns once the goroutines are done; they clear the pointers. \<open>Close\<close> of the log never fails.\<close>

definition server_Wait :: "'e Server \<Rightarrow> go_error option \<times> 'e Server" where
  "server_Wait s = (None, http_exited (engine_exited s))"

definition server_Stop :: "'os os_api \<Rightarrow> postgres Server \<Rightarrow> 'os \<Rightarrow> go_error option \<times> postgres Server \<times> 'os" where
  "server_Stop api s os =
     (if s_stopping s then (None, s, os)
      else
        let s = s\<lparr>s_http := False\<rparr>;
            stop = (case s_qs s of None \<Rightarrow> (None, os) | Some p \<Rightarrow> pg_Stop api p os);
            errs = (case fst stop of None \<Rightarrow> [] | Some e \<Rightarrow> [e]);
            s = s\<lparr>s_qs := None, s_ms := None\<rparr>;
            s = snd (server_Wait s)
        in (if errs \<noteq> [] then Some (ErrorString ''failed to shutdown cleanly'') else None, s\<lparr>s_stopping := False\<rparr>, snd stop))"

definition server_Start ::
  "strconv \<Rightarrow> 'os os_api \<Rightarrow> string \<Rightarrow> bool \<Rightarrow> postgres Server \<Rightarrow> 'os \<Rightarrow> (go_error option \<times> postgres Server \<times> 'os) option" where
  "server_Start sc api script can_open s os =
     (let abort = (\<lambda>e s os. case server_Stop api s os of (_, s, os) \<Rightarrow> Some (Some e, s, os)) in
      case startQueryEngine sc api script s os of
        None \<Rightarrow> None
      | Some (Some e, s, os) \<Rightarrow> abort e s os
      | Some (None, s, os) \<Rightarrow>
          (case startLog can_open s of
             (Some e, s) \<Rightarrow> abort e s os
           | (None, s) \<Rightarrow>
               (case replayLog api s os of
                  None \<Rightarrow> None
                | Some (Some e, s, os) \<Rightarrow> abort e s os
                | Some (None, s, os) \<Rightarrow>
                    (case startHTTP s of
                       (Some e, s) \<Rightarrow> abort e s os
                     | (None, s) \<Rightarrow> Some (None, s, os)))))"

definition server_Run ::
  "strconv \<Rightarrow> 'os os_api \<Rightarrow> string \<Rightarrow> bool \<Rightarrow> postgres Server \<Rightarrow> 'os \<Rightarrow> (go_error option \<times> postgres Server \<times> 'os) option" where
  "server_Run sc api script can_open s os =
     (case server_Start sc api script can_open s os of
        None \<Rightarrow> None
      | Some (Some e, s, os) \<Rightarrow> Some (Some e, s, os)
      | Some (None, s, os) \<Rightarrow> (case server_Wait s of (e, s) \<Rightarrow> Some (e, s, os)))"

section \<open>Replaying the log\<close>

definition replay_input :: "string \<Rightarrow> string" where
  "replay_input file = concat (map replay_statement (filter (\<lambda>l. l \<noteq> []) (fst (Scan file))))"

lemma pgWriter_write_all:
  "write_all (pgWriter_Write api os) bs w n = (True, w', n') \<Longrightarrow> w' = w\<lparr>pw_input := pw_input w @ concat bs\<rparr>"
proof (induction bs arbitrary: w n)
  case (Cons b bs)
  show ?case
  proof (cases "os_PipeBroken api (pw_cmd w) (pw_input w) os")
    case False
    then have "pgWriter_Write api os w b = ((length b, False), w\<lparr>pw_input := pw_input w @ b\<rparr>)" by (simp add: pgWriter_Write_def)
    with Cons.prems have "write_all (pgWriter_Write api os) bs (w\<lparr>pw_input := pw_input w @ b\<rparr>) (n + int (length b)) = (True, w', n')"
      by simp
    from Cons.IH [OF this] show ?thesis by simp
  qed (use Cons.prems in \<open>simp add: pgWriter_Write_def\<close>)
qed simp

lemma pgWriter_WriteTo_loop:
  "WriteTo_loop (pgWriter_Write api os) ls w n l = (True, w', n', l') \<Longrightarrow>
   w' = w\<lparr>pw_input := pw_input w @ concat (map replay_statement (filter (\<lambda>l. l \<noteq> []) ls))\<rparr>"
proof (induction ls arbitrary: w n l)
  case (Cons b bs)
  show ?case
  proof (cases "b = []")
    case False
    with Cons.prems obtain w1 n1 where w1: "write_all (pgWriter_Write api os) [replay_prefix, b, replay_suffix] w n = (True, w1, n1)"
      "WriteTo_loop (pgWriter_Write api os) bs w1 n1 (l\<lparr>l_count := l_count l + 1\<rparr>) = (True, w', n', l')"
      by (auto simp del: write_all.simps split: prod.splits bool.splits)
    from Cons.IH [OF w1(2)] pgWriter_write_all [OF w1(1)] False show ?thesis by (simp add: replay_statement_def)
  qed (use Cons in simp)
qed simp

lemma replayLog_ok:
  assumes "replayLog api s os = Some (None, s', os')"
  shows "\<exists>w os1 p l go l'. NewWriter api os = (Inr w, os1) \<and> s_qs s = Some p \<and> s_ms s = Some (l, go) \<and>
    os_Wait api ((pw_cmd w)\<lparr>cm_Stdin := Some (pw_input w @ replay_input (s_file s))\<rparr>) os1 = (None, os') \<and>
    s' = s\<lparr>s_qs := Some p, s_ms := Some (l', go)\<rparr> \<and> snd (Scan (s_file s))"
proof -
  obtain p w os1 where p: "s_qs s = Some p" and w: "NewWriter api os = (Inr w, os1)"
    using assms by (auto simp: replayLog_def Let_def split: option.splits prod.splits sum.splits)
  obtain l go where ms: "s_ms s = Some (l, go)"
    using assms p w by (auto simp: replayLog_def Let_def split: option.splits)
  obtain n err w' l' where wt: "Log_WriteTo (pgWriter_Write api os1) (Some (s_file s)) w l = ((n, err), w', l')"
    by (metis surj_pair)
  have err: "err = None" using assms p w ms wt by (auto simp: replayLog_def Let_def split: prod.splits if_splits)
  then have "WriteTo_loop (pgWriter_Write api os1) (fst (Scan (s_file s))) w 0 l = (True, w', n, l')" "snd (Scan (s_file s))"
    using wt by (auto simp: Log_WriteTo_def split: prod.splits bool.splits if_splits)
  with pgWriter_WriteTo_loop have w': "w' = w\<lparr>pw_input := pw_input w @ replay_input (s_file s)\<rparr>" and sc: "snd (Scan (s_file s))"
    by (auto simp: replay_input_def)
  have lv: "SetLogLevel (GetLogLevel p) (SetLogLevel ERROR p) = p" by (simp add: SetLogLevel_def GetLogLevel_def)
  have "pgWriter_Close api w' os1 = (None, os')" "s' = s\<lparr>s_qs := Some p, s_ms := Some (l', go)\<rparr>"
    using assms p w ms wt err lv by (auto simp: replayLog_def Let_def split: prod.splits)
  with p w ms w' sc show ?thesis by (auto simp: pgWriter_Close_def)
qed

lemma server_Stop_releases:
  "\<not> s_stopping s \<Longrightarrow> server_Stop api s os = (e, s', os') \<Longrightarrow> s_qs s' = None \<and> s_ms s' = None \<and> \<not> s_http s' \<and> s_file s' = s_file s"
  by (auto simp: server_Stop_def server_Wait_def http_exited_def engine_exited_def Let_def)

lemma NewWriter_fresh: "NewWriter api os = (Inr w, os') \<Longrightarrow> pw_input w = []"
  by (auto simp: NewWriter_def newPgWriter_def split: prod.splits sum.splits option.splits)

lemma startQueryEngine_keeps:
  "startQueryEngine sc api script s os = Some (e, s', os') \<Longrightarrow> s_ms s' = s_ms s \<and> s_file s' = s_file s \<and> s_stopping s' = s_stopping s \<and> s_cfg s' = s_cfg s"
  by (auto simp: startQueryEngine_def Let_def split: if_splits option.splits prod.splits sum.splits)

lemma startLog_keeps: "startLog can_open s = (e, s') \<Longrightarrow> s_qs s' = s_qs s \<and> s_file s' = s_file s \<and> s_stopping s' = s_stopping s \<and> s_info s' = s_info s"
  by (auto simp: startLog_def Log_Open_def Let_def split: if_splits)

lemma replayLog_keeps:
  "replayLog api s os = Some (e, s', os') \<Longrightarrow> s_file s' = s_file s \<and> s_stopping s' = s_stopping s \<and> s_info s' = s_info s"
  by (auto simp: replayLog_def Let_def split: option.splits prod.splits sum.splits if_splits)



end
