(* ===== verification/Exec_Interleaving.thy ===== *)
theory Exec_Interleaving
  imports Server "HOL-Library.Multiset"
begin

text \<open>
  Many requests for mutations at once. Every request is served by its own goroutine, so the parts of
  \<open>execHandler\<close> interleave: the call of \<open>Mutate\<close> is atomic because the engine holds a mutex, and so is
  the turn of the log's writer, but another request may come in between. The steps are the two calls of the handler,
  with the functions of the models, and what the rest of the server does to the shared fields meanwhile: the database
  exits, or \<open>Stop\<close> drops the engine, closes the log and drops it. What was applied and what was logged is recorded in order.
\<close>

section \<open>Steps\<close>

datatype phase =
    Waiting Request Token
  | Applied (in_hand: Mutation)
  | Succeeded Mutation
  | Refused "Error option"

record 'e exec_sys =
  x_server :: "'e Server"
  x_phase :: "nat \<Rightarrow> phase"
  x_applied :: "Mutation list"
  x_logged :: "Mutation list"
  x_lost :: "Mutation list"

inductive exec_step :: "strconv \<Rightarrow> 'e Engine \<Rightarrow> 'e exec_sys \<Rightarrow> 'e exec_sys \<Rightarrow> bool" for sc eng where
  undecodable: "x_phase y k = Waiting r t \<Longrightarrow> decode_body (decode_mutation sc) r zero_mutation = (m, Some e) \<Longrightarrow>
    exec_step sc eng y (y\<lparr>x_phase := (x_phase y)(k := Refused (userError sc e))\<rparr>)"
| engine_gone: "x_phase y k = Waiting r t \<Longrightarrow> decode_body (decode_mutation sc) r zero_mutation = (m, None) \<Longrightarrow> s_qs (x_server y) = None \<Longrightarrow>
    exec_step sc eng y (y\<lparr>x_phase := (x_phase y)(k := Refused (Some tempError))\<rparr>)"
| mutates: "x_phase y k = Waiting r t \<Longrightarrow> decode_body (decode_mutation sc) r zero_mutation = (m, None) \<Longrightarrow>
    s_qs (x_server y) = Some q \<Longrightarrow> en_Mutate eng (m\<lparr>m_Token := t\<rparr>) q = Some (None, m', q') \<Longrightarrow>
    exec_step sc eng y (y\<lparr>x_server := (x_server y)\<lparr>s_qs := Some q'\<rparr>, x_phase := (x_phase y)(k := Applied m'), x_applied := x_applied y @ [m']\<rparr>)"
| rejects: "x_phase y k = Waiting r t \<Longrightarrow> decode_body (decode_mutation sc) r zero_mutation = (m, None) \<Longrightarrow>
    s_qs (x_server y) = Some q \<Longrightarrow> en_Mutate eng (m\<lparr>m_Token := t\<rparr>) q = Some (Some e, m', q') \<Longrightarrow>
    exec_step sc eng y (y\<lparr>x_server := (x_server y)\<lparr>s_qs := Some q'\<rparr>, x_phase := (x_phase y)(k := Refused (userError sc e))\<rparr>)"
| log_gone: "x_phase y k = Applied m \<Longrightarrow> s_ms (x_server y) = None \<Longrightarrow>
    exec_step sc eng y (y\<lparr>x_phase := (x_phase y)(k := Refused (Some tempError)), x_lost := x_lost y @ [m]\<rparr>)"
| logs: "x_phase y k = Applied m \<Longrightarrow> s_ms (x_server y) = Some ms \<Longrightarrow> ev_sc ev = sc \<Longrightarrow>
    ms_Write ev m ms (x_server y) = Some (None, s') \<Longrightarrow>
    exec_step sc eng y (y\<lparr>x_server := s', x_phase := (x_phase y)(k := Succeeded m), x_logged := x_logged y @ [m]\<rparr>)"
| log_fails: "x_phase y k = Applied m \<Longrightarrow> s_ms (x_server y) = Some ms \<Longrightarrow> ev_sc ev = sc \<Longrightarrow>
    ms_Write ev m ms (x_server y) = Some (Some e, s') \<Longrightarrow>
    exec_step sc eng y (y\<lparr>x_server := s', x_phase := (x_phase y)(k := Refused (userError sc (LogErr e))), x_lost := x_lost y @ [m]\<rparr>)"
| engine_lost: "exec_step sc eng y (y\<lparr>x_server := (x_server y)\<lparr>s_qs := None\<rparr>\<rparr>)"
| closes_log: "s_ms (x_server y) = Some (l, go) \<Longrightarrow>
    exec_step sc eng y (y\<lparr>x_server := (x_server y)\<lparr>s_ms := Some (Log_Close l, go)\<rparr>\<rparr>)"
| drops_log: "exec_step sc eng y (y\<lparr>x_server := (x_server y)\<lparr>s_ms := None\<rparr>\<rparr>)"

definition exec_init :: "'e Server \<Rightarrow> (nat \<Rightarrow> Request \<times> Token) \<Rightarrow> 'e exec_sys" where
  "exec_init s reqs = \<lparr>x_server = s, x_phase = (\<lambda>k. Waiting (fst (reqs k)) (snd (reqs k))), x_applied = [], x_logged = [], x_lost = []\<rparr>"

abbreviation exec_reach :: "strconv \<Rightarrow> 'e Engine \<Rightarrow> 'e exec_sys \<Rightarrow> 'e exec_sys \<Rightarrow> bool" where
  "exec_reach sc eng \<equiv> (exec_step sc eng)\<^sup>*\<^sup>*"

text \<open>A request that runs alone goes through the steps of the handler.\<close>

lemma exec_alone:
  assumes "\<not> w_Broken w" and "execHandler ev eng w r t s = Some (err, w', s')" and "w' \<noteq> w"
    and "x_server y = s" "x_phase y k = Waiting r t"
  shows "\<exists>m. exec_reach (ev_sc ev) eng y (y\<lparr>x_applied := x_applied y @ [m], x_server := s',
    x_phase := (x_phase y)(k := Succeeded m), x_logged := x_logged y @ [m]\<rparr>)"
proof -
  obtain m m' q q' ms where e: "decode_body (decode_mutation (ev_sc ev)) r zero_mutation = (m, None)" "s_qs s = Some q"
    "en_Mutate eng (m\<lparr>m_Token := t\<rparr>) q = Some (None, m', q')" "s_ms s = Some ms" "ms_Write ev m' ms (s\<lparr>s_qs := Some q'\<rparr>) = Some (None, s')"
    using exec_outcome [OF assms(1,2)] assms(3) by blast
  let ?y1 = "y\<lparr>x_server := s\<lparr>s_qs := Some q'\<rparr>, x_phase := (x_phase y)(k := Applied m'), x_applied := x_applied y @ [m']\<rparr>"
  have "exec_step (ev_sc ev) eng y ?y1" using exec_step.mutates [of y k r t "ev_sc ev" m q eng m' q'] assms(4,5) e by simp
  moreover have "exec_step (ev_sc ev) eng ?y1 (?y1\<lparr>x_server := s', x_phase := (x_phase ?y1)(k := Succeeded m'), x_logged := x_logged ?y1 @ [m']\<rparr>)"
    using e by (intro exec_step.logs [where ms = ms and ev = ev]) simp_all
  ultimately have "exec_reach (ev_sc ev) eng y (?y1\<lparr>x_server := s', x_phase := (x_phase ?y1)(k := Succeeded m'), x_logged := x_logged ?y1 @ [m']\<rparr>)"
    by (meson converse_rtranclp_into_rtranclp r_into_rtranclp)
  then show ?thesis by (intro exI [of _ m']) (simp add: fun_upd_upd)
qed

section \<open>What was applied and what was logged\<close>

text \<open>
  The mutations in the hands of requests that have called \<open>Mutate\<close> and not yet written to the log.
\<close>

definition holders :: "(nat \<Rightarrow> phase) \<Rightarrow> nat set" where
  "holders p = {k. is_Applied (p k)}"

definition in_flight :: "(nat \<Rightarrow> phase) \<Rightarrow> Mutation multiset" where
  "in_flight p = image_mset (\<lambda>k. in_hand (p k)) (mset_set (holders p))"

text \<open>
  The invariant: every application is accounted for once, as a line of the log, as lost to a failure of the log, or as
  in flight; a request that succeeded is in the log. The file is what it held, then the lines of the logged mutations in
  the order of the log, then, after a failure of the disk, the remains of one more.
\<close>

definition file_holds :: "strconv \<Rightarrow> string \<Rightarrow> Mutation list \<Rightarrow> 'e Server \<Rightarrow> bool" where
  "file_holds sc f0 ns s \<longleftrightarrow>
     (\<exists>text torn. log_text sc ns = Some text \<and> s_file s = f0 @ text @ torn \<and>
        (torn \<noteq> [] \<longrightarrow> (\<forall>l go. s_ms s = Some (l, go) \<longrightarrow> \<not> go)))"

definition exec_inv :: "strconv \<Rightarrow> string \<Rightarrow> 'e exec_sys \<Rightarrow> bool" where
  "exec_inv sc f0 y \<longleftrightarrow>
     finite (holders (x_phase y)) \<and>
     mset (x_applied y) = mset (x_logged y) + mset (x_lost y) + in_flight (x_phase y) \<and>
     (\<forall>k m. x_phase y k = Succeeded m \<longrightarrow> m \<in> set (x_logged y)) \<and>
     file_holds sc f0 (x_logged y) (x_server y)"

lemma ms_Write_done:
  assumes "ms_Write ev m (l, go) s = Some (None, s')"
  shows "go \<and> (\<exists>line l'. encode_line (mutation_tree (ev_sc ev) m) = Inr line \<and> s_file s' = s_file s @ line \<and> s_ms s' = Some (l', \<not> l_closed l'))"
  using assms by (auto simp: ms_Write_def Log_Write_def writer_turn_def Let_def split: if_splits prod.splits option.splits sum.splits)

lemma ms_Write_failed:
  assumes "ms_Write ev m (l, go) s = Some (Some e, s')"
  shows "\<exists>torn l' go'. s_file s' = s_file s @ torn \<and> s_ms s' = Some (l', go') \<and> (torn \<noteq> [] \<longrightarrow> go \<and> \<not> go') \<and> (go' \<longrightarrow> go)"
  using assms by (auto simp: ms_Write_def Log_Write_def writer_turn_def Let_def split: if_splits prod.splits option.splits sum.splits)

lemma holders_update [simp]: "holders (p(k := a)) = (if is_Applied a then insert k (holders p) else holders p - {k})"
  by (auto simp: holders_def)

lemma in_flight_others: "k \<notin> A \<Longrightarrow> image_mset (\<lambda>j. in_hand ((p(k := a)) j)) (mset_set A) = image_mset (\<lambda>j. in_hand (p j)) (mset_set A)"
  by (cases "finite A") (auto intro!: image_mset_cong)

lemma in_flight_take: "finite (holders p) \<Longrightarrow> k \<notin> holders p \<Longrightarrow> in_flight (p(k := Applied m)) = add_mset m (in_flight p)"
  by (simp add: in_flight_def in_flight_others del: fun_upd_apply) simp

lemma in_flight_same: "k \<notin> holders p \<Longrightarrow> \<not> is_Applied a \<Longrightarrow> in_flight (p(k := a)) = in_flight p"
  by (simp add: in_flight_def in_flight_others del: fun_upd_apply)

lemma in_flight_release:
  assumes "finite (holders p)" and "p k = Applied m" and "\<not> is_Applied a"
  shows "in_flight p = add_mset m (in_flight (p(k := a)))"
  using in_flight_take [of "p(k := a)" k m] assms by (simp add: fun_upd_idem)

lemma file_holds_qs [simp]: "file_holds sc f0 ns (s\<lparr>s_qs := q\<rparr>) = file_holds sc f0 ns s"
  by (simp add: file_holds_def)

lemma file_holds_done:
  assumes "file_holds (ev_sc ev) f0 ns s" and "s_ms s = Some ms" and "ms_Write ev m ms s = Some (None, s')"
  shows "file_holds (ev_sc ev) f0 (ns @ [m]) s'"
proof -
  obtain l go where ms: "ms = (l, go)" by fastforce
  obtain line l' where w: "go" "encode_line (mutation_tree (ev_sc ev) m) = Inr line" "s_file s' = s_file s @ line"
    using ms_Write_done assms(3) ms by blast
  with assms(1,2) ms obtain tx where "log_text (ev_sc ev) ns = Some tx" "s_file s = f0 @ tx" by (auto simp: file_holds_def)
  with w show ?thesis by (simp add: file_holds_def log_text_append)
qed

lemma file_holds_failed:
  assumes "file_holds (ev_sc ev) f0 ns s" and "s_ms s = Some ms" and "ms_Write ev m ms s = Some (Some e, s')"
  shows "file_holds (ev_sc ev) f0 ns s'"
proof -
  obtain l go where ms: "ms = (l, go)" by fastforce
  obtain tx torn where t: "log_text (ev_sc ev) ns = Some tx" "s_file s = f0 @ tx @ torn" "torn \<noteq> [] \<longrightarrow> \<not> go"
    using assms(1,2) ms by (auto simp: file_holds_def)
  obtain torn' l' go' where "s_file s' = s_file s @ torn'" "s_ms s' = Some (l', go')" "torn' \<noteq> [] \<longrightarrow> go \<and> \<not> go'" "go' \<longrightarrow> go"
    using ms_Write_failed assms(3) ms by blast
  with t show ?thesis by (auto simp: file_holds_def intro!: exI [of _ "torn @ torn'"])
qed

lemma waiting_holds_nothing: "p k = Waiting r t \<Longrightarrow> k \<notin> holders p"
  by (simp add: holders_def)

lemma exec_inv_init: "s_file s = f0 \<Longrightarrow> exec_inv sc f0 (exec_init s reqs)"
  by (simp add: exec_inv_def exec_init_def holders_def in_flight_def file_holds_def)

lemma exec_inv_step:
  assumes "exec_step sc eng y y'" and i: "exec_inv sc f0 y"
  shows "exec_inv sc f0 y'"
  using assms(1)
proof cases
  case (log_gone k m)
  then show ?thesis using i in_flight_release [of "x_phase y" k m "Refused (Some tempError)"] by (auto simp: exec_inv_def)
next
  case (logs k m ms ev s')
  then show ?thesis using i in_flight_release [of "x_phase y" k m "Succeeded m"] by (auto simp: exec_inv_def file_holds_done)
next
  case (log_fails k m ms ev e s')
  then show ?thesis using i in_flight_release [of "x_phase y" k m "Refused (userError sc (LogErr e))"]
    by (auto simp: exec_inv_def file_holds_failed)
qed (use i in \<open>auto simp: exec_inv_def file_holds_def in_flight_same in_flight_take dest: waiting_holds_nothing\<close>)

lemma exec_inv_reach: "exec_reach sc eng y y' \<Longrightarrow> exec_inv sc f0 y \<Longrightarrow> exec_inv sc f0 y'"
  by (induction rule: rtranclp_induct) (auto intro: exec_inv_step)

section \<open>Properties\<close>


lemma exec_swap:
  fixes ev :: env
  assumes dec: "\<And>k. k < 2 \<Longrightarrow> decode_body (decode_mutation (ev_sc ev)) (fst (reqs k)) zero_mutation = (ms k, None)"
    and eng: "s_qs s = Some q" "en_Mutate eng ((ms 0)\<lparr>m_Token := snd (reqs 0)\<rparr>) q = Some (None, m1, q1)"
      "en_Mutate eng ((ms 1)\<lparr>m_Token := snd (reqs 1)\<rparr>) q1 = Some (None, m2, q2)"
    and line: "encode_line (mutation_tree (ev_sc ev) m1) = Inr line1" "encode_line (mutation_tree (ev_sc ev) m2) = Inr line2"
    and log: "s_ms s = Some (l, True)" "\<not> l_closed l" "ev_disk ev = good_disk"
  shows "\<exists>y. exec_reach (ev_sc ev) eng (exec_init s reqs) y \<and> x_phase y 0 = Succeeded m1 \<and> x_phase y 1 = Succeeded m2 \<and>
    x_applied y = [m1, m2] \<and> x_logged y = [m2, m1] \<and> s_file (x_server y) = s_file s @ line2 @ line1"
proof -
  let ?sc = "ev_sc ev" let ?l = "l\<lparr>l_count := l_count l + 1\<rparr>" let ?l' = "?l\<lparr>l_count := l_count ?l + 1\<rparr>"
  let ?y0 = "exec_init s reqs"
  let ?y1 = "?y0\<lparr>x_server := (x_server ?y0)\<lparr>s_qs := Some q1\<rparr>, x_phase := (x_phase ?y0)(0 := Applied m1), x_applied := x_applied ?y0 @ [m1]\<rparr>"
  let ?y2 = "?y1\<lparr>x_server := (x_server ?y1)\<lparr>s_qs := Some q2\<rparr>, x_phase := (x_phase ?y1)(1 := Applied m2), x_applied := x_applied ?y1 @ [m2]\<rparr>"
  let ?s3 = "(x_server ?y2)\<lparr>s_ms := Some (?l, True), s_file := s_file s @ line2\<rparr>"
  let ?y3 = "?y2\<lparr>x_server := ?s3, x_phase := (x_phase ?y2)(1 := Succeeded m2), x_logged := x_logged ?y2 @ [m2]\<rparr>"
  let ?s4 = "?s3\<lparr>s_ms := Some (?l', True), s_file := (s_file s @ line2) @ line1\<rparr>"
  let ?y4 = "?y3\<lparr>x_server := ?s4, x_phase := (x_phase ?y3)(0 := Succeeded m1), x_logged := x_logged ?y3 @ [m1]\<rparr>"
  have i: "x_server ?y0 = s" "x_phase ?y0 k = Waiting (fst (reqs k)) (snd (reqs k))" for k by (simp_all add: exec_init_def)
  have "exec_step ?sc eng ?y0 ?y1" by (rule mutates [where m = "ms 0" and q = q]) (use i dec [of 0] eng in simp_all)
  moreover have "exec_step ?sc eng ?y1 ?y2" by (rule mutates [where m = "ms 1" and q = q1]) (use i dec [of 1] eng in simp_all)
  moreover have "exec_step ?sc eng ?y2 ?y3"
    by (rule logs [where ev = ev and ms = "(l, True)"])
      (use i line log in \<open>simp_all add: ms_Write_def Log_Write_def writer_turn_def good_disk_def Let_def\<close>)
  moreover have "exec_step ?sc eng ?y3 ?y4"
    by (rule logs [where ev = ev and ms = "(?l, True)"])
      (use i line log in \<open>simp_all add: ms_Write_def Log_Write_def writer_turn_def good_disk_def Let_def\<close>)
  ultimately have "exec_reach ?sc eng ?y0 ?y4" by (meson converse_rtranclp_into_rtranclp rtranclp.rtrancl_refl)
  then show ?thesis by (intro exI [of _ ?y4]) (simp add: exec_init_def)
qed

text \<open>
  C35: the database and the log need not agree on the order: \<open>Mutate\<close> and \<open>Write\<close> are not one critical section, so of
  two requests that both succeed the second applied may be the first logged. A replay then applies them in an order the
  database never saw.
\<close>

theorem exec_order_can_differ:
  fixes ev :: env
  assumes dec: "\<And>k. k < 2 \<Longrightarrow> decode_body (decode_mutation (ev_sc ev)) (fst (reqs k)) zero_mutation = (ms k, None)"
    and eng: "s_qs s = Some q" "en_Mutate eng ((ms 0)\<lparr>m_Token := snd (reqs 0)\<rparr>) q = Some (None, m1, q1)"
      "en_Mutate eng ((ms 1)\<lparr>m_Token := snd (reqs 1)\<rparr>) q1 = Some (None, m2, q2)"
    and line: "encode_line (mutation_tree (ev_sc ev) m1) = Inr line1" "encode_line (mutation_tree (ev_sc ev) m2) = Inr line2"
    and log: "s_ms s = Some (l, True)" "\<not> l_closed l" "ev_disk ev = good_disk"
  shows "\<exists>y. exec_reach (ev_sc ev) eng (exec_init s reqs) y \<and> x_phase y 0 = Succeeded m1 \<and> x_phase y 1 = Succeeded m2 \<and>
    x_applied y = [m1, m2] \<and> x_logged y = [m2, m1] \<and> s_file (x_server y) = s_file s @ line2 @ line1"
  using assms by (rule exec_swap)

text \<open>Two requests at once on the demonstration server, whose database accepts both mutations.\<close>

definition demo_mutations :: "Mutation list" where
  "demo_mutations = map (\<lambda>t. (decoded_mutation int_strconv sample_mutation)\<lparr>m_Token := t, m_Version := 7\<rparr>) [demo_claims, []]"

lemma demo_accepts:
  assumes "exec_idle p (exec_answer @ rest)" and "p_info p = Some (zero_info\<lparr>i_Version := 7\<rparr>)" and t: "t = demo_claims \<or> t = []"
  shows "\<exists>p'. en_Mutate (postgres_engine int_strconv) ((decoded_mutation int_strconv sample_mutation)\<lparr>m_Token := t\<rparr>) p =
    Some (None, (decoded_mutation int_strconv sample_mutation)\<lparr>m_Token := t, m_Version := 7\<rparr>, p') \<and> exec_idle p' rest \<and>
    p_info p' = Some (zero_info\<lparr>i_Version := 7\<rparr>)"
proof -
  let ?m = "(decoded_mutation int_strconv sample_mutation)\<lparr>m_Token := t\<rparr>"
  obtain b where b: "marshal_tree (mutation_tree int_strconv (?m\<lparr>m_Version := i_Version (zero_info\<lparr>i_Version := 7\<rparr>)\<rparr>)) = Inr b"
    using t by (auto simp: marshal_tree_def mutation_tree_def sample_mutation_def decoded_mutation_def int_strconv_def demo_claims_def)
  have idle: "exec_idle p (prepared_bytes [JsonOid] ''arla_exec'' 73 @ srv_bytes [SBindComplete, SCommandComplete ''SELECT 1''] @ ready_bytes 73 @ rest)"
    using assms(1) by (simp add: exec_answer_def)
  have name: "m_Name ?m \<noteq> []" by (simp add: decoded_mutation_def sample_mutation_def)
  show ?thesis
    using Mutate_answered [OF idle _ _ _ name assms(2) b] assms(2)
    by (auto simp: postgres_engine_def msg_ok.simps exec_idle_def)
qed

lemma demo_lines: "\<exists>a b. log_text int_strconv demo_mutations = Some (a @ b) \<and>
    encode_line (mutation_tree int_strconv (demo_mutations ! 0)) = Inr a \<and> encode_line (mutation_tree int_strconv (demo_mutations ! 1)) = Inr b"
  by (simp add: demo_mutations_def encode_line_def mutation_tree_def sample_mutation_def decoded_mutation_def int_strconv_def demo_claims_def)

lemma demo_requests:
  fixes tok :: "nat \<Rightarrow> Token"
  defines "tok \<equiv> (\<lambda>k. if k = 0 then demo_claims else [])"
  shows "\<exists>body p1 p2. (\<forall>k. decode_body (decode_mutation int_strconv) (demo_request ''/exec'' [] body) zero_mutation =
       (decoded_mutation int_strconv sample_mutation, None)) \<and>
     en_Mutate (postgres_engine int_strconv) ((decoded_mutation int_strconv sample_mutation)\<lparr>m_Token := tok 0\<rparr>)
       (demo_engine (exec_answer @ exec_answer) []) = Some (None, demo_mutations ! 0, p1) \<and>
     en_Mutate (postgres_engine int_strconv) ((decoded_mutation int_strconv sample_mutation)\<lparr>m_Token := tok 1\<rparr>) p1 = Some (None, demo_mutations ! 1, p2)"
proof -
  obtain body where body: "encode_line (mutation_tree int_strconv sample_mutation) = Inr body" using sample_line ..
  let ?m = "decoded_mutation int_strconv sample_mutation" and ?p = "demo_engine (exec_answer @ exec_answer) []"
  have dec: "decode_body (decode_mutation int_strconv) (demo_request ''/exec'' [] body) zero_mutation = (?m, None)"
    using decode_encode_mutation [OF int_strconv_ok sample_mutation_wf body, of "[]"] by (simp add: decode_body_def demo_request_def)
  obtain p1 where p1: "en_Mutate (postgres_engine int_strconv) (?m\<lparr>m_Token := demo_claims\<rparr>) ?p = Some (None, demo_mutations ! 0, p1)"
      "exec_idle p1 (exec_answer @ [])" "p_info p1 = Some (zero_info\<lparr>i_Version := 7\<rparr>)"
    using demo_accepts [OF demo_engine_idle(2,3), of demo_claims exec_answer "[]"] by (auto simp: demo_mutations_def)
  obtain p2 where "en_Mutate (postgres_engine int_strconv) (?m\<lparr>m_Token := []\<rparr>) p1 = Some (None, demo_mutations ! 1, p2)"
    using demo_accepts [OF p1(2,3), of "[]"] by (auto simp: demo_mutations_def)
  with dec p1(1) show ?thesis by (auto simp: tok_def)
qed

theorem exec_order_can_differ_witness:
  "\<exists>body y. exec_reach int_strconv (postgres_engine int_strconv)
       (exec_init (demo_server (demo_engine (exec_answer @ exec_answer) [])) (\<lambda>k. (demo_request ''/exec'' [] body, if k = 0 then demo_claims else []))) y \<and>
     x_applied y = [demo_mutations ! 0, demo_mutations ! 1] \<and> x_logged y = [demo_mutations ! 1, demo_mutations ! 0] \<and> demo_mutations ! 0 \<noteq> demo_mutations ! 1"
proof -
  obtain body p1 p2 where b: "\<forall>k::nat. decode_body (decode_mutation int_strconv) (demo_request ''/exec'' [] body) zero_mutation =
       (decoded_mutation int_strconv sample_mutation, None)"
     "en_Mutate (postgres_engine int_strconv) ((decoded_mutation int_strconv sample_mutation)\<lparr>m_Token := demo_claims\<rparr>)
       (demo_engine (exec_answer @ exec_answer) []) = Some (None, demo_mutations ! 0, p1)"
     "en_Mutate (postgres_engine int_strconv) ((decoded_mutation int_strconv sample_mutation)\<lparr>m_Token := []\<rparr>) p1 = Some (None, demo_mutations ! 1, p2)"
    using demo_requests by auto
  obtain l1 l2 where l: "encode_line (mutation_tree int_strconv (demo_mutations ! 0)) = Inr l1" "encode_line (mutation_tree int_strconv (demo_mutations ! 1)) = Inr l2"
    using demo_lines by blast
  have "\<exists>y. exec_reach (ev_sc demo_env) (postgres_engine int_strconv)
       (exec_init (demo_server (demo_engine (exec_answer @ exec_answer) [])) (\<lambda>k. (demo_request ''/exec'' [] body, if k = 0 then demo_claims else []))) y \<and>
     x_phase y 0 = Succeeded (demo_mutations ! 0) \<and> x_phase y 1 = Succeeded (demo_mutations ! 1) \<and>
     x_applied y = [demo_mutations ! 0, demo_mutations ! 1] \<and> x_logged y = [demo_mutations ! 1, demo_mutations ! 0] \<and>
     s_file (x_server y) = s_file (demo_server (demo_engine (exec_answer @ exec_answer) [])) @ l2 @ l1"
    by (rule exec_order_can_differ [where ms = "\<lambda>_. decoded_mutation int_strconv sample_mutation" and ev = demo_env
        and l = "\<lparr>l_filename = ''/var/state/datastore'', l_closed = False, l_count = 0\<rparr>"])
      (use b l in \<open>simp_all add: demo_env_def demo_server_def\<close>)
  moreover have "demo_mutations ! 0 \<noteq> demo_mutations ! 1"
    by (simp add: demo_mutations_def decoded_mutation_def sample_mutation_def demo_claims_def)
  ultimately show ?thesis by (auto simp: demo_env_def)
qed

lemma demo_mutation_wf: "wf_mutation (demo_mutations ! 0)" "wf_mutation (demo_mutations ! 1)"
  by (simp_all add: demo_mutations_def wf_mutation_def decoded_mutation_def sample_mutation_def demo_claims_def) code_simp+


end
