(* ===== verification/Flags_Tags.thy ===== *)
theory Flags_Tags
  imports Go_Json "HOL-Library.List_Lexorder" "HOL-Library.Char_ord"
begin

text \<open>
  How \<open>go-flags\<close> reads the description of a program's options out of a Go struct: the tags of its fields (\<open>multitag.go\<close>), the options they
  describe (\<open>scanStruct\<close> and \<open>checkForDuplicateFlags\<close> of \<open>group.go\<close>), and the conversion of texts into the values of the fields
  (\<open>convert.go\<close>). Fields are strings, booleans, integers of any width, slices of them and functions without arguments; nested structs,
  maps, pointers and types that convert themselves are left out. A conversion that fails is \<open>None\<close>; of an error of the package the model
  keeps its type and what its message is made of.
\<close>

section \<open>Quoted texts\<close>

text \<open>\<open>utf8.DecodeRuneInString\<close>: the character at the start of a text and its size; a wrong byte counts as U+FFFD.\<close>

definition DecodeRune :: "string \<Rightarrow> nat \<times> nat" where
  "DecodeRune s =
     (let b = (\<lambda>i. code (s ! i)) in
      if s = [] then (0xFFFD, 0)
      else case utf8_size s of
        0 \<Rightarrow> (0xFFFD, 1)
      | Suc 0 \<Rightarrow> (b 0, 1)
      | Suc (Suc 0) \<Rightarrow> ((b 0 - 0xC0) * 64 + (b 1 - 0x80), 2)
      | Suc (Suc (Suc 0)) \<Rightarrow> ((b 0 - 0xE0) * 4096 + (b 1 - 0x80) * 64 + (b 2 - 0x80), 3)
      | _ \<Rightarrow> ((b 0 - 0xF0) * 262144 + (b 1 - 0x80) * 4096 + (b 2 - 0x80) * 64 + (b 3 - 0x80), 4))"

lemma DecodeRune_size: "s \<noteq> [] \<Longrightarrow> 0 < snd (DecodeRune s)"
  by (auto simp: DecodeRune_def Let_def split: nat.splits)

text \<open>\<open>utf8.RuneLen\<close> and \<open>utf8.RuneCountInString\<close>.\<close>

definition RuneLen :: "nat \<Rightarrow> nat" where
  "RuneLen r = length (encode_rune r)"

function RuneCount :: "string \<Rightarrow> nat" where
  "RuneCount s = (if s = [] then 0 else Suc (RuneCount (drop (snd (DecodeRune s)) s)))"
  by pat_completeness auto
termination using DecodeRune_size by (relation "measure length") auto

declare RuneCount.simps [simp del]

text \<open>\<open>strconv.UnquoteChar\<close> and \<open>strconv.Unquote\<close> for texts between double quotes: the bytes that the next character or escape denotes.\<close>

definition unquote_hex :: "nat \<Rightarrow> string \<Rightarrow> nat option" where
  "unquote_hex n s = (if length s < n \<or> None \<in> set (map hexval (take n s)) then None
     else Some (foldl (\<lambda>v c. 16 * v + the (hexval c)) 0 (take n s)))"

definition is_octal :: "char \<Rightarrow> bool" where
  "is_octal c \<longleftrightarrow> 48 \<le> code c \<and> code c \<le> 55"

definition UnquoteChar :: "string \<Rightarrow> (string \<times> string) option" where
  "UnquoteChar s =
     (let c = hd s in
      if c = CHR 0x22 then None
      else if code c \<ge> 0x80 then (case DecodeRune s of (r, n) \<Rightarrow> Some (encode_rune r, drop n s))
      else if c \<noteq> CHR 0x5C then Some ([c], tl s)
      else if length s \<le> 1 then None
      else
        let c = s ! 1; s = drop 2 s in
        if c \<in> set ''abfnrtv'' then Some ([char_of (the (map_of (zip ''abfnrtv'' [7, 8, 12, 10, 13, 9, 11 :: nat]) c))], s)
        else if c = CHR ''x'' then map_option (\<lambda>v. ([char_of v], drop 2 s)) (unquote_hex 2 s)
        else if c \<in> set ''uU'' then
          (let n = if c = CHR ''u'' then 4 else 8 in
           case unquote_hex n s of None \<Rightarrow> None | Some v \<Rightarrow> if v > 0x10FFFF then None else Some (encode_rune v, drop n s))
        else if is_octal c then
          (if length s < 2 \<or> \<not> is_octal (s ! 0) \<or> \<not> is_octal (s ! 1) then None
           else let v = (code c - 48) * 64 + (code (s ! 0) - 48) * 8 + (code (s ! 1) - 48) in
             if v > 255 then None else Some ([char_of v], drop 2 s))
        else if c = CHR 0x5C \<or> c = CHR 0x22 then Some ([c], s)
        else None)"

lemma UnquoteChar_shorter: "UnquoteChar s = Some (b, t) \<Longrightarrow> s \<noteq> [] \<Longrightarrow> length t < length s"
  using DecodeRune_size [of s] by (auto simp: UnquoteChar_def Let_def split: if_splits prod.splits option.splits)

function Unquote_loop :: "string \<Rightarrow> string option" where
  "Unquote_loop s =
     (if s = [] then Some []
      else case UnquoteChar s of None \<Rightarrow> None | Some (b, t) \<Rightarrow> map_option (\<lambda>r. b @ r) (Unquote_loop t))"
  by pat_completeness auto
termination using UnquoteChar_shorter by (relation "measure length") auto

declare Unquote_loop.simps [simp del]

definition Unquote :: "string \<Rightarrow> string option" where
  "Unquote s =
     (if length s < 2 \<or> hd s \<noteq> CHR 0x22 \<or> last s \<noteq> CHR 0x22 then None
      else
        let s = butlast (tl s) in
        if CHR 0x0A \<in> set s then None
        else if CHR 0x5C \<notin> set s \<and> CHR 0x22 \<notin> set s then Some s
        else Unquote_loop s)"

definition unquoteIfPossible :: "string \<Rightarrow> string option" where
  "unquoteIfPossible s = (if s = [] \<or> hd s \<noteq> CHR 0x22 then Some s else Unquote s)"

section \<open>Tags\<close>

type_synonym multiTag = "string \<rightharpoonup> string list"

text \<open>The text up to the closing quote of a value, and what follows it.\<close>

fun tag_value :: "string \<Rightarrow> (string \<times> string) option" where
  "tag_value [] = None"
| "tag_value (c # cs) =
     (if c = CHR 0x22 then Some ([], cs)
      else if c = CHR 0x0A then None
      else if c = CHR 0x5C then
        (case cs of [] \<Rightarrow> None | e # es \<Rightarrow> map_option (\<lambda>(b, r). (c # e # b, r)) (tag_value es))
      else map_option (\<lambda>(b, r). (c # b, r)) (tag_value cs))"

lemma tag_value_shorter: "tag_value s = Some (b, r) \<Longrightarrow> length r < length s"
  by (induction s arbitrary: b r rule: tag_value.induct) (fastforce split: if_splits list.splits)+

definition is_key_end :: "char \<Rightarrow> bool" where
  "is_key_end c \<longleftrightarrow> c = CHR '' '' \<or> c = CHR '':'' \<or> c = CHR 0x22"

function scan_tag :: "string \<Rightarrow> multiTag \<Rightarrow> multiTag option" where
  "scan_tag v ret =
     (let v = dropWhile (\<lambda>c. c = CHR '' '') v; name = takeWhile (\<lambda>c. \<not> is_key_end c) v; w = dropWhile (\<lambda>c. \<not> is_key_end c) v in
      if v = [] then Some ret
      else if length w < 2 \<or> w ! 0 \<noteq> CHR '':'' \<or> w ! 1 \<noteq> CHR 0x22 then None
      else
        case tag_value (drop 2 w) of
          None \<Rightarrow> None
        | Some (b, v) \<Rightarrow>
            (case Unquote (CHR 0x22 # b @ [CHR 0x22]) of
               None \<Rightarrow> None
             | Some val \<Rightarrow> scan_tag v (ret(name \<mapsto> (case ret name of None \<Rightarrow> [] | Some vs \<Rightarrow> vs) @ [val]))))"
  by pat_completeness auto
termination
proof (relation "measure (\<lambda>(v, ret). length v)", goal_cases)
  case (2 v ret va name w x2 b vb x2a)
  then have "length vb < length w" using tag_value_shorter by fastforce
  moreover have "length w \<le> length va" "length va \<le> length v" using 2 by (simp_all add: length_dropWhile_le)
  ultimately show ?case by simp
qed simp

declare scan_tag.simps [simp del]

definition tag_Get :: "multiTag \<Rightarrow> string \<Rightarrow> string" where
  "tag_Get t key = (case t key of Some v \<Rightarrow> last v | None \<Rightarrow> [])"

definition tag_GetMany :: "multiTag \<Rightarrow> string \<Rightarrow> string list" where
  "tag_GetMany t key = (case t key of Some v \<Rightarrow> v | None \<Rightarrow> [])"


section \<open>Values\<close>

datatype kind = KString | KBool | KInt nat | KUint nat | KSlice kind | KFunc

datatype field_value = FvString string | FvBool bool | FvInt int | FvUint nat | FvSlice "field_value list" | FvFunc

fun emptyValue :: "kind \<Rightarrow> field_value" where
  "emptyValue KString = FvString []"
| "emptyValue KBool = FvBool False"
| "emptyValue (KInt bits) = FvInt 0"
| "emptyValue (KUint bits) = FvUint 0"
| "emptyValue (KSlice k) = FvSlice []"
| "emptyValue KFunc = FvFunc"

text \<open>\<open>strconv.ParseUint\<close> and \<open>strconv.ParseInt\<close> for a base from 2 to 36, or 0 for the base that the prefix tells; \<open>strconv.ParseBool\<close>.\<close>

definition digit_of :: "char \<Rightarrow> nat" where
  "digit_of c =
     (if is_digit c then code c - 48
      else if 97 \<le> code c \<and> code c \<le> 122 then code c - 87
      else if 65 \<le> code c \<and> code c \<le> 90 then code c - 55
      else 36)"

definition digits_in :: "nat \<Rightarrow> string \<Rightarrow> nat option" where
  "digits_in base s = (if list_all (\<lambda>c. digit_of c < base) s then Some (foldl (\<lambda>v c. base * v + digit_of c) 0 s) else None)"

definition ParseUint :: "string \<Rightarrow> int \<Rightarrow> nat \<Rightarrow> nat option" where
  "ParseUint s base bits =
     (let in_range = (\<lambda>r. case r of Some n \<Rightarrow> if n < 2 ^ bits then Some n else None | None \<Rightarrow> None) in
      if s = [] then None
      else if 2 \<le> base \<and> base \<le> 36 then in_range (digits_in (nat base) s)
      else if base = 0 then
        (if hd s = CHR ''0'' \<and> length s > 1 \<and> (s ! 1 = CHR ''x'' \<or> s ! 1 = CHR ''X'') then
           (if length s < 3 then None else in_range (digits_in 16 (drop 2 s)))
         else if hd s = CHR ''0'' then in_range (digits_in 8 (tl s))
         else in_range (digits_in 10 s))
      else None)"

definition ParseInt :: "string \<Rightarrow> int \<Rightarrow> nat \<Rightarrow> int option" where
  "ParseInt s base bits =
     (if s = [] then None
      else
        let neg = (hd s = CHR ''-''); s = (if hd s = CHR ''-'' \<or> hd s = CHR ''+'' then tl s else s) in
        case ParseUint s base bits of
          None \<Rightarrow> None
        | Some un \<Rightarrow>
            if neg then (if un \<le> 2 ^ (bits - 1) then Some (- int un) else None)
            else if un < 2 ^ (bits - 1) then Some (int un) else None)"

definition ParseBool :: "string \<Rightarrow> bool option" where
  "ParseBool s =
     (if s \<in> set [''1'', ''t'', ''T'', ''true'', ''TRUE'', ''True''] then Some True
      else if s \<in> set [''0'', ''f'', ''F'', ''false'', ''FALSE'', ''False''] then Some False
      else None)"

definition getBase :: "multiTag \<Rightarrow> int \<Rightarrow> int option" where
  "getBase options base = (let sbase = tag_Get options ''base'' in if sbase \<noteq> [] then ParseInt sbase 10 32 else Some base)"

text \<open>\<open>convert\<close>: the value a field of the kind has afterwards; \<open>retval\<close> is the one before.\<close>

fun convert :: "string \<Rightarrow> kind \<Rightarrow> multiTag \<Rightarrow> field_value \<Rightarrow> field_value option" where
  "convert val KString options retval = Some (FvString val)"
| "convert val KBool options retval = (if val = [] then Some (FvBool True) else map_option FvBool (ParseBool val))"
| "convert val (KInt bits) options retval = Option.bind (getBase options 10) (\<lambda>base. map_option FvInt (ParseInt val base bits))"
| "convert val (KUint bits) options retval = Option.bind (getBase options 10) (\<lambda>base. map_option FvUint (ParseUint val base bits))"
| "convert val (KSlice k) options retval =
     map_option (\<lambda>e. FvSlice ((case retval of FvSlice vs \<Rightarrow> vs | _ \<Rightarrow> []) @ [e])) (convert val k options (emptyValue k))"
| "convert val KFunc options retval = Some retval"

section \<open>Options\<close>

datatype flags_error =
    ErrExpectedArgument string "string option"
  | ErrUnknownFlag string
  | ErrMarshal string string
  | ErrHelp
  | ErrNoArgumentForBool string
  | ErrRequired "string list"
  | ErrShortNameTooLong string
  | ErrDuplicatedFlag string string
  | ErrTag string
  | ErrInvalidChoice string string
  | ErrInvalidTag string

record FlagOption =
  op_Short :: nat
  op_Long :: string
  op_Default :: "string list"
  op_EnvKey :: string
  op_EnvDelim :: string
  op_Optional :: bool
  op_OptionalValue :: "string list"
  op_Required :: bool
  op_Choices :: "string list"
  op_field :: string
  op_kind :: kind
  op_value :: field_value
  op_tag :: multiTag
  op_isSet :: bool
  op_preventDefault :: bool

fun kind_isBool :: "kind \<Rightarrow> bool" where
  "kind_isBool KBool = True"
| "kind_isBool (KSlice k) = (k = KBool)"
| "kind_isBool KFunc = True"
| "kind_isBool _ = False"

definition isBool :: "FlagOption \<Rightarrow> bool" where
  "isBool option = kind_isBool (op_kind option)"

definition canArgument :: "FlagOption \<Rightarrow> bool" where
  "canArgument option \<longleftrightarrow> \<not> isBool option"

definition option_String :: "FlagOption \<Rightarrow> string" where
  "option_String option =
     (if op_Short option \<noteq> 0 then
        (if op_Long option \<noteq> [] then ''-'' @ encode_rune (op_Short option) @ '', --'' @ op_Long option
         else ''-'' @ encode_rune (op_Short option))
      else if op_Long option \<noteq> [] then ''--'' @ op_Long option
      else [])"

definition shortAndLongName :: "FlagOption \<Rightarrow> string" where
  "shortAndLongName option =
     (if op_Short option \<noteq> 0 then ''-'' @ encode_rune (op_Short option) else []) @
     (if op_Long option \<noteq> [] then (if op_Short option \<noteq> 0 then ''/'' else []) @ op_Long option else [])"

text \<open>\<open>set\<close>: the outcome of a conversion is told apart from the package's own errors; \<open>None\<close> is a panic.\<close>

datatype set_error = FlagErr flags_error | ConvertErr

definition option_empty :: "FlagOption \<Rightarrow> FlagOption" where
  "option_empty option = (if op_kind option = KFunc then option else option\<lparr>op_value := emptyValue (op_kind option)\<rparr>)"

definition option_call :: "string option \<Rightarrow> FlagOption \<Rightarrow> (set_error option \<times> FlagOption) option" where
  "option_call v option = (if v = None then Some (Some (FlagErr ErrHelp), option) else None)"

definition option_set :: "string option \<Rightarrow> FlagOption \<Rightarrow> (set_error option \<times> FlagOption) option" where
  "option_set v option =
     (let option = (case op_kind option of KSlice k \<Rightarrow> if op_isSet option then option else option_empty option | _ \<Rightarrow> option);
          option = option\<lparr>op_isSet := True, op_preventDefault := True\<rparr> in
      if op_Choices option \<noteq> [] \<and> v = None then None
      else if op_Choices option \<noteq> [] \<and> the v \<notin> set (op_Choices option) then
        Some (Some (FlagErr (ErrInvalidChoice (the v) (option_String option))), option)
      else if op_kind option = KFunc then option_call v option
      else
        case convert (case v of Some s \<Rightarrow> s | None \<Rightarrow> []) (op_kind option) (op_tag option) (op_value option) of
          None \<Rightarrow> Some (Some ConvertErr, option)
        | Some val \<Rightarrow> Some (None, option\<lparr>op_value := val\<rparr>))"

text \<open>Setting several values one after the other: up to the first error, or whatever the errors are.\<close>

fun set_until_error :: "string list \<Rightarrow> FlagOption \<Rightarrow> (set_error option \<times> FlagOption) option" where
  "set_until_error [] option = Some (None, option)"
| "set_until_error (v # vs) option =
     (case option_set (Some v) option of
        None \<Rightarrow> None
      | Some (Some e, option) \<Rightarrow> Some (Some e, option)
      | Some (None, option) \<Rightarrow> set_until_error vs option)"

fun set_each :: "string list \<Rightarrow> FlagOption \<Rightarrow> FlagOption option" where
  "set_each [] option = Some option"
| "set_each (v # vs) option = (case option_set (Some v) option of None \<Rightarrow> None | Some (e, option) \<Rightarrow> set_each vs option)"

text \<open>\<open>strings.Split\<close> for a separator of any length, and \<open>clearDefault\<close>; \<open>env\<close> is \<open>syscall.Getenv\<close>.\<close>

function SplitStr :: "string \<Rightarrow> string \<Rightarrow> string list" where
  "SplitStr sep s =
     (if sep = [] then [] else case Index s sep of None \<Rightarrow> [s] | Some i \<Rightarrow> take i s # SplitStr sep (drop (i + length sep) s))"
  by pat_completeness auto
termination
proof (relation "measure (\<lambda>(sep, s). length s)", goal_cases)
  case (2 sep s i)
  then have "s = take i s @ sep @ drop (i + length sep) s" using Index_Some by blast
  then have "s \<noteq> []" using 2 by auto
  with 2 show ?case by simp
qed simp

declare SplitStr.simps [simp del]

definition clearDefault :: "(string \<rightharpoonup> string) \<Rightarrow> FlagOption \<Rightarrow> FlagOption option" where
  "clearDefault env option =
     (let usedDefault =
        (if op_EnvKey option = [] then op_Default option
         else case env (op_EnvKey option) of
           None \<Rightarrow> op_Default option
         | Some v \<Rightarrow> if op_EnvDelim option \<noteq> [] then SplitStr (op_EnvDelim option) v else [v]) in
      if usedDefault \<noteq> [] then set_each usedDefault (option_empty option) else Some option)"

section \<open>The options of a struct\<close>

record struct_field =
  f_Name :: string
  f_Tag :: string
  f_kind :: kind
  f_exported :: bool
  f_value :: field_value

definition field_option :: "struct_field \<Rightarrow> multiTag \<Rightarrow> nat \<Rightarrow> FlagOption" where
  "field_option f mtag short =
     \<lparr>op_Short = short, op_Long = tag_Get mtag ''long'', op_Default = tag_GetMany mtag ''default'', op_EnvKey = tag_Get mtag ''env'',
      op_EnvDelim = tag_Get mtag ''env-delim'', op_Optional = (tag_Get mtag ''optional'' \<noteq> []),
      op_OptionalValue = tag_GetMany mtag ''optional-value'', op_Required = (tag_Get mtag ''required'' \<noteq> []),
      op_Choices = tag_GetMany mtag ''choice'', op_field = f_Name f, op_kind = f_kind f, op_value = f_value f, op_tag = mtag,
      op_isSet = False, op_preventDefault = False\<rparr>"

text \<open>The option of one field, if it has one.\<close>

definition scan_field :: "struct_field \<Rightarrow> (flags_error, FlagOption option) result" where
  "scan_field f =
     (if \<not> f_exported f then Inr None
      else
        case scan_tag (f_Tag f) Map.empty of
          None \<Rightarrow> Inl (ErrTag (f_Tag f))
        | Some mtag \<Rightarrow>
            (let longname = tag_Get mtag ''long''; shortname = tag_Get mtag ''short'' in
             if tag_Get mtag ''no-flag'' \<noteq> [] then Inr None
             else if longname = [] \<and> shortname = [] \<and> tag_Get mtag ''ini-name'' = [] then Inr None
             else if RuneCount shortname > 1 then Inl (ErrShortNameTooLong shortname)
             else
               let short = (if RuneCount shortname = 1 then fst (DecodeRune shortname) else 0); option = field_option f mtag short in
               if isBool option \<and> op_Default option \<noteq> [] then Inl (ErrInvalidTag (shortAndLongName option)) else Inr (Some option)))"

fun scanStruct :: "struct_field list \<Rightarrow> (flags_error, FlagOption list) result" where
  "scanStruct [] = Inr []"
| "scanStruct (f # fs) =
     (case scan_field f of
        Inl e \<Rightarrow> Inl e
      | Inr None \<Rightarrow> scanStruct fs
      | Inr (Some option) \<Rightarrow> (case scanStruct fs of Inl e \<Rightarrow> Inl e | Inr options \<Rightarrow> Inr (option # options)))"

fun duplicates_in :: "FlagOption list \<Rightarrow> FlagOption list \<Rightarrow> flags_error option" where
  "duplicates_in seen [] = None"
| "duplicates_in seen (option # options) =
     (case List.find (\<lambda>other. op_Long option \<noteq> [] \<and> op_Long other = op_Long option) seen of
        Some other \<Rightarrow> Some (ErrDuplicatedFlag (option_String option) (option_String other))
      | None \<Rightarrow>
          (case List.find (\<lambda>other. op_Short option \<noteq> 0 \<and> op_Short other = op_Short option) seen of
             Some other \<Rightarrow> Some (ErrDuplicatedFlag (option_String option) (option_String other))
           | None \<Rightarrow> duplicates_in (option # seen) options))"

definition checkForDuplicateFlags :: "FlagOption list \<Rightarrow> flags_error option" where
  "checkForDuplicateFlags options = duplicates_in [] options"

definition group_scan :: "struct_field list \<Rightarrow> (flags_error, FlagOption list) result" where
  "group_scan fs =
     (case scanStruct fs of
        Inl e \<Rightarrow> Inl e
      | Inr options \<Rightarrow> (case checkForDuplicateFlags options of Some e \<Rightarrow> Inl e | None \<Rightarrow> Inr options))"

end
