(* ===== verification/Flags_Parser.thy ===== *)
theory Flags_Parser
  imports Flags_Tags
begin

unbundle bit_operations_syntax

text \<open>
  Parsing of a command line by \<open>go-flags\<close> (\<open>parser.go\<close>, \<open>optstyle_other.go\<close>, the look-up of \<open>command.go\<close>): a parser with the options of
  one struct and the built-in help, without commands and positional arguments. Options are named by their place in the list, so that what
  happens to one is seen by all that refer to it. A panic is \<open>None\<close>.
\<close>

section \<open>The form of an argument\<close>

definition argumentIsOption :: "string \<Rightarrow> bool" where
  "argumentIsOption arg \<longleftrightarrow>
     (length arg > 1 \<and> arg ! 0 = CHR ''-'' \<and> arg ! 1 \<noteq> CHR ''-'') \<or>
     (length arg > 2 \<and> arg ! 0 = CHR ''-'' \<and> arg ! 1 = CHR ''-'' \<and> arg ! 2 \<noteq> CHR ''-'')"

definition stripOptionPrefix :: "string \<Rightarrow> string \<times> string \<times> bool" where
  "stripOptionPrefix optname =
     (if HasPrefix optname ''--'' then (''--'', drop 2 optname, True)
      else if HasPrefix optname ''-'' then (''-'', drop 1 optname, False)
      else ([], optname, False))"

definition splitOption :: "string \<Rightarrow> bool \<Rightarrow> string \<times> string option" where
  "splitOption option islong =
     (case Index option ''='' of
        Some pos \<Rightarrow> if islong \<or> pos = 1 then (take pos option, Some (drop (pos + 1) option)) else (option, None)
      | None \<Rightarrow> (option, None))"

section \<open>The parser\<close>

type_synonym Options = "64 word"

definition HelpFlag :: Options where "HelpFlag = 2"
definition PassDoubleDash :: Options where "PassDoubleDash = 4"
definition IgnoreUnknown :: Options where "IgnoreUnknown = 8"
definition PrintErrors :: Options where "PrintErrors = 16"
definition PassAfterNonOption :: Options where "PassAfterNonOption = 32"
definition DefaultOptions :: Options where "DefaultOptions = HelpFlag OR PrintErrors OR PassDoubleDash"

definition flag_on :: "Options \<Rightarrow> Options \<Rightarrow> bool" where
  "flag_on flags f \<longleftrightarrow> flags AND f \<noteq> 0"

record parseState =
  ps_arg :: string
  ps_args :: "string list"
  ps_retargs :: "string list"
  ps_opts :: "FlagOption list"

definition ps_pop :: "parseState \<Rightarrow> parseState" where
  "ps_pop s = (case ps_args s of [] \<Rightarrow> s | a # as \<Rightarrow> s\<lparr>ps_arg := a, ps_args := as\<rparr>)"

definition addArgs :: "string list \<Rightarrow> parseState \<Rightarrow> parseState" where
  "addArgs args s = s\<lparr>ps_retargs := ps_retargs s @ args\<rparr>"

text \<open>The look-up tables: of two options with the same name the later one counts.\<close>

fun find_last :: "('a \<Rightarrow> bool) \<Rightarrow> 'a list \<Rightarrow> nat option" where
  "find_last P [] = None"
| "find_last P (x # xs) = (case find_last P xs of Some i \<Rightarrow> Some (Suc i) | None \<Rightarrow> if P x then Some 0 else None)"

definition longNames :: "FlagOption list \<Rightarrow> string \<Rightarrow> nat option" where
  "longNames opts name = find_last (\<lambda>option. op_Long option \<noteq> [] \<and> op_Long option = name) opts"

definition shortNames :: "FlagOption list \<Rightarrow> nat \<Rightarrow> nat option" where
  "shortNames opts c = find_last (\<lambda>option. op_Short option \<noteq> 0 \<and> op_Short option = c) opts"

text \<open>The result of \<open>set\<close> put back into the state; an error of a conversion becomes one of the package.\<close>

definition set_option :: "nat \<Rightarrow> string \<Rightarrow> (set_error option \<times> FlagOption) option \<Rightarrow> parseState \<Rightarrow> (flags_error option \<times> parseState) option" where
  "set_option i arg r s =
     (case r of
        None \<Rightarrow> None
      | Some (e, option) \<Rightarrow>
          Some (case e of None \<Rightarrow> None | Some (FlagErr e) \<Rightarrow> Some e | Some ConvertErr \<Rightarrow> Some (ErrMarshal (option_String option) arg),
            s\<lparr>ps_opts := (ps_opts s)[i := option]\<rparr>))"

definition set_argument :: "nat \<Rightarrow> string \<Rightarrow> parseState \<Rightarrow> (flags_error option \<times> parseState) option" where
  "set_argument i arg s =
     (let option = ps_opts s ! i in
      case (if tag_Get (op_tag option) ''unquote'' \<noteq> ''false'' then unquoteIfPossible arg else Some arg) of
        None \<Rightarrow> Some (Some (ErrMarshal (option_String option) arg), s)
      | Some arg \<Rightarrow> set_option i arg (option_set (Some arg) option) s)"

definition parseOption :: "Options \<Rightarrow> nat \<Rightarrow> bool \<Rightarrow> string option \<Rightarrow> parseState \<Rightarrow> (flags_error option \<times> parseState) option" where
  "parseOption flags i canarg argument s =
     (let option = ps_opts s ! i in
      if \<not> canArgument option then
        (if argument \<noteq> None then Some (Some (ErrNoArgumentForBool (option_String option)), s)
         else set_option i [] (option_set None option) s)
      else
        case argument of
          Some arg \<Rightarrow> set_argument i arg s
        | None \<Rightarrow>
            if canarg \<and> ps_args s \<noteq> [] then
              (let s = ps_pop s; arg = ps_arg s in
               if argumentIsOption arg \<or> (flag_on flags PassDoubleDash \<and> arg = ''--'') then
                 Some (Some (ErrExpectedArgument (option_String option) (Some arg)), s)
               else set_argument i arg s)
            else if op_Optional option then
              set_option i [] (set_until_error (op_OptionalValue option) (option_empty option)) s
            else Some (Some (ErrExpectedArgument (option_String option) None), s))"

definition parseLong :: "Options \<Rightarrow> string \<Rightarrow> string option \<Rightarrow> parseState \<Rightarrow> (flags_error option \<times> parseState) option" where
  "parseLong flags name argument s =
     (case longNames (ps_opts s) name of
        Some i \<Rightarrow> parseOption flags i (\<not> op_Optional (ps_opts s ! i)) argument s
      | None \<Rightarrow> Some (Some (ErrUnknownFlag name), s))"

definition splitShortConcatArg :: "parseState \<Rightarrow> string \<Rightarrow> string \<times> string option" where
  "splitShortConcatArg s optname =
     (case DecodeRune optname of
        (c, n) \<Rightarrow>
          if n = length optname then (optname, None)
          else
            case shortNames (ps_opts s) c of
              Some i \<Rightarrow> if canArgument (ps_opts s ! i) then (encode_rune c, Some (drop n optname)) else (optname, None)
            | None \<Rightarrow> (optname, None))"

text \<open>The letters of one argument; \<open>optname\<close> is what is left of it.\<close>

function parse_shorts :: "Options \<Rightarrow> string \<Rightarrow> string option \<Rightarrow> parseState \<Rightarrow> (flags_error option \<times> parseState) option" where
  "parse_shorts flags optname argument s =
     (if optname = [] then Some (None, s)
      else
        case DecodeRune optname of
          (c, n) \<Rightarrow>
            (case shortNames (ps_opts s) c of
               None \<Rightarrow> Some (Some (ErrUnknownFlag (encode_rune c)), s)
             | Some i \<Rightarrow>
                 (let canarg = (RuneLen c = length optname \<and> \<not> op_Optional (ps_opts s ! i)) in
                  case parseOption flags i canarg argument s of
                    None \<Rightarrow> None
                  | Some (Some e, s) \<Rightarrow> Some (Some e, s)
                  | Some (None, s) \<Rightarrow> parse_shorts flags (drop n optname) None s)))"
  by pat_completeness auto
termination
proof (relation "measure (\<lambda>(flags, optname, argument, s). length optname)", goal_cases)
  case (2 flags optname argument s a n)
  then have "snd (DecodeRune optname) = n" by (metis snd_conv)
  with 2 show ?case using DecodeRune_size [of optname] by simp
qed simp

declare parse_shorts.simps [simp del]

definition parseShort :: "Options \<Rightarrow> string \<Rightarrow> string option \<Rightarrow> parseState \<Rightarrow> (flags_error option \<times> parseState) option" where
  "parseShort flags optname argument s =
     (case argument of
        Some a \<Rightarrow> parse_shorts flags optname argument s
      | None \<Rightarrow> (case splitShortConcatArg s optname of (optname, argument) \<Rightarrow> parse_shorts flags optname argument s))"

definition parseNonOption :: "Options \<Rightarrow> parseState \<Rightarrow> parseState" where
  "parseNonOption flags s =
     (if flag_on flags PassAfterNonOption then (addArgs (ps_args s) (addArgs [ps_arg s] s))\<lparr>ps_args := []\<rparr>
      else addArgs [ps_arg s] s)"

text \<open>Parsing only takes arguments away.\<close>

lemma set_option_args [simp]: "set_option i arg r s = Some (e, s') \<Longrightarrow> ps_args s' = ps_args s"
  by (auto simp: set_option_def split: option.splits prod.splits)

lemma set_argument_args: "set_argument i arg s = Some (e, s') \<Longrightarrow> ps_args s' = ps_args s"
  by (auto simp: set_argument_def Let_def split: option.splits)

lemma ps_pop_args: "length (ps_args (ps_pop s)) \<le> length (ps_args s)"
  by (simp add: ps_pop_def split: list.splits)

lemma parseOption_args: "parseOption flags i canarg argument s = Some (e, s') \<Longrightarrow> length (ps_args s') \<le> length (ps_args s)"
  using ps_pop_args [of s]
  by (auto simp: parseOption_def Let_def split: option.splits if_splits dest!: set_argument_args)

lemma parse_shorts_args: "parse_shorts flags optname argument s = Some (e, s') \<Longrightarrow> length (ps_args s') \<le> length (ps_args s)"
proof (induction flags optname argument s arbitrary: s' rule: parse_shorts.induct)
  case (1 flags optname argument s)
  obtain c n where d: "DecodeRune optname = (c, n)" by (cases "DecodeRune optname")
  show ?case
  proof (cases "optname = [] \<or> shortNames (ps_opts s) c = None")
    case True
    with 1(2) d show ?thesis by (subst (asm) parse_shorts.simps) (auto split: if_splits)
  next
    case False
    then obtain i where i: "optname \<noteq> []" "shortNames (ps_opts s) c = Some i" by auto
    let ?r = "parseOption flags i (RuneLen c = length optname \<and> \<not> op_Optional (ps_opts s ! i)) argument s"
    obtain e1 s1 where r: "?r = Some (e1, s1)" using 1(2) d i by (subst (asm) parse_shorts.simps) (auto split: option.splits)
    have run: "parse_shorts flags optname argument s = (case e1 of Some e1 \<Rightarrow> Some (Some e1, s1) | None \<Rightarrow> parse_shorts flags (drop n optname) None s1)"
      using d i r by (subst parse_shorts.simps) (simp split: option.split)
    have "length (ps_args s1) \<le> length (ps_args s)" using parseOption_args [OF r] .
    moreover have "length (ps_args s') \<le> length (ps_args s1)" if "e1 = None"
      using 1(1) [OF i(1) d [symmetric] i(2) refl r refl that] 1(2) run that by simp
    ultimately show ?thesis using run 1(2) by (cases e1) auto
  qed
qed

lemma parseLong_args: "parseLong flags name argument s = Some (e, s') \<Longrightarrow> length (ps_args s') \<le> length (ps_args s)"
  by (auto simp: parseLong_def split: option.splits dest: parseOption_args)

lemma parseShort_args: "parseShort flags name argument s = Some (e, s') \<Longrightarrow> length (ps_args s') \<le> length (ps_args s)"
  by (auto simp: parseShort_def split: option.splits prod.splits dest: parse_shorts_args)

definition parse_arg :: "Options \<Rightarrow> string \<Rightarrow> parseState \<Rightarrow> (flags_error option \<times> parseState) option" where
  "parse_arg flags arg s =
     (case stripOptionPrefix arg of
        (prefix, optname, islong) \<Rightarrow>
          (case splitOption optname islong of
             (optname, argument) \<Rightarrow> if islong then parseLong flags optname argument s else parseShort flags optname argument s))"

lemma parse_arg_args: "parse_arg flags arg s = Some (e, s') \<Longrightarrow> length (ps_args s') \<le> length (ps_args s)"
  by (auto simp: parse_arg_def split: prod.splits if_splits dest: parseLong_args parseShort_args)


function parse_loop :: "Options \<Rightarrow> parseState \<Rightarrow> (flags_error option \<times> parseState) option" where
  "parse_loop flags s =
     (if ps_args s = [] then Some (None, s)
      else
        let s = ps_pop s; arg = ps_arg s in
        if flag_on flags PassDoubleDash \<and> arg = ''--'' then Some (None, addArgs (ps_args s) s)
        else if \<not> argumentIsOption arg then parse_loop flags (parseNonOption flags s)
        else
          case parse_arg flags arg s of
            None \<Rightarrow> None
          | Some (None, s) \<Rightarrow> parse_loop flags s
          | Some (Some (ErrUnknownFlag name), s) \<Rightarrow>
              if flag_on flags IgnoreUnknown then parse_loop flags (addArgs [arg] s) else Some (Some (ErrUnknownFlag name), s)
          | Some (Some e, s) \<Rightarrow> Some (Some e, s))"
  by pat_completeness auto
termination
  by (relation "measure (\<lambda>(flags, s). length (ps_args s))")
    (auto simp: ps_pop_def parseNonOption_def addArgs_def split: list.splits dest!: parse_arg_args)

declare parse_loop.simps [simp del]

text \<open>Defaults and required options.\<close>

fun clear_defaults :: "(string \<rightharpoonup> string) \<Rightarrow> FlagOption list \<Rightarrow> FlagOption list option" where
  "clear_defaults env [] = Some []"
| "clear_defaults env (option # options) =
     (case (if op_preventDefault option then Some option else clearDefault env option) of
        None \<Rightarrow> None
      | Some option \<Rightarrow> map_option (\<lambda>options. option # options) (clear_defaults env options))"

definition checkRequired :: "FlagOption list \<Rightarrow> flags_error option" where
  "checkRequired opts =
     (let required = filter (\<lambda>option. \<not> op_isSet option \<and> op_Required option) opts in
      if required = [] then None
      else Some (ErrRequired (sort (map (\<lambda>option. CHR 0x60 # option_String option @ [CHR 0x27]) required))))"

definition help_option :: FlagOption where
  "help_option =
     \<lparr>op_Short = 104, op_Long = ''help'', op_Default = [], op_EnvKey = [], op_EnvDelim = [], op_Optional = False, op_OptionalValue = [],
      op_Required = False, op_Choices = [], op_field = ''ShowHelp'', op_kind = KFunc, op_value = FvFunc,
      op_tag = [''short'' \<mapsto> [''h''], ''long'' \<mapsto> [''help''], ''description'' \<mapsto> [''Show this help message'']], op_isSet = False, op_preventDefault = False\<rparr>"

text \<open>
  \<open>ParseArgs\<close>. With \<open>GO_FLAGS_COMPLETION\<close> in the environment it prints completions and ends the program (\<open>Completed\<close>). The error that it returns
  has also been printed, when the option for it is set.
\<close>

datatype parse_outcome = Completed | Parsed "string list" | Failed "string list" flags_error

definition ParseArgs ::
  "(string \<rightharpoonup> string) \<Rightarrow> Options \<Rightarrow> FlagOption list \<Rightarrow> string list \<Rightarrow> (parse_outcome \<times> FlagOption list \<times> flags_error list) option" where
  "ParseArgs env flags opts args =
     (let opts = map (\<lambda>option. option\<lparr>op_isSet := False\<rparr>) opts @ (if flag_on flags HelpFlag then [help_option] else []);
          fail = (\<lambda>e s. Some (Failed (if e = ErrHelp then ps_args s else ps_arg s # ps_args s) e, ps_opts s,
                    if flag_on flags PrintErrors then [e] else [])) in
      if env ''GO_FLAGS_COMPLETION'' \<noteq> None \<and> env ''GO_FLAGS_COMPLETION'' \<noteq> Some [] then Some (Completed, opts, [])
      else
        case parse_loop flags \<lparr>ps_arg = [], ps_args = args, ps_retargs = [], ps_opts = opts\<rparr> of
          None \<Rightarrow> None
        | Some (Some e, s) \<Rightarrow> fail e s
        | Some (None, s) \<Rightarrow>
            (case clear_defaults env (ps_opts s) of
               None \<Rightarrow> None
             | Some opts \<Rightarrow>
                 (let s = s\<lparr>ps_opts := opts\<rparr> in
                  case checkRequired opts of
                    Some e \<Rightarrow> fail e s
                  | None \<Rightarrow> Some (Parsed (ps_retargs s), opts, []))))"

text \<open>The package's \<open>ParseArgs\<close>: a new parser with the default settings over a struct. An error of the struct itself is returned without being printed.\<close>

definition flags_ParseArgs ::
  "(string \<rightharpoonup> string) \<Rightarrow> struct_field list \<Rightarrow> string list \<Rightarrow> (parse_outcome \<times> FlagOption list \<times> flags_error list) option" where
  "flags_ParseArgs env fs args =
     (case group_scan fs of
        Inl e \<Rightarrow> Some (Failed [] e, [], [])
      | Inr opts \<Rightarrow> ParseArgs env DefaultOptions opts args)"


section \<open>Settings on the command line\<close>

text \<open>
  Options that take one value, and what they are after some of them were set: \<open>m\<close> gives the values set, by long name. Every such option
  of a command line \<open>--name=value\<close> is set in turn.
\<close>

definition takes_value :: "FlagOption \<Rightarrow> bool" where
  "takes_value option \<longleftrightarrow> op_Long option \<noteq> [] \<and> op_Choices option = [] \<and>
     (case op_kind option of KString \<Rightarrow> True | KInt _ \<Rightarrow> True | KUint _ \<Rightarrow> True | _ \<Rightarrow> False)"

definition given :: "(string \<rightharpoonup> field_value) \<Rightarrow> FlagOption \<Rightarrow> FlagOption" where
  "given m option =
     (case m (op_Long option) of
        None \<Rightarrow> option
      | Some v \<Rightarrow> option\<lparr>op_isSet := True, op_preventDefault := True, op_value := v\<rparr>)"

lemma given_sel [simp]:
  "op_Long (given m option) = op_Long option" "op_Short (given m option) = op_Short option" "op_kind (given m option) = op_kind option"
  "op_tag (given m option) = op_tag option" "op_Choices (given m option) = op_Choices option" "op_Optional (given m option) = op_Optional option"
  "op_Required (given m option) = op_Required option" "op_field (given m option) = op_field option"
  "op_isSet (given m option) \<longleftrightarrow> m (op_Long option) \<noteq> None \<or> op_isSet option"
  "op_preventDefault (given m option) \<longleftrightarrow> m (op_Long option) \<noteq> None \<or> op_preventDefault option"
  by (auto simp: given_def split: option.splits)

lemma given_empty [simp]: "given Map.empty = (\<lambda>option. option)"
  by (simp add: given_def fun_eq_iff)

lemma given_other: "op_Long option \<noteq> k \<Longrightarrow> given (m(k \<mapsto> v)) option = given m option"
  by (simp add: given_def)

lemma convert_fresh: "takes_value option \<Longrightarrow> convert v (op_kind option) tag x = convert v (op_kind option) tag y"
  by (cases "op_kind option") (auto simp: takes_value_def)

lemma option_set_given:
  assumes "takes_value option" and "convert v (op_kind option) (op_tag option) x = Some val"
  shows "option_set (Some v) (given m option) = Some (None, given (m(op_Long option \<mapsto> val)) option)"
proof -
  have "convert v (op_kind option) (op_tag option) y = Some val" for y using convert_fresh [OF assms(1)] assms(2) by metis
  moreover have "op_kind option \<noteq> KFunc" "(case op_kind option of KSlice k \<Rightarrow> a | _ \<Rightarrow> b) = b" for a b :: FlagOption
    using assms(1) by (auto simp: takes_value_def split: kind.splits)
  ultimately show ?thesis using assms(1) by (simp add: option_set_def Let_def takes_value_def given_def split: option.split)
qed

lemma find_last_unique:
  "i < length xs \<Longrightarrow> P (xs ! i) \<Longrightarrow> (\<And>j. j < length xs \<Longrightarrow> P (xs ! j) \<Longrightarrow> j = i) \<Longrightarrow> find_last P xs = Some i"
proof (induction xs arbitrary: i)
  case (Cons x xs)
  show ?case
  proof (cases i)
    case 0
    have "\<not> P y" if "y \<in> set xs" for y
      using Cons.prems(3) [of "Suc _"] that 0 by (metis Zero_not_Suc in_set_conv_nth length_Cons not_less_eq nth_Cons_Suc)
    moreover have "(\<forall>y \<in> set ys. \<not> P y) \<Longrightarrow> find_last P ys = None" for ys by (induction ys) auto
    ultimately show ?thesis using 0 Cons.prems(2) by simp
  next
    case (Suc j)
    have uniq: "n = j" if "n < length xs" "P (xs ! n)" for n using Cons.prems(3) [of "Suc n"] that Suc by simp
    have "j < length xs" "P (xs ! j)" using Cons.prems(1,2) Suc by simp_all
    then have "find_last P xs = Some j" using uniq by (rule Cons.IH)
    with Suc show ?thesis by simp
  qed
qed simp

lemma longNames_given:
  assumes "distinct (map op_Long opts)" "i < length opts" "op_Long (opts ! i) \<noteq> []"
  shows "longNames (map (given m) opts) (op_Long (opts ! i)) = Some i"
  unfolding longNames_def
proof (rule find_last_unique)
  fix j assume "j < length (map (given m) opts)"
    "op_Long (map (given m) opts ! j) \<noteq> [] \<and> op_Long (map (given m) opts ! j) = op_Long (opts ! i)"
  then show "j = i" using assms(1,2) by (auto simp: distinct_conv_nth)
qed (use assms in auto)

lemma update_given:
  assumes "distinct (map op_Long opts)" "i < length opts"
  shows "(map (given m) opts)[i := given (m(op_Long (opts ! i) \<mapsto> v)) (opts ! i)] = map (given (m(op_Long (opts ! i) \<mapsto> v))) opts"
proof (rule nth_equalityI)
  fix j assume j: "j < length ((map (given m) opts)[i := given (m(op_Long (opts ! i) \<mapsto> v)) (opts ! i)])"
  show "(map (given m) opts)[i := given (m(op_Long (opts ! i) \<mapsto> v)) (opts ! i)] ! j = map (given (m(op_Long (opts ! i) \<mapsto> v))) opts ! j"
  proof (cases "j = i")
    case False
    with assms j have "op_Long (opts ! j) \<noteq> op_Long (opts ! i)" by (simp add: distinct_conv_nth)
    with False j show ?thesis by (simp add: given_other)
  qed (use j in simp)
qed simp

definition setting_line :: "string \<times> string \<Rightarrow> string" where
  "setting_line kv = ''--'' @ fst kv @ ''='' @ snd kv"

text \<open>A setting of an option: its value is converted to the text, and is no quoted text.\<close>

definition setting_of :: "FlagOption list \<Rightarrow> string \<times> string \<Rightarrow> field_value \<Rightarrow> bool" where
  "setting_of opts kv val \<longleftrightarrow> (\<exists>option \<in> set opts. op_Long option = fst kv \<and> takes_value option \<and>
     convert (snd kv) (op_kind option) (op_tag option) (op_value option) = Some val) \<and>
     fst kv \<noteq> [] \<and> hd (fst kv) \<noteq> CHR ''-'' \<and> CHR ''='' \<notin> set (fst kv) \<and> (snd kv = [] \<or> hd (snd kv) \<noteq> CHR 0x22)"

lemma Index_char: "c \<notin> set k \<Longrightarrow> Index (k @ c # v) [c] = Some (length k)"
  by (induction k) (auto simp: HasPrefix_def)

lemma setting_line_parts:
  assumes "fst kv \<noteq> []" "hd (fst kv) \<noteq> CHR ''-''" "CHR ''='' \<notin> set (fst kv)"
  shows "argumentIsOption (setting_line kv)" "setting_line kv \<noteq> ''--''"
    "parse_arg flags (setting_line kv) s = parseLong flags (fst kv) (Some (snd kv)) s"
proof -
  obtain c k where k: "fst kv = c # k" using assms(1) by (cases "fst kv") auto
  with assms(2) show "argumentIsOption (setting_line kv)" "setting_line kv \<noteq> ''--''" by (simp_all add: argumentIsOption_def setting_line_def)
  have "splitOption (fst kv @ ''='' @ snd kv) True = (fst kv, Some (snd kv))"
    using Index_char [OF assms(3), of "snd kv"] by (simp add: splitOption_def)
  then show "parse_arg flags (setting_line kv) s = parseLong flags (fst kv) (Some (snd kv)) s"
    by (simp add: parse_arg_def stripOptionPrefix_def setting_line_def HasPrefix_def)
qed

lemma parse_setting:
  assumes dist: "distinct (map op_Long opts)" and ok: "setting_of opts kv val" and s: "ps_opts s = map (given m) opts"
  shows "parse_arg flags (setting_line kv) s = Some (None, s\<lparr>ps_opts := map (given (m(fst kv \<mapsto> val))) opts\<rparr>)"
proof -
  obtain option where opt: "option \<in> set opts" "op_Long option = fst kv" "takes_value option"
    "convert (snd kv) (op_kind option) (op_tag option) (op_value option) = Some val"
    and kv: "fst kv \<noteq> []" "hd (fst kv) \<noteq> CHR ''-''" "CHR ''='' \<notin> set (fst kv)" "snd kv = [] \<or> hd (snd kv) \<noteq> CHR 0x22"
    using ok by (auto simp: setting_of_def)
  then obtain i where i: "i < length opts" "opts ! i = option" by (auto simp: in_set_conv_nth)
  have idx: "longNames (ps_opts s) (fst kv) = Some i" using longNames_given [OF dist i(1), of m] opt(2) kv(1) i(2) s by simp
  have unq: "(if tag_Get t ''unquote'' \<noteq> ''false'' then unquoteIfPossible (snd kv) else Some (snd kv)) = Some (snd kv)" for t
    using kv(4) by (auto simp: unquoteIfPossible_def)
  have can: "canArgument option" using opt(3) by (auto simp: canArgument_def isBool_def takes_value_def split: kind.splits)
  have nth: "ps_opts s ! i = given m option" using s i by simp
  have "set_argument i (snd kv) s = Some (None, s\<lparr>ps_opts := map (given (m(fst kv \<mapsto> val))) opts\<rparr>)"
    using option_set_given [OF opt(3,4), of m] update_given [OF dist i(1), of m val] opt(2) i s
    by (simp add: set_argument_def set_option_def unq)
  moreover have "canArgument (given m option) = canArgument option" by (simp add: canArgument_def isBool_def)
  ultimately have "parseLong flags (fst kv) (Some (snd kv)) s = Some (None, s\<lparr>ps_opts := map (given (m(fst kv \<mapsto> val))) opts\<rparr>)"
    using idx can by (simp add: parseLong_def parseOption_def nth)
  with setting_line_parts(3) [OF kv(1-3)] show ?thesis by simp
qed

lemma parse_settings:
  assumes dist: "distinct (map op_Long opts)"
  shows "list_all2 (setting_of opts) kvs vals \<Longrightarrow> ps_args s = map setting_line kvs \<Longrightarrow> ps_opts s = map (given m) opts \<Longrightarrow>
    \<exists>s'. parse_loop flags s = Some (None, s') \<and> ps_retargs s' = ps_retargs s \<and> ps_args s' = [] \<and>
      ps_opts s' = map (given (m ++ map_of (rev (zip (map fst kvs) vals)))) opts"
proof (induction kvs vals arbitrary: s m rule: list_all2_induct)
  case Nil
  then show ?case by (subst parse_loop.simps) simp
next
  case (Cons kv kvs val vals)
  let ?s = "s\<lparr>ps_arg := setting_line kv, ps_args := map setting_line kvs\<rparr>"
  have pop: "ps_pop s = ?s" using Cons.prems(1) by (simp add: ps_pop_def)
  have line: "argumentIsOption (setting_line kv)" "setting_line kv \<noteq> ''--''"
    using setting_line_parts(1,2) Cons.hyps(1) by (auto simp: setting_of_def)
  have step: "parse_loop flags s = parse_loop flags (?s\<lparr>ps_opts := map (given (m(fst kv \<mapsto> val))) opts\<rparr>)"
    using parse_setting [OF dist Cons.hyps(1), of ?s m flags] Cons.prems line
    by (subst parse_loop.simps) (simp add: pop)
  let ?m = "m(fst kv \<mapsto> val)"
  have st: "ps_args (?s\<lparr>ps_opts := map (given ?m) opts\<rparr>) = map setting_line kvs"
    "ps_opts (?s\<lparr>ps_opts := map (given ?m) opts\<rparr>) = map (given ?m) opts" by simp_all
  have "\<exists>s'. parse_loop flags (?s\<lparr>ps_opts := map (given ?m) opts\<rparr>) = Some (None, s') \<and> ps_retargs s' = ps_retargs (?s\<lparr>ps_opts := map (given ?m) opts\<rparr>) \<and>
      ps_args s' = [] \<and> ps_opts s' = map (given (?m ++ map_of (rev (zip (map fst kvs) vals)))) opts"
    using st by (rule Cons.IH)
  moreover have "m ++ map_of (rev (zip (map fst (kv # kvs)) (val # vals))) = m(fst kv \<mapsto> val) ++ map_of (rev (zip (map fst kvs) vals))"
    by (simp add: map_add_assoc)
  ultimately show ?case unfolding step by simp
qed


section \<open>Where a value comes from\<close>

text \<open>
  Options with at most one default and one variable of the environment. The value comes from the command line, else from the variable, else
  from the default; a variable or a default that cannot be converted leaves the zero value.
\<close>

definition plain_option :: "FlagOption \<Rightarrow> bool" where
  "plain_option option \<longleftrightarrow> \<not> op_isSet option \<and> \<not> op_preventDefault option \<and> op_EnvDelim option = [] \<and> length (op_Default option) \<le> 1 \<and>
     (takes_value option \<and> op_value option = emptyValue (op_kind option) \<or> op_EnvKey option = [] \<and> op_Default option = [])"

definition converted :: "FlagOption \<Rightarrow> string \<Rightarrow> field_value" where
  "converted option t = (case convert t (op_kind option) (op_tag option) (emptyValue (op_kind option)) of Some v \<Rightarrow> v | None \<Rightarrow> emptyValue (op_kind option))"

definition source :: "(string \<rightharpoonup> string) \<Rightarrow> (string \<rightharpoonup> field_value) \<Rightarrow> FlagOption \<Rightarrow> field_value option" where
  "source env m option =
     (case m (op_Long option) of
        Some v \<Rightarrow> Some v
      | None \<Rightarrow>
          (case (if op_EnvKey option = [] then None else env (op_EnvKey option)) of
             Some t \<Rightarrow> Some (converted option t)
           | None \<Rightarrow> (case op_Default option of [] \<Rightarrow> None | t # _ \<Rightarrow> Some (converted option t))))"

definition settled :: "(string \<rightharpoonup> string) \<Rightarrow> (string \<rightharpoonup> field_value) \<Rightarrow> FlagOption \<Rightarrow> FlagOption" where
  "settled env m option = given (\<lambda>_. source env m option) option"

lemma set_each_converted:
  assumes "takes_value option"
  shows "set_each [t] (option_empty option) = Some (given (\<lambda>_. Some (converted option t)) option)"
proof -
  let ?z = "emptyValue (op_kind option)"
  have k: "op_kind option \<noteq> KFunc" "(case op_kind option of KSlice k \<Rightarrow> a | _ \<Rightarrow> b) = b" "op_Choices option = []" for a b :: FlagOption
    using assms by (auto simp: takes_value_def split: kind.splits)
  show ?thesis
    by (cases "convert t (op_kind option) (op_tag option) ?z")
      (simp_all add: option_empty_def option_set_def k Let_def converted_def given_def)
qed

lemma clearDefault_settled:
  assumes "plain_option option"
  shows "(if op_preventDefault (given m option) then Some (given m option) else clearDefault env (given m option)) = Some (settled env m option)"
proof (cases "m (op_Long option)")
  case (Some v)
  then show ?thesis by (simp add: settled_def source_def given_def)
next
  case None
  then have g: "given m option = option" by (simp add: given_def)
  have len: "op_Default option = [] \<or> (\<exists>t. op_Default option = [t])"
    using assms by (cases "op_Default option") (auto simp: plain_option_def)
  show ?thesis
    using assms set_each_converted [of option] len None
    by (auto simp: g plain_option_def clearDefault_def settled_def source_def given_def [of "\<lambda>_. None"] Let_def
        simp del: set_each.simps split: option.splits)
qed

lemma clear_defaults_settled: "list_all plain_option opts \<Longrightarrow> clear_defaults env (map (given m) opts) = Some (map (settled env m) opts)"
  by (induction opts) (auto simp: clearDefault_settled simp del: given_sel)

lemma option_String_settled [simp]: "option_String (settled env m option) = option_String option"
  by (simp add: settled_def option_String_def)

definition missing :: "(string \<rightharpoonup> string) \<Rightarrow> (string \<rightharpoonup> field_value) \<Rightarrow> FlagOption list \<Rightarrow> FlagOption list" where
  "missing env m opts = filter (\<lambda>option. op_Required option \<and> source env m option = None) opts"

definition quoted_option :: "FlagOption \<Rightarrow> string" where
  "quoted_option option = CHR 0x60 # option_String option @ [CHR 0x27]"

lemma checkRequired_settled:
  assumes "list_all plain_option opts"
  shows "checkRequired (map (settled env m) opts) =
    (if missing env m opts = [] then None else Some (ErrRequired (sort (map quoted_option (missing env m opts)))))"
proof -
  have "filter (\<lambda>option. \<not> op_isSet option \<and> op_Required option) (map (settled env m) opts) = map (settled env m) (missing env m opts)"
    using assms by (induction opts) (auto simp: missing_def settled_def plain_option_def)
  then show ?thesis by (simp add: checkRequired_def Let_def quoted_option_def [abs_def] comp_def)
qed

definition no_completion :: "(string \<rightharpoonup> string) \<Rightarrow> bool" where
  "no_completion env \<longleftrightarrow> env ''GO_FLAGS_COMPLETION'' = None \<or> env ''GO_FLAGS_COMPLETION'' = Some []"

lemma help_option_plain [simp]: "plain_option help_option" "op_Long help_option = ''help''" "\<not> op_Required help_option"
  by (simp_all add: help_option_def plain_option_def)

lemma DefaultOptions_on [simp]: "flag_on DefaultOptions HelpFlag" "flag_on DefaultOptions PrintErrors" "flag_on DefaultOptions PassDoubleDash"
  "\<not> flag_on DefaultOptions IgnoreUnknown" "\<not> flag_on DefaultOptions PassAfterNonOption"
  by (simp_all add: flag_on_def DefaultOptions_def HelpFlag_def PrintErrors_def PassDoubleDash_def IgnoreUnknown_def PassAfterNonOption_def)

text \<open>
  What a command line of settings \<open>--name=value\<close> makes of the options of a struct. Every value comes from the last setting on the
  command line, else from the environment, else from the default, and the arguments that are no options are returned; but if a required
  option has none of the three, the parser fails and names every such option in order.
\<close>

lemma ParseArgs_settings:
  assumes "list_all plain_option opts" and "distinct (map op_Long (opts @ [help_option]))"
    and "list_all2 (setting_of opts) kvs vals" and "no_completion env" and "\<not> argumentIsOption prog" "prog \<noteq> ''--''"
  shows "let m = map_of (rev (zip (map fst kvs) vals)); r = ParseArgs env DefaultOptions opts (prog # map setting_line kvs) in
    if missing env m opts = [] then r = Some (Parsed [prog], map (settled env m) (opts @ [help_option]), [])
    else \<exists>rest opts'. let e = ErrRequired (sort (map quoted_option (missing env m opts))) in r = Some (Failed rest e, opts', [e])"
proof -
  let ?opts = "opts @ [help_option]" and ?m = "map_of (rev (zip (map fst kvs) vals))"
  let ?s0 = "\<lparr>ps_arg = [], ps_args = prog # map setting_line kvs, ps_retargs = [], ps_opts = ?opts\<rparr>"
  let ?s1 = "\<lparr>ps_arg = prog, ps_args = map setting_line kvs, ps_retargs = [prog], ps_opts = ?opts\<rparr>"
  have fresh: "map (\<lambda>option. option\<lparr>op_isSet := False\<rparr>) opts = opts"
    using assms(1) by (induction opts) (auto simp: plain_option_def)
  have plain: "list_all plain_option ?opts" using assms(1) by simp
  have "setting_of opts kv val \<Longrightarrow> setting_of ?opts kv val" for kv val by (auto simp: setting_of_def)
  then have kvs: "list_all2 (setting_of ?opts) kvs vals" using assms(3) list_all2_mono by blast
  have "parse_loop DefaultOptions ?s0 = parse_loop DefaultOptions ?s1"
    using assms(5,6) by (subst parse_loop.simps) (simp add: ps_pop_def parseNonOption_def addArgs_def Let_def)
  moreover obtain s where "parse_loop DefaultOptions ?s1 = Some (None, s)" "ps_retargs s = [prog]" "ps_args s = []"
    "ps_opts s = map (given ?m) ?opts"
    using parse_settings [OF assms(2) kvs, of ?s1 Map.empty DefaultOptions] by auto
  moreover have "missing env ?m ?opts = missing env ?m opts" by (simp add: missing_def)
  ultimately show ?thesis
    using assms(4) clear_defaults_settled [OF plain, of env ?m] checkRequired_settled [OF plain, of env ?m]
    by (auto simp: ParseArgs_def Let_def fresh no_completion_def)
qed

end
