(* ===== verification/Arla_Main.thy ===== *)
theory Arla_Main
  imports Flags_Parser Server_Lifecycle
begin

text \<open>
  The program: the options of \<open>Config\<close> as its struct tags describe them, and \<open>main\<close> (\<open>main.go\<close>), which parses the command line into a
  configuration and runs the server. The environment is a map, as \<open>syscall.Getenv\<close> reads it.
\<close>

section \<open>The configuration\<close>

definition tag_of :: "string \<Rightarrow> string \<Rightarrow> string" where
  "tag_of key val = key @ '':'' @ [CHR 0x22] @ val @ [CHR 0x22]"

definition config_field :: "string \<Rightarrow> kind \<Rightarrow> string \<Rightarrow> struct_field" where
  "config_field name k tag = \<lparr>f_Name = name, f_Tag = tag, f_kind = k, f_exported = True, f_value = emptyValue k\<rparr>"

definition Config_fields :: "struct_field list" where
  "Config_fields =
    [config_field ''ConfigPath'' KString (Join [tag_of ''long'' ''config-path'', tag_of ''description'' ''path to the javascript config file'',
       tag_of ''default'' ''./config.js'', tag_of ''env'' ''ARLA_CONFIG_PATH''] '' ''),
     config_field ''Secret'' KString (Join [tag_of ''long'' ''secret'', tag_of ''description'' ''secret to use for signing authentication tokens'',
       tag_of ''required'' ''true'', tag_of ''env'' ''ARLA_SECRET''] '' ''),
     config_field ''DataDir'' KString (Join [tag_of ''long'' ''data-dir'', tag_of ''description'' ''path to persistant data storage'',
       tag_of ''default'' ''/var/state'', tag_of ''required'' ''true'', tag_of ''env'' ''ARLA_DATA_DIR''] '' ''),
     config_field ''ListenAddr'' KString (Join [tag_of ''long'' ''listen-addr'', tag_of ''description'' ''address and port to bind http server to'',
       tag_of ''default'' '':80'', tag_of ''required'' ''true'', tag_of ''env'' ''ARLA_LISTEN_ADDR''] '' ''),
     config_field ''GraceDuration'' (KInt 64) (Join [tag_of ''long'' ''grace-duration'',
       tag_of ''description'' ''time allowed in seconds to finish serving requests during shutdown'',
       tag_of ''default'' ''1'', tag_of ''required'' ''true'', tag_of ''env'' ''ARLA_GRACE_DURATION''] '' ''),
     config_field ''MaxConnections'' (KInt 64) (Join [tag_of ''long'' ''max-connections'', tag_of ''description'' ''max number of database connections'',
       tag_of ''default'' ''100'', tag_of ''required'' ''true'', tag_of ''env'' ''ARLA_MAX_CONNECTIONS''] '' ''),
     config_field ''Debug'' KBool (Join [tag_of ''long'' ''debug'', tag_of ''description'' ''enable verbose debug error logging''] '' '')]"

text \<open>The values of the fields after parsing.\<close>

definition field_of :: "FlagOption list \<Rightarrow> string \<Rightarrow> field_value option" where
  "field_of opts name = map_option op_value (List.find (\<lambda>option. op_field option = name) opts)"

definition text_of :: "FlagOption list \<Rightarrow> string \<Rightarrow> string" where
  "text_of opts name = (case field_of opts name of Some (FvString s) \<Rightarrow> s | _ \<Rightarrow> [])"

definition number_of :: "FlagOption list \<Rightarrow> string \<Rightarrow> int" where
  "number_of opts name = (case field_of opts name of Some (FvInt n) \<Rightarrow> n | _ \<Rightarrow> 0)"

definition config_of :: "FlagOption list \<Rightarrow> ServerConfig" where
  "config_of opts = \<lparr>sv_ConfigPath = text_of opts ''ConfigPath'', sv_Secret = text_of opts ''Secret'', sv_DataDir = text_of opts ''DataDir'',
     sv_ListenAddr = text_of opts ''ListenAddr'', sv_GraceDuration = number_of opts ''GraceDuration'',
     sv_MaxConnections = number_of opts ''MaxConnections'', sv_Debug = (field_of opts ''Debug'' = Some (FvBool True))\<rparr>"

section \<open>The program\<close>

text \<open>What is printed on the standard error. \<open>file\<close> is what the log of an earlier run holds.\<close>

datatype diagnostic = ParserError flags_error | ServerError go_error

definition arla_main ::
  "strconv \<Rightarrow> 'os os_api \<Rightarrow> string \<Rightarrow> bool \<Rightarrow> string \<Rightarrow> (string \<rightharpoonup> string) \<Rightarrow> string list \<Rightarrow> 'os \<Rightarrow>
     (nat \<times> diagnostic list \<times> postgres Server option \<times> 'os) option" where
  "arla_main sc api script can_open file env args os =
     (case flags_ParseArgs env Config_fields args of
        None \<Rightarrow> None
      | Some (Completed, opts, printed) \<Rightarrow> Some (0, [], None, os)
      | Some (Failed rest e, opts, printed) \<Rightarrow> Some (1, map ParserError (printed @ [e]), None, os)
      | Some (Parsed rest, opts, printed) \<Rightarrow>
          (case server_Run sc api script can_open ((new_server (config_of opts))\<lparr>s_file := file\<rparr>) os of
             None \<Rightarrow> None
           | Some (Some e, s, os) \<Rightarrow> Some (1, [ServerError e], Some s, os)
           | Some (None, s, os) \<Rightarrow> Some (0, [], Some s, os)))"

section \<open>The options of the program\<close>

text \<open>Tags are read back as they are written.\<close>

lemma tag_value_plain: "CHR 0x22 \<notin> set v \<Longrightarrow> CHR 0x5C \<notin> set v \<Longrightarrow> CHR 0x0A \<notin> set v \<Longrightarrow> tag_value (v @ CHR 0x22 # rest) = Some (v, rest)"
  by (induction v) auto

lemma scan_tag_of:
  assumes "list_all (\<lambda>c. \<not> is_key_end c) key" and "CHR 0x22 \<notin> set v" "CHR 0x5C \<notin> set v" "CHR 0x0A \<notin> set v"
  shows "scan_tag (tag_of key v @ rest) ret = scan_tag rest (ret(key \<mapsto> (case ret key of None \<Rightarrow> [] | Some vs \<Rightarrow> vs) @ [v]))"
proof -
  have d: "dropWhile (\<lambda>c. c = CHR '' '') (tag_of key v @ rest) = tag_of key v @ rest"
    using assms(1) by (cases key) (auto simp: tag_of_def is_key_end_def)
  have t: "takeWhile (\<lambda>c. \<not> is_key_end c) (tag_of key v @ rest) = key"
    "dropWhile (\<lambda>c. \<not> is_key_end c) (tag_of key v @ rest) = CHR '':'' # CHR 0x22 # v @ CHR 0x22 # rest"
    using assms(1) by (auto simp: tag_of_def is_key_end_def takeWhile_tail takeWhile_append dropWhile_append list_all_iff)
  have u: "Unquote (CHR 0x22 # v @ [CHR 0x22]) = Some v" using assms(2-4) by (simp add: Unquote_def Let_def)
  show ?thesis
    by (subst scan_tag.simps) (simp add: d t u tag_value_plain [OF assms(2-4)] Let_def, simp add: tag_of_def)
qed

lemma scan_tag_space: "scan_tag (CHR '' '' # v) ret = scan_tag v ret"
  by (subst (1 2) scan_tag.simps) simp

lemma scan_tag_end: "scan_tag [] ret = Some ret"
  by (subst scan_tag.simps) simp

definition Config_tags :: "multiTag list" where
  "Config_tags =
    [[''long'' \<mapsto> [''config-path''], ''description'' \<mapsto> [''path to the javascript config file''], ''default'' \<mapsto> [''./config.js''], ''env'' \<mapsto> [''ARLA_CONFIG_PATH'']],
     [''long'' \<mapsto> [''secret''], ''description'' \<mapsto> [''secret to use for signing authentication tokens''], ''required'' \<mapsto> [''true''], ''env'' \<mapsto> [''ARLA_SECRET'']],
     [''long'' \<mapsto> [''data-dir''], ''description'' \<mapsto> [''path to persistant data storage''], ''default'' \<mapsto> [''/var/state''], ''required'' \<mapsto> [''true''],
       ''env'' \<mapsto> [''ARLA_DATA_DIR'']],
     [''long'' \<mapsto> [''listen-addr''], ''description'' \<mapsto> [''address and port to bind http server to''], ''default'' \<mapsto> ['':80''], ''required'' \<mapsto> [''true''],
       ''env'' \<mapsto> [''ARLA_LISTEN_ADDR'']],
     [''long'' \<mapsto> [''grace-duration''], ''description'' \<mapsto> [''time allowed in seconds to finish serving requests during shutdown''],
       ''default'' \<mapsto> [''1''], ''required'' \<mapsto> [''true''], ''env'' \<mapsto> [''ARLA_GRACE_DURATION'']],
     [''long'' \<mapsto> [''max-connections''], ''description'' \<mapsto> [''max number of database connections''], ''default'' \<mapsto> [''100''], ''required'' \<mapsto> [''true''],
       ''env'' \<mapsto> [''ARLA_MAX_CONNECTIONS'']],
     [''long'' \<mapsto> [''debug''], ''description'' \<mapsto> [''enable verbose debug error logging'']]]"

text \<open>A field with a long name and no short one, and the option it makes.\<close>

definition named_field :: "struct_field \<Rightarrow> multiTag \<Rightarrow> bool" where
  "named_field f t \<longleftrightarrow> scan_tag (f_Tag f) Map.empty = Some t \<and> f_exported f \<and> tag_Get t ''no-flag'' = [] \<and> tag_Get t ''long'' \<noteq> [] \<and>
     tag_Get t ''short'' = [] \<and> (kind_isBool (f_kind f) \<longrightarrow> t ''default'' = None)"

lemma scanStruct_named: "list_all2 named_field fs ts \<Longrightarrow> scanStruct fs = Inr (map2 (\<lambda>f t. field_option f t 0) fs ts)"
proof (induction fs ts rule: list_all2_induct)
  case (Cons f fs t ts)
  have "scan_field f = Inr (Some (field_option f t 0))"
    using Cons.hyps(1) by (auto simp: scan_field_def named_field_def Let_def field_option_def isBool_def tag_GetMany_def RuneCount.simps)
  with Cons.IH show ?case by simp
qed simp

lemma Config_named: "list_all2 named_field Config_fields Config_tags"
  by (simp add: Config_fields_def config_field_def Config_tags_def named_field_def tag_Get_def is_key_end_def
      scan_tag_of scan_tag_of [where rest = "[]", simplified] scan_tag_space scan_tag_end)

definition config_options :: "FlagOption list" where
  "config_options = map2 (\<lambda>f t. field_option f t 0) Config_fields Config_tags"

lemmas config_options_unfold = config_options_def Config_fields_def config_field_def Config_tags_def field_option_def tag_Get_def tag_GetMany_def

lemma config_options_facts:
  "map op_Long config_options = [''config-path'', ''secret'', ''data-dir'', ''listen-addr'', ''grace-duration'', ''max-connections'', ''debug'']"
  "map op_kind config_options = [KString, KString, KString, KString, KInt 64, KInt 64, KBool]"
  "map op_Default config_options = [[''./config.js''], [], [''/var/state''], ['':80''], [''1''], [''100''], []]"
  "map op_EnvKey config_options = [''ARLA_CONFIG_PATH'', ''ARLA_SECRET'', ''ARLA_DATA_DIR'', ''ARLA_LISTEN_ADDR'', ''ARLA_GRACE_DURATION'', ''ARLA_MAX_CONNECTIONS'', []]"
  "map op_Required config_options = [False, True, True, True, True, True, False]"
  "map op_field config_options = [''ConfigPath'', ''Secret'', ''DataDir'', ''ListenAddr'', ''GraceDuration'', ''MaxConnections'', ''Debug'']"
  "map op_value config_options = [FvString [], FvString [], FvString [], FvString [], FvInt 0, FvInt 0, FvBool False]"
  "list_all (\<lambda>option. op_Short option = 0 \<and> op_Choices option = [] \<and> op_tag option ''base'' = None) config_options"
  by (simp_all add: config_options_unfold)

lemma config_options_plain: "list_all plain_option config_options"
  by (simp add: config_options_unfold plain_option_def takes_value_def)

lemma config_options_distinct: "distinct (map op_Long (config_options @ [help_option]))"
  by (simp add: config_options_facts)

lemma group_scan_Config: "group_scan Config_fields = Inr config_options"
proof -
  have "checkForDuplicateFlags config_options = None"
    by (simp add: checkForDuplicateFlags_def config_options_unfold)
  then show ?thesis by (simp add: group_scan_def scanStruct_named [OF Config_named] flip: config_options_def)
qed


section \<open>The configuration of a command line\<close>

definition text_setting :: "(string \<rightharpoonup> string) \<Rightarrow> (string \<rightharpoonup> string) \<Rightarrow> string \<Rightarrow> string \<Rightarrow> string \<Rightarrow> string" where
  "text_setting env cmd name key def = (case cmd name of Some v \<Rightarrow> v | None \<Rightarrow> (case env key of Some v \<Rightarrow> v | None \<Rightarrow> def))"

definition number_setting :: "(string \<rightharpoonup> string) \<Rightarrow> (string \<rightharpoonup> string) \<Rightarrow> string \<Rightarrow> string \<Rightarrow> string \<Rightarrow> int" where
  "number_setting env cmd name key def = (case ParseInt (text_setting env cmd name key def) 10 64 of Some n \<Rightarrow> n | None \<Rightarrow> 0)"

definition configured :: "(string \<rightharpoonup> string) \<Rightarrow> (string \<rightharpoonup> string) \<Rightarrow> ServerConfig" where
  "configured env cmd =
     \<lparr>sv_ConfigPath = text_setting env cmd ''config-path'' ''ARLA_CONFIG_PATH'' ''./config.js'',
      sv_Secret = text_setting env cmd ''secret'' ''ARLA_SECRET'' [],
      sv_DataDir = text_setting env cmd ''data-dir'' ''ARLA_DATA_DIR'' ''/var/state'',
      sv_ListenAddr = text_setting env cmd ''listen-addr'' ''ARLA_LISTEN_ADDR'' '':80'',
      sv_GraceDuration = number_setting env cmd ''grace-duration'' ''ARLA_GRACE_DURATION'' ''1'',
      sv_MaxConnections = number_setting env cmd ''max-connections'' ''ARLA_MAX_CONNECTIONS'' ''100'',
      sv_Debug = False\<rparr>"

definition text_options :: "string list" where
  "text_options = [''config-path'', ''secret'', ''data-dir'', ''listen-addr'']"

definition number_options :: "string list" where
  "number_options = [''grace-duration'', ''max-connections'']"

definition config_line :: "string \<times> string \<Rightarrow> bool" where
  "config_line kv \<longleftrightarrow> fst kv \<in> set text_options \<and> (snd kv = [] \<or> hd (snd kv) \<noteq> CHR 0x22) \<or>
     fst kv \<in> set number_options \<and> ParseInt (snd kv) 10 64 \<noteq> None"

definition line_value :: "string \<times> string \<Rightarrow> field_value" where
  "line_value kv = (if fst kv \<in> set text_options then FvString (snd kv) else FvInt (the (ParseInt (snd kv) 10 64)))"

lemma ParseInt_unquoted: "ParseInt v 10 64 \<noteq> None \<Longrightarrow> hd v \<noteq> CHR 0x22"
  by (cases v) (auto simp: ParseInt_def ParseUint_def digits_in_def digit_of_def is_digit_def Let_def)

lemma config_options_obtain:
  obtains o1 o2 o3 o4 o5 o6 o7 where "config_options = [o1, o2, o3, o4, o5, o6, o7]"
  using config_options_facts(1) by (auto simp: map_eq_Cons_conv)

lemma config_line_setting:
  assumes "config_line kv"
  shows "setting_of config_options kv (line_value kv)"
proof -
  obtain o1 o2 o3 o4 o5 o6 o7 where co: "config_options = [o1, o2, o3, o4, o5, o6, o7]" by (rule config_options_obtain)
  note facts = config_options_facts [unfolded co, simplified]
  have "hd (snd kv) \<noteq> CHR 0x22" if "ParseInt (snd kv) 10 64 \<noteq> None" using ParseInt_unquoted [OF that] .
  with assms show ?thesis
    unfolding config_line_def
    by (elim disjE) (auto simp: setting_of_def co facts text_options_def number_options_def line_value_def takes_value_def getBase_def tag_Get_def)
qed

lemma line_values:
  "map_of (rev (zip (map fst kvs) (map line_value kvs))) k = map_option (\<lambda>v. line_value (k, v)) (map_of (rev kvs) k)"
proof -
  have "zip (map fst kvs) (map line_value kvs) = map (\<lambda>kv. (fst kv, line_value kv)) kvs" by (induction kvs) auto
  moreover have "map_of (map (\<lambda>kv. (fst kv, line_value kv)) xs) k = map_option (\<lambda>v. line_value (k, v)) (map_of xs k)" for xs
    by (induction xs) auto
  ultimately show ?thesis by (simp add: rev_map)
qed

definition cmd_values :: "(string \<rightharpoonup> string) \<Rightarrow> string \<rightharpoonup> field_value" where
  "cmd_values cmd k = map_option (\<lambda>v. line_value (k, v)) (cmd k)"

lemma settled_text:
  assumes "op_kind option = KString" "op_value option = FvString []" "op_Long option \<in> set text_options" "op_EnvKey option \<noteq> []"
  shows "op_value (settled env (cmd_values cmd) option) =
    FvString (text_setting env cmd (op_Long option) (op_EnvKey option) (case op_Default option of [] \<Rightarrow> [] | d # _ \<Rightarrow> d))"
  using assms by (simp add: settled_def source_def given_def cmd_values_def line_value_def text_setting_def converted_def split: option.split list.split)

lemma settled_number:
  assumes "op_kind option = KInt 64" "op_value option = FvInt 0" "op_Long option \<notin> set text_options" "op_EnvKey option \<noteq> []"
    and "op_tag option ''base'' = None" "op_Default option = [d]"
    and "cmd (op_Long option) = None \<or> ParseInt (the (cmd (op_Long option))) 10 64 \<noteq> None"
  shows "op_value (settled env (cmd_values cmd) option) = FvInt (number_setting env cmd (op_Long option) (op_EnvKey option) d)"
  using assms by (auto simp: settled_def source_def given_def cmd_values_def line_value_def number_setting_def text_setting_def converted_def getBase_def
      tag_Get_def split: option.split)

lemma source_None:
  "op_EnvKey option \<noteq> [] \<Longrightarrow>
   source env (cmd_values cmd) option = None \<longleftrightarrow> cmd (op_Long option) = None \<and> env (op_EnvKey option) = None \<and> op_Default option = []"
  by (auto simp: source_def cmd_values_def split: option.split list.split)

lemma settled_field [simp]: "op_field (settled env m option) = op_field option"
  by (simp add: settled_def)

lemma config_parsed:
  assumes "cmd ''debug'' = None" and "\<forall>k \<in> set number_options. cmd k = None \<or> ParseInt (the (cmd k)) 10 64 \<noteq> None"
  shows "config_of (map (settled env (cmd_values cmd)) (config_options @ [help_option])) = configured env cmd"
    and "map quoted_option (missing env (cmd_values cmd) config_options) =
      (if cmd ''secret'' = None \<and> env ''ARLA_SECRET'' = None then [CHR 0x60 # ''--secret'' @ [CHR 0x27]] else [])"
proof -
  obtain o1 o2 o3 o4 o5 o6 o7 where co: "config_options = [o1, o2, o3, o4, o5, o6, o7]" by (rule config_options_obtain)
  note facts = config_options_facts [unfolded co, simplified]
  show "map quoted_option (missing env (cmd_values cmd) config_options) =
      (if cmd ''secret'' = None \<and> env ''ARLA_SECRET'' = None then [CHR 0x60 # ''--secret'' @ [CHR 0x27]] else [])"
    by (simp add: co missing_def source_None facts quoted_option_def option_String_def)
  have "field_of (map (settled env (cmd_values cmd)) (config_options @ [help_option])) = (\<lambda>name.
      map_option (\<lambda>option. op_value (settled env (cmd_values cmd) option)) (List.find (\<lambda>option. op_field option = name) (config_options @ [help_option])))"
    by (simp add: fun_eq_iff field_of_def co)
  moreover have "op_value (settled env (cmd_values cmd) o7) = FvBool False"
    using facts assms(1) by (simp add: settled_def source_def given_def cmd_values_def)
  ultimately show "config_of (map (settled env (cmd_values cmd)) (config_options @ [help_option])) = configured env cmd"
    using assms(2)
    by (simp add: config_of_def configured_def text_of_def number_of_def co facts settled_text settled_number text_options_def number_options_def)
qed


lemma flags_ParseArgs_Config:
  assumes "no_completion env" and "list_all config_line kvs" and "\<not> argumentIsOption prog" "prog \<noteq> ''--''"
  shows "let cmd = map_of (rev kvs); r = flags_ParseArgs env Config_fields (prog # map setting_line kvs) in
    if cmd ''secret'' = None \<and> env ''ARLA_SECRET'' = None then
      \<exists>rest opts. let e = ErrRequired [CHR 0x60 # ''--secret'' @ [CHR 0x27]] in r = Some (Failed rest e, opts, [e])
    else \<exists>opts. r = Some (Parsed [prog], opts, []) \<and> config_of opts = configured env cmd"
proof -
  let ?cmd = "map_of (rev kvs)"
  have kvs: "list_all2 (setting_of config_options) kvs (map line_value kvs)"
    using assms(2) by (simp add: list_all2_conv_all_nth list_all_length config_line_setting)
  have m: "map_of (rev (zip (map fst kvs) (map line_value kvs))) = cmd_values ?cmd"
    by (simp add: fun_eq_iff line_values cmd_values_def)
  have line: "config_line (k, v)" if "?cmd k = Some v" for k v
    using assms(2) map_of_SomeD [OF that] by (auto simp: list_all_iff)
  have "?cmd ''debug'' = None"
    using line by (cases "?cmd ''debug''") (auto simp: config_line_def text_options_def number_options_def)
  moreover have "\<forall>k \<in> set number_options. ?cmd k = None \<or> ParseInt (the (?cmd k)) 10 64 \<noteq> None"
  proof
    fix k assume k: "k \<in> set number_options"
    show "?cmd k = None \<or> ParseInt (the (?cmd k)) 10 64 \<noteq> None"
    proof (cases "?cmd k")
      case (Some v)
      from line [OF this] k Some show ?thesis by (auto simp: config_line_def text_options_def number_options_def)
    qed simp
  qed
  ultimately have parsed: "config_of (map (settled env (cmd_values ?cmd)) (config_options @ [help_option])) = configured env ?cmd"
    "map quoted_option (missing env (cmd_values ?cmd) config_options) =
      (if ?cmd ''secret'' = None \<and> env ''ARLA_SECRET'' = None then [CHR 0x60 # ''--secret'' @ [CHR 0x27]] else [])"
    by (rule config_parsed)+
  from parsed(2) have "missing env (cmd_values ?cmd) config_options = [] \<longleftrightarrow> \<not> (?cmd ''secret'' = None \<and> env ''ARLA_SECRET'' = None)"
    by (metis list.map_disc_iff not_Cons_self2 neq_Nil_conv)
  with ParseArgs_settings [OF config_options_plain config_options_distinct kvs assms(1,3,4)] parsed show ?thesis
    by (auto simp: flags_ParseArgs_def group_scan_Config m Let_def simp del: map_append)
qed

section \<open>Properties\<close>

text \<open>
  C11: the program with settings on its command line. Without a secret there and in the environment it exits with status 1 before anything is
  started, and prints the error twice. Otherwise the server runs with every setting taken from the command line, else from the environment,
  else from the default in \<open>Config\<close>, and the exit status tells whether it failed; a number of the environment that is no number counts
  as 0.
\<close>

theorem main_configuration:
  assumes "no_completion env" and "list_all config_line kvs" and "\<not> argumentIsOption prog" "prog \<noteq> ''--''"
  shows "let cmd = map_of (rev kvs); r = arla_main sc api script can_open file env (prog # map setting_line kvs) os in
    if cmd ''secret'' = None \<and> env ''ARLA_SECRET'' = None then
      (let e = ParserError (ErrRequired [CHR 0x60 # ''--secret'' @ [CHR 0x27]]) in r = Some (1, [e, e], None, os))
    else r =
      (case server_Run sc api script can_open ((new_server (configured env cmd))\<lparr>s_file := file\<rparr>) os of
         None \<Rightarrow> None
       | Some (Some e, s, os') \<Rightarrow> Some (1, [ServerError e], Some s, os')
       | Some (None, s, os') \<Rightarrow> Some (0, [], Some s, os'))"
  using flags_ParseArgs_Config [OF assms] by (auto simp: arla_main_def Let_def split: if_splits)

text \<open>
  C18: an empty secret counts as given. The program starts with \<open>ARLA_SECRET\<close> set to the empty text, and from then on everyone is let in:
  a token that anyone signs with the empty key passes the check of the protected routes with the claims written into it.
\<close>

theorem empty_secret_admits_anyone:
  assumes "no_completion env" "env ''ARLA_SECRET'' = Some []" and "\<not> argumentIsOption prog" "prog \<noteq> ''--''"
    and "strconv_ok (ev_sc ev)" "wf_json (JObj claims)" and "ve_valid (check_times (ev_sc ev) (ev_now ev) (decoded_claims (ev_sc ev) claims))"
    and "SignedString (ev_sc ev) (ev_crypto ev) ((jwt_New SigningMethodHS256)\<lparr>t_Claims := claims\<rparr>) (KeyBytes []) = Inr tok"
    and "bearer tok r"
  shows "\<exists>opts. flags_ParseArgs env Config_fields [prog] = Some (Parsed [prog], opts, []) \<and>
    (\<forall>fn w s. s_cfg s = config_of opts \<longrightarrow> wrapAuthenticatedHandler ev fn w r s = fn w r (decoded_claims (ev_sc ev) claims) s)"
proof -
  obtain opts where opts: "flags_ParseArgs env Config_fields [prog] = Some (Parsed [prog], opts, [])" "config_of opts = configured env Map.empty"
    using flags_ParseArgs_Config [OF assms(1) _ assms(3,4), of "[]"] assms(2) by auto
  then have secret: "sv_Secret (config_of opts) = []" using assms(2) by (simp add: configured_def text_setting_def)
  have "wrapAuthenticatedHandler ev fn w r s = fn w r (decoded_claims (ev_sc ev) claims) s" if "s_cfg s = config_of opts" for fn w and s :: "'b Server"
  proof -
    have kf: "keyfunc (s_cfg s) (signed_token (ev_sc ev) SigningMethodHS256 claims tok) = Inr (KeyBytes [])"
      using that secret by (simp add: keyfunc_def signed_token_def SigningMethodHS256_def bytes_of_string_def)
    obtain sig where "jwt_Parse (ev_sc ev) (ev_crypto ev) (ev_now ev) (Some (keyfunc (s_cfg s))) tok =
        (Some ((signed_token (ev_sc ev) SigningMethodHS256 claims tok)\<lparr>t_Signature := sig, t_Valid := True\<rparr>), None)"
      using Parse_signed_HS256 [OF assms(5,6,8), where kf = "keyfunc (s_cfg s)" and now = "ev_now ev", OF kf] assms(7) by (auto simp: Let_def)
    from bearer_parsed [OF assms(9) this] show ?thesis by (simp add: wrapAuthenticatedHandler_def signed_token_def)
  qed
  with opts(1) show ?thesis by blast
qed


section \<open>Witnesses\<close>

definition demo_environment :: "string \<rightharpoonup> string" where
  "demo_environment = [''ARLA_SECRET'' \<mapsto> [], ''ARLA_MAX_CONNECTIONS'' \<mapsto> ''many'']"

lemma demo_environment_facts: "no_completion demo_environment" "demo_environment ''ARLA_SECRET'' = Some []" "\<not> argumentIsOption ''arla''"
  by (simp_all add: demo_environment_def no_completion_def argumentIsOption_def)

lemma ParseInt_demo: "ParseInt ''many'' 10 64 = None" "ParseInt ''100'' 10 64 = Some 100"
  by (simp_all add: ParseInt_def ParseUint_def digits_in_def digit_of_def is_digit_def)

text \<open>Without settings there is no secret; with one, the server gets the data directory of the command line and no database connections.\<close>

theorem main_configuration_witness:
  "(let e = ParserError (ErrRequired [CHR 0x60 # ''--secret'' @ [CHR 0x27]]) in
      arla_main int_strconv (demo_api []) [] True [] Map.empty [''arla''] Map.empty = Some (1, [e, e], None, Map.empty)) \<and>
   arla_main int_strconv (demo_api []) [] True [] demo_environment [''arla'', ''--data-dir=/d''] Map.empty =
      (case server_Run int_strconv (demo_api []) [] True (new_server (configured demo_environment [''data-dir'' \<mapsto> ''/d''])) Map.empty of
         None \<Rightarrow> None
       | Some (Some e, s, os') \<Rightarrow> Some (1, [ServerError e], Some s, os')
       | Some (None, s, os') \<Rightarrow> Some (0, [], Some s, os')) \<and>
   sv_DataDir (configured demo_environment [''data-dir'' \<mapsto> ''/d'']) = ''/d'' \<and>
   sv_MaxConnections (configured demo_environment [''data-dir'' \<mapsto> ''/d'']) = 0"
proof -
  have "arla_main int_strconv (demo_api []) [] True [] Map.empty [''arla''] Map.empty =
      (let e = ParserError (ErrRequired [CHR 0x60 # ''--secret'' @ [CHR 0x27]]) in Some (1, [e, e], None, Map.empty))"
    using main_configuration [of Map.empty "[]" "''arla''" int_strconv "demo_api []" "[]" True "[]" Map.empty] demo_environment_facts(3)
    by (simp add: no_completion_def Let_def)
  moreover have "(new_server cfg :: postgres Server)\<lparr>s_file := []\<rparr> = new_server cfg" for cfg by (simp add: new_server_def)
  then have "arla_main int_strconv (demo_api []) [] True [] demo_environment [''arla'', ''--data-dir=/d''] Map.empty =
      (case server_Run int_strconv (demo_api []) [] True (new_server (configured demo_environment [''data-dir'' \<mapsto> ''/d''])) Map.empty of
         None \<Rightarrow> None
       | Some (Some e, s, os') \<Rightarrow> Some (1, [ServerError e], Some s, os')
       | Some (None, s, os') \<Rightarrow> Some (0, [], Some s, os'))"
    using main_configuration [of demo_environment "[(''data-dir'', ''/d'')]" "''arla''" int_strconv "demo_api []" "[]" True "[]" Map.empty] demo_environment_facts
    by (simp add: Let_def config_line_def text_options_def setting_line_def)
  moreover have "text_setting demo_environment [''data-dir'' \<mapsto> ''/d''] ''max-connections'' ''ARLA_MAX_CONNECTIONS'' ''100'' = ''many''"
    "text_setting demo_environment [''data-dir'' \<mapsto> ''/d''] ''data-dir'' ''ARLA_DATA_DIR'' ''/var/state'' = ''/d''"
    by (simp_all add: text_setting_def demo_environment_def)
  ultimately show ?thesis by (simp add: Let_def configured_def number_setting_def ParseInt_demo)
qed


theorem empty_secret_admits_anyone_witness:
  "\<exists>tok opts. flags_ParseArgs demo_environment Config_fields [''arla''] = Some (Parsed [''arla''], opts, []) \<and>
     wrapAuthenticatedHandler demo_env (\<lambda>w r t s. Some (None, w, s)) new_response (demo_request ''/exec'' [(''Authorization'', ''Bearer '' @ tok)] ''{}'')
       (new_server (config_of opts) :: postgres Server) = Some (None, new_response, new_server (config_of opts))"
proof -
  obtain tok where tok: "SignedString int_strconv demo_crypto ((jwt_New SigningMethodHS256)\<lparr>t_Claims := demo_claims\<rparr>) (KeyBytes []) = Inr tok"
    by (simp add: SignedString_def SigningString_def jwt_New_def SigningMethodHS256_def HMAC_Sign_def demo_crypto_def Marshal_def demo_claims_def)
  have cl: "decoded_claims int_strconv demo_claims = [(''exp'', JNum 50)]"
    using Atoi_format_int [of 50] by (simp add: decoded_claims_def demo_claims_def int_strconv_def)
  have "ve_valid (check_times int_strconv 40 [(''exp'', JNum 50)])"
    by (simp add: check_times_valid time_claim_def int_strconv_def)
  then have valid: "ve_valid (check_times (ev_sc demo_env) (ev_now demo_env) (decoded_claims (ev_sc demo_env) demo_claims))"
    using cl by (simp add: demo_env_def)
  let ?r = "demo_request ''/exec'' [(''Authorization'', ''Bearer '' @ tok)] ''{}''"
  have b: "bearer tok ?r" by (simp add: bearer_def demo_request_def Get_def)
  have sc: "strconv_ok (ev_sc demo_env)" "wf_json (JObj demo_claims)"
    "SignedString (ev_sc demo_env) (ev_crypto demo_env) ((jwt_New SigningMethodHS256)\<lparr>t_Claims := demo_claims\<rparr>) (KeyBytes []) = Inr tok"
    using tok int_strconv_ok demo_claims_wf by (simp_all add: demo_env_def demo_claims_def)
  obtain opts where opts: "flags_ParseArgs demo_environment Config_fields [''arla''] = Some (Parsed [''arla''], opts, [])"
    "\<forall>fn w (s :: postgres Server). s_cfg s = config_of opts \<longrightarrow>
       wrapAuthenticatedHandler demo_env fn w ?r s = fn w ?r (decoded_claims (ev_sc demo_env) demo_claims) s"
    using empty_secret_admits_anyone [OF demo_environment_facts(1,2,3) _ sc(1,2) valid sc(3) b] by auto
  have "s_cfg (new_server (config_of opts) :: postgres Server) = config_of opts" by (simp add: new_server_def)
  with opts show ?thesis by blast
qed

end
