(* ===== verification/Net_Limit.thy ===== *)
theory Net_Limit
  imports Prelude
begin

text \<open>
  The listener with a limit of connections (\<open>golang.org/x/net/netutil/listen.go\<close>), which the graceful server puts around its listener when a
  limit is set. Any number of goroutines call \<open>Accept\<close> and \<open>Close\<close>; one connection may be closed by several at the same time. The
  channel \<open>sem\<close> is the number of values in its buffer; sending waits while it is full, receiving while it is empty. \<open>sync.Once\<close> runs its
  function for the first caller and lets the others wait until it is done.
\<close>

section \<open>The goroutines\<close>

datatype accept_pc = AIdle | AAccepting | ARelease

datatype close_pc = KIdle | KOnce nat | KRelease nat

datatype once_state = Fresh | Running | Done

text \<open>A connection not handed out yet has no \<open>Once\<close>.\<close>

record limitListener =
  l_cap :: nat
  l_sem :: nat
  l_accept :: "nat \<Rightarrow> accept_pc"
  l_close :: "nat \<Rightarrow> close_pc"
  l_once :: "nat \<Rightarrow> once_state option"
  l_open :: "nat set"

definition LimitListener :: "nat \<Rightarrow> limitListener" where
  "LimitListener n = \<lparr>l_cap = n, l_sem = 0, l_accept = (\<lambda>g. AIdle), l_close = (\<lambda>k. KIdle), l_once = (\<lambda>c. None), l_open = {}\<rparr>"

inductive limit_step :: "limitListener \<Rightarrow> limitListener \<Rightarrow> bool" where
  acquire: "l_accept l g = AIdle \<Longrightarrow> l_sem l < l_cap l \<Longrightarrow> limit_step l (l\<lparr>l_sem := l_sem l + 1, l_accept := (l_accept l)(g := AAccepting)\<rparr>)"
| accept_fails: "l_accept l g = AAccepting \<Longrightarrow> limit_step l (l\<lparr>l_accept := (l_accept l)(g := ARelease)\<rparr>)"
| accept_release: "l_accept l g = ARelease \<Longrightarrow> l_sem l > 0 \<Longrightarrow>
    limit_step l (l\<lparr>l_sem := l_sem l - 1, l_accept := (l_accept l)(g := AIdle)\<rparr>)"
| accepts: "l_accept l g = AAccepting \<Longrightarrow> l_once l c = None \<Longrightarrow>
    limit_step l (l\<lparr>l_accept := (l_accept l)(g := AIdle), l_once := (l_once l)(c \<mapsto> Fresh), l_open := insert c (l_open l)\<rparr>)"
| closes: "l_close l k = KIdle \<Longrightarrow> l_once l c \<noteq> None \<Longrightarrow> limit_step l (l\<lparr>l_close := (l_close l)(k := KOnce c), l_open := l_open l - {c}\<rparr>)"
| first: "l_close l k = KOnce c \<Longrightarrow> l_once l c = Some Fresh \<Longrightarrow>
    limit_step l (l\<lparr>l_close := (l_close l)(k := KRelease c), l_once := (l_once l)(c \<mapsto> Running)\<rparr>)"
| releases: "l_close l k = KRelease c \<Longrightarrow> l_sem l > 0 \<Longrightarrow>
    limit_step l (l\<lparr>l_sem := l_sem l - 1, l_close := (l_close l)(k := KIdle), l_once := (l_once l)(c \<mapsto> Done)\<rparr>)"
| later: "l_close l k = KOnce c \<Longrightarrow> l_once l c = Some Done \<Longrightarrow> limit_step l (l\<lparr>l_close := (l_close l)(k := KIdle)\<rparr>)"

inductive_simps limit_step_iff: "limit_step l l'"

definition limit_reachable :: "nat \<Rightarrow> limitListener \<Rightarrow> bool" where
  "limit_reachable n l \<longleftrightarrow> limit_step\<^sup>*\<^sup>* (LimitListener n) l"

section \<open>Who holds a place\<close>

definition acceptors :: "limitListener \<Rightarrow> nat set" where
  "acceptors l = {g. l_accept l g \<noteq> AIdle}"

definition holders :: "limitListener \<Rightarrow> nat set" where
  "holders l = {c. l_once l c = Some Fresh \<or> l_once l c = Some Running}"

text \<open>
  Every place in the buffer belongs to a call of \<open>Accept\<close> that has not returned or to a connection that was not released. An open
  connection was not released; one goroutine releases each connection that is being released.
\<close>

definition places_inv :: "limitListener \<Rightarrow> bool" where
  "places_inv l \<longleftrightarrow> finite (acceptors l) \<and> finite (holders l) \<and> l_sem l = card (acceptors l) + card (holders l) \<and> l_sem l \<le> l_cap l"

definition once_inv :: "limitListener \<Rightarrow> bool" where
  "once_inv l \<longleftrightarrow> l_open l \<subseteq> {c. l_once l c = Some Fresh} \<and>
     (\<forall>k c. l_close l k = KRelease c \<longrightarrow> l_once l c = Some Running) \<and>
     (\<forall>k k' c. l_close l k = KRelease c \<and> l_close l k' = KRelease c \<longrightarrow> k = k') \<and>
     (\<forall>k c. l_close l k = KOnce c \<longrightarrow> l_once l c \<noteq> None \<and> c \<notin> l_open l)"

text \<open>A connection that is being released has a goroutine that does it.\<close>

definition releaser_inv :: "limitListener \<Rightarrow> bool" where
  "releaser_inv l \<longleftrightarrow> (\<forall>c. l_once l c = Some Running \<longrightarrow> (\<exists>k. l_close l k = KRelease c))"

lemma acceptors_upd:
  "{g. (f(h := a)) g \<noteq> AIdle} = (if a = AIdle then {g. f g \<noteq> AIdle} - {h} else insert h {g. f g \<noteq> AIdle})"
  by auto

lemma holders_upd:
  "{c. (f(d \<mapsto> s)) c = Some Fresh \<or> (f(d \<mapsto> s)) c = Some Running} =
   (if s = Done then {c. f c = Some Fresh \<or> f c = Some Running} - {d} else insert d {c. f c = Some Fresh \<or> f c = Some Running})"
  by (cases s) auto

lemma places_step:
  assumes "limit_step l l'" "places_inv l" "once_inv l"
  shows "places_inv l'"
  using assms
proof (cases rule: limit_step.cases)
  case (acquire g)
  then have "g \<notin> {g. l_accept l g \<noteq> AIdle}" by simp
  with acquire assms(2) show ?thesis by (simp add: places_inv_def acceptors_def holders_def acceptors_upd del: fun_upd_apply)
next
  case (accept_fails g)
  then have "insert g {g. l_accept l g \<noteq> AIdle} = {g. l_accept l g \<noteq> AIdle}" by auto
  with accept_fails assms(2) show ?thesis by (simp add: places_inv_def acceptors_def holders_def acceptors_upd del: fun_upd_apply)
next
  case (accept_release g)
  then have "g \<in> {g. l_accept l g \<noteq> AIdle}" by simp
  with accept_release assms(2) card_gt_0_iff [of "{g. l_accept l g \<noteq> AIdle}"] show ?thesis
    by (auto simp: places_inv_def acceptors_def holders_def acceptors_upd card_Diff_singleton simp del: fun_upd_apply)
next
  case (accepts g c)
  then have "g \<in> {g. l_accept l g \<noteq> AIdle}" "c \<notin> {c. l_once l c = Some Fresh \<or> l_once l c = Some Running}" by simp_all
  with accepts assms(2) card_gt_0_iff [of "{g. l_accept l g \<noteq> AIdle}"] show ?thesis
    by (auto simp: places_inv_def acceptors_def holders_def acceptors_upd holders_upd card_Diff_singleton simp del: fun_upd_apply)
next
  case (closes k c)
  with assms(2) show ?thesis by (simp add: places_inv_def acceptors_def holders_def)
next
  case (first k c)
  then have "insert c {c. l_once l c = Some Fresh \<or> l_once l c = Some Running} = {c. l_once l c = Some Fresh \<or> l_once l c = Some Running}" by auto
  with first assms(2) show ?thesis by (simp add: places_inv_def acceptors_def holders_def holders_upd del: fun_upd_apply)
next
  case (releases k c)
  then have "c \<in> {c. l_once l c = Some Fresh \<or> l_once l c = Some Running}" using assms(3) by (auto simp: once_inv_def)
  with releases assms(2) card_gt_0_iff [of "{c. l_once l c = Some Fresh \<or> l_once l c = Some Running}"] show ?thesis
    by (auto simp: places_inv_def acceptors_def holders_def holders_upd card_Diff_singleton simp del: fun_upd_apply)
next
  case (later k c)
  with assms(2) show ?thesis by (simp add: places_inv_def acceptors_def holders_def)
qed

lemma once_step: "limit_step l l' \<Longrightarrow> once_inv l \<Longrightarrow> once_inv l' \<and> l_cap l' = l_cap l"
proof (induction rule: limit_step.induct)
  case (first l k c)
  then have "l_close l k' \<noteq> KRelease c" "c \<notin> l_open l" for k' unfolding once_inv_def by fastforce+
  with first show ?case unfolding once_inv_def by (auto split: if_splits)
next
  case (releases l k c)
  then have "k' = k" if "l_close l k' = KRelease c" for k' using that unfolding once_inv_def by blast
  with releases show ?case unfolding once_inv_def by (auto split: if_splits)
next
  case (accepts l g c)
  then have "l_close l k \<noteq> KRelease c \<and> l_close l k \<noteq> KOnce c" for k unfolding once_inv_def by fastforce
  with accepts show ?case unfolding once_inv_def by auto
qed (auto simp: once_inv_def split: if_splits)

lemma releaser_step:
  assumes "limit_step l l'" "once_inv l" "releaser_inv l"
  shows "releaser_inv l'"
  unfolding releaser_inv_def
proof (intro allI impI)
  fix c assume run: "l_once l' c = Some Running"
  show "\<exists>k. l_close l' k = KRelease c"
  proof (cases "l_once l c = Some Running")
    case True
    then obtain k where k: "l_close l k = KRelease c" using assms(3) by (auto simp: releaser_inv_def)
    have "l_close l' k = KRelease c"
      using assms(1) k run by (cases rule: limit_step.cases) auto
    then show ?thesis ..
  next
    case False
    show ?thesis using assms(1) run False by (cases rule: limit_step.cases) (auto split: if_splits)
  qed
qed

lemma limit_reachable_inv:
  assumes "limit_reachable n l"
  shows "places_inv l \<and> once_inv l \<and> releaser_inv l \<and> l_cap l = n"
  using assms unfolding limit_reachable_def
proof (induction rule: rtranclp_induct)
  case base
  then show ?case by (simp add: LimitListener_def places_inv_def once_inv_def releaser_inv_def acceptors_def holders_def)
next
  case (step l l')
  then show ?case using places_step once_step releaser_step by metis
qed

section \<open>Properties\<close>

text \<open>
  C40: whatever the order in which connections are accepted and closed, also twice and at the same time, at most the given number of
  accepted connections is open. The places are given back exactly: a release never waits, a closer that waits for another one is waited
  for by nobody, and when everything accepted was closed by someone and nobody is inside a call, all places are free again.
\<close>

theorem LimitListener_bound:
  assumes "limit_reachable n l"
  shows "finite (l_open l) \<and> card (l_open l) \<le> n \<and>
    (\<forall>g. l_accept l g = ARelease \<longrightarrow> l_sem l > 0) \<and>
    (\<forall>k c. l_close l k = KRelease c \<longrightarrow> l_sem l > 0) \<and>
    (\<forall>k c. l_close l k = KOnce c \<longrightarrow> (\<exists>l'. limit_step l l' \<and> (l_close l' k = KRelease c \<or> l_close l' k = KIdle)) \<or>
       (\<exists>k' l'. l_close l k' = KRelease c \<and> limit_step l l' \<and> l_once l' c = Some Done)) \<and>
    ((\<forall>g. l_accept l g = AIdle) \<and> (\<forall>c. l_once l c = None \<or> l_once l c = Some Done) \<longrightarrow> l_sem l = 0)"
proof -
  have inv: "places_inv l" "once_inv l" "releaser_inv l" "l_cap l = n" using limit_reachable_inv [OF assms] by simp_all
  have sub: "l_open l \<subseteq> holders l" using inv(2) by (auto simp: once_inv_def holders_def)
  have fin: "finite (acceptors l)" "finite (holders l)" "l_sem l = card (acceptors l) + card (holders l)" "l_sem l \<le> n"
    using inv(1,4) by (simp_all add: places_inv_def)
  have "finite (l_open l)" "card (l_open l) \<le> n"
    using finite_subset [OF sub fin(2)] card_mono [OF fin(2) sub] fin(3,4) by linarith+
  moreover have acc: "l_sem l > 0" if "l_accept l g = ARelease" for g
    using that fin(1,3) card_gt_0_iff [of "acceptors l"] by (auto simp: acceptors_def)
  moreover have rel: "l_sem l > 0" if "l_close l k = KRelease c" for k c
    using that inv(2) fin(2,3) card_gt_0_iff [of "holders l"] by (fastforce simp: holders_def once_inv_def)
  moreover have "(\<exists>l'. limit_step l l' \<and> (l_close l' k = KRelease c \<or> l_close l' k = KIdle)) \<or>
      (\<exists>k' l'. l_close l k' = KRelease c \<and> limit_step l l' \<and> l_once l' c = Some Done)" if k: "l_close l k = KOnce c" for k c
  proof -
    have "l_once l c \<noteq> None" using k inv(2) unfolding once_inv_def by blast
    then obtain s where s: "l_once l c = Some s" by blast
    show ?thesis
    proof (cases s)
      case Fresh
      with limit_step.first [OF k] s show ?thesis by fastforce
    next
      case Done
      with limit_step.later [OF k] s show ?thesis by fastforce
    next
      case Running
      then obtain k' where "l_close l k' = KRelease c" using s inv(3) by (auto simp: releaser_inv_def)
      with limit_step.releases [OF this rel [OF this]] show ?thesis by fastforce
    qed
  qed
  moreover have "l_sem l = 0" if "\<forall>g. l_accept l g = AIdle" "\<forall>c. l_once l c = None \<or> l_once l c = Some Done"
  proof -
    have "acceptors l = {}" using that(1) by (simp add: acceptors_def)
    moreover have "l_once l c \<noteq> Some Fresh" "l_once l c \<noteq> Some Running" for c using that(2) by (metis once_state.distinct option.distinct(1) option.inject)+
    then have "holders l = {}" by (simp add: holders_def)
    ultimately show ?thesis using fin(3) by simp
  qed
  ultimately show ?thesis by blast
qed

text \<open>Two connections with a limit of two, one closed twice at the same time.\<close>

definition demo_limit :: limitListener where
  "demo_limit = \<lparr>l_cap = 2, l_sem = 2, l_accept = (\<lambda>g. AIdle), l_close = (\<lambda>k. KIdle)(0 := KRelease 0, 1 := KOnce 0),
     l_once = [0 \<mapsto> Running, 1 \<mapsto> Fresh], l_open = {1}\<rparr>"

lemma demo_limit_reachable: "limit_reachable 2 demo_limit"
proof -
  let ?l0 = "LimitListener 2"
  let ?a = "\<lambda>s o' p. \<lparr>l_cap = 2, l_sem = s, l_accept = (\<lambda>g. AIdle), l_close = (\<lambda>k. KIdle), l_once = o', l_open = p\<rparr>"
  have idle: "(\<lambda>g. AIdle)(0 := AIdle) = (\<lambda>g. AIdle)" by auto
  have one: "limit_step\<^sup>*\<^sup>* (?a s o' p) (?a (s + 1) (o'(c \<mapsto> Fresh)) (insert c p))" if "s < 2" "o' c = None" for s o' p c
  proof -
    have "limit_step (?a s o' p) ((?a s o' p)\<lparr>l_sem := s + 1, l_accept := (\<lambda>g. AIdle)(0 := AAccepting)\<rparr>)"
      using limit_step.acquire [of "?a s o' p" 0] that by simp
    moreover have "limit_step ((?a s o' p)\<lparr>l_sem := s + 1, l_accept := (\<lambda>g. AIdle)(0 := AAccepting)\<rparr>) (?a (s + 1) (o'(c \<mapsto> Fresh)) (insert c p))"
      using limit_step.accepts [of "(?a s o' p)\<lparr>l_sem := s + 1, l_accept := (\<lambda>g. AIdle)(0 := AAccepting)\<rparr>" 0 c] that by (simp add: idle)
    ultimately show ?thesis by (meson converse_rtranclp_into_rtranclp r_into_rtranclp)
  qed
  have "limit_step\<^sup>*\<^sup>* ?l0 (?a 1 [0 \<mapsto> Fresh] {0})" using one [of 0 Map.empty 0 "{}"] by (simp add: LimitListener_def)
  also have "limit_step\<^sup>*\<^sup>* (?a 1 [0 \<mapsto> Fresh] {0}) (?a 2 [0 \<mapsto> Fresh, 1 \<mapsto> Fresh] {1, 0})" using one [of 1 "[0 \<mapsto> Fresh]" 1 "{0}"] by (simp add: numeral_2_eq_2)
  finally have two: "limit_step\<^sup>*\<^sup>* ?l0 (?a 2 [0 \<mapsto> Fresh, 1 \<mapsto> Fresh] {1, 0})" .
  let ?b = "(?a 2 [0 \<mapsto> Fresh, 1 \<mapsto> Fresh] {1})\<lparr>l_close := (\<lambda>k. KIdle)(0 := KOnce 0)\<rparr>"
  let ?c = "?b\<lparr>l_close := (\<lambda>k. KIdle)(0 := KOnce 0, 1 := KOnce 0)\<rparr>"
  have "limit_step (?a 2 [0 \<mapsto> Fresh, 1 \<mapsto> Fresh] {1, 0}) ?b"
    using limit_step.closes [of "?a 2 [0 \<mapsto> Fresh, 1 \<mapsto> Fresh] {1, 0}" 0 0] by (simp add: insert_Diff_if)
  moreover have "limit_step ?b ?c" using limit_step.closes [of ?b 1 0] by (simp add: insert_Diff_if)
  moreover have "limit_step ?c demo_limit"
    using limit_step.first [of ?c 0 0] by (simp add: demo_limit_def fun_upd_twist)
  ultimately show ?thesis unfolding limit_reachable_def using two by (meson rtranclp.rtrancl_into_rtrancl)
qed

theorem LimitListener_bound_witness: "card (l_open demo_limit) \<le> 2 \<and> l_sem demo_limit > 0"
proof -
  have "l_close demo_limit 0 = KRelease 0" by (simp add: demo_limit_def)
  with LimitListener_bound [OF demo_limit_reachable] show ?thesis by blast
qed

end
