(* ===== verification/Spec2Isabelle.thy ===== *)
theory Spec2Isabelle
  imports Prelude Go_Strings Go_Json Go_Json_Roundtrip Uuid Schema Mutation_Log Log_Protocol
    Go_Base64 Go_Http Jwt_Methods Jwt Server_Errors Pgx_Wire Pgx_Values Pgx_Hstore
    Pgx_Floats Pgx_Times Pgx_Inet Pgx_Kinds Pgx_Conn Pgx_Notify Pgx_Pool Pgx_Session Pgx_Tx Pgx_LargeObjects
    Pgx_RowValues Pgx_Logger Pgx_Stdlib
    Query_Engine Engine_Startup Pgx_Connect Pgx_Connected Pgx_Dsn Log_Formatter Blowfish_Tables Blowfish User_Password Graceful
    Server Server_Lifecycle Exec_Interleaving Flags_Tags Flags_Parser Arla_Main Net_Limit
begin

text \<open>
  Verification of the arla server (\<open>src/src/arla\<close>) and of the vendored Go packages its behaviour rests on.

  \<^bold>\<open>The program.\<close> arla is an HTTP server in front of a PostgreSQL database that runs the JavaScript of an
  application. Clients post mutations to \<open>/exec\<close> and queries to \<open>/query\<close>, with an access token that
  \<open>/authenticate\<close> or \<open>/register\<close> handed out. A mutation is applied to the database first and then appended to a
  log file, one JSON line each; the database is thrown away and rebuilt from that file whenever the server
  starts. The parts are

  \<^item> \<open>main.go\<close>: the program, with its options read by \<open>go-flags\<close>; routes, handlers, start and stop. It calls the engine (\<open>querystore\<close>), the log (\<open>mutationstore\<close>),
    the tokens (\<open>jwt-go\<close>), and hands its listener to \<open>graceful\<close>;
  \<^item> \<open>mutationstore/store.go\<close>: the log. Clients send requests through a channel to one writer goroutine;
  \<^item> \<open>querystore\<close>: starts a PostgreSQL process, keeps one connection for mutations under a mutex and a pool for
    queries, and speaks to them through \<open>pgx\<close>;
  \<^item> \<open>schema\<close>: the records that travel between the parts, identifiers and user passwords.

  \<^bold>\<open>The theories.\<close>

  \<^item> \<open>Prelude\<close>, \<open>Go_Strings\<close>, \<open>Go_Json\<close>, \<open>Go_Json_Roundtrip\<close>, \<open>Go_Base64\<close>, \<open>Go_Http\<close>: what the program uses of Go and
    its standard library. Integers are words of their width, strings and byte slices lists, a failing call a
    sum or an option, a panic the outer \<open>None\<close>. Go's conversions of floating point numbers to text and back
    are the parameter \<open>strconv\<close>, whose laws are the predicate \<open>strconv_ok\<close>.
  \<^item> \<open>Uuid\<close> (\<open>schema/uuid.go\<close>) and \<open>Schema\<close> (\<open>schema/schema.go\<close>): identifiers, and the JSON forms of the records,
    which are read back from the head of a stream.
  \<^item> \<open>Mutation_Log\<close>: the operations of \<open>store.go\<close> on a file, one at a time; the locale \<open>durable_log\<close> is the contract
    of an append-only log and its interpretation \<open>store\<close> the refinement. \<open>Log_Protocol\<close>: the same code as a step
    relation of clients, closers and the writer over the channel, the file and what of it is synced.
  \<^item> \<open>Jwt_Methods\<close> (\<open>hmac.go\<close>, \<open>none.go\<close>, \<open>rsa.go\<close>, \<open>rsa_pss.go\<close>, \<open>ecdsa.go\<close>, \<open>signing_method.go\<close> and the readers of keys): the locale
    \<open>signing\<close> is the contract of a signing method, interpreted for each; the primitives of the standard library are the
    parameter \<open>crypto\<close>. \<open>Jwt\<close> (\<open>token.go\<close>, \<open>parser.go\<close>, \<open>errors.go\<close>): tokens over any registered method.
  \<^item> \<open>Pgx_Wire\<close> (\<open>messages.go\<close>, \<open>msg_reader.go\<close>, \<open>value_reader.go\<close>), \<open>Pgx_Values\<close> and \<open>Pgx_Hstore\<close> (\<open>values.go\<close>, \<open>hstore.go\<close>;
    the locale \<open>element_codec\<close> is the contract of array elements), \<open>Pgx_Floats\<close>, \<open>Pgx_Times\<close>, \<open>Pgx_Inet\<close> and \<open>Pgx_Kinds\<close> (the other types of
    \<open>values.go\<close>: numbers as their bits, times with the zones of the machine as a parameter, addresses), \<open>Pgx_Conn\<close> (\<open>conn.go\<close>, \<open>query.go\<close>), \<open>Pgx_Pool\<close>
    (\<open>conn_pool.go\<close>, over a heap of connections, with the calls of clients as steps), \<open>Pgx_Notify\<close> (waiting for notifications against
    a clock), \<open>Pgx_Tx\<close> (\<open>tx.go\<close>), \<open>Pgx_LargeObjects\<close> (\<open>fastpath.go\<close>, \<open>large_objects.go\<close>), \<open>Pgx_RowValues\<close> (\<open>Rows.Values\<close> and values of
    \<open>database/sql\<close>), \<open>Pgx_Stdlib\<close> (\<open>stdlib/sql.go\<close>, the driver for \<open>database/sql\<close>), \<open>Pgx_Logger\<close> (\<open>logger.go\<close>) and
    \<open>Pgx_Session\<close>, the exchanges of messages the engine relies on. The server side of a connection is the
    sequence of bytes still to be read from it, which nothing is assumed of unless a lemma says so.
    \<open>Pgx_Connect\<close> opens a connection (dialing, TLS and its fallback, authentication, loading of the table of types), with
    the network as the parameter \<open>net_api\<close>; \<open>Pgx_Connected\<close> has its theorems. \<open>Pgx_Dsn\<close> reads data source names.
  \<^item> \<open>Query_Engine\<close> (the operations of \<open>postgres.go\<close>; the locale \<open>good_writer\<close> is the contract of a writer that results
    are streamed to), \<open>Engine_Startup\<close> (\<open>postgres.go\<close> from \<open>cpConfig\<close> on, \<open>writer.go\<close>, \<open>userid.go\<close>, with the operating
    system as the parameter \<open>os_api\<close>) and \<open>Log_Formatter\<close> (\<open>logging.go\<close> with the colours of \<open>mgutz/ansi\<close>).
  \<^item> \<open>Blowfish_Tables\<close>, \<open>Blowfish\<close> (\<open>x/crypto/blowfish\<close>) and \<open>User_Password\<close> (\<open>x/crypto/bcrypt\<close>, \<open>schema/user.go\<close>).
  \<^item> \<open>Graceful\<close> (\<open>graceful.v1\<close>): the goroutines behind \<open>Serve\<close> and \<open>Stop\<close> as a step relation. \<open>Net_Limit\<close>
    (\<open>x/net/netutil/listen.go\<close>): the listener with a limit of connections, in the same way.
  \<^item> \<open>Flags_Tags\<close> (\<open>multitag.go\<close>, \<open>convert.go\<close>, \<open>option.go\<close>, \<open>group.go\<close> of \<open>go-flags\<close>: the options that a struct describes) and \<open>Flags_Parser\<close>
    (\<open>parser.go\<close>, \<open>optstyle_other.go\<close>: the command line). Options are named by their place in a list, so an option that is set is seen
    through every look-up table. \<open>Arla_Main\<close> has the options of \<open>Config\<close> and \<open>main\<close>.
  \<^item> \<open>Server_Errors\<close> (\<open>errors.go\<close>), \<open>Server\<close> (handlers, routes and their wrappers), \<open>Server_Lifecycle\<close> (\<open>Start\<close>, \<open>Stop\<close>,
    \<open>Run\<close>, \<open>Wait\<close>) and \<open>Exec_Interleaving\<close>, where any number of requests run \<open>execHandler\<close> at once.

  A definition carries the name of the Go function it translates, with the receiver as a prefix where two
  would clash (\<open>rows_Close\<close>, \<open>pool_Exec\<close>); a struct is a record whose selectors are the field names with a prefix.
  State is passed explicitly, in the order in which the code evaluates.

  \<^bold>\<open>What is shown.\<close>

  \<^item> The program: where every setting comes from, that it does not start without a secret, and that an empty secret passes for one and
    lets anyone in.
  \<^item> Requests: what an authorised mutation does from the request to the answer and the log, that nothing is
    answered with success before it is synced, that \<open>/exec\<close> and \<open>/query\<close> run only for a valid token, that a login
    opens them, and which answers errors give.
  \<^item> The log: acknowledged mutations survive a crash, the file is in channel order, an intact log is replayed
    and streamed completely, the log refines an append-only list, waiting clients are answered as long as
    the writer runs and never afterwards.
  \<^item> Concurrent requests: every mutation the database accepted is accounted for exactly once; the order in
    the log may differ from the order in the database.
  \<^item> The database side: messages and values of every type are read back as written, reads stay inside a message, connections
    of the pool are held by one client only, transactions hold theirs until they end, a query streams exactly
    the value of the database, startup initialises once and leaves a ready engine, a new connection has loaded the types of its server and is
    idle, required TLS sends nothing in clear, a fallback can fail on what the first attempt left unread, and a function call that the server
    refuses leaves the connection one message behind, so that a failed commit is reported as a success. The driver for
    \<open>database/sql\<close> takes every commit that the server rolled back for a success; its rows only hold the types it means to let through.
  \<^item> Passwords: the password set is the one that matches, only 72 bytes count, and the cipher beneath is
    correct: both key schedules agree and making it never panics.
  \<^item> Shutdown: \<open>Serve\<close> returns after its connections ended or the timeout expired; a listener with a limit keeps to it.

  \<^bold>\<open>Loops and bounds.\<close> Loops over the bytes of a connection are total: each turn reads at least one byte of what is
  pending. \<open>Replay\<close> has the length of the file plus one as its fuel, because each turn of its decoder takes at least
  one byte. Waiting for the database polls as often as the code, twenty times. Three loops need not end and are
  partial functions into \<open>option\<close>: the chunks of \<open>jsonbytes_Scan\<close>, for which the condition of termination is proved, \<open>BeginIso\<close> of the
  pool, which retries on dead connections, and \<open>WaitForNotification\<close>, which returns once the clock passes its end. The cost of bcrypt is at most 31, so its round counter
  does not overflow.

  \<^bold>\<open>Not modelled.\<close> Of \<open>pgx\<close>: connection URIs, which rest on \<open>net/url\<close>, the calls of the logger inside the other operations,
  which nothing depends on, and the registration of drivers with \<open>database/sql\<close>. Of \<open>go-flags\<close>: commands, positional arguments, nested structs, fields that are
  floats, maps, pointers or convert themselves, completion, the text of the help, ini files and manual pages; \<open>Config\<close> has none of them. \<open>querystore/handler.go\<close>
  has no code in its handler. The rest of \<open>golang.org/x\<close> is not used by the server. The JavaScript and SQL inside the database are other languages;
  their answers are the bytes the connection reads.
\<close>

end
